(* ===== verification/BFT_Prelude.thy ===== *)
theory BFT_Prelude
  imports Complex_Main "HOL-Library.Product_Lexorder" "HOL-Library.Multiset"
begin

text \<open>
  Shared vocabulary of the development: Python's exceptions as values, the
  sequencing of operations that may raise, insertion-ordered dictionaries,
  Python's \<^verbatim>\<open>str.strip\<close> and \<^verbatim>\<open>str.lower\<close>, quorum arithmetic, and two interfaces
  that every component implements: a machine whose operations keep an
  invariant and never raise, and a quorum system of \<open>3 f + 1\<close> members.
\<close>

section \<open>Proof collections\<close>

named_theorems frame_simps \<open>fields that an operation leaves unchanged\<close>
named_theorems honest_simps \<open>equations of the operations for a correct replica\<close>
named_theorems keeps_inv \<open>operations that keep the replica invariant\<close>

section \<open>Exceptions as values\<close>

datatype py_error = ValueError | RuntimeError | KeyError | IndexError | AttributeError | AssertionError | TypeError | ZeroDivisionError

definition bindE :: "'e + 'a \<Rightarrow> ('a \<Rightarrow> 'e + 'b) \<Rightarrow> 'e + 'b" where
  "bindE m f = (case m of Inl e \<Rightarrow> Inl e | Inr x \<Rightarrow> f x)"

lemma bindE_simps [simp]:
  "bindE (Inl e) f = Inl e"
  "bindE (Inr x) f = f x"
  by (simp_all add: bindE_def)

lemma bindE_eq_Inr: "bindE m f = Inr y \<longleftrightarrow> (\<exists>x. m = Inr x \<and> f x = Inr y)"
  by (cases m) auto

lemma bindE_cong [fundef_cong]:
  "m = m' \<Longrightarrow> (\<And>x. m' = Inr x \<Longrightarrow> f x = f' x) \<Longrightarrow> bindE m f = bindE m' f'"
  by (cases m') auto

text \<open>A guard clause \<^verbatim>\<open>if c: raise e\<close> in front of the rest of the body.\<close>

definition raise_if :: "bool \<Rightarrow> 'e \<Rightarrow> 'e + 'a \<Rightarrow> 'e + 'a" where
  "raise_if c e rest = (if c then Inl e else rest)"

lemma raise_if_eq_Inr [simp]: "raise_if c e rest = Inr y \<longleftrightarrow> \<not> c \<and> rest = Inr y"
  by (simp add: raise_if_def)

lemma raise_if_simps [simp]:
  "raise_if True e rest = Inl e" "raise_if False e rest = rest"
  by (simp_all add: raise_if_def)

text \<open>A \<^verbatim>\<open>for\<close> loop over a list whose body may raise.\<close>

fun foldE :: "('a \<Rightarrow> 's \<Rightarrow> 'e + 's) \<Rightarrow> 'a list \<Rightarrow> 's \<Rightarrow> 'e + 's" where
  "foldE f [] s = Inr s"
| "foldE f (x # xs) s = bindE (f x s) (foldE f xs)"

lemma foldE_inv:
  assumes "\<And>x s. x \<in> set xs \<Longrightarrow> P s \<Longrightarrow> \<exists>s'. f x s = Inr s' \<and> P s'" and "P s"
  shows "\<exists>s'. foldE f xs s = Inr s' \<and> P s'"
  using assms
proof (induction xs arbitrary: s)
  case (Cons x xs)
  then obtain s1 where "f x s = Inr s1" and "P s1" by (metis list.set_intros(1))
  moreover from this Cons obtain s2 where "foldE f xs s1 = Inr s2 \<and> P s2"
    by (metis list.set_intros(2))
  ultimately show ?case by auto
qed simp

lemma foldE_append: "foldE f (xs @ ys) s = bindE (foldE f xs s) (foldE f ys)"
proof (induction xs arbitrary: s)
  case (Cons x xs)
  then show ?case by (cases "f x s") auto
qed simp

lemma foldE_partial:
  assumes "foldE f xs s = Inr s'" "P s" "\<And>x s s'. x \<in> set xs \<Longrightarrow> P s \<Longrightarrow> f x s = Inr s' \<Longrightarrow> P s'"
  shows "P s'"
  using assms
proof (induction xs arbitrary: s)
  case (Cons x xs)
  then obtain t where "f x s = Inr t" "foldE f xs t = Inr s'" by (auto simp: bindE_eq_Inr)
  moreover have "P t" using Cons.prems(2,3) \<open>f x s = Inr t\<close> by (meson list.set_intros(1))
  ultimately show ?case using Cons.IH Cons.prems(3) by (metis list.set_intros(2))
qed simp

text \<open>An operation returns, and its result has a property.\<close>

definition okE :: "('a \<Rightarrow> bool) \<Rightarrow> 'e + 'a \<Rightarrow> bool" where
  "okE P m \<longleftrightarrow> (case m of Inl _ \<Rightarrow> False | Inr x \<Rightarrow> P x)"

lemma okE_simps [simp]:
  "okE P (Inl e) \<longleftrightarrow> False"
  "okE P (Inr x) \<longleftrightarrow> P x"
  "okE P (bindE m f) \<longleftrightarrow> okE (\<lambda>x. okE P (f x)) m"
  by (cases m; simp add: okE_def)+

lemma okE_mono: "okE P m \<Longrightarrow> (\<And>x. P x \<Longrightarrow> Q x) \<Longrightarrow> okE Q m"
  by (cases m) auto

lemma okE_any: "okE (\<lambda>_. True) m \<Longrightarrow> (\<And>x. P x) \<Longrightarrow> okE P m"
  by (erule okE_mono)

lemma okE_iff: "okE P m \<longleftrightarrow> (\<exists>x. m = Inr x \<and> P x)"
  by (cases m) auto

lemma foldE_okE:
  assumes "\<And>x s. x \<in> set xs \<Longrightarrow> P s \<Longrightarrow> okE P (f x s)" and "P s"
  shows "okE P (foldE f xs s)"
  using foldE_inv[of xs P f s] assms by (simp add: okE_iff)

section \<open>Insertion-ordered dictionaries\<close>

text \<open>Python's \<^verbatim>\<open>d[k] = v\<close>: an existing key keeps its place, a new key goes last.\<close>

fun dict_set :: "'k \<Rightarrow> 'v \<Rightarrow> ('k \<times> 'v) list \<Rightarrow> ('k \<times> 'v) list" where
  "dict_set k v [] = [(k, v)]"
| "dict_set k v ((k', v') # d) = (if k' = k then (k, v) # d else (k', v') # dict_set k v d)"

lemma map_of_dict_set [simp]: "map_of (dict_set k v d) = (map_of d)(k \<mapsto> v)"
  by (induction d) auto

lemma map_fst_dict_set:
  "map fst (dict_set k v d) = (if k \<in> fst ` set d then map fst d else map fst d @ [k])"
  by (induction d) (auto simp: rev_image_eqI)

lemma keys_dict_set: "fst ` set (dict_set k v d) = insert k (fst ` set d)"
  using arg_cong[OF map_fst_dict_set[of k v d], of set] by (auto split: if_splits)

lemma distinct_dict_set: "distinct (map fst d) \<Longrightarrow> distinct (map fst (dict_set k v d))"
  by (simp add: map_fst_dict_set)

lemma set_dict_set: "set (dict_set k v d) \<subseteq> insert (k, v) (set d)"
  by (induction d) (auto split: if_splits)

lemma dict_set_new: "map_of d k = None \<Longrightarrow> dict_set k v d = d @ [(k, v)]"
  by (induction d) (auto split: if_splits)

section \<open>Strings\<close>

text \<open>ASCII parts of \<^verbatim>\<open>str.strip()\<close> and \<^verbatim>\<open>str.lower()\<close>, on UTF-8 bytes.\<close>

definition is_space :: "char \<Rightarrow> bool" where
  "is_space c = (of_char c \<in> {9, 10, 11, 12, 13, 28, 29, 30, 31, 32 :: nat})"

definition py_strip :: "string \<Rightarrow> string" where
  "py_strip s = rev (dropWhile is_space (rev (dropWhile is_space s)))"

definition lower_char :: "char \<Rightarrow> char" where
  "lower_char c = (if 65 \<le> (of_char c :: nat) \<and> of_char c \<le> (90 :: nat)
     then char_of (of_char c + (32 :: nat)) else c)"

definition py_lower :: "string \<Rightarrow> string" where
  "py_lower s = map lower_char s"

section \<open>Quorum arithmetic\<close>

lemma card_Int_ge:
  assumes "finite U" "A \<subseteq> U" "B \<subseteq> U"
  shows "card A + card B \<le> card U + card (A \<inter> B)"
proof -
  have "finite A" "finite B" using assms by (auto intro: finite_subset)
  then have "card A + card B = card (A \<union> B) + card (A \<inter> B)" by (rule card_Un_Int)
  moreover have "card (A \<union> B) \<le> card U" using assms by (auto intro: card_mono)
  ultimately show ?thesis by simp
qed

lemma exists_outside:
  assumes "finite F" "card F < card A"
  shows "\<exists>x \<in> A. x \<notin> F"
  using assms card_mono[of F A] by (meson leD subsetI)

text \<open>
  A system of \<open>3 f + 1\<close> members of which at most \<open>f\<close> are faulty. Two quorums of
  \<open>2 f + 1\<close> members share a correct one; so do two sets of \<open>2 f\<close> members
  that avoid one faulty member (the certificates of backups under a faulty primary).
\<close>

locale quorum_system =
  fixes members :: "'a set" and f :: nat
  assumes finite_members: "finite members"
    and card_members: "card members = 3 * f + 1"
begin

lemma quorums_share_correct:
  assumes "A \<subseteq> members" "B \<subseteq> members" "2 * f + 1 \<le> card A" "2 * f + 1 \<le> card B"
    and "finite F" "card F \<le> f"
  shows "\<exists>x \<in> A \<inter> B. x \<notin> F"
proof -
  have "card F < card (A \<inter> B)"
    using card_Int_ge[OF finite_members assms(1,2)] card_members assms(3-6) by linarith
  then show ?thesis using assms(5) by (rule exists_outside[rotated])
qed

lemma backups_share_correct:
  assumes "p \<in> members" "p \<in> F" "A \<subseteq> members - {p}" "B \<subseteq> members - {p}"
    and "2 * f \<le> card A" "2 * f \<le> card B" "finite F" "card F \<le> f"
  shows "\<exists>x \<in> A \<inter> B. x \<notin> F"
proof -
  have "card (members - {p}) = 3 * f"
    using assms(1) card_members finite_members by simp
  then have "f \<le> card (A \<inter> B)"
    using card_Int_ge[of "members - {p}" A B] finite_members assms(3-6) by simp
  moreover have "card (F - {p}) < f"
    using assms(2,7,8) by (metis card_Diff1_less le_trans not_le)
  ultimately have "card (F - {p}) < card (A \<inter> B)" by simp
  then obtain x where "x \<in> A \<inter> B" "x \<notin> F - {p}"
    using assms(7) exists_outside[of "F - {p}" "A \<inter> B"] by auto
  then show ?thesis using assms(3) by blast
qed

lemma quorum_has_correct:
  assumes "A \<subseteq> members" "f + 1 \<le> card A" "finite F" "card F \<le> f"
  shows "\<exists>x \<in> A. x \<notin> F"
  using exists_outside[of F A] assms by simp

end

section \<open>Machines\<close>

text \<open>
  A component is a set of operations on a state, each of which may raise. The
  interface of a component promises an invariant under which no operation raises
  and which every operation keeps, and a preorder on states that operations follow
  (what only grows). Its clients get the same for every sequence of operations.
\<close>

locale machine =
  fixes exec :: "'op \<Rightarrow> 's \<Rightarrow> 'err + 's" and inv :: "'s \<Rightarrow> bool"
  assumes exec_keeps: "inv s \<Longrightarrow> \<exists>s'. exec a s = Inr s' \<and> inv s'"
begin

lemma exec_inv: "inv s \<Longrightarrow> exec a s = Inr s' \<Longrightarrow> inv s'"
  using exec_keeps[of s a] by auto

lemma run_keeps: "inv s \<Longrightarrow> \<exists>s'. foldE exec as s = Inr s' \<and> inv s'"
  using exec_keeps by (rule foldE_inv)

lemma run_inv: "inv s \<Longrightarrow> foldE exec as s = Inr s' \<Longrightarrow> inv s'"
  using run_keeps[of s as] by auto

end

locale ordered_machine = machine exec inv
  for exec :: "'op \<Rightarrow> 's \<Rightarrow> 'err + 's" and inv :: "'s \<Rightarrow> bool" +
  fixes le :: "'s \<Rightarrow> 's \<Rightarrow> bool"
  assumes le_refl: "le s s"
    and le_trans: "le s t \<Longrightarrow> le t u \<Longrightarrow> le s u"
    and exec_le: "inv s \<Longrightarrow> exec a s = Inr s' \<Longrightarrow> le s s'"
begin

lemma run_le: "inv s \<Longrightarrow> foldE exec as s = Inr s' \<Longrightarrow> le s s'"
proof (induction as arbitrary: s)
  case (Cons a as)
  from Cons.prems(1) obtain s1 where s1: "exec a s = Inr s1" "inv s1"
    using exec_keeps by blast
  with Cons.prems(2) have "foldE exec as s1 = Inr s'" by simp
  with Cons.IH s1(2) have "le s1 s'" by blast
  with exec_le[OF Cons.prems(1) s1(1)] show ?case by (rule le_trans)
qed (auto intro: le_refl)

end

text \<open>
  A weaker contract, for components that may raise or hang on hostile input: what an operation returns keeps
  the invariant and follows the preorder. Every ordered machine provides it.
\<close>

locale safe_machine =
  fixes exec :: "'op \<Rightarrow> 's \<Rightarrow> 'err + 's" and inv :: "'s \<Rightarrow> bool" and le :: "'s \<Rightarrow> 's \<Rightarrow> bool"
  assumes refl: "le s s"
    and trans: "le s t \<Longrightarrow> le t u \<Longrightarrow> le s u"
    and step_inv: "inv s \<Longrightarrow> exec a s = Inr s' \<Longrightarrow> inv s'"
    and step_le: "inv s \<Longrightarrow> exec a s = Inr s' \<Longrightarrow> le s s'"
begin

lemma returns_inv: "inv s \<Longrightarrow> foldE exec as s = Inr s' \<Longrightarrow> inv s'"
  by (rule foldE_partial[where P = inv]) (auto intro: step_inv)

lemma returns_le: "inv s \<Longrightarrow> foldE exec as s = Inr s' \<Longrightarrow> le s s'"
proof -
  assume "inv s" "foldE exec as s = Inr s'"
  then have "inv s' \<and> le s s'"
    by (intro foldE_partial[of exec as s s' "\<lambda>t. inv t \<and> le s t"])
      (auto intro: refl step_inv trans step_le)
  then show "le s s'" ..
qed

end

sublocale ordered_machine \<subseteq> safe: safe_machine exec inv le
  by unfold_locales (auto intro: le_refl le_trans exec_inv exec_le)

end
