(* ===== verification/Sha256.thy ===== *)
theory Sha256
  imports "HOL-Library.Word"
begin

text \<open>
  The SHA-256 hash of Python's \<^verbatim>\<open>hashlib\<close> (FIPS 180-4), which every protocol of the
  repository uses to derive digests, block hashes, value identifiers and ring
  positions. A \<^typ>\<open>string\<close> stands for the UTF-8 bytes of the Python string, so one
  \<^typ>\<open>char\<close> is one byte of the hashed message. The definitions compute; the
  lemmas show that a digest always has 64 lower-case hexadecimal characters.
\<close>

unbundle bit_operations_syntax

type_synonym u32 = "32 word"

definition rotr :: "nat \<Rightarrow> u32 \<Rightarrow> u32" where
  "rotr k x = push_bit (32 - k) x OR drop_bit k x"

definition shr :: "nat \<Rightarrow> u32 \<Rightarrow> u32" where
  "shr k x = drop_bit k x"

definition Ch :: "u32 \<Rightarrow> u32 \<Rightarrow> u32 \<Rightarrow> u32" where
  "Ch x y z = (x AND y) XOR (NOT x AND z)"

definition Maj :: "u32 \<Rightarrow> u32 \<Rightarrow> u32 \<Rightarrow> u32" where
  "Maj x y z = (x AND y) XOR (x AND z) XOR (y AND z)"

definition Sigma0 :: "u32 \<Rightarrow> u32" where
  "Sigma0 x = rotr 2 x XOR rotr 13 x XOR rotr 22 x"

definition Sigma1 :: "u32 \<Rightarrow> u32" where
  "Sigma1 x = rotr 6 x XOR rotr 11 x XOR rotr 25 x"

definition sigma0 :: "u32 \<Rightarrow> u32" where
  "sigma0 x = rotr 7 x XOR rotr 18 x XOR shr 3 x"

definition sigma1 :: "u32 \<Rightarrow> u32" where
  "sigma1 x = rotr 17 x XOR rotr 19 x XOR shr 10 x"

definition round_constants :: "u32 list" where
  "round_constants =
    [1116352408, 1899447441, 3049323471, 3921009573, 961987163, 1508970993, 2453635748, 2870763221,
     3624381080, 310598401, 607225278, 1426881987, 1925078388, 2162078206, 2614888103, 3248222580,
     3835390401, 4022224774, 264347078, 604807628, 770255983, 1249150122, 1555081692, 1996064986,
     2554220882, 2821834349, 2952996808, 3210313671, 3336571891, 3584528711, 113926993, 338241895,
     666307205, 773529912, 1294757372, 1396182291, 1695183700, 1986661051, 2177026350, 2456956037,
     2730485921, 2820302411, 3259730800, 3345764771, 3516065817, 3600352804, 4094571909, 275423344,
     430227734, 506948616, 659060556, 883997877, 958139571, 1322822218, 1537002063, 1747873779,
     1955562222, 2024104815, 2227730452, 2361852424, 2428436474, 2756734187, 3204031479, 3329325298]"

definition initial_hash :: "u32 list" where
  "initial_hash =
    [1779033703, 3144134277, 1013904242, 2773480762, 1359893119, 2600822924, 528734635, 1541459225]"

text \<open>Padding: the bit 1, zero bytes up to 56 modulo 64, the bit length as eight bytes.\<close>

definition be_bytes8 :: "nat \<Rightarrow> nat list" where
  "be_bytes8 x = map (\<lambda>i. (x div 256 ^ (7 - i)) mod 256) [0..<8]"

definition pad :: "nat list \<Rightarrow> nat list" where
  "pad bs = bs @ [128] @ replicate ((119 - length bs mod 64) mod 64) 0 @ be_bytes8 (8 * length bs)"

fun words_of :: "nat list \<Rightarrow> u32 list" where
  "words_of (a # b # c # d # bs) =
     word_of_nat (a * 16777216 + b * 65536 + c * 256 + d) # words_of bs"
| "words_of _ = []"

text \<open>The message schedule, newest word first: word \<open>t\<close> reads the words \<open>t - 2\<close>,
  \<open>t - 7\<close>, \<open>t - 15\<close> and \<open>t - 16\<close>.\<close>

fun extend_schedule :: "nat \<Rightarrow> u32 list \<Rightarrow> u32 list" where
  "extend_schedule 0 ws = ws"
| "extend_schedule (Suc k) ws =
     extend_schedule k ((sigma1 (ws ! 1) + ws ! 6 + sigma0 (ws ! 14) + ws ! 15) # ws)"

fun compress :: "(u32 \<times> u32) list \<Rightarrow> u32 list \<Rightarrow> u32 list" where
  "compress ((k, w) # kws) [a, b, c, d, e, f, g, h] =
     (let t1 = h + Sigma1 e + Ch e f g + k + w;
          t2 = Sigma0 a + Maj a b c
      in compress kws [t1 + t2, a, b, c, d + t1, e, f, g])"
| "compress _ st = st"

definition hash_block :: "u32 list \<Rightarrow> u32 list \<Rightarrow> u32 list" where
  "hash_block st ws =
     map2 (+) st (compress (zip round_constants (rev (extend_schedule 48 (rev ws)))) st)"

fun hash_blocks :: "nat \<Rightarrow> u32 list \<Rightarrow> u32 list \<Rightarrow> u32 list" where
  "hash_blocks 0 st ws = st"
| "hash_blocks (Suc k) st ws = hash_blocks k (hash_block st (take 16 ws)) (drop 16 ws)"

definition hex_digit :: "nat \<Rightarrow> char" where
  "hex_digit d = (''0123456789abcdef'' ! d)"

definition hex_of_word :: "u32 \<Rightarrow> string" where
  "hex_of_word w = map (\<lambda>i. hex_digit (unat w div 16 ^ (7 - i) mod 16)) [0..<8]"

definition sha256_words :: "string \<Rightarrow> u32 list" where
  "sha256_words m =
     (let ws = words_of (pad (map of_char m)) in hash_blocks (length ws div 16) initial_hash ws)"

definition sha256_hexdigest :: "string \<Rightarrow> string" where
  "sha256_hexdigest m = concat (map hex_of_word (sha256_words m))"

section \<open>The shape of a digest\<close>

lemma length_compress: "length (compress kws st) = length st"
  by (induction kws st rule: compress.induct) (simp_all add: Let_def)

lemma length_hash_blocks: "length (hash_blocks k st ws) = length st"
  by (induction k st ws rule: hash_blocks.induct) (simp_all add: hash_block_def length_compress)

lemma length_sha256_words: "length (sha256_words m) = 8"
  by (simp add: sha256_words_def length_hash_blocks initial_hash_def Let_def)

lemma length_sha256_hexdigest: "length (sha256_hexdigest m) = 64"
proof -
  have "map (length \<circ> hex_of_word) ws = replicate (length ws) 8" for ws
    by (induction ws) (simp_all add: hex_of_word_def)
  then show ?thesis
    by (simp add: sha256_hexdigest_def length_concat sum_list_replicate length_sha256_words)
qed

lemma set_sha256_hexdigest: "set (sha256_hexdigest m) \<subseteq> set ''0123456789abcdef''"
proof -
  have "hex_digit d \<in> set ''0123456789abcdef''" if "d < 16" for d
    unfolding hex_digit_def using that by (intro nth_mem) simp
  then show ?thesis by (auto simp: sha256_hexdigest_def hex_of_word_def simp del: set_simps)
qed

end
