(* ===== verification/Py_Text.thy ===== *)
theory Py_Text
  imports BFT_Prelude Sha256
begin

text \<open>Python's decimal text of integers, and subscripts of lists, as the protocol projects use them.\<close>

section \<open>Numbers as text\<close>

text \<open>\<^verbatim>\<open>str\<close> of an \<^verbatim>\<open>int\<close>.\<close>

function nat_str :: "nat \<Rightarrow> string" where
  "nat_str n = (if n < 10 then [hex_digit n] else nat_str (n div 10) @ [hex_digit (n mod 10)])"
  by pat_completeness auto
termination by (relation "measure id") auto

declare nat_str.simps [simp del]

definition int_str :: "int \<Rightarrow> string" where
  "int_str i = (if i < 0 then CHR ''-'' # nat_str (nat (- i)) else nat_str (nat i))"

text \<open>Different integers have different texts.\<close>

definition num_char :: "char \<Rightarrow> bool" where
  "num_char c \<longleftrightarrow> c \<in> set ''-0123456789''"

lemma hex_digit_num: "n < 10 \<Longrightarrow> num_char (hex_digit n) \<and> hex_digit n \<noteq> CHR ''-''"
proof -
  assume "n < 10"
  then have "n \<in> {0, 1, 2, 3, 4, 5, 6, 7, 8, 9}" by auto
  then show ?thesis by (auto simp: hex_digit_def num_char_def)
qed

lemma hex_digit_inj: "m < 16 \<Longrightarrow> n < 16 \<Longrightarrow> hex_digit m = hex_digit n \<longleftrightarrow> m = n"
proof -
  have "distinct (map hex_digit [0..<16])" by (simp add: hex_digit_def upt_rec)
  moreover assume "m < 16" "n < 16"
  ultimately show ?thesis
    by (metis add_0 distinct_conv_nth length_map length_upt nth_map nth_upt minus_nat.diff_0)
qed

lemma nat_str_chars: "\<forall>c \<in> set (nat_str n). num_char c \<and> c \<noteq> CHR ''-''"
proof (induction n rule: nat_str.induct)
  case (1 n)
  then show ?case
    using hex_digit_num[of n] hex_digit_num[of "n mod 10"] by (subst nat_str.simps) auto
qed

lemma nat_str_nonempty [simp]: "nat_str n \<noteq> []"
  by (subst nat_str.simps) simp

lemma nat_str_inj: "nat_str m = nat_str n \<Longrightarrow> m = n"
proof (induction m arbitrary: n rule: nat_str.induct)
  case (1 m)
  have eq: "nat_str m = nat_str n" by fact
  show ?case
  proof (cases "m < 10")
    case True
    then have "nat_str m = [hex_digit m]" by (simp add: nat_str.simps[of m])
    with eq have "nat_str n = [hex_digit m]" by simp
    then have "length (nat_str n) = 1" by simp
    then have "n < 10" by (cases "n < 10") (simp_all add: nat_str.simps[of n])
    with True eq show ?thesis by (simp add: nat_str.simps[of m] nat_str.simps[of n] hex_digit_inj)
  next
    case False
    then have "length (nat_str m) \<noteq> 1" by (simp add: nat_str.simps[of m])
    then have n: "\<not> n < 10" using eq by (auto simp: nat_str.simps[of n])
    with False eq have "nat_str (m div 10) = nat_str (n div 10)" "hex_digit (m mod 10) = hex_digit (n mod 10)"
      by (simp_all add: nat_str.simps[of m] nat_str.simps[of n])
    with 1(1)[OF False, of "n div 10"] have "m div 10 = n div 10" "m mod 10 = n mod 10"
      by (simp_all add: hex_digit_inj)
    then show ?thesis by (metis mult_div_mod_eq)
  qed
qed

lemma int_str_chars: "\<forall>c \<in> set (int_str i). num_char c"
proof -
  have "num_char CHR ''-''" by (simp add: num_char_def)
  then show ?thesis using nat_str_chars by (auto simp: int_str_def)
qed

lemma int_str_nonempty [simp]: "int_str i \<noteq> []"
  by (simp add: int_str_def)

lemma int_str_inj: "int_str i = int_str j \<Longrightarrow> i = j"
proof -
  assume eq: "int_str i = int_str j"
  have head: "hd (nat_str k) \<noteq> CHR ''-''" for k
    using nat_str_chars[of k] by (metis hd_in_set nat_str_nonempty)
  show ?thesis
    using eq head[of "nat i"] head[of "nat j"]
    by (auto simp: int_str_def dest: nat_str_inj split: if_splits) (metis list.sel(1))+
qed

section \<open>Subscripts\<close>

text \<open>\<^verbatim>\<open>xs[i]\<close>: a negative index counts from the end.\<close>

definition py_nth :: "'a list \<Rightarrow> int \<Rightarrow> py_error + 'a" where
  "py_nth xs i = (if 0 \<le> i \<and> i < int (length xs) then Inr (xs ! nat i)
     else if i < 0 \<and> - i \<le> int (length xs) then Inr (xs ! nat (int (length xs) + i))
     else Inl IndexError)"

text \<open>\<^verbatim>\<open>sum(f(x) for x in xs)\<close> where \<open>f\<close> may raise.\<close>

definition sumE :: "('a \<Rightarrow> 'e + int) \<Rightarrow> 'a list \<Rightarrow> 'e + int" where
  "sumE f xs = foldE (\<lambda>x acc. bindE (f x) (\<lambda>v. Inr (acc + v))) xs 0"

lemma sumE_Inr_acc:
  "foldE (\<lambda>x acc. bindE (f x) (\<lambda>v. Inr (acc + v))) xs a = Inr t \<longleftrightarrow>
    (\<forall>x \<in> set xs. \<exists>v. f x = Inr v) \<and> t = a + sum_list (map (\<lambda>x. projr (f x)) xs)"
  by (induction xs arbitrary: a) (auto simp: bindE_eq_Inr algebra_simps)

lemma sumE_Inr: "sumE f xs = Inr t \<longleftrightarrow> (\<forall>x \<in> set xs. \<exists>v. f x = Inr v) \<and> t = sum_list (map (\<lambda>x. projr (f x)) xs)"
  unfolding sumE_def sumE_Inr_acc by simp

lemma sumE_const: "\<forall>x \<in> set xs. f x = Inr (g x) \<Longrightarrow> sumE f xs = Inr (sum_list (map g xs))"
  unfolding sumE_Inr by (simp cong: map_cong)

text \<open>\<^verbatim>\<open>[f(x) for x in xs]\<close> where \<open>f\<close> may raise.\<close>

fun mapE :: "('a \<Rightarrow> 'e + 'b) \<Rightarrow> 'a list \<Rightarrow> 'e + 'b list" where
  "mapE f [] = Inr []"
| "mapE f (x # xs) = bindE (f x) (\<lambda>y. bindE (mapE f xs) (\<lambda>ys. Inr (y # ys)))"

lemma mapE_const: "\<forall>x \<in> set xs. f x = Inr (g x) \<Longrightarrow> mapE f xs = Inr (map g xs)"
  by (induction xs) auto

end
