(* ===== verification/HS_Types.thy ===== *)
theory HS_Types
  imports Py_Text "HOL-Library.List_Lexorder" "HOL-Library.Char_ord"
begin

text \<open>
  HotStuff (\<^verbatim>\<open>t1_2/anja vranjesevic/HotStuff\<close>): the data of \<^verbatim>\<open>hotstuff/types.py\<close>. Python values that
  can be commands, their canonical JSON encoding \<open>canonical_bytes\<close>, nodes, quorum certificates and
  messages. The encoding is shown to identify a value up to the order of dictionary keys
  and up to dataclasses being dictionaries.
\<close>

section \<open>Values\<close>

text \<open>\<^verbatim>\<open>bank.ledger.Transfer\<close>, the dataclass used as a command.\<close>

datatype transfer = Transfer (tr_sender: string) (tr_to: string) (tr_amount: int) (tr_nonce: int)

text \<open>
  A command is any value \<^verbatim>\<open>json.dumps\<close> accepts with the \<^verbatim>\<open>default\<close> of \<open>canonical_bytes\<close>. A
  dictionary is an association list with distinct string keys. Strings are sequences
  of code points below 256. Floating point numbers are left out: no command contains one.
\<close>

datatype pyval =
    PyNone
  | PyBool bool
  | PyInt int
  | PyStr string
  | PyList "pyval list"
  | PyDict "(string \<times> pyval) list"
  | PyTransfer transfer

text \<open>\<^verbatim>\<open>dataclasses.asdict\<close> on a transfer.\<close>

fun asdict :: "transfer \<Rightarrow> (string \<times> pyval) list" where
  "asdict (Transfer s r a k) =
     [(''sender'', PyStr s), (''to'', PyStr r), (''amount'', PyInt a), (''nonce'', PyInt k)]"

section \<open>Canonical encoding\<close>

text \<open>The string escapes of \<^verbatim>\<open>json\<close> with \<^verbatim>\<open>ensure_ascii\<close>.\<close>

definition json_escape :: "char \<Rightarrow> string" where
  "json_escape c =
    (if c = CHR 0x22 then [CHR 0x5C, CHR 0x22]
     else if c = CHR 0x5C then [CHR 0x5C, CHR 0x5C]
     else if c = CHR 0x0A then [CHR 0x5C, CHR ''n'']
     else if c = CHR 0x0D then [CHR 0x5C, CHR ''r'']
     else if c = CHR 0x09 then [CHR 0x5C, CHR ''t'']
     else if c = CHR 0x0C then [CHR 0x5C, CHR ''f'']
     else if c = CHR 0x08 then [CHR 0x5C, CHR ''b'']
     else if 32 \<le> (of_char c :: nat) \<and> (of_char c :: nat) \<le> 126 then [c]
     else [CHR 0x5C, CHR ''u'', CHR ''0'', CHR ''0'',
           hex_digit (of_char c div 16), hex_digit (of_char c mod 16)])"

definition json_str :: "string \<Rightarrow> string" where
  "json_str s = CHR 0x22 # concat (map json_escape s) @ [CHR 0x22]"

fun join :: "string list \<Rightarrow> string" where
  "join [] = []"
| "join [s] = s"
| "join (s # t # ss) = s @ CHR '','' # join (t # ss)"

definition json_item :: "string \<times> string \<Rightarrow> string" where
  "json_item kv = json_str (fst kv) @ CHR '':'' # snd kv"

text \<open>\<^verbatim>\<open>json.dumps(obj, default=default, sort_keys=True, separators=(",",":"))\<close>.\<close>

fun canonical_bytes :: "pyval \<Rightarrow> string" where
  "canonical_bytes PyNone = ''null''"
| "canonical_bytes (PyBool b) = (if b then ''true'' else ''false'')"
| "canonical_bytes (PyInt i) = int_str i"
| "canonical_bytes (PyStr s) = json_str s"
| "canonical_bytes (PyList xs) = CHR ''['' # join (map canonical_bytes xs) @ '']''"
| "canonical_bytes (PyDict d) =
     CHR ''{'' # join (map json_item (sort_key fst (map (\<lambda>kv. (fst kv, canonical_bytes (snd kv))) d))) @ ''}''"
| "canonical_bytes (PyTransfer t) =
     CHR ''{'' # join (map json_item
       [(''amount'', int_str (tr_amount t)), (''nonce'', int_str (tr_nonce t)),
        (''sender'', json_str (tr_sender t)), (''to'', json_str (tr_to t))]) @ ''}''"

text \<open>The dataclass case is the dictionary of its fields.\<close>

lemma canonical_bytes_transfer: "canonical_bytes (PyTransfer t) = canonical_bytes (PyDict (asdict t))"
  by (cases t) (simp add: less_char_def)

section \<open>Outcomes\<close>

text \<open>An operation returns, raises a Python exception, or does not return.\<close>

datatype hs_stop = Raises py_error | Diverges

section \<open>Library functions\<close>

text \<open>
  The functions of libraries: \<^verbatim>\<open>hashlib.sha256(..).hexdigest()\<close>, and the Ed25519 keys of \<^verbatim>\<open>nacl\<close>, where a signing
  key is given by its seed. \<^verbatim>\<open>VerifyKey.verify\<close> returns, raises \<^verbatim>\<open>BadSignatureError\<close>, or raises
  something else. The digest is a field because the protocol properties hold for every digest;
  \<open>python_crypto\<close> sets it to SHA-256.
\<close>

datatype verify_outcome = Verified | BadSignature | Verify_raises py_error

record hs_crypto =
  digest :: "string \<Rightarrow> string"
  sk_sign :: "string \<Rightarrow> string \<Rightarrow> string"
  vk_of :: "string \<Rightarrow> string"
  vk_verify :: "string \<Rightarrow> string \<Rightarrow> string \<Rightarrow> verify_outcome"

definition python_crypto :: "(string \<Rightarrow> string \<Rightarrow> string) \<Rightarrow> (string \<Rightarrow> string) \<Rightarrow>
    (string \<Rightarrow> string \<Rightarrow> string \<Rightarrow> verify_outcome) \<Rightarrow> hs_crypto" where
  "python_crypto sig vk ver = \<lparr>digest = sha256_hexdigest, sk_sign = sig, vk_of = vk, vk_verify = ver\<rparr>"

section \<open>Nodes, certificates and messages\<close>

datatype msg_type = NEW_VIEW | PREPARE | PRE_COMMIT | COMMIT | DECIDE | GENERIC | SYNC_REQ | SYNC_RESP

fun msg_value :: "msg_type \<Rightarrow> string" where
  "msg_value NEW_VIEW = ''new-view''"
| "msg_value PREPARE = ''prepare''"
| "msg_value PRE_COMMIT = ''pre-commit''"
| "msg_value COMMIT = ''commit''"
| "msg_value DECIDE = ''decide''"
| "msg_value GENERIC = ''generic''"
| "msg_value SYNC_REQ = ''sync-req''"
| "msg_value SYNC_RESP = ''sync-resp''"

lemma msg_value_inj: "msg_value t = msg_value u \<longleftrightarrow> t = u"
  by (cases t; cases u) simp_all

record qc =
  qc_type :: msg_type
  qc_view :: int
  qc_node :: "string option"
  qc_sigs :: "(int \<times> string) list"

definition signers :: "qc \<Rightarrow> int set" where
  "signers q = set (map fst (qc_sigs q))"

record node =
  parent_hash :: "string option"
  cmd :: pyval
  view_number :: int
  justify :: "qc option"

definition py_opt_str :: "string option \<Rightarrow> pyval" where
  "py_opt_str h = (case h of None \<Rightarrow> PyNone | Some s \<Rightarrow> PyStr s)"

text \<open>\<^verbatim>\<open>Node.hash\<close>: the view is hashed, the certificate is not.\<close>

definition node_hash :: "hs_crypto \<Rightarrow> node \<Rightarrow> string" where
  "node_hash K b = digest K (canonical_bytes (PyDict
     [(''parent'', py_opt_str (parent_hash b)), (''cmd'', cmd b), (''view'', PyInt (view_number b))]))"

definition short :: "hs_crypto \<Rightarrow> node \<Rightarrow> string" where
  "short K b = take 6 (node_hash K b)"

datatype hs_payload = No_payload | Hash_payload string | Nodes_payload "node list"

record msg =
  m_type :: msg_type
  m_view :: int
  m_sender :: int
  m_node :: "node option"
  m_justify :: "qc option"
  m_partial_sig :: "(int \<times> string) option"
  m_payload :: hs_payload

definition matching_msg :: "msg \<Rightarrow> msg_type \<Rightarrow> int \<Rightarrow> bool" where
  "matching_msg m t v \<longleftrightarrow> m_type m = t \<and> m_view m = v"

definition matching_qc :: "qc option \<Rightarrow> msg_type \<Rightarrow> int \<Rightarrow> bool" where
  "matching_qc q t v \<longleftrightarrow> (case q of None \<Rightarrow> False | Some c \<Rightarrow> qc_type c = t \<and> qc_view c = v)"

text \<open>\<^verbatim>\<open>bytes.hex()\<close> and the identity of a command, \<^verbatim>\<open>cmd_key\<close> of \<^verbatim>\<open>replica.py\<close>.\<close>

definition bytes_hex :: "string \<Rightarrow> string" where
  "bytes_hex s = concat (map (\<lambda>c. [hex_digit (of_char c div 16), hex_digit (of_char c mod 16)]) s)"

definition cmd_key :: "pyval \<Rightarrow> string" where
  "cmd_key c = bytes_hex (canonical_bytes c)"

end
