(* ===== verification/HS_Encoding.thy ===== *)
theory HS_Encoding
  imports HS_Types
begin

text \<open>
  The canonical encoding of \<^verbatim>\<open>hotstuff/types.py\<close> identifies the encoded value: two
  values have the same \<open>canonical_bytes\<close> exactly when they are equal up to the order of dictionary keys
  and up to a dataclass being the dictionary of its fields. The argument is that the encoding is
  prefix free in front of the delimiters of JSON.
\<close>

section \<open>The encoding identifies the value\<close>

text \<open>Values up to the order of dictionary keys, with dataclasses as dictionaries.\<close>

fun canon :: "pyval \<Rightarrow> pyval" where
  "canon (PyList xs) = PyList (map canon xs)"
| "canon (PyDict d) = PyDict (sort_key fst (map (\<lambda>kv. (fst kv, canon (snd kv))) d))"
| "canon (PyTransfer t) =
     PyDict [(''amount'', PyInt (tr_amount t)), (''nonce'', PyInt (tr_nonce t)),
             (''sender'', PyStr (tr_sender t)), (''to'', PyStr (tr_to t))]"
| "canon v = v"

lemma insort_key_map:
  assumes "\<And>y. k (f y) = j y"
  shows "insort_key k (f x) (map f xs) = map f (insort_key j x xs)"
  by (induction xs) (simp_all add: assms)

lemma sort_key_map:
  assumes "\<And>y. k (f y) = j y"
  shows "sort_key k (map f xs) = map f (sort_key j xs)"
  by (induction xs) (simp_all add: insort_key_map[where k = k and f = f and j = j, OF assms])

definition dict_item :: "string \<times> pyval \<Rightarrow> string" where
  "dict_item kv = json_item (fst kv, canonical_bytes (snd kv))"

lemma canonical_bytes_dict:
  "canonical_bytes (PyDict d) = CHR ''{'' # join (map dict_item (sort_key fst d)) @ ''}''"
  by (simp add: dict_item_def[abs_def] comp_def sort_key_map[where j = fst])

lemma canon_dict: "canon (PyDict d) = PyDict (map (\<lambda>kv. (fst kv, canon (snd kv))) (sort_key fst d))"
  by (simp add: sort_key_map[where j = fst])

text \<open>What may follow an encoded value inside an encoding: nothing, a comma or a closing bracket.\<close>

definition delim :: "string \<Rightarrow> bool" where
  "delim r \<longleftrightarrow> r = [] \<or> hd r \<in> {CHR '','', CHR '']'', CHR ''}''}"

lemma delim_simps [simp]:
  "delim []" "delim (c # r) \<longleftrightarrow> c \<in> {CHR '','', CHR '']'', CHR ''}''}"
  by (simp_all add: delim_def)

subsection \<open>Numbers\<close>

lemma num_span:
  assumes "\<forall>c \<in> set s. num_char c" "\<forall>c \<in> set t. num_char c" "delim r" "delim r'" "s @ r = t @ r'"
  shows "s = t \<and> r = r'"
proof -
  have d: "delim q \<Longrightarrow> takeWhile num_char q = []" for q
    by (cases q) (auto simp: num_char_def)
  have "takeWhile num_char (s @ r) = s" "takeWhile num_char (t @ r') = t"
    using assms(1-4) d by (simp_all add: takeWhile_append2)
  with assms(5) show ?thesis by auto
qed

subsection \<open>Strings\<close>

lemma of_char_less: "(of_char c :: nat) < 256"
  by (cases c) (auto simp: of_char_def split: if_splits)

lemma of_char_split:
  fixes c d :: char
  assumes "of_char c div 16 = (of_char d div 16 :: nat)" "of_char c mod 16 = (of_char d mod 16 :: nat)"
  shows "c = d"
proof -
  have "of_char c = (of_char d :: nat)" using assms by (metis mult_div_mod_eq)
  then show ?thesis by simp
qed

lemma json_escape_head: "json_escape c \<noteq> [] \<and> hd (json_escape c) \<noteq> CHR 0x22"
  by (simp add: json_escape_def)

lemma json_escape_prefix:
  assumes "json_escape c @ r = json_escape d @ r'"
  shows "c = d \<and> r = r'"
proof -
  have hex: "hex_digit (of_char c div 16) = hex_digit (of_char d div 16) \<Longrightarrow>
      hex_digit (of_char c mod 16) = hex_digit (of_char d mod 16) \<Longrightarrow> c = d"
    using of_char_less[of c] of_char_less[of d] of_char_split[of c d]
    by (simp add: hex_digit_inj less_mult_imp_div_less)
  show ?thesis
    using assms hex by (simp add: json_escape_def split: if_splits)
qed

lemma json_chars_prefix:
  "concat (map json_escape s) @ CHR 0x22 # r = concat (map json_escape t) @ CHR 0x22 # r' \<Longrightarrow> s = t \<and> r = r'"
proof (induction s arbitrary: t)
  case Nil
  then show ?case
    using json_escape_head[of "hd t"] by (cases t; cases "json_escape (hd t)") auto
next
  case (Cons c s)
  show ?case
  proof (cases t)
    case Nil
    then show ?thesis
      using Cons.prems json_escape_head[of c] by (cases "json_escape c") auto
  next
    case (Cons d t')
    then have "json_escape c @ concat (map json_escape s) @ CHR 0x22 # r =
        json_escape d @ concat (map json_escape t') @ CHR 0x22 # r'"
      using Cons.prems by simp
    from json_escape_prefix[OF this] Cons.IH[of t'] Cons show ?thesis by simp
  qed
qed

lemma json_str_prefix: "json_str s @ r = json_str t @ r' \<Longrightarrow> s = t \<and> r = r'"
  unfolding json_str_def append_Cons append_assoc list.inject append_Nil
  by (erule conjE, erule json_chars_prefix)

subsection \<open>Lists and dictionaries\<close>

text \<open>A separator-joined sequence of encodings, up to its closing bracket.\<close>

lemma join_prefix:
  assumes "\<And>x y r r'. x \<in> set xs \<Longrightarrow> pr x @ r = pr y @ r' \<Longrightarrow> delim r \<Longrightarrow> delim r' \<Longrightarrow> cn x = cn y \<and> r = r'"
    and "\<And>x. pr x \<noteq> [] \<and> hd (pr x) \<noteq> b" "b \<in> {CHR '']'', CHR ''}''}"
    and "join (map pr xs) @ b # r = join (map pr ys) @ b # r'"
  shows "map cn xs = map cn ys \<and> r = r'"
  using assms(1,4)
proof (induction xs arbitrary: ys)
  case Nil
  show ?case
  proof (cases ys)
    case (Cons y zs)
    then have "hd (join (map pr ys) @ b # r') = hd (pr y)"
      using assms(2)[of y] by (cases zs) auto
    with Nil.prems(2) assms(2)[of y] show ?thesis by (metis append_Nil join.simps(1) list.sel(1) list.simps(8))
  qed (use Nil in simp)
next
  case (Cons x xs)
  show ?case
  proof (cases ys)
    case Nil
    have "hd (join (map pr (x # xs)) @ b # r) = hd (pr x)"
      using assms(2)[of x] by (cases xs) auto
    then show ?thesis
      using Cons.prems(2) Nil assms(2)[of x] by (metis append_Nil join.simps(1) list.sel(1) list.simps(8))
  next
    case ys: (Cons y zs)
    define rest where "rest us q = (if us = [] then b # q else CHR '','' # join (map pr us) @ b # q)" for us q
    have unfold: "join (map pr (u # us)) @ b # q = pr u @ rest us q" for u us q
      by (cases us) (simp_all add: rest_def)
    have d: "delim (rest us q)" for us q using assms(3) by (auto simp: rest_def)
    have "pr x @ rest xs r = pr y @ rest zs r'" using Cons.prems(2) unfold ys by simp
    then have x: "cn x = cn y" and eq: "rest xs r = rest zs r'"
      using Cons.prems(1)[of x "rest xs r" y "rest zs r'"] d by auto
    have b: "b \<noteq> CHR '',''" using assms(3) by auto
    have "xs = [] \<longleftrightarrow> zs = []"
      using eq b unfolding rest_def by (cases "xs = []"; cases "zs = []"; simp)
    with eq have "join (map pr xs) @ b # r = join (map pr zs) @ b # r'"
      unfolding rest_def by (cases "xs = []") simp_all
    then have "map cn xs = map cn zs \<and> r = r'"
      by (rule Cons.IH[rotated]) (rule Cons.prems(1), simp_all)
    with x ys show ?thesis by simp
  qed
qed

lemma dict_item_prefix:
  assumes "\<And>r r'. canonical_bytes (snd kv) @ r = canonical_bytes (snd kv') @ r' \<Longrightarrow> delim r \<Longrightarrow> delim r' \<Longrightarrow>
      canon (snd kv) = canon (snd kv') \<and> r = r'"
    and "dict_item kv @ r = dict_item kv' @ r'" "delim r" "delim r'"
  shows "(fst kv, canon (snd kv)) = (fst kv', canon (snd kv')) \<and> r = r'"
proof -
  have "json_str (fst kv) @ CHR '':'' # canonical_bytes (snd kv) @ r =
      json_str (fst kv') @ CHR '':'' # canonical_bytes (snd kv') @ r'"
    using assms(2) by (simp add: dict_item_def json_item_def)
  from json_str_prefix[OF this] assms(1)[of r r'] assms(3,4) show ?thesis by simp
qed

lemma dict_item_head: "dict_item kv \<noteq> [] \<and> hd (dict_item kv) \<noteq> CHR ''}''"
  by (simp add: dict_item_def json_item_def json_str_def)

text \<open>The first character tells the kind of value.\<close>

fun kind_of :: "pyval \<Rightarrow> nat" where
  "kind_of PyNone = 0"
| "kind_of (PyBool b) = (if b then 1 else 2)"
| "kind_of (PyInt i) = 3"
| "kind_of (PyStr s) = 4"
| "kind_of (PyList xs) = 5"
| "kind_of (PyDict d) = 6"
| "kind_of (PyTransfer t) = 6"

definition kind_char :: "char \<Rightarrow> nat" where
  "kind_char c = (if c = CHR ''n'' then 0 else if c = CHR ''t'' then 1 else if c = CHR ''f'' then 2
     else if c = CHR 0x22 then 4 else if c = CHR ''['' then 5 else if c = CHR ''{'' then 6 else 3)"

lemma canonical_bytes_nonempty: "canonical_bytes x \<noteq> []"
  by (cases x) (simp_all add: json_str_def)

lemma num_kind: "num_char c \<Longrightarrow> kind_char c = 3 \<and> c \<noteq> CHR '']''"
  by (auto simp: num_char_def kind_char_def)

lemma kind_char_of: "kind_char (hd (canonical_bytes x)) = kind_of x \<and> hd (canonical_bytes x) \<noteq> CHR '']''"
proof (cases x)
  case (PyInt i)
  then show ?thesis using num_kind int_str_chars[of i] hd_in_set[OF int_str_nonempty[of i]] by simp
qed (simp_all add: kind_char_def json_str_def)

lemma canon_transfer: "canon (PyTransfer t) = canon (PyDict (asdict t))"
  by (cases t) (simp add: less_char_def)

fun dict_of :: "pyval \<Rightarrow> (string \<times> pyval) list" where
  "dict_of (PyDict d) = d"
| "dict_of (PyTransfer t) = asdict t"
| "dict_of x = []"

lemma as_dict:
  "kind_of x = 6 \<Longrightarrow> canonical_bytes x = canonical_bytes (PyDict (dict_of x)) \<and> canon x = canon (PyDict (dict_of x))"
  using canonical_bytes_transfer canon_transfer by (cases x) (simp_all split: if_splits)

fun weight :: "pyval \<Rightarrow> nat" where
  "weight (PyList xs) = Suc (sum_list (map weight xs))"
| "weight (PyDict d) = Suc (sum_list (map (\<lambda>kv. weight (snd kv)) d))"
| "weight (PyTransfer t) = 1"
| "weight x = 0"

lemma weight_dict_of: "kind_of x = 6 \<Longrightarrow> kv \<in> set (dict_of x) \<Longrightarrow> weight (snd kv) < weight x"
proof (cases x)
  case (PyDict d)
  assume "kv \<in> set (dict_of x)"
  then show ?thesis
    using PyDict member_le_sum_list[of "weight (snd kv)" "map (\<lambda>kv. weight (snd kv)) d"] by auto
next
  case (PyTransfer t)
  assume "kv \<in> set (dict_of x)"
  then show ?thesis using PyTransfer by (cases t) auto
qed (simp_all split: if_splits)

lemma canonical_bytes_prefix:
  "canonical_bytes x @ r = canonical_bytes y @ r' \<Longrightarrow> delim r \<Longrightarrow> delim r' \<Longrightarrow> canon x = canon y \<and> r = r'"
proof (induction "weight x" arbitrary: x y r r' rule: less_induct)
  case less
  have IH: "weight u < weight x \<Longrightarrow> canonical_bytes u @ q = canonical_bytes v @ q' \<Longrightarrow> delim q \<Longrightarrow> delim q' \<Longrightarrow>
      canon u = canon v \<and> q = q'" for u v q q'
    using less.hyps .
  note eq = less.prems(1)
  have "hd (canonical_bytes x) = hd (canonical_bytes y)"
    using arg_cong[OF eq, of hd] canonical_bytes_nonempty by simp
  then have kind: "kind_of x = kind_of y" using kind_char_of by metis
  have dict: ?case if k: "kind_of x = 6"
  proof -
    let ?dx = "sort_key fst (dict_of x)" and ?dy = "sort_key fst (dict_of y)"
    let ?cn = "\<lambda>kv. (fst kv, canon (snd kv))"
    note x = as_dict[OF k] and y = as_dict[OF k[unfolded kind]]
    have "map ?cn ?dx = map ?cn ?dy \<and> r = r'"
    proof (rule join_prefix)
      show "join (map dict_item ?dx) @ CHR ''}'' # r = join (map dict_item ?dy) @ CHR ''}'' # r'"
        using eq unfolding x[THEN conjunct1] y[THEN conjunct1] canonical_bytes_dict by simp
    next
      fix u v q q'
      assume u: "u \<in> set ?dx" and e: "dict_item u @ q = dict_item v @ q'" "delim q" "delim q'"
      have "weight (snd u) < weight x" using u weight_dict_of[OF k, of u] by simp
      then show "?cn u = ?cn v \<and> q = q'"
        by (intro dict_item_prefix[OF _ e] IH)
    qed (use dict_item_head in auto)
    then show ?thesis unfolding x[THEN conjunct2] y[THEN conjunct2] canon_dict by simp
  qed
  show ?case
  proof (cases x)
    case (PyInt i)
    with kind obtain j where j: "y = PyInt j" by (cases y) (auto split: if_splits)
    have "int_str i = int_str j \<and> r = r'"
      using num_span[OF int_str_chars int_str_chars less.prems(2,3)] eq PyInt j by simp
    then show ?thesis using int_str_inj PyInt j by auto
  next
    case (PyStr s)
    with kind obtain t where t: "y = PyStr t" by (cases y) (auto split: if_splits)
    then have "json_str s @ r = json_str t @ r'" using eq PyStr by simp
    from json_str_prefix[OF this] show ?thesis using PyStr t by simp
  next
    case (PyList xs)
    with kind obtain ys where ys: "y = PyList ys" by (cases y) (auto split: if_splits)
    have "map canon xs = map canon ys \<and> r = r'"
    proof (rule join_prefix)
      show "join (map canonical_bytes xs) @ CHR '']'' # r = join (map canonical_bytes ys) @ CHR '']'' # r'"
        using eq PyList ys by simp
    next
      fix u v q q'
      assume "u \<in> set xs" "canonical_bytes u @ q = canonical_bytes v @ q'" "delim q" "delim q'"
      moreover have "weight u < weight x"
        using \<open>u \<in> set xs\<close> PyList member_le_sum_list[of "weight u" "map weight xs"] by auto
      ultimately show "canon u = canon v \<and> q = q'" by (intro IH)
    qed (use kind_char_of canonical_bytes_nonempty in auto)
    then show ?thesis using PyList ys by simp
  next
    case PyNone
    with kind eq show ?thesis by (cases y) (auto split: if_splits)
  next
    case (PyBool b)
    with kind eq show ?thesis by (cases y) (auto split: if_splits)
  qed (use dict in simp_all)
qed

lemma sort_key_idem: "sort_key k (sort_key k xs) = sort_key k xs"
proof -
  have "sorted (map k ys) \<Longrightarrow> sort_key k ys = ys" for ys
    by (induction ys) (auto simp: insort_is_Cons)
  then show ?thesis by simp
qed

lemma canonical_bytes_canon: "canonical_bytes (canon x) = canonical_bytes x"
proof (induction x rule: canon.induct)
  case (2 d)
  then have "map (dict_item \<circ> (\<lambda>kv. (fst kv, canon (snd kv)))) (sort_key fst d) = map dict_item (sort_key fst d)"
    by (simp add: dict_item_def)
  moreover have "sort_key fst (map (\<lambda>kv. (fst kv, canon (snd kv))) (sort_key fst d)) =
      map (\<lambda>kv. (fst kv, canon (snd kv))) (sort_key fst d)"
    by (simp add: sort_key_map[where j = fst] sort_key_idem)
  ultimately show ?case unfolding canon_dict canonical_bytes_dict by (simp only: map_map)
next
  case (3 t)
  then show ?case by (simp add: less_char_def)
qed (simp_all add: comp_def cong: map_cong)

lemma canonical_bytes_eq_iff: "canonical_bytes x = canonical_bytes y \<longleftrightarrow> canon x = canon y"
  using canonical_bytes_prefix[of x "[]" y "[]"] canonical_bytes_canon by (metis append_Nil2 delim_simps(1))

section \<open>Hashed and signed contents\<close>

lemma bytes_hex_inj: "bytes_hex s = bytes_hex t \<Longrightarrow> s = t"
proof (induction s arbitrary: t)
  case Nil
  then show ?case by (cases t) (simp_all add: bytes_hex_def)
next
  case (Cons c s)
  show ?case
  proof (cases t)
    case Nil
    then show ?thesis using Cons.prems by (simp add: bytes_hex_def)
  next
    case t: (Cons d t')
    have "hex_digit (of_char c div 16) = hex_digit (of_char d div 16)"
      "hex_digit (of_char c mod 16) = hex_digit (of_char d mod 16)" "bytes_hex s = bytes_hex t'"
      using Cons.prems t by (simp_all add: bytes_hex_def)
    then show ?thesis
      using Cons.IH[of t'] t of_char_less[of c] of_char_less[of d] of_char_split[of c d]
      by (simp add: hex_digit_inj less_mult_imp_div_less)
  qed
qed

lemma cmd_key_eq_iff: "cmd_key c = cmd_key d \<longleftrightarrow> canon c = canon d"
  unfolding cmd_key_def using bytes_hex_inj canonical_bytes_eq_iff by metis

definition node_content :: "node \<Rightarrow> pyval" where
  "node_content b = PyDict
     [(''parent'', py_opt_str (parent_hash b)), (''cmd'', cmd b), (''view'', PyInt (view_number b))]"

lemma py_opt_str_inj: "canon (py_opt_str g) = canon (py_opt_str h) \<longleftrightarrow> g = h"
  by (cases g; cases h) (simp_all add: py_opt_str_def)

lemma node_content_eq_iff:
  "canonical_bytes (node_content b) = canonical_bytes (node_content c) \<longleftrightarrow>
    parent_hash b = parent_hash c \<and> canon (cmd b) = canon (cmd c) \<and> view_number b = view_number c"
  unfolding canonical_bytes_eq_iff node_content_def
  by (auto simp: py_opt_str_inj less_char_def)

end
