(* ===== verification/HS_Crypto.thy ===== *)
theory HS_Crypto
  imports HS_Encoding
begin

text \<open>
  \<^verbatim>\<open>hotstuff/crypto.py\<close>: keys, signed votes, and building and verifying quorum certificates. A
  certificate verifies exactly when its signers are distinct members with valid signatures
  and reach the quorum; what is built from a quorum of valid votes verifies.
\<close>

section \<open>Operations\<close>

text \<open>\<^verbatim>\<open>SigningKey(bytes([i]) * 32)\<close>: a byte holds at most 255.\<close>

definition key_seed :: "nat \<Rightarrow> string" where
  "key_seed i = replicate 32 (char_of i)"

definition gen_keys :: "hs_crypto \<Rightarrow> nat \<Rightarrow> hs_stop + string list \<times> string list" where
  "gen_keys K n = raise_if (256 < n) (Raises ValueError)
     (let signing = map key_seed [0..<n] in Inr (signing, map (vk_of K) signing))"

definition vote_digest :: "msg_type \<Rightarrow> int \<Rightarrow> string option \<Rightarrow> string" where
  "vote_digest t v h = canonical_bytes (PyList [PyStr (msg_value t), PyInt v, py_opt_str h])"

definition sign_vote :: "hs_crypto \<Rightarrow> string \<Rightarrow> msg_type \<Rightarrow> int \<Rightarrow> string option \<Rightarrow> string" where
  "sign_vote K sk t v h = sk_sign K sk (vote_digest t v h)"

definition verify_vote :: "hs_crypto \<Rightarrow> string \<Rightarrow> msg_type \<Rightarrow> int \<Rightarrow> string option \<Rightarrow> string \<Rightarrow> hs_stop + bool" where
  "verify_vote K vk t v h sig =
    (case vk_verify K vk (vote_digest t v h) sig of
       Verified \<Rightarrow> Inr True | BadSignature \<Rightarrow> Inr False | Verify_raises e \<Rightarrow> Inl (Raises e))"

text \<open>\<^verbatim>\<open>xs[:k]\<close>.\<close>

definition py_prefix :: "int \<Rightarrow> 'a list \<Rightarrow> 'a list" where
  "py_prefix k xs = (if 0 \<le> k then take (nat k) xs else take (length xs - nat (- k)) xs)"

text \<open>The loop of \<open>build_qc\<close>: all votes alike, the first signature of every signer.\<close>

fun by_signer :: "msg_type \<Rightarrow> int \<Rightarrow> msg list \<Rightarrow> (int \<times> string) list \<Rightarrow> hs_stop + (int \<times> string) list" where
  "by_signer t v [] d = Inr d"
| "by_signer t v (m # ms) d =
     raise_if (\<not> (m_type m = t \<and> m_view m = v)) (Raises AssertionError)
       (case m_partial_sig m of
          None \<Rightarrow> Inl (Raises TypeError)
        | Some (rid, sig) \<Rightarrow> by_signer t v ms (if rid \<in> fst ` set d then d else dict_set rid sig d))"

definition build_qc :: "hs_crypto \<Rightarrow> msg list \<Rightarrow> int \<Rightarrow> hs_stop + qc" where
  "build_qc K votes quorum = (case votes of
     [] \<Rightarrow> Inl (Raises IndexError)
   | m # ms \<Rightarrow>
       let t = m_type m; v = m_view m; h = map_option (node_hash K) (m_node m) in
       bindE (by_signer t v votes [])
         (\<lambda>d. Inr \<lparr>qc_type = t, qc_view = v, qc_node = h, qc_sigs = py_prefix quorum (sort d)\<rparr>))"

text \<open>The loop of \<open>verify_qc\<close>; \<^const>\<open>None\<close> is its early \<^verbatim>\<open>return False\<close>.\<close>

fun verify_sigs :: "hs_crypto \<Rightarrow> string list \<Rightarrow> msg_type \<Rightarrow> int \<Rightarrow> string option \<Rightarrow> int list \<Rightarrow>
    (int \<times> string) list \<Rightarrow> hs_stop + int list option" where
  "verify_sigs K vks t v h seen [] = Inr (Some seen)"
| "verify_sigs K vks t v h seen ((rid, sig) # ss) =
     (if rid \<in> set seen \<or> \<not> (0 \<le> rid \<and> rid < int (length vks)) then Inr None
      else bindE (verify_vote K (vks ! nat rid) t v h sig)
        (\<lambda>ok. if \<not> ok then Inr None else verify_sigs K vks t v h (seen @ [rid]) ss))"

definition verify_qc :: "hs_crypto \<Rightarrow> qc \<Rightarrow> string list \<Rightarrow> int \<Rightarrow> hs_stop + bool" where
  "verify_qc K q vks quorum =
     bindE (verify_sigs K vks (qc_type q) (qc_view q) (qc_node q) [] (qc_sigs q))
       (\<lambda>r. Inr (case r of None \<Rightarrow> False | Some seen \<Rightarrow> quorum \<le> int (length seen)))"

section \<open>What a valid certificate is\<close>

lemma vote_digest_inj: "vote_digest t v h = vote_digest u w g \<longleftrightarrow> t = u \<and> v = w \<and> h = g"
  unfolding vote_digest_def canonical_bytes_eq_iff by (auto simp: py_opt_str_inj msg_value_inj)

text \<open>A signature of member \<open>rid\<close> on a vote.\<close>

definition valid_vote_sig :: "hs_crypto \<Rightarrow> string list \<Rightarrow> msg_type \<Rightarrow> int \<Rightarrow> string option \<Rightarrow> int \<times> string \<Rightarrow> bool" where
  "valid_vote_sig K vks t v h rs \<longleftrightarrow>
     0 \<le> fst rs \<and> fst rs < int (length vks) \<and> verify_vote K (vks ! nat (fst rs)) t v h (snd rs) = Inr True"

lemma verify_sigs_Some:
  "verify_sigs K vks t v h seen ss = Inr (Some all) \<longleftrightarrow>
    all = seen @ map fst ss \<and> distinct (map fst ss) \<and> set (map fst ss) \<inter> set seen = {} \<and>
    (\<forall>rs \<in> set ss. valid_vote_sig K vks t v h rs)"
proof (induction ss arbitrary: seen)
  case (Cons rs ss)
  obtain rid sig where rs: "rs = (rid, sig)" by force
  show ?case
    unfolding rs using Cons.IH[of "seen @ [rid]"]
    by (auto simp: bindE_eq_Inr valid_vote_sig_def split: if_splits)
qed auto

definition valid_qc :: "hs_crypto \<Rightarrow> string list \<Rightarrow> int \<Rightarrow> qc \<Rightarrow> bool" where
  "valid_qc K vks quorum q \<longleftrightarrow> distinct (map fst (qc_sigs q)) \<and> quorum \<le> int (length (qc_sigs q)) \<and>
     (\<forall>rs \<in> set (qc_sigs q). valid_vote_sig K vks (qc_type q) (qc_view q) (qc_node q) rs)"

lemma verify_qc_True: "verify_qc K q vks quorum = Inr True \<longleftrightarrow> valid_qc K vks quorum q"
  by (auto simp: verify_qc_def valid_qc_def bindE_eq_Inr verify_sigs_Some split: option.splits)

lemma valid_qc_signers:
  assumes "valid_qc K vks quorum q"
  shows "quorum \<le> int (card (signers q))" "signers q \<subseteq> {0..<int (length vks)}"
  using assms distinct_card[of "map fst (qc_sigs q)"]
  by (auto simp: valid_qc_def signers_def valid_vote_sig_def)

section \<open>Building\<close>

text \<open>
  Signatures are only compared by the sort when signers are equal, which does not happen: the
  signatures of a built certificate are those of distinct signers among the votes.
\<close>

lemma by_signer_Inr:
  assumes "by_signer t v ms d = Inr e" "distinct (map fst d)"
  shows "distinct (map fst e) \<and> set d \<subseteq> set e \<and>
    set e \<subseteq> set d \<union> {rs. \<exists>m \<in> set ms. m_partial_sig m = Some rs} \<and>
    fst ` set e = fst ` set d \<union> {rid. \<exists>m \<in> set ms. \<exists>s. m_partial_sig m = Some (rid, s)} \<and>
    (\<forall>m \<in> set ms. m_type m = t \<and> m_view m = v)"
  using assms
proof (induction ms arbitrary: d)
  case (Cons m ms)
  obtain rid sig where m: "m_partial_sig m = Some (rid, sig)" "m_type m = t \<and> m_view m = v"
    using Cons.prems by (auto split: option.splits)
  let ?d = "if rid \<in> fst ` set d then d else dict_set rid sig d"
  have d: "distinct (map fst ?d)" "by_signer t v ms ?d = Inr e"
    using Cons.prems m by (simp_all add: distinct_dict_set)
  have new: "rid \<notin> fst ` set d \<Longrightarrow> dict_set rid sig d = d @ [(rid, sig)]"
    by (rule dict_set_new) (simp add: map_of_eq_None_iff)
  from Cons.IH[OF d(2,1)] m new show ?case by (auto split: if_splits)
qed auto

lemma by_signer_total:
  "\<forall>m \<in> set ms. m_type m = t \<and> m_view m = v \<and> m_partial_sig m \<noteq> None \<Longrightarrow> \<exists>e. by_signer t v ms d = Inr e"
proof (induction ms arbitrary: d)
  case (Cons m ms)
  have "m_partial_sig m \<noteq> None" and mt: "m_type m = t" "m_view m = v" using Cons.prems by simp_all
  then obtain rid sig where m: "m_partial_sig m = Some (rid, sig)" by force
  have "\<exists>e. by_signer t v ms (if rid \<in> fst ` set d then d else dict_set rid sig d) = Inr e"
    using Cons.prems by (intro Cons.IH) simp
  with m mt show ?case by simp
qed simp

text \<open>A vote as the leader accepts it into its tally: signed by member \<open>rid\<close>, for one view and node.\<close>

definition valid_vote :: "hs_crypto \<Rightarrow> string list \<Rightarrow> msg_type \<Rightarrow> int \<Rightarrow> string option \<Rightarrow> int \<times> msg \<Rightarrow> bool" where
  "valid_vote K vks t v h rm \<longleftrightarrow> m_type (snd rm) = t \<and> m_view (snd rm) = v \<and>
     map_option (node_hash K) (m_node (snd rm)) = h \<and>
     (\<exists>sig. m_partial_sig (snd rm) = Some (fst rm, sig) \<and> valid_vote_sig K vks t v h (fst rm, sig))"

lemma build_qc_valid:
  assumes votes: "\<forall>rm \<in> set d. valid_vote K vks t v h rm" "distinct (map fst d)"
    and quorum: "0 < quorum" "quorum \<le> int (length d)"
  shows "\<exists>q. build_qc K (map snd d) quorum = Inr q \<and> qc_type q = t \<and> qc_view q = v \<and> qc_node q = h \<and>
    valid_qc K vks quorum q \<and> length (qc_sigs q) = nat quorum \<and> sorted (map fst (qc_sigs q)) \<and>
    signers q \<subseteq> set (map fst d)"
proof -
  obtain rm d' where d: "d = rm # d'" using quorum by (cases d) auto
  have all: "\<forall>m \<in> snd ` set d. m_type m = t \<and> m_view m = v \<and> m_partial_sig m \<noteq> None"
    using votes(1) by (auto simp: valid_vote_def)
  then obtain e where e: "by_signer t v (map snd d) [] = Inr e"
    using by_signer_total[of "map snd d" t v "[]"] by auto
  note E = by_signer_Inr[OF e, simplified]
  have rids: "fst ` set e = set (map fst d)"
  proof -
    have "fst ` set e = {rid. \<exists>x \<in> set d. \<exists>s. m_partial_sig (snd x) = Some (rid, s)}" using E by auto
    also have "\<dots> = set (map fst d)" using votes(1) by (force simp: valid_vote_def)
    finally show ?thesis .
  qed
  have len: "length e = length d"
    using E rids votes(2) distinct_card[of "map fst e"] distinct_card[of "map fst d"] by simp
  have sigs: "valid_vote_sig K vks t v h rs" if "rs \<in> set e" for rs
  proof -
    from E that obtain rm where "rm \<in> set d" "m_partial_sig (snd rm) = Some rs" by auto
    with votes(1) show ?thesis unfolding valid_vote_def by fastforce
  qed
  have srt: "distinct (map fst (sort e))" "sorted (map fst (sort e))"
  proof -
    show "distinct (map fst (sort e))"
      using distinct_card[of "map fst e"] E by (intro card_distinct) (metis length_map length_sort list.set_map set_sort)
    show "sorted (map fst (sort e))"
      by (rule sorted_map_mono[where f = fst, OF sorted_sort]) (auto simp: mono_on_def less_eq_prod_def)
  qed
  let ?q = "\<lparr>qc_type = t, qc_view = v, qc_node = h, qc_sigs = take (nat quorum) (sort e)\<rparr>"
  have "build_qc K (map snd d) quorum = Inr ?q"
    using e votes(1) quorum unfolding d build_qc_def by (simp add: py_prefix_def Let_def valid_vote_def)
  moreover have "valid_qc K vks quorum ?q"
    using srt(1) sigs len quorum
    by (auto simp: valid_qc_def take_map[symmetric] distinct_take min_def dest: in_set_takeD)
  moreover have "signers ?q \<subseteq> set (map fst d)"
    using rids image_mono[OF set_take_subset[of "nat quorum" "sort e"], of fst] by (simp add: signers_def)
  ultimately show ?thesis
    using len quorum srt(2) by (auto simp: take_map[symmetric] sorted_wrt_take min_def)
qed

end
