(* ===== verification/HS_Tree.thy ===== *)
theory HS_Tree
  imports HS_Crypto
begin

text \<open>
  \<^verbatim>\<open>hotstuff/tree.py\<close>: the block tree, and the loops over parent links that the tree and the replicas run
  (\<^verbatim>\<open>extends\<close>, \<^verbatim>\<open>execute\<close>, \<^verbatim>\<open>_first_missing_ancestor\<close>, \<^verbatim>\<open>on_sync_req\<close>, \<^verbatim>\<open>_register_branch\<close>). Nothing in the program
  keeps a parent link from leading back to the node, so a loop can run forever in principle. A loop gets
  two steps more than the tree has entries; \<open>Diverges\<close> is returned exactly when the
  loop would never end, and never when the links are acyclic.
\<close>

section \<open>The tree\<close>

definition GENESIS :: node where
  "GENESIS = \<lparr>parent_hash = None, cmd = PyNone, view_number = 0, justify = None\<rparr>"

abbreviation genesis_hash :: "hs_crypto \<Rightarrow> string" where
  "genesis_hash K \<equiv> node_hash K GENESIS"

definition GENESIS_QC :: "hs_crypto \<Rightarrow> qc" where
  "GENESIS_QC K = \<lparr>qc_type = PREPARE, qc_view = 0, qc_node = Some (genesis_hash K), qc_sigs = []\<rparr>"

type_synonym tree = "(string \<times> node) list"

definition init_tree :: "hs_crypto \<Rightarrow> tree" where
  "init_tree K = [(genesis_hash K, GENESIS)]"

definition tree_add :: "hs_crypto \<Rightarrow> node \<Rightarrow> tree \<Rightarrow> tree" where
  "tree_add K b t = dict_set (node_hash K b) b t"

definition tree_get :: "tree \<Rightarrow> string option \<Rightarrow> node option" where
  "tree_get t h = (case h of None \<Rightarrow> None | Some s \<Rightarrow> if s = [] then None else map_of t s)"

definition tree_has :: "tree \<Rightarrow> string \<Rightarrow> bool" where
  "tree_has t s \<longleftrightarrow> s \<in> fst ` set t"

section \<open>Loops over parent links\<close>

definition walk_fuel :: "tree \<Rightarrow> nat" where
  "walk_fuel t = length t + 2"

text \<open>The loop of \<^verbatim>\<open>extends\<close>.\<close>

fun extends_loop :: "hs_crypto \<Rightarrow> tree \<Rightarrow> string \<Rightarrow> nat \<Rightarrow> node option \<Rightarrow> hs_stop + bool" where
  "extends_loop K t h 0 cur = Inl Diverges"
| "extends_loop K t h (Suc k) None = Inr False"
| "extends_loop K t h (Suc k) (Some c) =
     (if node_hash K c = h then Inr True else extends_loop K t h k (tree_get t (parent_hash c)))"

definition extends :: "hs_crypto \<Rightarrow> tree \<Rightarrow> node \<Rightarrow> node \<Rightarrow> hs_stop + bool" where
  "extends K t b a = extends_loop K t (node_hash K a) (walk_fuel t) (Some b)"

definition conflicts :: "hs_crypto \<Rightarrow> tree \<Rightarrow> node \<Rightarrow> node \<Rightarrow> hs_stop + bool" where
  "conflicts K t a b = bindE (extends K t a b)
     (\<lambda>ab. if ab then Inr False else bindE (extends K t b a) (\<lambda>ba. Inr (\<not> ba)))"

text \<open>
  The loop of \<^verbatim>\<open>execute\<close>, \<^verbatim>\<open>commit\<close> and \<^verbatim>\<open>on_sync_req\<close>: collect nodes up to the first one in \<open>stop\<close>
  (the genesis block, or one that is executed already).
\<close>

fun collect :: "hs_crypto \<Rightarrow> tree \<Rightarrow> string set \<Rightarrow> nat \<Rightarrow> node option \<Rightarrow> hs_stop + node list" where
  "collect K t stop 0 cur = Inl Diverges"
| "collect K t stop (Suc k) None = Inr []"
| "collect K t stop (Suc k) (Some c) =
     (if node_hash K c \<in> stop then Inr []
      else bindE (collect K t stop k (tree_get t (parent_hash c))) (\<lambda>cs. Inr (c # cs)))"

definition chain_to :: "hs_crypto \<Rightarrow> tree \<Rightarrow> string set \<Rightarrow> node option \<Rightarrow> hs_stop + node list" where
  "chain_to K t stop cur = collect K t (insert (genesis_hash K) stop) (walk_fuel t) cur"

text \<open>The loop of \<^verbatim>\<open>_first_missing_ancestor\<close>.\<close>

fun missing_loop :: "hs_crypto \<Rightarrow> tree \<Rightarrow> string set \<Rightarrow> nat \<Rightarrow> node option \<Rightarrow> hs_stop + string option" where
  "missing_loop K t stop 0 cur = Inl Diverges"
| "missing_loop K t stop (Suc k) None = Inr None"
| "missing_loop K t stop (Suc k) (Some c) =
     (if node_hash K c \<in> stop then Inr None
      else case parent_hash c of
          None \<Rightarrow> missing_loop K t stop k (tree_get t None)
        | Some p \<Rightarrow> if p \<noteq> [] \<and> \<not> tree_has t p then Inr (Some p)
                    else missing_loop K t stop k (tree_get t (Some p)))"

definition first_missing :: "hs_crypto \<Rightarrow> tree \<Rightarrow> string set \<Rightarrow> node \<Rightarrow> hs_stop + string option" where
  "first_missing K t stop b = missing_loop K t (insert (genesis_hash K) stop) (walk_fuel t) (Some b)"

section \<open>The fuel is exact\<close>

fun ancestor :: "tree \<Rightarrow> nat \<Rightarrow> node option \<Rightarrow> node option" where
  "ancestor t 0 cur = cur"
| "ancestor t (Suc i) cur = (case cur of None \<Rightarrow> None | Some c \<Rightarrow> ancestor t i (tree_get t (parent_hash c)))"

lemma ancestor_None [simp]: "ancestor t i None = None"
  by (cases i) simp_all

lemma ancestor_add: "ancestor t (i + j) cur = ancestor t j (ancestor t i cur)"
  by (induction i arbitrary: cur) (auto split: option.splits)

lemma ancestor_Suc: "ancestor t (Suc i) cur = (case ancestor t i cur of None \<Rightarrow> None | Some c \<Rightarrow> tree_get t (parent_hash c))"
  using ancestor_add[of t i 1 cur] by (simp split: option.splits)

text \<open>A loop is still running after \<open>i\<close> steps when the \<open>i\<close>-th ancestor exists and does not end it.\<close>

definition running :: "tree \<Rightarrow> (node \<Rightarrow> bool) \<Rightarrow> node option \<Rightarrow> nat \<Rightarrow> bool" where
  "running t halt cur i \<longleftrightarrow> (\<exists>c. ancestor t i cur = Some c \<and> \<not> halt c)"

lemma running_None [simp]: "\<not> running t halt None i"
  by (simp add: running_def)

lemma running_0 [simp]: "running t halt (Some c) 0 \<longleftrightarrow> \<not> halt c"
  by (simp add: running_def)

lemma running_Suc [simp]: "running t halt (Some c) (Suc i) \<longleftrightarrow> running t halt (tree_get t (parent_hash c)) i"
  by (simp add: running_def)

lemma running_upto_Suc:
  "(\<forall>i < Suc k. running t halt (Some c) i) \<longleftrightarrow> \<not> halt c \<and> (\<forall>i < k. running t halt (tree_get t (parent_hash c)) i)"
  by (auto simp: less_Suc_eq_0_disj)

lemma extends_loop_Diverges:
  "extends_loop K t h k cur = Inl e \<longleftrightarrow> e = Diverges \<and> (\<forall>i < k. running t (\<lambda>c. node_hash K c = h) cur i)"
proof (induction k arbitrary: cur)
  case (Suc k)
  then show ?case by (cases cur) (auto simp: running_upto_Suc)
qed auto

lemma collect_Diverges:
  "collect K t stop k cur = Inl e \<longleftrightarrow> e = Diverges \<and> (\<forall>i < k. running t (\<lambda>c. node_hash K c \<in> stop) cur i)"
proof (induction k arbitrary: cur)
  case (Suc k)
  show ?case
  proof (cases cur)
    case (Some c)
    have "bindE m (\<lambda>cs. Inr (c # cs)) = Inl e \<longleftrightarrow> m = Inl e" for m :: "hs_stop + node list"
      by (cases m) auto
    then show ?thesis using Suc Some by (simp add: running_upto_Suc)
  qed (use Suc in auto)
qed auto

definition missing_halt :: "hs_crypto \<Rightarrow> tree \<Rightarrow> string set \<Rightarrow> node \<Rightarrow> bool" where
  "missing_halt K t stop c \<longleftrightarrow> node_hash K c \<in> stop \<or>
     (\<exists>p. parent_hash c = Some p \<and> p \<noteq> [] \<and> \<not> tree_has t p)"

lemma missing_loop_Diverges:
  "missing_loop K t stop k cur = Inl e \<longleftrightarrow> e = Diverges \<and> (\<forall>i < k. running t (missing_halt K t stop) cur i)"
proof (induction k arbitrary: cur)
  case (Suc k)
  show ?case
  proof (cases cur)
    case (Some c)
    then show ?thesis
      using Suc by (cases "parent_hash c") (auto simp: running_upto_Suc missing_halt_def)
  qed auto
qed auto

text \<open>Two ancestors reached through the same link: the loop repeats.\<close>

lemma repeated_link:
  assumes "\<forall>i < walk_fuel t. running t halt cur i"
  obtains i j c d h where "i < j" "j \<le> length t" "ancestor t i cur = Some c" "ancestor t j cur = Some d"
    "parent_hash c = Some h" "parent_hash d = Some h"
proof -
  define link where "link i = the (parent_hash (the (ancestor t i cur)))" for i
  have step: "\<exists>c. ancestor t i cur = Some c \<and> parent_hash c = Some (link i) \<and> link i \<in> fst ` set t"
    if "i \<le> length t" for i
  proof -
    have "running t halt cur i" "running t halt cur (Suc i)" using assms that by (auto simp: walk_fuel_def)
    then obtain c d where c: "ancestor t i cur = Some c" and d: "ancestor t (Suc i) cur = Some d"
      unfolding running_def by blast
    from d have "tree_get t (parent_hash c) = Some d" unfolding ancestor_Suc c by simp
    then obtain h where h: "parent_hash c = Some h" "map_of t h = Some d"
      by (auto simp: tree_get_def split: option.splits if_splits)
    then have "h \<in> fst ` set t" by (metis domI dom_map_of_conv_image_fst)
    with c h show ?thesis by (simp add: link_def)
  qed
  have "\<not> inj_on link {..length t}"
  proof
    assume "inj_on link {..length t}"
    then have "card {..length t} \<le> card (fst ` set t)"
      using step by (intro card_inj_on_le[of link]) auto
    also have "\<dots> \<le> length t" by (metis card_length length_map list.set_map)
    finally show False by simp
  qed
  then obtain i j where ij: "i \<le> length t" "j \<le> length t" "i \<noteq> j" "link i = link j"
    unfolding inj_on_def by auto
  from step[OF ij(1)] step[OF ij(2)] obtain c d where
    "ancestor t i cur = Some c" "parent_hash c = Some (link i)"
    "ancestor t j cur = Some d" "parent_hash d = Some (link i)" using ij(4) by auto
  then show ?thesis
    using that[of i j c d "link i"] that[of j i d c "link i"] ij by (cases "i < j") auto
qed

lemma ancestor_periodic:
  assumes "ancestor t a cur = ancestor t (a + p) cur"
  shows "ancestor t (a + k + p) cur = ancestor t (a + k) cur"
proof -
  have "ancestor t (a + k + p) cur = ancestor t k (ancestor t (a + p) cur)"
    by (metis add.assoc add.commute ancestor_add)
  also have "\<dots> = ancestor t (a + k) cur" unfolding assms[symmetric] by (simp add: ancestor_add)
  finally show ?thesis .
qed

lemma running_forever:
  assumes "\<forall>i < walk_fuel t. running t halt cur i"
  shows "running t halt cur i"
proof -
  obtain a b c d h where ab: "a < b" "b \<le> length t"
    and "ancestor t a cur = Some c" "ancestor t b cur = Some d" "parent_hash c = Some h" "parent_hash d = Some h"
    using repeated_link[OF assms] .
  then have rep: "ancestor t (Suc a) cur = ancestor t (Suc b) cur" unfolding ancestor_Suc by simp
  define p where "p = b - a"
  have p: "0 < p" "ancestor t (Suc a) cur = ancestor t (Suc a + p) cur" using ab rep by (simp_all add: p_def)
  show ?thesis
  proof (induction i rule: less_induct)
    case (less i)
    show ?case
    proof (cases "i < walk_fuel t")
      case False
      define k where "k = i - (Suc a + p)"
      have k: "i = Suc a + k + p" using False ab by (simp add: k_def p_def walk_fuel_def)
      then have "ancestor t i cur = ancestor t (Suc a + k) cur" using ancestor_periodic[OF p(2), of k] by (simp only:)
      moreover have "running t halt cur (Suc a + k)" using less p(1) k by simp
      ultimately show ?thesis by (simp add: running_def)
    qed (use assms in blast)
  qed
qed

lemma running_exact: "(\<forall>i < walk_fuel t. running t halt cur i) \<longleftrightarrow> (\<forall>i. running t halt cur i)"
  using running_forever by blast

section \<open>Acyclic links\<close>

text \<open>
  The parent links of the entries, child to parent. A cycle needs nodes that contain each other's SHA-256
  hashes; that none is ever made is the assumption behind every hash-linked chain.
\<close>

definition parent_links :: "tree \<Rightarrow> (string \<times> string) set" where
  "parent_links t = {(s, p). \<exists>b. map_of t s = Some b \<and> parent_hash b = Some p}"

definition acyclic_links :: "tree \<Rightarrow> bool" where
  "acyclic_links t \<longleftrightarrow> acyclic (parent_links t)"

lemma ancestor_linked:
  assumes "tree_get t (Some s) = Some b" "ancestor t k (tree_get t (Some s)) = Some c" "parent_hash c = Some p"
  shows "(s, p) \<in> (parent_links t)\<^sup>+"
  using assms
proof (induction k arbitrary: s b)
  case 0
  then have "(s, p) \<in> parent_links t"
    by (auto simp: parent_links_def tree_get_def split: if_splits)
  then show ?case ..
next
  case (Suc k)
  then obtain q where q: "parent_hash b = Some q" "ancestor t k (tree_get t (Some q)) = Some c"
    by (cases "parent_hash b") (auto simp: tree_get_def)
  then obtain d where "tree_get t (Some q) = Some d" by (cases "tree_get t (Some q)") auto
  with Suc q have "(q, p) \<in> (parent_links t)\<^sup>+" by blast
  moreover have "(s, q) \<in> parent_links t"
    using Suc.prems(1) q(1) by (auto simp: parent_links_def tree_get_def split: if_splits)
  ultimately show ?case by (rule trancl_into_trancl2[rotated])
qed

lemma acyclic_halts:
  assumes "acyclic_links t"
  shows "\<not> (\<forall>i < walk_fuel t. running t halt cur i)"
proof
  assume run: "\<forall>i < walk_fuel t. running t halt cur i"
  then obtain i j c d h where ij: "i < j" and c: "ancestor t i cur = Some c" and d: "ancestor t j cur = Some d"
    and h: "parent_hash c = Some h" "parent_hash d = Some h"
    using repeated_link by metis
  define k where "k = j - Suc i"
  have "ancestor t k (tree_get t (Some h)) = ancestor t (Suc i + k) cur"
    using c h(1) unfolding ancestor_add ancestor_Suc by simp
  with ij d have k: "ancestor t k (tree_get t (Some h)) = Some d" by (simp add: k_def)
  then obtain b where "tree_get t (Some h) = Some b" by (cases "tree_get t (Some h)") auto
  from ancestor_linked[OF this k h(2)] assms show False by (auto simp: acyclic_links_def acyclic_def)
qed

section \<open>What the loops compute\<close>

text \<open>Every entry is stored under its own hash, and the genesis block is there.\<close>

definition tree_ok :: "hs_crypto \<Rightarrow> tree \<Rightarrow> bool" where
  "tree_ok K t \<longleftrightarrow> distinct (map fst t) \<and> (\<forall>(s, b) \<in> set t. s = node_hash K b) \<and> tree_has t (genesis_hash K)"

lemma tree_ok_init [simp]: "tree_ok K (init_tree K)"
  by (simp add: tree_ok_def init_tree_def tree_has_def)

lemma tree_ok_add [simp]: "tree_ok K t \<Longrightarrow> tree_ok K (tree_add K b t)"
  using set_dict_set[of "node_hash K b" b t]
  by (fastforce simp: tree_ok_def tree_add_def tree_has_def distinct_dict_set keys_dict_set)

lemma tree_get_add: "tree_get (tree_add K b t) h =
    (if h = Some (node_hash K b) \<and> node_hash K b \<noteq> [] then Some b else tree_get t h)"
  by (auto simp: tree_get_def tree_add_def split: option.splits)

lemma tree_get_hash: "tree_ok K t \<Longrightarrow> tree_get t h = Some b \<Longrightarrow> h = Some (node_hash K b)"
  by (fastforce simp: tree_ok_def tree_get_def split: option.splits if_splits dest: map_of_SomeD)

lemma tree_has_add [simp]: "tree_has (tree_add K b t) s \<longleftrightarrow> s = node_hash K b \<or> tree_has t s"
  by (simp add: tree_has_def tree_add_def keys_dict_set)

lemma tree_get_has: "tree_has t s \<Longrightarrow> s \<noteq> [] \<Longrightarrow> \<exists>b. tree_get t (Some s) = Some b"
  by (cases "map_of t s") (auto simp: tree_has_def tree_get_def map_of_eq_None_iff)

lemma tree_get_None_iff: "tree_get t (Some s) = None \<longleftrightarrow> s = [] \<or> \<not> tree_has t s"
  by (auto simp: tree_has_def tree_get_def map_of_eq_None_iff)

lemma extends_loop_True:
  "extends_loop K t h k cur = Inr True \<longleftrightarrow> (\<exists>i < k. (\<exists>c. ancestor t i cur = Some c \<and> node_hash K c = h) \<and>
     (\<forall>j < i. running t (\<lambda>c. node_hash K c = h) cur j))"
proof (induction k arbitrary: cur)
  case (Suc k)
  show ?case
  proof (cases cur)
    case (Some c)
    show ?thesis
      unfolding Some by (cases "node_hash K c = h") (auto simp: Suc Ex_less_Suc2 All_less_Suc2)
  qed simp
qed simp

text \<open>When it returns, \<^verbatim>\<open>extends\<close> answers whether the hash of \<open>a\<close> lies on the parent chain of \<open>b\<close>.\<close>

definition on_chain :: "hs_crypto \<Rightarrow> tree \<Rightarrow> node \<Rightarrow> string \<Rightarrow> bool" where
  "on_chain K t b h \<longleftrightarrow> (\<exists>i c. ancestor t i (Some b) = Some c \<and> node_hash K c = h)"

lemma ancestor_downward: "ancestor t i cur = Some c \<Longrightarrow> j \<le> i \<Longrightarrow> \<exists>d. ancestor t j cur = Some d"
  using ancestor_add[of t j "i - j" cur] by (cases "ancestor t j cur") auto

lemma extends_iff:
  assumes "extends K t b a = Inr r"
  shows "r \<longleftrightarrow> on_chain K t b (node_hash K a)"
proof
  assume r
  with assms show "on_chain K t b (node_hash K a)"
    unfolding extends_def on_chain_def by (auto simp: extends_loop_True)
next
  let ?halt = "\<lambda>c. node_hash K c = node_hash K a"
  assume "on_chain K t b (node_hash K a)"
  then obtain i c where "ancestor t i (Some b) = Some c \<and> ?halt c" unfolding on_chain_def by blast
  then obtain i c where i: "ancestor t i (Some b) = Some c" "?halt c"
      and least: "\<And>j. j < i \<Longrightarrow> \<not> (\<exists>c. ancestor t j (Some b) = Some c \<and> ?halt c)"
    using exists_least_iff[of "\<lambda>i. \<exists>c. ancestor t i (Some b) = Some c \<and> ?halt c"] by metis
  have run: "\<forall>j < i. running t ?halt (Some b) j"
    using ancestor_downward[OF i(1)] least unfolding running_def by (metis less_imp_le)
  have "i < walk_fuel t"
  proof (rule ccontr)
    assume "\<not> i < walk_fuel t"
    then have "\<forall>j. running t ?halt (Some b) j" using run running_exact[of t ?halt "Some b"] by auto
    then show False using i unfolding running_def by (metis option.inject)
  qed
  then have "extends K t b a = Inr True"
    unfolding extends_def extends_loop_True using i run by blast
  with assms show r by simp
qed

lemma extends_total: "acyclic_links t \<Longrightarrow> extends K t b a = Inr (on_chain K t b (node_hash K a))"
  using extends_iff[of K t b a] extends_loop_Diverges[of K t "node_hash K a" "walk_fuel t" "Some b"]
    acyclic_halts[of t] by (cases "extends K t b a") (auto simp: extends_def)

lemma on_chain_refl: "on_chain K t b (node_hash K b)"
  unfolding on_chain_def by (intro exI[of _ 0]) simp

lemma on_chain_trans:
  assumes "on_chain K t c (node_hash K b)" "on_chain K t b h" "tree_ok K t"
    and same: "\<And>c'. node_hash K c' = node_hash K b \<Longrightarrow> c' = c \<or> (\<exists>s. tree_get t s = Some c') \<Longrightarrow> parent_hash c' = parent_hash b"
  shows "on_chain K t c h"
proof -
  obtain i c' where i: "ancestor t i (Some c) = Some c'" "node_hash K c' = node_hash K b"
    using assms(1) by (auto simp: on_chain_def)
  have "c' = c \<or> (\<exists>s. tree_get t s = Some c')"
  proof (cases i)
    case (Suc j)
    then show ?thesis using i(1) unfolding ancestor_Suc Suc by (auto split: option.splits)
  qed (use i in simp)
  then have par: "parent_hash c' = parent_hash b" using same i(2) by blast
  obtain j d where j: "ancestor t j (Some b) = Some d" "node_hash K d = h"
    using assms(2) by (auto simp: on_chain_def)
  have "\<exists>d'. ancestor t j (Some c') = Some d' \<and> node_hash K d' = h"
    using j i(2) par by (cases j) auto
  then show ?thesis using i(1) unfolding on_chain_def by (metis ancestor_add)
qed

lemma collect_Inr:
  assumes "collect K t stop k cur = Inr cs"
  shows "(\<forall>i < length cs. ancestor t i cur = Some (cs ! i) \<and> node_hash K (cs ! i) \<notin> stop) \<and>
    (\<forall>c. ancestor t (length cs) cur = Some c \<longrightarrow> node_hash K c \<in> stop)"
  using assms
proof (induction k arbitrary: cur cs)
  case (Suc k)
  show ?case
  proof (cases cur)
    case (Some c)
    show ?thesis
    proof (cases "node_hash K c \<in> stop")
      case False
      then obtain ds where "collect K t stop k (tree_get t (parent_hash c)) = Inr ds" "cs = c # ds"
        using Suc.prems Some by (auto simp: bindE_eq_Inr)
      with Suc.IH[of "tree_get t (parent_hash c)" ds] False Some show ?thesis by (simp add: All_less_Suc2)
    qed (use Suc Some in simp)
  qed (use Suc in simp)
qed simp

text \<open>The collected nodes are different blocks.\<close>

lemma collect_distinct:
  assumes "collect K t stop (walk_fuel t) (tree_get t h) = Inr cs" "tree_ok K t"
  shows "distinct (map (node_hash K) cs)"
proof (rule ccontr)
  assume "\<not> distinct (map (node_hash K) cs)"
  then obtain i j where ij: "i < j" "j < length cs" "node_hash K (cs ! i) = node_hash K (cs ! j)"
    unfolding distinct_conv_nth by (metis length_map nat_neq_iff nth_map)
  let ?cur = "tree_get t h"
  note C = collect_Inr[OF assms(1)]
  have got: "\<exists>s. tree_get t s = Some (cs ! m)" if "m < length cs" for m
  proof -
    have m: "ancestor t m ?cur = Some (cs ! m)" using C that by blast
    show ?thesis
    proof (cases m)
      case (Suc l)
      show ?thesis using m unfolding Suc ancestor_Suc by (auto split: option.splits)
    qed (use m in auto)
  qed
  have "cs ! i = cs ! j"
    using got[of i] got[of j] ij tree_get_hash[OF assms(2)] by (metis less_trans option.inject)
  then have per: "ancestor t i ?cur = ancestor t (i + (j - i)) ?cur" using C ij by simp
  have "running t (\<lambda>c. node_hash K c \<in> stop) ?cur m" for m
  proof (induction m rule: less_induct)
    case (less m)
    show ?case
    proof (cases "m < j")
      case True
      then show ?thesis using C ij by (auto simp: running_def)
    next
      case False
      have "ancestor t m ?cur = ancestor t (m - (j - i)) ?cur"
        using ancestor_periodic[OF per, of "m - j"] False ij(1) by (simp add: add.commute)
      then show ?thesis using less[of "m - (j - i)"] False ij(1) by (simp add: running_def)
    qed
  qed
  then have "collect K t stop (walk_fuel t) ?cur = Inl Diverges" by (simp add: collect_Diverges)
  with assms(1) show False by simp
qed

text \<open>
  Every block of the list has its parent in \<open>known\<close> or earlier in the list, unless it has no parent link.
\<close>

fun closed_from :: "hs_crypto \<Rightarrow> string set \<Rightarrow> node list \<Rightarrow> bool" where
  "closed_from K known [] \<longleftrightarrow> True"
| "closed_from K known (b # bs) \<longleftrightarrow>
     (parent_hash b \<in> {None, Some []} \<union> Some ` known) \<and> closed_from K (insert (node_hash K b) known) bs"

lemma closed_from_append [simp]:
  "closed_from K known (xs @ ys) \<longleftrightarrow> closed_from K known xs \<and> closed_from K (known \<union> node_hash K ` set xs) ys"
  by (induction xs arbitrary: known) (simp_all add: insert_commute)

lemma chain_closed:
  "missing_loop K t stop k cur = Inr None \<Longrightarrow> collect K t stop k' cur = Inr cs \<Longrightarrow> tree_ok K t \<Longrightarrow>
    closed_from K stop (rev cs)"
proof (induction k arbitrary: k' cur cs)
  case (Suc k)
  obtain j where k': "k' = Suc j" using Suc.prems(2) by (cases k') auto
  show ?case
  proof (cases cur)
    case (Some c)
    show ?thesis
    proof (cases "node_hash K c \<in> stop")
      case False
      obtain ds where ds: "collect K t stop j (tree_get t (parent_hash c)) = Inr ds" "cs = c # ds"
        using Suc.prems(2) False Some k' by (auto simp: bindE_eq_Inr)
      have rest: "missing_loop K t stop k (tree_get t (parent_hash c)) = Inr None"
        and has: "\<And>p. parent_hash c = Some p \<Longrightarrow> p \<noteq> [] \<Longrightarrow> tree_has t p"
        using Suc.prems(1) False Some by (auto split: option.splits if_splits)
      have "p \<in> stop \<union> node_hash K ` set ds" if p: "parent_hash c = Some p" "p \<noteq> []" for p
      proof -
        obtain d where d: "tree_get t (Some p) = Some d" using has tree_get_has p by blast
        then have hd: "node_hash K d = p" using tree_get_hash[OF Suc.prems(3)] by force
        show ?thesis
        proof (cases "p \<in> stop")
          case False
          then have "d \<in> set ds" using ds(1) d p hd by (cases j) (auto simp: bindE_eq_Inr)
          then show ?thesis using hd by auto
        qed simp
      qed
      then have "parent_hash c \<in> {None, Some []} \<union> Some ` (stop \<union> node_hash K ` set ds)"
        by (cases "parent_hash c") auto
      with Suc.IH[OF rest ds(1) Suc.prems(3)] ds(2) show ?thesis by simp
    qed (use Suc.prems Some k' in simp)
  qed (use Suc.prems k' in simp)
qed simp

end
