(* ===== verification/HS_Ledger.thy ===== *)
theory HS_Ledger
  imports HS_Types
begin

text \<open>
  The replicated state machine of the HotStuff project, \<^verbatim>\<open>bank/ledger.py\<close>: accounts, the nonces used,
  the outcome of every committed command. Money is conserved, no account goes
  negative, and the balances are exactly what the accepted transfers of the history add up to.
\<close>

section \<open>State and operations\<close>

definition OK :: string where "OK = ''OK''"
definition INSUFFICIENT :: string where "INSUFFICIENT = ''REJECT(insufficient_funds)''"
definition NONCE_REUSED :: string where "NONCE_REUSED = ''REJECT(nonce_reused)''"
definition MALFORMED :: string where "MALFORMED = ''REJECT(malformed)''"

lemmas outcome_defs = OK_def INSUFFICIENT_def NONCE_REUSED_def MALFORMED_def

lemma outcomes_distinct [simp]:
  "INSUFFICIENT \<noteq> OK" "NONCE_REUSED \<noteq> OK" "MALFORMED \<noteq> OK"
  "NONCE_REUSED \<noteq> INSUFFICIENT" "MALFORMED \<noteq> INSUFFICIENT" "OK \<noteq> INSUFFICIENT"
  by (simp_all add: outcome_defs)

record ledger =
  balances :: "(string \<times> int) list"
  initial_total :: int
  used_nonces :: "(string \<times> int) set"
  history :: "(pyval \<times> string) list"

text \<open>\<^verbatim>\<open>balances.get(k, 0)\<close> and \<^verbatim>\<open>sum(balances.values())\<close>.\<close>

definition balance :: "(string \<times> int) list \<Rightarrow> string \<Rightarrow> int" where
  "balance d k = (case map_of d k of None \<Rightarrow> 0 | Some v \<Rightarrow> v)"

definition total_of :: "(string \<times> int) list \<Rightarrow> int" where
  "total_of d = sum_list (map snd d)"

definition init_ledger :: "(string \<times> int) list \<Rightarrow> ledger" where
  "init_ledger d = \<lparr>balances = d, initial_total = total_of d, used_nonces = {}, history = []\<rparr>"

fun ledger_apply :: "pyval \<Rightarrow> ledger \<Rightarrow> ledger \<times> string" where
  "ledger_apply (PyTransfer (Transfer snd_acc to_acc amount nonce)) L =
    (let c = PyTransfer (Transfer snd_acc to_acc amount nonce) in
     if amount \<le> 0 \<or> snd_acc = to_acc then (L\<lparr>history := history L @ [(c, MALFORMED)]\<rparr>, MALFORMED)
     else
       let key = (snd_acc, nonce);
           (L', outcome) =
             (if key \<in> used_nonces L then (L, NONCE_REUSED)
              else if balance (balances L) snd_acc < amount
              then (L\<lparr>used_nonces := insert key (used_nonces L)\<rparr>, INSUFFICIENT)
              else
                let b1 = dict_set snd_acc (balance (balances L) snd_acc - amount) (balances L);
                    b2 = dict_set to_acc (balance b1 to_acc + amount) b1
                in (L\<lparr>balances := b2, used_nonces := insert key (used_nonces L)\<rparr>, OK))
       in (L'\<lparr>history := history L' @ [(c, outcome)]\<rparr>, outcome))"
| "ledger_apply c L = (L\<lparr>history := history L @ [(c, MALFORMED)]\<rparr>, MALFORMED)"

definition ledger_total :: "ledger \<Rightarrow> int" where
  "ledger_total L = total_of (balances L)"

definition check_invariants :: "ledger \<Rightarrow> bool" where
  "check_invariants L \<longleftrightarrow> ledger_total L = initial_total L \<and> (\<forall>v \<in> set (map snd (balances L)). 0 \<le> v)"

text \<open>The commands of a log, applied in order.\<close>

definition ledger_run :: "pyval list \<Rightarrow> ledger \<Rightarrow> ledger" where
  "ledger_run cs L = fold (\<lambda>c L. fst (ledger_apply c L)) cs L"

section \<open>Invariant\<close>

text \<open>The accepted transfers, and the money they bring to an account.\<close>

fun accepted :: "pyval \<times> string \<Rightarrow> transfer list" where
  "accepted (PyTransfer t, r) = (if r = OK then [t] else [])"
| "accepted (c, r) = []"

definition flow :: "string \<Rightarrow> transfer \<Rightarrow> int" where
  "flow a t = (if tr_to t = a then tr_amount t else 0) - (if tr_sender t = a then tr_amount t else 0)"

definition income :: "string \<Rightarrow> (pyval \<times> string) list \<Rightarrow> int" where
  "income a h = sum_list (map (flow a) (concat (map accepted h)))"

text \<open>The nonces consumed by a history, with multiplicity: rejected for lack of funds or accepted.\<close>

fun consumed :: "pyval \<times> string \<Rightarrow> (string \<times> int) list" where
  "consumed (PyTransfer t, r) = (if r = OK \<or> r = INSUFFICIENT then [(tr_sender t, tr_nonce t)] else [])"
| "consumed (c, r) = []"

definition ledger_inv :: "(string \<times> int) list \<Rightarrow> ledger \<Rightarrow> bool" where
  "ledger_inv d L \<longleftrightarrow>
     distinct (map fst (balances L)) \<and> check_invariants L \<and> initial_total L = total_of d \<and>
     (\<forall>a. balance (balances L) a = balance d a + income a (history L)) \<and>
     distinct (concat (map consumed (history L))) \<and>
     used_nonces L = set (concat (map consumed (history L)))"

lemma balance_dict_set [simp]: "balance (dict_set k v d) a = (if a = k then v else balance d a)"
  by (simp add: balance_def)

lemma total_dict_set: "distinct (map fst d) \<Longrightarrow> total_of (dict_set k v d) = total_of d + v - balance d k"
proof (induction d)
  case (Cons p d)
  have "k \<notin> fst ` set d \<Longrightarrow> map_of d k = None" by (simp add: map_of_eq_None_iff)
  with Cons show ?case by (cases p) (auto simp: total_of_def balance_def)
qed (simp add: total_of_def balance_def)

lemma income_snoc: "income a (h @ [e]) = income a h + sum_list (map (flow a) (accepted e))"
  by (simp add: income_def)

lemma nonneg_iff_balance:
  assumes "distinct (map fst d)"
  shows "(\<forall>v \<in> set (map snd d). 0 \<le> v) \<longleftrightarrow> (\<forall>a. 0 \<le> balance d a)"
proof
  assume nn: "\<forall>a. 0 \<le> balance d a"
  show "\<forall>v \<in> set (map snd d). 0 \<le> v"
  proof
    fix v assume "v \<in> set (map snd d)"
    then obtain k where "(k, v) \<in> set d" by auto
    then have "balance d k = v" using assms by (simp add: balance_def)
    with nn show "0 \<le> v" by metis
  qed
qed (force simp: balance_def split: option.splits dest: map_of_SomeD)

lemma ledger_inv_init:
  assumes "distinct (map fst d)" "\<forall>v \<in> set (map snd d). 0 \<le> v"
  shows "ledger_inv d (init_ledger d)"
  using assms by (auto simp: ledger_inv_def init_ledger_def check_invariants_def ledger_total_def income_def)

text \<open>One transfer, case by case.\<close>

lemma ledger_apply_cases:
  obtains (malformed) "ledger_apply c L = (L\<lparr>history := history L @ [(c, MALFORMED)]\<rparr>, MALFORMED)"
  | (reused) t where "c = PyTransfer t" "(tr_sender t, tr_nonce t) \<in> used_nonces L"
      "ledger_apply c L = (L\<lparr>history := history L @ [(c, NONCE_REUSED)]\<rparr>, NONCE_REUSED)"
  | (insufficient) t where "c = PyTransfer t" "(tr_sender t, tr_nonce t) \<notin> used_nonces L"
      "ledger_apply c L = (L\<lparr>used_nonces := insert (tr_sender t, tr_nonce t) (used_nonces L),
         history := history L @ [(c, INSUFFICIENT)]\<rparr>, INSUFFICIENT)"
  | (ok) t where "c = PyTransfer t" "(tr_sender t, tr_nonce t) \<notin> used_nonces L"
      "0 < tr_amount t" "tr_sender t \<noteq> tr_to t" "tr_amount t \<le> balance (balances L) (tr_sender t)"
      "ledger_apply c L = (L\<lparr>balances := dict_set (tr_to t) (balance (balances L) (tr_to t) + tr_amount t)
           (dict_set (tr_sender t) (balance (balances L) (tr_sender t) - tr_amount t) (balances L)),
         used_nonces := insert (tr_sender t, tr_nonce t) (used_nonces L),
         history := history L @ [(c, OK)]\<rparr>, OK)"
proof (cases "(c, L)" rule: ledger_apply.cases)
  case (1 s r a k L')
  let ?t = "Transfer s r a k"
  have c: "c = PyTransfer ?t" using 1 by simp
  consider "a \<le> 0 \<or> s = r" | "\<not> (a \<le> 0 \<or> s = r)" "(s, k) \<in> used_nonces L"
    | "\<not> (a \<le> 0 \<or> s = r)" "(s, k) \<notin> used_nonces L" "balance (balances L) s < a"
    | "\<not> (a \<le> 0 \<or> s = r)" "(s, k) \<notin> used_nonces L" "\<not> balance (balances L) s < a"
    by blast
  then show ?thesis
  proof cases
    case 1
    then show ?thesis using malformed c by simp
  next
    case 2
    then show ?thesis using reused[OF c] c by simp
  next
    case 3
    then show ?thesis using insufficient[OF c] c by simp
  next
    case 4
    then have "r \<noteq> s" by auto
    with 4 show ?thesis using ok[OF c] c by (simp add: Let_def not_less not_le)
  qed
qed (use malformed in auto)

lemma malformed_entry [simp]: "accepted (c, MALFORMED) = []" "consumed (c, MALFORMED) = []"
  by (cases c; simp)+

lemma ledger_inv_apply:
  assumes "ledger_inv d L"
  shows "ledger_inv d (fst (ledger_apply c L))"
proof (cases rule: ledger_apply_cases[of c L])
  case malformed
  then show ?thesis using assms
    by (simp add: ledger_inv_def check_invariants_def ledger_total_def income_snoc)
next
  case (reused t)
  then show ?thesis using assms
    by (simp add: ledger_inv_def check_invariants_def ledger_total_def income_snoc)
next
  case (insufficient t)
  then show ?thesis using assms
    by (simp add: ledger_inv_def check_invariants_def ledger_total_def income_snoc)
next
  case (ok t)
  let ?B = "balances L"
  define B1 where "B1 = dict_set (tr_sender t) (balance ?B (tr_sender t) - tr_amount t) ?B"
  define B2 where "B2 = dict_set (tr_to t) (balance ?B (tr_to t) + tr_amount t) B1"
  have inv: "distinct (map fst ?B)" "total_of ?B = initial_total L" "\<forall>a. 0 \<le> balance ?B a"
    "\<forall>a. balance ?B a = balance d a + income a (history L)"
    using assms nonneg_iff_balance by (auto simp: ledger_inv_def check_invariants_def ledger_total_def)
  have bal: "balance B2 a = balance ?B a + flow a t" for a
    using ok(4) by (simp add: B1_def B2_def flow_def)
  have dist: "distinct (map fst B1)" "distinct (map fst B2)"
    using inv(1) by (simp_all add: B1_def B2_def distinct_dict_set)
  have "total_of B1 = total_of ?B - tr_amount t"
    unfolding B1_def by (simp add: total_dict_set[OF inv(1)])
  moreover have "total_of B2 = total_of B1 + (balance ?B (tr_to t) + tr_amount t) - balance B1 (tr_to t)"
    unfolding B2_def by (rule total_dict_set[OF dist(1)])
  ultimately have tot: "total_of B2 = initial_total L" using inv(2) ok(4) by (simp add: B1_def)
  have "0 \<le> balance B2 a" for a using inv(3) ok(3,5) by (auto simp: bal flow_def)
  with tot dist(2) have chk: "total_of B2 = initial_total L \<and> (\<forall>v \<in> set (map snd B2). 0 \<le> v)"
    using nonneg_iff_balance by blast
  have res: "fst (ledger_apply c L) = L\<lparr>balances := B2,
      used_nonces := insert (tr_sender t, tr_nonce t) (used_nonces L), history := history L @ [(c, OK)]\<rparr>"
    using ok by (simp add: B1_def B2_def)
  show ?thesis
    unfolding res using assms chk dist(2) bal inv(4) ok(1,2)
    by (simp add: ledger_inv_def check_invariants_def ledger_total_def income_snoc)
qed

interpretation ledger: machine "\<lambda>c L. Inr (fst (ledger_apply c L))" "ledger_inv d" for d
  by unfold_locales (use ledger_inv_apply in blast)

lemma ledger_run_foldE: "foldE (\<lambda>c L. Inr (fst (ledger_apply c L))) cs L = Inr (ledger_run cs L)"
  by (induction cs arbitrary: L) (simp_all add: ledger_run_def)

lemma ledger_run_inv: "ledger_inv d L \<Longrightarrow> ledger_inv d (ledger_run cs L)"
  using ledger.run_inv ledger_run_foldE by blast

lemma ledger_apply_history: "history (fst (ledger_apply c L)) = history L @ [(c, snd (ledger_apply c L))]"
  by (cases rule: ledger_apply_cases[of c L]) simp_all

lemma ledger_run_history: "map fst (history (ledger_run cs L)) = map fst (history L) @ cs"
  by (induction cs arbitrary: L) (simp_all add: ledger_run_def ledger_apply_history)

end
