(* ===== verification/HS_Core.thy ===== *)
theory HS_Core
  imports HS_Tree HS_Ledger
begin

text \<open>
  What both HotStuff replicas share: the pacemaker (\<^verbatim>\<open>hotstuff/pacemaker.py\<close>), the simulated network
  (\<^verbatim>\<open>hotstuff/network.py\<close>), the attributes that \<^verbatim>\<open>Replica\<close> and \<^verbatim>\<open>ChainedReplica\<close> have in common, and the
  methods on them that the two classes write alike: recording certificates, verifying justifications,
  executing blocks, arming the timer.
\<close>

section \<open>Pacemaker\<close>

record pacemaker =
  pm_n :: int
  fixed_leader :: "int option"
  base_timeout :: real
  timeouts :: bool

text \<open>\<^verbatim>\<open>view % n\<close>; the number of replicas is positive.\<close>

definition leader :: "pacemaker \<Rightarrow> int \<Rightarrow> int" where
  "leader p v = (case fixed_leader p of Some l \<Rightarrow> l | None \<Rightarrow> v mod pm_n p)"

definition is_leader :: "pacemaker \<Rightarrow> int \<Rightarrow> int \<Rightarrow> bool" where
  "is_leader p v i \<longleftrightarrow> leader p v = i"

definition timeout_for :: "pacemaker \<Rightarrow> int \<Rightarrow> nat \<Rightarrow> real" where
  "timeout_for p v consecutive_failures = base_timeout p * 2 ^ consecutive_failures"

section \<open>Network\<close>

text \<open>
  A send starts a delivery task. The task first checks partitions and the drop probability (\<open>deliver_begin\<close>,
  with the random number as argument), sleeps, and then puts the message into the inbox (\<open>deliver_end\<close>). Sleeping tasks
  finish in any order. Tasks are addressed by their position.
\<close>

record network =
  net_n :: nat
  drop_prob :: real
  partitioned :: "int set"
  deliveries :: "(int \<times> msg) list"
  sleeping :: "(int \<times> msg) list"
  inboxes :: "int \<Rightarrow> msg list"

definition init_network :: "nat \<Rightarrow> real \<Rightarrow> network" where
  "init_network n d = \<lparr>net_n = n, drop_prob = d, partitioned = {}, deliveries = [], sleeping = [],
     inboxes = (\<lambda>_. [])\<rparr>"

definition partition :: "int \<Rightarrow> network \<Rightarrow> network" where
  "partition i N = N\<lparr>partitioned := insert i (partitioned N)\<rparr>"

definition heal :: "int \<Rightarrow> network \<Rightarrow> network" where
  "heal i N = N\<lparr>partitioned := partitioned N - {i}\<rparr>"

definition net_send :: "int \<Rightarrow> msg \<Rightarrow> network \<Rightarrow> network" where
  "net_send dst m N = N\<lparr>deliveries := deliveries N @ [(dst, m)]\<rparr>"

definition net_broadcast :: "msg \<Rightarrow> network \<Rightarrow> network" where
  "net_broadcast m N = fold (\<lambda>i. net_send (int i) m) [0..<net_n N] N"

definition remove_nth :: "nat \<Rightarrow> 'a list \<Rightarrow> 'a list" where
  "remove_nth k xs = take k xs @ drop (Suc k) xs"

definition deliver_begin :: "nat \<Rightarrow> real \<Rightarrow> network \<Rightarrow> network" where
  "deliver_begin k random N =
    (if k < length (deliveries N) then
       let (dst, m) = deliveries N ! k; N1 = N\<lparr>deliveries := remove_nth k (deliveries N)\<rparr> in
       if dst \<in> partitioned N \<or> m_sender m \<in> partitioned N then N1
       else if random < drop_prob N then N1
       else N1\<lparr>sleeping := sleeping N @ [(dst, m)]\<rparr>
     else N)"

text \<open>A task for an address without inbox ends with a \<^verbatim>\<open>KeyError\<close> nobody reads.\<close>

definition deliver_end :: "nat \<Rightarrow> network \<Rightarrow> network" where
  "deliver_end k N =
    (if k < length (sleeping N) then
       let (dst, m) = sleeping N ! k; N1 = N\<lparr>sleeping := remove_nth k (sleeping N)\<rparr> in
       if 0 \<le> dst \<and> dst < int (net_n N)
       then N1\<lparr>inboxes := (inboxes N)(dst := inboxes N dst @ [m])\<rparr> else N1
     else N)"

definition recv :: "int \<Rightarrow> network \<Rightarrow> (msg \<times> network) option" where
  "recv i N = (case inboxes N i of [] \<Rightarrow> None | m # ms \<Rightarrow> Some (m, N\<lparr>inboxes := (inboxes N)(i := ms)\<rparr>))"

section \<open>Common state of a replica\<close>

text \<open>What a replica does to the outside: messages, and replies through the \<^verbatim>\<open>on_execute\<close> callback.\<close>

datatype hs_action = Send int msg | Broadcast msg | Reply int pyval "string option"

text \<open>
  Attributes under their Python names where free; \<open>cur_view\<close> is \<^verbatim>\<open>view\<close>, \<open>alive\<close> is \<^verbatim>\<open>running\<close>, \<open>pacer\<close> is
  \<^verbatim>\<open>pm\<close>, \<open>timer\<close> the view and delay of the pending call of \<^verbatim>\<open>_on_timeout\<close>, \<open>out\<close> all actions so far.
\<close>

record rep_core =
  rep_id :: int
  rep_n :: int
  rep_f :: int
  signing_key :: string
  verify_keys :: "string list"
  pacer :: pacemaker
  state_machine :: "ledger option"
  responds :: bool
  cur_view :: int
  rep_tree :: tree
  committed :: "node list"
  executed :: "string set"
  pending :: "pyval list"
  pending_keys :: "string set"
  committed_cmds :: "string set"
  proposed :: "int set"
  left_views :: "int set"
  failures :: nat
  timer :: "(int \<times> real) option"
  qcs :: "(msg_type \<times> int \<times> string option) list"
  alive :: bool
  out :: "hs_action list"

definition quorum :: "'a rep_core_scheme \<Rightarrow> int" where
  "quorum s = rep_n s - rep_f s"

definition emit :: "hs_action \<Rightarrow> 'a rep_core_scheme \<Rightarrow> 'a rep_core_scheme" where
  "emit a s = s\<lparr>out := out s @ [a]\<rparr>"

definition record_qc :: "qc \<Rightarrow> 'a rep_core_scheme \<Rightarrow> 'a rep_core_scheme" where
  "record_qc q s = (if qc_sigs q \<noteq> [] then s\<lparr>qcs := qcs s @ [(qc_type q, qc_view q, qc_node q)]\<rparr> else s)"

definition is_genesis_qc :: "qc option \<Rightarrow> bool" where
  "is_genesis_qc q \<longleftrightarrow> (case q of None \<Rightarrow> False | Some c \<Rightarrow> qc_view c = 0 \<and> length (qc_sigs c) = 0)"

definition verify_justify :: "hs_crypto \<Rightarrow> qc option \<Rightarrow> 'a rep_core_scheme \<Rightarrow> hs_stop + bool" where
  "verify_justify K q s = (if is_genesis_qc q then Inr True
     else case q of None \<Rightarrow> Inr False | Some c \<Rightarrow> verify_qc K c (verify_keys s) (quorum s))"

text \<open>\<^verbatim>\<open>xs[i]\<close>, with negative indices from the end.\<close>

definition py_index :: "'a list \<Rightarrow> int \<Rightarrow> hs_stop + 'a" where
  "py_index xs i = (if 0 \<le> i \<and> i < int (length xs) then Inr (xs ! nat i)
     else if i < 0 \<and> - i \<le> int (length xs) then Inr (xs ! nat (int (length xs) + i))
     else Inl (Raises IndexError))"

text \<open>\<^verbatim>\<open>_arm_timer\<close>.\<close>

definition arm_timer :: "'a rep_core_scheme \<Rightarrow> 'a rep_core_scheme" where
  "arm_timer s = (if timeouts (pacer s)
     then s\<lparr>timer := Some (cur_view s, timeout_for (pacer s) (cur_view s) (failures s))\<rparr>
     else s\<lparr>timer := None\<rparr>)"

text \<open>The body of the \<^verbatim>\<open>for\<close> loop of \<^verbatim>\<open>execute\<close> and \<^verbatim>\<open>commit\<close>.\<close>

definition apply_cmd :: "pyval \<Rightarrow> ledger option \<Rightarrow> ledger option \<times> string option" where
  "apply_cmd c L = (case L of
     Some l \<Rightarrow> if c \<noteq> PyNone then let (l', r) = ledger_apply c l in (Some l', Some r) else (L, None)
   | None \<Rightarrow> (L, None))"

definition execute_block :: "hs_crypto \<Rightarrow> node \<Rightarrow> 'a rep_core_scheme \<Rightarrow> 'a rep_core_scheme" where
  "execute_block K b s =
    (let (L, result) = apply_cmd (cmd b) (state_machine s);
         s1 = s\<lparr>executed := insert (node_hash K b) (executed s), committed := committed s @ [b],
                state_machine := L,
                committed_cmds := (if cmd b \<noteq> PyNone then insert (cmd_key (cmd b)) (committed_cmds s)
                                   else committed_cmds s)\<rparr>
     in if responds s \<and> cmd b \<noteq> PyNone then emit (Reply (rep_id s) (cmd b) result) s1 else s1)"

text \<open>\<^verbatim>\<open>execute\<close> of \<^verbatim>\<open>Replica\<close>: un-executed ancestors first.\<close>

definition execute :: "hs_crypto \<Rightarrow> node option \<Rightarrow> 'a rep_core_scheme \<Rightarrow> hs_stop + 'a rep_core_scheme" where
  "execute K b s = bindE (chain_to K (rep_tree s) (executed s) b)
     (\<lambda>chain. Inr (fold (execute_block K) (rev chain) s))"

text \<open>
  Choosing the next command: drop committed ones, keep those that \<open>skip\<close> rejects in place, take the first
  other one (\<^verbatim>\<open>_next_command\<close> of \<^verbatim>\<open>CensoringReplica\<close> and of \<^verbatim>\<open>ChainedReplica\<close>). The result is the command, the
  queue left over and the remaining \<^verbatim>\<open>_pending_keys\<close>.
\<close>

fun pick_loop :: "string set \<Rightarrow> (pyval \<Rightarrow> bool) \<Rightarrow> pyval list \<Rightarrow> pyval list \<Rightarrow> string set \<Rightarrow>
    pyval option \<times> pyval list \<times> string set" where
  "pick_loop done skip skipped [] ks = (None, skipped, ks)"
| "pick_loop done skip skipped (c # cs) ks =
     (if cmd_key c \<in> done then pick_loop done skip skipped cs (ks - {cmd_key c})
      else if skip c then pick_loop done skip (skipped @ [c]) cs ks
      else (Some c, skipped @ cs, ks))"

end
