(* ===== verification/HS_Replica.thy ===== *)
theory HS_Replica
  imports HS_Core
begin

text \<open>
  Basic HotStuff: \<^verbatim>\<open>hotstuff/replica.py\<close> and the two Byzantine subclasses of \<^verbatim>\<open>byzantine.py\<close>. One
  definition per method; a method that can raise or loop returns a sum. The subclasses override
  \<^verbatim>\<open>_send_proposal\<close> and \<^verbatim>\<open>_next_command\<close>, which dispatch on \<open>rep_class\<close>.
\<close>

section \<open>State\<close>

datatype replica_class = Replica | EquivocatingReplica | CensoringReplica string

type_synonym vote_id = "msg_type \<times> int \<times> string"

record hs_replica = rep_core +
  rep_class :: replica_class
  locked_qc :: qc
  prepare_qc :: qc
  votes :: "vote_id \<Rightarrow> (int \<times> msg) list"
  new_view :: "int \<Rightarrow> (int \<times> qc) list"
  formed :: "vote_id set"
  high_qc :: "int \<rightharpoonup> qc"
  decided :: "int set"
  deferred :: "msg list"

definition hs_init_replica :: "hs_crypto \<Rightarrow> replica_class \<Rightarrow> int \<Rightarrow> int \<Rightarrow> int \<Rightarrow> string \<Rightarrow> string list \<Rightarrow>
    pacemaker \<Rightarrow> ledger option \<Rightarrow> bool \<Rightarrow> hs_replica" where
  "hs_init_replica K cls i n f sk vks p L resp = \<lparr>
     rep_id = i, rep_n = n, rep_f = f, signing_key = sk, verify_keys = vks, pacer = p,
     state_machine = L, responds = resp, cur_view = 0, rep_tree = init_tree K, committed = [],
     executed = {}, pending = [], pending_keys = {}, committed_cmds = {}, proposed = {},
     left_views = {}, failures = 0, timer = None, qcs = [], alive = True, out = [],
     rep_class = cls, locked_qc = GENESIS_QC K, prepare_qc = GENESIS_QC K, votes = (\<lambda>_. []),
     new_view = (\<lambda>_. []), formed = {}, high_qc = Map.empty, decided = {}, deferred = []\<rparr>"

section \<open>Messages\<close>

definition proposal_msg :: "msg_type \<Rightarrow> int \<Rightarrow> int \<Rightarrow> node option \<Rightarrow> qc \<Rightarrow> msg" where
  "proposal_msg t v i b q = \<lparr>m_type = t, m_view = v, m_sender = i, m_node = b, m_justify = Some q,
     m_partial_sig = None, m_payload = No_payload\<rparr>"

definition sync_msg :: "msg_type \<Rightarrow> int \<Rightarrow> int \<Rightarrow> hs_payload \<Rightarrow> msg" where
  "sync_msg t v i p = \<lparr>m_type = t, m_view = v, m_sender = i, m_node = None, m_justify = None,
     m_partial_sig = None, m_payload = p\<rparr>"

definition vote_msg :: "hs_crypto \<Rightarrow> string \<Rightarrow> int \<Rightarrow> msg_type \<Rightarrow> int \<Rightarrow> node \<Rightarrow> msg" where
  "vote_msg K sk i t v b = \<lparr>m_type = t, m_view = v, m_sender = i, m_node = Some b, m_justify = None,
     m_partial_sig = Some (i, sign_vote K sk t v (Some (node_hash K b))), m_payload = No_payload\<rparr>"

definition send_vote :: "hs_crypto \<Rightarrow> msg_type \<Rightarrow> int \<Rightarrow> node \<Rightarrow> hs_replica \<Rightarrow> hs_replica" where
  "send_vote K t v b s = emit (Send (leader (pacer s) v) (vote_msg K (signing_key s) (rep_id s) t v b)) s"

definition request_sync :: "string option \<Rightarrow> int \<Rightarrow> hs_replica \<Rightarrow> hs_replica" where
  "request_sync h peer s = emit (Send peer (sync_msg SYNC_REQ (cur_view s) (rep_id s)
     (case h of None \<Rightarrow> No_payload | Some x \<Rightarrow> Hash_payload x))) s"

section \<open>Proposing\<close>

text \<open>\<^verbatim>\<open>_next_command\<close> of \<^verbatim>\<open>Replica\<close>: the first pending command that is not committed.\<close>

fun next_command_loop :: "string set \<Rightarrow> pyval list \<Rightarrow> string set \<Rightarrow> pyval option \<times> pyval list \<times> string set" where
  "next_command_loop done [] ks = (None, [], ks)"
| "next_command_loop done (c # cs) ks =
     (if cmd_key c \<in> done then next_command_loop done cs (ks - {cmd_key c}) else (Some c, cs, ks))"

text \<open>\<^verbatim>\<open>_is_censored\<close>: only a transfer has a \<^verbatim>\<open>sender\<close>.\<close>

fun is_censored :: "string \<Rightarrow> pyval \<Rightarrow> bool" where
  "is_censored bank (PyTransfer t) \<longleftrightarrow> tr_sender t = bank"
| "is_censored bank c \<longleftrightarrow> False"

definition next_command :: "hs_replica \<Rightarrow> pyval option \<times> hs_replica" where
  "next_command s =
    (let (c, cs, ks) = (case rep_class s of
        CensoringReplica bank \<Rightarrow> pick_loop (committed_cmds s) (is_censored bank) [] (pending s) (pending_keys s)
      | _ \<Rightarrow> next_command_loop (committed_cmds s) (pending s) (pending_keys s))
     in (c, s\<lparr>pending := cs, pending_keys := ks\<rparr>))"

definition create_leaf :: "string option \<Rightarrow> pyval \<Rightarrow> int \<Rightarrow> node" where
  "create_leaf p c v = \<lparr>parent_hash = p, cmd = c, view_number = v, justify = None\<rparr>"

text \<open>\<^verbatim>\<open>_send_proposal\<close>; the equivocating leader sends a second block to the odd replicas.\<close>

definition send_proposal :: "hs_crypto \<Rightarrow> int \<Rightarrow> node \<Rightarrow> qc \<Rightarrow> hs_replica \<Rightarrow> hs_replica" where
  "send_proposal K v leaf q s = (case rep_class s of
     EquivocatingReplica \<Rightarrow>
       let other = create_leaf (qc_node q) (PyDict [(''equivocation'', PyInt v)]) v;
           s1 = s\<lparr>rep_tree := tree_add K other (rep_tree s)\<rparr>;
           group = (\<lambda>k. filter (\<lambda>i. i mod 2 = k) (map int [0..<nat (rep_n s)]))
       in fold (\<lambda>i. emit (Send i (proposal_msg PREPARE v (rep_id s) (Some other) q))) (group 1)
            (fold (\<lambda>i. emit (Send i (proposal_msg PREPARE v (rep_id s) (Some leaf) q))) (group 0) s1)
   | _ \<Rightarrow> emit (Broadcast (proposal_msg PREPARE v (rep_id s) (Some leaf) q)) s)"

definition try_propose :: "hs_crypto \<Rightarrow> int \<Rightarrow> hs_replica \<Rightarrow> hs_replica" where
  "try_propose K v s = (case high_qc s v of
     None \<Rightarrow> s
   | Some high \<Rightarrow>
       if v \<in> proposed s \<or> \<not> is_leader (pacer s) v (rep_id s) then s
       else case next_command s of
           (None, s1) \<Rightarrow> s1
         | (Some c, s1) \<Rightarrow>
             let leaf = create_leaf (qc_node high) c v in
             send_proposal K v leaf high
               (s1\<lparr>rep_tree := tree_add K leaf (rep_tree s1), proposed := insert v (proposed s1)\<rparr>))"

definition submit :: "hs_crypto \<Rightarrow> pyval \<Rightarrow> hs_replica \<Rightarrow> hs_replica" where
  "submit K c s = (let k = cmd_key c in
     if k \<in> pending_keys s \<or> k \<in> committed_cmds s then s
     else try_propose K (cur_view s)
       (s\<lparr>pending := pending s @ [c], pending_keys := insert k (pending_keys s)\<rparr>))"

text \<open>\<^verbatim>\<open>max(.., key=view_number)\<close>: the first of the greatest.\<close>

fun max_qc :: "qc \<Rightarrow> qc list \<Rightarrow> qc" where
  "max_qc best [] = best"
| "max_qc best (q # qs) = max_qc (if qc_view best < qc_view q then q else best) qs"

definition on_new_view :: "hs_crypto \<Rightarrow> msg \<Rightarrow> hs_replica \<Rightarrow> hs_stop + hs_replica" where
  "on_new_view K m s = (let start = m_view m + 1 in
     if \<not> is_leader (pacer s) start (rep_id s) then Inr s
     else bindE (verify_justify K (m_justify m) s) (\<lambda>ok.
       if \<not> ok then Inr s
       else
         let q = (case m_justify m of None \<Rightarrow> GENESIS_QC K | Some c \<Rightarrow> c);
             tally = dict_set (m_sender m) q (new_view s start);
             s1 = s\<lparr>new_view := (new_view s)(start := tally)\<rparr>
         in if quorum s \<le> int (length tally) \<and> high_qc s start = None
            then Inr (try_propose K start
              (s1\<lparr>high_qc := (high_qc s)(start \<mapsto> max_qc (snd (hd tally)) (map snd (tl tally)))\<rparr>))
            else Inr s1))"

section \<open>Voting\<close>

text \<open>\<^verbatim>\<open>safe_node\<close>.\<close>

definition safe_node :: "hs_crypto \<Rightarrow> node \<Rightarrow> qc \<Rightarrow> hs_replica \<Rightarrow> hs_stop + bool" where
  "safe_node K b q s =
    bindE (case tree_get (rep_tree s) (qc_node (locked_qc s)) of
        None \<Rightarrow> Inr False | Some l \<Rightarrow> extends K (rep_tree s) b l)
      (\<lambda>safety. Inr (safety \<or> qc_view (locked_qc s) < qc_view q))"

definition on_prepare :: "hs_crypto \<Rightarrow> msg \<Rightarrow> hs_replica \<Rightarrow> hs_stop + hs_replica" where
  "on_prepare K m s =
    (if m_sender m \<noteq> leader (pacer s) (m_view m) then Inr s
     else bindE (verify_justify K (m_justify m) s) (\<lambda>ok.
       if \<not> ok then Inr s
       else case (m_node m, m_justify m) of
           (Some b, Some q) \<Rightarrow>
             let s1 = s\<lparr>rep_tree := tree_add K b (rep_tree s), cur_view := max (cur_view s) (m_view m)\<rparr> in
             (case tree_get (rep_tree s1) (qc_node q) of
                None \<Rightarrow> Inr (request_sync (qc_node q) (m_sender m) s1)
              | Some parent \<Rightarrow>
                  bindE (extends K (rep_tree s1) b parent) (\<lambda>ext.
                    if \<not> ext then Inr s1
                    else bindE (safe_node K b q s1) (\<lambda>safe.
                      if \<not> safe then Inr s1 else Inr (send_vote K PREPARE (m_view m) b s1))))
         | _ \<Rightarrow> Inl (Raises AttributeError)))"

text \<open>\<^verbatim>\<open>_tally\<close>: record one vote; the votes of a fresh quorum.\<close>

definition tally :: "hs_crypto \<Rightarrow> msg \<Rightarrow> hs_replica \<Rightarrow> hs_stop + hs_replica \<times> msg list option" where
  "tally K m s = (case m_partial_sig m of
     None \<Rightarrow> Inl (Raises TypeError)
   | Some (rid, sig) \<Rightarrow> (case m_node m of
       None \<Rightarrow> Inr (s, None)
     | Some b \<Rightarrow>
         bindE (py_index (verify_keys s) rid) (\<lambda>vk.
         bindE (verify_vote K vk (m_type m) (m_view m) (Some (node_hash K b)) sig) (\<lambda>ok.
           if \<not> ok then Inr (s, None)
           else
             let key = (m_type m, m_view m, node_hash K b) in
             if key \<in> formed s then Inr (s, None)
             else
               let d = dict_set rid m (votes s key); s1 = s\<lparr>votes := (votes s)(key := d)\<rparr> in
               if quorum s \<le> int (length d)
               then Inr (s1\<lparr>formed := insert key (formed s)\<rparr>, Some (map snd d))
               else Inr (s1, None)))))"

definition on_prepare_vote :: "hs_crypto \<Rightarrow> msg \<Rightarrow> hs_replica \<Rightarrow> hs_stop + hs_replica" where
  "on_prepare_vote K m s = bindE (tally K m s) (\<lambda>(s1, vs).
     case vs of None \<Rightarrow> Inr s1
     | Some ms \<Rightarrow> bindE (build_qc K ms (quorum s1)) (\<lambda>q.
         Inr (emit (Broadcast (proposal_msg PRE_COMMIT (m_view m) (rep_id s1) None q))
           (record_qc q (s1\<lparr>prepare_qc := q\<rparr>)))))"

definition on_generic_vote :: "hs_crypto \<Rightarrow> msg \<Rightarrow> hs_replica \<Rightarrow> hs_stop + hs_replica" where
  "on_generic_vote K m s = bindE (tally K m s) (\<lambda>(s1, vs).
     case vs of None \<Rightarrow> Inr s1
     | Some ms \<Rightarrow> bindE (build_qc K ms (quorum s1)) (\<lambda>q.
         Inr (emit (Broadcast (proposal_msg (if m_type m = PRE_COMMIT then COMMIT else DECIDE)
             (m_view m) (rep_id s1) None q)) (record_qc q s1))))"

definition on_pre_commit :: "hs_crypto \<Rightarrow> msg \<Rightarrow> hs_replica \<Rightarrow> hs_stop + hs_replica" where
  "on_pre_commit K m s =
    (if m_sender m \<noteq> leader (pacer s) (m_view m) \<or> \<not> matching_qc (m_justify m) PREPARE (m_view m) then Inr s
     else bindE (verify_justify K (m_justify m) s) (\<lambda>ok.
       if \<not> ok then Inr s
       else
         let q = the (m_justify m); s1 = s\<lparr>prepare_qc := q\<rparr> in
         case tree_get (rep_tree s1) (qc_node q) of
           None \<Rightarrow> Inr s1
         | Some b \<Rightarrow> Inr (send_vote K PRE_COMMIT (m_view m) b s1)))"

definition on_commit :: "hs_crypto \<Rightarrow> msg \<Rightarrow> hs_replica \<Rightarrow> hs_stop + hs_replica" where
  "on_commit K m s =
    (if m_sender m \<noteq> leader (pacer s) (m_view m) \<or> \<not> matching_qc (m_justify m) PRE_COMMIT (m_view m) then Inr s
     else bindE (verify_justify K (m_justify m) s) (\<lambda>ok.
       if \<not> ok then Inr s
       else
         let q = the (m_justify m) in
         case tree_get (rep_tree s) (qc_node q) of
           None \<Rightarrow> Inr s
         | Some b \<Rightarrow> Inr (send_vote K COMMIT (m_view m) b (s\<lparr>locked_qc := q\<rparr>))))"

section \<open>Views\<close>

definition advance_from :: "int \<Rightarrow> hs_replica \<Rightarrow> hs_replica" where
  "advance_from prev s =
    (if prev \<in> left_views s then s
     else
       let s1 = s\<lparr>left_views := insert prev (left_views s), cur_view := prev + 1\<rparr> in
       arm_timer (emit (Send (leader (pacer s) (prev + 1))
         (proposal_msg NEW_VIEW prev (rep_id s) None (prepare_qc s))) s1))"

definition on_timeout :: "int \<Rightarrow> hs_replica \<Rightarrow> hs_replica" where
  "on_timeout v s =
    (if \<not> alive s \<or> v \<noteq> cur_view s \<or> v \<in> left_views s then s
     else advance_from v (s\<lparr>failures := failures s + 1\<rparr>))"

definition sync_view :: "int \<Rightarrow> hs_replica \<Rightarrow> hs_replica" where
  "sync_view v s = arm_timer (s\<lparr>left_views := left_views s \<union> {cur_view s..<v}, cur_view := v\<rparr>)"

section \<open>Deciding and catching up\<close>

definition first_missing_ancestor :: "hs_crypto \<Rightarrow> node \<Rightarrow> hs_replica \<Rightarrow> hs_stop + string option" where
  "first_missing_ancestor K b s = first_missing K (rep_tree s) (executed s) b"

definition on_decide :: "hs_crypto \<Rightarrow> msg \<Rightarrow> hs_replica \<Rightarrow> hs_stop + hs_replica" where
  "on_decide K m s =
    (if m_sender m \<noteq> leader (pacer s) (m_view m) \<or> \<not> matching_qc (m_justify m) COMMIT (m_view m) then Inr s
     else bindE (verify_justify K (m_justify m) s) (\<lambda>ok.
       if \<not> ok then Inr s
       else
         let q = the (m_justify m); b = tree_get (rep_tree s) (qc_node q) in
         bindE (case b of None \<Rightarrow> Inr (qc_node q) | Some n \<Rightarrow> first_missing_ancestor K n s) (\<lambda>missing.
           if missing \<noteq> None
           then Inr ((request_sync missing (m_sender m) s)\<lparr>deferred := deferred s @ [m]\<rparr>)
           else bindE (execute K b s) (\<lambda>s1.
             if m_view m \<in> decided s1 then Inr s1
             else Inr (advance_from (m_view m)
               (s1\<lparr>decided := insert (m_view m) (decided s1), failures := 0\<rparr>))))))"

definition on_sync_req :: "hs_crypto \<Rightarrow> msg \<Rightarrow> hs_replica \<Rightarrow> hs_stop + hs_replica" where
  "on_sync_req K m s =
    bindE (case m_payload m of
        No_payload \<Rightarrow> Inr None
      | Hash_payload h \<Rightarrow> Inr (tree_get (rep_tree s) (Some h))
      | Nodes_payload bs \<Rightarrow> if bs = [] then Inr None else Inl (Raises TypeError))
      (\<lambda>cur. bindE (chain_to K (rep_tree s) {} cur) (\<lambda>chain.
         if chain = [] then Inr s
         else Inr (emit (Send (m_sender m) (sync_msg SYNC_RESP (cur_view s) (rep_id s) (Nodes_payload chain))) s)))"

definition on_sync_resp :: "hs_crypto \<Rightarrow> msg \<Rightarrow> hs_replica \<Rightarrow> hs_stop + hs_replica" where
  "on_sync_resp K m s =
    bindE (case m_payload m of
        No_payload \<Rightarrow> Inl (Raises TypeError)
      | Hash_payload h \<Rightarrow> if h = [] then Inr [] else Inl (Raises AttributeError)
      | Nodes_payload bs \<Rightarrow> Inr bs)
      (\<lambda>bs. foldE (on_decide K) (deferred s)
         (s\<lparr>rep_tree := fold (tree_add K) bs (rep_tree s), deferred := []\<rparr>))"

section \<open>Dispatch\<close>

definition dispatch :: "hs_crypto \<Rightarrow> msg \<Rightarrow> hs_replica \<Rightarrow> hs_stop + hs_replica" where
  "dispatch K m s =
    (let is_vote = (m_partial_sig m \<noteq> None);
         s1 = (if m_type m \<in> {PREPARE, PRE_COMMIT, COMMIT, DECIDE} \<and> \<not> is_vote \<and> cur_view s < m_view m
               then sync_view (m_view m) s else s)
     in case m_type m of
          NEW_VIEW \<Rightarrow> on_new_view K m s1
        | PREPARE \<Rightarrow> if is_vote then on_prepare_vote K m s1 else on_prepare K m s1
        | PRE_COMMIT \<Rightarrow> if is_vote then on_generic_vote K m s1 else on_pre_commit K m s1
        | COMMIT \<Rightarrow> if is_vote then on_generic_vote K m s1 else on_commit K m s1
        | DECIDE \<Rightarrow> on_decide K m s1
        | SYNC_REQ \<Rightarrow> on_sync_req K m s1
        | SYNC_RESP \<Rightarrow> on_sync_resp K m s1
        | GENERIC \<Rightarrow> Inr s1)"

text \<open>
  What happens to a replica: \<^verbatim>\<open>run\<close> starts it, messages arrive while it runs, the client submits, the timer
  fires at most once after it is armed, \<^verbatim>\<open>stop\<close> ends it.
\<close>

datatype hs_event = Start | Deliver msg | Submit pyval | Timer_fires | Stop

definition stop_replica :: "'a rep_core_scheme \<Rightarrow> 'a rep_core_scheme" where
  "stop_replica s = s\<lparr>alive := False, timer := None\<rparr>"

fun hs_step :: "hs_crypto \<Rightarrow> hs_event \<Rightarrow> hs_replica \<Rightarrow> hs_stop + hs_replica" where
  "hs_step K Start s = Inr (advance_from 0 s)"
| "hs_step K (Deliver m) s = (if alive s then dispatch K m s else Inr s)"
| "hs_step K (Submit c) s = Inr (submit K c s)"
| "hs_step K Timer_fires s = Inr (case timer s of None \<Rightarrow> s | Some (v, _) \<Rightarrow> on_timeout v (s\<lparr>timer := None\<rparr>))"
| "hs_step K Stop s = Inr (stop_replica s)"

end
