(* ===== verification/HS_Chained.thy ===== *)
theory HS_Chained
  imports HS_Replica
begin

text \<open>
  Chained HotStuff: \<^verbatim>\<open>hotstuff/chained_replica.py\<close>, one definition per method. The attributes shared with
  \<^verbatim>\<open>Replica\<close> are those of \<^verbatim>\<open>HS_Core\<close>; the others carry the prefix \<open>ch_\<close> where the names clash.
\<close>

section \<open>State\<close>

record ch_replica = rep_core +
  generic_qc :: qc
  locked_node :: node
  branch_cmds :: "(string \<times> string set) list"
  ch_votes :: "int \<times> string \<Rightarrow> (int \<times> msg) list"
  ch_new_view :: "int \<Rightarrow> (int \<times> qc) list"
  ch_formed :: "(int \<times> string) set"
  voted :: "int set"

definition init_chained :: "hs_crypto \<Rightarrow> int \<Rightarrow> int \<Rightarrow> int \<Rightarrow> string \<Rightarrow> string list \<Rightarrow> pacemaker \<Rightarrow>
    ledger option \<Rightarrow> bool \<Rightarrow> ch_replica" where
  "init_chained K i n f sk vks p L resp = \<lparr>
     rep_id = i, rep_n = n, rep_f = f, signing_key = sk, verify_keys = vks, pacer = p,
     state_machine = L, responds = resp, cur_view = 0, rep_tree = init_tree K, committed = [],
     executed = {}, pending = [], pending_keys = {}, committed_cmds = {}, proposed = {},
     left_views = {}, failures = 0, timer = None, qcs = [], alive = True, out = [],
     generic_qc = GENESIS_QC K, locked_node = GENESIS, branch_cmds = [(genesis_hash K, {})],
     ch_votes = (\<lambda>_. []), ch_new_view = (\<lambda>_. []), ch_formed = {}, voted = {}\<rparr>"

section \<open>Proposing\<close>

definition block_keys :: "node \<Rightarrow> string set" where
  "block_keys b = (if cmd b \<noteq> PyNone then {cmd_key (cmd b)} else {})"

text \<open>\<^verbatim>\<open>self._branch_cmds.get(h)\<close>.\<close>

definition branch_get :: "(string \<times> string set) list \<Rightarrow> string option \<Rightarrow> string set option" where
  "branch_get d h = (case h of None \<Rightarrow> None | Some p \<Rightarrow> map_of d p)"

definition register_branch :: "hs_crypto \<Rightarrow> node \<Rightarrow> ch_replica \<Rightarrow> hs_stop + ch_replica" where
  "register_branch K b s =
    bindE (case branch_get (branch_cmds s) (parent_hash b) of
        Some base \<Rightarrow> Inr base
      | None \<Rightarrow> bindE (chain_to K (rep_tree s) {} (tree_get (rep_tree s) (parent_hash b)))
          (\<lambda>chain. Inr (\<Union> (set (map block_keys chain)))))
      (\<lambda>base. Inr (s\<lparr>branch_cmds := dict_set (node_hash K b) (base \<union> block_keys b) (branch_cmds s)\<rparr>))"

definition ch_next_command :: "string option \<Rightarrow> ch_replica \<Rightarrow> pyval option \<times> ch_replica" where
  "ch_next_command h s =
    (let on_branch = (case branch_get (branch_cmds s) h of None \<Rightarrow> {} | Some ks \<Rightarrow> ks);
         (c, cs, ks) = pick_loop (committed_cmds s) (\<lambda>c. cmd_key c \<in> on_branch) [] (pending s) (pending_keys s)
     in (c, s\<lparr>pending := cs, pending_keys := ks\<rparr>))"

definition ch_try_propose :: "hs_crypto \<Rightarrow> int \<Rightarrow> qc \<Rightarrow> ch_replica \<Rightarrow> hs_stop + ch_replica" where
  "ch_try_propose K v q s =
    (if v \<in> proposed s \<or> \<not> is_leader (pacer s) v (rep_id s) then Inr s
     else if pending s = [] then Inr s
     else case ch_next_command (qc_node q) s of
         (None, s1) \<Rightarrow> Inr s1
       | (Some c, s1) \<Rightarrow>
           let leaf = \<lparr>parent_hash = qc_node q, cmd = c, view_number = v, justify = Some q\<rparr> in
           bindE (register_branch K leaf (s1\<lparr>rep_tree := tree_add K leaf (rep_tree s1)\<rparr>))
             (\<lambda>s2. Inr (emit (Broadcast (proposal_msg GENERIC v (rep_id s) (Some leaf) q))
                (s2\<lparr>proposed := insert v (proposed s2)\<rparr>))))"

definition ch_submit :: "hs_crypto \<Rightarrow> pyval \<Rightarrow> ch_replica \<Rightarrow> hs_stop + ch_replica" where
  "ch_submit K c s = (let k = cmd_key c in
     if k \<in> pending_keys s \<or> k \<in> committed_cmds s then Inr s
     else ch_try_propose K (cur_view s) (generic_qc s)
       (s\<lparr>pending := pending s @ [c], pending_keys := insert k (pending_keys s)\<rparr>))"

definition ch_on_new_view :: "hs_crypto \<Rightarrow> msg \<Rightarrow> ch_replica \<Rightarrow> hs_stop + ch_replica" where
  "ch_on_new_view K m s = (let start = m_view m + 1 in
     if \<not> is_leader (pacer s) start (rep_id s) then Inr s
     else bindE (verify_justify K (m_justify m) s) (\<lambda>ok.
       if \<not> ok then Inr s
       else
         let q = (case m_justify m of None \<Rightarrow> GENESIS_QC K | Some c \<Rightarrow> c);
             d = dict_set (m_sender m) q (ch_new_view s start);
             s1 = s\<lparr>ch_new_view := (ch_new_view s)(start := d)\<rparr>
         in if quorum s \<le> int (length d)
            then ch_try_propose K start (max_qc (snd (hd d)) (map snd (tl d))) s1
            else Inr s1))"

section \<open>The update rule\<close>

definition ch_safe_node :: "hs_crypto \<Rightarrow> node \<Rightarrow> qc \<Rightarrow> ch_replica \<Rightarrow> hs_stop + bool" where
  "ch_safe_node K b q s = bindE (extends K (rep_tree s) b (locked_node s))
     (\<lambda>ext. Inr (ext \<or> view_number (locked_node s) < qc_view q))"

definition commit :: "hs_crypto \<Rightarrow> node \<Rightarrow> ch_replica \<Rightarrow> hs_stop + ch_replica" where
  "commit K b s = bindE (chain_to K (rep_tree s) (executed s) (Some b))
     (\<lambda>chain. Inr (fold (execute_block K) (rev chain) s))"

text \<open>The block a block's certificate points to.\<close>

definition justified :: "tree \<Rightarrow> node \<Rightarrow> node option" where
  "justified t b = (case justify b of None \<Rightarrow> None | Some q \<Rightarrow> tree_get t (qc_node q))"

definition update :: "hs_crypto \<Rightarrow> node \<Rightarrow> ch_replica \<Rightarrow> hs_stop + ch_replica" where
  "update K b_star s = (case justify b_star of
     None \<Rightarrow> Inl (Raises AttributeError)
   | Some q \<Rightarrow> (case tree_get (rep_tree s) (qc_node q) of
       None \<Rightarrow> Inr s
     | Some b2 \<Rightarrow>
         let s1 = (if qc_view (generic_qc s) < qc_view q then s\<lparr>generic_qc := q\<rparr> else s);
             b1 = justified (rep_tree s) b2;
             b0 = (case b1 of None \<Rightarrow> None | Some c \<Rightarrow> justified (rep_tree s) c);
             s2 = (case b1 of
                 Some c \<Rightarrow> if view_number (locked_node s1) < view_number c then s1\<lparr>locked_node := c\<rparr> else s1
               | None \<Rightarrow> s1)
         in case (b0, b1) of
              (Some c0, Some c1) \<Rightarrow>
                if view_number c1 = view_number c0 + 1 \<and> view_number b2 = view_number c1 + 1
                then commit K c0 s2 else Inr s2
            | _ \<Rightarrow> Inr s2))"

section \<open>Voting\<close>

definition enter :: "int \<Rightarrow> ch_replica \<Rightarrow> ch_replica" where
  "enter v s = arm_timer (s\<lparr>cur_view := v\<rparr>)"

definition ch_vote :: "hs_crypto \<Rightarrow> msg \<Rightarrow> node \<Rightarrow> qc \<Rightarrow> ch_replica \<Rightarrow> hs_stop + ch_replica" where
  "ch_vote K m b q s =
    (if m_view m \<in> voted s then Inr s
     else bindE (ch_safe_node K b q s) (\<lambda>safe.
       if \<not> safe then Inr s
       else Inr (emit (Send (leader (pacer s) (m_view m + 1))
           (vote_msg K (signing_key s) (rep_id s) GENERIC (m_view m) b))
         (s\<lparr>voted := insert (m_view m) (voted s)\<rparr>))))"

definition on_generic :: "hs_crypto \<Rightarrow> msg \<Rightarrow> ch_replica \<Rightarrow> hs_stop + ch_replica" where
  "on_generic K m s =
    (if m_sender m \<noteq> leader (pacer s) (m_view m) then Inr s
     else bindE (verify_justify K (m_justify m) s) (\<lambda>ok.
       if \<not> ok then Inr s
       else case (m_node m, m_justify m) of
           (Some b, Some q) \<Rightarrow>
             bindE (register_branch K b (s\<lparr>rep_tree := tree_add K b (rep_tree s)\<rparr>)) (\<lambda>s1.
             bindE (ch_vote K m b q (if cur_view s1 < m_view m then enter (m_view m) s1 else s1))
               (update K b))
         | _ \<Rightarrow> Inl (Raises AttributeError)))"

definition ch_on_generic_vote :: "hs_crypto \<Rightarrow> msg \<Rightarrow> ch_replica \<Rightarrow> hs_stop + ch_replica" where
  "ch_on_generic_vote K m s = (case m_partial_sig m of
     None \<Rightarrow> Inl (Raises TypeError)
   | Some (rid, sig) \<Rightarrow> (case m_node m of
       None \<Rightarrow> Inr s
     | Some b \<Rightarrow>
         let start = m_view m + 1 in
         if \<not> is_leader (pacer s) start (rep_id s) then Inr s
         else
           bindE (py_index (verify_keys s) rid) (\<lambda>vk.
           bindE (verify_vote K vk GENERIC (m_view m) (Some (node_hash K b)) sig) (\<lambda>ok.
             if \<not> ok then Inr s
             else
               let key = (m_view m, node_hash K b) in
               if key \<in> ch_formed s then Inr s
               else
                 let d = dict_set rid m (ch_votes s key); s1 = s\<lparr>ch_votes := (ch_votes s)(key := d)\<rparr> in
                 if quorum s \<le> int (length d)
                 then bindE (build_qc K (map snd d) (quorum s))
                   (\<lambda>q. ch_try_propose K start q (record_qc q (s1\<lparr>ch_formed := insert key (ch_formed s)\<rparr>)))
                 else Inr s1))))"

section \<open>Views and dispatch\<close>

definition ch_advance_from :: "int \<Rightarrow> ch_replica \<Rightarrow> ch_replica" where
  "ch_advance_from prev s =
    (if prev \<in> left_views s then s
     else
       let s1 = s\<lparr>left_views := insert prev (left_views s), cur_view := prev + 1\<rparr> in
       arm_timer (emit (Send (leader (pacer s) (prev + 1))
         (proposal_msg NEW_VIEW prev (rep_id s) None (generic_qc s))) s1))"

definition ch_on_timeout :: "int \<Rightarrow> ch_replica \<Rightarrow> ch_replica" where
  "ch_on_timeout v s =
    (if \<not> alive s \<or> v \<noteq> cur_view s \<or> v \<in> left_views s then s
     else ch_advance_from v (s\<lparr>failures := failures s + 1\<rparr>))"

definition ch_dispatch :: "hs_crypto \<Rightarrow> msg \<Rightarrow> ch_replica \<Rightarrow> hs_stop + ch_replica" where
  "ch_dispatch K m s = (case m_type m of
     NEW_VIEW \<Rightarrow> ch_on_new_view K m s
   | GENERIC \<Rightarrow> if m_partial_sig m \<noteq> None then ch_on_generic_vote K m s else on_generic K m s
   | _ \<Rightarrow> Inr s)"

fun ch_step :: "hs_crypto \<Rightarrow> hs_event \<Rightarrow> ch_replica \<Rightarrow> hs_stop + ch_replica" where
  "ch_step K Start s = Inr (ch_advance_from 0 s)"
| "ch_step K (Deliver m) s = (if alive s then ch_dispatch K m s else Inr s)"
| "ch_step K (Submit c) s = ch_submit K c s"
| "ch_step K Timer_fires s = Inr (case timer s of None \<Rightarrow> s | Some (v, _) \<Rightarrow> ch_on_timeout v (s\<lparr>timer := None\<rparr>))"
| "ch_step K Stop s = Inr (stop_replica s)"

end
