(* ===== verification/HS_Log.thy ===== *)
theory HS_Log
  imports HS_Chained
begin

text \<open>
  The log of a HotStuff replica under arbitrary input. Operations that do not execute blocks are frames; executing
  appends different, new blocks, oldest first; the ledger and the replies follow the log. \<open>safe_machine\<close> is
  interpreted on the steps of both kinds of replica.
\<close>

section \<open>What is not about the log\<close>

fun is_reply :: "hs_action \<Rightarrow> bool" where
  "is_reply (Reply i c r) \<longleftrightarrow> True"
| "is_reply a \<longleftrightarrow> False"

fun is_vote :: "hs_action \<Rightarrow> bool" where
  "is_vote (Send i m) \<longleftrightarrow> m_partial_sig m \<noteq> None"
| "is_vote a \<longleftrightarrow> False"

lemma unsigned_msgs [simp]:
  "m_partial_sig (proposal_msg t v j b q) = None" "m_partial_sig (sync_msg t v j p) = None"
  by (simp_all add: proposal_msg_def sync_msg_def)

definition replies_sent :: "'a rep_core_scheme \<Rightarrow> hs_action list" where
  "replies_sent s = filter is_reply (out s)"

definition votes_sent :: "'a rep_core_scheme \<Rightarrow> hs_action list" where
  "votes_sent s = filter is_vote (out s)"

definition log_view where
  "log_view s = (committed s, executed s, state_machine s, committed_cmds s, replies_sent s)"

definition statics where
  "statics s = (rep_id s, rep_n s, rep_f s, signing_key s, verify_keys s, pacer s, responds s)"

text \<open>
  An operation that leaves the log and the configuration alone, casts no vote, and only adds blocks to the tree.
\<close>

definition frame :: "hs_crypto \<Rightarrow> 'a rep_core_scheme \<Rightarrow> 'a rep_core_scheme \<Rightarrow> bool" where
  "frame K s s' \<longleftrightarrow> log_view s' = log_view s \<and> statics s' = statics s \<and> votes_sent s' = votes_sent s \<and>
     (\<exists>bs. rep_tree s' = fold (tree_add K) bs (rep_tree s))"

named_theorems hs_frames \<open>operations that are frames, as introduction rules\<close>

lemma frame_refl [hs_frames, simp]: "frame K s s"
  unfolding frame_def by (auto intro: exI[of _ "[]"])

lemma frame_trans: "frame K s t \<Longrightarrow> frame K t u \<Longrightarrow> frame K s u"
  unfolding frame_def by (metis fold_append comp_apply)

lemma frame_same:
  assumes "frame K s t" "log_view u = log_view t" "statics u = statics t" "votes_sent u = votes_sent t"
    "rep_tree u = rep_tree t"
  shows "frame K s u"
  using assms by (simp add: frame_def)

lemmas view_defs = log_view_def statics_def replies_sent_def votes_sent_def

lemma frame_core_fields [hs_frames]:
  assumes "frame K s t"
  shows "frame K s (t\<lparr>cur_view := x1\<rparr>)" "frame K s (t\<lparr>pending := x2\<rparr>)" "frame K s (t\<lparr>pending_keys := x3\<rparr>)"
    "frame K s (t\<lparr>proposed := x4\<rparr>)" "frame K s (t\<lparr>left_views := x5\<rparr>)" "frame K s (t\<lparr>failures := x6\<rparr>)"
    "frame K s (t\<lparr>timer := x7\<rparr>)" "frame K s (t\<lparr>qcs := x8\<rparr>)" "frame K s (t\<lparr>alive := x9\<rparr>)"
  by (rule frame_same[OF assms]; simp add: view_defs)+

lemma frame_hs_fields [hs_frames]:
  assumes "frame K s t"
  shows "frame K s (t\<lparr>locked_qc := x1\<rparr>)" "frame K s (t\<lparr>prepare_qc := x2\<rparr>)" "frame K s (t\<lparr>votes := x3\<rparr>)"
    "frame K s (t\<lparr>new_view := x4\<rparr>)" "frame K s (t\<lparr>formed := x5\<rparr>)" "frame K s (t\<lparr>high_qc := x6\<rparr>)"
    "frame K s (t\<lparr>decided := x7\<rparr>)" "frame K s (t\<lparr>deferred := x8\<rparr>)"
  by (rule frame_same[OF assms]; simp add: view_defs)+

lemma frame_ch_fields [hs_frames]:
  assumes "frame K s t"
  shows "frame K s (t\<lparr>generic_qc := x1\<rparr>)" "frame K s (t\<lparr>locked_node := x2\<rparr>)" "frame K s (t\<lparr>branch_cmds := x3\<rparr>)"
    "frame K s (t\<lparr>ch_votes := x4\<rparr>)" "frame K s (t\<lparr>ch_new_view := x5\<rparr>)" "frame K s (t\<lparr>ch_formed := x6\<rparr>)"
    "frame K s (t\<lparr>voted := x7\<rparr>)"
  by (rule frame_same[OF assms]; simp add: view_defs)+

lemma frame_tree_add [hs_frames]:
  assumes "frame K s t"
  shows "frame K s (t\<lparr>rep_tree := tree_add K b (rep_tree t)\<rparr>)"
proof (rule frame_trans[OF assms])
  show "frame K t (t\<lparr>rep_tree := tree_add K b (rep_tree t)\<rparr>)"
    unfolding frame_def by (auto simp: view_defs intro: exI[of _ "[b]"])
qed

lemma frame_emit [hs_frames]: "frame K s t \<Longrightarrow> \<not> is_reply a \<Longrightarrow> \<not> is_vote a \<Longrightarrow> frame K s (emit a t)"
  by (erule frame_same) (simp_all add: view_defs emit_def)

lemma not_reply [simp]: "\<not> is_reply (Send i m)" "\<not> is_reply (Broadcast m)"
  by simp_all

lemma frame_record_qc [hs_frames]: "frame K s t \<Longrightarrow> frame K s (record_qc q t)"
  by (auto simp: record_qc_def intro!: hs_frames)

lemma frame_arm_timer [hs_frames]: "frame K s t \<Longrightarrow> frame K s (arm_timer t)"
  by (auto simp: arm_timer_def intro!: hs_frames)

lemma frame_stop [hs_frames]: "frame K s t \<Longrightarrow> frame K s (stop_replica t)"
  by (auto simp: stop_replica_def intro!: hs_frames)

subsection \<open>Basic\<close>

lemma frame_request_sync [hs_frames]: "frame K s t \<Longrightarrow> frame K s (request_sync h p t)"
  by (auto simp: request_sync_def intro!: hs_frames)

lemma frame_next_command: "frame K s t \<Longrightarrow> frame K s (snd (next_command t))"
  by (auto simp: next_command_def split: prod.splits intro!: hs_frames)

lemma frame_fold_emit: "frame K s t \<Longrightarrow> \<forall>x. \<not> is_reply (f x) \<and> \<not> is_vote (f x) \<Longrightarrow> frame K s (fold (\<lambda>x. emit (f x)) xs t)"
  by (induction xs arbitrary: t) (simp_all add: frame_emit)

lemma frame_send_proposal [hs_frames]: "frame K s t \<Longrightarrow> frame K s (send_proposal K v leaf q t)"
  by (cases "rep_class t")
    (auto simp: send_proposal_def Let_def intro!: frame_fold_emit hs_frames)

lemma frame_try_propose [hs_frames]:
  assumes "frame K s t"
  shows "frame K s (try_propose K v t)"
proof -
  obtain c u where n: "next_command t = (c, u)" by force
  then have "frame K s u" using frame_next_command[OF assms] by simp
  with n assms show ?thesis
    by (auto simp: try_propose_def Let_def intro!: hs_frames split: option.splits)
qed

lemma frame_submit [hs_frames]: "frame K s t \<Longrightarrow> frame K s (submit K c t)"
  by (auto simp: submit_def Let_def intro!: hs_frames)

lemma frame_advance_from [hs_frames]: "frame K s t \<Longrightarrow> frame K s (advance_from v t)"
  by (auto simp: advance_from_def Let_def intro!: hs_frames)

lemma frame_on_timeout [hs_frames]: "frame K s t \<Longrightarrow> frame K s (on_timeout v t)"
  by (auto simp: on_timeout_def intro!: hs_frames)

lemma frame_sync_view [hs_frames]: "frame K s t \<Longrightarrow> frame K s (sync_view v t)"
  by (auto simp: sync_view_def intro!: hs_frames)

lemma frame_on_new_view: "on_new_view K m s = Inr s' \<Longrightarrow> frame K s s'"
  by (auto simp: on_new_view_def Let_def bindE_eq_Inr split: if_splits intro!: hs_frames)

lemma on_prepare_cases:
  assumes "on_prepare K m s = Inr s'"
  shows "frame K s s' \<or> (\<exists>s1 b. frame K s s1 \<and> s' = send_vote K PREPARE (m_view m) b s1 \<and> m_node m = Some b)"
  using assms by (auto simp: on_prepare_def Let_def bindE_eq_Inr split: if_splits option.splits intro!: hs_frames)
    (metis frame_refl frame_tree_add frame_core_fields(1))+

lemma frame_tally: "tally K m s = Inr (s', vs) \<Longrightarrow> frame K s s'"
  by (auto simp: tally_def Let_def bindE_eq_Inr split: if_splits option.splits intro!: hs_frames)

lemma frame_on_prepare_vote: "on_prepare_vote K m s = Inr s' \<Longrightarrow> frame K s s'"
  by (auto simp: on_prepare_vote_def bindE_eq_Inr split: option.splits prod.splits dest!: frame_tally
      intro!: hs_frames)

lemma frame_on_generic_vote: "on_generic_vote K m s = Inr s' \<Longrightarrow> frame K s s'"
  by (auto simp: on_generic_vote_def bindE_eq_Inr split: option.splits prod.splits dest!: frame_tally
      intro!: hs_frames)

lemma on_pre_commit_cases:
  assumes "on_pre_commit K m s = Inr s'"
  shows "frame K s s' \<or> (\<exists>s1 b q. frame K s s1 \<and> s' = send_vote K PRE_COMMIT (m_view m) b s1 \<and>
    m_justify m = Some q \<and> qc_type q = PREPARE \<and> qc_view q = m_view m \<and>
    verify_justify K (Some q) s = Inr True \<and> tree_get (rep_tree s) (qc_node q) = Some b)"
proof -
  have "frame K s (s\<lparr>prepare_qc := q\<rparr>)" for q by (intro hs_frames)
  then show ?thesis using assms
    by (auto simp: on_pre_commit_def matching_qc_def Let_def bindE_eq_Inr split: if_splits option.splits)
qed

lemma on_commit_cases:
  assumes "on_commit K m s = Inr s'"
  shows "frame K s s' \<or> (\<exists>s1 b q. frame K s s1 \<and> s' = send_vote K COMMIT (m_view m) b s1 \<and>
    m_justify m = Some q \<and> qc_type q = PRE_COMMIT \<and> qc_view q = m_view m \<and>
    verify_justify K (Some q) s = Inr True \<and> tree_get (rep_tree s) (qc_node q) = Some b)"
proof -
  have "frame K s (s\<lparr>locked_qc := q\<rparr>)" for q by (intro hs_frames)
  then show ?thesis using assms
    by (auto simp: on_commit_def matching_qc_def Let_def bindE_eq_Inr split: if_splits option.splits)
qed

lemma frame_on_sync_req: "on_sync_req K m s = Inr s' \<Longrightarrow> frame K s s'"
  by (auto simp: on_sync_req_def bindE_eq_Inr split: hs_payload.splits if_splits intro!: hs_frames)

subsection \<open>Chained\<close>

lemma frame_register_branch: "register_branch K b t = Inr u \<Longrightarrow> frame K s t \<Longrightarrow> frame K s u"
  by (auto simp: register_branch_def bindE_eq_Inr intro!: hs_frames)

lemma frame_ch_next_command: "frame K s t \<Longrightarrow> frame K s (snd (ch_next_command h t))"
  by (auto simp: ch_next_command_def Let_def split: prod.splits intro!: hs_frames)

lemma frame_ch_try_propose:
  assumes "ch_try_propose K v q t = Inr u" "frame K s t"
  shows "frame K s u"
proof -
  obtain c w where n: "ch_next_command (qc_node q) t = (c, w)" by force
  then have "frame K s w" using frame_ch_next_command[OF assms(2)] by (metis snd_conv)
  with n assms show ?thesis
    by (auto simp: ch_try_propose_def Let_def bindE_eq_Inr split: option.splits if_splits
        dest!: frame_register_branch intro!: hs_frames)
qed

lemma frame_ch_submit: "ch_submit K c s = Inr s' \<Longrightarrow> frame K s s'"
  by (auto simp: ch_submit_def Let_def split: if_splits elim!: frame_ch_try_propose intro!: hs_frames)

lemma frame_ch_on_new_view: "ch_on_new_view K m s = Inr s' \<Longrightarrow> frame K s s'"
  by (auto simp: ch_on_new_view_def Let_def bindE_eq_Inr split: if_splits elim!: frame_ch_try_propose
      intro!: hs_frames)

lemma frame_enter [hs_frames]: "frame K s t \<Longrightarrow> frame K s (enter v t)"
  by (auto simp: enter_def intro!: hs_frames)

lemma ch_vote_cases:
  assumes "ch_vote K m b q s = Inr s'"
  shows "s' = s \<or> m_view m \<notin> voted s \<and> s' = emit (Send (leader (pacer s) (m_view m + 1))
           (vote_msg K (signing_key s) (rep_id s) GENERIC (m_view m) b))
         (s\<lparr>voted := insert (m_view m) (voted s)\<rparr>)"
  using assms by (auto simp: ch_vote_def bindE_eq_Inr split: if_splits)

lemma frame_ch_on_generic_vote: "ch_on_generic_vote K m s = Inr s' \<Longrightarrow> frame K s s'"
  by (auto simp: ch_on_generic_vote_def Let_def bindE_eq_Inr split: if_splits option.splits
      elim!: frame_ch_try_propose intro!: hs_frames)

lemma frame_ch_advance_from [hs_frames]: "frame K s t \<Longrightarrow> frame K s (ch_advance_from v t)"
  by (auto simp: ch_advance_from_def Let_def intro!: hs_frames)

lemma frame_ch_on_timeout [hs_frames]: "frame K s t \<Longrightarrow> frame K s (ch_on_timeout v t)"
  by (auto simp: ch_on_timeout_def intro!: hs_frames)

section \<open>The log\<close>

definition log_cmds :: "node list \<Rightarrow> pyval list" where
  "log_cmds bs = filter (\<lambda>c. c \<noteq> PyNone) (map cmd bs)"

text \<open>The commands of a log with their results, judged by the state machine.\<close>

definition outcomes :: "ledger option \<Rightarrow> pyval list \<Rightarrow> (pyval \<times> string option) list" where
  "outcomes L0 cs = (case L0 of
     None \<Rightarrow> map (\<lambda>c. (c, None)) cs
   | Some l \<Rightarrow> map (\<lambda>(c, r). (c, Some r)) (drop (length (history l)) (history (ledger_run cs l))))"

lemma ledger_run_snoc: "ledger_run (cs @ [c]) l = fst (ledger_apply c (ledger_run cs l))"
  by (simp add: ledger_run_def)

lemma ledger_run_history_length: "length (history (ledger_run cs l)) = length (history l) + length cs"
  using arg_cong[OF ledger_run_history[of cs l], of length] by simp

lemma outcomes_snoc:
  "c \<noteq> PyNone \<Longrightarrow> outcomes L0 (cs @ [c]) = outcomes L0 cs @ [(c, snd (apply_cmd c (map_option (ledger_run cs) L0)))]"
  by (cases L0) (simp_all add: outcomes_def apply_cmd_def ledger_run_snoc ledger_apply_history
      ledger_run_history_length split: prod.splits)

lemma apply_cmd_fst: "c \<noteq> PyNone \<Longrightarrow>
    fst (apply_cmd c (map_option (ledger_run cs) L0)) = map_option (ledger_run (cs @ [c])) L0"
  by (cases L0) (simp_all add: apply_cmd_def ledger_run_snoc split: prod.splits)

text \<open>
  The log of a replica: no block twice, never the genesis block; the state machine is the initial
  one after the commands of the log in order; every command was answered once with its own outcome.
\<close>

definition log_inv :: "hs_crypto \<Rightarrow> ledger option \<Rightarrow> 'a rep_core_scheme \<Rightarrow> bool" where
  "log_inv K L0 s \<longleftrightarrow> tree_ok K (rep_tree s) \<and>
     executed s = node_hash K ` set (committed s) \<and> distinct (map (node_hash K) (committed s)) \<and>
     genesis_hash K \<notin> executed s \<and>
     state_machine s = map_option (ledger_run (log_cmds (committed s))) L0 \<and>
     committed_cmds s = cmd_key ` set (log_cmds (committed s)) \<and>
     replies_sent s = (if responds s then
        map (\<lambda>(c, r). Reply (rep_id s) c r) (outcomes L0 (log_cmds (committed s))) else [])"

lemma tree_ok_fold [simp]: "tree_ok K t \<Longrightarrow> tree_ok K (fold (tree_add K) bs t)"
  by (induction bs arbitrary: t) simp_all

text \<open>The log does not depend on the votes.\<close>

lemma log_inv_same:
  "log_inv K L0 s \<Longrightarrow> log_view s' = log_view s \<Longrightarrow> statics s' = statics s \<Longrightarrow> rep_tree s' = rep_tree s \<Longrightarrow> log_inv K L0 s'"
  by (auto simp: log_inv_def view_defs)

lemma log_inv_frame: "log_inv K L0 s \<Longrightarrow> frame K s s' \<Longrightarrow> log_inv K L0 s'"
  by (auto simp: log_inv_def frame_def view_defs)

lemma execute_block_frame:
  "statics (execute_block K b s) = statics s \<and> rep_tree (execute_block K b s) = rep_tree s \<and>
   committed (execute_block K b s) = committed s @ [b]"
  by (simp add: execute_block_def Let_def view_defs emit_def split: prod.splits)

lemma log_inv_execute_block:
  assumes "log_inv K L0 s" "node_hash K b \<notin> executed s" "node_hash K b \<noteq> genesis_hash K"
  shows "log_inv K L0 (execute_block K b s)"
proof (cases "cmd b = PyNone")
  case True
  then have "apply_cmd (cmd b) (state_machine s) = (state_machine s, None)"
    by (simp add: apply_cmd_def split: option.splits)
  moreover have "log_cmds (committed s @ [b]) = log_cmds (committed s)" using True by (simp add: log_cmds_def)
  ultimately show ?thesis
    using True assms by (auto simp: log_inv_def execute_block_def replies_sent_def)
next
  case False
  let ?cs = "log_cmds (committed s)"
  have L: "state_machine s = map_option (ledger_run ?cs) L0" using assms(1) by (simp add: log_inv_def)
  note o = outcomes_snoc[OF False, of L0 ?cs, folded L] and a = apply_cmd_fst[OF False, of ?cs L0, folded L]
  have cs: "log_cmds (committed s @ [b]) = ?cs @ [cmd b]" using False by (simp add: log_cmds_def)
  obtain L' r where r: "apply_cmd (cmd b) (state_machine s) = (L', r)" by force
  show ?thesis
    using False assms o a cs r
    by (auto simp: log_inv_def execute_block_def replies_sent_def emit_def Let_def)
qed

text \<open>Executing a list of new, different blocks.\<close>

lemma log_inv_execute_blocks:
  assumes "log_inv K L0 s" "distinct (map (node_hash K) bs)"
    "\<forall>b \<in> set bs. node_hash K b \<notin> executed s \<and> node_hash K b \<noteq> genesis_hash K"
  shows "log_inv K L0 (fold (execute_block K) bs s) \<and> committed (fold (execute_block K) bs s) = committed s @ bs \<and>
    statics (fold (execute_block K) bs s) = statics s \<and> rep_tree (fold (execute_block K) bs s) = rep_tree s"
  using assms
proof (induction bs arbitrary: s)
  case (Cons b bs)
  note F = execute_block_frame[of K b s]
  have inv: "log_inv K L0 (execute_block K b s)"
    using Cons.prems(3) by (intro log_inv_execute_block[OF Cons.prems(1)]) simp_all
  have ex: "executed (execute_block K b s) = insert (node_hash K b) (executed s)"
    using inv Cons.prems(1) F by (simp add: log_inv_def)
  have new: "\<forall>c \<in> set bs. node_hash K c \<notin> executed (execute_block K b s) \<and> node_hash K c \<noteq> genesis_hash K"
    using Cons.prems(2,3) ex by (simp add: image_iff) metis
  show ?case using Cons.IH[OF inv _ new] Cons.prems(2) F by simp
qed simp

text \<open>What \<^verbatim>\<open>execute\<close> does with a block of the tree: the log grows by the collected chain, oldest first.\<close>

lemma execute_log:
  assumes "log_inv K L0 s" "chain_to K (rep_tree s) (executed s) (tree_get (rep_tree s) h) = Inr cs"
  defines "s' \<equiv> fold (execute_block K) (rev cs) s"
  shows "log_inv K L0 s' \<and> committed s' = committed s @ rev cs \<and> statics s' = statics s \<and> rep_tree s' = rep_tree s"
proof -
  have ok: "tree_ok K (rep_tree s)" using assms(1) by (simp add: log_inv_def)
  note C = assms(2)[unfolded chain_to_def]
  have "distinct (map (node_hash K) (rev cs))" using collect_distinct[OF C ok] by (simp add: rev_map[symmetric])
  moreover have "\<forall>b \<in> set (rev cs). node_hash K b \<notin> executed s \<and> node_hash K b \<noteq> genesis_hash K"
    using collect_Inr[OF C] by (auto simp: in_set_conv_nth)
  ultimately show ?thesis unfolding s'_def using log_inv_execute_blocks[OF assms(1)] by blast
qed

section \<open>Every step keeps the log\<close>

text \<open>The log only grows, and the configuration stays.\<close>

definition log_le :: "'a rep_core_scheme \<Rightarrow> 'a rep_core_scheme \<Rightarrow> bool" where
  "log_le s s' \<longleftrightarrow> (\<exists>bs. committed s' = committed s @ bs) \<and> statics s' = statics s"

lemma log_le_refl [simp]: "log_le s s"
  by (simp add: log_le_def)

lemma log_le_trans: "log_le s t \<Longrightarrow> log_le t u \<Longrightarrow> log_le s u"
  by (auto simp: log_le_def)

lemma log_le_frame: "frame K s s' \<Longrightarrow> log_le s s'"
  by (simp add: log_le_def frame_def view_defs)

lemma frame_tree_adds [hs_frames]:
  assumes "frame K s t"
  shows "frame K s (t\<lparr>rep_tree := fold (tree_add K) bs (rep_tree t)\<rparr>)"
proof (rule frame_trans[OF assms])
  show "frame K t (t\<lparr>rep_tree := fold (tree_add K) bs (rep_tree t)\<rparr>)"
    unfolding frame_def by (auto simp: view_defs)
qed

text \<open>The invariant of a basic replica: the log is also closed under parents.\<close>

definition hs_inv :: "hs_crypto \<Rightarrow> ledger option \<Rightarrow> hs_replica \<Rightarrow> bool" where
  "hs_inv K L0 s \<longleftrightarrow> log_inv K L0 s \<and> closed_from K {genesis_hash K} (committed s)"

definition hs_next :: "hs_crypto \<Rightarrow> ledger option \<Rightarrow> hs_replica \<Rightarrow> hs_replica \<Rightarrow> bool" where
  "hs_next K L0 s s' \<longleftrightarrow> (hs_inv K L0 s \<longrightarrow> hs_inv K L0 s' \<and> log_le s s')"

lemma hs_next_frame: "frame K s s' \<Longrightarrow> hs_next K L0 s s'"
  unfolding hs_next_def hs_inv_def
  by (auto intro: log_inv_frame log_le_frame) (simp add: frame_def view_defs)

lemma vote_is_vote [simp]: "is_vote (Send i (vote_msg K sk j t v b))" "\<not> is_reply (Send i m)"
  by (simp_all add: vote_msg_def)

lemma hs_next_vote:
  assumes "frame K s s1"
  shows "hs_next K L0 s (send_vote K t v b s1)"
proof -
  have "log_view (send_vote K t v b s1) = log_view s1" "statics (send_vote K t v b s1) = statics s1"
      "rep_tree (send_vote K t v b s1) = rep_tree s1"
    by (simp_all add: send_vote_def emit_def view_defs)
  moreover from this have "committed (send_vote K t v b s1) = committed s1" by (simp add: view_defs)
  ultimately show ?thesis
    using hs_next_frame[OF assms, of L0]
    by (auto simp: hs_next_def hs_inv_def log_le_def elim: log_inv_same)
qed

lemma hs_next_trans: "hs_next K L0 s t \<Longrightarrow> hs_next K L0 t u \<Longrightarrow> hs_next K L0 s u"
  unfolding hs_next_def by (auto intro: log_le_trans)

lemma hs_next_execute:
  assumes "execute K (tree_get (rep_tree s) h) s = Inr s'"
    and "\<forall>b. tree_get (rep_tree s) h = Some b \<longrightarrow> first_missing_ancestor K b s = Inr None"
  shows "hs_next K L0 s s'"
  unfolding hs_next_def
proof
  assume inv: "hs_inv K L0 s"
  obtain cs where cs: "chain_to K (rep_tree s) (executed s) (tree_get (rep_tree s) h) = Inr cs"
      "s' = fold (execute_block K) (rev cs) s"
    using assms(1) by (auto simp: execute_def bindE_eq_Inr)
  have li: "log_inv K L0 s" and cl: "closed_from K {genesis_hash K} (committed s)"
    using inv by (simp_all add: hs_inv_def)
  note E = execute_log[OF li cs(1), folded cs(2)]
  have ex: "insert (genesis_hash K) (executed s) = {genesis_hash K} \<union> node_hash K ` set (committed s)"
    and ok: "tree_ok K (rep_tree s)"
    using li by (simp_all add: log_inv_def)
  have "closed_from K (insert (genesis_hash K) (executed s)) (rev cs)"
  proof (cases "tree_get (rep_tree s) h")
    case None
    then show ?thesis using cs(1) by (simp add: chain_to_def walk_fuel_def)
  next
    case (Some b)
    with assms(2) chain_closed[OF _ _ ok] cs(1) show ?thesis
      unfolding first_missing_ancestor_def first_missing_def chain_to_def by metis
  qed
  with E cl ex show "hs_inv K L0 s' \<and> log_le s s'" by (simp add: hs_inv_def log_le_def)
qed

lemma hs_next_on_decide:
  assumes "on_decide K m s = Inr s'"
  shows "hs_next K L0 s s'"
proof -
  let ?q = "the (m_justify m)"
  let ?b = "tree_get (rep_tree s) (qc_node ?q)"
  consider "s' = s" | x d where "s' = (request_sync x (m_sender m) s)\<lparr>deferred := d\<rparr>"
    | s1 where "execute K ?b s = Inr s1" "\<forall>b. ?b = Some b \<longrightarrow> first_missing_ancestor K b s = Inr None"
        "s' = s1 \<or> s' = advance_from (m_view m) (s1\<lparr>decided := insert (m_view m) (decided s1), failures := 0\<rparr>)"
    using assms by (auto simp: on_decide_def Let_def bindE_eq_Inr split: if_splits option.splits)
  then show ?thesis
  proof cases
    case (3 s1)
    have "frame K s1 s'" using 3(3) by (auto intro!: hs_frames)
    then show ?thesis by (rule hs_next_trans[OF hs_next_execute[OF 3(1,2)] hs_next_frame])
  qed (auto intro!: hs_next_frame hs_frames)
qed

lemma hs_next_on_sync_resp:
  assumes "on_sync_resp K m s = Inr s'"
  shows "hs_next K L0 s s'"
proof -
  obtain bs where run: "foldE (on_decide K) (deferred s)
      (s\<lparr>rep_tree := fold (tree_add K) bs (rep_tree s), deferred := []\<rparr>) = Inr s'"
    using assms by (auto simp: on_sync_resp_def bindE_eq_Inr)
  have "hs_next K L0 s (s\<lparr>rep_tree := fold (tree_add K) bs (rep_tree s), deferred := []\<rparr>)"
    by (intro hs_next_frame hs_frames)
  from foldE_partial[OF run, where P = "hs_next K L0 s", OF this] show ?thesis
    by (blast intro: hs_next_trans hs_next_on_decide)
qed

lemma hs_next_dispatch:
  assumes "dispatch K m s = Inr s'"
  shows "hs_next K L0 s s'"
proof -
  define s1 where "s1 = (if m_type m \<in> {PREPARE, PRE_COMMIT, COMMIT, DECIDE} \<and> m_partial_sig m = None \<and>
      cur_view s < m_view m then sync_view (m_view m) s else s)"
  have "frame K s s1" by (auto simp: s1_def intro!: hs_frames)
  then have f: "hs_next K L0 s s1" by (rule hs_next_frame)
  have "hs_next K L0 s1 s'"
    using assms unfolding dispatch_def Let_def not_not s1_def[symmetric]
    by (cases "m_type m")
      (auto split: if_splits intro: hs_next_on_decide hs_next_on_sync_resp hs_next_frame frame_on_new_view
        frame_on_prepare_vote frame_on_generic_vote frame_on_sync_req
        dest!: on_prepare_cases on_pre_commit_cases on_commit_cases intro: hs_next_vote)
  with f show ?thesis by (rule hs_next_trans)
qed

lemma hs_next_step: "hs_step K e s = Inr s' \<Longrightarrow> hs_next K L0 s s'"
  by (cases e) (auto split: if_splits option.splits intro: hs_next_dispatch hs_next_frame intro!: hs_frames)

interpretation basic: safe_machine "hs_step K" "hs_inv K L0" log_le for K L0
proof
  fix s e s'
  assume "hs_inv K L0 s" "hs_step K e s = Inr s'"
  with hs_next_step[of K e s s' L0] show "hs_inv K L0 s'" "log_le s s'" by (auto simp: hs_next_def)
qed (auto intro: log_le_trans)

text \<open>The chained replica does not check for missing ancestors, so its log need not be closed.\<close>

definition ch_next :: "hs_crypto \<Rightarrow> ledger option \<Rightarrow> ch_replica \<Rightarrow> ch_replica \<Rightarrow> bool" where
  "ch_next K L0 s s' \<longleftrightarrow> (log_inv K L0 s \<longrightarrow> log_inv K L0 s' \<and> log_le s s')"

lemma ch_next_frame: "frame K s s' \<Longrightarrow> ch_next K L0 s s'"
  unfolding ch_next_def by (auto intro: log_inv_frame log_le_frame)

lemma ch_next_trans: "ch_next K L0 s t \<Longrightarrow> ch_next K L0 t u \<Longrightarrow> ch_next K L0 s u"
  unfolding ch_next_def by (auto intro: log_le_trans)

lemma ch_next_commit:
  assumes "commit K b s = Inr s'" "tree_get (rep_tree s) h = Some b"
  shows "ch_next K L0 s s'"
proof -
  obtain cs where cs: "chain_to K (rep_tree s) (executed s) (tree_get (rep_tree s) h) = Inr cs"
      "s' = fold (execute_block K) (rev cs) s"
    using assms by (auto simp: commit_def bindE_eq_Inr)
  show ?thesis unfolding ch_next_def log_le_def cs(2) using execute_log[OF _ cs(1)] by blast
qed

lemma justified_get: "justified t b = Some c \<Longrightarrow> \<exists>h. tree_get t h = Some c"
  by (auto simp: justified_def split: option.splits)

lemma update_cases:
  assumes "update K b s = Inr s'"
  obtains s2 where "frame K s s2" "rep_tree s2 = rep_tree s"
    "s' = s2 \<or> (\<exists>c h. tree_get (rep_tree s) h = Some c \<and> commit K c s2 = Inr s')"
proof -
  obtain q where q: "justify b = Some q" using assms by (auto simp: update_def split: option.splits)
  show ?thesis
  proof (cases "tree_get (rep_tree s) (qc_node q)")
    case None
    then show ?thesis using assms q that[of s] by (simp add: update_def)
  next
    case (Some b2)
    define s1 where "s1 = (if qc_view (generic_qc s) < qc_view q then s\<lparr>generic_qc := q\<rparr> else s)"
    define b1 where "b1 = justified (rep_tree s) b2"
    define b0 where "b0 = (case b1 of None \<Rightarrow> None | Some c \<Rightarrow> justified (rep_tree s) c)"
    define s2 where "s2 = (case b1 of Some c \<Rightarrow>
        if view_number (locked_node s1) < view_number c then s1\<lparr>locked_node := c\<rparr> else s1 | None \<Rightarrow> s1)"
    have "frame K s s1" by (auto simp: s1_def intro!: hs_frames)
    then have "frame K s s2" by (auto simp: s2_def intro!: hs_frames split: option.splits)
    moreover have "rep_tree s2 = rep_tree s" by (simp add: s1_def s2_def split: option.splits)
    moreover have "s' = s2 \<or> (\<exists>c. b0 = Some c \<and> commit K c s2 = Inr s')"
      using assms unfolding update_def q Let_def option.case Some
        s1_def[symmetric] b1_def[symmetric] b0_def[symmetric] s2_def[symmetric]
      by (auto split: option.splits if_splits)
    moreover have "b0 = Some c \<Longrightarrow> \<exists>h. tree_get (rep_tree s) h = Some c" for c
      by (auto simp: b0_def split: option.splits dest: justified_get)
    ultimately show ?thesis using that by blast
  qed
qed

lemma ch_next_update: "update K b s = Inr s' \<Longrightarrow> ch_next K L0 s s'"
  by (erule update_cases) (metis ch_next_commit ch_next_frame ch_next_trans)

lemma ch_next_vote:
  assumes "ch_vote K m b q s = Inr s'"
  shows "ch_next K L0 s s'"
  using ch_vote_cases[OF assms]
  by (auto simp: ch_next_def log_le_def emit_def view_defs elim!: log_inv_same)

lemma ch_next_dispatch:
  assumes "ch_dispatch K m s = Inr s'"
  shows "ch_next K L0 s s'"
proof (cases "m_type m = GENERIC \<and> m_partial_sig m = None")
  case True
  then have "on_generic K m s = Inr s'" using assms by (simp add: ch_dispatch_def)
  then have "s' = s \<or> (\<exists>b q s1 s2. register_branch K b (s\<lparr>rep_tree := tree_add K b (rep_tree s)\<rparr>) = Inr s1 \<and>
      ch_vote K m b q (if cur_view s1 < m_view m then enter (m_view m) s1 else s1) = Inr s2 \<and> update K b s2 = Inr s')"
    by (auto simp: on_generic_def bindE_eq_Inr split: if_splits option.splits)
  then show ?thesis
  proof (elim disjE exE conjE)
    fix b q s1 s2
    assume "register_branch K b (s\<lparr>rep_tree := tree_add K b (rep_tree s)\<rparr>) = Inr s1"
      and v: "ch_vote K m b q (if cur_view s1 < m_view m then enter (m_view m) s1 else s1) = Inr s2"
      and u: "update K b s2 = Inr s'"
    then have "frame K s s1" by (elim frame_register_branch) (intro hs_frames)
    then have f: "frame K s (if cur_view s1 < m_view m then enter (m_view m) s1 else s1)"
      by (auto intro!: hs_frames)
    have "ch_next K L0 s s2" using ch_next_trans[OF ch_next_frame[OF f] ch_next_vote[OF v]] .
    from ch_next_trans[OF this ch_next_update[OF u]] show ?thesis .
  qed (simp add: ch_next_frame)
next
  case False
  have "frame K s s'"
    using assms False by (cases "m_type m")
      (auto simp: ch_dispatch_def dest: frame_ch_on_new_view frame_ch_on_generic_vote split: if_splits)
  then show ?thesis by (rule ch_next_frame)
qed

lemma ch_next_step: "ch_step K e s = Inr s' \<Longrightarrow> ch_next K L0 s s'"
  by (cases e) (auto split: if_splits option.splits intro: ch_next_dispatch ch_next_frame frame_ch_submit
      intro!: hs_frames)

interpretation chained: safe_machine "ch_step K" "log_inv K L0" log_le for K L0
proof
  fix s e s'
  assume "log_inv K L0 s" "ch_step K e s = Inr s'"
  with ch_next_step[of K e s s' L0] show "log_inv K L0 s'" "log_le s s'" by (auto simp: ch_next_def)
qed (auto intro: log_le_trans)

lemma hs_inv_init: "hs_inv K L0 (hs_init_replica K cls i n f sk vks p L0 resp)"
  by (cases L0) (simp_all add: hs_inv_def log_inv_def hs_init_replica_def replies_sent_def log_cmds_def outcomes_def
      ledger_run_def)

lemma log_inv_init_chained: "log_inv K L0 (init_chained K i n f sk vks p L0 resp)"
  by (cases L0) (simp_all add: log_inv_def init_chained_def replies_sent_def log_cmds_def outcomes_def
      ledger_run_def)

end
