(* ===== verification/HS_Votes.thy ===== *)
theory HS_Votes
  imports HS_Log
begin

text \<open>
  The votes of a HotStuff replica under arbitrary input, and what certificates of a system with at most \<open>f\<close> faulty
  replicas prove. A chained replica votes once per view. A basic replica votes PRE-COMMIT and COMMIT, and
  commits blocks, only on certificates of the phase before. \<open>quorum_system\<close> is interpreted on the replica ids.
\<close>

section \<open>Votes cast\<close>

text \<open>A replica has cast a vote when it has sent the signed message.\<close>

definition casts :: "hs_crypto \<Rightarrow> 'a rep_core_scheme \<Rightarrow> msg_type \<Rightarrow> int \<Rightarrow> string option \<Rightarrow> bool" where
  "casts K s t v h \<longleftrightarrow> (\<exists>i b. Send i (vote_msg K (signing_key s) (rep_id s) t v b) \<in> set (out s) \<and>
     h = Some (node_hash K b))"

fun vote_view :: "hs_action \<Rightarrow> int" where
  "vote_view (Send i m) = m_view m"
| "vote_view (Broadcast m) = m_view m"
| "vote_view (Reply i c r) = 0"

lemma vote_msg_sel [simp]:
  "m_type (vote_msg K sk i t v b) = t" "m_view (vote_msg K sk i t v b) = v"
  "m_node (vote_msg K sk i t v b) = Some b" "m_sender (vote_msg K sk i t v b) = i"
  "m_justify (vote_msg K sk i t v b) = None"
  "m_partial_sig (vote_msg K sk i t v b) = Some (i, sign_vote K sk t v (Some (node_hash K b)))"
  by (simp_all add: vote_msg_def)

lemma casts_votes_sent: "casts K s t v h \<longleftrightarrow>
    (\<exists>i b. Send i (vote_msg K (signing_key s) (rep_id s) t v b) \<in> set (votes_sent s) \<and> h = Some (node_hash K b))"
  by (simp add: casts_def votes_sent_def)

section \<open>One vote per view in the chained replica\<close>

definition ch_votes_inv :: "hs_crypto \<Rightarrow> ch_replica \<Rightarrow> bool" where
  "ch_votes_inv K s \<longleftrightarrow>
     (\<forall>a \<in> set (votes_sent s). \<exists>i v b. a = Send i (vote_msg K (signing_key s) (rep_id s) GENERIC v b)) \<and>
     voted s = vote_view ` set (votes_sent s) \<and> distinct (map vote_view (votes_sent s))"

text \<open>Operations that leave \<^verbatim>\<open>_voted\<close> alone.\<close>

named_theorems voted_same \<open>operations that do not change the views voted in\<close>

lemma voted_core [voted_same]:
  "voted (emit a s) = voted s" "voted (record_qc q s) = voted s" "voted (arm_timer s) = voted s"
  "voted (stop_replica s) = voted s" "voted (execute_block K b s) = voted s" "voted (enter v s) = voted s"
  "voted (ch_advance_from v s) = voted s" "voted (ch_on_timeout v s) = voted s"
  by (simp_all add: emit_def record_qc_def arm_timer_def stop_replica_def execute_block_def enter_def
      ch_advance_from_def ch_on_timeout_def Let_def split: prod.splits)

lemma voted_fold_execute [voted_same]: "voted (fold (execute_block K) bs (s :: ch_replica)) = voted s"
  by (induction bs arbitrary: s) (simp_all add: voted_same)

lemma voted_register_branch: "register_branch K b s = Inr s' \<Longrightarrow> voted s' = voted s"
  by (auto simp: register_branch_def bindE_eq_Inr)

lemma voted_ch_try_propose:
  assumes "ch_try_propose K v q s = Inr s'"
  shows "voted s' = voted s"
proof -
  obtain c s1 where n: "ch_next_command (qc_node q) s = (c, s1)" by force
  then have "voted s1 = voted s" by (auto simp: ch_next_command_def Let_def split: prod.splits)
  with n assms show ?thesis
    by (auto simp: ch_try_propose_def Let_def bindE_eq_Inr voted_same split: option.splits if_splits
        dest!: voted_register_branch)
qed

lemma voted_ch_submit: "ch_submit K c s = Inr s' \<Longrightarrow> voted s' = voted s"
  by (simp add: ch_submit_def Let_def split: if_splits) (drule voted_ch_try_propose, simp)

lemma voted_ch_on_new_view: "ch_on_new_view K m s = Inr s' \<Longrightarrow> voted s' = voted s"
  by (auto simp: ch_on_new_view_def Let_def bindE_eq_Inr split: if_splits) (drule voted_ch_try_propose, simp)+

lemma voted_ch_on_generic_vote: "ch_on_generic_vote K m s = Inr s' \<Longrightarrow> voted s' = voted s"
  by (auto simp: ch_on_generic_vote_def Let_def bindE_eq_Inr split: if_splits option.splits)
    (drule voted_ch_try_propose, simp add: voted_same)+

lemma voted_update: "update K b s = Inr s' \<Longrightarrow> voted s' = voted s"
  by (auto simp: update_def commit_def Let_def bindE_eq_Inr voted_same split: option.splits if_splits)

lemma votes_sent_execute: "votes_sent (fold (execute_block K) bs s) = votes_sent s"
proof (induction bs arbitrary: s)
  case (Cons b bs)
  have "votes_sent (execute_block K b s) = votes_sent s"
    by (simp add: execute_block_def votes_sent_def emit_def Let_def split: prod.splits)
  with Cons show ?case by simp
qed simp

lemma votes_sent_update: "update K b s = Inr s' \<Longrightarrow> votes_sent s' = votes_sent s \<and> statics s' = statics s"
proof (erule update_cases)
  fix s2
  assume f: "frame K s s2" "rep_tree s2 = rep_tree s"
    and "s' = s2 \<or> (\<exists>c h. tree_get (rep_tree s) h = Some c \<and> commit K c s2 = Inr s')"
  moreover have "statics (fold (execute_block K) bs s2) = statics s2" for bs and s2 :: ch_replica
    by (induction bs arbitrary: s2) (simp_all add: execute_block_frame)
  ultimately show ?thesis by (auto simp: commit_def bindE_eq_Inr votes_sent_execute frame_def)
qed

lemma ch_votes_inv_same:
  "ch_votes_inv K s \<Longrightarrow> votes_sent s' = votes_sent s \<Longrightarrow> voted s' = voted s \<Longrightarrow> statics s' = statics s \<Longrightarrow> ch_votes_inv K s'"
  by (simp add: ch_votes_inv_def statics_def)

lemma ch_votes_inv_frame: "ch_votes_inv K s \<Longrightarrow> frame K s s' \<Longrightarrow> voted s' = voted s \<Longrightarrow> ch_votes_inv K s'"
  by (rule ch_votes_inv_same) (simp_all add: frame_def)

lemma ch_votes_inv_vote:
  assumes "ch_votes_inv K s" "ch_vote K m b q s = Inr s'"
  shows "ch_votes_inv K s'"
  using ch_vote_cases[OF assms(2)]
proof (elim disjE conjE)
  let ?a = "Send (leader (pacer s) (m_view m + 1)) (vote_msg K (signing_key s) (rep_id s) GENERIC (m_view m) b)"
  assume new: "m_view m \<notin> voted s" and s': "s' = emit ?a (s\<lparr>voted := insert (m_view m) (voted s)\<rparr>)"
  have out: "votes_sent s' = votes_sent s @ [?a]" "voted s' = insert (m_view m) (voted s)"
      "signing_key s' = signing_key s" "rep_id s' = rep_id s"
    unfolding s' by (simp_all add: emit_def votes_sent_def)
  show ?thesis
    using assms(1) new unfolding ch_votes_inv_def out set_append ball_Un map_append distinct_append
    by (intro conjI) (auto simp: image_iff)
qed (use assms in simp)

lemma ch_votes_inv_dispatch:
  assumes "ch_votes_inv K s" "ch_dispatch K m s = Inr s'"
  shows "ch_votes_inv K s'"
proof (cases "m_type m = GENERIC \<and> m_partial_sig m = None")
  case True
  then have "on_generic K m s = Inr s'" using assms by (simp add: ch_dispatch_def)
  then have "s' = s \<or> (\<exists>b q s1 s2. register_branch K b (s\<lparr>rep_tree := tree_add K b (rep_tree s)\<rparr>) = Inr s1 \<and>
      ch_vote K m b q (if cur_view s1 < m_view m then enter (m_view m) s1 else s1) = Inr s2 \<and> update K b s2 = Inr s')"
    by (auto simp: on_generic_def bindE_eq_Inr split: if_splits option.splits)
  then show ?thesis
  proof (elim disjE exE conjE)
    fix b q s1 s2
    assume r: "register_branch K b (s\<lparr>rep_tree := tree_add K b (rep_tree s)\<rparr>) = Inr s1"
      and v: "ch_vote K m b q (if cur_view s1 < m_view m then enter (m_view m) s1 else s1) = Inr s2"
      and u: "update K b s2 = Inr s'"
    have f: "frame K s s1" using r by (elim frame_register_branch) (intro hs_frames)
    have "ch_votes_inv K (if cur_view s1 < m_view m then enter (m_view m) s1 else s1)"
      using voted_register_branch[OF r] f
      by (intro ch_votes_inv_frame[OF assms(1)]) (auto simp: voted_same intro!: hs_frames)
    then have "ch_votes_inv K s2" using v by (rule ch_votes_inv_vote)
    then show ?thesis
      by (rule ch_votes_inv_same) (simp_all add: votes_sent_update[OF u] voted_update[OF u])
  qed (use assms in simp)
next
  case False
  have "frame K s s' \<and> voted s' = voted s"
    using assms(2) False by (cases "m_type m")
      (auto simp: ch_dispatch_def split: if_splits
        dest: frame_ch_on_new_view frame_ch_on_generic_vote voted_ch_on_new_view voted_ch_on_generic_vote)
  then show ?thesis using ch_votes_inv_frame[OF assms(1)] by blast
qed

lemma ch_votes_inv_step:
  assumes "ch_votes_inv K s" "ch_step K e s = Inr s'"
  shows "ch_votes_inv K s'"
proof (cases e)
  case (Deliver m)
  then show ?thesis using assms ch_votes_inv_dispatch by (auto split: if_splits)
next
  case (Submit c)
  then show ?thesis
    using assms(2) frame_ch_submit voted_ch_submit by (intro ch_votes_inv_frame[OF assms(1)]) auto
next
  case Timer_fires
  then show ?thesis
    using assms(2) by (intro ch_votes_inv_frame[OF assms(1)])
      (auto simp: voted_same split: option.splits intro!: hs_frames)
qed (use assms in \<open>auto intro!: ch_votes_inv_frame[OF assms(1)] hs_frames simp: voted_same\<close>)

interpretation ch_voting: safe_machine "ch_step K" "ch_votes_inv K" "\<lambda>_ _. True" for K
  by unfold_locales (auto intro: ch_votes_inv_step)

lemma ch_votes_inv_init: "ch_votes_inv K (init_chained K i n f sk vks p L resp)"
  by (simp add: ch_votes_inv_def init_chained_def votes_sent_def)

lemma ch_vote_once:
  assumes "ch_votes_inv K s" "casts K s t v h" "casts K s u v g"
  shows "t = u \<and> h = g"
proof -
  obtain i b j c where
    m: "Send i (vote_msg K (signing_key s) (rep_id s) t v b) \<in> set (votes_sent s)" "h = Some (node_hash K b)"
      "Send j (vote_msg K (signing_key s) (rep_id s) u v c) \<in> set (votes_sent s)" "g = Some (node_hash K c)"
    using assms(2,3) unfolding casts_votes_sent by blast
  have "inj_on vote_view (set (votes_sent s))"
    using assms(1) unfolding ch_votes_inv_def distinct_map by blast
  from inj_onD[OF this _ m(1,3)] have "vote_msg K (signing_key s) (rep_id s) t v b = vote_msg K (signing_key s) (rep_id s) u v c"
    by simp
  then have "t = u" "b = c" by (metis vote_msg_sel(1), metis vote_msg_sel(3) option.inject)
  with m show ?thesis by simp
qed

section \<open>Evidence for the votes and the log of a basic replica\<close>

named_theorems deferred_same \<open>operations that do not change the deferred decisions\<close>

lemma deferred_core [deferred_same]:
  "deferred (emit a s) = deferred s" "deferred (record_qc q s) = deferred s" "deferred (arm_timer s) = deferred s"
  "deferred (stop_replica s) = deferred s" "deferred (execute_block K b s) = deferred s"
  "deferred (send_vote K t v b s) = deferred s" "deferred (request_sync h p s) = deferred s"
  "deferred (advance_from v s) = deferred s" "deferred (on_timeout v s) = deferred s"
  "deferred (sync_view v s) = deferred s" "deferred (snd (next_command s)) = deferred s"
  by (simp_all add: emit_def record_qc_def arm_timer_def stop_replica_def execute_block_def send_vote_def request_sync_def
      advance_from_def on_timeout_def sync_view_def next_command_def Let_def split: prod.splits)

lemma deferred_fold_emit [deferred_same]: "deferred (fold (\<lambda>x. emit (f x)) xs (s :: hs_replica)) = deferred s"
  by (induction xs arbitrary: s) (simp_all add: deferred_same)

lemma deferred_fold_execute [deferred_same]: "deferred (fold (execute_block K) bs (s :: hs_replica)) = deferred s"
  by (induction bs arbitrary: s) (simp_all add: deferred_same)

lemma deferred_send_proposal [deferred_same]: "deferred (send_proposal K v b q s) = deferred s"
  by (simp add: send_proposal_def deferred_same Let_def split: replica_class.splits)

lemma deferred_try_propose [deferred_same]: "deferred (try_propose K v s) = deferred s"
proof -
  obtain c s1 where n: "next_command s = (c, s1)" by force
  then have "deferred s1 = deferred s" using deferred_core(11)[of s] by simp
  with n show ?thesis
    by (simp add: try_propose_def Let_def deferred_same split: option.splits)
qed

lemma deferred_submit [deferred_same]: "deferred (submit K c s) = deferred s"
  by (simp add: submit_def Let_def deferred_same)

lemma deferred_tally: "tally K m s = Inr (s', vs) \<Longrightarrow> deferred s' = deferred s"
  by (auto simp: tally_def Let_def bindE_eq_Inr split: if_splits option.splits)

lemma deferred_handlers:
  "on_new_view K m s = Inr s' \<Longrightarrow> deferred s' = deferred s"
  "on_prepare K m s = Inr s' \<Longrightarrow> deferred s' = deferred s"
  "on_prepare_vote K m s = Inr s' \<Longrightarrow> deferred s' = deferred s"
  "on_generic_vote K m s = Inr s' \<Longrightarrow> deferred s' = deferred s"
  "on_pre_commit K m s = Inr s' \<Longrightarrow> deferred s' = deferred s"
  "on_commit K m s = Inr s' \<Longrightarrow> deferred s' = deferred s"
  "on_sync_req K m s = Inr s' \<Longrightarrow> deferred s' = deferred s"
  by (auto simp: on_new_view_def on_prepare_def on_prepare_vote_def on_generic_vote_def on_pre_commit_def
      on_commit_def on_sync_req_def Let_def bindE_eq_Inr deferred_same split: if_splits option.splits
      hs_payload.splits prod.splits dest!: deferred_tally)

text \<open>A certificate of the given kind that the replica accepts, among the messages \<open>E\<close>.\<close>

definition certified :: "hs_crypto \<Rightarrow> 'a rep_core_scheme \<Rightarrow> msg set \<Rightarrow> msg_type \<Rightarrow> int \<Rightarrow> string option \<Rightarrow> bool" where
  "certified K s E t v h \<longleftrightarrow> (\<exists>m \<in> E. \<exists>q. m_justify m = Some q \<and> qc_type q = t \<and> qc_view q = v \<and>
     qc_node q = h \<and> verify_justify K (Some q) s = Inr True)"

definition evidence :: "hs_crypto \<Rightarrow> hs_replica \<Rightarrow> msg set \<Rightarrow> msg_type \<Rightarrow> int \<Rightarrow> string option \<Rightarrow> bool" where
  "evidence K s E t v h \<longleftrightarrow>
     t = PREPARE \<and> (\<exists>m \<in> E. m_view m = v \<and> map_option (node_hash K) (m_node m) = h) \<or>
     t = PRE_COMMIT \<and> certified K s E PREPARE v h \<or> t = COMMIT \<and> certified K s E PRE_COMMIT v h"

definition votes_ok :: "hs_crypto \<Rightarrow> msg set \<Rightarrow> hs_replica \<Rightarrow> bool" where
  "votes_ok K E s \<longleftrightarrow> (\<forall>a \<in> set (votes_sent s). \<exists>i t v b.
     a = Send i (vote_msg K (signing_key s) (rep_id s) t v b) \<and> evidence K s E t v (Some (node_hash K b)))"

text \<open>Every block of the log is certified by a commit certificate or the parent of a block of the log.\<close>

definition log_certified :: "hs_crypto \<Rightarrow> msg set \<Rightarrow> hs_replica \<Rightarrow> bool" where
  "log_certified K E s \<longleftrightarrow> (\<forall>b \<in> set (committed s).
     (\<exists>v. certified K s E COMMIT v (Some (node_hash K b))) \<or>
     (\<exists>c \<in> set (committed s). parent_hash c = Some (node_hash K b)))"

definition evid_inv :: "hs_crypto \<Rightarrow> ledger option \<Rightarrow> msg set \<Rightarrow> hs_replica \<Rightarrow> bool" where
  "evid_inv K L0 E s \<longleftrightarrow> hs_inv K L0 s \<and> votes_ok K E s \<and> log_certified K E s \<and> set (deferred s) \<subseteq> E"

lemma verify_justify_statics:
  assumes "statics s' = statics s"
  shows "verify_justify K q s' = verify_justify K q s"
proof -
  have "verify_keys s' = verify_keys s" "quorum s' = quorum s" using assms by (simp_all add: statics_def quorum_def)
  then show ?thesis by (simp add: verify_justify_def split: option.split)
qed

lemma certified_statics:
  assumes "statics s' = statics s"
  shows "certified K s' E t v h = certified K s E t v h"
  unfolding certified_def verify_justify_statics[OF assms] ..

lemma evidence_statics:
  assumes "statics s' = statics s"
  shows "evidence K s' E t v h = evidence K s E t v h"
  unfolding evidence_def certified_statics[OF assms] ..

lemma votes_ok_same:
  assumes "statics s' = statics s" "votes_sent s' = votes_sent s" "votes_ok K E s"
  shows "votes_ok K E s'"
proof -
  have "signing_key s' = signing_key s" "rep_id s' = rep_id s" using assms(1) by (simp_all add: statics_def)
  then show ?thesis using assms(3) unfolding votes_ok_def evidence_statics[OF assms(1)] assms(2) by simp
qed

lemma evid_inv_same:
  assumes "evid_inv K L0 E s" "hs_next K L0 s s'" "statics s' = statics s" "votes_sent s' = votes_sent s"
    "committed s' = committed s" "set (deferred s') \<subseteq> E"
  shows "evid_inv K L0 E s'"
  using assms(1,2,6) votes_ok_same[OF assms(3,4)]
  unfolding evid_inv_def log_certified_def certified_statics[OF assms(3)] assms(5) hs_next_def by blast

lemma evid_inv_frame:
  assumes "evid_inv K L0 E s" "frame K s s'" "set (deferred s') \<subseteq> E"
  shows "evid_inv K L0 E s'"
  using assms(2) by (intro evid_inv_same[OF assms(1) hs_next_frame[OF assms(2)] _ _ _ assms(3)])
    (simp_all add: frame_def log_view_def)

lemma evid_inv_vote:
  assumes "evid_inv K L0 E s" "evidence K s E t v (Some (node_hash K b))"
  shows "evid_inv K L0 E (send_vote K t v b s)"
proof -
  let ?s' = "send_vote K t v b s"
  have st: "statics ?s' = statics s" "committed ?s' = committed s" "deferred ?s' = deferred s"
    "signing_key ?s' = signing_key s" "rep_id ?s' = rep_id s"
    "votes_sent ?s' = votes_sent s @ [Send (leader (pacer s) v) (vote_msg K (signing_key s) (rep_id s) t v b)]"
    by (simp_all add: send_vote_def emit_def statics_def votes_sent_def)
  have "hs_inv K L0 ?s'"
    using assms(1) hs_next_vote[OF frame_refl, of K L0 s t v b] by (simp add: hs_next_def evid_inv_def)
  then show ?thesis
    using assms unfolding evid_inv_def votes_ok_def log_certified_def st
    by (auto simp: evidence_statics[OF st(1)] certified_statics[OF st(1)])
qed

text \<open>Executing the block of an accepted commit certificate.\<close>

lemma chain_certified:
  assumes "chain_to K t known (tree_get t h) = Inr cs" "tree_ok K t" "c \<in> set cs"
  shows "h = Some (node_hash K c) \<or> (\<exists>d \<in> set cs. parent_hash d = Some (node_hash K c))"
proof -
  note C = collect_Inr[OF assms(1)[unfolded chain_to_def]]
  obtain i where i: "i < length cs" "c = cs ! i" using assms(3) by (metis in_set_conv_nth)
  show ?thesis
  proof (cases i)
    case 0
    then have "tree_get t h = Some c" using C i by fastforce
    then show ?thesis using tree_get_hash[OF assms(2)] by blast
  next
    case (Suc j)
    have j: "ancestor t j (tree_get t h) = Some (cs ! j)" and "ancestor t (Suc j) (tree_get t h) = Some c"
      using C i Suc by auto
    then have "tree_get t (parent_hash (cs ! j)) = Some c" unfolding ancestor_Suc j by simp
    then show ?thesis using tree_get_hash[OF assms(2)] i Suc by (metis Suc_lessD nth_mem)
  qed
qed

lemma evid_inv_execute:
  assumes inv: "evid_inv K L0 E s" and ex: "execute K (tree_get (rep_tree s) h) s = Inr s'"
    and full: "\<forall>b. tree_get (rep_tree s) h = Some b \<longrightarrow> first_missing_ancestor K b s = Inr None"
    and cert: "certified K s E COMMIT v h"
  shows "evid_inv K L0 E s'"
proof -
  have li: "log_inv K L0 s" using inv by (simp add: evid_inv_def hs_inv_def)
  obtain cs where cs: "chain_to K (rep_tree s) (executed s) (tree_get (rep_tree s) h) = Inr cs"
      "s' = fold (execute_block K) (rev cs) s"
    using ex by (auto simp: execute_def bindE_eq_Inr)
  note X = execute_log[OF li cs(1), folded cs(2)]
  have st: "statics s' = statics s" "committed s' = committed s @ rev cs" using X by blast+
  have "hs_inv K L0 s'"
    using hs_next_execute[OF ex full, of L0] inv by (simp add: hs_next_def evid_inv_def)
  moreover have "votes_ok K E s'"
    by (rule votes_ok_same[OF st(1)]) (use inv in \<open>simp_all add: cs(2) votes_sent_execute evid_inv_def\<close>)
  moreover have "log_certified K E s'"
    unfolding log_certified_def certified_statics[OF st(1)] st(2)
  proof
    fix b assume b: "b \<in> set (committed s @ rev cs)"
    show "(\<exists>v. certified K s E COMMIT v (Some (node_hash K b))) \<or>
        (\<exists>c \<in> set (committed s @ rev cs). parent_hash c = Some (node_hash K b))"
    proof (cases "b \<in> set cs")
      case True
      have ok: "tree_ok K (rep_tree s)" using li by (simp add: log_inv_def)
      show ?thesis using chain_certified[OF cs(1) ok True] cert by auto
    next
      case False
      then show ?thesis using b inv unfolding evid_inv_def log_certified_def by auto
    qed
  qed
  moreover have "set (deferred s') \<subseteq> E" using inv by (simp add: evid_inv_def cs(2) deferred_same)
  ultimately show ?thesis by (simp add: evid_inv_def)
qed

lemma evid_inv_on_decide:
  assumes inv: "evid_inv K L0 E s" and run: "on_decide K m s = Inr s'" and "m \<in> E"
  shows "evid_inv K L0 E s'"
proof -
  let ?q = "the (m_justify m)"
  let ?b = "tree_get (rep_tree s) (qc_node ?q)"
  consider "s' = s" | x where "s' = (request_sync x (m_sender m) s)\<lparr>deferred := deferred s @ [m]\<rparr>"
    | s1 where "m_justify m = Some ?q" "qc_type ?q = COMMIT" "verify_justify K (Some ?q) s = Inr True"
        "execute K ?b s = Inr s1" "\<forall>b. ?b = Some b \<longrightarrow> first_missing_ancestor K b s = Inr None"
        "s' = s1 \<or> s' = advance_from (m_view m) (s1\<lparr>decided := insert (m_view m) (decided s1), failures := 0\<rparr>)"
    using run by (auto simp: on_decide_def matching_qc_def Let_def bindE_eq_Inr split: if_splits option.splits)
  then show ?thesis
  proof cases
    case (2 x)
    have d: "set (deferred s) \<subseteq> E" using inv by (simp add: evid_inv_def)
    show ?thesis
      by (rule evid_inv_frame[OF inv]) (use 2 d \<open>m \<in> E\<close> in \<open>auto simp: deferred_same intro!: hs_frames\<close>)
  next
    case (3 s1)
    have "certified K s E COMMIT (qc_view ?q) (qc_node ?q)"
      using 3 \<open>m \<in> E\<close> unfolding certified_def by blast
    from evid_inv_execute[OF inv 3(4,5) this] have inv1: "evid_inv K L0 E s1" .
    then have d: "set (deferred s1) \<subseteq> E" by (simp add: evid_inv_def)
    show ?thesis
      by (rule evid_inv_frame[OF inv1]) (use 3(6) d in \<open>auto simp: deferred_same intro!: hs_frames\<close>)
  qed (use inv in simp)
qed

lemma evid_inv_on_sync_resp:
  assumes inv: "evid_inv K L0 E s" and run: "on_sync_resp K m s = Inr s'"
  shows "evid_inv K L0 E s'"
proof -
  obtain bs where run: "foldE (on_decide K) (deferred s)
      (s\<lparr>rep_tree := fold (tree_add K) bs (rep_tree s), deferred := []\<rparr>) = Inr s'"
    using run by (auto simp: on_sync_resp_def bindE_eq_Inr)
  have d: "set (deferred s) \<subseteq> E" using inv by (simp add: evid_inv_def)
  have "evid_inv K L0 E (s\<lparr>rep_tree := fold (tree_add K) bs (rep_tree s), deferred := []\<rparr>)"
    by (rule evid_inv_frame[OF inv]) (auto intro!: hs_frames)
  from foldE_partial[OF run, where P = "evid_inv K L0 E", OF this] show ?thesis
    using evid_inv_on_decide d by blast
qed

lemma evid_inv_voted:
  assumes inv: "evid_inv K L0 E s" and f: "frame K s s1" and d: "deferred s' = deferred s"
    and s': "s' = send_vote K t v b s1" and ev: "evidence K s E t v (Some (node_hash K b))"
  shows "evid_inv K L0 E s'"
proof -
  have "deferred s1 = deferred s" using d s' by (simp add: deferred_same)
  then have "evid_inv K L0 E s1" using inv by (intro evid_inv_frame[OF inv f]) (simp add: evid_inv_def)
  moreover have "evidence K s1 E t v (Some (node_hash K b))"
    using ev evidence_statics[of s1 s] f by (simp add: frame_def)
  ultimately show ?thesis unfolding s' by (rule evid_inv_vote)
qed

lemma evid_inv_handlers:
  assumes inv: "evid_inv K L0 E s" and "m \<in> E"
  shows "on_prepare K m s = Inr s' \<Longrightarrow> evid_inv K L0 E s'"
    "on_pre_commit K m s = Inr s' \<Longrightarrow> evid_inv K L0 E s'" "on_commit K m s = Inr s' \<Longrightarrow> evid_inv K L0 E s'"
proof -
  have d: "set (deferred s) \<subseteq> E" and ok: "tree_ok K (rep_tree s)"
    using inv by (simp_all add: evid_inv_def hs_inv_def log_inv_def)
  have fr: "frame K s s' \<Longrightarrow> deferred s' = deferred s \<Longrightarrow> evid_inv K L0 E s'"
    using evid_inv_frame[OF inv] d by simp
  have cert: "certified K s E (qc_type q) (qc_view q) (Some (node_hash K b))"
    if "m_justify m = Some q" "verify_justify K (Some q) s = Inr True" "tree_get (rep_tree s) (qc_node q) = Some b"
    for q b
    using that \<open>m \<in> E\<close> tree_get_hash[OF ok that(3)] unfolding certified_def by blast
  show "evid_inv K L0 E s'" if "on_prepare K m s = Inr s'"
    using on_prepare_cases[OF that] deferred_handlers(2)[OF that]
  proof (elim disjE exE conjE)
    fix s1 b
    assume "frame K s s1" "s' = send_vote K PREPARE (m_view m) b s1" "m_node m = Some b" "deferred s' = deferred s"
    then show ?thesis using \<open>m \<in> E\<close> by (intro evid_inv_voted[OF inv]) (auto simp: evidence_def)
  qed (rule fr)
  show "evid_inv K L0 E s'" if "on_pre_commit K m s = Inr s'"
    using on_pre_commit_cases[OF that] deferred_handlers(5)[OF that]
  proof (elim disjE exE conjE)
    fix s1 b q
    assume a: "frame K s s1" "s' = send_vote K PRE_COMMIT (m_view m) b s1" "deferred s' = deferred s"
      and q: "m_justify m = Some q" "qc_type q = PREPARE" "qc_view q = m_view m"
        "verify_justify K (Some q) s = Inr True" "tree_get (rep_tree s) (qc_node q) = Some b"
    show ?thesis using cert[OF q(1,4,5)] q by (intro evid_inv_voted[OF inv a(1,3,2)]) (simp add: evidence_def)
  qed (rule fr)
  show "evid_inv K L0 E s'" if "on_commit K m s = Inr s'"
    using on_commit_cases[OF that] deferred_handlers(6)[OF that]
  proof (elim disjE exE conjE)
    fix s1 b q
    assume a: "frame K s s1" "s' = send_vote K COMMIT (m_view m) b s1" "deferred s' = deferred s"
      and q: "m_justify m = Some q" "qc_type q = PRE_COMMIT" "qc_view q = m_view m"
        "verify_justify K (Some q) s = Inr True" "tree_get (rep_tree s) (qc_node q) = Some b"
    show ?thesis using cert[OF q(1,4,5)] q by (intro evid_inv_voted[OF inv a(1,3,2)]) (simp add: evidence_def)
  qed (rule fr)
qed

lemma evid_inv_dispatch:
  assumes inv: "evid_inv K L0 E s" and "m \<in> E" and run: "dispatch K m s = Inr s'"
  shows "evid_inv K L0 E s'"
proof -
  define s1 where "s1 = (if m_type m \<in> {PREPARE, PRE_COMMIT, COMMIT, DECIDE} \<and> m_partial_sig m = None \<and>
      cur_view s < m_view m then sync_view (m_view m) s else s)"
  have d: "set (deferred s) \<subseteq> E" using inv by (simp add: evid_inv_def)
  have inv1: "evid_inv K L0 E s1"
    by (rule evid_inv_frame[OF inv]) (use d in \<open>auto simp: s1_def deferred_same intro!: hs_frames\<close>)
  then have "set (deferred s1) \<subseteq> E" by (simp add: evid_inv_def)
  then have fr: "frame K s1 s' \<Longrightarrow> deferred s' = deferred s1 \<Longrightarrow> evid_inv K L0 E s'"
    using evid_inv_frame[OF inv1] by simp
  note H = evid_inv_handlers[OF inv1 \<open>m \<in> E\<close>] evid_inv_on_decide[OF inv1 _ \<open>m \<in> E\<close>] evid_inv_on_sync_resp[OF inv1]
  note F = fr[OF frame_on_new_view deferred_handlers(1)] fr[OF frame_on_prepare_vote deferred_handlers(3)]
    fr[OF frame_on_generic_vote deferred_handlers(4)] fr[OF frame_on_sync_req deferred_handlers(7)]
  show ?thesis
    using run inv1 unfolding dispatch_def Let_def not_not s1_def[symmetric]
    by (cases "m_type m") (auto split: if_splits intro: H F)
qed

lemma evid_inv_step:
  assumes inv: "evid_inv K L0 E s" and "\<forall>m. e = Deliver m \<longrightarrow> m \<in> E" and run: "hs_step K e s = Inr s'"
  shows "evid_inv K L0 E s'"
proof -
  have d: "set (deferred s) \<subseteq> E" using inv by (simp add: evid_inv_def)
  show ?thesis
  proof (cases e)
    case (Deliver m)
    then show ?thesis using assms evid_inv_dispatch by (auto split: if_splits)
  qed (rule evid_inv_frame[OF inv];
      use run d in \<open>auto simp: deferred_same split: option.splits intro!: hs_frames\<close>)+
qed

definition delivered :: "hs_event list \<Rightarrow> msg set" where
  "delivered es = {m. Deliver m \<in> set es}"

lemma evid_inv_run:
  assumes "foldE (hs_step K) es (hs_init_replica K cls i n f sk vks p L0 r) = Inr s"
  shows "evid_inv K L0 (delivered es) s"
proof (rule foldE_partial[OF assms, where P = "evid_inv K L0 (delivered es)"])
  show "evid_inv K L0 (delivered es) (hs_init_replica K cls i n f sk vks p L0 r)"
    unfolding evid_inv_def using hs_inv_init
    by (auto simp: votes_ok_def log_certified_def hs_init_replica_def votes_sent_def)
qed (rule evid_inv_step, auto simp: delivered_def)

section \<open>Certificates of a system\<close>

text \<open>
  The replicas \<open>reps i\<close>, \<open>i \<in> C\<close>, are correct. Signatures of correct replicas cannot be forged: a valid signature of a
  correct replica inside a certificate is on a vote that the replica cast. The others may have signed anything.
\<close>

definition genuine :: "hs_crypto \<Rightarrow> string list \<Rightarrow> int set \<Rightarrow> (int \<Rightarrow> 'a rep_core_scheme) \<Rightarrow> qc \<Rightarrow> bool" where
  "genuine K vks C reps q \<longleftrightarrow> (\<forall>rs \<in> set (qc_sigs q).
     fst rs \<in> C \<and> valid_vote_sig K vks (qc_type q) (qc_view q) (qc_node q) rs \<longrightarrow>
     casts K (reps (fst rs)) (qc_type q) (qc_view q) (qc_node q))"

lemma genuine_cast:
  assumes "valid_qc K vks quo q" "genuine K vks C reps q" "i \<in> signers q" "i \<in> C"
  shows "casts K (reps i) (qc_type q) (qc_view q) (qc_node q)"
  using assms unfolding valid_qc_def genuine_def signers_def by auto

interpretation hs_quorums: quorum_system "{0..<3 * int f + 1}" f for f
  by unfold_locales simp_all

text \<open>A configuration: \<open>3 f + 1\<close> replicas with their keys, at most \<open>f\<close> of them not in \<open>C\<close>.\<close>

definition bft_config :: "nat \<Rightarrow> string list \<Rightarrow> int set \<Rightarrow> bool" where
  "bft_config f vks C \<longleftrightarrow> length vks = 3 * f + 1 \<and> C \<subseteq> {0..<3 * int f + 1} \<and>
     card ({0..<3 * int f + 1} - C) \<le> f"

lemma valid_qc_quorum:
  assumes "bft_config f vks C" "valid_qc K vks (2 * int f + 1) q"
  shows "signers q \<subseteq> {0..<3 * int f + 1}" "2 * f + 1 \<le> card (signers q)"
  using valid_qc_signers[OF assms(2)] assms(1) by (auto simp: bft_config_def)

lemma valid_qc_correct_signer:
  assumes "bft_config f vks C" "valid_qc K vks (2 * int f + 1) q"
  shows "\<exists>i \<in> signers q. i \<in> C"
proof -
  have "\<exists>i \<in> signers q. i \<notin> {0..<3 * int f + 1} - C"
    using valid_qc_quorum[OF assms] assms(1)
    by (intro hs_quorums.quorum_has_correct[where f = f]) (simp_all add: bft_config_def)
  then show ?thesis using valid_qc_quorum[OF assms] by blast
qed

lemma valid_qc_correct_signers:
  assumes "bft_config f vks C" "valid_qc K vks (2 * int f + 1) q"
  shows "f + 1 \<le> card (signers q \<inter> C)"
proof -
  let ?F = "{0..<3 * int f + 1} - C"
  note q = valid_qc_quorum[OF assms]
  have fin: "finite (signers q)" using q(1) finite_subset by blast
  have "card (signers q) = card (signers q \<inter> C) + card (signers q - C)"
    using fin card_Int_Diff by blast
  moreover have "card (signers q - C) \<le> card ?F" using q(1) by (intro card_mono) auto
  ultimately show ?thesis using q(2) assms(1) by (simp add: bft_config_def)
qed

lemma ch_certificates_unique:
  assumes "bft_config f vks C" "\<forall>i \<in> C. ch_votes_inv K (reps i)"
    and "valid_qc K vks (2 * int f + 1) q" "valid_qc K vks (2 * int f + 1) q'"
    and "genuine K vks C reps q" "genuine K vks C reps q'" "qc_view q = qc_view q'"
  shows "qc_type q = qc_type q' \<and> qc_node q = qc_node q'"
proof -
  note a = valid_qc_quorum[OF assms(1,3)] and b = valid_qc_quorum[OF assms(1,4)]
  have "\<exists>i \<in> signers q \<inter> signers q'. i \<notin> {0..<3 * int f + 1} - C"
    using a b assms(1) by (intro hs_quorums.quorums_share_correct[where f = f]) (simp_all add: bft_config_def)
  then obtain i where i: "i \<in> signers q" "i \<in> signers q'" "i \<in> C" using a(1) by blast
  from genuine_cast[OF assms(3,5) i(1,3)] genuine_cast[OF assms(4,6) i(2,3)] assms(7) ch_vote_once
  show ?thesis using assms(2) i(3) by metis
qed

text \<open>Basic HotStuff: behind a commit certificate stand the three phases.\<close>

lemma accepted_valid:
  assumes "verify_justify K (Some q) s = Inr True" "qc_view q \<noteq> 0" "verify_keys s = vks" "quorum s = quo"
  shows "valid_qc K vks quo q"
  using assms by (simp add: verify_justify_def is_genesis_qc_def verify_qc_True)

lemma vote_evidence:
  assumes "evid_inv K L0 E s" "casts K s t v h"
  shows "evidence K s E t v h"
proof -
  obtain i b where a: "Send i (vote_msg K (signing_key s) (rep_id s) t v b) \<in> set (votes_sent s)"
      and h: "h = Some (node_hash K b)"
    using assms(2) unfolding casts_votes_sent by blast
  have "\<forall>a \<in> set (votes_sent s). \<exists>i t v b. a = Send i (vote_msg K (signing_key s) (rep_id s) t v b) \<and>
      evidence K s E t v (Some (node_hash K b))"
    using assms(1) by (simp add: evid_inv_def votes_ok_def)
  from bspec[OF this a] obtain j u w c where
    e: "vote_msg K (signing_key s) (rep_id s) t v b = vote_msg K (signing_key s) (rep_id s) u w c"
      "evidence K s E u w (Some (node_hash K c))" by auto
  have "t = u" "v = w" "b = c"
    using e(1) by (metis vote_msg_sel(1), metis vote_msg_sel(2), metis vote_msg_sel(3) option.inject)
  with e(2) h show ?thesis by simp
qed

definition basic_system :: "hs_crypto \<Rightarrow> nat \<Rightarrow> string list \<Rightarrow> int set \<Rightarrow> (int \<Rightarrow> msg set) \<Rightarrow> (int \<Rightarrow> hs_replica) \<Rightarrow> bool" where
  "basic_system K f vks C E reps \<longleftrightarrow> bft_config f vks C \<and>
     (\<forall>i \<in> C. (\<exists>L0. evid_inv K L0 (E i) (reps i)) \<and> verify_keys (reps i) = vks \<and> quorum (reps i) = 2 * int f + 1 \<and>
       (\<forall>m \<in> E i. \<forall>q. m_justify m = Some q \<longrightarrow> genuine K vks C reps q))"

lemma certified_cast:
  assumes sys: "basic_system K f vks C E reps" and "i \<in> C" "certified K (reps i) (E i) t v h" "v \<noteq> 0"
  shows "(\<exists>j \<in> C. casts K (reps j) t v h) \<and> (\<exists>Q \<subseteq> C. f + 1 \<le> card Q \<and> (\<forall>j \<in> Q. casts K (reps j) t v h))"
proof -
  obtain m q where q: "m \<in> E i" "m_justify m = Some q" "qc_type q = t" "qc_view q = v" "qc_node q = h"
      "verify_justify K (Some q) (reps i) = Inr True"
    using assms(3) unfolding certified_def by blast
  have v: "valid_qc K vks (2 * int f + 1) q"
    using accepted_valid[OF q(6)] assms(2,4) q sys by (simp add: basic_system_def)
  have g: "genuine K vks C reps q" and c: "bft_config f vks C"
    using sys assms(2) q by (auto simp: basic_system_def)
  have cast: "\<forall>j \<in> signers q \<inter> C. casts K (reps j) t v h"
    using genuine_cast[OF v g] q by auto
  then show ?thesis
    using valid_qc_correct_signer[OF c v] valid_qc_correct_signers[OF c v] by blast
qed

lemma commit_certificate_backed:
  assumes sys: "basic_system K f vks C E reps" and "i \<in> C" "certified K (reps i) (E i) COMMIT v h" "v \<noteq> 0"
  shows "\<exists>Q \<subseteq> C. f + 1 \<le> card Q \<and> (\<forall>j \<in> Q. casts K (reps j) PREPARE v h)"
proof -
  have ev: "evidence K (reps j) (E j) t v h" if "j \<in> C" "casts K (reps j) t v h" for j t
    using sys that vote_evidence unfolding basic_system_def by blast
  obtain j where j: "j \<in> C" "casts K (reps j) COMMIT v h"
    using certified_cast[OF assms] by blast
  then have "certified K (reps j) (E j) PRE_COMMIT v h" using ev[OF j] by (simp add: evidence_def)
  from certified_cast[OF sys j(1) this assms(4)] obtain k where k: "k \<in> C" "casts K (reps k) PRE_COMMIT v h" by blast
  then have "certified K (reps k) (E k) PREPARE v h" using ev[OF k] by (simp add: evidence_def)
  from certified_cast[OF sys k(1) this assms(4)] show ?thesis by blast
qed

end
