(* ===== verification/HS_Demo.thy ===== *)
theory HS_Demo
  imports HS_Votes
begin

text \<open>
  Concrete HotStuff systems for the witnesses: four replicas, stand-ins for the library functions, a basic run in
  which a faulty leader leads two conflicting blocks through all phases, and a vote of the chained replicas.
\<close>

section \<open>A concrete configuration\<close>

text \<open>
  Stand-ins for the library functions, for the witnesses: a digest that counts, and signatures that are the key
  followed by the message.
\<close>

definition demo_crypto :: hs_crypto where
  "demo_crypto = \<lparr>digest = (\<lambda>s. nat_str (length s)), sk_sign = (\<lambda>sk m. sk @ m), vk_of = (\<lambda>sk. sk),
     vk_verify = (\<lambda>vk m sig. if sig = vk @ m then Verified else BadSignature)\<rparr>"

abbreviation "DK \<equiv> demo_crypto"

definition demo_key :: "int \<Rightarrow> string" where
  "demo_key i = key_seed (nat i)"

definition demo_vks :: "string list" where
  "demo_vks = map demo_key [0, 1, 2, 3]"

definition demo_pm :: pacemaker where
  "demo_pm = \<lparr>pm_n = 4, fixed_leader = None, base_timeout = 1, timeouts = False\<rparr>"

lemma demo_verify: "verify_vote DK vk t v h (sign_vote DK vk u w g) = Inr (t = u \<and> v = w \<and> h = g)"
  by (auto simp: verify_vote_def sign_vote_def demo_crypto_def vote_digest_inj)

lemma demo_vks_nth: "demo_vks ! 0 = demo_key 0" "demo_vks ! 1 = demo_key 1" "demo_vks ! 2 = demo_key 2"
    "demo_vks ! 3 = demo_key 3" "demo_vks ! Suc 0 = demo_key 1" "length demo_vks = 4"
  by (simp_all add: demo_vks_def)

text \<open>The certificate of replicas 0, 2 and 3.\<close>

definition demo_qc :: "msg_type \<Rightarrow> int \<Rightarrow> node \<Rightarrow> qc" where
  "demo_qc t v b = \<lparr>qc_type = t, qc_view = v, qc_node = Some (node_hash DK b),
     qc_sigs = map (\<lambda>i. (i, sign_vote DK (demo_key i) t v (Some (node_hash DK b)))) [0, 2, 3]\<rparr>"

lemma demo_qc_sel [simp]:
  "qc_type (demo_qc t v b) = t" "qc_view (demo_qc t v b) = v" "qc_node (demo_qc t v b) = Some (node_hash DK b)"
  by (simp_all add: demo_qc_def)

lemma demo_qc_valid: "verify_qc DK (demo_qc t v b) demo_vks 3 = Inr True"
  by (simp add: verify_qc_True valid_qc_def demo_qc_def valid_vote_sig_def demo_vks_nth demo_verify)

lemma demo_justify:
  assumes "verify_keys s = demo_vks" "quorum s = 3"
  shows "verify_justify DK (Some (demo_qc t v b)) s = Inr True"
  using demo_qc_valid assms by (simp add: verify_justify_def is_genesis_qc_def demo_qc_def)

definition block_X :: node where
  "block_X = create_leaf (Some (genesis_hash DK)) (PyDict [(''c'', PyInt 1)]) 1"

definition block_Y :: node where
  "block_Y = create_leaf (Some (genesis_hash DK)) (PyDict [(''c'', PyInt 10)]) 1"

lemmas encode_defs = node_hash_def py_opt_str_def json_item_def json_str_def json_escape_def int_str_def
  nat_str.simps hex_digit_def less_char_def

lemma genesis_hash_demo: "genesis_hash DK = ''35''"
  by (simp add: encode_defs demo_crypto_def GENESIS_def)

lemma hash_X: "node_hash DK block_X = ''38''"
  unfolding block_X_def genesis_hash_demo by (simp add: encode_defs demo_crypto_def create_leaf_def)

lemma hash_Y: "node_hash DK block_Y = ''39''"
  unfolding block_Y_def genesis_hash_demo by (simp add: encode_defs demo_crypto_def create_leaf_def)

section \<open>Two blocks in one view\<close>

text \<open>
  The leader of view 1 is faulty. It sends two conflicting proposals to every replica, collects the votes for both, and
  leads both through all phases.
\<close>

definition demo_replica :: "int \<Rightarrow> hs_replica" where
  "demo_replica i = hs_init_replica DK Replica i 4 1 (demo_key i) demo_vks demo_pm None False"

definition lead :: "node \<Rightarrow> msg_type \<Rightarrow> msg" where
  "lead b t = (case t of
     PREPARE \<Rightarrow> proposal_msg PREPARE 1 1 (Some b) (GENESIS_QC DK)
   | PRE_COMMIT \<Rightarrow> proposal_msg PRE_COMMIT 1 1 None (demo_qc PREPARE 1 b)
   | COMMIT \<Rightarrow> proposal_msg COMMIT 1 1 None (demo_qc PRE_COMMIT 1 b)
   | _ \<Rightarrow> proposal_msg DECIDE 1 1 None (demo_qc COMMIT 1 b))"

definition hs_demo_events :: "int \<Rightarrow> hs_event list" where
  "hs_demo_events i = Start # map Deliver
     [lead block_X PREPARE, lead block_Y PREPARE, lead block_X PRE_COMMIT, lead block_Y PRE_COMMIT,
      lead block_X COMMIT, lead block_Y COMMIT, lead (if i = 0 then block_X else block_Y) DECIDE]"

lemma walk_fuel_Suc: "walk_fuel t = Suc (Suc (length t))"
  by (simp add: walk_fuel_def)

lemmas demo_hashes = genesis_hash_demo hash_X hash_Y

lemmas run_defs = dispatch_def on_prepare_def on_pre_commit_def on_commit_def on_decide_def
  sync_view_def arm_timer_def advance_from_def send_vote_def emit_def request_sync_def
  safe_node_def extends_def walk_fuel_Suc tree_add_def tree_get_def tree_has_def init_tree_def first_missing_ancestor_def
  first_missing_def execute_def chain_to_def execute_block_def apply_cmd_def leader_def matching_qc_def
  Let_def

lemma genesis_sel [simp]:
  "parent_hash GENESIS = None" "cmd GENESIS = PyNone" "view_number GENESIS = 0" "justify GENESIS = None"
  by (simp_all add: GENESIS_def)

lemma genesis_qc_sel [simp]:
  "qc_view (GENESIS_QC K) = 0" "qc_node (GENESIS_QC K) = Some (genesis_hash K)"
  by (simp_all add: GENESIS_QC_def)

lemma demo_genesis_justify [simp]: "verify_justify K (Some (GENESIS_QC K)) s = Inr True"
  by (simp add: verify_justify_def is_genesis_qc_def GENESIS_QC_def)

lemma proposal_msg_sel [simp]:
  "m_type (proposal_msg t v i b q) = t" "m_view (proposal_msg t v i b q) = v"
  "m_sender (proposal_msg t v i b q) = i" "m_node (proposal_msg t v i b q) = b"
  "m_justify (proposal_msg t v i b q) = Some q"
  by (simp_all add: proposal_msg_def)

lemma blocks_sel [simp]:
  "parent_hash block_X = Some ''35''" "parent_hash block_Y = Some ''35''"
  "cmd block_X = PyDict [(''c'', PyInt 1)]" "cmd block_Y = PyDict [(''c'', PyInt 10)]"
  by (simp_all add: block_X_def block_Y_def create_leaf_def genesis_hash_demo)

definition demo_end :: "int \<Rightarrow> hs_replica" where
  "demo_end i = projr (foldE (hs_step DK) (hs_demo_events i) (demo_replica i))"

lemma demo_end_run: "foldE (hs_step DK) (hs_demo_events i) (demo_replica i) = Inr (demo_end i)"
  unfolding demo_end_def
  by (simp add: hs_demo_events_def demo_replica_def hs_init_replica_def lead_def
     run_defs demo_justify quorum_def demo_hashes demo_pm_def)

lemma demo_end_facts:
  "committed (demo_end i) = [if i = 0 then block_X else block_Y]"
  "rep_tree (demo_end i) = [(''35'', GENESIS), (''38'', block_X), (''39'', block_Y)]"
  "signing_key (demo_end i) = demo_key i" "rep_id (demo_end i) = i"
  "votes_sent (demo_end i) = map (\<lambda>(t, b). Send 1 (vote_msg DK (demo_key i) i t 1 b))
     [(PREPARE, block_X), (PREPARE, block_Y), (PRE_COMMIT, block_X), (PRE_COMMIT, block_Y),
      (COMMIT, block_X), (COMMIT, block_Y)]"
  unfolding demo_end_def
  by (simp_all add: hs_demo_events_def demo_replica_def hs_init_replica_def lead_def
     run_defs demo_justify quorum_def demo_hashes demo_pm_def votes_sent_def)

lemma demo_end_casts:
  "t \<in> {PREPARE, PRE_COMMIT, COMMIT} \<Longrightarrow> b \<in> {block_X, block_Y} \<Longrightarrow> casts DK (demo_end i) t 1 (Some (node_hash DK b))"
  unfolding casts_votes_sent demo_end_facts by auto

lemma demo_certificates_genuine:
  "m \<in> delivered (hs_demo_events i) \<Longrightarrow> m_justify m = Some q \<Longrightarrow> genuine DK demo_vks {0, 2, 3} demo_end q"
  by (auto simp: delivered_def hs_demo_events_def lead_def genuine_def GENESIS_QC_def demo_end_casts)

lemma demo_config: "bft_config 1 demo_vks {0, 2, 3}" "bft_config 1 demo_vks {0, 1, 2, 3}"
proof -
  have "{0..<4::int} = {0, 1, 2, 3}" by auto
  moreover have "{0, 1, 2, 3} - {0, 2, 3} = {1 :: int}" by auto
  ultimately show "bft_config 1 demo_vks {0, 2, 3}" "bft_config 1 demo_vks {0, 1, 2, 3}"
    by (simp_all add: bft_config_def demo_vks_nth)
qed

lemma demo_conflict: "conflicts DK (rep_tree (demo_end i)) block_X block_Y = Inr True"
  by (simp add: demo_end_facts conflicts_def extends_def walk_fuel_Suc tree_get_def demo_hashes)

section \<open>A chained vote\<close>

definition block_G :: node where
  "block_G = block_X\<lparr>justify := Some (GENESIS_QC DK)\<rparr>"

definition demo_chained :: "int \<Rightarrow> ch_replica" where
  "demo_chained i = init_chained DK i 4 1 (demo_key i) demo_vks demo_pm None False"

definition chained_events :: "hs_event list" where
  "chained_events = [Start, Deliver (proposal_msg GENERIC 1 1 (Some block_G) (GENESIS_QC DK))]"

definition chained_end :: "int \<Rightarrow> ch_replica" where
  "chained_end i = projr (foldE (ch_step DK) chained_events (demo_chained i))"

lemma hash_ignores_justify: "node_hash K (b\<lparr>justify := q\<rparr>) = node_hash K b"
  by (simp add: node_hash_def)

lemma block_G_sel [simp]:
  "node_hash DK block_G = ''38''" "parent_hash block_G = Some ''35''" "view_number block_G = 1"
  "cmd block_G = PyDict [(''c'', PyInt 1)]" "justify block_G = Some (GENESIS_QC DK)"
  by (simp_all add: block_G_def hash_ignores_justify hash_X) (simp add: block_X_def create_leaf_def)

lemmas ch_run_defs = ch_dispatch_def on_generic_def ch_vote_def ch_safe_node_def register_branch_def branch_get_def
  block_keys_def update_def justified_def commit_def enter_def ch_advance_from_def

lemma chained_end_run: "foldE (ch_step DK) chained_events (demo_chained i) = Inr (chained_end i)"
  unfolding chained_end_def
  by (simp add: chained_events_def demo_chained_def init_chained_def ch_run_defs run_defs demo_hashes demo_pm_def)

lemma chained_end_casts: "casts DK (chained_end i) GENERIC 1 (Some (node_hash DK block_G))"
proof -
  have "votes_sent (chained_end i) = [Send 2 (vote_msg DK (demo_key i) i GENERIC 1 block_G)]"
      "signing_key (chained_end i) = demo_key i" "rep_id (chained_end i) = i"
    unfolding chained_end_def
    by (simp_all add: chained_events_def demo_chained_def init_chained_def ch_run_defs run_defs demo_hashes
        demo_pm_def votes_sent_def)
  then show ?thesis unfolding casts_votes_sent by auto
qed

text \<open>Certificates of the same votes by different quorums.\<close>

definition chained_qc :: "int list \<Rightarrow> qc" where
  "chained_qc is = \<lparr>qc_type = GENERIC, qc_view = 1, qc_node = Some (node_hash DK block_G),
     qc_sigs = map (\<lambda>i. (i, sign_vote DK (demo_key i) GENERIC 1 (Some (node_hash DK block_G)))) is\<rparr>"

lemma chained_qc_valid:
  "verify_qc DK (chained_qc [0, 2, 3]) demo_vks 3 = Inr True" "verify_qc DK (chained_qc [0, 1, 2]) demo_vks 3 = Inr True"
  by (simp_all add: verify_qc_True valid_qc_def chained_qc_def valid_vote_sig_def demo_vks_nth demo_verify)

lemma chained_qc_genuine: "genuine DK demo_vks C chained_end (chained_qc is)"
  using chained_end_casts by (auto simp: genuine_def chained_qc_def)

end
