(* ===== verification/HS_Tally.thy ===== *)
theory HS_Tally
  imports HS_Votes
begin

text \<open>
  The leader's side of Basic HotStuff: the invariant of the vote tallies of \<^verbatim>\<open>_tally\<close>, the certificates
  \<^verbatim>\<open>build_qc\<close> forms from them, and the inputs on which no handler raises or loops.
\<close>

section \<open>The tallies of a leader\<close>

text \<open>Every tally entry is a signed vote for the phase, view and block of the tally, under the id it names.\<close>

definition tally_ok :: "hs_crypto \<Rightarrow> vote_id \<Rightarrow> (int \<times> msg) list \<Rightarrow> string list \<Rightarrow> bool" where
  "tally_ok K key d vks \<longleftrightarrow> distinct (map fst d) \<and> (\<forall>rm \<in> set d. (case key of (t, v, h) \<Rightarrow>
     m_type (snd rm) = t \<and> m_view (snd rm) = v \<and> map_option (node_hash K) (m_node (snd rm)) = Some h \<and>
     (\<exists>sig vk. m_partial_sig (snd rm) = Some (fst rm, sig) \<and> py_index vks (fst rm) = Inr vk \<and>
        verify_vote K vk t v (Some h) sig = Inr True)))"

definition tallies_inv :: "hs_crypto \<Rightarrow> hs_replica \<Rightarrow> bool" where
  "tallies_inv K s \<longleftrightarrow> (\<forall>key. tally_ok K key (votes s key) (verify_keys s))"

named_theorems votes_same \<open>operations that do not change the tallies\<close>

lemma votes_core [votes_same]:
  "votes (emit a s) = votes s" "votes (record_qc q s) = votes s" "votes (arm_timer s) = votes s"
  "votes (stop_replica s) = votes s" "votes (execute_block K b s) = votes s"
  "votes (send_vote K t v b s) = votes s" "votes (request_sync h p s) = votes s"
  "votes (advance_from v s) = votes s" "votes (on_timeout v s) = votes s"
  "votes (sync_view v s) = votes s" "votes (snd (next_command s)) = votes s"
  by (simp_all add: emit_def record_qc_def arm_timer_def stop_replica_def execute_block_def send_vote_def request_sync_def
      advance_from_def on_timeout_def sync_view_def next_command_def Let_def split: prod.splits)

lemma votes_fold_emit [votes_same]: "votes (fold (\<lambda>x. emit (f x)) xs (s :: hs_replica)) = votes s"
  by (induction xs arbitrary: s) (simp_all add: votes_same)

lemma votes_fold_execute [votes_same]: "votes (fold (execute_block K) bs (s :: hs_replica)) = votes s"
  by (induction bs arbitrary: s) (simp_all add: votes_same)

lemma votes_send_proposal [votes_same]: "votes (send_proposal K v b q s) = votes s"
  by (simp add: send_proposal_def votes_same Let_def split: replica_class.splits)

lemma votes_try_propose [votes_same]: "votes (try_propose K v s) = votes s"
proof -
  obtain c s1 where n: "next_command s = (c, s1)" by force
  then have "votes s1 = votes s" using votes_core(11)[of s] by simp
  with n show ?thesis by (simp add: try_propose_def Let_def votes_same split: option.splits)
qed

lemma votes_submit [votes_same]: "votes (submit K c s) = votes s"
  by (simp add: submit_def Let_def votes_same)

lemma votes_on_decide: "on_decide K m s = Inr s' \<Longrightarrow> votes s' = votes s"
  by (auto simp: on_decide_def execute_def Let_def bindE_eq_Inr votes_same split: if_splits option.splits)

lemma votes_handlers:
  "on_new_view K m s = Inr s' \<Longrightarrow> votes s' = votes s"
  "on_prepare K m s = Inr s' \<Longrightarrow> votes s' = votes s"
  "on_pre_commit K m s = Inr s' \<Longrightarrow> votes s' = votes s"
  "on_commit K m s = Inr s' \<Longrightarrow> votes s' = votes s"
  "on_sync_req K m s = Inr s' \<Longrightarrow> votes s' = votes s"
  by (auto simp: on_new_view_def on_prepare_def on_pre_commit_def
      on_commit_def on_sync_req_def Let_def bindE_eq_Inr votes_same split: if_splits option.splits hs_payload.splits)

lemma votes_on_sync_resp:
  assumes "on_sync_resp K m s = Inr s'"
  shows "votes s' = votes s"
proof -
  obtain bs where run: "foldE (on_decide K) (deferred s)
      (s\<lparr>rep_tree := fold (tree_add K) bs (rep_tree s), deferred := []\<rparr>) = Inr s'"
    using assms by (auto simp: on_sync_resp_def bindE_eq_Inr)
  show ?thesis
    by (rule foldE_partial[OF run, where P = "\<lambda>t. votes t = votes s"]) (simp_all add: votes_on_decide)
qed

lemma tally_cases:
  assumes "tally K m s = Inr (s', vs)"
  obtains (ignored) "s' = s" "vs = None"
  | (counted) rid sig b vk d where "m_partial_sig m = Some (rid, sig)" "m_node m = Some b"
      "py_index (verify_keys s) rid = Inr vk"
      "verify_vote K vk (m_type m) (m_view m) (Some (node_hash K b)) sig = Inr True"
      "d = dict_set rid m (votes s (m_type m, m_view m, node_hash K b))"
      "votes s' = (votes s)((m_type m, m_view m, node_hash K b) := d)"
      "rep_id s' = rep_id s" "verify_keys s' = verify_keys s" "quorum s' = quorum s"
      "vs = (if quorum s \<le> int (length d) then Some (map snd d) else None)"
proof -
  obtain rid sig where p: "m_partial_sig m = Some (rid, sig)"
    using assms by (auto simp: tally_def split: option.splits)
  show ?thesis
  proof (cases "s' = s \<and> vs = None")
    case False
    then obtain b vk where b: "m_node m = Some b" "py_index (verify_keys s) rid = Inr vk"
        "verify_vote K vk (m_type m) (m_view m) (Some (node_hash K b)) sig = Inr True"
      using assms p by (auto simp: tally_def bindE_eq_Inr split: option.splits if_splits)
    show ?thesis
      by (rule counted[OF p b refl]) (use assms p b False in
          \<open>auto simp: tally_def Let_def quorum_def split: if_splits\<close>)
  qed (use ignored in blast)
qed

lemma tally_ok_set:
  assumes "tally_ok K (t, v, h) d vks" "m_type m = t" "m_view m = v" "map_option (node_hash K) (m_node m) = Some h"
    "m_partial_sig m = Some (rid, sig)" "py_index vks rid = Inr vk" "verify_vote K vk t v (Some h) sig = Inr True"
  shows "tally_ok K (t, v, h) (dict_set rid m d) vks"
proof -
  have "distinct (map fst (dict_set rid m d))" using assms(1) by (simp add: tally_ok_def distinct_dict_set)
  then show ?thesis using assms set_dict_set[of rid m d] unfolding tally_ok_def by fastforce
qed

lemma tallies_inv_tally:
  assumes "tallies_inv K s" "tally K m s = Inr (s', vs)"
  shows "tallies_inv K s'"
  using assms(2)
proof (cases rule: tally_cases)
  case (counted rid sig b vk d)
  have old: "\<forall>key. tally_ok K key (votes s key) (verify_keys s)" using assms(1) by (simp add: tallies_inv_def)
  then have "tally_ok K (m_type m, m_view m, node_hash K b) d (verify_keys s)"
    unfolding counted(5) by (intro tally_ok_set[OF _ _ _ _ counted(1,3,4)]) (simp_all add: counted)
  with old show ?thesis unfolding tallies_inv_def counted(6,8) by (metis fun_upd_apply)
qed (use assms in simp)

lemma tallies_inv_same: "tallies_inv K s \<Longrightarrow> votes s' = votes s \<Longrightarrow> verify_keys s' = verify_keys s \<Longrightarrow> tallies_inv K s'"
  by (simp add: tallies_inv_def)

lemma tallies_inv_simps [simp]:
  "tallies_inv K (emit a s) = tallies_inv K s" "tallies_inv K (record_qc q s) = tallies_inv K s"
  "tallies_inv K (s\<lparr>prepare_qc := q\<rparr>) = tallies_inv K s"
  by (simp_all add: tallies_inv_def emit_def record_qc_def)

lemma verify_keys_next: "hs_next K L0 s s' \<Longrightarrow> hs_inv K L0 s \<Longrightarrow> verify_keys s' = verify_keys s"
  by (simp add: hs_next_def log_le_def statics_def)

lemma tallies_inv_vote_handlers:
  assumes "tallies_inv K s"
  shows "on_prepare_vote K m s = Inr s' \<Longrightarrow> tallies_inv K s'" "on_generic_vote K m s = Inr s' \<Longrightarrow> tallies_inv K s'"
  using tallies_inv_tally[OF assms]
  by (auto simp: on_prepare_vote_def on_generic_vote_def bindE_eq_Inr split: option.splits prod.splits)

lemma tallies_inv_dispatch:
  assumes inv: "tallies_inv K s" "hs_inv K L0 s" and run: "dispatch K m s = Inr s'"
  shows "tallies_inv K s'"
proof -
  define s1 where "s1 = (if m_type m \<in> {PREPARE, PRE_COMMIT, COMMIT, DECIDE} \<and> m_partial_sig m = None \<and>
      cur_view s < m_view m then sync_view (m_view m) s else s)"
  have f: "frame K s s1" by (auto simp: s1_def intro!: hs_frames)
  have t1: "tallies_inv K s1"
    using f by (intro tallies_inv_same[OF inv(1)]) (auto simp: s1_def votes_same frame_def statics_def)
  have vk: "verify_keys s' = verify_keys s1"
    using verify_keys_next[OF hs_next_dispatch[OF run] inv(2)] f by (simp add: frame_def statics_def)
  have same: "votes s' = votes s1 \<Longrightarrow> tallies_inv K s'" using tallies_inv_same[OF t1 _ vk] .
  note H = tallies_inv_vote_handlers[OF t1] same[OF votes_handlers(1)] same[OF votes_handlers(2)]
    same[OF votes_handlers(3)] same[OF votes_handlers(4)] same[OF votes_handlers(5)] same[OF votes_on_decide]
    same[OF votes_on_sync_resp]
  show ?thesis
    using run t1 unfolding dispatch_def Let_def not_not s1_def[symmetric]
    by (cases "m_type m") (auto split: if_splits intro: H)
qed

lemma tallies_inv_step:
  assumes inv: "tallies_inv K s" "hs_inv K L0 s" and run: "hs_step K e s = Inr s'"
  shows "tallies_inv K s'"
proof (cases e)
  case (Deliver m)
  then show ?thesis using assms tallies_inv_dispatch by (auto split: if_splits)
qed (rule tallies_inv_same[OF inv(1)];
    use run verify_keys_next[OF hs_next_step[OF run] inv(2)] in \<open>auto simp: votes_same split: option.splits\<close>)+

interpretation tallying: safe_machine "hs_step K" "\<lambda>s. tallies_inv K s \<and> hs_inv K L0 s" log_le for K L0
  by unfold_locales (auto intro: log_le_trans tallies_inv_step basic.step_inv basic.step_le)

lemma tallies_inv_init: "tallies_inv K (hs_init_replica K cls i n f sk vks p L r)"
  by (simp add: tallies_inv_def tally_ok_def hs_init_replica_def)

section \<open>Certificates formed by a leader\<close>

lemma py_index_nonneg: "py_index xs i = Inr x \<Longrightarrow> 0 \<le> i \<Longrightarrow> i < int (length xs) \<and> x = xs ! nat i"
  by (auto simp: py_index_def split: if_splits)

lemma tally_valid:
  assumes "tally_ok K (t, v, h) d vks" "\<forall>rm \<in> set d. 0 \<le> fst rm"
  shows "\<forall>rm \<in> set d. valid_vote K vks t v (Some h) rm"
  using assms unfolding tally_ok_def valid_vote_def valid_vote_sig_def
  by (fastforce dest: py_index_nonneg)

lemma tally_build_total:
  assumes "tally_ok K (t, v, h) d vks" "d \<noteq> []"
  shows "\<exists>q. build_qc K (map snd d) quo = Inr q \<and> qc_type q = t \<and> qc_view q = v \<and> qc_node q = Some h"
proof -
  obtain rm d' where d: "d = rm # d'" using assms(2) by (cases d) auto
  have "\<forall>m \<in> set (map snd d). m_type m = t \<and> m_view m = v \<and> m_partial_sig m \<noteq> None"
    using assms(1) by (auto simp: tally_ok_def)
  then obtain e where "by_signer t v (map snd d) [] = Inr e" using by_signer_total by blast
  then show ?thesis using assms(1) unfolding d by (simp add: build_qc_def Let_def tally_ok_def)
qed

lemma tally_quorum:
  assumes "tallies_inv K s" "tally K m s = Inr (s1, Some ms)"
  obtains b where "m_node m = Some b" "ms = map snd (votes s1 (m_type m, m_view m, node_hash K b))"
    "votes s1 (m_type m, m_view m, node_hash K b) \<noteq> []"
    "quorum s \<le> int (length (votes s1 (m_type m, m_view m, node_hash K b)))"
    "tally_ok K (m_type m, m_view m, node_hash K b) (votes s1 (m_type m, m_view m, node_hash K b)) (verify_keys s)"
    "verify_keys s1 = verify_keys s" "quorum s1 = quorum s"
  using assms(2)
proof (cases rule: tally_cases)
  case (counted rid sig b vk d)
  let ?key = "(m_type m, m_view m, node_hash K b)"
  have "d \<noteq> []" unfolding counted(5) by (cases "votes s ?key") (auto split: if_splits)
  moreover have "tally_ok K ?key (votes s1 ?key) (verify_keys s)"
    using tallies_inv_tally[OF assms] counted(8) by (simp add: tallies_inv_def)
  ultimately show ?thesis using that[of b] counted by (auto split: if_splits)
qed simp

section \<open>Inputs on which a replica returns\<close>

text \<open>
  Verification that fails without an exception, and messages with the fields their handlers use: a vote by
  an index of the key list, a proposal with a block, a catch-up message with the matching payload.
\<close>

definition quiet_verify :: "hs_crypto \<Rightarrow> bool" where
  "quiet_verify K \<longleftrightarrow> (\<forall>vk d sig e. vk_verify K vk d sig \<noteq> Verify_raises e)"

definition msg_blocks :: "msg \<Rightarrow> node list" where
  "msg_blocks m = (case m_type m of
     PREPARE \<Rightarrow> (case m_node m of None \<Rightarrow> [] | Some b \<Rightarrow> [b])
   | SYNC_RESP \<Rightarrow> (case m_payload m of Nodes_payload bs \<Rightarrow> bs | _ \<Rightarrow> [])
   | _ \<Rightarrow> [])"

fun wf_msg :: "nat \<Rightarrow> msg \<Rightarrow> bool" where
  "wf_msg n m \<longleftrightarrow>
     (case m_partial_sig m of Some (rid, _) \<Rightarrow> - int n \<le> rid \<and> rid < int n | None \<Rightarrow> True) \<and>
     (m_type m = PREPARE \<and> m_partial_sig m = None \<longrightarrow> m_node m \<noteq> None) \<and>
     (m_type m = SYNC_REQ \<longrightarrow> (\<forall>bs. m_payload m \<noteq> Nodes_payload bs)) \<and>
     (m_type m = SYNC_RESP \<longrightarrow> (\<exists>bs. m_payload m = Nodes_payload bs))"

lemma verify_vote_total: "quiet_verify K \<Longrightarrow> \<exists>r. verify_vote K vk t v h sig = Inr r"
  by (auto simp: quiet_verify_def verify_vote_def split: verify_outcome.splits)

lemma verify_sigs_total: "quiet_verify K \<Longrightarrow> \<exists>r. verify_sigs K vks t v h seen ss = Inr r"
proof (induction ss arbitrary: seen)
  case (Cons rs ss)
  obtain rid sig where rs: "rs = (rid, sig)" by force
  obtain r where "verify_vote K (vks ! nat rid) t v h sig = Inr r" using verify_vote_total Cons.prems by blast
  with Cons rs show ?case by simp
qed simp

lemma verify_justify_total: "quiet_verify K \<Longrightarrow> \<exists>r. verify_justify K q s = Inr r"
  using verify_sigs_total by (auto simp: verify_justify_def verify_qc_def bindE_eq_Inr split: option.splits)

lemma py_index_total: "- int (length xs) \<le> i \<Longrightarrow> i < int (length xs) \<Longrightarrow> \<exists>x. py_index xs i = Inr x"
  by (auto simp: py_index_def)

lemma tally_total:
  assumes "quiet_verify K" "wf_msg (length (verify_keys s)) m" "m_partial_sig m \<noteq> None"
  shows "\<exists>r. tally K m s = Inr r"
proof -
  obtain rid sig where p: "m_partial_sig m = Some (rid, sig)" using assms(3) by force
  have "- int (length (verify_keys s)) \<le> rid" "rid < int (length (verify_keys s))" using assms(2) p by simp_all
  then obtain vk where vk: "py_index (verify_keys s) rid = Inr vk" using py_index_total by blast
  show ?thesis
  proof (cases "m_node m")
    case (Some b)
    obtain r where "verify_vote K vk (m_type m) (m_view m) (Some (node_hash K b)) sig = Inr r"
      using verify_vote_total[OF assms(1)] by blast
    with p vk Some show ?thesis by (simp add: tally_def Let_def)
  qed (simp add: tally_def p)
qed

lemma vote_handlers_total:
  assumes "tallies_inv K s" "quiet_verify K" "wf_msg (length (verify_keys s)) m" "m_partial_sig m \<noteq> None"
  shows "\<exists>s'. on_prepare_vote K m s = Inr s'" "\<exists>s'. on_generic_vote K m s = Inr s'"
proof -
  obtain s1 vs where t: "tally K m s = Inr (s1, vs)" using tally_total[OF assms(2,3,4)] by force
  have "\<exists>q. build_qc K ms (quorum s1) = Inr q" if "vs = Some ms" for ms
    using tally_quorum[OF assms(1) t[unfolded that]] tally_build_total by metis
  with t show "\<exists>s'. on_prepare_vote K m s = Inr s'" "\<exists>s'. on_generic_vote K m s = Inr s'"
    by (cases vs; auto simp: on_prepare_vote_def on_generic_vote_def)+
qed

lemma walks_total:
  assumes "acyclic_links t"
  shows "\<exists>r. extends K t b a = Inr r" "\<exists>cs. chain_to K t known cur = Inr cs" "\<exists>r. first_missing K t known b = Inr r"
  using extends_total[OF assms] acyclic_halts[OF assms]
    collect_Diverges[of K t _ "walk_fuel t"] missing_loop_Diverges[of K t _ "walk_fuel t"]
  by (auto simp: chain_to_def first_missing_def)
    (metis sum.exhaust, metis sum.exhaust)


lemma proposal_handlers_total:
  assumes "quiet_verify K"
  shows "\<exists>s'. on_pre_commit K m s = Inr s'" "\<exists>s'. on_commit K m s = Inr s'" "\<exists>s'. on_new_view K m s = Inr s'"
  using verify_justify_total[OF assms, of "m_justify m" s]
  by (auto simp: on_pre_commit_def on_commit_def on_new_view_def Let_def split: option.splits)

lemma on_prepare_total:
  assumes "quiet_verify K" "m_node m = Some b" "acyclic_links (tree_add K b (rep_tree s))"
  shows "\<exists>s'. on_prepare K m s = Inr s'"
proof -
  obtain ok where v: "verify_justify K (m_justify m) s = Inr ok" using verify_justify_total[OF assms(1)] by blast
  show ?thesis
  proof (cases "m_justify m")
    case None
    with v show ?thesis by (auto simp: on_prepare_def verify_justify_def is_genesis_qc_def)
  next
    case (Some q)
    with v assms(2) extends_total[OF assms(3)] show ?thesis
      by (auto simp: on_prepare_def safe_node_def Let_def split: option.splits)
  qed
qed

lemma rep_tree_execute: "rep_tree (fold (execute_block K) bs s) = rep_tree s"
  by (induction bs arbitrary: s) (simp_all add: execute_block_def emit_def Let_def split: prod.splits)

lemma rep_tree_advance [simp]: "rep_tree (advance_from v s) = rep_tree s" "rep_tree (request_sync h p s) = rep_tree s"
  by (simp_all add: advance_from_def arm_timer_def emit_def Let_def request_sync_def)

lemma on_decide_total:
  assumes "quiet_verify K" "acyclic_links (rep_tree s)"
  shows "\<exists>s'. on_decide K m s = Inr s' \<and> rep_tree s' = rep_tree s"
proof -
  obtain ok where v: "verify_justify K (m_justify m) s = Inr ok" using verify_justify_total[OF assms(1)] by blast
  define b where "b = tree_get (rep_tree s) (qc_node (the (m_justify m)))"
  obtain miss where miss: "(case b of None \<Rightarrow> Inr (qc_node (the (m_justify m))) | Some n \<Rightarrow> first_missing_ancestor K n s) = Inr miss"
    using walks_total(3)[OF assms(2), of K "executed s"] by (cases b) (simp_all add: first_missing_ancestor_def, blast)
  obtain cs where "chain_to K (rep_tree s) (executed s) b = Inr cs" using walks_total(2)[OF assms(2)] by blast
  then have ex: "execute K b s = Inr (fold (execute_block K) (rev cs) s)" by (simp add: execute_def)
  show ?thesis
    using v miss unfolding on_decide_def Let_def b_def[symmetric]
    by (auto simp: ex rep_tree_execute)
qed

lemma on_sync_resp_total:
  assumes "quiet_verify K" "m_payload m = Nodes_payload bs" "acyclic_links (fold (tree_add K) bs (rep_tree s))"
  shows "\<exists>s'. on_sync_resp K m s = Inr s'"
proof -
  let ?t = "fold (tree_add K) bs (rep_tree s)"
  have "\<exists>s'. foldE (on_decide K) (deferred s) (s\<lparr>rep_tree := ?t, deferred := []\<rparr>) = Inr s' \<and> rep_tree s' = ?t"
    by (rule foldE_inv) (use on_decide_total[OF assms(1)] assms(3) in \<open>metis\<close>, simp)
  then show ?thesis using assms(2) by (auto simp: on_sync_resp_def)
qed

lemma on_sync_req_total:
  assumes "\<forall>bs. m_payload m \<noteq> Nodes_payload bs" "acyclic_links (rep_tree s)"
  shows "\<exists>s'. on_sync_req K m s = Inr s'"
proof -
  obtain cur where c: "(case m_payload m of
        No_payload \<Rightarrow> Inr None
      | Hash_payload h \<Rightarrow> Inr (tree_get (rep_tree s) (Some h))
      | Nodes_payload bs \<Rightarrow> if bs = [] then Inr None else Inl (Raises TypeError)) = Inr cur"
    using assms(1) by (cases "m_payload m") auto
  obtain cs where "chain_to K (rep_tree s) {} cur = Inr cs" using walks_total(2)[OF assms(2)] by blast
  then show ?thesis by (simp add: on_sync_req_def c)
qed

lemma dispatch_total:
  assumes t: "tallies_inv K s" and q: "quiet_verify K" and wf: "wf_msg (length (verify_keys s)) m"
    and a: "acyclic_links (fold (tree_add K) (msg_blocks m) (rep_tree s))"
  shows "\<exists>s'. dispatch K m s = Inr s'"
proof -
  define s1 where "s1 = (if m_type m \<in> {PREPARE, PRE_COMMIT, COMMIT, DECIDE} \<and> m_partial_sig m = None \<and>
      cur_view s < m_view m then sync_view (m_view m) s else s)"
  have s1: "verify_keys s1 = verify_keys s" "rep_tree s1 = rep_tree s" "votes s1 = votes s"
    by (simp_all add: s1_def sync_view_def arm_timer_def)
  have t1: "tallies_inv K s1" using t s1 by (simp add: tallies_inv_def)
  have wf1: "wf_msg (length (verify_keys s1)) m" using wf s1 by simp
  note V = vote_handlers_total[OF t1 q wf1] proposal_handlers_total[OF q, of m s1]
  note D = on_prepare_total[OF q, of m _ s1] on_decide_total[OF q, of s1 m] on_sync_req_total[of m s1 K]
    on_sync_resp_total[OF q, of m _ s1]
  show ?thesis
    using wf a unfolding dispatch_def Let_def not_not s1_def[symmetric] msg_blocks_def
    by (cases "m_type m"; cases "m_partial_sig m = None") (use V D s1 in \<open>auto\<close>)
qed

lemma hs_step_returns:
  assumes "tallies_inv K s" "quiet_verify K"
    "\<And>m. e = Deliver m \<Longrightarrow> wf_msg (length (verify_keys s)) m \<and>
       acyclic_links (fold (tree_add K) (msg_blocks m) (rep_tree s))"
  shows "\<exists>s'. hs_step K e s = Inr s'"
  using dispatch_total[OF assms(1,2)] assms(3) by (cases e) auto

end
