(* ===== verification/HS_Client.thy ===== *)
theory HS_Client
  imports HS_Core
begin

text \<open>
  The client (\<^verbatim>\<open>hotstuff/client.py\<close>): it hands commands to the replicas and accepts a result once \<open>f + 1\<close>
  replicas report the same. \<^verbatim>\<open>repr\<close> of a result is the result: results are the outcome strings of the
  ledger, or \<^verbatim>\<open>None\<close>.
\<close>

record hs_client =
  cl_f :: int
  replies :: "string \<Rightarrow> (int \<times> string option) list"
  accepted_results :: "string \<rightharpoonup> string option"

definition init_hs_client :: "int \<Rightarrow> hs_client" where
  "init_hs_client f = \<lparr>cl_f = f, replies = (\<lambda>_. []), accepted_results = Map.empty\<rparr>"

text \<open>\<^verbatim>\<open>tally[repr(res)] += 1\<close> over the replies, and the greatest count.\<close>

definition reply_count :: "(int \<times> string option) list \<Rightarrow> string option \<Rightarrow> nat" where
  "reply_count d r = length (filter (\<lambda>x. snd x = r) d)"

definition max_count :: "(int \<times> string option) list \<Rightarrow> nat" where
  "max_count d = fold (\<lambda>x k. max (reply_count d (snd x)) k) d 0"

definition on_execute :: "int \<Rightarrow> pyval \<Rightarrow> string option \<Rightarrow> hs_client \<Rightarrow> hs_client" where
  "on_execute rid c result s = (let k = cmd_key c in
     if accepted_results s k \<noteq> None then s
     else
       let d = dict_set rid result (replies s k); s1 = s\<lparr>replies := (replies s)(k := d)\<rparr> in
       if cl_f s + 1 \<le> int (max_count d)
       then s1\<lparr>accepted_results := (accepted_results s)(k \<mapsto> result)\<rparr> else s1)"

text \<open>A sequence of replies: replica, command, result.\<close>

definition client_run :: "(int \<times> pyval \<times> string option) list \<Rightarrow> hs_client \<Rightarrow> hs_client" where
  "client_run es s = fold (\<lambda>(i, c, r). on_execute i c r) es s"

section \<open>Accepted results\<close>

lemma max_count_ge: "x \<in> set d \<Longrightarrow> reply_count d (snd x) \<le> max_count d"
proof -
  have "k \<le> fold (\<lambda>x k. max (reply_count d (snd x)) k) e k \<and>
      (\<forall>x \<in> set e. reply_count d (snd x) \<le> fold (\<lambda>x k. max (reply_count d (snd x)) k) e k)" for e k
  proof (induction e arbitrary: k)
    case (Cons y e)
    from Cons[of "max (reply_count d (snd y)) k"] show ?case by auto
  qed simp
  then show "x \<in> set d \<Longrightarrow> ?thesis" unfolding max_count_def by blast
qed

lemma max_count_attained: "d \<noteq> [] \<Longrightarrow> \<exists>x \<in> set d. max_count d = reply_count d (snd x)"
proof -
  have "fold (\<lambda>x k. max (reply_count d (snd x)) k) e k = k \<or>
      (\<exists>x \<in> set e. fold (\<lambda>x k. max (reply_count d (snd x)) k) e k = reply_count d (snd x))" for e k
  proof (induction e arbitrary: k)
    case (Cons y e)
    from Cons[of "max (reply_count d (snd y)) k"] show ?case by (auto simp: max_def split: if_splits)
  qed simp
  moreover assume "d \<noteq> []"
  then have "0 < max_count d"
    using max_count_ge[of "hd d" d] by (cases d) (auto simp: reply_count_def)
  ultimately show ?thesis unfolding max_count_def by (metis less_nat_zero_code)
qed

text \<open>One more reply raises the count of its own result only, by one.\<close>

lemma reply_count_set:
  assumes "r' \<noteq> r"
  shows "reply_count (dict_set i r d) r' \<le> reply_count d r'"
  using assms by (induction d) (auto simp: reply_count_def)

lemma below_quorum:
  assumes "\<forall>r. int (reply_count d r) \<le> f" "f + 1 \<le> int (max_count (dict_set i r d))"
  shows "f + 1 \<le> int (reply_count (dict_set i r d) r)"
proof -
  let ?d = "dict_set i r d"
  have "?d \<noteq> []" by (cases d) (auto split: if_splits)
  then obtain x where "x \<in> set ?d" "max_count ?d = reply_count ?d (snd x)"
    using max_count_attained by blast
  moreover have "snd x = r"
  proof (rule ccontr)
    assume "snd x \<noteq> r"
    then have "reply_count ?d (snd x) \<le> reply_count d (snd x)" by (rule reply_count_set)
    moreover have "int (reply_count d (snd x)) \<le> f" using assms(1) by blast
    ultimately show False using assms(2) \<open>max_count ?d = _\<close> by linarith
  qed
  ultimately show ?thesis using assms(2) by simp
qed

text \<open>
  Replies are kept per replica; while a command has no accepted result no outcome has more than \<open>f\<close>
  supporters, and an accepted result has the support of \<open>f + 1\<close> replicas.
\<close>

definition key_inv :: "(int \<times> pyval \<times> string option) set \<Rightarrow> int \<Rightarrow> string \<Rightarrow> (int \<times> string option) list \<Rightarrow>
    string option option \<Rightarrow> bool" where
  "key_inv E f k d a \<longleftrightarrow> distinct (map fst d) \<and> (\<forall>(i, r) \<in> set d. \<exists>c. cmd_key c = k \<and> (i, c, r) \<in> E) \<and>
     (case a of None \<Rightarrow> \<forall>r. int (reply_count d r) \<le> f | Some r \<Rightarrow> f + 1 \<le> int (reply_count d r))"

definition hs_client_inv :: "(int \<times> pyval \<times> string option) set \<Rightarrow> hs_client \<Rightarrow> bool" where
  "hs_client_inv E s \<longleftrightarrow> 0 \<le> cl_f s \<and> (\<forall>k. key_inv E (cl_f s) k (replies s k) (accepted_results s k))"

lemma hs_client_inv_init: "0 \<le> f \<Longrightarrow> hs_client_inv E (init_hs_client f)"
  by (simp add: hs_client_inv_def key_inv_def init_hs_client_def reply_count_def)

lemma key_inv_set:
  assumes "0 \<le> f" "key_inv E f (cmd_key c) d None" "(i, c, r) \<in> E"
  shows "key_inv E f (cmd_key c) (dict_set i r d) (if f + 1 \<le> int (max_count (dict_set i r d)) then Some r else None)"
proof -
  let ?d = "dict_set i r d"
  have lim: "\<forall>r. int (reply_count d r) \<le> f" using assms(2) by (simp add: key_inv_def)
  have "int (reply_count ?d q) \<le> f" if "\<not> f + 1 \<le> int (max_count ?d)" for q
  proof (cases "\<exists>x \<in> set ?d. snd x = q")
    case True
    then show ?thesis using max_count_ge that by fastforce
  next
    case False
    then have "reply_count ?d q = 0" by (auto simp: reply_count_def filter_empty_conv)
    then show ?thesis using assms(1) by simp
  qed
  then have "case (if f + 1 \<le> int (max_count ?d) then Some r else None) of
      None \<Rightarrow> \<forall>q. int (reply_count ?d q) \<le> f | Some q \<Rightarrow> f + 1 \<le> int (reply_count ?d q)"
    using below_quorum[OF lim] by simp
  moreover have "\<forall>(j, q) \<in> set ?d. \<exists>c'. cmd_key c' = cmd_key c \<and> (j, c', q) \<in> E"
    using assms(2,3) set_dict_set[of i r d] unfolding key_inv_def by blast
  ultimately show ?thesis using assms(2) unfolding key_inv_def by (simp add: distinct_dict_set)
qed

lemma hs_client_inv_step:
  assumes "hs_client_inv E s" "(i, c, r) \<in> E"
  shows "hs_client_inv E (on_execute i c r s)"
proof (cases "accepted_results s (cmd_key c)")
  case None
  have f: "0 \<le> cl_f s" and "key_inv E (cl_f s) (cmd_key c) (replies s (cmd_key c)) None"
    using assms(1) None unfolding hs_client_inv_def by metis+
  from key_inv_set[OF this assms(2)] None assms(1) show ?thesis
    by (simp add: on_execute_def Let_def hs_client_inv_def split: if_splits)
qed (use assms in \<open>simp add: on_execute_def\<close>)

lemma hs_client_inv_run:
  "hs_client_inv E s \<Longrightarrow> set es \<subseteq> E \<Longrightarrow> hs_client_inv E (client_run es s)"
  by (induction es arbitrary: s) (auto simp: client_run_def hs_client_inv_step)

end
