(* ===== verification/HS_Properties.thy ===== *)
theory HS_Properties
  imports HS_Demo HS_Tally HS_Client
begin

text \<open>
  The properties of the HotStuff project, with their witnesses: agreement of certificates in the chained protocol,
  what stands behind a committed block in the basic one, the log, the ledger, the client, the encoding, and the
  inputs on which the code fails.
\<close>

section \<open>Certificates and commits\<close>

text \<open>C21. Chained HotStuff never certifies two blocks in one view: with \<open>3 f + 1\<close> replicas, at most \<open>f\<close> of them
  faulty, and signatures of the others that cannot be forged, two certificates of one view that \<^verbatim>\<open>verify_qc\<close>
  accepts are for the same block, whatever messages the replicas received.\<close>

theorem chained_no_conflicting_certificates:
  assumes "bft_config f vks C"
    and runs: "\<And>i. i \<in> C \<Longrightarrow> foldE (ch_step K) (es i)
      (init_chained K i (3 * int f + 1) (int f) (sk i) vks (pm i) (L i) (r i)) = Inr (reps i)"
    and "verify_qc K q vks (2 * int f + 1) = Inr True" "verify_qc K q' vks (2 * int f + 1) = Inr True"
    and "genuine K vks C reps q" "genuine K vks C reps q'" "qc_view q = qc_view q'"
  shows "qc_type q = qc_type q' \<and> qc_node q = qc_node q'"
proof (rule ch_certificates_unique[OF assms(1)])
  show "\<forall>i \<in> C. ch_votes_inv K (reps i)"
    using ch_voting.returns_inv[OF _ runs] ch_votes_inv_init by blast
qed (use assms in \<open>simp_all add: verify_qc_True\<close>)

lemma chained_qc_sel: "qc_type (chained_qc is) = GENERIC" "qc_view (chained_qc is) = 1"
  by (simp_all add: chained_qc_def)

lemma demo_digest: "digest DK x \<noteq> []"
  by (cases "length x < 10") (simp_all add: demo_crypto_def nat_str.simps)

theorem chained_no_conflicting_certificates_witness:
  "qc_node (chained_qc [0, 2, 3]) = qc_node (chained_qc [0, 1, 2])"
proof -
  have "qc_type (chained_qc [0, 2, 3]) = qc_type (chained_qc [0, 1, 2]) \<and>
      qc_node (chained_qc [0, 2, 3]) = qc_node (chained_qc [0, 1, 2])"
    by (rule chained_no_conflicting_certificates[OF demo_config(2), where K = DK and reps = chained_end and
          es = "\<lambda>_. chained_events" and sk = demo_key and pm = "\<lambda>_. demo_pm" and L = "\<lambda>_. None" and r = "\<lambda>_. False"])
      (use chained_end_run chained_qc_valid chained_qc_genuine in \<open>simp_all add: demo_chained_def chained_qc_sel\<close>)
  then show ?thesis ..
qed

text \<open>The parent relation inside a log.\<close>

definition log_links :: "hs_crypto \<Rightarrow> node list \<Rightarrow> (node \<times> node) set" where
  "log_links K bs = {(x, y). y \<in> set bs \<and> parent_hash y = Some (node_hash K x)}"

lemma closed_from_nth:
  "closed_from K known bs \<Longrightarrow> j < length bs \<Longrightarrow>
    parent_hash (bs ! j) \<in> {None, Some []} \<union> Some ` (known \<union> node_hash K ` set (take j bs))"
proof (induction bs arbitrary: known j)
  case (Cons b bs)
  show ?case
  proof (cases j)
    case 0
    with Cons.prems show ?thesis by simp
  next
    case (Suc k)
    with Cons.prems Cons.IH[of "insert (node_hash K b) known" k] show ?thesis by simp
  qed
qed simp

text \<open>Children come later in the log, so following them ends in a block that has \<open>P\<close>.\<close>

lemma log_tip:
  assumes closed: "closed_from K known bs" "distinct (map (node_hash K) bs)" "known \<inter> node_hash K ` set bs = {}"
    and proper: "\<forall>b \<in> set bs. node_hash K b \<noteq> []"
    and step: "\<And>b. b \<in> set bs \<Longrightarrow> P b \<or> (\<exists>c \<in> set bs. parent_hash c = Some (node_hash K b))"
  shows "i < length bs \<Longrightarrow> \<exists>c \<in> set bs. (bs ! i, c) \<in> (log_links K bs)\<^sup>* \<and> P c"
proof (induction "length bs - i" arbitrary: i rule: less_induct)
  case less
  show ?case
  proof (cases "P (bs ! i)")
    case False
    then obtain j where j: "j < length bs" "parent_hash (bs ! j) = Some (node_hash K (bs ! i))"
      using step[OF nth_mem[OF less.prems]] in_set_conv_nth[of _ bs] by metis
    have "node_hash K (bs ! i) \<in> node_hash K ` set (take j bs)"
      using closed_from_nth[OF closed(1) j(1)] j(2) closed(3) proper less.prems by auto
    then obtain k where "k < j" "node_hash K (bs ! k) = node_hash K (bs ! i)"
      using j(1) by (auto simp: in_set_conv_nth)
    then have "i < j" using nth_eq_iff_index_eq[OF closed(2), of k i] j(1) less.prems by simp
    then have "length bs - j < length bs - i" using j(1) by simp
    from less.hyps[OF this j(1)] obtain c where "c \<in> set bs" "(bs ! j, c) \<in> (log_links K bs)\<^sup>*" "P c" by blast
    moreover have "(bs ! i, bs ! j) \<in> log_links K bs" using j by (simp add: log_links_def)
    ultimately show ?thesis by (meson converse_rtrancl_into_rtrancl)
  qed (use less.prems in auto)
qed

text \<open>C22. Behind a block that a correct Basic HotStuff replica commits stand all phases: the block is an ancestor
  (or the same) of a block of the log for which the replica received an accepted COMMIT certificate, and, except for
  certificates of view 0, at least \<open>f + 1\<close> correct replicas cast a PREPARE vote for that block in that view.\<close>

theorem committed_block_backed:
  assumes "bft_config f vks C"
    and runs: "\<And>i. i \<in> C \<Longrightarrow> foldE (hs_step K) (es i)
      (hs_init_replica K Replica i (3 * int f + 1) (int f) (sk i) vks (pm i) (L i) (r i)) = Inr (reps i)"
    and "\<And>i m q. i \<in> C \<Longrightarrow> m \<in> delivered (es i) \<Longrightarrow> m_justify m = Some q \<Longrightarrow> genuine K vks C reps q"
    and "i \<in> C" "b \<in> set (committed (reps i))" "\<And>x. digest K x \<noteq> []"
  shows "\<exists>c v. (b, c) \<in> (log_links K (committed (reps i)))\<^sup>* \<and> c \<in> set (committed (reps i)) \<and>
    certified K (reps i) (delivered (es i)) COMMIT v (Some (node_hash K c)) \<and>
    (v \<noteq> 0 \<longrightarrow> (\<exists>Q \<subseteq> C. f + 1 \<le> card Q \<and> (\<forall>j \<in> Q. casts K (reps j) PREPARE v (Some (node_hash K c)))))"
proof -
  let ?E = "\<lambda>i. delivered (es i)"
  have inv: "evid_inv K (L i) (?E i) (reps i)" if "i \<in> C" for i using evid_inv_run[OF runs[OF that]] .
  have st: "statics (reps i) = statics (hs_init_replica K Replica i (3 * int f + 1) (int f) (sk i) vks (pm i) (L i) (r i))"
    if "i \<in> C" for i
    using basic.returns_le[OF hs_inv_init runs[OF that]] by (simp add: log_le_def)
  have "verify_keys (reps i) = vks \<and> quorum (reps i) = 2 * int f + 1" if "i \<in> C" for i
    using st[OF that] by (simp add: statics_def hs_init_replica_def quorum_def)
  with assms(1,3) inv have sys: "basic_system K f vks C ?E reps"
    unfolding basic_system_def by blast
  let ?cs = "committed (reps i)" and ?P = "\<lambda>c. \<exists>v. certified K (reps i) (?E i) COMMIT v (Some (node_hash K c))"
  obtain k where k: "k < length ?cs" "?cs ! k = b" using assms(5) by (auto simp: in_set_conv_nth)
  have "\<exists>c \<in> set ?cs. (?cs ! k, c) \<in> (log_links K ?cs)\<^sup>* \<and> ?P c"
  proof (rule log_tip)
    have "genesis_hash K \<notin> node_hash K ` set ?cs"
      using inv[OF assms(4)] by (metis evid_inv_def hs_inv_def log_inv_def)
    then show "{genesis_hash K} \<inter> node_hash K ` set ?cs = {}" by simp
    show "closed_from K {genesis_hash K} ?cs" "distinct (map (node_hash K) ?cs)"
      using inv[OF assms(4)] by (simp_all add: evid_inv_def hs_inv_def log_inv_def)
    show "?P c \<or> (\<exists>d \<in> set ?cs. parent_hash d = Some (node_hash K c))" if "c \<in> set ?cs" for c
      using inv[OF assms(4)] that by (simp add: evid_inv_def log_certified_def)
  qed (use assms(6) k in \<open>simp_all add: node_hash_def\<close>)
  then obtain c v where c: "c \<in> set ?cs" "(b, c) \<in> (log_links K ?cs)\<^sup>*"
      "certified K (reps i) (?E i) COMMIT v (Some (node_hash K c))"
    using k(2) by blast
  moreover have "v \<noteq> 0 \<longrightarrow> (\<exists>Q \<subseteq> C. f + 1 \<le> card Q \<and> (\<forall>j \<in> Q. casts K (reps j) PREPARE v (Some (node_hash K c))))"
    using commit_certificate_backed[OF sys assms(4) c(3)] by blast
  ultimately show ?thesis by blast
qed

theorem committed_block_backed_witness:
  "\<exists>c v. (block_Y, c) \<in> (log_links DK (committed (demo_end 2)))\<^sup>* \<and> c \<in> set (committed (demo_end 2)) \<and>
    certified DK (demo_end 2) (delivered (hs_demo_events 2)) COMMIT v (Some (node_hash DK c)) \<and>
    (v \<noteq> 0 \<longrightarrow> (\<exists>Q \<subseteq> {0, 2, 3}. 1 + 1 \<le> card Q \<and> (\<forall>j \<in> Q. casts DK (demo_end j) PREPARE v (Some (node_hash DK c)))))"
  by (rule committed_block_backed[OF demo_config(1), where sk = demo_key and pm = "\<lambda>_. demo_pm" and
        L = "\<lambda>_. None" and r = "\<lambda>_. False" and i = 2])
    (use demo_end_run demo_certificates_genuine demo_end_facts(1)[of 2] demo_digest in
      \<open>simp_all add: demo_replica_def\<close>)

section \<open>Log and ledger\<close>

text \<open>The run of \<open>demo_end 0\<close> with a bank ledger and a client, for the witness.\<close>

definition demo_bank :: ledger where
  "demo_bank = init_ledger [(''A'', 5), (''B'', 0)]"

definition bank_replica :: "bool \<Rightarrow> hs_replica" where
  "bank_replica r = hs_init_replica DK Replica 0 4 1 (demo_key 0) demo_vks demo_pm (Some demo_bank) r"

definition bank_end :: "bool \<Rightarrow> hs_replica" where
  "bank_end r = projr (foldE (hs_step DK) (hs_demo_events 0) (bank_replica r))"

lemmas bank_run_defs = hs_demo_events_def bank_replica_def hs_init_replica_def lead_def run_defs demo_justify quorum_def
  demo_hashes demo_pm_def

lemma bank_end_run: "foldE (hs_step DK) (hs_demo_events 0) (bank_replica r) = Inr (bank_end r)"
  unfolding bank_end_def by (simp add: bank_run_defs)

lemma bank_end_committed: "committed (bank_end r) = [block_X]"
  unfolding bank_end_def by (simp add: bank_run_defs)

lemma replies_of_log:
  assumes "foldE (hs_step K) es (hs_init_replica K cls i n f sk vks p L0 True) = Inr s"
  shows "replies_sent s = map (\<lambda>(c, r). Reply i c r) (outcomes L0 (log_cmds (committed s)))"
proof -
  have "statics s = statics (hs_init_replica K cls i n f sk vks p L0 True)"
    using basic.returns_le[OF hs_inv_init assms] by (simp add: log_le_def)
  then have "responds s" "rep_id s = i" by (simp_all add: statics_def hs_init_replica_def)
  then show ?thesis using basic.returns_inv[OF hs_inv_init assms] unfolding hs_inv_def log_inv_def by metis
qed

text \<open>C23. The log of a Basic HotStuff replica is sound in every run, for any messages: it only grows, no block
  is in it twice nor is the genesis block, every block's parent is the genesis block or an earlier block of the log
  (unless the block names no parent), \<^verbatim>\<open>_committed_cmds\<close> are the keys of its commands, the ledger is the initial ledger
  after exactly these commands in order, and the replies are exactly one per command with the result the
  ledger gave it.\<close>

theorem basic_log_sound:
  assumes "foldE (hs_step K) es (hs_init_replica K cls i n f sk vks p L0 True) = Inr s" "foldE (hs_step K) es' s = Inr s'"
  shows "(\<exists>bs. committed s' = committed s @ bs) \<and>
    distinct (genesis_hash K # map (node_hash K) (committed s)) \<and>
    (\<forall>j < length (committed s). parent_hash (committed s ! j) \<in>
       {None, Some []} \<union> Some ` (insert (genesis_hash K) (node_hash K ` set (take j (committed s))))) \<and>
    committed_cmds s = cmd_key ` set (log_cmds (committed s)) \<and>
    state_machine s = map_option (ledger_run (log_cmds (committed s))) L0 \<and>
    replies_sent s = map (\<lambda>(c, r). Reply i c r) (outcomes L0 (log_cmds (committed s)))"
proof (intro conjI allI impI)
  note inv = basic.returns_inv[OF hs_inv_init assms(1)]
  show "\<exists>bs. committed s' = committed s @ bs"
    using basic.returns_le[OF inv assms(2)] by (simp add: log_le_def)
  note log = inv[unfolded hs_inv_def log_inv_def]
  show "distinct (genesis_hash K # map (node_hash K) (committed s))" using log by (metis distinct.simps(2) list.set_map)
  show "committed_cmds s = cmd_key ` set (log_cmds (committed s))"
    "state_machine s = map_option (ledger_run (log_cmds (committed s))) L0" using log by blast+
  show "replies_sent s = map (\<lambda>(c, r). Reply i c r) (outcomes L0 (log_cmds (committed s)))"
    using assms(1) by (rule replies_of_log)
  show "parent_hash (committed s ! j) \<in>
      {None, Some []} \<union> Some ` (insert (genesis_hash K) (node_hash K ` set (take j (committed s))))"
    if "j < length (committed s)" for j
    using closed_from_nth[of K "{genesis_hash K}" "committed s" j] log that by simp
qed

theorem basic_log_sound_witness:
  "replies_sent (bank_end True) = [Reply 0 (cmd block_X) (Some MALFORMED)] \<and>
   distinct (genesis_hash DK # map (node_hash DK) (committed (bank_end True)))"
proof -
  have "foldE (hs_step DK) [] (bank_end True) = Inr (bank_end True)" by simp
  from basic_log_sound[OF bank_end_run[unfolded bank_replica_def] this] bank_end_committed show ?thesis
    by (simp add: outcomes_def log_cmds_def ledger_run_def demo_bank_def)
qed

lemma balance_le_total: "\<forall>v \<in> set (map snd d). 0 \<le> v \<Longrightarrow> balance d a \<le> total_of d"
proof (induction d)
  case (Cons p d)
  have "0 \<le> total_of d" using Cons.prems by (auto simp: total_of_def intro!: sum_list_nonneg)
  with Cons show ?case by (cases p) (auto simp: total_of_def balance_def)
qed (simp add: total_of_def balance_def)

text \<open>C24. The ledger keeps its bounds whatever commands are committed: for non-negative opening balances, money is
  conserved, every balance is between 0 and the total, an account's balance is its opening balance plus
  exactly the accepted transfers, no pair of sender and nonce is consumed twice, and every command has one
  entry in the history.\<close>

theorem ledger_bounds:
  assumes "distinct (map fst d)" "\<forall>v \<in> set (map snd d). 0 \<le> v" "L = ledger_run cs (init_ledger d)"
  shows "ledger_total L = total_of d \<and>
    (\<forall>a. 0 \<le> balance (balances L) a \<and> balance (balances L) a \<le> total_of d \<and>
       balance (balances L) a = balance d a + income a (history L)) \<and>
    distinct (concat (map consumed (history L))) \<and> map fst (history L) = cs"
proof -
  note inv = ledger_run_inv[OF ledger_inv_init[OF assms(1,2)], of cs, folded assms(3),
      unfolded ledger_inv_def check_invariants_def ledger_total_def]
  have B: "distinct (map fst (balances L))" "total_of (balances L) = total_of d" "\<forall>v \<in> set (map snd (balances L)). 0 \<le> v"
    using inv by simp_all
  have "balance (balances L) a \<le> total_of d" "0 \<le> balance (balances L) a" for a
    using balance_le_total[OF B(3)] B nonneg_iff_balance by (simp, blast)
  moreover have "map fst (history L) = cs" by (simp add: ledger_run_history init_ledger_def assms(3))
  ultimately show ?thesis using inv by (simp add: ledger_total_def)
qed

theorem ledger_bounds_witness:
  "ledger_total (ledger_run [PyTransfer (Transfer ''A'' ''B'' 3 1), PyTransfer (Transfer ''A'' ''B'' 3 1)] demo_bank) = 5"
  using ledger_bounds[OF _ _ refl, of "[(''A'', 5), (''B'', 0)]" "[PyTransfer (Transfer ''A'' ''B'' 3 1), PyTransfer (Transfer ''A'' ''B'' 3 1)]"]
  by (simp add: total_of_def demo_bank_def)

section \<open>Chain walks\<close>


section \<open>Certificates of a leader\<close>

text \<open>C26. What a leader builds, everyone accepts: when the tally of a Basic HotStuff leader reaches a quorum with votes
  under non-negative ids, \<^verbatim>\<open>build_qc\<close> succeeds on it, the certificate carries exactly a quorum of signatures for the
  phase, view and block of the votes, and every replica with the same keys and quorum accepts it.\<close>

theorem formed_certificate_accepted:
  assumes "foldE (hs_step K) es (hs_init_replica K cls i n f sk vks p L0 r) = Inr s" "f < n"
    and "tally K m s = Inr (s1, Some ms)" "\<forall>x \<in> set ms. \<forall>rid sig. m_partial_sig x = Some (rid, sig) \<longrightarrow> 0 \<le> rid"
  shows "\<exists>q b. build_qc K ms (quorum s1) = Inr q \<and> m_node m = Some b \<and> qc_type q = m_type m \<and>
    qc_view q = m_view m \<and> qc_node q = Some (node_hash K b) \<and> int (length (qc_sigs q)) = n - f \<and>
    verify_qc K q vks (n - f) = Inr True"
proof -
  let ?init = "hs_init_replica K cls i n f sk vks p L0 r"
  have "tallies_inv K s \<and> hs_inv K L0 s"
    using tallying.returns_inv[OF _ assms(1), of L0] tallies_inv_init hs_inv_init by simp
  moreover have "log_le ?init s" using basic.returns_le[OF hs_inv_init assms(1)] .
  then have st: "verify_keys s = vks" "quorum s = n - f" by (simp_all add: log_le_def statics_def hs_init_replica_def quorum_def)
  ultimately obtain b where b: "m_node m = Some b" "ms = map snd (votes s1 (m_type m, m_view m, node_hash K b))"
      "quorum s \<le> int (length (votes s1 (m_type m, m_view m, node_hash K b)))"
      "tally_ok K (m_type m, m_view m, node_hash K b) (votes s1 (m_type m, m_view m, node_hash K b)) (verify_keys s)"
      "quorum s1 = quorum s"
    using tally_quorum[OF _ assms(3)] by blast
  let ?d = "votes s1 (m_type m, m_view m, node_hash K b)"
  have nn: "\<forall>rm \<in> set ?d. 0 \<le> fst rm"
    using b(4) assms(4) unfolding b(2) tally_ok_def by fastforce
  have dist: "distinct (map fst ?d)" using b(4) by (simp add: tally_ok_def)
  show ?thesis
    using build_qc_valid[OF tally_valid[OF b(4) nn] dist, of "n - f"] b st assms(2) by (auto simp: verify_qc_True)
qed

text \<open>Replica 1 leads view 1 and has the votes of replicas 0 and 2; the vote of replica 3 completes the quorum.\<close>

definition demo_vote :: "int \<Rightarrow> msg" where
  "demo_vote i = vote_msg DK (demo_key i) i PREPARE 1 block_X"

definition demo_leader :: "hs_replica" where
  "demo_leader = projr (foldE (hs_step DK) (map Deliver [demo_vote 0, demo_vote 2]) (demo_replica 1))"

lemmas leader_defs = demo_vote_def vote_msg_def demo_replica_def hs_init_replica_def dispatch_def on_prepare_vote_def
  tally_def py_index_def demo_vks_nth demo_verify quorum_def Let_def hash_X

lemma demo_leader_run: "foldE (hs_step DK) (map Deliver [demo_vote 0, demo_vote 2]) (demo_replica 1) = Inr demo_leader"
  unfolding demo_leader_def by (simp add: leader_defs)

lemma demo_leader_tally: "\<exists>s. tally DK (demo_vote 3) demo_leader = Inr (s, Some (map demo_vote [0, 2, 3])) \<and> quorum s = 3"
  unfolding demo_leader_def by (simp add: leader_defs)

theorem formed_certificate_accepted_witness:
  "\<exists>q. build_qc DK (map demo_vote [0, 2, 3]) 3 = Inr q \<and> verify_qc DK q demo_vks 3 = Inr True"
proof -
  obtain s where s: "tally DK (demo_vote 3) demo_leader = Inr (s, Some (map demo_vote [0, 2, 3]))" "quorum s = 3"
    using demo_leader_tally by blast
  show ?thesis
    using formed_certificate_accepted[OF demo_leader_run[unfolded demo_replica_def] _ s(1)] s(2)
    by (auto simp: demo_vote_def vote_msg_def)
qed

section \<open>Encoding\<close>


text \<open>The identity of a command does not determine its outcome: a transfer and the plain dictionary of its fields
  have the same key and give blocks of the same hash, for every hash function; but the ledger rejects every such
  dictionary as malformed and accepts the transfer. A replica that holds the one and a replica that holds the
  other agree on every hash and disagree on the balances.\<close>

theorem same_hash_different_outcome:
  "node_hash K (create_leaf p (PyTransfer t) v) = node_hash K (create_leaf p (PyDict (asdict t)) v) \<and>
   cmd_key (PyTransfer t) = cmd_key (PyDict (asdict t)) \<and>
   ledger_apply (PyDict (asdict t)) L = (L\<lparr>history := history L @ [(PyDict (asdict t), MALFORMED)]\<rparr>, MALFORMED) \<and>
   snd (ledger_apply (PyTransfer (Transfer ''A'' ''B'' 3 1)) (init_ledger [(''A'', 5), (''B'', 0)])) = OK \<and>
   balances (fst (ledger_apply (PyTransfer (Transfer ''A'' ''B'' 3 1)) (init_ledger [(''A'', 5), (''B'', 0)]))) =
     [(''A'', 2), (''B'', 3)]"
proof (intro conjI)
  have c: "canon (PyTransfer t) = canon (PyDict (asdict t))" using canonical_bytes_transfer canonical_bytes_eq_iff by blast
  then show "cmd_key (PyTransfer t) = cmd_key (PyDict (asdict t))" by (simp only: cmd_key_eq_iff)
  have "canonical_bytes (node_content (create_leaf p (PyTransfer t) v)) =
      canonical_bytes (node_content (create_leaf p (PyDict (asdict t)) v))"
    unfolding node_content_eq_iff by (simp only: create_leaf_def node.simps c simp_thms)
  then show "node_hash K (create_leaf p (PyTransfer t) v) = node_hash K (create_leaf p (PyDict (asdict t)) v)"
    by (simp only: node_hash_def node_content_def)
qed (simp_all add: init_ledger_def balance_def Let_def)

section \<open>The client\<close>

lemma client_f: "cl_f (client_run es s) = cl_f s"
proof -
  have "cl_f (on_execute i c r t) = cl_f t" for i c r t by (simp add: on_execute_def Let_def)
  then show ?thesis by (induction es arbitrary: s) (auto simp: client_run_def)
qed

text \<open>C29. What the client accepts is what the replicated ledger computed: the client may get any replies from the
  at most \<open>f\<close> faulty replicas, the replies under the ids of the correct ones are those they sent. If it accepts a
  result for a command then a correct replica committed a command of the same key, and the result is what the
  initial ledger gives that command at its place in that replica's log.\<close>

theorem accepted_result_is_computed:
  assumes "bft_config f vks C"
    and runs: "\<And>i. i \<in> C \<Longrightarrow> foldE (hs_step K) (es i)
      (hs_init_replica K Replica i (3 * int f + 1) (int f) (sk i) vks (pm i) L0 True) = Inr (reps i)"
    and replies: "\<And>i c r. (i, c, r) \<in> set rs \<Longrightarrow> i \<in> {0..<3 * int f + 1} \<and> (i \<in> C \<longrightarrow> Reply i c r \<in> set (out (reps i)))"
    and "accepted_results (client_run rs (init_hs_client (int f))) (cmd_key c) = Some res"
  shows "\<exists>i \<in> C. \<exists>c'. cmd_key c' = cmd_key c \<and> (c', res) \<in> set (outcomes L0 (log_cmds (committed (reps i))))"
proof -
  let ?s = "client_run rs (init_hs_client (int f))" and ?U = "{0..<3 * int f + 1}"
  define d where "d = replies ?s (cmd_key c)"
  have "hs_client_inv (set rs) ?s" by (rule hs_client_inv_run) (simp_all add: hs_client_inv_init)
  then have k: "key_inv (set rs) (cl_f ?s) (cmd_key c) d (Some res)"
    using assms(4) unfolding hs_client_inv_def d_def by metis
  have f: "cl_f ?s = int f" by (simp add: client_f init_hs_client_def)
  define Q where "Q = fst ` set (filter (\<lambda>x. snd x = res) d)"
  have "distinct (map fst (filter (\<lambda>x. snd x = res) d))" using k by (simp add: key_inv_def distinct_map_filter)
  then have "card Q = reply_count d res" unfolding Q_def reply_count_def by (metis distinct_card length_map list.set_map)
  then have "f + 1 \<le> card Q" using k f by (simp add: key_inv_def)
  moreover have said: "\<exists>c'. cmd_key c' = cmd_key c \<and> (i, c', res) \<in> set rs" if "i \<in> Q" for i
    using k that unfolding Q_def key_inv_def by auto
  moreover have "card (?U - C) \<le> f" using assms(1) by (simp add: bft_config_def)
  ultimately have "\<not> Q \<subseteq> ?U - C" using card_mono[of "?U - C" Q] by fastforce
  then obtain i where i: "i \<in> Q" "i \<in> C" using said replies by blast
  then obtain c' where c': "cmd_key c' = cmd_key c" "(i, c', res) \<in> set rs" using said by blast
  have "Reply i c' res \<in> set (replies_sent (reps i))" using replies[OF c'(2)] i(2) by (simp add: replies_sent_def)
  moreover have "replies_sent (reps i) = map (\<lambda>(c, r). Reply i c r) (outcomes L0 (log_cmds (committed (reps i))))"
    using replies_of_log[OF runs[OF i(2)]] .
  ultimately have "(c', res) \<in> set (outcomes L0 (log_cmds (committed (reps i))))" by auto
  with i(2) c'(1) show ?thesis by blast
qed


text \<open>Two correct replicas report the same result and the faulty one reports another.\<close>

definition bank_replies :: "(int \<times> pyval \<times> string option) list" where
  "bank_replies = [(1, cmd block_X, Some OK), (0, cmd block_X, Some MALFORMED), (2, cmd block_X, Some MALFORMED)]"

lemma bank_accepts: "accepted_results (client_run bank_replies (init_hs_client 1)) (cmd_key (cmd block_X)) = Some (Some MALFORMED)"
  by (simp add: bank_replies_def client_run_def on_execute_def init_hs_client_def max_count_def reply_count_def Let_def)

definition bank_events :: "hs_event list" where
  "bank_events = map (Deliver \<circ> lead block_X) [PREPARE, PRE_COMMIT, COMMIT, DECIDE]"

definition bank_node :: "int \<Rightarrow> hs_replica" where
  "bank_node i = projr (foldE (hs_step DK) bank_events
     (hs_init_replica DK Replica i 4 1 (demo_key i) demo_vks demo_pm (Some demo_bank) True))"

lemma bank_node_run: "foldE (hs_step DK) bank_events
    (hs_init_replica DK Replica i 4 1 (demo_key i) demo_vks demo_pm (Some demo_bank) True) = Inr (bank_node i)"
  unfolding bank_node_def by (simp add: bank_events_def bank_run_defs)

lemma bank_node_replies: "Reply i (cmd block_X) (Some MALFORMED) \<in> set (out (bank_node i))"
  unfolding bank_node_def by (simp add: bank_events_def bank_run_defs)

theorem accepted_result_is_computed_witness:
  "\<exists>i \<in> {0, 2, 3}. \<exists>c. cmd_key c = cmd_key (cmd block_X) \<and>
     (c, Some MALFORMED) \<in> set (outcomes (Some demo_bank) (log_cmds (committed (bank_node i))))"
proof (rule accepted_result_is_computed[OF demo_config(1), where K = DK and es = "\<lambda>_. bank_events" and sk = demo_key and
      pm = "\<lambda>_. demo_pm" and rs = bank_replies])
  show "i \<in> {0..<3 * int 1 + 1} \<and> (i \<in> {0, 2, 3} \<longrightarrow> Reply i c r \<in> set (out (bank_node i)))"
    if "(i, c, r) \<in> set bank_replies" for i c r
    using that bank_node_replies[of i] unfolding bank_replies_def by auto
qed (use bank_node_run bank_accepts in simp_all)

section \<open>Equivocation in Basic HotStuff\<close>

text \<open>C30. Basic HotStuff does not keep agreement: \<^verbatim>\<open>on_prepare\<close> does not remember that it voted in the view. With four
  replicas of which one is faulty, in a run where every certificate in every delivered message has only genuine votes
  of the correct replicas, the faulty leader of view 1 proposes two blocks to every replica and leads both through all
  phases; correct replica 0 commits one of them and correct replicas 2 and 3 commit the other, which conflicts
  with it.\<close>

theorem basic_equivocation_breaks_agreement:
  "bft_config 1 demo_vks {0, 2, 3} \<and>
   (\<forall>i. foldE (hs_step DK) (hs_demo_events i)
      (hs_init_replica DK Replica i (3 * int 1 + 1) (int 1) (demo_key i) demo_vks demo_pm None False) = Inr (demo_end i)) \<and>
   {q. \<exists>i. \<exists>m \<in> delivered (hs_demo_events i). m_justify m = Some q} \<subseteq> {q. genuine DK demo_vks {0, 2, 3} demo_end q} \<and>
   committed (demo_end 0) = [block_X] \<and> committed (demo_end 2) = [block_Y] \<and> committed (demo_end 3) = [block_Y] \<and>
   conflicts DK (rep_tree (demo_end 0)) block_X block_Y = Inr True"
proof (intro conjI)
  show "\<forall>i. foldE (hs_step DK) (hs_demo_events i)
      (hs_init_replica DK Replica i (3 * int 1 + 1) (int 1) (demo_key i) demo_vks demo_pm None False) = Inr (demo_end i)"
    using demo_end_run by (simp add: demo_replica_def)
  show "{q. \<exists>i. \<exists>m \<in> delivered (hs_demo_events i). m_justify m = Some q} \<subseteq> {q. genuine DK demo_vks {0, 2, 3} demo_end q}"
    using demo_certificates_genuine by blast
qed (rule demo_config(1), simp_all add: demo_end_facts(1) demo_conflict)

section \<open>Choosing commands\<close>

text \<open>The commands a proposer passes over: committed ones, and those it holds back.\<close>

definition passed_over :: "string set \<Rightarrow> (pyval \<Rightarrow> bool) \<Rightarrow> pyval \<Rightarrow> bool" where
  "passed_over done skip c \<longleftrightarrow> cmd_key c \<in> done \<or> skip c"

definition reference_choice :: "string set \<Rightarrow> (pyval \<Rightarrow> bool) \<Rightarrow> pyval list \<Rightarrow> string set \<Rightarrow>
    pyval option \<times> pyval list \<times> string set" where
  "reference_choice done skip cs ks = (let P = passed_over done skip in
     (find (\<lambda>c. \<not> P c) cs, filter (\<lambda>c. cmd_key c \<notin> done) (takeWhile P cs) @ tl (dropWhile P cs),
      ks - cmd_key ` {c \<in> set (takeWhile P cs). cmd_key c \<in> done}))"

lemma pick_loop_spec:
  "pick_loop done skip held cs ks =
    (find (\<lambda>c. \<not> passed_over done skip c) cs,
     held @ filter (\<lambda>c. cmd_key c \<notin> done) (takeWhile (passed_over done skip) cs) @ tl (dropWhile (passed_over done skip) cs),
     ks - cmd_key ` {c \<in> set (takeWhile (passed_over done skip) cs). cmd_key c \<in> done})"
  by (induction cs arbitrary: held ks) (auto simp: passed_over_def)

lemma next_command_loop_pick: "next_command_loop done cs ks = pick_loop done (\<lambda>_. False) [] cs ks"
  by (induction cs arbitrary: ks) simp_all

text \<open>The loops that choose the next command compute the obvious list function, for the correct, the censoring
  and the chained replica: the first pending command that is neither committed nor held back (by the censor, or because
  it is on the branch already) is taken; committed commands before it are dropped from the queue and
  from \<^verbatim>\<open>_pending_keys\<close>; commands held back stay in order; the rest of the queue is untouched.\<close>

theorem next_command_correct:
  "next_command s = (case reference_choice (committed_cmds s)
       (case rep_class s of CensoringReplica bank \<Rightarrow> is_censored bank | _ \<Rightarrow> (\<lambda>_. False)) (pending s) (pending_keys s) of
     (c, cs, ks) \<Rightarrow> (c, s\<lparr>pending := cs, pending_keys := ks\<rparr>)) \<and>
   ch_next_command h r = (case reference_choice (committed_cmds r)
       (\<lambda>c. \<exists>ks. branch_get (branch_cmds r) h = Some ks \<and> cmd_key c \<in> ks) (pending r) (pending_keys r) of
     (c, cs, ks) \<Rightarrow> (c, r\<lparr>pending := cs, pending_keys := ks\<rparr>))"
proof -
  have pick: "pick_loop com skip [] cs ks = reference_choice com skip cs ks" for com skip cs ks
    unfolding reference_choice_def pick_loop_spec Let_def by simp
  have "(\<lambda>c. cmd_key c \<in> (case x of None \<Rightarrow> {} | Some ks \<Rightarrow> ks)) = (\<lambda>c. \<exists>ks. x = Some ks \<and> cmd_key c \<in> ks)" for x
    by (cases x) auto
  then show ?thesis
    unfolding next_command_def ch_next_command_def next_command_loop_pick pick Let_def
    by (simp split: replica_class.split)
qed

section \<open>Hostile input\<close>





text \<open>Malformed messages from anyone stop a Basic HotStuff replica: a vote under an id outside the key list raises
  \<^verbatim>\<open>IndexError\<close>, a proposal of the leader with an accepted certificate and no block \<^verbatim>\<open>AttributeError\<close>, a catch-up
  response without blocks \<^verbatim>\<open>TypeError\<close>, a catch-up request that carries blocks \<^verbatim>\<open>TypeError\<close>; none of them is
  caught in the receive loop.\<close>

theorem malformed_messages_crash:
  assumes "alive s"
  shows "(m_type m \<in> {PREPARE, PRE_COMMIT, COMMIT} \<and> m_partial_sig m = Some (rid, sig) \<and> m_node m = Some b \<and>
      int (length (verify_keys s)) \<le> rid \<longrightarrow> hs_step K (Deliver m) s = Inl (Raises IndexError)) \<and>
    (m_type m = PREPARE \<and> m_partial_sig m = None \<and> m_node m = None \<and> m_sender m = leader (pacer s) (m_view m) \<and>
      verify_justify K (m_justify m) s = Inr True \<longrightarrow> hs_step K (Deliver m) s = Inl (Raises AttributeError)) \<and>
    (m_type m = SYNC_RESP \<and> m_payload m = No_payload \<longrightarrow> hs_step K (Deliver m) s = Inl (Raises TypeError)) \<and>
    (m_type m = SYNC_REQ \<and> m_payload m = Nodes_payload bs \<and> bs \<noteq> [] \<longrightarrow> hs_step K (Deliver m) s = Inl (Raises TypeError))"
proof (intro conjI impI; elim conjE)
  let ?s1 = "if m_type m \<in> {PREPARE, PRE_COMMIT, COMMIT, DECIDE} \<and> m_partial_sig m = None \<and>
      cur_view s < m_view m then sync_view (m_view m) s else s"
  have s1: "verify_justify K q ?s1 = verify_justify K q s" "pacer ?s1 = pacer s" for q
    by (rule verify_justify_statics) (simp_all add: sync_view_def arm_timer_def statics_def)
  show "hs_step K (Deliver m) s = Inl (Raises IndexError)"
    if "m_type m \<in> {PREPARE, PRE_COMMIT, COMMIT}" "m_partial_sig m = Some (rid, sig)" "m_node m = Some b"
      "int (length (verify_keys s)) \<le> rid"
    using that assms
    by (auto simp: dispatch_def Let_def on_prepare_vote_def on_generic_vote_def tally_def py_index_def)
  show "hs_step K (Deliver m) s = Inl (Raises AttributeError)"
    if "m_type m = PREPARE" "m_partial_sig m = None" "m_node m = None" "m_sender m = leader (pacer s) (m_view m)"
      "verify_justify K (m_justify m) s = Inr True"
    using that assms s1(1)[of "m_justify m"] s1(2) by (simp add: dispatch_def Let_def on_prepare_def split: if_splits)
qed (use assms in \<open>simp_all add: dispatch_def Let_def on_sync_req_def on_sync_resp_def\<close>)

theorem malformed_messages_crash_witness:
  "hs_step DK (Deliver (vote_msg DK (demo_key 0) 4 PREPARE 1 block_X)) (demo_replica 1) = Inl (Raises IndexError) \<and>
   hs_step DK (Deliver (sync_msg SYNC_RESP 0 2 No_payload)) (demo_replica 1) = Inl (Raises TypeError)"
proof -
  have a: "alive (demo_replica 1)" "length (verify_keys (demo_replica 1)) = 4"
    by (simp_all add: demo_replica_def hs_init_replica_def demo_vks_nth)
  have "hs_step DK (Deliver (vote_msg DK (demo_key 0) 4 PREPARE 1 block_X)) (demo_replica 1) = Inl (Raises IndexError)"
    using malformed_messages_crash[OF a(1), where m = "vote_msg DK (demo_key 0) 4 PREPARE 1 block_X" and rid = 4 and b = block_X] a(2)
    by (simp add: vote_msg_def)
  moreover have "hs_step DK (Deliver (sync_msg SYNC_RESP 0 2 No_payload)) (demo_replica 1) = Inl (Raises TypeError)"
    using malformed_messages_crash[OF a(1), where m = "sync_msg SYNC_RESP 0 2 No_payload"] by (simp add: sync_msg_def)
  ultimately show ?thesis ..
qed

end
