(* ===== verification/HS_Audit.thy ===== *)
theory HS_Audit
  imports HS_Demo "HOL-Library.Sublist"
begin

text \<open>
  The checks of \<^verbatim>\<open>demos/harness.py\<close> over the correct replicas after a run: \<^verbatim>\<open>all_converged\<close>, \<^verbatim>\<open>check_convergence\<close> and
  \<^verbatim>\<open>check_safety_invariants\<close>, and what their verdicts mean.
\<close>

section \<open>The checks\<close>

definition correct :: "int set \<Rightarrow> 'a rep_core_scheme list \<Rightarrow> 'a rep_core_scheme list" where
  "correct excluded rs = filter (\<lambda>r. rep_id r \<notin> excluded) rs"

definition log_hashes :: "hs_crypto \<Rightarrow> 'a rep_core_scheme \<Rightarrow> string list" where
  "log_hashes K r = map (node_hash K) (committed r)"

definition all_converged :: "hs_crypto \<Rightarrow> int set \<Rightarrow> 'a rep_core_scheme list \<Rightarrow> bool" where
  "all_converged K excluded rs \<longleftrightarrow> (case map (log_hashes K) (correct excluded rs) of
     [] \<Rightarrow> False | l # ls \<Rightarrow> l \<noteq> [] \<and> (\<forall>m \<in> set (l # ls). m = l))"

text \<open>The dictionary from replica id to log.\<close>

definition logs_of :: "hs_crypto \<Rightarrow> 'a rep_core_scheme list \<Rightarrow> (int \<times> string list) list" where
  "logs_of K rs = fold (\<lambda>r. dict_set (rep_id r) (log_hashes K r)) rs []"

text \<open>The loop of \<^verbatim>\<open>check_convergence\<close>: the prefix of the first log is the reference.\<close>

fun compare_prefixes :: "nat \<Rightarrow> string list option \<Rightarrow> bool \<Rightarrow> string list list \<Rightarrow> bool" where
  "compare_prefixes m ref ok [] = ok"
| "compare_prefixes m None ok (l # ls) = compare_prefixes m (Some (take m l)) ok ls"
| "compare_prefixes m (Some r) ok (l # ls) = compare_prefixes m (Some r) (if take m l \<noteq> r then False else ok) ls"

definition check_convergence :: "hs_crypto \<Rightarrow> int set \<Rightarrow> 'a rep_core_scheme list \<Rightarrow> bool" where
  "check_convergence K excluded rs =
    (let logs = map snd (logs_of K (correct excluded rs));
         m = (case map length logs of [] \<Rightarrow> 0 | k # ks \<Rightarrow> fold min ks k)
     in compare_prefixes m None True logs)"

text \<open>The first part of \<^verbatim>\<open>check_safety_invariants\<close>, over all pairs of ids, and its second part over the certificates
  seen, by phase and view.\<close>

definition logs_consistent :: "(int \<times> string list) list \<Rightarrow> bool" where
  "logs_consistent logs \<longleftrightarrow> (\<forall>i \<in> set (map fst logs). \<forall>j \<in> set (map fst logs). i < j \<longrightarrow>
     (let a = the (map_of logs i); b = the (map_of logs j); k = min (length a) (length b) in take k a = take k b))"

definition by_tv :: "'a rep_core_scheme list \<Rightarrow> msg_type \<Rightarrow> int \<Rightarrow> string option set" where
  "by_tv rs t v = set (map (snd \<circ> snd) (filter (\<lambda>q. fst q = t \<and> fst (snd q) = v) (concat (map qcs rs))))"

definition check_safety_invariants :: "hs_crypto \<Rightarrow> int set \<Rightarrow> 'a rep_core_scheme list \<Rightarrow> bool" where
  "check_safety_invariants K excluded rs =
    (let reps = correct excluded rs in
     logs_consistent (logs_of K reps) \<and> (\<forall>(t, v, h) \<in> set (concat (map qcs reps)). \<not> 1 < card (by_tv reps t v)))"

section \<open>What they mean\<close>

lemma logs_of_map: "distinct (map rep_id rs) \<Longrightarrow> logs_of K rs = map (\<lambda>r. (rep_id r, log_hashes K r)) rs"
proof (induction rs rule: rev_induct)
  case (snoc r rs)
  have "i \<notin> fst ` set d \<Longrightarrow> dict_set i v d = d @ [(i, v)]" for i v and d :: "(int \<times> string list) list"
    by (induction d) auto
  with snoc show ?case by (auto simp: logs_of_def image_image)
qed (simp add: logs_of_def)

lemma by_tv_iff: "h \<in> by_tv rs t v \<longleftrightarrow> (\<exists>r \<in> set rs. (t, v, h) \<in> set (qcs r))"
  by (force simp: by_tv_def)

text \<open>Two replicas of the list whose logs are comparable.\<close>

definition compatible :: "hs_crypto \<Rightarrow> 'a rep_core_scheme \<Rightarrow> 'a rep_core_scheme \<Rightarrow> bool" where
  "compatible K r s \<longleftrightarrow> prefix (log_hashes K r) (log_hashes K s) \<or> prefix (log_hashes K s) (log_hashes K r)"

lemma take_min_eq: "take (min (length a) (length b)) a = take (min (length a) (length b)) b \<longleftrightarrow> prefix a b \<or> prefix b a"
  by (cases "length a \<le> length b") (auto simp: min_def prefix_def not_le, (metis append_take_drop_id)+)

lemma logs_consistent_iff:
  assumes "distinct (map rep_id rs)"
  shows "logs_consistent (logs_of K rs) \<longleftrightarrow> (\<forall>r \<in> set rs. \<forall>s \<in> set rs. compatible K r s)"
proof -
  have m: "map_of (logs_of K rs) (rep_id r) = Some (log_hashes K r)" if "r \<in> set rs" for r
    using assms that unfolding logs_of_map[OF assms] by (induction rs) (auto simp: rev_image_eqI)
  have "logs_consistent (logs_of K rs) \<longleftrightarrow> (\<forall>r \<in> set rs. \<forall>s \<in> set rs. rep_id r < rep_id s \<longrightarrow> compatible K r s)"
    unfolding logs_consistent_def Let_def take_min_eq compatible_def
    by (simp add: logs_of_map[OF assms, THEN arg_cong[where f = "map fst"]] m comp_def)
  also have "\<dots> \<longleftrightarrow> (\<forall>r \<in> set rs. \<forall>s \<in> set rs. compatible K r s)"
  proof (intro iffI ballI)
    fix r s assume a: "\<forall>r \<in> set rs. \<forall>s \<in> set rs. rep_id r < rep_id s \<longrightarrow> compatible K r s" "r \<in> set rs" "s \<in> set rs"
    consider "rep_id r < rep_id s" | "rep_id s < rep_id r" | "r = s"
      using assms a(2,3) by (metis distinct_map inj_onD linorder_neqE)
    then show "compatible K r s" using a by cases (auto simp: compatible_def)
  qed blast
  finally show ?thesis .
qed

lemma compare_prefixes_iff:
  "compare_prefixes m (Some r) ok ls \<longleftrightarrow> ok \<and> (\<forall>l \<in> set ls. take m l = r)"
  by (induction ls arbitrary: ok) auto

lemma fold_min: "fold min ks (k :: nat) \<in> insert k (set ks) \<and> (\<forall>j \<in> insert k (set ks). fold min ks k \<le> j)"
proof (induction ks arbitrary: k)
  case (Cons j ks)
  from Cons[of "min j k"] show ?case by (auto simp: min_def split: if_splits intro: order_trans)
qed simp

lemma check_convergence_iff:
  assumes "distinct (map rep_id rs)" "correct excluded rs = c # cs"
  shows "check_convergence K excluded rs \<longleftrightarrow>
    (\<exists>s \<in> set (c # cs). \<forall>r \<in> set (c # cs). prefix (log_hashes K s) (log_hashes K r))"
proof -
  have d: "distinct (map rep_id (c # cs))"
    using assms(1) unfolding assms(2)[symmetric] correct_def by (rule distinct_map_filter)
  define m where "m = fold min (map (length \<circ> log_hashes K) cs) (length (log_hashes K c))"
  have logs: "map snd (logs_of K (c # cs)) = log_hashes K c # map (log_hashes K) cs"
    unfolding logs_of_map[OF d] by (simp add: comp_def)
  have chk: "check_convergence K excluded rs \<longleftrightarrow> (\<forall>r \<in> set (c # cs). take m (log_hashes K r) = take m (log_hashes K c))"
    unfolding check_convergence_def assms(2) logs by (simp add: compare_prefixes_iff m_def comp_def)
  have "m \<in> (length \<circ> log_hashes K) ` set (c # cs)" and le: "\<forall>r \<in> set (c # cs). m \<le> length (log_hashes K r)"
    using fold_min[of "map (length \<circ> log_hashes K) cs" "length (log_hashes K c)"] by (auto simp: m_def)
  then obtain s where s: "s \<in> set (c # cs)" "length (log_hashes K s) = m" by auto
  show ?thesis
  proof
    assume "check_convergence K excluded rs"
    then have "take m (log_hashes K r) = log_hashes K s" if "r \<in> set (c # cs)" for r
      using chk that s by (metis order_refl take_all)
    then show "\<exists>s \<in> set (c # cs). \<forall>r \<in> set (c # cs). prefix (log_hashes K s) (log_hashes K r)"
      using s(1) by (metis take_is_prefix)
  next
    assume "\<exists>s \<in> set (c # cs). \<forall>r \<in> set (c # cs). prefix (log_hashes K s) (log_hashes K r)"
    then obtain u where u: "u \<in> set (c # cs)" "\<And>r. r \<in> set (c # cs) \<Longrightarrow> prefix (log_hashes K u) (log_hashes K r)" by blast
    have "m = length (log_hashes K u)" using le u(1) prefix_length_le[OF u(2)[OF s(1)]] s(2) by fastforce
    then have "take m (log_hashes K r) = log_hashes K u" if "r \<in> set (c # cs)" for r
      using u(2)[OF that] by (auto simp: prefix_def)
    then show "check_convergence K excluded rs" unfolding chk by simp
  qed
qed

section \<open>Property\<close>

text \<open>C34. The checks of the harness decide what they are about. For replicas with different ids,
  \<^verbatim>\<open>check_safety_invariants\<close> passes exactly when of any two correct replicas one's log is a prefix of the other's and no
  two certificates recorded by correct replicas for one phase and view name different blocks.
  \<^verbatim>\<open>check_convergence\<close> passes exactly when there is no correct replica or the log of one of them is a prefix of all
  the others; this follows from the first check and is weaker.\<close>

theorem audit_verdicts:
  assumes "distinct (map rep_id rs)" "cs = correct excluded rs"
  shows "(check_safety_invariants K excluded rs \<longleftrightarrow>
      (\<forall>r \<in> set cs. \<forall>s \<in> set cs. compatible K r s \<and> (\<forall>t v g h. (t, v, g) \<in> set (qcs r) \<and> (t, v, h) \<in> set (qcs s) \<longrightarrow> g = h))) \<and>
    (check_convergence K excluded rs \<longleftrightarrow>
      cs = [] \<or> (\<exists>s \<in> set cs. \<forall>r \<in> set cs. prefix (log_hashes K s) (log_hashes K r))) \<and>
    (check_safety_invariants K excluded rs \<longrightarrow> check_convergence K excluded rs)"
proof -
  have d: "distinct (map rep_id cs)" using assms(1) unfolding assms(2) correct_def by (rule distinct_map_filter)
  have fin: "finite (by_tv cs t v)" for t v by (simp add: by_tv_def)
  have "(\<forall>(t, v, h) \<in> set (concat (map qcs cs)). \<not> 1 < card (by_tv cs t v)) \<longleftrightarrow>
      (\<forall>t v. by_tv cs t v \<noteq> {} \<longrightarrow> card (by_tv cs t v) \<le> Suc 0)"
    using by_tv_iff[of _ cs] by fastforce
  also have "\<dots> \<longleftrightarrow> (\<forall>t v. \<forall>g \<in> by_tv cs t v. \<forall>h \<in> by_tv cs t v. g = h)"
    using card_le_Suc0_iff_eq[OF fin] by (metis card.empty le0)
  also have "\<dots> \<longleftrightarrow> (\<forall>r \<in> set cs. \<forall>s \<in> set cs. \<forall>t v g h. (t, v, g) \<in> set (qcs r) \<and> (t, v, h) \<in> set (qcs s) \<longrightarrow> g = h)"
    unfolding Ball_def by_tv_iff by blast
  finally have safe: "check_safety_invariants K excluded rs \<longleftrightarrow>
      (\<forall>r \<in> set cs. \<forall>s \<in> set cs. compatible K r s \<and> (\<forall>t v g h. (t, v, g) \<in> set (qcs r) \<and> (t, v, h) \<in> set (qcs s) \<longrightarrow> g = h))"
    unfolding check_safety_invariants_def Let_def assms(2)[symmetric] logs_consistent_iff[OF d] by blast
  have conv: "check_convergence K excluded rs \<longleftrightarrow>
      cs = [] \<or> (\<exists>s \<in> set cs. \<forall>r \<in> set cs. prefix (log_hashes K s) (log_hashes K r))"
  proof (cases cs)
    case Nil
    with assms(2) show ?thesis by (simp add: check_convergence_def logs_of_def)
  next
    case (Cons c cs')
    with assms(2) have "correct excluded rs = c # cs'" by simp
    from check_convergence_iff[OF assms(1) this] show ?thesis unfolding Cons by simp
  qed
  have "check_convergence K excluded rs" if all: "\<forall>r \<in> set cs. \<forall>s \<in> set cs. compatible K r s"
  proof (cases "cs = []")
    case False
    then obtain s where s: "s \<in> set cs" "\<And>r. r \<in> set cs \<Longrightarrow> length (log_hashes K s) \<le> length (log_hashes K r)"
      using ex_min_if_finite[of "(length \<circ> log_hashes K) ` set cs"] by (auto simp: not_less)
    then have "prefix (log_hashes K s) (log_hashes K r)" if "r \<in> set cs" for r
      using all that s prefix_length_le unfolding compatible_def by (metis append_eq_conv_conj le_antisym prefix_def take_all_iff)
    with s(1) show ?thesis unfolding conv by blast
  qed (simp add: conv)
  with safe conv show ?thesis by blast
qed

theorem audit_verdicts_witness:
  "\<not> check_safety_invariants DK {1} (map demo_end [0, 1, 2, 3])"
proof -
  have c: "correct {1} (map demo_end [0, 1, 2, 3]) = map demo_end [0, 2, 3]"
    by (simp add: correct_def demo_end_facts)
  have "distinct (map rep_id (map demo_end [0, 1, 2, 3]))" by (simp add: demo_end_facts)
  from audit_verdicts[OF this refl, of DK "{1}"] have
    "check_safety_invariants DK {1} (map demo_end [0, 1, 2, 3]) \<Longrightarrow> compatible DK (demo_end 0) (demo_end 2)"
    unfolding c by simp
  moreover have "\<not> compatible DK (demo_end 0) (demo_end 2)"
    by (simp add: compatible_def log_hashes_def demo_end_facts demo_hashes)
  ultimately show ?thesis by blast
qed

text \<open>\<^verbatim>\<open>check_convergence\<close> can pass although correct replicas committed conflicting blocks: one correct replica with a
  shorter log is enough, since only the prefix of the least length is compared. Here replicas 0 and 2
  committed different first blocks, and replica 3 nothing yet.\<close>

theorem convergence_check_misses_conflict:
  "check_convergence DK {1} [demo_end 0, demo_end 1, demo_end 2, demo_replica 3] \<and>
   committed (demo_end 0) = [block_X] \<and> committed (demo_end 2) = [block_Y] \<and>
   conflicts DK (rep_tree (demo_end 0)) block_X block_Y = Inr True"
proof -
  have "committed (demo_replica 3) = []" "rep_id (demo_replica 3) = 3"
    by (simp_all add: demo_replica_def hs_init_replica_def)
  then show ?thesis
    by (simp add: check_convergence_def correct_def logs_of_def log_hashes_def demo_end_facts(1,4) demo_conflict)
qed

end
