(* ===== verification/TM_Config.thy ===== *)
theory TM_Config
  imports Py_Text
begin

text \<open>
  Tendermint (\<^verbatim>\<open>t1_1/tamara stankovic/tendermint-tamara\<close>): the configuration and the scenarios of \<^verbatim>\<open>config.py\<close>, and
  the messages of \<^verbatim>\<open>messages.py\<close>.
\<close>

section \<open>Configuration\<close>

record tm_config =
  tm_n :: int
  tm_f :: int
  num_heights :: int
  voting_power :: "int list"
  init_timeout_propose :: real
  init_timeout_prevote :: real
  init_timeout_precommit :: real
  timeout_delta :: real
  min_delay :: real
  max_delay :: real
  tm_drop_prob :: real
  gst :: real
  bad_delay_min :: real
  bad_delay_max :: real
  crashed :: "int list"
  byzantine :: "int list"
  byzantine_mode :: string
  seed :: int
  poll_interval :: real
  max_runtime :: real

definition SimConfig :: tm_config where
  "SimConfig = \<lparr>tm_n = 4, tm_f = 1, num_heights = 1, voting_power = [], init_timeout_propose = 0.6,
     init_timeout_prevote = 0.6, init_timeout_precommit = 0.6, timeout_delta = 0.3, min_delay = 0.02, max_delay = 0.08,
     tm_drop_prob = 0, gst = 0, bad_delay_min = 0.7, bad_delay_max = 1.5, crashed = [], byzantine = [],
     byzantine_mode = ''equivocate'', seed = 42, poll_interval = 0.01, max_runtime = 30\<rparr>"

text \<open>\<^verbatim>\<open>range(n)\<close>.\<close>

definition tm_ids :: "tm_config \<Rightarrow> int list" where
  "tm_ids c = map int [0..<nat (tm_n c)]"

definition power_of :: "tm_config \<Rightarrow> int \<Rightarrow> py_error + int" where
  "power_of c i = (if voting_power c = [] then Inr 1 else py_nth (voting_power c) i)"

definition total_power :: "tm_config \<Rightarrow> py_error + int" where
  "total_power c = sumE (power_of c) (tm_ids c)"

definition validate :: "tm_config \<Rightarrow> py_error + unit" where
  "validate c =
    bindE (total_power c) (\<lambda>total.
    raise_if (\<not> 3 * tm_f c < total) AssertionError
    (raise_if (voting_power c \<noteq> [] \<and> int (length (voting_power c)) \<noteq> tm_n c) AssertionError
    (raise_if (\<exists>pw \<in> set (voting_power c). pw < 0) AssertionError
    (raise_if (\<exists>s \<in> set (crashed c). \<not> (0 \<le> s \<and> s < tm_n c)) AssertionError
    (raise_if (\<exists>s \<in> set (byzantine c). \<not> (0 \<le> s \<and> s < tm_n c)) AssertionError
    (raise_if (set (crashed c) \<inter> set (byzantine c) \<noteq> {}) AssertionError
    (bindE (sumE (power_of c) (byzantine c)) (\<lambda>byz.
      raise_if (\<not> byz \<le> tm_f c) AssertionError (Inr ())))))))))"

definition SCENARIOS :: "(string \<times> tm_config) list" where
  "SCENARIOS = [
    (''happy'', SimConfig),
    (''crash-proposer'', SimConfig\<lparr>crashed := [0]\<rparr>),
    (''crash-follower'', SimConfig\<lparr>crashed := [1]\<rparr>),
    (''byzantine'', SimConfig\<lparr>byzantine := [0], byzantine_mode := ''equivocate''\<rparr>),
    (''delays'', SimConfig\<lparr>min_delay := 0.05, max_delay := 0.45\<rparr>),
    (''asynchrony'', SimConfig\<lparr>gst := 2, bad_delay_min := 0.8, bad_delay_max := 1.6,
       init_timeout_propose := 0.5, init_timeout_prevote := 0.5, init_timeout_precommit := 0.5,
       timeout_delta := 0.3, max_runtime := 30\<rparr>),
    (''multi-height'', SimConfig\<lparr>num_heights := 3\<rparr>),
    (''weighted'', SimConfig\<lparr>tm_n := 4, tm_f := 2, voting_power := [3, 2, 1, 1]\<rparr>),
    (''weighted-byz'', SimConfig\<lparr>tm_n := 4, tm_f := 2, voting_power := [3, 2, 1, 1], byzantine := [2],
       byzantine_mode := ''equivocate''\<rparr>),
    (''weighted-crash'', SimConfig\<lparr>tm_n := 4, tm_f := 1, voting_power := [3, 2, 1, 1], crashed := [0]\<rparr>)]"

text \<open>The overrides of the command line are an update of the configuration.\<close>

definition get_scenario :: "string \<Rightarrow> (tm_config \<Rightarrow> tm_config) \<Rightarrow> py_error + tm_config" where
  "get_scenario name overrides = (case map_of SCENARIOS name of
     None \<Rightarrow> Inl KeyError
   | Some c \<Rightarrow> let c' = overrides c in bindE (validate c') (\<lambda>_. Inr c'))"

section \<open>Messages\<close>

datatype tm_type = PROPOSAL | PREVOTE | PRECOMMIT

text \<open>\<^verbatim>\<open>uid\<close> numbers the messages for the log only and is left out.\<close>

record tm_msg =
  mt :: tm_type
  mh :: int
  mr :: int
  ms :: int
  mv :: "string option"
  mvid :: "string option"
  mvr :: int

definition value_id :: "string option \<Rightarrow> string option" where
  "value_id v = map_option (\<lambda>s. take 8 (sha256_hexdigest s)) v"

section \<open>Validated configurations\<close>

text \<open>The voting power as a number; a validated configuration has one for every id.\<close>

definition weight :: "tm_config \<Rightarrow> int \<Rightarrow> int" where
  "weight c i = (case power_of c i of Inr p \<Rightarrow> p | Inl _ \<Rightarrow> 0)"

lemma set_tm_ids: "set (tm_ids c) = {0..<tm_n c}"
  by (auto simp: tm_ids_def image_iff intro!: bexI[of _ "nat _"])

lemma power_of_valid:
  assumes "validate c = Inr ()" "0 \<le> i" "i < tm_n c"
  shows "power_of c i = Inr (weight c i)" "0 \<le> weight c i"
proof -
  have "voting_power c \<noteq> [] \<longrightarrow> int (length (voting_power c)) = tm_n c" "\<forall>pw \<in> set (voting_power c). 0 \<le> pw"
    using assms(1) by (auto simp: validate_def bindE_eq_Inr not_less)
  then show "power_of c i = Inr (weight c i)" "0 \<le> weight c i"
    using assms(2,3) by (auto simp: weight_def power_of_def py_nth_def)
qed

lemma total_power_valid:
  assumes "validate c = Inr ()"
  shows "total_power c = Inr (\<Sum>i \<in> {0..<tm_n c}. weight c i)"
proof -
  have "total_power c = Inr (sum_list (map (weight c) (tm_ids c)))"
    unfolding total_power_def by (rule sumE_const) (use assms power_of_valid in \<open>auto simp: set_tm_ids\<close>)
  moreover have "distinct (tm_ids c)" by (simp add: tm_ids_def distinct_map)
  ultimately show ?thesis by (simp add: sum_list_distinct_conv_sum_set set_tm_ids)
qed

end
