(* ===== verification/TM_Node.thy ===== *)
theory TM_Node
  imports TM_Config
begin

text \<open>
  A Tendermint node (\<^verbatim>\<open>node.py\<close>), correct or Byzantine: one definition per method, the rules in the order of
  \<^verbatim>\<open>try_rules\<close>, and the loop of the thread as events. What a method reads from outside comes from \<open>tm_env\<close>: the readings of
  the clock, the random numbers of a Byzantine node, and the order in which Python iterates over a set of ids.
\<close>

section \<open>State\<close>

record tm_env =
  clk :: "nat \<Rightarrow> real"
  rand :: "nat \<Rightarrow> real"
  set_order :: "string list \<Rightarrow> string list"

abbreviation (input) STEP_PROPOSE :: int where "STEP_PROPOSE \<equiv> 0"
abbreviation (input) STEP_PREVOTE :: int where "STEP_PREVOTE \<equiv> 1"
abbreviation (input) STEP_PRECOMMIT :: int where "STEP_PRECOMMIT \<equiv> 2"

datatype tm_kind = Propose_timeout | Prevote_timeout | Precommit_timeout

datatype tm_action = To_all tm_msg | To_one int tm_msg

text \<open>\<open>ticks\<close> and \<open>draws\<close> count the readings of clock and random numbers; \<open>tm_out\<close> is what was sent.\<close>

record tm_node =
  nid :: int
  ncfg :: tm_config
  is_byz :: bool
  nh :: int
  nround :: int
  nstep :: int
  tm_decisions :: "int \<rightharpoonup> string option"
  locked_value :: "string option"
  locked_round :: int
  valid_value :: "string option"
  valid_round :: int
  message_log :: "tm_msg list"
  timers :: "(real \<times> tm_kind \<times> int \<times> int) list"
  fired_prevote_timer :: "(int \<times> int) set"
  fired_precommit_timer :: "(int \<times> int) set"
  fired_lock :: "(int \<times> int) set"
  value_counter :: nat
  node_done :: bool
  ticks :: nat
  draws :: nat
  tm_out :: "tm_action list"

definition init_node :: "tm_config \<Rightarrow> bool \<Rightarrow> int \<Rightarrow> tm_node" where
  "init_node c byz i = \<lparr>nid = i, ncfg = c, is_byz = byz, nh = 0, nround = 0, nstep = STEP_PROPOSE,
     tm_decisions = Map.empty, locked_value = None, locked_round = -1, valid_value = None, valid_round = -1,
     message_log = [], timers = [], fired_prevote_timer = {}, fired_precommit_timer = {}, fired_lock = {},
     value_counter = 0, node_done = False, ticks = 0, draws = 0, tm_out = []\<rparr>"

section \<open>Helpers\<close>

definition tm_quorum :: "tm_config \<Rightarrow> int" where
  "tm_quorum c = 2 * tm_f c + 1"

definition f_plus_1 :: "tm_config \<Rightarrow> int" where
  "f_plus_1 c = tm_f c + 1"

text \<open>\<^verbatim>\<open>max(range(n), key=lambda i: (pri[i], -i))\<close>: the least index of the greatest priority.\<close>

definition leader_index :: "int list \<Rightarrow> nat" where
  "leader_index pri = fold (\<lambda>i best. if pri ! best < pri ! i then i else best) [1..<length pri] 0"

definition proposer_round :: "int list \<Rightarrow> int list \<times> nat \<Rightarrow> int list \<times> nat" where
  "proposer_round powers st =
    (let pri = map2 (+) (fst st) powers; l = leader_index pri
     in (pri[l := pri ! l - sum_list powers], l))"

definition proposer :: "tm_config \<Rightarrow> int \<Rightarrow> int \<Rightarrow> py_error + int" where
  "proposer c height rnd =
    bindE (mapE (power_of c) (tm_ids c)) (\<lambda>powers.
    raise_if (tm_ids c = [] \<and> 0 < height + rnd + 1) ValueError
      (Inr (int (snd ((proposer_round powers ^^ nat (height + rnd + 1)) (replicate (length powers) 0, 0))))))"

definition valid :: "string option \<Rightarrow> bool" where
  "valid v \<longleftrightarrow> (case v of None \<Rightarrow> False | Some s \<Rightarrow> take 7 s \<noteq> ''INVALID'')"

definition get_value :: "tm_node \<Rightarrow> string \<times> tm_node" where
  "get_value s = (''V[h'' @ int_str (nh s) @ '':r'' @ int_str (nround s) @ '':N'' @ int_str (nid s) @
     ''#'' @ nat_str (value_counter s) @ '']'', s\<lparr>value_counter := value_counter s + 1\<rparr>)"

text \<open>\<^verbatim>\<open>_voters\<close>; the first \<^const>\<open>None\<close> stands for \<^verbatim>\<open>_ANY\<close>.\<close>

definition voters :: "tm_msg list \<Rightarrow> tm_type \<Rightarrow> int \<Rightarrow> int \<Rightarrow> string option option \<Rightarrow> int list" where
  "voters lg t h r vid = remdups (map ms (filter (\<lambda>m. mt m = t \<and> mh m = h \<and> mr m = r \<and>
     (case vid of None \<Rightarrow> True | Some x \<Rightarrow> mvid m = x)) lg))"

definition voting_power_of :: "tm_config \<Rightarrow> int list \<Rightarrow> py_error + int" where
  "voting_power_of c senders = sumE (power_of c) senders"

definition has_quorum :: "tm_type \<Rightarrow> int \<Rightarrow> int \<Rightarrow> string option option \<Rightarrow> tm_node \<Rightarrow> py_error + bool" where
  "has_quorum t h r vid s = bindE (voting_power_of (ncfg s) (voters (message_log s) t h r vid))
     (\<lambda>p. Inr (tm_quorum (ncfg s) \<le> p))"

definition find_proposal :: "int \<Rightarrow> int \<Rightarrow> tm_node \<Rightarrow> py_error + tm_msg option" where
  "find_proposal h r s = bindE (proposer (ncfg s) h r) (\<lambda>p.
     Inr (find (\<lambda>m. mt m = PROPOSAL \<and> mh m = h \<and> mr m = r \<and> ms m = p) (message_log s)))"

definition find_proposal_for_id :: "int \<Rightarrow> int \<Rightarrow> string option \<Rightarrow> tm_node \<Rightarrow> py_error + tm_msg option" where
  "find_proposal_for_id h r vid s = bindE (proposer (ncfg s) h r) (\<lambda>p.
     Inr (find (\<lambda>m. mt m = PROPOSAL \<and> mh m = h \<and> mr m = r \<and> ms m = p \<and> value_id (mv m) = vid) (message_log s)))"

section \<open>Sending\<close>

definition tm_emit :: "tm_action \<Rightarrow> tm_node \<Rightarrow> tm_node" where
  "tm_emit a s = s\<lparr>tm_out := tm_out s @ [a]\<rparr>"

text \<open>\<^verbatim>\<open>_equivocate_proposal\<close> of \<^verbatim>\<open>ByzantineNode\<close>.\<close>

definition equivocate_proposal :: "int \<Rightarrow> tm_node \<Rightarrow> tm_node" where
  "equivocate_proposal vr s =
    (let v = (\<lambda>x. ''BYZ-'' @ x @ ''[h'' @ int_str (nh s) @ '':r'' @ int_str (nround s) @ '']'');
         others = filter (\<lambda>i. i \<noteq> nid s) (tm_ids (ncfg s));
         half = max 1 (length others div 2);
         group_a = take half others;
         group_b = (if drop half others \<noteq> [] then drop half others else take half others);
         send = (\<lambda>x i. tm_emit (To_one i \<lparr>mt = PROPOSAL, mh = nh s, mr = nround s, ms = nid s, mv = Some (v x),
           mvid = value_id (Some (v x)), mvr = vr\<rparr>))
     in fold (send ''B'') group_b (fold (send ''A'') group_a s))"

definition tm_broadcast :: "tm_env \<Rightarrow> tm_msg \<Rightarrow> tm_node \<Rightarrow> tm_node" where
  "tm_broadcast env m s =
    (if \<not> is_byz s then tm_emit (To_all m) s
     else
       let mode = byzantine_mode (ncfg s) in
       if mode = ''vote_nil'' \<and> mt m \<in> {PREVOTE, PRECOMMIT}
       then tm_emit (To_all \<lparr>mt = mt m, mh = mh m, mr = mr m, ms = nid s, mv = None, mvid = None, mvr = -1\<rparr>) s
       else if mt m = PROPOSAL \<and> mode \<in> {''equivocate'', ''random''}
       then if mode = ''random''
            then let s1 = s\<lparr>draws := draws s + 1\<rparr> in
                 if rand env (draws s) < 0.5 then tm_emit (To_all m) s1 else equivocate_proposal (mvr m) s1
            else equivocate_proposal (mvr m) s
       else tm_emit (To_all m) s)"

definition mk :: "tm_type \<Rightarrow> string option \<Rightarrow> string option \<Rightarrow> int \<Rightarrow> tm_node \<Rightarrow> tm_msg" where
  "mk t v vid vr s = \<lparr>mt = t, mh = nh s, mr = nround s, ms = nid s, mv = v, mvid = vid, mvr = vr\<rparr>"

definition tm_send_proposal :: "tm_env \<Rightarrow> string option \<Rightarrow> int \<Rightarrow> tm_node \<Rightarrow> tm_node" where
  "tm_send_proposal env v vr s = tm_broadcast env (mk PROPOSAL v (value_id v) vr s) s"

definition send_prevote :: "tm_env \<Rightarrow> string option \<Rightarrow> tm_node \<Rightarrow> tm_node" where
  "send_prevote env vid s = tm_broadcast env (mk PREVOTE None vid (-1) s) s"

definition send_precommit :: "tm_env \<Rightarrow> string option \<Rightarrow> tm_node \<Rightarrow> tm_node" where
  "send_precommit env vid s = tm_broadcast env (mk PRECOMMIT None vid (-1) s) s"

section \<open>Rounds and timeouts\<close>

definition timeout_propose :: "tm_config \<Rightarrow> int \<Rightarrow> real" where
  "timeout_propose c r = init_timeout_propose c + real_of_int r * timeout_delta c"

definition timeout_prevote :: "tm_config \<Rightarrow> int \<Rightarrow> real" where
  "timeout_prevote c r = init_timeout_prevote c + real_of_int r * timeout_delta c"

definition timeout_precommit :: "tm_config \<Rightarrow> int \<Rightarrow> real" where
  "timeout_precommit c r = init_timeout_precommit c + real_of_int r * timeout_delta c"

definition schedule_timeout :: "tm_env \<Rightarrow> real \<Rightarrow> tm_kind \<Rightarrow> int \<Rightarrow> int \<Rightarrow> tm_node \<Rightarrow> tm_node" where
  "schedule_timeout env delay k h r s =
    s\<lparr>timers := timers s @ [(clk env (ticks s) + delay, k, h, r)], ticks := ticks s + 1\<rparr>"

definition start_round :: "tm_env \<Rightarrow> int \<Rightarrow> tm_node \<Rightarrow> py_error + tm_node" where
  "start_round env rnd s =
    (let s1 = s\<lparr>nround := rnd, nstep := STEP_PROPOSE\<rparr> in
     bindE (proposer (ncfg s) (nh s) rnd) (\<lambda>p. Inr (
       if p = nid s then
         let (v, s2) = (case valid_value s1 of
             Some x \<Rightarrow> (Some x, s1)
           | None \<Rightarrow> (let (x, s2) = get_value s1 in (Some x, s2)))
         in tm_send_proposal env v (valid_round s2) s2
       else schedule_timeout env (timeout_propose (ncfg s) rnd) Propose_timeout (nh s) rnd s1)))"

definition on_timeout_propose :: "tm_env \<Rightarrow> int \<Rightarrow> int \<Rightarrow> tm_node \<Rightarrow> py_error + bool \<times> tm_node" where
  "on_timeout_propose env h r s = Inr (
     if h = nh s \<and> r = nround s \<and> nstep s = STEP_PROPOSE
     then (True, (send_prevote env None s)\<lparr>nstep := STEP_PREVOTE\<rparr>) else (False, s))"

definition on_timeout_prevote :: "tm_env \<Rightarrow> int \<Rightarrow> int \<Rightarrow> tm_node \<Rightarrow> py_error + bool \<times> tm_node" where
  "on_timeout_prevote env h r s = Inr (
     if h = nh s \<and> r = nround s \<and> nstep s = STEP_PREVOTE
     then (True, (send_precommit env None s)\<lparr>nstep := STEP_PRECOMMIT\<rparr>) else (False, s))"

definition on_timeout_precommit :: "tm_env \<Rightarrow> int \<Rightarrow> int \<Rightarrow> tm_node \<Rightarrow> py_error + bool \<times> tm_node" where
  "on_timeout_precommit env h r s =
    (if h = nh s \<and> r = nround s then bindE (start_round env (nround s + 1) s) (\<lambda>s'. Inr (True, s')) else Inr (False, s))"

fun fire_timeout :: "tm_env \<Rightarrow> real \<times> tm_kind \<times> int \<times> int \<Rightarrow> tm_node \<Rightarrow> py_error + bool \<times> tm_node" where
  "fire_timeout env (d, Propose_timeout, h, r) s = on_timeout_propose env h r s"
| "fire_timeout env (d, Prevote_timeout, h, r) s = on_timeout_prevote env h r s"
| "fire_timeout env (d, Precommit_timeout, h, r) s = on_timeout_precommit env h r s"

text \<open>\<^verbatim>\<open>changed |= f()\<close>, for every \<open>f\<close> of a list.\<close>

definition all_changes :: "('a \<Rightarrow> tm_node \<Rightarrow> py_error + bool \<times> tm_node) \<Rightarrow> 'a list \<Rightarrow> tm_node \<Rightarrow> py_error + bool \<times> tm_node" where
  "all_changes f xs s = foldE (\<lambda>x (ch, s). bindE (f x s) (\<lambda>(c, s'). Inr (ch \<or> c, s'))) xs (False, s)"

definition check_timeouts :: "tm_env \<Rightarrow> tm_node \<Rightarrow> py_error + bool \<times> tm_node" where
  "check_timeouts env s =
    (let now = clk env (ticks s); s1 = s\<lparr>ticks := ticks s + 1\<rparr>; due = filter (\<lambda>t. fst t \<le> now) (timers s) in
     if due = [] then Inr (False, s1)
     else all_changes (fire_timeout env) due (s1\<lparr>timers := filter (\<lambda>t. now < fst t) (timers s)\<rparr>))"

section \<open>Rules\<close>

definition rule_proposal_initial :: "tm_env \<Rightarrow> tm_node \<Rightarrow> py_error + bool \<times> tm_node" where
  "rule_proposal_initial env s =
    (if nstep s \<noteq> STEP_PROPOSE then Inr (False, s)
     else bindE (find_proposal (nh s) (nround s) s) (\<lambda>p. case p of
         None \<Rightarrow> Inr (False, s)
       | Some m \<Rightarrow>
           if mvr m \<noteq> -1 then Inr (False, s)
           else Inr (True, (if valid (mv m) \<and> (locked_round s = -1 \<or> locked_value s = mv m)
             then send_prevote env (value_id (mv m)) s else send_prevote env None s)\<lparr>nstep := STEP_PREVOTE\<rparr>)))"

definition rule_proposal_with_vr :: "tm_env \<Rightarrow> tm_node \<Rightarrow> py_error + bool \<times> tm_node" where
  "rule_proposal_with_vr env s =
    (if nstep s \<noteq> STEP_PROPOSE then Inr (False, s)
     else bindE (find_proposal (nh s) (nround s) s) (\<lambda>p. case p of
         None \<Rightarrow> Inr (False, s)
       | Some m \<Rightarrow>
           if mvr m < 0 \<or> nround s \<le> mvr m then Inr (False, s)
           else bindE (has_quorum PREVOTE (nh s) (mvr m) (Some (value_id (mv m))) s) (\<lambda>q.
             if \<not> q then Inr (False, s)
             else Inr (True, (if valid (mv m) \<and> (locked_round s \<le> mvr m \<or> locked_value s = mv m)
               then send_prevote env (value_id (mv m)) s else send_prevote env None s)\<lparr>nstep := STEP_PREVOTE\<rparr>))))"

definition rule_prevote_timer :: "tm_env \<Rightarrow> tm_node \<Rightarrow> py_error + bool \<times> tm_node" where
  "rule_prevote_timer env s =
    (if nstep s \<noteq> STEP_PREVOTE \<or> (nh s, nround s) \<in> fired_prevote_timer s then Inr (False, s)
     else bindE (has_quorum PREVOTE (nh s) (nround s) None s) (\<lambda>q.
       if \<not> q then Inr (False, s)
       else Inr (True, schedule_timeout env (timeout_prevote (ncfg s) (nround s)) Prevote_timeout (nh s) (nround s)
         (s\<lparr>fired_prevote_timer := insert (nh s, nround s) (fired_prevote_timer s)\<rparr>))))"

definition rule_lock_precommit :: "tm_env \<Rightarrow> tm_node \<Rightarrow> py_error + bool \<times> tm_node" where
  "rule_lock_precommit env s =
    (if nstep s < STEP_PREVOTE \<or> (nh s, nround s) \<in> fired_lock s then Inr (False, s)
     else bindE (find_proposal (nh s) (nround s) s) (\<lambda>p. case p of
         None \<Rightarrow> Inr (False, s)
       | Some m \<Rightarrow>
           if \<not> valid (mv m) then Inr (False, s)
           else bindE (has_quorum PREVOTE (nh s) (nround s) (Some (value_id (mv m))) s) (\<lambda>q.
             if \<not> q then Inr (False, s)
             else
               let s1 = s\<lparr>fired_lock := insert (nh s, nround s) (fired_lock s)\<rparr>;
                   s2 = (if nstep s1 = STEP_PREVOTE
                     then (send_precommit env (value_id (mv m)) (s1\<lparr>locked_value := mv m, locked_round := nround s1\<rparr>))
                       \<lparr>nstep := STEP_PRECOMMIT\<rparr>
                     else s1)
               in Inr (True, s2\<lparr>valid_value := mv m, valid_round := nround s2\<rparr>))))"

definition rule_prevote_nil :: "tm_env \<Rightarrow> tm_node \<Rightarrow> py_error + bool \<times> tm_node" where
  "rule_prevote_nil env s =
    (if nstep s \<noteq> STEP_PREVOTE then Inr (False, s)
     else bindE (has_quorum PREVOTE (nh s) (nround s) (Some None) s) (\<lambda>q.
       if \<not> q then Inr (False, s) else Inr (True, (send_precommit env None s)\<lparr>nstep := STEP_PRECOMMIT\<rparr>)))"

definition rule_precommit_timer :: "tm_env \<Rightarrow> tm_node \<Rightarrow> py_error + bool \<times> tm_node" where
  "rule_precommit_timer env s =
    (if (nh s, nround s) \<in> fired_precommit_timer s then Inr (False, s)
     else bindE (has_quorum PRECOMMIT (nh s) (nround s) None s) (\<lambda>q.
       if \<not> q then Inr (False, s)
       else Inr (True, schedule_timeout env (timeout_precommit (ncfg s) (nround s)) Precommit_timeout (nh s) (nround s)
         (s\<lparr>fired_precommit_timer := insert (nh s, nround s) (fired_precommit_timer s)\<rparr>))))"

definition reset_for_new_height :: "tm_node \<Rightarrow> tm_node" where
  "reset_for_new_height s = s\<lparr>nround := 0, nstep := STEP_PROPOSE, locked_value := None, locked_round := -1,
     valid_value := None, valid_round := -1, message_log := filter (\<lambda>m. nh s \<le> mh m) (message_log s),
     timers := [], fired_prevote_timer := {}, fired_precommit_timer := {}, fired_lock := {}\<rparr>"

text \<open>The body of the \<^verbatim>\<open>ODLUKA\<close> branch.\<close>

definition decide :: "tm_env \<Rightarrow> string option \<Rightarrow> tm_node \<Rightarrow> py_error + bool \<times> tm_node" where
  "decide env v s =
    (let s1 = s\<lparr>tm_decisions := (tm_decisions s)(nh s \<mapsto> v), nh := nh s + 1\<rparr> in
     if nh s1 < num_heights (ncfg s1)
     then bindE (start_round env 0 (reset_for_new_height s1)) (\<lambda>s2. Inr (True, s2))
     else Inr (True, s1\<lparr>node_done := True\<rparr>))"

text \<open>The candidates in the order of the two \<^verbatim>\<open>for\<close> loops: rounds sorted, ids in the order of the set.\<close>

definition precommit_candidates :: "tm_env \<Rightarrow> tm_node \<Rightarrow> (int \<times> string) list" where
  "precommit_candidates env s =
    (let lg = filter (\<lambda>m. mt m = PRECOMMIT \<and> mh m = nh s) (message_log s) in
     concat (map (\<lambda>r. map (Pair r) (set_order env (remdups (List.map_filter (\<lambda>m. if mr m = r then mvid m else None) lg))))
       (sort (remdups (map mr lg)))))"

fun decide_loop :: "tm_env \<Rightarrow> (int \<times> string) list \<Rightarrow> tm_node \<Rightarrow> py_error + bool \<times> tm_node" where
  "decide_loop env [] s = Inr (False, s)"
| "decide_loop env ((r, vid) # cs) s =
     bindE (has_quorum PRECOMMIT (nh s) r (Some (Some vid)) s) (\<lambda>q.
       if \<not> q then decide_loop env cs s
       else bindE (find_proposal_for_id (nh s) r (Some vid) s) (\<lambda>p. case p of
           None \<Rightarrow> decide_loop env cs s
         | Some m \<Rightarrow> if \<not> valid (mv m) then decide_loop env cs s else decide env (mv m) s))"

definition rule_decide :: "tm_env \<Rightarrow> tm_node \<Rightarrow> py_error + bool \<times> tm_node" where
  "rule_decide env s = (if tm_decisions s (nh s) \<noteq> None then Inr (False, s)
     else decide_loop env (precommit_candidates env s) s)"

text \<open>The greatest higher round with messages of \<open>f + 1\<close> voting power.\<close>

definition skip_round :: "tm_node \<Rightarrow> py_error + int option" where
  "skip_round s =
    (let lg = filter (\<lambda>m. mh m = nh s) (message_log s);
         higher = sort (remdups (filter (\<lambda>r. nround s < r) (map mr lg)))
     in foldE (\<lambda>r best. bindE (voting_power_of (ncfg s) (remdups (map ms (filter (\<lambda>m. mr m = r) lg)))) (\<lambda>p.
          Inr (if f_plus_1 (ncfg s) \<le> p \<and> (case best of None \<Rightarrow> True | Some b \<Rightarrow> b < r) then Some r else best)))
        higher None)"

definition rule_round_skip :: "tm_env \<Rightarrow> tm_node \<Rightarrow> py_error + bool \<times> tm_node" where
  "rule_round_skip env s = bindE (skip_round s) (\<lambda>best. case best of
     None \<Rightarrow> Inr (False, s)
   | Some r \<Rightarrow> bindE (start_round env r s) (\<lambda>s'. Inr (True, s')))"

definition try_rules :: "tm_env \<Rightarrow> tm_node \<Rightarrow> py_error + bool \<times> tm_node" where
  "try_rules env s = all_changes (\<lambda>rule. rule env)
     [rule_proposal_initial, rule_proposal_with_vr, rule_prevote_timer, rule_lock_precommit,
      rule_prevote_nil, rule_precommit_timer, rule_decide, rule_round_skip] s"

section \<open>The thread\<close>

text \<open>The rules up to a fixed point, at most 1001 times: the loop stops when \<^verbatim>\<open>guard > 1000\<close>.\<close>

fun rule_loop :: "tm_env \<Rightarrow> nat \<Rightarrow> tm_node \<Rightarrow> py_error + tm_node" where
  "rule_loop env 0 s = Inr s"
| "rule_loop env (Suc k) s = bindE (try_rules env s) (\<lambda>(ch, s'). if ch then rule_loop env k s' else Inr s')"

text \<open>
  \<open>Run_start\<close> is the start of the thread, \<open>Poll ms\<close> one turn of its loop, in which \<^verbatim>\<open>_drain_inbox\<close> takes the messages \<open>ms\<close>
  out of the inbox.
\<close>

datatype tm_event = Run_start | Poll "tm_msg list"

fun tm_step :: "tm_env \<Rightarrow> tm_event \<Rightarrow> tm_node \<Rightarrow> py_error + tm_node" where
  "tm_step env Run_start s = start_round env 0 s"
| "tm_step env (Poll msgs) s =
     (let s1 = s\<lparr>message_log := message_log s @ msgs\<rparr> in
      if node_done s1 then Inr s1
      else bindE (check_timeouts env s1) (\<lambda>(changed, s2).
        if msgs \<noteq> [] \<or> changed then rule_loop env 1001 s2 else Inr s2))"

end
