(* ===== verification/TM_Agreement.thy ===== *)
theory TM_Agreement
  imports TM_Node
begin

text \<open>
  Agreement of the Tendermint nodes: an abstract specification of a correct node as guarded steps, the invariant
  of that specification, the refinement of the thread of a correct node to it, and
  agreement by the intersection of weighted quorums.
\<close>

section \<open>Weighted quorums\<close>

locale weighted_members =
  fixes members :: "'a set" and power :: "'a \<Rightarrow> int"
  assumes finite_members: "finite members" and power_nonneg: "x \<in> members \<Longrightarrow> 0 \<le> power x"
begin

lemma power_mono: "A \<subseteq> B \<Longrightarrow> B \<subseteq> members \<Longrightarrow> sum power A \<le> sum power B"
  using finite_members power_nonneg finite_subset by (intro sum_mono2) blast+

text \<open>Two quorums of total weight \<open>3 f + 1\<close> at most share a member outside a set of weight \<open>f\<close>.\<close>

lemma quorums_share:
  assumes "A \<subseteq> members" "B \<subseteq> members" "sum power members \<le> 3 * f + 1" "2 * f + 1 \<le> sum power A" "2 * f + 1 \<le> sum power B"
    and "F \<subseteq> members" "sum power F \<le> f"
  shows "\<exists>x \<in> A \<inter> B. x \<notin> F"
proof (rule ccontr)
  assume "\<not> ?thesis"
  then have "A \<inter> B \<subseteq> F" by blast
  then have "sum power (A \<inter> B) \<le> f" using power_mono[of "A \<inter> B" F] assms(6,7) by linarith
  moreover have "sum power (A \<union> B) + sum power (A \<inter> B) = sum power A + sum power B"
    using assms(1,2) finite_members finite_subset sum.union_inter by metis
  moreover have "sum power (A \<union> B) \<le> sum power members" using power_mono assms(1,2) by simp
  ultimately show False using assms(3-5) by linarith
qed

end

interpretation tm_members: weighted_members "{0..<tm_n c}" "\<lambda>i. max 0 (weight c i)" for c
  by unfold_locales simp_all

section \<open>Abstract specification\<close>

text \<open>A quorum of messages for one value among the messages of \<open>D\<close>.\<close>

definition quorum_in :: "tm_config \<Rightarrow> tm_msg set \<Rightarrow> tm_type \<Rightarrow> int \<Rightarrow> int \<Rightarrow> string option \<Rightarrow> bool" where
  "quorum_in c D t h r vid \<longleftrightarrow> (\<exists>S. finite S \<and> tm_quorum c \<le> sum (weight c) S \<and>
     (\<forall>i \<in> S. \<exists>m \<in> D. mt m = t \<and> mh m = h \<and> mr m = r \<and> mvid m = vid \<and> ms m = i))"

lemma has_quorum_in:
  assumes "has_quorum t h r (Some vid) s = Inr True" "set (message_log s) \<subseteq> D"
  shows "quorum_in (ncfg s) D t h r vid"
proof -
  let ?xs = "voters (message_log s) t h r (Some vid)"
  obtain p where p: "sumE (power_of (ncfg s)) ?xs = Inr p" "tm_quorum (ncfg s) \<le> p"
    using assms(1) by (auto simp: has_quorum_def voting_power_of_def bindE_eq_Inr)
  have "\<forall>x \<in> set ?xs. projr (power_of (ncfg s) x) = weight (ncfg s) x"
    using p(1) unfolding sumE_Inr weight_def by (metis sum.sel(2) sum.simps(6))
  then have "p = sum_list (map (weight (ncfg s)) ?xs)" using p(1) unfolding sumE_Inr by (metis (mono_tags, lifting) map_cong)
  moreover have "distinct ?xs" by (simp add: voters_def)
  ultimately have "p = sum (weight (ncfg s)) (set ?xs)" by (simp add: sum_list_distinct_conv_sum_set)
  with p(2) show ?thesis
    unfolding quorum_in_def using assms(2) by (intro exI[of _ "set ?xs"]) (auto simp: voters_def)
qed

record tm_abs =
  ah :: int
  ar :: int
  ast :: int
  alv :: "string option"
  alr :: int
  aV :: "(tm_type \<times> int \<times> int \<times> string option) set"
  ad :: "int \<rightharpoonup> string option"

text \<open>
  One vote per step; a vote for a value is justified by the lock or by a quorum of a round at least as recent;
  a lock and a decision need a quorum.
\<close>

inductive tm_spec :: "tm_config \<Rightarrow> tm_msg set \<Rightarrow> tm_abs \<Rightarrow> tm_abs \<Rightarrow> bool" for c D where
  Prevote_nil: "ast a = STEP_PROPOSE \<Longrightarrow>
    tm_spec c D a (a\<lparr>ast := STEP_PREVOTE, aV := insert (PREVOTE, ah a, ar a, None) (aV a)\<rparr>)"
| Prevote: "ast a = STEP_PROPOSE \<Longrightarrow> valid v \<Longrightarrow>
    alr a = -1 \<or> alv a = v \<or> (\<exists>vr. alr a \<le> vr \<and> vr < ar a \<and> quorum_in c D PREVOTE (ah a) vr (value_id v)) \<Longrightarrow>
    tm_spec c D a (a\<lparr>ast := STEP_PREVOTE, aV := insert (PREVOTE, ah a, ar a, value_id v) (aV a)\<rparr>)"
| Precommit_nil: "ast a = STEP_PREVOTE \<Longrightarrow>
    tm_spec c D a (a\<lparr>ast := STEP_PRECOMMIT, aV := insert (PRECOMMIT, ah a, ar a, None) (aV a)\<rparr>)"
| Lock: "ast a = STEP_PREVOTE \<Longrightarrow> valid v \<Longrightarrow> quorum_in c D PREVOTE (ah a) (ar a) (value_id v) \<Longrightarrow>
    tm_spec c D a (a\<lparr>ast := STEP_PRECOMMIT, alv := v, alr := ar a,
      aV := insert (PRECOMMIT, ah a, ar a, value_id v) (aV a)\<rparr>)"
| Next_round: "ar a < r \<Longrightarrow> tm_spec c D a (a\<lparr>ar := r, ast := STEP_PROPOSE\<rparr>)"
| Decide: "ad a (ah a) = None \<Longrightarrow> valid v \<Longrightarrow> quorum_in c D PRECOMMIT (ah a) r (value_id v) \<Longrightarrow>
    tm_spec c D a (a\<lparr>ad := (ad a)(ah a \<mapsto> v), ah := ah a + 1\<rparr>)"
| Decide_reset: "ad a (ah a) = None \<Longrightarrow> valid v \<Longrightarrow> quorum_in c D PRECOMMIT (ah a) r (value_id v) \<Longrightarrow>
    tm_spec c D a (a\<lparr>ad := (ad a)(ah a \<mapsto> v), ah := ah a + 1, ar := 0, ast := STEP_PROPOSE, alv := None, alr := -1\<rparr>)"

section \<open>Invariant of the specification\<close>

definition votes_in_range :: "tm_abs \<Rightarrow> bool" where
  "votes_in_range a \<longleftrightarrow> 0 \<le> ar a \<and> (\<forall>t h r w. (t, h, r, w) \<in> aV a \<longrightarrow> 0 \<le> r \<and> (h < ah a \<or> h = ah a \<and> r \<le> ar a) \<and>
     (h = ah a \<and> r = ar a \<longrightarrow> (if t = PREVOTE then STEP_PREVOTE else STEP_PRECOMMIT) \<le> ast a))"

definition votes_unique :: "tm_abs \<Rightarrow> bool" where
  "votes_unique a \<longleftrightarrow> (\<forall>t h r v w. (t, h, r, v) \<in> aV a \<and> (t, h, r, w) \<in> aV a \<longrightarrow> v = w)"

definition precommits_justified :: "tm_config \<Rightarrow> tm_msg set \<Rightarrow> tm_abs \<Rightarrow> bool" where
  "precommits_justified c D a \<longleftrightarrow> (\<forall>h r w. (PRECOMMIT, h, r, Some w) \<in> aV a \<longrightarrow> quorum_in c D PREVOTE h r (Some w))"

definition lock_recent :: "tm_config \<Rightarrow> tm_msg set \<Rightarrow> tm_abs \<Rightarrow> bool" where
  "lock_recent c D a \<longleftrightarrow> (\<forall>r w. (PRECOMMIT, ah a, r, Some w) \<in> aV a \<longrightarrow> r \<le> alr a \<and> alr a \<le> ar a \<and>
     (ast a = STEP_PROPOSE \<longrightarrow> alr a < ar a) \<and> quorum_in c D PREVOTE (ah a) (alr a) (value_id (alv a)))"

definition prevotes_justified :: "tm_config \<Rightarrow> tm_msg set \<Rightarrow> tm_abs \<Rightarrow> bool" where
  "prevotes_justified c D a \<longleftrightarrow> (\<forall>h r0 r v w. (PRECOMMIT, h, r0, Some v) \<in> aV a \<and> (PREVOTE, h, r, Some w) \<in> aV a \<and> r0 < r \<longrightarrow>
     (\<exists>q. r0 \<le> q \<and> q < r \<and> quorum_in c D PREVOTE h q (Some w)))"

definition decisions_justified :: "tm_config \<Rightarrow> tm_msg set \<Rightarrow> tm_abs \<Rightarrow> bool" where
  "decisions_justified c D a \<longleftrightarrow> (\<forall>h v. ad a h = Some v \<longrightarrow> h < ah a \<and> valid v \<and> (\<exists>r. quorum_in c D PRECOMMIT h r (value_id v)))"

definition spec_inv :: "tm_config \<Rightarrow> tm_msg set \<Rightarrow> tm_abs \<Rightarrow> bool" where
  "spec_inv c D a \<longleftrightarrow> votes_in_range a \<and> votes_unique a \<and> precommits_justified c D a \<and> lock_recent c D a \<and>
     prevotes_justified c D a \<and> decisions_justified c D a"

lemma value_id_valid: "valid v \<Longrightarrow> \<exists>w. value_id v = Some w"
  by (auto simp: valid_def value_id_def split: option.splits)


lemma votes_in_range_step: "tm_spec c D a b \<Longrightarrow> votes_in_range a \<Longrightarrow> votes_in_range b"
  by (induction rule: tm_spec.induct) (force simp: votes_in_range_def)+

lemma no_vote_yet:
  assumes "votes_in_range a"
  shows "ast a = STEP_PROPOSE \<Longrightarrow> (PREVOTE, ah a, ar a, w) \<notin> aV a" "ast a < STEP_PRECOMMIT \<Longrightarrow> (PRECOMMIT, ah a, ar a, w) \<notin> aV a"
  using assms unfolding votes_in_range_def by (fastforce, fastforce)

lemma votes_unique_step: "tm_spec c D a b \<Longrightarrow> votes_in_range a \<Longrightarrow> votes_unique a \<Longrightarrow> votes_unique b"
proof (induction rule: tm_spec.induct)
  case (Prevote_nil a)
  then show ?case using no_vote_yet(1)[OF Prevote_nil(2,1)] by (auto simp: votes_unique_def)
next
  case (Prevote a v)
  then show ?case using no_vote_yet(1)[OF Prevote(4,1)] by (auto simp: votes_unique_def)
next
  case (Precommit_nil a)
  then show ?case using no_vote_yet(2)[of a] by (auto simp: votes_unique_def)
next
  case (Lock a v)
  then show ?case using no_vote_yet(2)[of a] by (auto simp: votes_unique_def)
qed (simp_all add: votes_unique_def)

lemma precommits_justified_step: "tm_spec c D a b \<Longrightarrow> precommits_justified c D a \<Longrightarrow> precommits_justified c D b"
  by (induction rule: tm_spec.induct) (auto simp: precommits_justified_def)

lemma lock_recent_step: "tm_spec c D a b \<Longrightarrow> votes_in_range a \<Longrightarrow> lock_recent c D a \<Longrightarrow> lock_recent c D b"
proof (induction rule: tm_spec.induct)
  case (Lock a v)
  then show ?case by (auto simp: lock_recent_def votes_in_range_def)
next
  case (Next_round a r)
  then show ?case by (fastforce simp: lock_recent_def)
next
  case (Decide a v r)
  then show ?case by (fastforce simp: lock_recent_def votes_in_range_def)
next
  case (Decide_reset a v r)
  then show ?case by (fastforce simp: lock_recent_def votes_in_range_def)
qed (auto simp: lock_recent_def)

lemma prevotes_justified_step:
  "tm_spec c D a b \<Longrightarrow> votes_in_range a \<Longrightarrow> lock_recent c D a \<Longrightarrow> prevotes_justified c D a \<Longrightarrow> prevotes_justified c D b"
proof (induction rule: tm_spec.induct)
  case (Prevote a v)
  obtain w where w: "value_id v = Some w" using value_id_valid Prevote.hyps(2) by blast
  have new: "\<exists>q. r0 \<le> q \<and> q < ar a \<and> quorum_in c D PREVOTE (ah a) q (Some w)"
    if "(PRECOMMIT, ah a, r0, Some u) \<in> aV a" for r0 u
  proof -
    have l: "r0 \<le> alr a" "alr a < ar a" "quorum_in c D PREVOTE (ah a) (alr a) (value_id (alv a))" "0 \<le> r0"
      using Prevote that unfolding lock_recent_def votes_in_range_def by blast+
    then show ?thesis using Prevote.hyps(3) w by (metis int_one_le_iff_zero_less le_minus_one_simps(3) order_trans)
  qed
  show ?case using Prevote.prems(3) new w unfolding prevotes_justified_def by auto
next
  case (Lock a v)
  then show ?case by (fastforce simp: prevotes_justified_def votes_in_range_def)
qed (auto simp: prevotes_justified_def)

lemma decisions_justified_step: "tm_spec c D a b \<Longrightarrow> decisions_justified c D a \<Longrightarrow> decisions_justified c D b"
  by (induction rule: tm_spec.induct) (force simp: decisions_justified_def)+

lemma spec_inv_step: "tm_spec c D a b \<Longrightarrow> spec_inv c D a \<Longrightarrow> spec_inv c D b"
  unfolding spec_inv_def
  by (auto intro: votes_in_range_step votes_unique_step precommits_justified_step lock_recent_step prevotes_justified_step
      decisions_justified_step)

lemma spec_inv_steps: "(tm_spec c D)\<^sup>*\<^sup>* a b \<Longrightarrow> spec_inv c D a \<Longrightarrow> spec_inv c D b"
  by (induction rule: rtranclp_induct) (auto intro: spec_inv_step)

section \<open>Refinement\<close>

definition votes_cast :: "tm_node \<Rightarrow> (tm_type \<times> int \<times> int \<times> string option) set" where
  "votes_cast s = {(mt m, mh m, mr m, mvid m) |m. To_all m \<in> set (tm_out s) \<and> mt m \<noteq> PROPOSAL}"

definition abs_node :: "tm_node \<Rightarrow> tm_abs" where
  "abs_node s = \<lparr>ah = nh s, ar = nround s, ast = nstep s, alv = locked_value s, alr = locked_round s,
     aV = votes_cast s, ad = tm_decisions s\<rparr>"

definition node_ok :: "tm_msg set \<Rightarrow> tm_node \<Rightarrow> bool" where
  "node_ok D s \<longleftrightarrow> \<not> is_byz s \<and> set (message_log s) \<subseteq> D"

definition tm_next :: "tm_msg set \<Rightarrow> tm_node \<Rightarrow> tm_node \<Rightarrow> bool" where
  "tm_next D s s' \<longleftrightarrow> (node_ok D s \<longrightarrow>
     node_ok D s' \<and> ncfg s' = ncfg s \<and> (tm_spec (ncfg s) D)\<^sup>*\<^sup>* (abs_node s) (abs_node s'))"

lemma tm_next_refl [simp]: "tm_next D s s"
  by (simp add: tm_next_def)

lemma tm_next_trans: "tm_next D s t \<Longrightarrow> tm_next D t u \<Longrightarrow> tm_next D s u"
  unfolding tm_next_def by (metis rtranclp_trans)

lemma tm_nextI:
  assumes "\<And>_ :: unit. node_ok D s \<Longrightarrow> tm_spec (ncfg s) D (abs_node s) (abs_node s')" "is_byz s' = is_byz s" "ncfg s' = ncfg s"
    "set (message_log s') \<subseteq> set (message_log s)"
  shows "tm_next D s s'"
  using assms unfolding tm_next_def node_ok_def by blast

lemma tm_next_same:
  assumes "abs_node s' = abs_node s" "is_byz s' = is_byz s" "ncfg s' = ncfg s" "message_log s' = message_log s"
  shows "tm_next D s s'"
  using assms by (simp add: tm_next_def node_ok_def)

lemma votes_cast_emit [simp]:
  "votes_cast (tm_emit (To_all m) s) =
    (if mt m = PROPOSAL then votes_cast s else insert (mt m, mh m, mr m, mvid m) (votes_cast s))"
  by (auto simp: votes_cast_def tm_emit_def)

lemma votes_cast_out: "tm_out s' = tm_out s \<Longrightarrow> votes_cast s' = votes_cast s"
  by (simp add: votes_cast_def)

lemma emit_sel [simp]:
  "nh (tm_emit a s) = nh s" "nround (tm_emit a s) = nround s" "nstep (tm_emit a s) = nstep s"
  "locked_value (tm_emit a s) = locked_value s" "locked_round (tm_emit a s) = locked_round s"
  "tm_decisions (tm_emit a s) = tm_decisions s" "is_byz (tm_emit a s) = is_byz s" "ncfg (tm_emit a s) = ncfg s"
  "message_log (tm_emit a s) = message_log s"
  by (simp_all add: tm_emit_def)

lemma mk_sel [simp]:
  "mt (mk t v vid vr s) = t" "mh (mk t v vid vr s) = nh s" "mr (mk t v vid vr s) = nround s" "mvid (mk t v vid vr s) = vid"
  by (simp_all add: mk_def)

lemma correct_send:
  assumes "\<not> is_byz s"
  shows "send_prevote env vid s = tm_emit (To_all (mk PREVOTE None vid (-1) s)) s"
    "send_precommit env vid s = tm_emit (To_all (mk PRECOMMIT None vid (-1) s)) s"
    "tm_send_proposal env v vr s = tm_emit (To_all (mk PROPOSAL v (value_id v) vr s)) s"
  using assms by (simp_all add: send_prevote_def send_precommit_def tm_send_proposal_def tm_broadcast_def)

lemma votes_cast_updates [simp]:
  "votes_cast (s\<lparr>nstep := x1\<rparr>) = votes_cast s" "votes_cast (s\<lparr>locked_value := x2\<rparr>) = votes_cast s"
  "votes_cast (s\<lparr>locked_round := x3\<rparr>) = votes_cast s" "votes_cast (s\<lparr>valid_value := x4\<rparr>) = votes_cast s"
  "votes_cast (s\<lparr>valid_round := x5\<rparr>) = votes_cast s" "votes_cast (s\<lparr>fired_lock := x6\<rparr>) = votes_cast s"
  "votes_cast (s\<lparr>nround := x7\<rparr>) = votes_cast s" "votes_cast (s\<lparr>value_counter := x8\<rparr>) = votes_cast s"
  "votes_cast (s\<lparr>tm_decisions := x9\<rparr>) = votes_cast s" "votes_cast (s\<lparr>nh := x10\<rparr>) = votes_cast s"
  "votes_cast (s\<lparr>node_done := x11\<rparr>) = votes_cast s" "votes_cast (s\<lparr>ticks := x12\<rparr>) = votes_cast s"
  "votes_cast (s\<lparr>timers := x13\<rparr>) = votes_cast s" "votes_cast (s\<lparr>message_log := x14\<rparr>) = votes_cast s"
  "votes_cast (s\<lparr>fired_prevote_timer := x15\<rparr>) = votes_cast s" "votes_cast (s\<lparr>fired_precommit_timer := x16\<rparr>) = votes_cast s"
  by (simp_all add: votes_cast_def)

lemma schedule_abs [simp]:
  "abs_node (schedule_timeout env dl k h r s) = abs_node s" "is_byz (schedule_timeout env dl k h r s) = is_byz s"
  "ncfg (schedule_timeout env dl k h r s) = ncfg s" "message_log (schedule_timeout env dl k h r s) = message_log s"
  by (simp_all add: schedule_timeout_def abs_node_def)

lemma start_round_abs:
  assumes "start_round env r s = Inr s'" "\<not> is_byz s"
  shows "abs_node s' = (abs_node s)\<lparr>ar := r, ast := STEP_PROPOSE\<rparr>" "is_byz s' = is_byz s" "ncfg s' = ncfg s"
    "message_log s' = message_log s"
proof -
  obtain p where p: "s' = (let s1 = s\<lparr>nround := r, nstep := STEP_PROPOSE\<rparr> in
       if p = nid s then
         let (v, s2) = (case valid_value s1 of
             Some x \<Rightarrow> (Some x, s1)
           | None \<Rightarrow> (let (x, s2) = get_value s1 in (Some x, s2)))
         in tm_send_proposal env v (valid_round s2) s2
       else schedule_timeout env (timeout_propose (ncfg s) r) Propose_timeout (nh s) r s1)"
    using assms(1) by (auto simp: start_round_def bindE_eq_Inr Let_def)
  show "abs_node s' = (abs_node s)\<lparr>ar := r, ast := STEP_PROPOSE\<rparr>" "is_byz s' = is_byz s" "ncfg s' = ncfg s"
      "message_log s' = message_log s"
    unfolding p using assms(2)
    by (simp_all add: Let_def correct_send get_value_def split: option.splits) (simp_all add: abs_node_def)
qed

lemma next_start_round:
  assumes "start_round env r s = Inr s'" "nround s < r"
  shows "tm_next D s s'"
proof (cases "is_byz s")
  case False
  note S = start_round_abs[OF assms(1) False]
  have "tm_spec (ncfg s) D (abs_node s) (abs_node s')"
    unfolding S(1) by (rule Next_round) (simp add: abs_node_def assms(2))
  with S show ?thesis by (intro tm_nextI) auto
qed (simp add: tm_next_def node_ok_def)

text \<open>Votes.\<close>

lemma next_prevote_nil: "nstep s = STEP_PROPOSE \<Longrightarrow> tm_next D s ((send_prevote env None s)\<lparr>nstep := STEP_PREVOTE\<rparr>)"
  using Prevote_nil[of "abs_node s" "ncfg s" D]
  by (cases "is_byz s") (auto simp: correct_send abs_node_def tm_next_def node_ok_def)

lemma next_prevote:
  assumes "nstep s = STEP_PROPOSE" "valid v"
    "node_ok D s \<Longrightarrow> locked_round s = -1 \<or> locked_value s = v \<or>
      (\<exists>vr. locked_round s \<le> vr \<and> vr < nround s \<and> quorum_in (ncfg s) D PREVOTE (nh s) vr (value_id v))"
  shows "tm_next D s ((send_prevote env (value_id v) s)\<lparr>nstep := STEP_PREVOTE\<rparr>)"
proof (cases "node_ok D s")
  case True
  have "tm_spec (ncfg s) D (abs_node s) ((abs_node s)\<lparr>ast := STEP_PREVOTE,
      aV := insert (PREVOTE, ah (abs_node s), ar (abs_node s), value_id v) (aV (abs_node s))\<rparr>)"
    by (rule Prevote) (use assms True in \<open>auto simp: abs_node_def\<close>)
  with True show ?thesis by (auto simp: correct_send abs_node_def tm_next_def node_ok_def)
qed (simp add: tm_next_def)

lemma next_precommit_nil: "nstep s = STEP_PREVOTE \<Longrightarrow> tm_next D s ((send_precommit env None s)\<lparr>nstep := STEP_PRECOMMIT\<rparr>)"
  using Precommit_nil[of "abs_node s" "ncfg s" D]
  by (cases "is_byz s") (auto simp: correct_send abs_node_def tm_next_def node_ok_def)

named_theorems tm_refines \<open>operations of a correct node that refine the specification\<close>

lemma next_timeouts [tm_refines]:
  "on_timeout_propose env h r s = Inr (b, s') \<Longrightarrow> tm_next D s s'"
  "on_timeout_prevote env h r s = Inr (b, s') \<Longrightarrow> tm_next D s s'"
  "on_timeout_precommit env h r s = Inr (b, s') \<Longrightarrow> tm_next D s s'"
  by (auto simp: on_timeout_propose_def on_timeout_prevote_def on_timeout_precommit_def bindE_eq_Inr
      split: if_splits intro: next_prevote_nil next_precommit_nil next_start_round)

lemma next_fire [tm_refines]: "fire_timeout env t s = Inr (b, s') \<Longrightarrow> tm_next D s s'"
  by (cases "(env, t, s)" rule: fire_timeout.cases) (auto intro: tm_refines)

lemma next_proposal_initial [tm_refines]:
  assumes "rule_proposal_initial env s = Inr (b, s')"
  shows "tm_next D s s'"
  using assms
  by (auto simp: rule_proposal_initial_def bindE_eq_Inr split: if_splits option.splits intro!: next_prevote_nil next_prevote)

lemma next_proposal_with_vr [tm_refines]:
  assumes "rule_proposal_with_vr env s = Inr (b, s')"
  shows "tm_next D s s'"
proof -
  consider "s' = s" | m :: tm_msg where "nstep s = STEP_PROPOSE" "mvr m < nround s"
      "has_quorum PREVOTE (nh s) (mvr m) (Some (value_id (mv m))) s = Inr True"
      "s' = (if valid (mv m) \<and> (locked_round s \<le> mvr m \<or> locked_value s = mv m)
               then send_prevote env (value_id (mv m)) s else send_prevote env None s)\<lparr>nstep := STEP_PREVOTE\<rparr>"
  proof (cases "nstep s = STEP_PROPOSE \<and> s' \<noteq> s")
    case True
    then obtain m where "find_proposal (nh s) (nround s) s = Inr (Some m)"
      using assms by (auto simp: rule_proposal_with_vr_def bindE_eq_Inr split: option.splits)
    with True assms show ?thesis
      by (intro that(2)[of m]) (auto simp: rule_proposal_with_vr_def bindE_eq_Inr split: if_splits)
  qed (use assms that(1) in \<open>auto simp: rule_proposal_with_vr_def\<close>)
  then show ?thesis
  proof cases
    case (2 m)
    have "tm_next D s ((send_prevote env (value_id (mv m)) s)\<lparr>nstep := STEP_PREVOTE\<rparr>)"
      if "valid (mv m)" "locked_round s \<le> mvr m \<or> locked_value s = mv m"
      using 2 that has_quorum_in by (intro next_prevote) (auto simp: node_ok_def)
    then show ?thesis using 2 next_prevote_nil by auto
  qed simp
qed

lemma next_timer_rules [tm_refines]:
  "rule_prevote_timer env s = Inr (b, s') \<Longrightarrow> tm_next D s s'"
  "rule_precommit_timer env s = Inr (b, s') \<Longrightarrow> tm_next D s s'"
  by (auto simp: rule_prevote_timer_def rule_precommit_timer_def bindE_eq_Inr split: if_splits
      intro!: tm_next_same) (simp_all add: abs_node_def)

lemma next_lock [tm_refines]:
  assumes "rule_lock_precommit env s = Inr (b, s')"
  shows "tm_next D s s'"
proof (cases "node_ok D s \<and> s' \<noteq> s")
  case True
  then obtain m where p: "find_proposal (nh s) (nround s) s = Inr (Some m)"
    using assms by (auto simp: rule_lock_precommit_def bindE_eq_Inr split: if_splits option.splits)
  have m: "valid (mv m)" "STEP_PREVOTE \<le> nstep s"
      "has_quorum PREVOTE (nh s) (nround s) (Some (value_id (mv m))) s = Inr True"
      "s' = (let s1 = s\<lparr>fired_lock := insert (nh s, nround s) (fired_lock s)\<rparr>;
                   s2 = (if nstep s1 = STEP_PREVOTE
                     then (send_precommit env (value_id (mv m)) (s1\<lparr>locked_value := mv m, locked_round := nround s1\<rparr>))
                       \<lparr>nstep := STEP_PRECOMMIT\<rparr>
                     else s1) in s2\<lparr>valid_value := mv m, valid_round := nround s2\<rparr>)"
    using assms p True by (auto simp: rule_lock_precommit_def bindE_eq_Inr Let_def split: if_splits)
  have q: "quorum_in (ncfg s) D PREVOTE (nh s) (nround s) (value_id (mv m))"
    using has_quorum_in[OF m(3)] True by (simp add: node_ok_def)
  show ?thesis
  proof (cases "nstep s = STEP_PREVOTE")
    case st: True
    have "tm_spec (ncfg s) D (abs_node s) ((abs_node s)\<lparr>ast := STEP_PRECOMMIT, alv := mv m, alr := ar (abs_node s),
        aV := insert (PRECOMMIT, ah (abs_node s), ar (abs_node s), value_id (mv m)) (aV (abs_node s))\<rparr>)"
      by (rule Lock) (use st m(1) q in \<open>simp_all add: abs_node_def\<close>)
    then show ?thesis unfolding m(4) using st True
      by (auto simp: Let_def correct_send abs_node_def tm_next_def node_ok_def)
  next
    case False
    then show ?thesis unfolding m(4) by (intro tm_next_same) (simp_all add: abs_node_def Let_def)
  qed
qed (auto simp: tm_next_def)

lemma next_prevote_nil_rule [tm_refines]: "rule_prevote_nil env s = Inr (b, s') \<Longrightarrow> tm_next D s s'"
  by (auto simp: rule_prevote_nil_def bindE_eq_Inr split: if_splits intro: next_precommit_nil)

lemma next_decide:
  assumes "decide env v s = Inr (b, s')" "tm_decisions s (nh s) = None" "valid v"
    "node_ok D s \<Longrightarrow> quorum_in (ncfg s) D PRECOMMIT (nh s) r (value_id v)"
  shows "tm_next D s s'"
proof (cases "node_ok D s")
  case True
  let ?s1 = "s\<lparr>tm_decisions := (tm_decisions s)(nh s \<mapsto> v), nh := nh s + 1\<rparr>"
  have q: "ad (abs_node s) (ah (abs_node s)) = None" "quorum_in (ncfg s) D PRECOMMIT (ah (abs_node s)) r (value_id v)"
    using assms True by (simp_all add: abs_node_def)
  show ?thesis
  proof (cases "nh s + 1 < num_heights (ncfg s)")
    case False
    then have "s' = ?s1\<lparr>node_done := True\<rparr>" using assms(1) by (simp add: decide_def Let_def)
    then show ?thesis using Decide[OF q(1) assms(3) q(2)] True by (auto simp: tm_next_def node_ok_def abs_node_def)
  next
    case more: True
    then have "start_round env 0 (reset_for_new_height ?s1) = Inr s'"
      using assms(1) by (auto simp: decide_def Let_def bindE_eq_Inr)
    note S = start_round_abs[OF this]
    have "abs_node s' = (abs_node s)\<lparr>ad := (ad (abs_node s))(ah (abs_node s) \<mapsto> v), ah := ah (abs_node s) + 1, ar := 0,
        ast := STEP_PROPOSE, alv := None, alr := -1\<rparr>" "is_byz s' = is_byz s" "ncfg s' = ncfg s"
        "set (message_log s') \<subseteq> set (message_log s)"
      using S True by (simp_all add: node_ok_def reset_for_new_height_def abs_node_def)
    with Decide_reset[OF q(1) assms(3) q(2)] show ?thesis by (intro tm_nextI) auto
  qed
qed (simp add: tm_next_def)

lemma next_decide_loop: "decide_loop env cs s = Inr (b, s') \<Longrightarrow> tm_decisions s (nh s) = None \<Longrightarrow> tm_next D s s'"
proof (induction env cs s rule: decide_loop.induct)
  case (2 env r vid cs s)
  then obtain q where q: "has_quorum PRECOMMIT (nh s) r (Some (Some vid)) s = Inr q" by (auto simp: bindE_eq_Inr)
  show ?case
  proof (cases q)
    case True
    then obtain p where p: "find_proposal_for_id (nh s) r (Some vid) s = Inr p" using 2 q by (auto simp: bindE_eq_Inr)
    show ?thesis
    proof (cases "\<exists>m. p = Some m \<and> valid (mv m)")
      case t: True
      then obtain m where m: "p = Some m" "valid (mv m)" by blast
      then have "value_id (mv m) = Some vid" using p by (auto simp: find_proposal_for_id_def bindE_eq_Inr find_Some_iff)
      then have "node_ok D s \<Longrightarrow> quorum_in (ncfg s) D PRECOMMIT (nh s) r (value_id (mv m))"
        using has_quorum_in[of PRECOMMIT "nh s" r "Some vid" s D] q True by (simp add: node_ok_def)
      moreover have "decide env (mv m) s = Inr (b, s')" using 2(4) q True p m by simp
      ultimately show ?thesis using next_decide 2(5) m(2) by blast
    next
      case False
      then have "decide_loop env cs s = Inr (b, s')" using 2(4) q True p by (auto split: option.splits)
      then show ?thesis using 2 q True p False by (cases p) auto
    qed
  next
    case False
    then show ?thesis using 2 q by auto
  qed
qed simp

lemma next_decide_rule [tm_refines]: "rule_decide env s = Inr (b, s') \<Longrightarrow> tm_next D s s'"
  by (auto simp: rule_decide_def split: if_splits intro: next_decide_loop)

lemma skip_round_higher: "skip_round s = Inr (Some r) \<Longrightarrow> nround s < r"
proof -
  assume a: "skip_round s = Inr (Some r)"
  have "\<forall>x. Some r = Some x \<longrightarrow> nround s < x"
    by (rule foldE_partial[OF a[unfolded skip_round_def Let_def], where P = "\<lambda>y. \<forall>x. y = Some x \<longrightarrow> nround s < x"])
      (auto simp: bindE_eq_Inr split: if_splits)
  then show ?thesis by simp
qed

lemma next_round_skip [tm_refines]: "rule_round_skip env s = Inr (b, s') \<Longrightarrow> tm_next D s s'"
  by (auto simp: rule_round_skip_def bindE_eq_Inr split: option.splits intro: next_start_round dest: skip_round_higher)

lemma next_all_changes:
  assumes "all_changes f xs s = Inr (b, s')" "\<And>x s b s'. x \<in> set xs \<Longrightarrow> f x s = Inr (b, s') \<Longrightarrow> tm_next D s s'"
  shows "tm_next D s s'"
proof -
  have "tm_next D s (snd (b, s'))"
    by (rule foldE_partial[OF assms(1)[unfolded all_changes_def], where P = "\<lambda>x. tm_next D s (snd x)"])
      (auto simp: bindE_eq_Inr split: prod.splits dest!: assms(2) elim: tm_next_trans)
  then show ?thesis by simp
qed

lemma next_try_rules: "try_rules env s = Inr (b, s') \<Longrightarrow> tm_next D s s'"
  unfolding try_rules_def by (erule next_all_changes) (auto intro: tm_refines)

lemma next_rule_loop: "rule_loop env k s = Inr s' \<Longrightarrow> tm_next D s s'"
proof (induction env k s rule: rule_loop.induct)
  case (2 env k s)
  then obtain b t where t: "try_rules env s = Inr (b, t)" by (auto simp: bindE_eq_Inr)
  with 2 show ?case using next_try_rules[OF t, of D] by (cases b) (auto intro: tm_next_trans)
qed simp

lemma next_check_timeouts: "check_timeouts env s = Inr (b, s') \<Longrightarrow> tm_next D s s'"
proof -
  assume a: "check_timeouts env s = Inr (b, s')"
  let ?due = "filter (\<lambda>t. fst t \<le> clk env (ticks s)) (timers s)"
  let ?s1 = "s\<lparr>ticks := ticks s + 1\<rparr>" and ?s2 = "s\<lparr>ticks := ticks s + 1, timers := filter (\<lambda>t. clk env (ticks s) < fst t) (timers s)\<rparr>"
  have same: "tm_next D s ?s1" "tm_next D s ?s2" by (rule tm_next_same; simp add: abs_node_def)+
  show ?thesis
  proof (cases "?due = []")
    case True
    then show ?thesis using a same(1) by (simp add: check_timeouts_def Let_def)
  next
    case False
    then have "all_changes (fire_timeout env) ?due ?s2 = Inr (b, s')" using a by (simp add: check_timeouts_def Let_def)
    then have "tm_next D ?s2 s'" by (rule next_all_changes) (rule next_fire)
    with same(2) show ?thesis by (rule tm_next_trans)
  qed
qed

lemma next_poll:
  assumes "tm_step env (Poll msgs) s = Inr s'" "set msgs \<subseteq> D"
  shows "tm_next D s s'"
proof -
  let ?s1 = "s\<lparr>message_log := message_log s @ msgs\<rparr>"
  have s1: "tm_next D s ?s1" using assms(2) by (auto simp: tm_next_def node_ok_def abs_node_def)
  show ?thesis
  proof (cases "node_done s")
    case True
    then show ?thesis using assms(1) s1 by simp
  next
    case False
    then obtain b t where t: "check_timeouts env ?s1 = Inr (b, t)" "(if msgs \<noteq> [] \<or> b then rule_loop env 1001 t else Inr t) = Inr s'"
      using assms(1) by (auto simp: bindE_eq_Inr simp del: rule_loop.simps)
    have "tm_next D t s'"
      using t(2) next_rule_loop[of env 1001 t s'] by (auto split: if_splits simp del: rule_loop.simps)
    with s1 next_check_timeouts[OF t(1), of D] show ?thesis by (metis tm_next_trans)
  qed
qed

definition tm_run :: "tm_env \<Rightarrow> tm_config \<Rightarrow> int \<Rightarrow> tm_msg list list \<Rightarrow> py_error + tm_node" where
  "tm_run env c i mss = foldE (tm_step env) (Run_start # map Poll mss) (init_node c False i)"

lemma run_refines:
  assumes "tm_run env c i mss = Inr s" "set (concat mss) \<subseteq> D"
  shows "(tm_spec c D)\<^sup>*\<^sup>* (abs_node (init_node c False i)) (abs_node s)" "ncfg s = c"
proof -
  obtain s0 where s0: "start_round env 0 (init_node c False i) = Inr s0" "foldE (tm_step env) (map Poll mss) s0 = Inr s"
    using assms(1) by (auto simp: tm_run_def bindE_eq_Inr)
  note S = start_round_abs[OF s0(1)]
  have "tm_next D s0 s"
  proof (rule foldE_partial[OF s0(2), where P = "tm_next D s0"])
    fix e t t'
    assume "e \<in> set (map Poll mss)" and t: "tm_next D s0 t" "tm_step env e t = Inr t'"
    then obtain msgs where "e = Poll msgs" "set msgs \<subseteq> D" using assms(2) by auto
    then show "tm_next D s0 t'" using next_poll t tm_next_trans by blast
  qed simp
  moreover have "abs_node s0 = abs_node (init_node c False i)" using S by (simp add: init_node_def abs_node_def)
  ultimately show "(tm_spec c D)\<^sup>*\<^sup>* (abs_node (init_node c False i)) (abs_node s)" "ncfg s = c"
    using S by (auto simp: tm_next_def node_ok_def init_node_def)
qed

lemma tm_run_inv:
  assumes "tm_run env c i mss = Inr s" "set (concat mss) \<subseteq> D"
  shows "spec_inv c D (abs_node s)"
  by (rule spec_inv_steps[OF run_refines(1)[OF assms]])
    (simp add: spec_inv_def votes_in_range_def votes_unique_def precommits_justified_def lock_recent_def
      prevotes_justified_def decisions_justified_def abs_node_def init_node_def votes_cast_def)

section \<open>Agreement\<close>

text \<open>
  The correct nodes \<open>C\<close> of a system, whose faulty voting power is at most \<open>f\<close>; every message a correct node received comes from
  a node of the system, and from a correct one only if that node sent it to all.
\<close>

definition tm_system :: "tm_config \<Rightarrow> int set \<Rightarrow> tm_msg set \<Rightarrow> (int \<Rightarrow> tm_node) \<Rightarrow> bool" where
  "tm_system c C D reps \<longleftrightarrow> validate c = Inr () \<and> (\<exists>T. total_power c = Inr T \<and> T \<le> 3 * tm_f c + 1) \<and>
     C \<subseteq> {0..<tm_n c} \<and> sum (weight c) ({0..<tm_n c} - C) \<le> tm_f c \<and>
     (\<forall>m \<in> D. 0 \<le> ms m \<and> ms m < tm_n c \<and> (ms m \<in> C \<longrightarrow> To_all m \<in> set (tm_out (reps (ms m))))) \<and>
     (\<forall>i \<in> C. spec_inv c D (abs_node (reps i)))"

lemma sum_weight:
  assumes "validate c = Inr ()" "S \<subseteq> {0..<tm_n c}"
  shows "(\<Sum>i \<in> S. max 0 (weight c i)) = sum (weight c) S"
  using power_of_valid(2)[OF assms(1)] assms(2) by (intro sum.cong) auto

lemma quorums_meet:
  assumes sys: "tm_system c C D reps" and q: "quorum_in c D t h r v" "quorum_in c D t' h' r' v'"
    and t: "t \<noteq> PROPOSAL" "t' \<noteq> PROPOSAL"
  shows "\<exists>i \<in> C. (t, h, r, v) \<in> votes_cast (reps i) \<and> (t', h', r', v') \<in> votes_cast (reps i)"
proof -
  have c: "validate c = Inr ()" and D: "\<And>m. m \<in> D \<Longrightarrow> ms m \<in> {0..<tm_n c} \<and> (ms m \<in> C \<longrightarrow> To_all m \<in> set (tm_out (reps (ms m))))"
    and F: "sum (weight c) ({0..<tm_n c} - C) \<le> tm_f c" using sys by (auto simp: tm_system_def)
  obtain A where A: "tm_quorum c \<le> sum (weight c) A" "\<And>i. i \<in> A \<Longrightarrow> \<exists>m \<in> D. mt m = t \<and> mh m = h \<and> mr m = r \<and> mvid m = v \<and> ms m = i"
    using q(1) unfolding quorum_in_def by blast
  obtain B where B: "tm_quorum c \<le> sum (weight c) B" "\<And>i. i \<in> B \<Longrightarrow> \<exists>m \<in> D. mt m = t' \<and> mh m = h' \<and> mr m = r' \<and> mvid m = v' \<and> ms m = i"
    using q(2) unfolding quorum_in_def by blast
  have sub: "A \<subseteq> {0..<tm_n c}" "B \<subseteq> {0..<tm_n c}" using A(2) B(2) D by blast+
  have T: "sum (weight c) {0..<tm_n c} \<le> 3 * tm_f c + 1" using sys total_power_valid[OF c] by (auto simp: tm_system_def)
  note W = sum_weight[OF c sub(1)] sum_weight[OF c sub(2)] sum_weight[OF c order_refl] sum_weight[OF c Diff_subset[of _ C]]
  have "\<exists>x \<in> A \<inter> B. x \<notin> {0..<tm_n c} - C"
    by (rule tm_members.quorums_share[where f = "tm_f c"])
      (use sub A(1) B(1) T F W in \<open>auto simp: tm_quorum_def\<close>)
  then obtain i where i: "i \<in> A" "i \<in> B" "i \<in> C" using sub by blast
  have cast: "(mt m, mh m, mr m, mvid m) \<in> votes_cast (reps i)" if "m \<in> D" "ms m = i" "mt m \<noteq> PROPOSAL" for m
    using D[OF that(1)] that i(3) unfolding votes_cast_def by auto
  obtain m where m: "m \<in> D" "ms m = i" "mt m = t" "mh m = h" "mr m = r" "mvid m = v" using A(2)[OF i(1)] by blast
  obtain m' where m': "m' \<in> D" "ms m' = i" "mt m' = t'" "mh m' = h'" "mr m' = r'" "mvid m' = v'" using B(2)[OF i(2)] by blast
  show ?thesis using cast[OF m(1,2)] cast[OF m'(1,2)] m m' t i(3) by auto
qed

lemma system_facts:
  assumes "tm_system c C D reps" "i \<in> C"
  shows "(t, h, r, v) \<in> votes_cast (reps i) \<Longrightarrow> (t, h, r, w) \<in> votes_cast (reps i) \<Longrightarrow> v = w"
    "(PRECOMMIT, h, r, Some x) \<in> votes_cast (reps i) \<Longrightarrow> quorum_in c D PREVOTE h r (Some x)"
    "(PRECOMMIT, h, r, Some x) \<in> votes_cast (reps i) \<Longrightarrow> (PREVOTE, h, r', Some y) \<in> votes_cast (reps i) \<Longrightarrow> r < r' \<Longrightarrow>
      \<exists>q. r \<le> q \<and> q < r' \<and> quorum_in c D PREVOTE h q (Some y)"
    "tm_decisions (reps i) h = Some z \<Longrightarrow> valid z \<and> (\<exists>r. quorum_in c D PRECOMMIT h r (value_id z))"
proof -
  have "spec_inv c D (abs_node (reps i))" using assms by (simp add: tm_system_def)
  then show "(t, h, r, v) \<in> votes_cast (reps i) \<Longrightarrow> (t, h, r, w) \<in> votes_cast (reps i) \<Longrightarrow> v = w"
    "(PRECOMMIT, h, r, Some x) \<in> votes_cast (reps i) \<Longrightarrow> quorum_in c D PREVOTE h r (Some x)"
    "(PRECOMMIT, h, r, Some x) \<in> votes_cast (reps i) \<Longrightarrow> (PREVOTE, h, r', Some y) \<in> votes_cast (reps i) \<Longrightarrow> r < r' \<Longrightarrow>
      \<exists>q. r \<le> q \<and> q < r' \<and> quorum_in c D PREVOTE h q (Some y)"
    "tm_decisions (reps i) h = Some z \<Longrightarrow> valid z \<and> (\<exists>r. quorum_in c D PRECOMMIT h r (value_id z))"
    unfolding spec_inv_def votes_unique_def precommits_justified_def prevotes_justified_def decisions_justified_def
    by (simp_all add: abs_node_def)
qed

text \<open>After a quorum of precommits for a value, every quorum of prevotes of that height is for that value.\<close>

lemma later_prevotes:
  assumes sys: "tm_system c C D reps" and pc: "quorum_in c D PRECOMMIT h r (Some x)"
  shows "r \<le> q \<Longrightarrow> quorum_in c D PREVOTE h q (Some y) \<Longrightarrow> y = x"
proof (induction "nat (q - r)" arbitrary: q rule: less_induct)
  case less
  obtain i where i: "i \<in> C" "(PRECOMMIT, h, r, Some x) \<in> votes_cast (reps i)" "(PREVOTE, h, q, Some y) \<in> votes_cast (reps i)"
    using quorums_meet[OF sys pc less.prems(2)] by blast
  show ?case
  proof (cases "q = r")
    case True
    have "quorum_in c D PREVOTE h r (Some x)" using system_facts(2)[OF sys i(1,2)] .
    from quorums_meet[OF sys this less.prems(2)] True obtain j where
      "j \<in> C" "(PREVOTE, h, r, Some x) \<in> votes_cast (reps j)" "(PREVOTE, h, r, Some y) \<in> votes_cast (reps j)" by blast
    then show ?thesis using system_facts(1)[OF sys] by (metis option.inject)
  next
    case False
    then have "r < q" using less.prems(1) by simp
    from system_facts(3)[OF sys i(1,2,3) this] obtain p where p: "r \<le> p" "p < q" "quorum_in c D PREVOTE h p (Some y)" by blast
    moreover have "nat (p - r) < nat (q - r)" using p less.prems(1) by simp
    ultimately show ?thesis using less.hyps by blast
  qed
qed

lemma system_agreement:
  assumes sys: "tm_system c C D reps" and "i \<in> C" "j \<in> C"
    and d: "tm_decisions (reps i) h = Some v" "tm_decisions (reps j) h = Some w"
  shows "value_id v = value_id w"
proof -
  obtain r x where v: "valid v" "quorum_in c D PRECOMMIT h r (Some x)" "value_id v = Some x"
    using system_facts(4)[OF sys assms(2) d(1)] value_id_valid by metis
  obtain q y where w: "valid w" "quorum_in c D PRECOMMIT h q (Some y)" "value_id w = Some y"
    using system_facts(4)[OF sys assms(3) d(2)] value_id_valid by metis
  have prevotes: "quorum_in c D PREVOTE h r' (Some z)" if "quorum_in c D PRECOMMIT h r' (Some z)" for r' z
    using quorums_meet[OF sys that that] system_facts(2)[OF sys] by blast
  have "x = y"
  proof (cases "r \<le> q")
    case True
    from later_prevotes[OF sys v(2) True prevotes[OF w(2)]] show ?thesis by simp
  next
    case False
    with later_prevotes[OF sys w(2) _ prevotes[OF v(2)]] show ?thesis by simp
  qed
  then show ?thesis using v(3) w(3) by simp
qed

end
