(* ===== verification/TM_Network.thy ===== *)
theory TM_Network
  imports TM_Node
begin

text \<open>
  The network of the Tendermint project (\<^verbatim>\<open>network.py\<close>), the simulation that runs the nodes over it (\<^verbatim>\<open>main.py\<close>) and the checks of
  its summary (\<^verbatim>\<open>logger.py\<close>).
\<close>

section \<open>Network\<close>

text \<open>
  An entry of the heap is (time of delivery, number, recipient, message). The numbers are distinct, so \<^verbatim>\<open>heapq\<close> never compares
  messages; the heap is the list of its entries in the order in which \<^verbatim>\<open>heappop\<close> gives them.
\<close>

type_synonym tm_packet = "real \<times> nat \<times> int \<times> tm_msg"

record tm_net =
  net_cfg :: tm_config
  registered :: "int list"
  net_crashed :: "int set"
  heap :: "tm_packet list"
  next_seq :: nat
  start_time :: real
  sent :: nat
  delivered :: nat
  dropped :: nat

definition init_net :: "tm_config \<Rightarrow> tm_net" where
  "init_net c = \<lparr>net_cfg = c, registered = [], net_crashed = set (crashed c), heap = [], next_seq = 0, start_time = 0,
     sent = 0, delivered = 0, dropped = 0\<rparr>"

definition register :: "int \<Rightarrow> tm_net \<Rightarrow> tm_net" where
  "register i net = net\<lparr>registered := (if i \<in> set (registered net) then registered net else registered net @ [i])\<rparr>"

text \<open>What \<^verbatim>\<open>send_to\<close> reads: the clock twice and two random numbers.\<close>

record tm_readings =
  now1 :: real
  uniform01 :: real
  random01 :: real
  now2 :: real

definition conditions :: "tm_readings \<Rightarrow> tm_net \<Rightarrow> real \<times> bool" where
  "conditions e net =
    (let c = net_cfg net; now = now1 e - start_time net;
         uniform = (\<lambda>a b. a + (b - a) * uniform01 e)
     in (if now < gst c then uniform (bad_delay_min c) (bad_delay_max c) else uniform (min_delay c) (max_delay c),
         random01 e < tm_drop_prob c))"

definition packet_key :: "tm_packet \<Rightarrow> real \<times> nat" where
  "packet_key p = (fst p, fst (snd p))"

definition send_to :: "tm_readings \<Rightarrow> int \<Rightarrow> int \<Rightarrow> tm_msg \<Rightarrow> tm_net \<Rightarrow> tm_net" where
  "send_to e sender recipient m net =
    (if sender \<in> net_crashed net then net
     else let (delay, drop) = conditions e net in
       if drop then net\<lparr>dropped := dropped net + 1\<rparr>
       else net\<lparr>sent := sent net + 1,
         heap := insort_key packet_key (now2 e + delay, next_seq net, recipient, m) (heap net),
         next_seq := next_seq net + 1\<rparr>)"

text \<open>The calls of \<^verbatim>\<open>send_to\<close> that \<^verbatim>\<open>broadcast\<close> makes, one for every node.\<close>

fun recipients :: "int list \<Rightarrow> tm_action \<Rightarrow> (int \<times> tm_msg) list" where
  "recipients ids (To_all m) = map (\<lambda>i. (i, m)) ids"
| "recipients ids (To_one i m) = [(i, m)]"

text \<open>One turn of \<^verbatim>\<open>_dispatch_loop\<close>: the message to put into an inbox, if any.\<close>

definition dispatch_one :: "real \<Rightarrow> tm_net \<Rightarrow> (int \<times> tm_msg) option \<times> tm_net" where
  "dispatch_one now net = (case heap net of
     [] \<Rightarrow> (None, net)
   | (deliver_at, sq, rid, m) # rest \<Rightarrow>
       if now < deliver_at then (None, net)
       else let net1 = net\<lparr>heap := rest\<rparr> in
         if rid \<notin> net_crashed net \<and> rid \<in> set (registered net)
         then (Some (rid, m), net1\<lparr>delivered := delivered net1 + 1\<rparr>) else (None, net1))"

section \<open>Simulation\<close>

text \<open>
  The threads of the nodes and of the dispatcher, interleaved. A turn of a node is split where another thread can get in between:
  taking messages from the inbox and working on them (\<open>Thread_poll\<close>, which touches only the state of the node), and each call of
  \<^verbatim>\<open>send_to\<close> (\<open>Thread_send\<close>). \<open>calls\<close> are the calls a node has still to make before its next turn. \<open>dec_log\<close> is what
  \<^verbatim>\<open>record_decision\<close> was called with: node, height and value.
\<close>

record tm_sim =
  sim_nodes :: "int \<Rightarrow> tm_node"
  started :: "int set"
  calls :: "int \<Rightarrow> (int \<times> tm_msg) list"
  inbox :: "int \<Rightarrow> tm_msg list"
  sim_net :: tm_net
  dec_log :: "(int \<times> int \<times> string option) list"

definition init_sim :: "tm_config \<Rightarrow> real \<Rightarrow> tm_sim" where
  "init_sim c now = \<lparr>sim_nodes = (\<lambda>i. init_node c (i \<in> set (byzantine c)) i), started = {}, calls = (\<lambda>_. []),
     inbox = (\<lambda>_. []), sim_net = (fold register (tm_ids c) (init_net c))\<lparr>start_time := now\<rparr>, dec_log = []\<rparr>"

datatype sim_event = Thread_start int | Thread_poll int nat | Thread_send int tm_readings | Dispatch real

text \<open>The calls of \<^verbatim>\<open>record_decision\<close> in a turn, one for every height that was completed.\<close>

definition new_decisions :: "tm_node \<Rightarrow> tm_node \<Rightarrow> (int \<times> int \<times> string option) list" where
  "new_decisions s s' = map (\<lambda>h. (nid s, h, the (tm_decisions s' h))) [nh s..nh s' - 1]"

definition node_turn :: "tm_env \<Rightarrow> tm_event \<Rightarrow> int \<Rightarrow> tm_sim \<Rightarrow> py_error + tm_sim" where
  "node_turn env ev i g = bindE (tm_step env ev (sim_nodes g i)) (\<lambda>s'.
     Inr (g\<lparr>sim_nodes := (sim_nodes g)(i := s'),
       calls := (calls g)(i := concat (map (recipients (registered (sim_net g))) (drop (length (tm_out (sim_nodes g i))) (tm_out s')))),
       dec_log := dec_log g @ new_decisions (sim_nodes g i) s'\<rparr>))"

fun sim_step :: "(int \<Rightarrow> tm_env) \<Rightarrow> sim_event \<Rightarrow> tm_sim \<Rightarrow> py_error + tm_sim" where
  "sim_step envs (Thread_start i) g =
    (if i \<in> set (registered (sim_net g)) \<and> i \<notin> net_crashed (sim_net g) \<and> i \<notin> started g
     then node_turn (envs i) Run_start i (g\<lparr>started := insert i (started g)\<rparr>) else Inr g)"
| "sim_step envs (Thread_poll i k) g =
    (if i \<in> started g \<and> calls g i = []
     then node_turn (envs i) (Poll (take k (inbox g i))) i (g\<lparr>inbox := (inbox g)(i := drop k (inbox g i))\<rparr>) else Inr g)"
| "sim_step envs (Thread_send i e) g = (case calls g i of
     [] \<Rightarrow> Inr g
   | (r, m) # rest \<Rightarrow> Inr (g\<lparr>calls := (calls g)(i := rest), sim_net := send_to e i r m (sim_net g)\<rparr>))"
| "sim_step envs (Dispatch now) g = (case dispatch_one now (sim_net g) of
     (None, net) \<Rightarrow> Inr (g\<lparr>sim_net := net\<rparr>)
   | (Some (r, m), net) \<Rightarrow> Inr (g\<lparr>sim_net := net, inbox := (inbox g)(r := inbox g r @ [m])\<rparr>))"

section \<open>Summary\<close>

definition correct_nodes :: "tm_config \<Rightarrow> int list" where
  "correct_nodes c = filter (\<lambda>i. i \<notin> set (crashed c) \<union> set (byzantine c)) (tm_ids c)"

text \<open>\<^verbatim>\<open>vals\<close> of \<^verbatim>\<open>print_summary\<close>: the decisions of the correct nodes at a height.\<close>

fun note_decision :: "int list \<Rightarrow> int \<Rightarrow> int \<times> int \<times> string option \<Rightarrow> (int \<times> string option) list \<Rightarrow> (int \<times> string option) list" where
  "note_decision good h (i, h', v) vals = (if h' = h \<and> i \<in> set good then dict_set i v vals else vals)"

definition height_vals :: "int list \<Rightarrow> int \<Rightarrow> (int \<times> int \<times> string option) list \<Rightarrow> (int \<times> string option) list" where
  "height_vals good h ds = fold (note_decision good h) ds []"

record tm_verdict =
  ok_agreement :: bool
  ok_validity :: bool
  ok_termination :: bool

definition check_height :: "int list \<Rightarrow> (int \<times> int \<times> string option) list \<Rightarrow> int \<Rightarrow> tm_verdict \<Rightarrow> tm_verdict" where
  "check_height good ds h v =
    (let vals = height_vals good h ds in
     \<lparr>ok_agreement = ok_agreement v \<and> \<not> 1 < length (remdups (map snd vals)),
      ok_validity = ok_validity v \<and> \<not> (\<exists>x \<in> set vals. snd x = None),
      ok_termination = ok_termination v \<and> \<not> length vals < length good\<rparr>)"

definition summary :: "tm_config \<Rightarrow> int list \<Rightarrow> (int \<times> int \<times> string option) list \<Rightarrow> tm_verdict" where
  "summary c good ds = fold (check_height good ds) [0..num_heights c - 1]
     \<lparr>ok_agreement = True, ok_validity = True, ok_termination = True\<rparr>"

text \<open>
  \<^verbatim>\<open>run_scenario\<close>: the configuration is validated, the threads run (some events) until every correct node decided every height or
  the time is up, go on (some more events) until they have stopped, and the verdicts of the summary are printed.
\<close>

definition all_decided :: "tm_config \<Rightarrow> tm_sim \<Rightarrow> bool" where
  "all_decided c g \<longleftrightarrow> (\<forall>i \<in> set (correct_nodes c). num_heights c \<le> int (card (dom (tm_decisions (sim_nodes g i)))))"

definition run_scenario :: "(int \<Rightarrow> tm_env) \<Rightarrow> tm_config \<Rightarrow> real \<Rightarrow> sim_event list \<Rightarrow> sim_event list \<Rightarrow> py_error + bool \<times> tm_verdict" where
  "run_scenario envs c now evs stopping =
    bindE (validate c) (\<lambda>_.
    bindE (foldE (sim_step envs) evs (init_sim c now)) (\<lambda>g.
    bindE (foldE (sim_step envs) stopping g) (\<lambda>g'.
    Inr (all_decided c g, summary c (correct_nodes c) (dec_log g')))))"

text \<open>\<^verbatim>\<open>print_proposer_schedule\<close>: the proposers of the first \<^verbatim>\<open>total_power()\<close> rounds, and how often each node is one.\<close>

definition proposer_schedule :: "tm_config \<Rightarrow> py_error + int list" where
  "proposer_schedule c = bindE (total_power c) (\<lambda>t. mapE (proposer c 0) [0..t - 1])"

definition proposer_counts :: "tm_config \<Rightarrow> py_error + nat list" where
  "proposer_counts c = bindE (proposer_schedule c) (\<lambda>leaders. Inr (map (count_list leaders) (tm_ids c)))"

end
