(* ===== verification/TM_System.thy ===== *)
theory TM_System
  imports TM_Agreement TM_Network
begin

text \<open>
  The Tendermint nodes in the simulation: no turn of a node raises an exception, messages carry the id of the node that sent
  them, and the runs of the simulation are systems in the sense of the agreement theorem.
\<close>

section \<open>A turn of a node\<close>

fun act_msg :: "tm_action \<Rightarrow> tm_msg" where
  "act_msg (To_all m) = m"
| "act_msg (To_one i m) = m"

text \<open>Actions a node may take: its own messages, and to all nodes unless it is Byzantine.\<close>

definition own_action :: "tm_node \<Rightarrow> tm_action \<Rightarrow> bool" where
  "own_action s a \<longleftrightarrow> ms (act_msg a) = nid s \<and> (is_byz s \<or> a = To_all (act_msg a))"

definition tm_wf :: "tm_node \<Rightarrow> bool" where
  "tm_wf s \<longleftrightarrow> validate (ncfg s) = Inr () \<and> nid s \<in> {0..<tm_n (ncfg s)} \<and> 0 \<le> nh s \<and> dom (tm_decisions s) = {0..<nh s} \<and>
     (\<forall>m \<in> set (message_log s). ms m \<in> {0..<tm_n (ncfg s)})"

definition tm_frame :: "tm_node \<Rightarrow> tm_node \<Rightarrow> bool" where
  "tm_frame s s' \<longleftrightarrow> nid s' = nid s \<and> ncfg s' = ncfg s \<and> is_byz s' = is_byz s \<and> set (message_log s') \<subseteq> set (message_log s) \<and>
     nh s \<le> nh s' \<and> tm_decisions s \<subseteq>\<^sub>m tm_decisions s' \<and> dom (tm_decisions s') = dom (tm_decisions s) \<union> {nh s..<nh s'} \<and>
     (\<exists>as. tm_out s' = tm_out s @ as \<and> (\<forall>a \<in> set as. own_action s a))"

lemma tm_frame_refl [simp]: "tm_frame s s"
  by (simp add: tm_frame_def)

lemma own_action_cong: "nid s' = nid s \<Longrightarrow> is_byz s' = is_byz s \<Longrightarrow> own_action s' = own_action s"
  by (simp add: own_action_def fun_eq_iff)

lemma tm_frame_trans:
  assumes "tm_frame s t" "tm_frame t u"
  shows "tm_frame s u"
proof -
  have "own_action t = own_action s" using assms(1) by (intro own_action_cong) (auto simp: tm_frame_def)
  then have "\<exists>as. tm_out u = tm_out s @ as \<and> (\<forall>a \<in> set as. own_action s a)"
    using assms unfolding tm_frame_def by (auto simp: ball_Un)
  moreover have "tm_decisions s \<subseteq>\<^sub>m tm_decisions u" using assms map_le_trans by (auto simp: tm_frame_def)
  ultimately show ?thesis using assms unfolding tm_frame_def by auto
qed

lemma tm_wf_frame: "tm_wf s \<Longrightarrow> tm_frame s s' \<Longrightarrow> tm_wf s'"
  unfolding tm_wf_def tm_frame_def by auto

lemma tm_frame_updates [simp]:
  "tm_frame s (s'\<lparr>nround := a\<rparr>) = tm_frame s s'" "tm_frame s (s'\<lparr>nstep := a\<rparr>) = tm_frame s s'"
  "tm_frame s (s'\<lparr>locked_value := b\<rparr>) = tm_frame s s'" "tm_frame s (s'\<lparr>locked_round := a\<rparr>) = tm_frame s s'"
  "tm_frame s (s'\<lparr>valid_value := b\<rparr>) = tm_frame s s'" "tm_frame s (s'\<lparr>valid_round := a\<rparr>) = tm_frame s s'"
  "tm_frame s (s'\<lparr>timers := ts\<rparr>) = tm_frame s s'" "tm_frame s (s'\<lparr>fired_prevote_timer := X\<rparr>) = tm_frame s s'"
  "tm_frame s (s'\<lparr>fired_precommit_timer := X\<rparr>) = tm_frame s s'" "tm_frame s (s'\<lparr>fired_lock := X\<rparr>) = tm_frame s s'"
  "tm_frame s (s'\<lparr>value_counter := k\<rparr>) = tm_frame s s'" "tm_frame s (s'\<lparr>node_done := d\<rparr>) = tm_frame s s'"
  "tm_frame s (s'\<lparr>ticks := k\<rparr>) = tm_frame s s'" "tm_frame s (s'\<lparr>draws := k\<rparr>) = tm_frame s s'"
  by (simp_all add: tm_frame_def)

lemma frame_schedule [simp]: "tm_frame s (schedule_timeout env d k h r s') = tm_frame s s'"
  by (simp add: schedule_timeout_def)

lemma tm_frame_emit: "tm_frame s s' \<Longrightarrow> own_action s a \<Longrightarrow> tm_frame s (tm_emit a s')"
  unfolding tm_frame_def tm_emit_def by fastforce

lemma tm_frame_fold_emit: "(\<forall>x \<in> set xs. own_action s (f x)) \<Longrightarrow> tm_frame s s' \<Longrightarrow> tm_frame s (fold (\<lambda>x. tm_emit (f x)) xs s')"
  by (induction xs arbitrary: s') (auto intro: tm_frame_emit)

lemma frame_equivocate:
  assumes "is_byz s" "tm_frame s s'"
  shows "tm_frame s (equivocate_proposal vr s')"
proof -
  have "nid s' = nid s" "is_byz s' = is_byz s" using assms(2) by (auto simp: tm_frame_def)
  then show ?thesis unfolding equivocate_proposal_def Let_def
    by (intro tm_frame_fold_emit ballI assms) (simp_all add: own_action_def assms)
qed

lemma frame_broadcast:
  assumes "tm_frame s s'" "ms m = nid s"
  shows "tm_frame s (tm_broadcast env m s')"
proof -
  have "nid s' = nid s" "is_byz s' = is_byz s" using assms(1) by (auto simp: tm_frame_def)
  then show ?thesis using assms unfolding tm_broadcast_def Let_def
    by (auto intro!: tm_frame_emit frame_equivocate simp: own_action_def)
qed

lemma frame_sends [simp]:
  assumes "tm_frame s s'"
  shows "tm_frame s (send_prevote env vid s')" "tm_frame s (send_precommit env vid s')" "tm_frame s (tm_send_proposal env v vr s')"
  using assms by (auto simp: send_prevote_def send_precommit_def tm_send_proposal_def mk_def tm_frame_def[of s s'] intro!: frame_broadcast)

text \<open>Reads return.\<close>

lemma ok_power: "tm_wf s \<Longrightarrow> set xs \<subseteq> ms ` set (message_log s) \<Longrightarrow> okE (\<lambda>_. True) (voting_power_of (ncfg s) xs)"
  unfolding voting_power_of_def okE_iff tm_wf_def
  by (subst sumE_const[of _ _ "weight (ncfg s)"]) (auto dest!: subsetD intro: power_of_valid(1))

lemma ok_has_quorum: "tm_wf s \<Longrightarrow> okE (\<lambda>_. True) (has_quorum t h r vid s)"
  unfolding has_quorum_def by (auto simp: voters_def intro!: ok_power)

lemma ok_proposer:
  assumes "validate c = Inr ()" "0 < tm_n c"
  shows "okE (\<lambda>_. True) (proposer c h r)"
proof -
  have "mapE (power_of c) (tm_ids c) = Inr (map (weight c) (tm_ids c))"
    by (rule mapE_const) (use power_of_valid(1)[OF assms(1)] in \<open>simp add: set_tm_ids\<close>)
  moreover have "tm_ids c \<noteq> []" using assms(2) by (simp add: tm_ids_def)
  ultimately show ?thesis by (simp add: proposer_def)
qed

lemma ok_find_proposal: "tm_wf s \<Longrightarrow> okE (\<lambda>_. True) (find_proposal h r s)"
    "tm_wf s \<Longrightarrow> okE (\<lambda>_. True) (find_proposal_for_id h r vid s)"
  by (auto simp: find_proposal_def find_proposal_for_id_def tm_wf_def intro!: ok_proposer)

named_theorems ok_turn

lemma ok_start_round: "tm_wf s \<Longrightarrow> tm_frame s t \<Longrightarrow> okE (tm_frame s) (start_round env r t)"
proof -
  assume a: "tm_wf s" "tm_frame s t"
  have "okE (\<lambda>_. True) (proposer (ncfg t) (nh t) r)" using tm_wf_frame[OF a] by (intro ok_proposer) (auto simp: tm_wf_def)
  then show ?thesis unfolding start_round_def Let_def okE_simps
    by (rule okE_any) (auto simp: a get_value_def split: option.splits)
qed

lemma ok_fire [ok_turn]: "tm_wf s \<Longrightarrow> okE (\<lambda>(b, s'). tm_frame s s') (fire_timeout env t s)"
  by (cases "(env, t, s)" rule: fire_timeout.cases)
    (auto simp: on_timeout_propose_def on_timeout_prevote_def on_timeout_precommit_def intro!: ok_start_round)

lemma ok_simple_rules [ok_turn]:
  assumes "tm_wf s"
  shows "okE (\<lambda>(b, s'). tm_frame s s') (rule_proposal_initial env s)" "okE (\<lambda>(b, s'). tm_frame s s') (rule_proposal_with_vr env s)"
    "okE (\<lambda>(b, s'). tm_frame s s') (rule_prevote_timer env s)" "okE (\<lambda>(b, s'). tm_frame s s') (rule_lock_precommit env s)"
    "okE (\<lambda>(b, s'). tm_frame s s') (rule_prevote_nil env s)" "okE (\<lambda>(b, s'). tm_frame s s') (rule_precommit_timer env s)"
  unfolding rule_proposal_initial_def rule_proposal_with_vr_def rule_prevote_timer_def rule_lock_precommit_def
    rule_prevote_nil_def rule_precommit_timer_def Let_def
  by (auto split: option.splits intro!: okE_any[OF ok_find_proposal(1)] okE_any[OF ok_has_quorum] assms)

lemma ok_decide:
  assumes "tm_wf s"
  shows "okE (\<lambda>(b, s'). tm_frame s s') (decide env v s)"
proof -
  let ?s1 = "s\<lparr>tm_decisions := (tm_decisions s)(nh s \<mapsto> v), nh := nh s + 1\<rparr>"
  have new: "tm_decisions s (nh s) = None" using assms by (auto simp: tm_wf_def dom_def)
  have "tm_frame s ?s1" using new by (auto simp: tm_frame_def map_le_def)
  moreover from this have "tm_frame s (reset_for_new_height ?s1)" by (auto simp: reset_for_new_height_def tm_frame_def)
  ultimately show ?thesis using ok_start_round[OF assms, of "reset_for_new_height ?s1" env 0]
    by (auto simp: decide_def Let_def elim!: okE_mono)
qed

lemma ok_decide_loop: "tm_wf s \<Longrightarrow> okE (\<lambda>(b, s'). tm_frame s s') (decide_loop env cs s)"
proof (induction cs)
  case (Cons c cs)
  then show ?case
    by (cases c) (auto split: option.splits intro!: okE_any[OF ok_has_quorum] okE_any[OF ok_find_proposal(2)] ok_decide)
qed simp

lemma ok_rule_decide [ok_turn]: "tm_wf s \<Longrightarrow> okE (\<lambda>(b, s'). tm_frame s s') (rule_decide env s)"
  by (simp add: rule_decide_def ok_decide_loop)

lemma ok_skip_round: "tm_wf s \<Longrightarrow> okE (\<lambda>_. True) (skip_round s)"
  unfolding skip_round_def Let_def by (intro foldE_okE) (auto intro!: okE_any[OF ok_power])

lemma ok_round_skip [ok_turn]: "tm_wf s \<Longrightarrow> okE (\<lambda>(b, s'). tm_frame s s') (rule_round_skip env s)"
  unfolding rule_round_skip_def
  by (auto intro!: okE_any[OF ok_skip_round] ok_start_round split: option.splits)

lemma ok_all_changes:
  assumes "tm_wf s" "\<And>x t. x \<in> set xs \<Longrightarrow> tm_wf t \<Longrightarrow> okE (\<lambda>(b, s'). tm_frame t s') (f x t)" "tm_frame s t"
  shows "okE (\<lambda>(b, s'). tm_frame s s') (all_changes f xs t)"
  unfolding all_changes_def
proof (rule foldE_okE)
  fix x :: 'a and bt :: "bool \<times> tm_node"
  assume x: "x \<in> set xs" and "case bt of (b, t) \<Rightarrow> tm_frame s t"
  then obtain b t where bt: "bt = (b, t)" "tm_frame s t" by (cases bt) auto
  from assms(2)[OF x tm_wf_frame[OF assms(1) bt(2)]]
  show "okE (\<lambda>(b, s'). tm_frame s s') ((\<lambda>x (ch, s). bindE (f x s) (\<lambda>(c, s'). Inr (ch \<or> c, s'))) x bt)"
    unfolding bt(1) by (auto elim!: okE_mono tm_frame_trans[OF bt(2)])
qed (simp add: assms)

lemma ok_try_rules: "tm_wf s \<Longrightarrow> okE (\<lambda>(b, s'). tm_frame s s') (try_rules env s)"
  unfolding try_rules_def by (rule ok_all_changes) (auto intro: ok_turn)

lemma ok_rule_loop: "tm_wf s \<Longrightarrow> okE (tm_frame s) (rule_loop env k s)"
proof (induction k arbitrary: s)
  case (Suc k)
  have "okE (tm_frame s) (if b then rule_loop env k t else Inr t)" if "tm_frame s t" for b t
    using Suc.IH[OF tm_wf_frame[OF Suc.prems that]] that by (auto elim!: okE_mono tm_frame_trans)
  then show ?case unfolding rule_loop.simps okE_simps
    by (intro okE_mono[OF ok_try_rules[OF Suc.prems]]) auto
qed simp

lemma ok_check_timeouts: "tm_wf s \<Longrightarrow> okE (\<lambda>(b, s'). tm_frame s s') (check_timeouts env s)"
  unfolding check_timeouts_def Let_def by (auto intro!: ok_all_changes ok_turn)

lemma ok_poll:
  assumes "tm_wf s" "ms ` set msgs \<subseteq> {0..<tm_n (ncfg s)}"
  shows "okE (tm_frame (s\<lparr>message_log := message_log s @ msgs\<rparr>)) (tm_step env (Poll msgs) s)"
proof -
  let ?s1 = "s\<lparr>message_log := message_log s @ msgs\<rparr>"
  have wf: "tm_wf ?s1" using assms by (auto simp: tm_wf_def)
  have "okE (tm_frame ?s1) (if msgs \<noteq> [] \<or> b then rule_loop env 1001 t else Inr t)" if "tm_frame ?s1 t" for b t
    using ok_rule_loop[OF tm_wf_frame[OF wf that], of env 1001] that by (auto elim!: okE_mono tm_frame_trans simp del: rule_loop.simps)
  then have "okE (\<lambda>x. okE (tm_frame ?s1) (case x of (b, t) \<Rightarrow> if msgs \<noteq> [] \<or> b then rule_loop env 1001 t else Inr t)) (check_timeouts env ?s1)"
    by (intro okE_mono[OF ok_check_timeouts[OF wf]]) (erule case_prodE, simp only: prod.case)
  moreover have "node_done ?s1 = node_done s" by simp
  ultimately show ?thesis by (cases "node_done s") (simp_all only: tm_step.simps Let_def okE_simps if_True if_False tm_frame_refl)
qed

lemma ok_run_start: "tm_wf s \<Longrightarrow> okE (tm_frame s) (tm_step env Run_start s)"
  by (simp add: ok_start_round)

section \<open>More messages\<close>

lemma quorum_in_mono: "quorum_in c D t h r v \<Longrightarrow> D \<subseteq> D' \<Longrightarrow> quorum_in c D' t h r v"
  unfolding quorum_in_def by (elim exE, rule exI, erule conjE, rule conjI) (assumption, blast)

lemma spec_inv_mono:
  assumes "spec_inv c D a" "D \<subseteq> D'"
  shows "spec_inv c D' a"
proof -
  note Q = quorum_in_mono[OF _ assms(2)]
  have "precommits_justified c D' a" using assms(1) Q unfolding spec_inv_def precommits_justified_def by blast
  moreover have "lock_recent c D' a" using assms(1) Q unfolding spec_inv_def lock_recent_def by simp
  moreover have "decisions_justified c D' a" using assms(1) Q unfolding spec_inv_def decisions_justified_def by blast
  moreover have "prevotes_justified c D' a" using assms(1) Q unfolding spec_inv_def prevotes_justified_def by meson
  ultimately show ?thesis using assms(1) by (simp add: spec_inv_def)
qed

section \<open>The simulation\<close>

definition sim_msgs :: "tm_config \<Rightarrow> tm_sim \<Rightarrow> tm_msg set" where
  "sim_msgs c g = (\<Union>i \<in> {0..<tm_n c}. act_msg ` set (tm_out (sim_nodes g i)))"

text \<open>What holds of one node when the messages \<open>D\<close> were sent.\<close>

definition member_inv :: "tm_config \<Rightarrow> tm_msg set \<Rightarrow> int \<Rightarrow> tm_node \<Rightarrow> bool" where
  "member_inv c D i s \<longleftrightarrow> nid s = i \<and> ncfg s = c \<and> (is_byz s \<longleftrightarrow> i \<in> set (byzantine c)) \<and> tm_wf s \<and>
     (\<forall>a \<in> set (tm_out s). own_action s a) \<and> set (message_log s) \<subseteq> D \<and> (i \<notin> set (byzantine c) \<longrightarrow> spec_inv c D (abs_node s))"

definition net_inv :: "tm_config \<Rightarrow> tm_msg set \<Rightarrow> tm_net \<Rightarrow> bool" where
  "net_inv c D net \<longleftrightarrow> registered net = tm_ids c \<and> net_crashed net = set (crashed c) \<and>
     (\<lambda>p. snd (snd (snd p))) ` set (heap net) \<subseteq> D"

definition sim_inv :: "tm_config \<Rightarrow> tm_sim \<Rightarrow> bool" where
  "sim_inv c g \<longleftrightarrow> validate c = Inr () \<and> started g \<subseteq> {0..<tm_n c} \<and>
     (\<forall>i \<in> {0..<tm_n c}. member_inv c (sim_msgs c g) i (sim_nodes g i) \<and>
        (i \<notin> started g \<longrightarrow> sim_nodes g i = init_node c (i \<in> set (byzantine c)) i)) \<and>
     (\<forall>i. set (inbox g i) \<subseteq> sim_msgs c g \<and> snd ` set (calls g i) \<subseteq> sim_msgs c g) \<and> net_inv c (sim_msgs c g) (sim_net g) \<and>
     set (dec_log g) = {(i, h, v). i \<in> {0..<tm_n c} \<and> tm_decisions (sim_nodes g i) h = Some v}"

lemma sim_invD:
  assumes "sim_inv c g"
  shows "validate c = Inr ()" "started g \<subseteq> {0..<tm_n c}" "i \<in> {0..<tm_n c} \<Longrightarrow> member_inv c (sim_msgs c g) i (sim_nodes g i)"
    "i \<in> {0..<tm_n c} \<Longrightarrow> i \<notin> started g \<Longrightarrow> sim_nodes g i = init_node c (i \<in> set (byzantine c)) i"
    "set (inbox g j) \<subseteq> sim_msgs c g" "snd ` set (calls g j) \<subseteq> sim_msgs c g" "net_inv c (sim_msgs c g) (sim_net g)"
    "set (dec_log g) = {(i, h, v). i \<in> {0..<tm_n c} \<and> tm_decisions (sim_nodes g i) h = Some v}"
  using assms unfolding sim_inv_def by simp_all

lemma member_inv_mono: "member_inv c D i s \<Longrightarrow> D \<subseteq> D' \<Longrightarrow> member_inv c D' i s"
  unfolding member_inv_def using spec_inv_mono by blast

lemma registered_fold: "distinct xs \<Longrightarrow> set xs \<inter> set (registered net) = {} \<Longrightarrow>
    fold register xs net = net\<lparr>registered := registered net @ xs\<rparr>"
  by (induction xs arbitrary: net) (auto simp: register_def)

lemma distinct_tm_ids: "distinct (tm_ids c)"
  by (simp add: tm_ids_def distinct_map)

lemma member_inv_init:
  assumes "validate c = Inr ()" "i \<in> {0..<tm_n c}"
  shows "member_inv c D i (init_node c (i \<in> set (byzantine c)) i)"
  using assms by (simp add: member_inv_def init_node_def tm_wf_def own_action_def spec_inv_def votes_in_range_def votes_unique_def
      precommits_justified_def lock_recent_def prevotes_justified_def decisions_justified_def abs_node_def votes_cast_def)

lemma sim_inv_init: "validate c = Inr () \<Longrightarrow> sim_inv c (init_sim c now)"
  using member_inv_init registered_fold[OF distinct_tm_ids, of c "init_net c"]
  by (auto simp: sim_inv_def init_sim_def net_inv_def init_net_def) (auto simp: init_node_def)

lemma net_inv_mono: "net_inv c D net \<Longrightarrow> D \<subseteq> D' \<Longrightarrow> net_inv c D' net"
  by (auto simp: net_inv_def)

lemma net_inv_send: "net_inv c D net \<Longrightarrow> m \<in> D \<Longrightarrow> net_inv c D (send_to e i r m net)"
  by (auto simp: net_inv_def send_to_def set_insort_key split: prod.split)

lemma net_inv_dispatch: "net_inv c D net \<Longrightarrow> dispatch_one now net = (x, net') \<Longrightarrow>
    net_inv c D net' \<and> (\<forall>r m. x = Some (r, m) \<longrightarrow> m \<in> D)"
  by (auto simp: net_inv_def dispatch_one_def Let_def image_subset_iff split: list.splits if_splits prod.splits)

lemma sim_msgs_sender:
  assumes "sim_inv c g" "m \<in> sim_msgs c g"
  shows "ms m \<in> {0..<tm_n c}" "ms m \<notin> set (byzantine c) \<Longrightarrow> To_all m \<in> set (tm_out (sim_nodes g (ms m)))"
proof -
  obtain i a where i: "i \<in> {0..<tm_n c}" "a \<in> set (tm_out (sim_nodes g i))" "m = act_msg a" using assms(2) by (auto simp: sim_msgs_def)
  moreover have "member_inv c (sim_msgs c g) i (sim_nodes g i)" using assms(1) i(1) by (simp add: sim_inv_def)
  ultimately have "ms m = i" "i \<notin> set (byzantine c) \<longrightarrow> a = To_all m" by (auto simp: member_inv_def own_action_def)
  then show "ms m \<in> {0..<tm_n c}" "ms m \<notin> set (byzantine c) \<Longrightarrow> To_all m \<in> set (tm_out (sim_nodes g (ms m)))"
    using i by auto
qed

lemma sim_msgs_update:
  fixes n :: int
  assumes "i \<in> {0..<n}" "tm_out s' = tm_out (f i) @ as"
  shows "(\<Union>j \<in> {0..<n}. act_msg ` set (tm_out ((f(i := s')) j))) = (\<Union>j \<in> {0..<n}. act_msg ` set (tm_out (f j))) \<union> act_msg ` set as"
proof -
  have S: "(\<Union>j \<in> {0..<n}. F j) = F i \<union> (\<Union>j \<in> {0..<n} - {i}. F j)" for F :: "int \<Rightarrow> tm_msg set" using assms(1) by blast
  show ?thesis unfolding S using assms(2) by (auto simp: image_Un)
qed

lemma decisions_split:
  assumes "tm_frame (s\<lparr>message_log := l\<rparr>) s'"
  shows "tm_decisions s' h = Some v \<longleftrightarrow> tm_decisions s h = Some v \<or> nh s \<le> h \<and> h < nh s' \<and> tm_decisions s' h = Some v"
proof -
  have a: "tm_decisions s \<subseteq>\<^sub>m tm_decisions s'" "dom (tm_decisions s') = dom (tm_decisions s) \<union> {nh s..<nh s'}"
    using assms(1) by (simp_all add: tm_frame_def)
  show ?thesis
  proof (cases "h \<in> dom (tm_decisions s)")
    case True
    then have "tm_decisions s' h = tm_decisions s h" using a(1) by (auto simp: map_le_def)
    then show ?thesis by auto
  next
    case False
    then show ?thesis using a(2) by (metis Un_iff atLeastLessThan_iff domIff domI)
  qed
qed

lemma new_log:
  assumes "tm_frame (s\<lparr>message_log := l\<rparr>) s'"
  shows "set (new_decisions s s') = {(nid s, h, v) |h v. nh s \<le> h \<and> h < nh s' \<and> tm_decisions s' h = Some v}"
proof -
  have D: "dom (tm_decisions s') = dom (tm_decisions s) \<union> {nh s..<nh s'}" using assms by (simp add: tm_frame_def)
  then have "h \<in> dom (tm_decisions s')" if "nh s \<le> h" "h < nh s'" for h using that by simp
  then show ?thesis by (force simp: new_decisions_def image_iff)
qed

lemma log_update:
  assumes s: "s = F i" "tm_frame (s\<lparr>message_log := l\<rparr>) s'" "nid s = i" and "i \<in> I"
    and "set lg = {(j, h, v). j \<in> I \<and> tm_decisions (F j) h = Some v}"
  shows "set (lg @ new_decisions s s') = {(j, h, v). j \<in> I \<and> tm_decisions ((F(i := s')) j) h = Some v}"
proof (rule set_eqI, clarify)
  fix j h v
  show "(j, h, v) \<in> set (lg @ new_decisions s s') \<longleftrightarrow> (j, h, v) \<in> {(j, h, v). j \<in> I \<and> tm_decisions ((F(i := s')) j) h = Some v}"
  proof (cases "j = i")
    case True
    then show ?thesis using decisions_split[OF s(2), of h v] new_log[OF s(2)] assms by auto
  next
    case False
    then show ?thesis using new_log[OF s(2)] assms by auto
  qed
qed

text \<open>A turn of a node, given that it returns a node that is well-formed and extends what was there.\<close>

lemma sim_inv_turn:
  assumes inv: "sim_inv c g" and i: "i \<in> {0..<tm_n c}"
    and s': "tm_frame (s\<lparr>message_log := l\<rparr>) s'" "s = sim_nodes g i" "set l \<subseteq> sim_msgs c g"
    and refines: "i \<notin> set (byzantine c) \<Longrightarrow> spec_inv c (sim_msgs c g) (abs_node s')"
    and g': "g' = g\<lparr>inbox := ib, started := insert i (started g), sim_nodes := (sim_nodes g)(i := s'),
       calls := (calls g)(i := concat (map (recipients (registered (sim_net g))) (drop (length (tm_out s)) (tm_out s')))),
       dec_log := dec_log g @ new_decisions s s'\<rparr>" "\<And>j. set (ib j) \<subseteq> sim_msgs c g"
  shows "sim_inv c g'"
proof -
  let ?D = "sim_msgs c g" and ?D' = "sim_msgs c g'" and ?s = "s\<lparr>message_log := l\<rparr>"
  have mem: "member_inv c ?D i s" using inv i s'(2) by (auto simp: sim_inv_def)
  obtain as where as: "tm_out s' = tm_out s @ as" "\<forall>a \<in> set as. own_action s a"
    using s'(1) by (auto simp: tm_frame_def own_action_def)
  have same: "nid s' = nid s" "ncfg s' = ncfg s" "is_byz s' = is_byz s" "set (message_log s') \<subseteq> set l" using s'(1) by (simp_all add: tm_frame_def)
  have "tm_wf ?s" using mem sim_msgs_sender[OF inv] s'(3) by (auto simp: member_inv_def tm_wf_def)
  then have wf: "tm_wf s'" using s'(1) by (rule tm_wf_frame)
  have "sim_nodes g' = (sim_nodes g)(i := s')" by (simp add: g'(1))
  then have "?D' = ?D \<union> act_msg ` set as" using sim_msgs_update[OF i, of s' "sim_nodes g" as] as(1) s'(2) by (simp add: sim_msgs_def)
  note new = this
  from new have D: "?D \<subseteq> ?D'" by simp
  have "member_inv c ?D i s'"
    unfolding member_inv_def using mem wf same s'(3) refines as own_action_cong[of s' s] by (auto simp: member_inv_def)
  then have "member_inv c ?D' j (sim_nodes g' j)" if "j \<in> {0..<tm_n c}" for j
    using inv that member_inv_mono[OF _ D] by (auto simp: g'(1) sim_inv_def)
  moreover have "snd ` set (calls g' j) \<subseteq> ?D'" for j
  proof -
    have "snd ` set (recipients ids a) \<subseteq> {act_msg a}" for ids a by (cases a) auto
    then have "snd ` set (calls g' i) \<subseteq> act_msg ` set as" by (fastforce simp: g'(1) as(1))
    moreover have "snd ` set (calls g j) \<subseteq> ?D" using inv by (simp add: sim_inv_def)
    moreover have "calls g' j = calls g j" if "j \<noteq> i" using that by (simp add: g'(1))
    ultimately show ?thesis using new by (cases "j = i") auto
  qed
  moreover have "set (dec_log g') = {(j, h, v). j \<in> {0..<tm_n c} \<and> tm_decisions (sim_nodes g' j) h = Some v}"
    using log_update[of s "sim_nodes g" i, OF s'(2,1) _ i sim_invD(8)[OF inv]] mem by (simp add: g'(1) member_inv_def)
  moreover have "net_inv c ?D' (sim_net g')" using net_inv_mono[OF sim_invD(7)[OF inv] D] by (simp add: g'(1))
  moreover have "set (inbox g' j) \<subseteq> ?D'" for j using g'(2)[of j] D by (simp add: g'(1))
  moreover have "started g' \<subseteq> {0..<tm_n c}" using sim_invD(2)[OF inv] i by (simp add: g'(1))
  moreover have "sim_nodes g' j = init_node c (j \<in> set (byzantine c)) j" if "j \<in> {0..<tm_n c}" "j \<notin> started g'" for j
    using sim_invD(4)[OF inv] that by (auto simp: g'(1))
  ultimately show ?thesis using sim_invD(1)[OF inv] unfolding sim_inv_def by blast
qed

lemma member_spec_step:
  assumes "member_inv c D i s" "i \<notin> set (byzantine c)" "tm_next D s s'"
  shows "spec_inv c D (abs_node s')"
  using assms spec_inv_steps unfolding member_inv_def tm_next_def node_ok_def by blast

lemma sim_inv_poll:
  assumes inv: "sim_inv c g" and i: "i \<in> started g"
  shows "okE (sim_inv c) (node_turn env (Poll (take k (inbox g i))) i (g\<lparr>inbox := (inbox g)(i := drop k (inbox g i))\<rparr>))"
proof -
  let ?s = "sim_nodes g i" and ?ms = "take k (inbox g i)"
  have i': "i \<in> {0..<tm_n c}" using inv i by (auto simp: sim_inv_def)
  note mem = sim_invD(3)[OF inv i']
  have ms: "set ?ms \<subseteq> sim_msgs c g" using sim_invD(5)[OF inv] set_take_subset[of k "inbox g i"] by (rule order_trans[rotated])
  have "ms ` set ?ms \<subseteq> {0..<tm_n (ncfg ?s)}" using ms sim_msgs_sender(1)[OF inv] mem by (auto simp: member_inv_def)
  then obtain s' where s': "tm_step env (Poll ?ms) ?s = Inr s'" "tm_frame (?s\<lparr>message_log := message_log ?s @ ?ms\<rparr>) s'"
    using ok_poll[of ?s ?ms env] mem by (auto simp: okE_iff member_inv_def simp del: tm_step.simps)
  have "sim_inv c (g\<lparr>inbox := (inbox g)(i := drop k (inbox g i)), started := insert i (started g), sim_nodes := (sim_nodes g)(i := s'),
      calls := (calls g)(i := concat (map (recipients (registered (sim_net g))) (drop (length (tm_out ?s)) (tm_out s')))),
      dec_log := dec_log g @ new_decisions ?s s'\<rparr>)"
  proof (rule sim_inv_turn[OF inv i' s'(2) refl _ _ refl])
    show "set (message_log ?s @ ?ms) \<subseteq> sim_msgs c g" using mem ms by (auto simp: member_inv_def)
    show "i \<notin> set (byzantine c) \<Longrightarrow> spec_inv c (sim_msgs c g) (abs_node s')"
      using member_spec_step[OF mem _ next_poll[OF s'(1) ms]] .
    show "set (((inbox g)(i := drop k (inbox g i))) j) \<subseteq> sim_msgs c g" for j
      using sim_invD(5)[OF inv] set_drop_subset[of k "inbox g i"] by (auto dest: order_trans)
  qed
  moreover have "insert i (started g) = started g" using i by auto
  ultimately show ?thesis using s'(1) by (simp add: node_turn_def del: tm_step.simps)
qed

lemma sim_inv_start:
  assumes inv: "sim_inv c g" and i: "i \<in> {0..<tm_n c}" "i \<notin> started g"
  shows "okE (sim_inv c) (node_turn env Run_start i (g\<lparr>started := insert i (started g)\<rparr>))"
proof -
  let ?s = "sim_nodes g i"
  note s = sim_invD(4)[OF inv i] and mem = sim_invD(3)[OF inv i(1)]
  then obtain s' where s': "tm_step env Run_start ?s = Inr s'" "tm_frame (?s\<lparr>message_log := message_log ?s\<rparr>) s'"
    using ok_run_start[of ?s env] by (auto simp: okE_iff member_inv_def simp del: tm_step.simps)
  have "sim_inv c (g\<lparr>inbox := inbox g, started := insert i (started g), sim_nodes := (sim_nodes g)(i := s'),
      calls := (calls g)(i := concat (map (recipients (registered (sim_net g))) (drop (length (tm_out ?s)) (tm_out s')))),
      dec_log := dec_log g @ new_decisions ?s s'\<rparr>)"
  proof (rule sim_inv_turn[OF inv i(1) s'(2) refl _ _ refl])
    assume byz: "i \<notin> set (byzantine c)"
    then have "\<not> is_byz ?s" by (simp add: s init_node_def)
    then have "abs_node s' = abs_node ?s"
      using start_round_abs(1)[of env 0 ?s s'] s'(1) by (simp add: s init_node_def abs_node_def)
    then show "spec_inv c (sim_msgs c g) (abs_node s')" using mem byz by (simp add: member_inv_def)
  next
    show "set (message_log ?s) \<subseteq> sim_msgs c g" using mem by (simp add: member_inv_def)
  qed (rule sim_invD(5)[OF inv])
  then show ?thesis using s'(1) by (simp add: node_turn_def del: tm_step.simps)
qed

lemma sim_inv_net:
  assumes "sim_inv c g" "net_inv c (sim_msgs c g) net" "\<And>j. set (ib j) \<subseteq> sim_msgs c g" "\<And>j. set (cs j) \<subseteq> set (calls g j)"
  shows "sim_inv c (g\<lparr>calls := cs, sim_net := net, inbox := ib\<rparr>)"
proof -
  have "sim_msgs c (g\<lparr>calls := cs, sim_net := net, inbox := ib\<rparr>) = sim_msgs c g" by (simp add: sim_msgs_def)
  moreover have "snd ` set (cs j) \<subseteq> sim_msgs c g" for j
    using sim_invD(6)[OF assms(1)] image_mono[OF assms(4)[of j], of snd] by (rule order_trans[rotated])
  ultimately show ?thesis using sim_invD[OF assms(1)] assms(2,3) unfolding sim_inv_def by simp
qed

lemma sim_inv_step: "sim_inv c g \<Longrightarrow> okE (sim_inv c) (sim_step envs ev g)"
proof (cases ev)
  case (Thread_start i)
  assume inv: "sim_inv c g"
  then have "registered (sim_net g) = tm_ids c" using sim_invD(7) by (simp add: net_inv_def)
  with sim_inv_start[OF inv, of i "envs i"] show ?thesis using inv by (simp add: Thread_start set_tm_ids)
next
  case (Thread_poll i k)
  assume inv: "sim_inv c g"
  with sim_inv_poll[OF inv, of i "envs i" k] show ?thesis by (simp add: Thread_poll)
next
  case (Thread_send i e)
  assume inv: "sim_inv c g"
  show ?thesis
  proof (cases "calls g i")
    case (Cons rm rest)
    obtain r m where rm: "rm = (r, m)" by fastforce
    have "m \<in> sim_msgs c g" using sim_invD(6)[OF inv, of i] by (simp add: Cons rm)
    then have "net_inv c (sim_msgs c g) (send_to e i r m (sim_net g))" using sim_invD(7)[OF inv] by (simp add: net_inv_send)
    then have "sim_inv c (g\<lparr>calls := (calls g)(i := rest), sim_net := send_to e i r m (sim_net g), inbox := inbox g\<rparr>)"
      using inv Cons sim_invD(5)[OF inv] by (intro sim_inv_net) auto
    then show ?thesis by (simp add: Thread_send Cons rm)
  qed (simp add: Thread_send inv)
next
  case (Dispatch now)
  assume inv: "sim_inv c g"
  obtain x net where d: "dispatch_one now (sim_net g) = (x, net)" by fastforce
  have N: "net_inv c (sim_msgs c g) net" "\<forall>r m. x = Some (r, m) \<longrightarrow> m \<in> sim_msgs c g"
    using net_inv_dispatch[OF sim_invD(7)[OF inv] d] by auto
  have "sim_inv c (g\<lparr>calls := calls g, sim_net := net, inbox := ib\<rparr>)" if "\<And>j. set (ib j) \<subseteq> sim_msgs c g" for ib
    using inv N(1) that by (intro sim_inv_net) auto
  from this[of "inbox g"] this[of "(inbox g)(r := inbox g r @ [m])" for r m] show ?thesis
    using sim_invD(5)[OF inv] N(2) d by (auto simp: Dispatch split: option.split)
qed

interpretation tm_sims: machine "sim_step envs" "sim_inv c" for envs c
  by unfold_locales (use sim_inv_step okE_iff in metis)

section \<open>Agreement in the simulation\<close>

lemma byz_power:
  assumes "validate c = Inr ()"
  shows "set (byzantine c) \<subseteq> {0..<tm_n c}" "sum (weight c) (set (byzantine c)) \<le> tm_f c"
proof -
  obtain p where p: "\<forall>s \<in> set (byzantine c). 0 \<le> s \<and> s < tm_n c" "sumE (power_of c) (byzantine c) = Inr p" "p \<le> tm_f c"
    using assms by (auto simp: validate_def bindE_eq_Inr)
  then show range: "set (byzantine c) \<subseteq> {0..<tm_n c}" by auto
  have w: "power_of c i = Inr (weight c i)" "0 \<le> weight c i" if "i \<in> set (byzantine c)" for i
    using power_of_valid[OF assms] p(1) that by auto
  have "sum (weight c) (set xs) \<le> sum_list (map (weight c) xs)" if "set xs \<subseteq> set (byzantine c)" for xs
    using that by (induction xs) (auto simp: sum.insert_if dest: w(2))
  moreover have "sum_list (map (weight c) (byzantine c)) = p"
    using sumE_const[of "byzantine c" "power_of c" "weight c"] w(1) p(2) by simp
  ultimately show "sum (weight c) (set (byzantine c)) \<le> tm_f c" using p(3) by fastforce
qed

lemma sim_system:
  assumes "sim_inv c g" "total_power c = Inr T" "T \<le> 3 * tm_f c + 1"
  shows "tm_system c ({0..<tm_n c} - set (byzantine c)) (sim_msgs c g) (sim_nodes g)"
proof -
  have "{0..<tm_n c} - ({0..<tm_n c} - set (byzantine c)) = set (byzantine c)" using byz_power(1)[OF sim_invD(1)[OF assms(1)]] by auto
  then show ?thesis
    unfolding tm_system_def using assms sim_invD(1,3)[OF assms(1)] byz_power(2) sim_msgs_sender[OF assms(1)]
    by (auto simp: member_inv_def)
qed

section \<open>Summary\<close>

lemma note_decisions:
  "set (fold (note_decision good h) ds vals) \<subseteq> {(i, v). i \<in> set good \<and> (i, h, v) \<in> set ds} \<union> set vals"
  "fst ` set (fold (note_decision good h) ds vals) = {i \<in> set good. \<exists>v. (i, h, v) \<in> set ds} \<union> fst ` set vals"
  "distinct (map fst vals) \<Longrightarrow> distinct (map fst (fold (note_decision good h) ds vals))"
proof (induction ds arbitrary: vals)
  case (Cons d ds)
  obtain i h' v where d: "d = (i, h', v)" by (cases d)
  { case 1 then show ?case using Cons(1)[of "note_decision good h d vals"] set_dict_set[of i v vals] by (auto simp: d split: if_splits) }
  { case 2 then show ?case using Cons(2)[of "note_decision good h d vals"] by (auto simp: d keys_dict_set split: if_splits) }
  { case 3 then show ?case using Cons(3)[of "note_decision good h d vals"] by (simp add: d distinct_dict_set split: if_splits) }
qed simp_all

lemma height_vals_facts:
  "(i, v) \<in> set (height_vals good h ds) \<Longrightarrow> i \<in> set good \<and> (i, h, v) \<in> set ds"
  "fst ` set (height_vals good h ds) = {i \<in> set good. \<exists>v. (i, h, v) \<in> set ds}"
  "distinct (map fst (height_vals good h ds))"
  unfolding height_vals_def using note_decisions[where vals = "[]"] by auto

lemma check_heights:
  "ok_agreement (fold (check_height good ds) hs v) =
    (ok_agreement v \<and> (\<forall>h \<in> set hs. \<not> 1 < length (remdups (map snd (height_vals good h ds)))))"
  "ok_validity (fold (check_height good ds) hs v) = (ok_validity v \<and> (\<forall>h \<in> set hs. \<not> (\<exists>x \<in> set (height_vals good h ds). snd x = None)))"
  "ok_termination (fold (check_height good ds) hs v) = (ok_termination v \<and> (\<forall>h \<in> set hs. \<not> length (height_vals good h ds) < length good))"
  by (induction hs arbitrary: v) (auto simp: check_height_def Let_def)

lemma one_value: "\<not> 1 < length (remdups xs) \<longleftrightarrow> (\<forall>x \<in> set xs. \<forall>y \<in> set xs. x = y)"
  by (simp add: length_remdups_card_conv card_le_Suc0_iff_eq not_less)

text \<open>The verdicts of the summary, for the decisions of a state of the simulation.\<close>

lemma correct_nodes_facts: "distinct (correct_nodes c)" "set (correct_nodes c) = {0..<tm_n c} - (set (crashed c) \<union> set (byzantine c))"
  by (auto simp: correct_nodes_def distinct_tm_ids set_tm_ids)

definition decided_at :: "tm_config \<Rightarrow> tm_sim \<Rightarrow> int \<Rightarrow> (int \<times> string option) set" where
  "decided_at c g h = {(i, v). i \<in> set (correct_nodes c) \<and> tm_decisions (sim_nodes g i) h = Some v}"

lemma height_vals_sim:
  assumes "sim_inv c g"
  shows "set (height_vals (correct_nodes c) h (dec_log g)) = decided_at c g h"
proof (rule set_eqI, clarify)
  fix i v
  have D: "(i, h, v) \<in> set (dec_log g) \<longleftrightarrow> tm_decisions (sim_nodes g i) h = Some v" if "i \<in> set (correct_nodes c)" for v
    using sim_invD(8)[OF assms] that by (auto simp: correct_nodes_facts)
  show "(i, v) \<in> set (height_vals (correct_nodes c) h (dec_log g)) \<longleftrightarrow> (i, v) \<in> decided_at c g h"
  proof
    assume "(i, v) \<in> decided_at c g h"
    then have i: "i \<in> set (correct_nodes c)" "tm_decisions (sim_nodes g i) h = Some v" by (auto simp: decided_at_def)
    then have "i \<in> fst ` set (height_vals (correct_nodes c) h (dec_log g))" using D by (auto simp: height_vals_facts(2))
    then obtain w where "(i, w) \<in> set (height_vals (correct_nodes c) h (dec_log g))" by auto
    with i D show "(i, v) \<in> set (height_vals (correct_nodes c) h (dec_log g))" using height_vals_facts(1) by fastforce
  next
    assume a: "(i, v) \<in> set (height_vals (correct_nodes c) h (dec_log g))"
    show "(i, v) \<in> decided_at c g h" using D height_vals_facts(1)[OF a] by (simp add: decided_at_def)
  qed
qed

lemma all_decided_iff:
  assumes "sim_inv c g"
  shows "all_decided c g \<longleftrightarrow> (\<forall>h \<in> {0..num_heights c - 1}. fst ` decided_at c g h = set (correct_nodes c))"
proof -
  have "num_heights c \<le> int (card (dom (tm_decisions (sim_nodes g i)))) \<longleftrightarrow>
      (\<forall>h \<in> {0..num_heights c - 1}. h \<in> dom (tm_decisions (sim_nodes g i)))" if "i \<in> set (correct_nodes c)" for i
  proof -
    have "dom (tm_decisions (sim_nodes g i)) = {0..<nh (sim_nodes g i)}" "0 \<le> nh (sim_nodes g i)"
      using sim_invD(3)[OF assms, of i] that by (auto simp: member_inv_def tm_wf_def correct_nodes_facts)
    then show ?thesis by (auto dest: spec[of _ "num_heights c - 1"])
  qed
  then show ?thesis unfolding all_decided_def decided_at_def by (fastforce simp: image_iff dom_def)
qed

lemma summary_verdict:
  assumes inv: "sim_inv c g"
  shows "ok_agreement (summary c (correct_nodes c) (dec_log g)) \<longleftrightarrow>
      (\<forall>h \<in> {0..num_heights c - 1}. \<forall>x \<in> decided_at c g h. \<forall>y \<in> decided_at c g h. snd x = snd y)"
    "ok_validity (summary c (correct_nodes c) (dec_log g)) \<longleftrightarrow> (\<forall>h \<in> {0..num_heights c - 1}. \<forall>x \<in> decided_at c g h. snd x \<noteq> None)"
    "ok_termination (summary c (correct_nodes c) (dec_log g)) \<longleftrightarrow> all_decided c g"
proof -
  let ?vals = "\<lambda>h. height_vals (correct_nodes c) h (dec_log g)"
  show "ok_agreement (summary c (correct_nodes c) (dec_log g)) \<longleftrightarrow>
      (\<forall>h \<in> {0..num_heights c - 1}. \<forall>x \<in> decided_at c g h. \<forall>y \<in> decided_at c g h. snd x = snd y)"
    unfolding summary_def check_heights(1) one_value by (simp add: height_vals_sim[OF inv])
  show "ok_validity (summary c (correct_nodes c) (dec_log g)) \<longleftrightarrow> (\<forall>h \<in> {0..num_heights c - 1}. \<forall>x \<in> decided_at c g h. snd x \<noteq> None)"
    unfolding summary_def check_heights(2) by (auto simp: height_vals_sim[OF inv])
  have len: "length (?vals h) = card (fst ` decided_at c g h)" for h
    using distinct_card[OF height_vals_facts(3), of "correct_nodes c" h "dec_log g"] by (simp add: height_vals_sim[OF inv])
  have "\<not> length (?vals h) < length (correct_nodes c) \<longleftrightarrow> fst ` decided_at c g h = set (correct_nodes c)" for h
  proof -
    have "fst ` decided_at c g h \<subseteq> set (correct_nodes c)" by (auto simp: decided_at_def)
    then show ?thesis unfolding len distinct_card[OF correct_nodes_facts(1), of c, symmetric]
      by (metis List.finite_set card_mono card_subset_eq linorder_not_less order_le_less psubset_card_mono psubsetI)
  qed
  then show "ok_termination (summary c (correct_nodes c) (dec_log g)) \<longleftrightarrow> all_decided c g"
    unfolding summary_def check_heights(3) all_decided_iff[OF inv] by simp
qed

lemma log_grows: "sim_step envs ev g = Inr g' \<Longrightarrow> set (dec_log g) \<subseteq> set (dec_log g')"
  by (cases ev) (auto simp: node_turn_def bindE_eq_Inr split: if_splits list.splits option.splits prod.splits)

lemma all_decided_mono:
  assumes "sim_inv c g" "foldE (sim_step envs) evs g = Inr g'" "all_decided c g"
  shows "all_decided c g'"
proof -
  have inv: "sim_inv c g'" using tm_sims.run_inv[OF assms(1,2)] .
  have "set (dec_log g) \<subseteq> set (dec_log g')"
    by (rule foldE_partial[OF assms(2), where P = "\<lambda>t. set (dec_log g) \<subseteq> set (dec_log t)"]) (auto dest: log_grows)
  then have "decided_at c g h \<subseteq> decided_at c g' h" for h
    using sim_invD(8)[OF assms(1)] sim_invD(8)[OF inv] by (auto simp: decided_at_def correct_nodes_facts)
  moreover have "fst ` decided_at c g' h \<subseteq> set (correct_nodes c)" for h by (auto simp: decided_at_def)
  ultimately show ?thesis using assms(3) unfolding all_decided_iff[OF assms(1)] all_decided_iff[OF inv] by blast
qed

end
