(* ===== verification/TM_Demo.thy ===== *)
theory TM_Demo
  imports TM_System
begin

text \<open>Concrete runs of Tendermint nodes, for the properties and their witnesses.\<close>

section \<open>Concrete runs\<close>

lemma rule_loop_numeral: "rule_loop env (numeral k) s =
    bindE (try_rules env s) (\<lambda>(ch, s'). if ch then rule_loop env (pred_numeral k) s' else Inr s')"
  by (simp add: numeral_eq_Suc)

definition tm_vote :: "tm_type \<Rightarrow> int \<Rightarrow> string option \<Rightarrow> int \<Rightarrow> tm_msg" where
  "tm_vote t r vid i = \<lparr>mt = t, mh = 0, mr = r, ms = i, mv = None, mvid = vid, mvr = -1\<rparr>"

definition tm_proposal :: "int \<Rightarrow> int \<Rightarrow> string \<Rightarrow> tm_msg" where
  "tm_proposal r i v = \<lparr>mt = PROPOSAL, mh = 0, mr = r, ms = i, mv = Some v, mvid = value_id (Some v), mvr = -1\<rparr>"

definition tm_value :: "int \<Rightarrow> int \<Rightarrow> string" where
  "tm_value r i = ''V[h'' @ int_str 0 @ '':r'' @ int_str r @ '':N'' @ int_str i @ ''#'' @ nat_str 0 @ '']''"

text \<open>A clock that stands still, and one that jumps over the deadlines of a silent round 0.\<close>

definition still_env :: tm_env where
  "still_env = \<lparr>clk = (\<lambda>_. 0), rand = (\<lambda>_. 0), set_order = (\<lambda>xs. xs)\<rparr>"

definition jump_env :: tm_env where
  "jump_env = \<lparr>clk = (\<lambda>k. if k = 0 then 0 else if k < 6 then 10 else 20), rand = (\<lambda>_. 0), set_order = (\<lambda>xs. xs)\<rparr>"

lemma valid_tm_value: "valid (Some (tm_value r i))"
  by (simp add: valid_def tm_value_def)

definition tm_id :: "int \<Rightarrow> int \<Rightarrow> string" where
  "tm_id r i = the (value_id (Some (tm_value r i)))"

lemma value_id_demo: "value_id (Some (tm_value r i)) = Some (tm_id r i)"
  by (simp add: tm_id_def value_id_def)

lemma get_value_demo: "nh s = 0 \<Longrightarrow> value_counter s = 0 \<Longrightarrow>
    get_value s = (tm_value (nround s) (nid s), s\<lparr>value_counter := 1\<rparr>)"
  by (simp add: get_value_def tm_value_def)

lemmas tm_run_defs = tm_run_def init_node_def start_round_def tm_send_proposal_def send_prevote_def send_precommit_def
  tm_broadcast_def tm_emit_def mk_def get_value_demo schedule_timeout_def check_timeouts_def all_changes_def try_rules_def
  rule_proposal_initial_def rule_proposal_with_vr_def rule_prevote_timer_def rule_lock_precommit_def rule_prevote_nil_def
  rule_precommit_timer_def rule_decide_def rule_round_skip_def skip_round_def has_quorum_def voting_power_of_def voters_def
  find_proposal_def find_proposal_for_id_def tm_quorum_def f_plus_1_def precommit_candidates_def decide_def
  on_timeout_propose_def on_timeout_prevote_def on_timeout_precommit_def Let_def rule_loop_numeral tm_vote_def tm_proposal_def
  sumE_def value_id_demo List.map_filter_def

definition happy_msgs :: "tm_msg list list" where
  "happy_msgs = (let v = tm_value 0 0 in
     [[tm_proposal 0 0 v], map (tm_vote PREVOTE 0 (value_id (Some v))) [0, 1, 2],
      map (tm_vote PRECOMMIT 0 (value_id (Some v))) [0, 1, 2]])"

lemma happy_power: "power_of SimConfig i = Inr 1"
  by (simp add: power_of_def SimConfig_def)

lemma happy_ids: "tm_ids SimConfig = [0, 1, 2, 3]"
  by (simp add: tm_ids_def SimConfig_def upt_rec)

lemma leader_index_four: "leader_index [a, b, c, d] =
    (if b \<le> a \<and> c \<le> a \<and> d \<le> a then 0 else if c \<le> b \<and> d \<le> b then 1 else if d \<le> c then 2 else 3)"
  by (simp add: leader_index_def upt_rec numeral_eq_Suc)

lemma proposer_round_four: "proposer_round [p, q, r, t] ([a, b, c, d], l) =
    (let pri = [a + p, b + q, c + r, d + t]; m = leader_index pri in (pri[m := pri ! m - (p + q + r + t)], m))"
  by (simp add: proposer_round_def Let_def add.assoc)

lemma happy_proposer: "proposer SimConfig 0 0 = Inr 0" "proposer SimConfig 1 0 = Inr 1"
  by (simp_all add: proposer_def happy_ids happy_power proposer_round_four leader_index_four numeral_2_eq_2 funpow_Suc_right
      Let_def del: funpow.simps(2))

lemma happy_fields: "tm_f SimConfig = 1" "num_heights SimConfig = 1" "timeout_propose SimConfig 0 = 0.6"
  "timeout_prevote SimConfig 0 = 0.6" "timeout_precommit SimConfig 0 = 0.6"
  by (simp_all add: SimConfig_def timeout_propose_def timeout_prevote_def timeout_precommit_def)

definition happy_end :: "int \<Rightarrow> tm_node" where
  "happy_end i = projr (tm_run still_env SimConfig i happy_msgs)"

lemma happy_run: "tm_run still_env SimConfig i happy_msgs = Inr (happy_end i)"
  unfolding happy_end_def happy_msgs_def
  by (cases "i = 0") (simp_all add: tm_run_defs happy_proposer happy_power happy_fields still_env_def valid_tm_value)

lemma happy_facts:
  "tm_decisions (happy_end i) 0 = Some (Some (tm_value 0 0))"
  "To_all (tm_vote PREVOTE 0 (value_id (Some (tm_value 0 0))) i) \<in> set (tm_out (happy_end i))"
  "To_all (tm_vote PRECOMMIT 0 (value_id (Some (tm_value 0 0))) i) \<in> set (tm_out (happy_end i))"
  "To_all (tm_proposal 0 0 (tm_value 0 0)) \<in> set (tm_out (happy_end 0))"
  unfolding happy_end_def happy_msgs_def
  by (cases "i = 0"; simp add: tm_run_defs happy_proposer happy_power happy_fields still_env_def valid_tm_value)+

text \<open>The configuration of the scenario \<^verbatim>\<open>weighted-crash\<close>, without its crash.\<close>

definition split_config :: tm_config where
  "split_config = SimConfig\<lparr>tm_n := 4, tm_f := 1, voting_power := [3, 2, 1, 1]\<rparr>"

lemma split_power: "power_of split_config 0 = Inr 3" "power_of split_config 1 = Inr 2" "power_of split_config 2 = Inr 1"
    "power_of split_config 3 = Inr 1"
  by (simp_all add: power_of_def split_config_def SimConfig_def py_nth_def)

lemma split_ids: "tm_ids split_config = [0, 1, 2, 3]"
  by (simp add: tm_ids_def split_config_def SimConfig_def upt_rec)

lemma split_proposer: "proposer split_config 0 0 = Inr 0" "proposer split_config 0 1 = Inr 1"
    "proposer split_config 1 0 = Inr 1" "proposer split_config 1 1 = Inr 2"
  by (simp_all add: proposer_def split_ids split_power proposer_round_four leader_index_four numeral_2_eq_2 numeral_3_eq_3
      funpow_Suc_right Let_def del: funpow.simps(2))

lemma split_fields: "tm_f split_config = 1" "num_heights split_config = 1" "timeout_propose split_config 0 = 0.6"
  "timeout_prevote split_config 0 = 0.6" "timeout_precommit split_config 0 = 0.6" "timeout_propose split_config 1 = 0.9"
  "timeout_prevote split_config 1 = 0.9" "timeout_precommit split_config 1 = 0.9"
  by (simp_all add: split_config_def SimConfig_def timeout_propose_def timeout_prevote_def timeout_precommit_def)

definition split_msgs :: "int \<Rightarrow> tm_msg list list" where
  "split_msgs i = (if i = 0 then let v = tm_value 0 0; vid = value_id (Some v) in
       [[tm_proposal 0 0 v], [tm_vote PREVOTE 0 vid 0], [tm_vote PRECOMMIT 0 vid 0]]
     else let v = tm_value 1 1; vid = value_id (Some v) in
       [[], map (tm_vote PREVOTE 0 None) [1, 2], map (tm_vote PRECOMMIT 0 None) [1, 2], [], [tm_proposal 1 1 v],
        map (tm_vote PREVOTE 1 vid) [1, 2], map (tm_vote PRECOMMIT 1 vid) [1, 2]])"

definition split_env :: "int \<Rightarrow> tm_env" where
  "split_env i = (if i = 0 then still_env else jump_env)"

definition split_end :: "int \<Rightarrow> tm_node" where
  "split_end i = projr (tm_run (split_env i) split_config i (split_msgs i))"

lemmas split_defs = split_env_def split_msgs_def still_env_def jump_env_def split_proposer split_power split_fields
  valid_tm_value tm_run_defs

lemma split_run: "i \<in> {0, 1, 2} \<Longrightarrow> tm_run (split_env i) split_config i (split_msgs i) = Inr (split_end i)"
  unfolding split_end_def by (elim insertE emptyE; simp add: split_defs)

lemma split_decisions: "tm_decisions (split_end 0) 0 = Some (Some (tm_value 0 0))"
    "tm_decisions (split_end 1) 0 = Some (Some (tm_value 1 1))" "tm_decisions (split_end 2) 0 = Some (Some (tm_value 1 1))"
  unfolding split_end_def by (simp_all add: split_defs)

text \<open>A single node that decides over the network of the simulation.\<close>

definition solo_config :: tm_config where
  "solo_config = SimConfig\<lparr>tm_n := 1, tm_f := 0\<rparr>"

definition solo_events :: "sim_event list" where
  "solo_events = Thread_start 0 # concat (replicate 3 [Thread_send 0 \<lparr>now1 = 0, uniform01 = 0, random01 = 0, now2 = 0\<rparr>, Dispatch 1, Thread_poll 0 1])"

lemma solo_valid: "validate solo_config = Inr ()" "total_power solo_config = Inr 1" "tm_f solo_config = 0"
  by (simp_all add: validate_def total_power_def sumE_def power_of_def tm_ids_def solo_config_def SimConfig_def)

lemma solo_fields: "tm_ids solo_config = [0]" "power_of solo_config i = Inr 1" "tm_f solo_config = 0" "num_heights solo_config = 1"
  "crashed solo_config = []" "byzantine solo_config = []" "gst solo_config = 0" "min_delay solo_config = 0.02"
  "tm_drop_prob solo_config = 0" "timeout_prevote solo_config 0 = 0.6" "timeout_precommit solo_config 0 = 0.6"
  by (simp_all add: solo_config_def SimConfig_def tm_ids_def power_of_def timeout_prevote_def timeout_precommit_def)

lemma solo_proposer: "proposer solo_config 0 0 = Inr 0"
  by (simp add: proposer_def solo_fields proposer_round_def leader_index_def)

lemma solo_proposer_next: "okE (\<lambda>_. True) (proposer solo_config 1 0)"
  by (simp add: proposer_def solo_fields)

lemma solo_decides:
  "okE (\<lambda>g. tm_decisions (sim_nodes g 0) 0 = Some (Some (tm_value 0 0))) (foldE (sim_step (\<lambda>_. still_env)) solo_events (init_sim solo_config 0))"
  unfolding solo_events_def
  by (simp add: init_sim_def init_net_def register_def node_turn_def send_to_def conditions_def dispatch_one_def packet_key_def
      numeral_3_eq_3 solo_fields solo_proposer solo_proposer_next tm_run_defs still_env_def valid_tm_value)

lemma split_sent:
  "To_all (tm_proposal 0 0 (tm_value 0 0)) \<in> set (tm_out (split_end 0))"
  "To_all (tm_vote PREVOTE 0 (value_id (Some (tm_value 0 0))) 0) \<in> set (tm_out (split_end 0))"
  "To_all (tm_vote PRECOMMIT 0 (value_id (Some (tm_value 0 0))) 0) \<in> set (tm_out (split_end 0))"
  "To_all (tm_proposal 1 1 (tm_value 1 1)) \<in> set (tm_out (split_end 1))"
  "i \<in> {1, 2} \<Longrightarrow> To_all (tm_vote PREVOTE 0 None i) \<in> set (tm_out (split_end i))"
  "i \<in> {1, 2} \<Longrightarrow> To_all (tm_vote PRECOMMIT 0 None i) \<in> set (tm_out (split_end i))"
  "i \<in> {1, 2} \<Longrightarrow> To_all (tm_vote PREVOTE 1 (value_id (Some (tm_value 1 1))) i) \<in> set (tm_out (split_end i))"
  "i \<in> {1, 2} \<Longrightarrow> To_all (tm_vote PRECOMMIT 1 (value_id (Some (tm_value 1 1))) i) \<in> set (tm_out (split_end i))"
  unfolding split_end_def by (simp_all add: split_defs) (auto simp: split_defs)

lemma demo_senders [simp]: "ms (tm_vote t r v i) = i" "ms (tm_proposal r i x) = i"
  by (simp_all add: tm_vote_def tm_proposal_def)

lemma split_delivered: "set (concat (split_msgs i)) \<subseteq> {m. ms m \<in> {0, 1, 2} \<and> To_all m \<in> set (tm_out (split_end (ms m)))}"
  using split_sent by (cases "i = 0") (simp_all add: split_msgs_def Let_def)

lemma split_scenario: "get_scenario ''weighted'' (\<lambda>c. c\<lparr>tm_f := 1\<rparr>) = Inr split_config"
  by (simp add: get_scenario_def SCENARIOS_def split_config_def SimConfig_def validate_def total_power_def sumE_def power_of_def
      tm_ids_def py_nth_def upt_rec Let_def)

lemma split_valid: "validate split_config = Inr ()" "total_power split_config = Inr 7"
  by (simp_all add: validate_def total_power_def sumE_def split_ids split_power) (simp_all add: split_config_def SimConfig_def sumE_def)

lemma happy_valid: "validate SimConfig = Inr ()" "total_power SimConfig = Inr 4"
  by (simp_all add: validate_def total_power_def sumE_def happy_ids happy_power) (simp_all add: SimConfig_def sumE_def)

end
