(* ===== verification/TM_Proposer.thy ===== *)
theory TM_Proposer
  imports TM_Network
begin

text \<open>The order of the proposers: weighted round-robin, as the documentation of \<^verbatim>\<open>proposer\<close> and \<^verbatim>\<open>print_proposer_schedule\<close> state it.\<close>

section \<open>The leader of a round\<close>

lemma leader_fold:
  fixes pri :: "int list"
  defines "b \<equiv> \<lambda>k. fold (\<lambda>i best. if pri ! best < pri ! i then i else best) [1..<k] 0"
  shows "0 < k \<Longrightarrow> b k < k \<and> (\<forall>j < k. pri ! j \<le> pri ! b k) \<and> (\<forall>j < b k. pri ! j < pri ! b k)"
proof (induction k)
  case (Suc k)
  show ?case
  proof (cases "k = 0")
    case False
    then have "b (Suc k) = (if pri ! b k < pri ! k then k else b k)" by (simp add: b_def)
    then show ?thesis using Suc.IH False by (auto simp: less_Suc_eq) 
  qed (simp add: b_def)
qed simp

lemma leader_max:
  assumes "pri \<noteq> []"
  shows "leader_index pri < length pri" "j < length pri \<Longrightarrow> pri ! j \<le> pri ! leader_index pri"
    "j < leader_index pri \<Longrightarrow> pri ! j < pri ! leader_index pri"
  using leader_fold[of "length pri" pri] assms unfolding leader_index_def by auto

lemma leader_unique:
  assumes "m < length pri" "\<And>j. j < length pri \<Longrightarrow> pri ! j \<le> pri ! m" "\<And>j. j < m \<Longrightarrow> pri ! j < pri ! m"
  shows "leader_index pri = m"
proof -
  have ne: "pri \<noteq> []" using assms(1) by auto
  note L = leader_max[OF ne]
  show ?thesis
  proof (rule linorder_cases[of "leader_index pri" m])
    assume "leader_index pri < m"
    from assms(3)[OF this] L(2)[OF assms(1)] show ?thesis by simp
  next
    assume "m < leader_index pri"
    from L(3)[OF this] assms(2)[OF L(1)] show ?thesis by simp
  qed simp
qed

section \<open>Priorities\<close>

text \<open>The state after \<open>k\<close> rounds.\<close>

definition wrr :: "int list \<Rightarrow> nat \<Rightarrow> int list \<times> nat" where
  "wrr ps k = (proposer_round ps ^^ k) (replicate (length ps) 0, 0)"

lemma wrr_Suc: "wrr ps (Suc k) = proposer_round ps (wrr ps k)"
  by (simp add: wrr_def)

definition chosen :: "int list \<Rightarrow> nat \<Rightarrow> nat list" where
  "chosen ps k = map (\<lambda>r. snd (wrr ps (Suc r))) [0..<k]"

lemma wrr_length: "length (fst (wrr ps k)) = length ps"
  by (induction k) (auto simp: wrr_def proposer_round_def Let_def)

text \<open>The priority of a node: its power times the rounds, less the total power for every round it led.\<close>

lemma wrr_step:
  assumes "ps \<noteq> []"
  obtains pri l where "pri = map2 (+) (fst (wrr ps k)) ps" "l = leader_index pri" "pri \<noteq> []" "length pri = length ps"
    "l < length ps" "\<And>j. j < length ps \<Longrightarrow> pri ! j = fst (wrr ps k) ! j + ps ! j"
    "wrr ps (Suc k) = (pri[l := pri ! l - sum_list ps], l)" "chosen ps (Suc k) = chosen ps k @ [l]"
proof -
  define pri where "pri = map2 (+) (fst (wrr ps k)) ps"
  have len: "length pri = length ps" by (simp add: pri_def wrr_length)
  then have ne: "pri \<noteq> []" using assms by auto
  have S: "wrr ps (Suc k) = (pri[leader_index pri := pri ! leader_index pri - sum_list ps], leader_index pri)"
    by (simp add: wrr_Suc proposer_round_def Let_def pri_def)
  then have "chosen ps (Suc k) = chosen ps k @ [leader_index pri]" by (simp add: chosen_def)
  with S len ne show thesis using leader_max(1)[OF ne] wrr_length[of ps k]
    by (intro that[of pri "leader_index pri"]) (simp_all add: pri_def)
qed

lemma wrr_priority:
  assumes "ps \<noteq> []" "i < length ps"
  shows "fst (wrr ps k) ! i = int k * ps ! i - sum_list ps * int (count_list (chosen ps k) i)"
proof (induction k)
  case 0
  show ?case using assms by (simp add: wrr_def chosen_def)
next
  case (Suc k)
  obtain pri l where "length pri = length ps" "l < length ps" "\<And>j. j < length ps \<Longrightarrow> pri ! j = fst (wrr ps k) ! j + ps ! j"
    "wrr ps (Suc k) = (pri[l := pri ! l - sum_list ps], l)" "chosen ps (Suc k) = chosen ps k @ [l]"
    using wrr_step[OF assms(1), of k] by metis
  then show ?case using Suc assms(2) by (cases "l = i") (auto simp: algebra_simps)
qed

lemma chosen_range: "ps \<noteq> [] \<Longrightarrow> set (chosen ps k) \<subseteq> {..<length ps}"
proof (induction k)
  case (Suc k)
  obtain l where "l < length ps" "chosen ps (Suc k) = chosen ps k @ [l]" using wrr_step[OF Suc.prems, of k] by metis
  then show ?case using Suc by auto
qed (simp add: chosen_def)

lemma wrr_sum:
  assumes "ps \<noteq> []"
  shows "(\<Sum>i < length ps. fst (wrr ps k) ! i) = 0"
proof -
  have "(\<Sum>i < length ps. count_list (chosen ps k) i) = k"
    using sum_count_set[OF chosen_range[OF assms]] by (simp add: chosen_def)
  then have "(\<Sum>i < length ps. int (count_list (chosen ps k) i)) = int k" by (metis of_nat_sum)
  moreover have "(\<Sum>i < length ps. ps ! i) = sum_list ps" by (simp add: sum_list_sum_nth atLeast0LessThan)
  ultimately show ?thesis
    using wrr_priority[OF assms] by (simp add: sum_subtractf flip: sum_distrib_left)
qed

lemma wrr_lower:
  assumes "ps \<noteq> []" "0 < sum_list ps" "\<forall>p \<in> set ps. 0 \<le> p" "i < length ps"
  shows "- sum_list ps < fst (wrr ps k) ! i"
proof (induction k)
  case 0
  show ?case using assms by (simp add: wrr_def)
next
  case (Suc k)
  obtain pri l where P: "l = leader_index pri" "pri \<noteq> []" "length pri = length ps" "l < length ps"
    "\<And>j. j < length ps \<Longrightarrow> pri ! j = fst (wrr ps k) ! j + ps ! j" "wrr ps (Suc k) = (pri[l := pri ! l - sum_list ps], l)"
    using wrr_step[OF assms(1), of k] by metis
  have "(\<Sum>j < length ps. pri ! j) = sum_list ps"
    using wrr_sum[OF assms(1), of k] P(5) by (simp add: sum.distrib sum_list_sum_nth atLeast0LessThan)
  then obtain j where "j < length ps" "0 < pri ! j" using assms(2) by (metis lessThan_iff linorder_not_le sum_nonpos)
  then have "0 < pri ! l" using leader_max(2)[OF P(2), of j] P(1,3) by simp
  moreover have "0 \<le> ps ! i" using assms(3,4) by simp
  ultimately show ?case using Suc P(3,5,6) assms(4) by (cases "l = i") auto
qed

text \<open>After as many rounds as there is voting power, every node led as often as it has power, and the priorities are 0 again.\<close>

lemma wrr_fair:
  assumes "ps \<noteq> []" "0 < sum_list ps" "\<forall>p \<in> set ps. 0 \<le> p" "i < length ps"
  shows "int (count_list (chosen ps (nat (sum_list ps))) i) = ps ! i" "fst (wrr ps (nat (sum_list ps))) ! i = 0"
proof -
  let ?k = "nat (sum_list ps)" and ?d = "\<lambda>i. ps ! i - int (count_list (chosen ps (nat (sum_list ps))) i)"
  have pri: "fst (wrr ps ?k) ! j = sum_list ps * ?d j" if "j < length ps" for j
    using wrr_priority[OF assms(1) that, of ?k] assms(2) by (simp add: algebra_simps)
  have "0 \<le> ?d j" if "j \<in> {..<length ps}" for j
  proof -
    from that have that: "j < length ps" by simp
    have "sum_list ps * (- 1) < sum_list ps * ?d j" using wrr_lower[OF assms(1-3) that, of ?k] pri[OF that] by simp
    then show ?thesis using assms(2) by (simp only: mult_less_cancel_left_pos)
  qed
  moreover have "(\<Sum>j < length ps. ?d j) = 0"
    using wrr_sum[OF assms(1), of ?k] pri assms(2) by (simp flip: sum_distrib_left)
  ultimately have "?d i = 0" using assms(4) sum_nonneg_eq_0_iff[of "{..<length ps}" ?d] by blast
  then show "int (count_list (chosen ps ?k) i) = ps ! i" "fst (wrr ps ?k) ! i = 0" using pri[OF assms(4)] by simp_all
qed

lemma wrr_period:
  assumes "ps \<noteq> []" "0 < sum_list ps" "\<forall>p \<in> set ps. 0 \<le> p"
  shows "snd (wrr ps (Suc (nat (sum_list ps) + k))) = snd (wrr ps (Suc k))"
proof -
  have "fst (wrr ps (nat (sum_list ps))) = replicate (length ps) 0"
    by (rule nth_equalityI) (use wrr_fair(2)[OF assms] wrr_length in auto)
  then have "fst (wrr ps (nat (sum_list ps) + k)) = fst (wrr ps k)" for k
    by (induction k) (simp_all add: wrr_def proposer_round_def Let_def)
  then show ?thesis by (simp add: wrr_Suc proposer_round_def)
qed

text \<open>With equal powers the nodes take turns.\<close>

lemma wrr_equal:
  assumes "0 < n" "0 < p"
  defines "pri \<equiv> \<lambda>m. map (\<lambda>j. p * int m - (if j < m then p * int n else 0)) [0..<n]"
  shows "fst (wrr (replicate n p) k) = pri (k mod n)" "snd (wrr (replicate n p) (Suc k)) = k mod n"
proof -
  have step: "map2 (+) (pri m) (replicate n p) = map (\<lambda>j. p * (int m + 1) - (if j < m then p * int n else 0)) [0..<n]" (is "_ = ?q m") for m
    by (rule nth_equalityI) (simp_all add: pri_def algebra_simps)
  have lead: "leader_index (?q m) = m" if "m < n" for m
    by (rule leader_unique) (use that assms(1,2) in auto)
  have upd: "(?q m)[m := ?q m ! m - sum_list (replicate n p)] = pri (Suc m mod n)" if "m < n" for m
    using that by (intro nth_equalityI) (auto simp: pri_def nth_list_update sum_list_replicate algebra_simps mod_Suc)
  have r: "proposer_round (replicate n p) (pri m, l) = (pri (Suc m mod n), m)" if "m < n" for m l
    using lead[OF that] upd[OF that] by (simp add: proposer_round_def step Let_def)
  show first: "fst (wrr (replicate n p) k) = pri (k mod n)"
  proof (induction k)
    case 0
    show ?case by (simp add: wrr_def pri_def map_replicate_const)
  next
    case (Suc k)
    then show ?case using r[of "k mod n" "snd (wrr (replicate n p) k)"] assms(1)
      by (simp add: wrr_Suc mod_Suc_eq) (metis fst_conv prod.collapse)
  qed
  show "snd (wrr (replicate n p) (Suc k)) = k mod n"
    using r[of "k mod n" "snd (wrr (replicate n p) k)"] first assms(1) by (simp add: wrr_Suc) (metis prod.collapse snd_conv)
qed

section \<open>The proposers of a configuration\<close>

definition powers :: "tm_config \<Rightarrow> int list" where
  "powers c = map (weight c) (tm_ids c)"

lemma length_powers: "length (powers c) = nat (tm_n c)"
  by (simp add: powers_def tm_ids_def)

lemma powers_valid:
  assumes "validate c = Inr ()"
  shows "\<forall>p \<in> set (powers c). 0 \<le> p" "total_power c = Inr (sum_list (powers c))" "mapE (power_of c) (tm_ids c) = Inr (powers c)"
proof -
  have p: "\<forall>i \<in> set (tm_ids c). power_of c i = Inr (weight c i) \<and> 0 \<le> weight c i"
    using power_of_valid[OF assms] by (simp add: set_tm_ids)
  then show "\<forall>p \<in> set (powers c). 0 \<le> p" "mapE (power_of c) (tm_ids c) = Inr (powers c)"
    unfolding powers_def by (auto intro: mapE_const)
  show "total_power c = Inr (sum_list (powers c))" unfolding powers_def total_power_def by (rule sumE_const) (use p in simp)
qed

lemma proposer_wrr:
  assumes "validate c = Inr ()" "0 < tm_n c" "0 \<le> h + r"
  shows "proposer c h r = Inr (int (snd (wrr (powers c) (Suc (nat (h + r))))))"
proof -
  have "tm_ids c \<noteq> []" using assms(2) by (simp add: tm_ids_def)
  moreover have "nat (h + r + 1) = Suc (nat (h + r))" using assms(3) by simp
  ultimately show ?thesis by (simp add: proposer_def powers_valid(3)[OF assms(1)] wrr_def)
qed

lemma powers_cases:
  assumes "validate c = Inr ()"
  obtains "sum_list (powers c) = 0" "\<forall>p \<in> set (powers c). p = 0"
  | "0 < sum_list (powers c)" "powers c \<noteq> []" "0 < tm_n c"
proof (cases "0 < sum_list (powers c)")
  case True
  then have "powers c \<noteq> []" by auto
  with True that(2) show thesis by (simp add: powers_def tm_ids_def)
next
  case False
  have nn: "\<forall>p \<in> set (powers c). 0 \<le> p" by (rule powers_valid(1)[OF assms])
  then have "sum_list (powers c) = 0" using False sum_list_nonneg[of "powers c"] by fastforce
  with that(1) nn show thesis by (simp add: sum_list_nonneg_eq_0_iff)
qed

lemma counts_weight:
  assumes "validate c = Inr ()"
  shows "proposer_counts c = Inr (map (\<lambda>i. nat (weight c i)) (tm_ids c))"
proof (cases rule: powers_cases[OF assms])
  case 1
  then have "weight c i = 0" if "i \<in> set (tm_ids c)" for i using that by (simp add: powers_def)
  then show ?thesis using 1(1) by (simp add: proposer_counts_def proposer_schedule_def powers_valid(2)[OF assms])
next
  case 2
  let ?T = "sum_list (powers c)"
  have "\<forall>r \<in> set [0..?T - 1]. proposer c 0 r = Inr (int (snd (wrr (powers c) (Suc (nat r)))))"
    using proposer_wrr[OF assms 2(3)] by simp
  then have "proposer_schedule c = Inr (map (\<lambda>r. int (snd (wrr (powers c) (Suc (nat r))))) [0..?T - 1])"
    unfolding proposer_schedule_def powers_valid(2)[OF assms] by (simp add: mapE_const)
  also have "map (\<lambda>r. int (snd (wrr (powers c) (Suc (nat r))))) [0..?T - 1] = map int (chosen (powers c) (nat ?T))"
    using 2(1) by (intro nth_equalityI) (simp_all add: chosen_def)
  finally have "proposer_counts c = Inr (map (\<lambda>i. count_list (map int (chosen (powers c) (nat ?T))) i) (tm_ids c))"
    by (simp add: proposer_counts_def)
  moreover have "count_list (map int (chosen (powers c) (nat ?T))) i = nat (weight c i)" if i: "i \<in> set (tm_ids c)" for i
  proof -
    have "0 \<le> i" "nat i < length (powers c)" "powers c ! nat i = weight c i"
      using i by (auto simp: powers_def tm_ids_def)
    moreover have "count_list (map int xs) i = count_list xs (nat i)" if "0 \<le> i" for xs
      using that by (induction xs) auto
    ultimately show ?thesis using wrr_fair(1)[OF 2(2,1) powers_valid(1)[OF assms], of "nat i"] by simp
  qed
  ultimately show ?thesis by simp
qed

lemma proposer_period:
  assumes "validate c = Inr ()" "total_power c = Inr T" "0 < T" "0 \<le> h + r"
  shows "proposer c h (r + T) = proposer c h r"
proof -
  have T: "T = sum_list (powers c)" using assms(2) powers_valid(2)[OF assms(1)] by simp
  then have "powers c \<noteq> []" "0 < tm_n c" using assms(3) by (auto simp: powers_def tm_ids_def intro: ccontr)
  moreover have "nat (h + (r + T)) = nat T + nat (h + r)" using assms(3,4) by (simp add: nat_add_distrib)
  ultimately show ?thesis
    using wrr_period[of "powers c" "nat (h + r)"] powers_valid(1)[OF assms(1)] proposer_wrr[OF assms(1)] assms(3,4) T by simp
qed

lemma proposer_rotation:
  assumes "validate c = Inr ()" "0 < tm_n c" "0 < p" "\<forall>i \<in> {0..<tm_n c}. weight c i = p" "0 \<le> h + r"
  shows "proposer c h r = Inr ((h + r) mod tm_n c)"
proof -
  have "powers c = replicate (nat (tm_n c)) p"
    using assms(4) by (simp add: powers_def set_tm_ids flip: length_powers) (simp add: map_eq_conv list_eq_iff_nth_eq powers_def tm_ids_def)
  then show ?thesis using proposer_wrr[OF assms(1,2,5)] wrr_equal(2)[of "nat (tm_n c)" p] assms(2,3,5) by (simp add: nat_mod_distrib zmod_int)
qed

end
