(* ===== verification/TM_Properties.thy ===== *)
theory TM_Properties
  imports TM_Demo TM_Proposer
begin

text \<open>The properties of the Tendermint project with their witnesses.\<close>

section \<open>Agreement\<close>



text \<open>C36. (\<^verbatim>\<open>config.py\<close> \<^verbatim>\<open>validate\<close>, \<^verbatim>\<open>node.py\<close> \<^verbatim>\<open>quorum\<close>). The bound on the total voting power in C35 is needed, and \<^verbatim>\<open>validate\<close>
  does not ensure it: it only demands a total above \<open>3 f\<close>, while the quorum is \<open>2 f + 1\<close> whatever the total is. The scenario
  \<^verbatim>\<open>weighted\<close> with \<^verbatim>\<open>--f 1\<close> has powers 3, 2, 1, 1 and quorum 3. In the following run all nodes are correct, every message was sent
  to all by its sender, and messages are only late: node 0 decides alone on its own proposal, nodes 1 and 2 decide another value.
\<close>

theorem tendermint_disagreement:
  "get_scenario ''weighted'' (\<lambda>c. c\<lparr>tm_f := 1\<rparr>) = Inr split_config \<and> crashed split_config = [] \<and> byzantine split_config = [] \<and>
   list_all (\<lambda>i. tm_run (split_env i) split_config i (split_msgs i) = Inr (split_end i) \<and>
     set (concat (split_msgs i)) \<subseteq> {m. ms m \<in> {0, 1, 2} \<and> To_all m \<in> set (tm_out (split_end (ms m)))}) [0, 1, 2] \<and>
   tm_decisions (split_end 0) 0 = Some (Some (tm_value 0 0)) \<and> tm_decisions (split_end 1) 0 = Some (Some (tm_value 1 1)) \<and>
   tm_decisions (split_end 2) 0 = Some (Some (tm_value 1 1)) \<and> tm_value 0 0 \<noteq> tm_value 1 1"
proof (intro conjI)
  show "get_scenario ''weighted'' (\<lambda>c. c\<lparr>tm_f := 1\<rparr>) = Inr split_config" by (rule split_scenario)
  show "crashed split_config = []" "byzantine split_config = []" by (simp_all add: split_config_def SimConfig_def)
  show "list_all (\<lambda>i. tm_run (split_env i) split_config i (split_msgs i) = Inr (split_end i) \<and>
     set (concat (split_msgs i)) \<subseteq> {m. ms m \<in> {0, 1, 2} \<and> To_all m \<in> set (tm_out (split_end (ms m)))}) [0, 1, 2]"
    using split_run split_delivered by simp
  show "tm_value 0 0 \<noteq> tm_value 1 1" by (simp add: tm_value_def int_str_def nat_str.simps hex_digit_def)
qed (rule split_decisions)+

section \<open>Refinement\<close>

text \<open>C37. (\<^verbatim>\<open>node.py\<close>, \<^verbatim>\<open>Node\<close>). Whatever messages arrive and whatever the clock shows, a run of a correct node is a run of the abstract
  specification \<^const>\<open>tm_spec\<close>, in which a node votes once per step, votes against its lock only with a quorum of prevotes of a
  later round, locks with a quorum of prevotes and decides with a quorum of precommits, among the messages that arrived. In
  particular, it never sends two different votes of one kind for one height and round, precommits a value only after a quorum of
  prevotes for it, and decides only valid values, each backed by a quorum of precommits.
\<close>

theorem tendermint_refines:
  assumes "tm_run env c i mss = Inr s"
  defines "D \<equiv> set (concat mss)"
  shows "(tm_spec c D)\<^sup>*\<^sup>* (abs_node (init_node c False i)) (abs_node s) \<and>
    (\<forall>m m'. To_all m \<in> set (tm_out s) \<and> To_all m' \<in> set (tm_out s) \<and> mt m \<noteq> PROPOSAL \<and>
       mt m' = mt m \<and> mh m' = mh m \<and> mr m' = mr m \<longrightarrow> mvid m' = mvid m) \<and>
    (\<forall>m x. To_all m \<in> set (tm_out s) \<and> mt m = PRECOMMIT \<and> mvid m = Some x \<longrightarrow> quorum_in c D PREVOTE (mh m) (mr m) (Some x)) \<and>
    (\<forall>h v. tm_decisions s h = Some v \<longrightarrow> valid v \<and> (\<exists>r. quorum_in c D PRECOMMIT h r (value_id v)))"
proof -
  have D: "set (concat mss) \<subseteq> D" by (simp add: D_def)
  have cast: "(mt m, mh m, mr m, mvid m) \<in> aV (abs_node s)" if "To_all m \<in> set (tm_out s)" "mt m \<noteq> PROPOSAL" for m
    using that by (auto simp: abs_node_def votes_cast_def)
  note inv = tm_run_inv[OF assms(1) D]
  have "mvid m' = mvid m" if "To_all m \<in> set (tm_out s)" "To_all m' \<in> set (tm_out s)" "mt m \<noteq> PROPOSAL" "mt m' = mt m"
    "mh m' = mh m" "mr m' = mr m" for m m'
    using inv cast[of m] cast[of m'] that unfolding spec_inv_def votes_unique_def by metis
  moreover have "quorum_in c D PREVOTE (mh m) (mr m) (Some x)"
    if "To_all m \<in> set (tm_out s)" "mt m = PRECOMMIT" "mvid m = Some x" for m x
    using inv cast[of m] that unfolding spec_inv_def precommits_justified_def by (metis tm_type.distinct(4))
  moreover have "valid v \<and> (\<exists>r. quorum_in c D PRECOMMIT h r (value_id v))" if "tm_decisions s h = Some v" for h v
    using inv that unfolding spec_inv_def decisions_justified_def by (simp add: abs_node_def)
  ultimately show ?thesis using run_refines(1)[OF assms(1) D] by blast
qed

theorem tendermint_refines_witness:
  "(tm_spec SimConfig (set (concat happy_msgs)))\<^sup>*\<^sup>* (abs_node (init_node SimConfig False 1)) (abs_node (happy_end 1)) \<and>
   tm_decisions (happy_end 1) 0 = Some (Some (tm_value 0 0)) \<and> valid (Some (tm_value 0 0)) \<and>
   (\<exists>r. quorum_in SimConfig (set (concat happy_msgs)) PRECOMMIT 0 r (value_id (Some (tm_value 0 0))))"
  using tendermint_refines[OF happy_run[of 1]] happy_facts(1)[of 1] by blast

section \<open>Proposers\<close>

text \<open>C38. (\<^verbatim>\<open>node.py\<close> \<^verbatim>\<open>proposer\<close>, \<^verbatim>\<open>main.py\<close> \<^verbatim>\<open>print_proposer_schedule\<close>). The weighted round-robin is fair, as the documentation says:
  in the first \<^verbatim>\<open>total_power()\<close> rounds every node is the proposer exactly as often as it has voting power, and then the order
  repeats; when all nodes have the same power, the proposer is \<^verbatim>\<open>(height + rnd) % n\<close>.
\<close>

theorem proposer_round_robin:
  assumes "validate c = Inr ()" "total_power c = Inr T"
  shows "proposer_counts c = Inr (map (\<lambda>i. nat (weight c i)) (tm_ids c)) \<and>
    (0 < T \<and> 0 \<le> h + r \<longrightarrow> proposer c h (r + T) = proposer c h r) \<and>
    (0 < tm_n c \<and> 0 < p \<and> (\<forall>i \<in> {0..<tm_n c}. power_of c i = Inr p) \<and> 0 \<le> h + r \<longrightarrow> proposer c h r = Inr ((h + r) mod tm_n c))"
  using counts_weight[OF assms(1)] proposer_period[OF assms] proposer_rotation[OF assms(1), of p h r]
  by (auto simp: weight_def)

theorem proposer_round_robin_witness:
  "proposer_counts split_config = Inr [3, 2, 1, 1] \<and> proposer split_config 0 (0 + 7) = proposer split_config 0 0 \<and>
   proposer SimConfig 5 6 = Inr 3"
proof (intro conjI)
  show "proposer_counts split_config = Inr [3, 2, 1, 1]" "proposer split_config 0 (0 + 7) = proposer split_config 0 0"
    using proposer_round_robin[OF split_valid, of 0 0 1] by (simp_all add: split_ids split_power weight_def)
  show "proposer SimConfig 5 6 = Inr 3"
    using proposer_round_robin[OF happy_valid, of 5 6 1] happy_power by (simp add: SimConfig_def)
qed

end
