(* ===== verification/NB_Types.thy ===== *)
theory NB_Types
  imports Py_Text "HOL-Library.List_Lexorder" "HOL-Library.Char_ord"
begin

text \<open>
  NBFT (\<^verbatim>\<open>t1_3/david vucenovic/nbft\<close>): the parameters (\<^verbatim>\<open>params.py\<close>), messages and simulated signatures (\<^verbatim>\<open>messages.py\<close>), and the
  hash ring that gives every node its role (\<^verbatim>\<open>hashring.py\<close>). Strings are compared as in Python, character by character.
\<close>

section \<open>Parameters\<close>

record nb_params =
  nbn :: int
  nbm :: int

definition nb_R :: "nb_params \<Rightarrow> int" where
  "nb_R p = (nbn p - 1) div nbm p"

definition nb_E :: "nb_params \<Rightarrow> int" where
  "nb_E p = (nbm p - 1) div 3"

definition nb_f1 :: "nb_params \<Rightarrow> int" where
  "nb_f1 p = (nbm p - 1) div 3"

definition nb_w :: "nb_params \<Rightarrow> int" where
  "nb_w p = (nb_R p - 1) div 3"

definition nb_T :: "nb_params \<Rightarrow> int" where
  "nb_T p = nb_w p * nbm p + (nb_R p - nb_w p) * nb_E p"

definition tolerance_interval :: "nb_params \<Rightarrow> int \<times> int" where
  "tolerance_interval p = (nb_R p, nb_T p)"

definition sig_quorum :: "nb_params \<Rightarrow> int" where
  "sig_quorum p = 2 * nb_E p + 1"

definition full_vote_quorum :: "nb_params \<Rightarrow> int" where
  "full_vote_quorum p = nbm p - nb_E p"

definition vote_threshold :: "nb_params \<Rightarrow> int" where
  "vote_threshold p = (nb_R p - nb_w p) * nbm p"

definition reply_quorum :: "nb_params \<Rightarrow> int" where
  "reply_quorum p = (nbn p - 1) div 2 + 1"

definition grouped_count :: "nb_params \<Rightarrow> int" where
  "grouped_count p = nb_R p * nbm p"

definition ungrouped_count :: "nb_params \<Rightarrow> int" where
  "ungrouped_count p = nbn p - 1 - grouped_count p"

definition ConsensusParams :: "int \<Rightarrow> int \<Rightarrow> py_error + nb_params" where
  "ConsensusParams n m =
    (let p = \<lparr>nbn = n, nbm = m\<rparr> in
     raise_if (m < 4 \<or> (m - 1) mod 3 \<noteq> 0) ValueError
     (raise_if (nb_R p < 4) ValueError (Inr p)))"

section \<open>Messages and signatures\<close>

datatype nb_type = REQUEST | PREPREPARE1 | IN_PREPARE1 | IN_PREPARE2 | OUT_PREPARE | COMMIT | PREPREPARE2 | REPLY | VIEW_CHANGE

definition payload_digest :: "string \<Rightarrow> string" where
  "payload_digest payload = take 16 (sha256_hexdigest payload)"

definition sign :: "string \<Rightarrow> string \<Rightarrow> string" where
  "sign node_id digest = node_id @ ''~'' @ digest"

text \<open>\<^verbatim>\<open>sig.split("~", 1)\<close>: the part in front of the first tilde, and the rest if there is one.\<close>

definition split_sig :: "string \<Rightarrow> string \<times> string option" where
  "split_sig sig = (takeWhile (\<lambda>c. c \<noteq> CHR ''~'') sig,
     case dropWhile (\<lambda>c. c \<noteq> CHR ''~'') sig of [] \<Rightarrow> None | _ # rest \<Rightarrow> Some rest)"

definition sig_signer :: "string \<Rightarrow> string" where
  "sig_signer sig = fst (split_sig sig)"

definition sig_valid :: "string \<Rightarrow> string \<Rightarrow> bool" where
  "sig_valid sig digest \<longleftrightarrow> snd (split_sig sig) = Some digest"

record nb_msg =
  nm_type :: nb_type
  nm_sender :: string
  nm_view :: int
  nm_seq :: int
  nm_digest :: string
  nm_payload :: string
  nm_sigs :: "string list"
  nm_group :: "nat option"
  nm_votes :: int
  nm_new_view :: "int option"

text \<open>A message with the defaults of the class.\<close>

definition Message :: "nb_type \<Rightarrow> string \<Rightarrow> int \<Rightarrow> int \<Rightarrow> string \<Rightarrow> nb_msg" where
  "Message t sender view sq digest = \<lparr>nm_type = t, nm_sender = sender, nm_view = view, nm_seq = sq, nm_digest = digest,
     nm_payload = [], nm_sigs = [], nm_group = None, nm_votes = 0, nm_new_view = None\<rparr>"

section \<open>Hash ring\<close>

definition RING_SPACE :: int where
  "RING_SPACE = 2 ^ 32"

definition GENESIS_HASH :: string where
  "GENESIS_HASH = sha256_hexdigest ''nbft-genesis''"

text \<open>The first eight bytes of the digest are its first two words.\<close>

definition ring_hash :: "string \<Rightarrow> int" where
  "ring_hash key = (let ws = sha256_words key in (uint (ws ! 0) * 2 ^ 32 + uint (ws ! 1)) mod RING_SPACE)"

record membership =
  mb_view :: int
  mb_primary :: string
  mb_groups :: "string list list"
  mb_reps :: "string list"
  mb_ungrouped :: "string list"

text \<open>The number of the first group with the node, counted from \<open>k\<close>.\<close>

fun find_group :: "nat \<Rightarrow> string list list \<Rightarrow> string \<Rightarrow> nat option" where
  "find_group k [] i = None"
| "find_group k (g # gs) i = (if i \<in> set g then Some k else find_group (Suc k) gs i)"

definition group_of :: "membership \<Rightarrow> string \<Rightarrow> nat option" where
  "group_of ms i = find_group 0 (mb_groups ms) i"

definition role_of :: "membership \<Rightarrow> string \<Rightarrow> string" where
  "role_of ms i = (if i = mb_primary ms then ''primary'' else if i \<in> set (mb_reps ms) then ''representative''
     else if group_of ms i \<noteq> None then ''member'' else ''ungrouped'')"

definition all_nodes :: "membership \<Rightarrow> string list" where
  "all_nodes ms = mb_primary ms # concat (mb_groups ms) @ mb_ungrouped ms"

text \<open>The ring is its nodes in the order of their positions; the position of a node is \<^verbatim>\<open>ring_hash(nid)\<close>.\<close>

definition by_position :: "string list \<Rightarrow> string list" where
  "by_position ids = sort_key (\<lambda>i. (ring_hash i, i)) ids"

definition HashRing :: "string list \<Rightarrow> py_error + string list" where
  "HashRing ids = raise_if (\<not> distinct ids) ValueError (Inr (by_position ids))"

definition clockwise_from :: "int \<Rightarrow> string list \<Rightarrow> py_error + string" where
  "clockwise_from point candidates =
    (let pool = by_position candidates in
     case find (\<lambda>i. point \<le> ring_hash i) pool of
       Some i \<Rightarrow> Inr i
     | None \<Rightarrow> (case pool of [] \<Rightarrow> Inl IndexError | i # _ \<Rightarrow> Inr i))"

definition elect_primary :: "string list \<Rightarrow> int \<Rightarrow> string \<Rightarrow> string option \<Rightarrow> py_error + string" where
  "elect_primary ring view previous_hash prev_master =
    (if prev_master = None \<and> view = 0 then (case ring of [] \<Rightarrow> Inl IndexError | i # _ \<Rightarrow> Inr i)
     else clockwise_from
       (ring_hash ((case prev_master of None \<Rightarrow> [] | Some x \<Rightarrow> x) @ ''|'' @ previous_hash @ ''|'' @ int_str view)) ring)"

text \<open>\<^verbatim>\<open>ordered.index(primary)\<close>.\<close>

fun index_of :: "'a \<Rightarrow> 'a list \<Rightarrow> nat" where
  "index_of x [] = 0"
| "index_of x (y # ys) = (if x = y then 0 else Suc (index_of x ys))"

text \<open>The ring clockwise from the primary, without it, shifted by \<^verbatim>\<open>(view // n) % len(others)\<close>.\<close>

definition others_of :: "string list \<Rightarrow> string \<Rightarrow> int \<Rightarrow> py_error + string list" where
  "others_of ring primary view =
    (let start = index_of primary ring;
         others = map (\<lambda>i. ring ! ((start + 1 + i) mod length ring)) [0..<length ring - 1]
     in raise_if (others = []) ZeroDivisionError
       (let offset = nat ((view div int (length ring)) mod int (length others)) in Inr (drop offset others @ take offset others)))"

text \<open>\<^verbatim>\<open>membership\<close> of the ring; \<open>m\<close> and \<open>r\<close> are not negative, as \<^verbatim>\<open>ConsensusParams\<close> ensures.\<close>

definition ring_membership :: "string list \<Rightarrow> int \<Rightarrow> string \<Rightarrow> string option \<Rightarrow> nat \<Rightarrow> nat \<Rightarrow> py_error + membership" where
  "ring_membership ring view previous_hash prev_master m r =
    bindE (elect_primary ring view previous_hash prev_master) (\<lambda>primary.
    bindE (others_of ring primary view) (\<lambda>others.
    let groups = map (\<lambda>g. take m (drop (g * m) others)) [0..<r] in
    bindE (mapE (\<lambda>g. clockwise_from (ring_hash (primary @ ''|'' @ int_str view @ ''|'' @ nat_str g)) (groups ! g)) [0..<r]) (\<lambda>reps.
    Inr \<lparr>mb_view = view, mb_primary = primary, mb_groups = groups, mb_reps = reps, mb_ungrouped = drop (r * m) others\<rparr>)))"

end
