(* ===== verification/NB_Voting.thy ===== *)
theory NB_Voting
  imports NB_Types
begin

text \<open>The threshold vote-counting model of NBFT (\<^verbatim>\<open>voting.py\<close>).\<close>

record vote_ledger =
  vl_params :: nb_params
  vl_membership :: membership
  aggregate_best :: "nat \<times> string \<Rightarrow> int"
  group_signers :: "nat \<times> string \<Rightarrow> string set"
  ungrouped_signers :: "string \<Rightarrow> string set"

definition VoteLedger :: "nb_params \<Rightarrow> membership \<Rightarrow> vote_ledger" where
  "VoteLedger p ms = \<lparr>vl_params = p, vl_membership = ms, aggregate_best = (\<lambda>_. 0), group_signers = (\<lambda>_. {}),
     ungrouped_signers = (\<lambda>_. {})\<rparr>"

definition valid_group_signers :: "vote_ledger \<Rightarrow> nat \<Rightarrow> string \<Rightarrow> string list \<Rightarrow> string set" where
  "valid_group_signers L g digest sigs =
    set (map sig_signer (filter (\<lambda>sig. sig_valid sig digest \<and> sig_signer sig \<in> set (mb_groups (vl_membership L) ! g)) sigs))"

text \<open>The number of signers that \<^verbatim>\<open>add_group_aggregate\<close> returns is only logged by its callers.\<close>

definition add_group_aggregate :: "nat \<Rightarrow> string \<Rightarrow> string list \<Rightarrow> vote_ledger \<Rightarrow> vote_ledger" where
  "add_group_aggregate g digest sigs L =
    (let signers = valid_group_signers L g digest sigs; f = int (card signers) in
     L\<lparr>group_signers := (group_signers L)((g, digest) := group_signers L (g, digest) \<union> signers),
       aggregate_best := (aggregate_best L)((g, digest) := max (aggregate_best L (g, digest)) f)\<rparr>)"

definition add_group_individual :: "nat \<Rightarrow> string \<Rightarrow> string list \<Rightarrow> vote_ledger \<Rightarrow> vote_ledger" where
  "add_group_individual g digest sigs L =
    L\<lparr>group_signers := (group_signers L)((g, digest) := group_signers L (g, digest) \<union> valid_group_signers L g digest sigs)\<rparr>"

definition add_ungrouped :: "string \<Rightarrow> string \<Rightarrow> string list \<Rightarrow> vote_ledger \<Rightarrow> vote_ledger" where
  "add_ungrouped i digest sigs L =
    (if \<exists>sig \<in> set sigs. sig_valid sig digest \<and> sig_signer sig = i
     then L\<lparr>ungrouped_signers := (ungrouped_signers L)(digest := insert i (ungrouped_signers L digest))\<rparr> else L)"

definition group_votes :: "vote_ledger \<Rightarrow> nat \<Rightarrow> string \<Rightarrow> int" where
  "group_votes L g digest =
    (if full_vote_quorum (vl_params L) \<le> aggregate_best L (g, digest) then nbm (vl_params L)
     else int (card (group_signers L (g, digest))))"

definition votes_for :: "vote_ledger \<Rightarrow> string \<Rightarrow> int" where
  "votes_for L digest =
    sum_list (map (\<lambda>g. group_votes L g digest) [0..<length (mb_groups (vl_membership L))]) + int (card (ungrouped_signers L digest))"

definition threshold_met :: "vote_ledger \<Rightarrow> string \<Rightarrow> bool" where
  "threshold_met L digest \<longleftrightarrow> vote_threshold (vl_params L) \<le> votes_for L digest"

text \<open>The keys of \<^verbatim>\<open>_group_signers\<close> are groups of the membership.\<close>

definition proof_signers :: "vote_ledger \<Rightarrow> string \<Rightarrow> string set" where
  "proof_signers L digest =
    (\<Union>g \<in> {0..<length (mb_groups (vl_membership L))}. group_signers L (g, digest)) \<union> ungrouped_signers L digest"

definition proof_signatures :: "vote_ledger \<Rightarrow> string \<Rightarrow> string list" where
  "proof_signatures L digest = sorted_list_of_set ((\<lambda>i. sign i digest) ` proof_signers L digest)"

end
