(* ===== verification/NB_Node.thy ===== *)
theory NB_Node
  imports NB_Voting
begin

text \<open>
  The nodes of NBFT (\<^verbatim>\<open>node.py\<close>), honest or with one of the Byzantine behaviours (\<^verbatim>\<open>byzantine.py\<close>), one definition per method.
  Tasks that sleep (timers) are kept as a set and may fire at any time. An exception in such a task ends only the task.
\<close>

section \<open>State\<close>

record nb_block =
  blk_seq :: int
  blk_digest :: string
  blk_payload :: string
  blk_previous :: string

definition block_hash :: "nb_block \<Rightarrow> string" where
  "block_hash b = sha256_hexdigest (int_str (blk_seq b) @ ''|'' @ blk_digest b @ ''|'' @ blk_previous b)"

text \<open>\<^verbatim>\<open>RoundState\<close>; whether its \<^verbatim>\<open>rep_timer\<close> is pending is part of the state of the node.\<close>

record round_state =
  rs_digest :: "string option"
  rs_payload :: "string option"
  prepare_sigs :: "string \<Rightarrow> string set"
  rep_aggregate_sent :: bool
  rep_partial_sent :: bool
  rep_ok :: bool
  rep_blocked :: bool
  rs_ledger :: "vote_ledger option"
  commit_sent :: bool
  commit_proofs :: "string \<rightharpoonup> string list"
  preprepare2_sent :: bool
  rs_executed :: bool

definition RoundState :: round_state where
  "RoundState = \<lparr>rs_digest = None, rs_payload = None, prepare_sigs = (\<lambda>_. {}), rep_aggregate_sent = False, rep_partial_sent = False,
     rep_ok = False, rep_blocked = False, rs_ledger = None, commit_sent = False, commit_proofs = Map.empty, preprepare2_sent = False,
     rs_executed = False\<rparr>"

datatype nb_timer = Rep_timer int int | Partial_timer int int

record nb_node =
  nb_id :: string
  nb_par :: nb_params
  nb_ring :: "string list"
  behavior :: "string option"
  str_hash :: "string \<Rightarrow> int"
  nb_running :: bool
  nb_view :: int
  chain :: "nb_block list"
  last_committed_primary :: "string option"
  nb_members :: membership
  states :: "int \<times> int \<Rightarrow> round_state"
  nb_pending :: "(string \<times> string) list"
  watchdogs :: "string set"
  viewchange_votes :: "int \<Rightarrow> string set"
  voted_view :: int
  nb_timers :: "nb_timer set"
  nb_out :: "(nb_msg \<times> string) list"

section \<open>Helpers\<close>

definition head_hash :: "nb_node \<Rightarrow> string" where
  "head_hash s = (if chain s \<noteq> [] then block_hash (last (chain s)) else GENESIS_HASH)"

definition next_seq_of :: "nb_node \<Rightarrow> int" where
  "next_seq_of s = int (length (chain s)) + 1"

definition compute_membership :: "int \<Rightarrow> nb_node \<Rightarrow> py_error + membership" where
  "compute_membership view s = ring_membership (nb_ring s) view (head_hash s) (last_committed_primary s)
     (nat (nbm (nb_par s))) (nat (nb_R (nb_par s)))"

text \<open>\<^verbatim>\<open>Node.__init__\<close> and \<^verbatim>\<open>ByzantineNode.__init__\<close>; \<^verbatim>\<open>hash\<close> of strings differs between runs of Python and is an argument.\<close>

definition BEHAVIORS :: "string list" where
  "BEHAVIORS = [''crash'', ''silent_leader'', ''equivocate'', ''low_sig'', ''delay'']"

definition init_nb :: "string option \<Rightarrow> string \<Rightarrow> nb_params \<Rightarrow> string list \<Rightarrow> (string \<Rightarrow> int) \<Rightarrow> py_error + nb_node" where
  "init_nb behav i p ring h =
    raise_if (case behav of None \<Rightarrow> False | Some b \<Rightarrow> b \<notin> set BEHAVIORS) ValueError
    (let s = \<lparr>nb_id = i, nb_par = p, nb_ring = ring, behavior = behav, str_hash = h, nb_running = True, nb_view = 0, chain = [],
       last_committed_primary = None, nb_members = \<lparr>mb_view = 0, mb_primary = [], mb_groups = [], mb_reps = [], mb_ungrouped = []\<rparr>,
       states = (\<lambda>_. RoundState), nb_pending = [], watchdogs = {}, viewchange_votes = (\<lambda>_. {}), voted_view = 0, nb_timers = {}, nb_out = []\<rparr>
     in bindE (compute_membership 0 s) (\<lambda>ms. Inr (s\<lparr>nb_members := ms\<rparr>)))"

definition my_group :: "nb_node \<Rightarrow> nat option" where
  "my_group s = group_of (nb_members s) (nb_id s)"

definition is_primary :: "nb_node \<Rightarrow> bool" where
  "is_primary s \<longleftrightarrow> mb_primary (nb_members s) = nb_id s"

definition is_representative :: "nb_node \<Rightarrow> bool" where
  "is_representative s \<longleftrightarrow> (case my_group s of None \<Rightarrow> False | Some g \<Rightarrow> mb_reps (nb_members s) ! g = nb_id s)"

definition nb_committed :: "nb_node \<Rightarrow> string \<Rightarrow> bool" where
  "nb_committed s digest \<longleftrightarrow> (\<exists>b \<in> set (chain s). blk_digest b = digest)"

text \<open>\<^verbatim>\<open>_corrupt\<close> of \<^verbatim>\<open>ByzantineNode\<close>; every behaviour sends something, late in the case of \<^verbatim>\<open>delay\<close>.\<close>

definition DIGEST_PHASES :: "nb_type list" where
  "DIGEST_PHASES = [PREPREPARE1, IN_PREPARE1, IN_PREPARE2, OUT_PREPARE, PREPREPARE2]"

definition corrupt :: "nb_msg \<Rightarrow> string \<Rightarrow> nb_node \<Rightarrow> nb_msg" where
  "corrupt m recipient s =
    (if behavior s = Some ''equivocate'' \<and> nm_type m \<in> set DIGEST_PHASES \<and> nm_digest m \<noteq> [] \<and> str_hash s recipient mod 2 = 1 then
       let evil_payload = (if nm_payload m \<noteq> [] then nm_payload m else nm_digest m) @ '' [conflicting]'';
           evil_digest = payload_digest evil_payload
       in (Message (nm_type m) (nb_id s) (nm_view m) (nm_seq m) evil_digest)
            \<lparr>nm_payload := (if nm_payload m \<noteq> [] then evil_payload else []), nm_sigs := [sign (nb_id s) evil_digest],
             nm_group := nm_group m, nm_votes := nm_votes m\<rparr>
     else if behavior s = Some ''low_sig'' \<and> nm_type m \<in> {IN_PREPARE2, OUT_PREPARE} \<and>
         sig_quorum (nb_par s) \<le> int (length (nm_sigs m)) then
       (Message (nm_type m) (nb_id s) (nm_view m) (nm_seq m) (nm_digest m))
         \<lparr>nm_sigs := take (nat (nb_E (nb_par s))) (sort (nm_sigs m)), nm_group := nm_group m\<rparr>
     else m)"

definition nb_send :: "nb_msg \<Rightarrow> string \<Rightarrow> nb_node \<Rightarrow> nb_node" where
  "nb_send m recipient s = s\<lparr>nb_out := nb_out s @ [(corrupt m recipient s, recipient)]\<rparr>"

definition nb_broadcast :: "nb_msg \<Rightarrow> string list \<Rightarrow> nb_node \<Rightarrow> nb_node" where
  "nb_broadcast m rs s = fold (nb_send m) (filter (\<lambda>r. r \<noteq> nb_id s) rs) s"

text \<open>\<^verbatim>\<open>st = self._state(view, seq)\<close>, changed by \<open>f\<close>.\<close>

definition upd :: "int \<Rightarrow> int \<Rightarrow> (round_state \<Rightarrow> round_state) \<Rightarrow> nb_node \<Rightarrow> nb_node" where
  "upd view sq f s = s\<lparr>states := (states s)((view, sq) := f (states s (view, sq)))\<rparr>"

definition cancel_rep_timer :: "int \<Rightarrow> int \<Rightarrow> nb_node \<Rightarrow> nb_node" where
  "cancel_rep_timer view sq s = s\<lparr>nb_timers := nb_timers s - {Rep_timer view sq}\<rparr>"

definition stop_nb :: "nb_node \<Rightarrow> nb_node" where
  "stop_nb s = s\<lparr>nb_running := False, nb_timers := {}\<rparr>"

section \<open>Request and first broadcast\<close>

definition nb_propose :: "string \<Rightarrow> nb_node \<Rightarrow> nb_node" where
  "nb_propose digest s =
    (let sq = next_seq_of s; st = states s (nb_view s, sq) in
     if preprepare2_sent st \<or> rs_digest st \<noteq> None then s
     else
       let payload = the (map_of (nb_pending s) digest);
           s1 = upd (nb_view s) sq (\<lambda>st. st\<lparr>rs_digest := Some digest, rs_payload := Some payload\<rparr>) s
       in nb_broadcast ((Message PREPREPARE1 (nb_id s) (nb_view s) sq digest)
            \<lparr>nm_payload := payload, nm_sigs := [sign (nb_id s) digest]\<rparr>) (all_nodes (nb_members s)) s1)"

definition arm_watchdog :: "string \<Rightarrow> nb_node \<Rightarrow> nb_node" where
  "arm_watchdog digest s = s\<lparr>watchdogs := insert digest (watchdogs s)\<rparr>"

definition on_request :: "nb_msg \<Rightarrow> nb_node \<Rightarrow> nb_node" where
  "on_request m s =
    (if behavior s = Some ''silent_leader'' \<and> is_primary s then s
     else
       let digest = payload_digest (nm_payload m);
           s1 = s\<lparr>nb_pending := dict_set digest (nm_payload m) (nb_pending s)\<rparr>
       in if nb_committed s1 digest then nb_send (Message REPLY (nb_id s) (nb_view s) 0 digest) (nm_sender m) s1
          else if is_primary s1 then nb_propose digest s1
          else if nm_sender m = ''client'' then arm_watchdog digest s1
          else s1)"

section \<open>Votes\<close>

definition led :: "nb_node \<Rightarrow> round_state \<Rightarrow> vote_ledger" where
  "led s st = (case rs_ledger st of Some L \<Rightarrow> L | None \<Rightarrow> VoteLedger (nb_par s) (nb_members s))"

definition upd_ledger :: "int \<Rightarrow> int \<Rightarrow> (vote_ledger \<Rightarrow> vote_ledger) \<Rightarrow> nb_node \<Rightarrow> nb_node" where
  "upd_ledger view sq f s = upd view sq (\<lambda>st. st\<lparr>rs_ledger := Some (f (led s st))\<rparr>) s"

definition check_vote_threshold :: "int \<Rightarrow> int \<Rightarrow> nb_node \<Rightarrow> nb_node" where
  "check_vote_threshold view sq s =
    (let st = states s (view, sq) in
     case rs_digest st of
       None \<Rightarrow> s
     | Some digest \<Rightarrow>
         if commit_sent st then s
         else
           let L = led s st; votes = votes_for L digest; s1 = upd_ledger view sq id s in
           if vote_threshold (nb_par s) \<le> votes then
             nb_send ((Message COMMIT (nb_id s) view sq digest)\<lparr>nm_sigs := proof_signatures L digest, nm_votes := votes\<rparr>)
               (mb_primary (nb_members s)) (upd view sq (\<lambda>st. st\<lparr>commit_sent := True\<rparr>) s1)
           else s1)"

definition send_aggregate :: "int \<Rightarrow> int \<Rightarrow> string \<Rightarrow> nat \<Rightarrow> nb_node \<Rightarrow> nb_node" where
  "send_aggregate view sq digest g s =
    (let sigs = sorted_list_of_set (prepare_sigs (states s (view, sq)) digest);
         s1 = upd view sq (\<lambda>st. st\<lparr>rep_aggregate_sent := True\<rparr>) s;
         s2 = nb_broadcast ((Message IN_PREPARE2 (nb_id s) view sq digest)\<lparr>nm_sigs := sigs, nm_group := Some g\<rparr>)
                (mb_groups (nb_members s) ! g) s1;
         s3 = nb_broadcast ((Message OUT_PREPARE (nb_id s) view sq digest)\<lparr>nm_sigs := sigs, nm_group := Some g\<rparr>)
                (mb_reps (nb_members s)) s2
     in check_vote_threshold view sq (upd_ledger view sq (add_group_aggregate g digest sigs) s3))"

definition maybe_aggregate :: "int \<Rightarrow> int \<Rightarrow> nat \<Rightarrow> nb_node \<Rightarrow> nb_node" where
  "maybe_aggregate view sq g s =
    (let st = states s (view, sq) in
     case rs_digest st of
       None \<Rightarrow> s
     | Some digest \<Rightarrow>
         if \<not> rep_aggregate_sent st \<and> sig_quorum (nb_par s) \<le> int (card (prepare_sigs st digest))
         then send_aggregate view sq digest g s else s)"

text \<open>The body of the task of \<^verbatim>\<open>_arm_rep_partial_timer\<close>. When the node has no group any more, \<^verbatim>\<open>groups[None]\<close> raises.\<close>

definition partial_timer :: "int \<Rightarrow> int \<Rightarrow> nb_node \<Rightarrow> nb_node" where
  "partial_timer view sq s =
    (let st = states s (view, sq) in
     case rs_digest st of
       None \<Rightarrow> s
     | Some digest \<Rightarrow>
         if rep_aggregate_sent st \<or> rep_partial_sent st \<or> rs_executed st then s
         else
           let sigs = sorted_list_of_set (prepare_sigs st digest);
               s1 = upd view sq (\<lambda>st. st\<lparr>rep_partial_sent := True\<rparr>) s;
               s2 = nb_broadcast ((Message OUT_PREPARE (nb_id s) view sq digest)\<lparr>nm_sigs := sigs, nm_group := my_group s\<rparr>)
                      (mb_reps (nb_members s)) s1
           in case my_group s of
                None \<Rightarrow> upd_ledger view sq id s2
              | Some g \<Rightarrow> check_vote_threshold view sq (upd_ledger view sq (add_group_aggregate g digest sigs) s2))"

text \<open>\<^verbatim>\<open>_model1_block\<close>. When the node has no group any more, \<^verbatim>\<open>representatives[None]\<close> raises before anything is sent.\<close>

definition model1_block :: "int \<Rightarrow> int \<Rightarrow> nb_node \<Rightarrow> nb_node" where
  "model1_block view sq s =
    (let s1 = cancel_rep_timer view sq (upd view sq (\<lambda>st. st\<lparr>rep_blocked := True\<rparr>) s) in
     case (my_group s, rs_digest (states s (view, sq))) of
       (Some g, Some digest) \<Rightarrow>
         nb_broadcast ((Message OUT_PREPARE (nb_id s) view sq digest)\<lparr>nm_sigs := [sign (nb_id s) digest], nm_group := Some g\<rparr>)
           (map ((!) (mb_reps (nb_members s))) (filter (\<lambda>k. k \<noteq> g) [0..<length (mb_reps (nb_members s))])) s1
     | _ \<Rightarrow> s1)"

definition rep_timer :: "int \<Rightarrow> int \<Rightarrow> nb_node \<Rightarrow> nb_node" where
  "rep_timer view sq s =
    (let st = states s (view, sq) in
     if \<not> rep_ok st \<and> \<not> rep_blocked st \<and> \<not> rs_executed st then model1_block view sq s else s)"

definition on_preprepare1 :: "nb_msg \<Rightarrow> nb_node \<Rightarrow> nb_node" where
  "on_preprepare1 m s =
    (let view = nm_view m; sq = nm_seq m; digest = nm_digest m in
     if nm_sender m \<noteq> mb_primary (nb_members s) \<or> view \<noteq> nb_view s then s
     else if sq \<noteq> next_seq_of s \<or> payload_digest (nm_payload m) \<noteq> digest then s
     else if rs_digest (states s (view, sq)) \<noteq> None then s
     else
       let s1 = upd view sq (\<lambda>st. st\<lparr>rs_digest := Some digest, rs_payload := Some (nm_payload m)\<rparr>) s;
           s2 = s1\<lparr>nb_pending := dict_set digest (nm_payload m) (nb_pending s1)\<rparr>
       in case my_group s of
            None \<Rightarrow> nb_broadcast ((Message OUT_PREPARE (nb_id s) view sq digest)\<lparr>nm_sigs := [sign (nb_id s) digest]\<rparr>)
                (mb_reps (nb_members s)) s2
          | Some g \<Rightarrow>
              let s3 = upd view sq (\<lambda>st. st\<lparr>prepare_sigs := (prepare_sigs st)(digest :=
                    insert (sign (nb_id s) digest) (prepare_sigs st digest))\<rparr>) s2
              in if is_representative s
                 then let s4 = maybe_aggregate view sq g s3 in s4\<lparr>nb_timers := insert (Partial_timer view sq) (nb_timers s4)\<rparr>
                 else let s4 = nb_send ((Message IN_PREPARE1 (nb_id s) view sq digest)
                        \<lparr>nm_sigs := [sign (nb_id s) digest], nm_group := Some g\<rparr>) (mb_reps (nb_members s) ! g) s3
                      in s4\<lparr>nb_timers := insert (Rep_timer view sq) (nb_timers s4)\<rparr>)"

definition on_in_prepare1 :: "nb_msg \<Rightarrow> nb_node \<Rightarrow> nb_node" where
  "on_in_prepare1 m s = (case my_group s of
     None \<Rightarrow> s
   | Some g \<Rightarrow>
       if nm_view m \<noteq> nb_view s \<or> nm_group m \<noteq> Some g then s
       else if \<not> is_representative s \<or> nm_sender m \<notin> set (mb_groups (nb_members s) ! g) then s
       else maybe_aggregate (nm_view m) (nm_seq m) g
         (upd (nm_view m) (nm_seq m) (\<lambda>st. st\<lparr>prepare_sigs := (prepare_sigs st)(nm_digest m :=
            prepare_sigs st (nm_digest m) \<union> set (filter (\<lambda>sig. sig_valid sig (nm_digest m)) (nm_sigs m)))\<rparr>) s))"

definition on_in_prepare2 :: "nb_msg \<Rightarrow> nb_node \<Rightarrow> nb_node" where
  "on_in_prepare2 m s = (case my_group s of
     None \<Rightarrow> s
   | Some g \<Rightarrow>
       let view = nm_view m; sq = nm_seq m; st = states s (view, sq) in
       if view \<noteq> nb_view s \<or> nm_group m \<noteq> Some g then s
       else if nm_sender m \<noteq> mb_reps (nb_members s) ! g \<or> is_representative s then s
       else if rep_ok st \<or> rep_blocked st \<or> rs_digest st = None then s
       else if rs_digest st \<noteq> Some (nm_digest m) then model1_block view sq s
       else if int (card (set (filter (\<lambda>sig. sig_valid sig (nm_digest m) \<and> sig_signer sig \<in> set (mb_groups (nb_members s) ! g)) (nm_sigs m))))
           < sig_quorum (nb_par s) then model1_block view sq s
       else cancel_rep_timer view sq (upd view sq (\<lambda>st. st\<lparr>rep_ok := True\<rparr>) s))"

definition on_out_prepare :: "nb_msg \<Rightarrow> nb_node \<Rightarrow> nb_node" where
  "on_out_prepare m s =
    (let view = nm_view m; sq = nm_seq m; ms = nb_members s in
     if \<not> is_representative s \<or> view \<noteq> nb_view s then s
     else case group_of ms (nm_sender m) of
       None \<Rightarrow>
         if nm_sender m \<in> set (mb_ungrouped ms)
         then check_vote_threshold view sq (upd_ledger view sq (add_ungrouped (nm_sender m) (nm_digest m) (nm_sigs m)) s)
         else upd_ledger view sq id s
     | Some g \<Rightarrow>
         check_vote_threshold view sq (upd_ledger view sq
           (if nm_sender m = mb_reps ms ! g then add_group_aggregate g (nm_digest m) (nm_sigs m)
            else add_group_individual g (nm_digest m) (nm_sigs m)) s))"

section \<open>Second broadcast and reply\<close>

definition proof_quorum :: "nb_params \<Rightarrow> int" where
  "proof_quorum p = (nb_R p - nb_w p) * full_vote_quorum p"

definition nb_execute :: "int \<Rightarrow> int \<Rightarrow> string \<Rightarrow> nb_node \<Rightarrow> py_error + nb_node" where
  "nb_execute view sq digest s =
    (let st = states s (view, sq) in
     if rs_executed st \<or> nb_committed s digest then Inr s
     else
       let payload = (case map_of (nb_pending s) digest of Some x \<Rightarrow> x
             | None \<Rightarrow> (case rs_payload st of Some x \<Rightarrow> x | None \<Rightarrow> []));
           b = \<lparr>blk_seq = sq, blk_digest = digest, blk_payload = payload, blk_previous = head_hash s\<rparr>;
           s1 = upd view sq (\<lambda>st. st\<lparr>rs_executed := True\<rparr>) s;
           s2 = cancel_rep_timer view sq (s1\<lparr>chain := chain s1 @ [b],
             last_committed_primary := Some (mb_primary (nb_members s)), watchdogs := watchdogs s - {digest}\<rparr>);
           s3 = nb_send (Message REPLY (nb_id s) view sq digest) ''client'' s2
       in bindE (compute_membership (nb_view s3) s3) (\<lambda>ms. Inr (s3\<lparr>nb_members := ms\<rparr>)))"

definition nb_on_commit :: "nb_msg \<Rightarrow> nb_node \<Rightarrow> py_error + nb_node" where
  "nb_on_commit m s =
    (let view = nm_view m; sq = nm_seq m in
     if \<not> is_primary s \<or> view \<noteq> nb_view s then Inr s
     else if preprepare2_sent (states s (view, sq)) then Inr s
     else if nm_votes m < vote_threshold (nb_par s) then Inr s
     else
       let valid = sorted_list_of_set (set (filter (\<lambda>sig. sig_valid sig (nm_digest m)) (nm_sigs m))) in
       if int (length valid) < proof_quorum (nb_par s) then Inr s
       else
         let s1 = upd view sq (\<lambda>st. st\<lparr>commit_proofs := (commit_proofs st)(nm_digest m \<mapsto> valid), preprepare2_sent := True\<rparr>) s;
             s2 = nb_broadcast ((Message PREPREPARE2 (nb_id s) view sq (nm_digest m))\<lparr>nm_sigs := valid, nm_votes := nm_votes m\<rparr>)
                    (all_nodes (nb_members s)) s1
         in nb_execute view sq (nm_digest m) s2)"

definition on_preprepare2 :: "nb_msg \<Rightarrow> nb_node \<Rightarrow> py_error + nb_node" where
  "on_preprepare2 m s =
    (if nm_sender m \<noteq> mb_primary (nb_members s) \<or> nm_view m \<noteq> nb_view s then Inr s
     else if nm_votes m < vote_threshold (nb_par s) then Inr s
     else if int (card (sig_signer ` set (filter (\<lambda>sig. sig_valid sig (nm_digest m)) (nm_sigs m)))) < proof_quorum (nb_par s) then Inr s
     else nb_execute (nm_view m) (nm_seq m) (nm_digest m) s)"

section \<open>View change\<close>

definition maybe_adopt_view :: "int \<Rightarrow> nb_node \<Rightarrow> py_error + nb_node" where
  "maybe_adopt_view new_view s =
    (if new_view \<le> nb_view s \<or> int (card (viewchange_votes s new_view)) < 2 * ((nbn (nb_par s) - 1) div 3) + 1 then Inr s
     else bindE (compute_membership new_view s) (\<lambda>ms.
       let s1 = s\<lparr>nb_view := new_view, nb_members := ms\<rparr> in
       Inr (if is_primary s1 then
              (case find (\<lambda>d. \<not> nb_committed s1 d) (map fst (nb_pending s1)) of None \<Rightarrow> s1 | Some d \<Rightarrow> nb_propose d s1)
            else s1)))"

definition vote_view_change :: "int \<Rightarrow> nb_node \<Rightarrow> py_error + nb_node" where
  "vote_view_change new_view s =
    (if new_view \<le> voted_view s \<or> new_view \<le> nb_view s then Inr s
     else
       let s1 = s\<lparr>voted_view := new_view,
             viewchange_votes := (viewchange_votes s)(new_view := insert (nb_id s) (viewchange_votes s new_view))\<rparr>
       in maybe_adopt_view new_view (nb_broadcast ((Message VIEW_CHANGE (nb_id s) (nb_view s) 0 [])\<lparr>nm_new_view := Some new_view\<rparr>)
            (all_nodes (nb_members s)) s1))"

definition on_view_change :: "nb_msg \<Rightarrow> nb_node \<Rightarrow> py_error + nb_node" where
  "on_view_change m s = (case nm_new_view m of
     None \<Rightarrow> Inr s
   | Some v \<Rightarrow>
       if v \<le> nb_view s then Inr s
       else
         let s1 = s\<lparr>viewchange_votes := (viewchange_votes s)(v := insert (nm_sender m) (viewchange_votes s v))\<rparr> in
         bindE (if (nbn (nb_par s) - 1) div 3 + 1 \<le> int (card (viewchange_votes s1 v)) \<and> voted_view s1 < v
                then vote_view_change v s1 else Inr s1) (maybe_adopt_view v))"

text \<open>A turn of the loop of the watchdog of a request.\<close>

definition watchdog :: "string \<Rightarrow> nb_node \<Rightarrow> py_error + nb_node" where
  "watchdog digest s =
    (if nb_committed s digest \<or> \<not> nb_running s then Inr s else vote_view_change (max (nb_view s) (voted_view s) + 1) s)"

section \<open>The node\<close>

definition nb_handle :: "nb_msg \<Rightarrow> nb_node \<Rightarrow> py_error + nb_node" where
  "nb_handle m s = (if behavior s = Some ''crash'' then Inr s else case nm_type m of
     REQUEST \<Rightarrow> Inr (on_request m s)
   | PREPREPARE1 \<Rightarrow> Inr (on_preprepare1 m s)
   | IN_PREPARE1 \<Rightarrow> Inr (on_in_prepare1 m s)
   | IN_PREPARE2 \<Rightarrow> Inr (on_in_prepare2 m s)
   | OUT_PREPARE \<Rightarrow> Inr (on_out_prepare m s)
   | COMMIT \<Rightarrow> nb_on_commit m s
   | PREPREPARE2 \<Rightarrow> on_preprepare2 m s
   | VIEW_CHANGE \<Rightarrow> on_view_change m s
   | REPLY \<Rightarrow> Inr s)"

datatype nb_event = Deliver nb_msg | Fire nb_timer | Watchdog string | Stop

fun nb_step :: "nb_event \<Rightarrow> nb_node \<Rightarrow> py_error + nb_node" where
  "nb_step (Deliver m) s = (if nb_running s then nb_handle m s else Inr s)"
| "nb_step (Fire t) s = (if t \<notin> nb_timers s then Inr s else
     let s1 = s\<lparr>nb_timers := nb_timers s - {t}\<rparr> in
     Inr (case t of Rep_timer v q \<Rightarrow> rep_timer v q s1 | Partial_timer v q \<Rightarrow> partial_timer v q s1))"
| "nb_step (Watchdog digest) s = (if digest \<in> watchdogs s then watchdog digest s else Inr s)"
| "nb_step Stop s = Inr (stop_nb s)"

end
