(* ===== verification/NB_Invariant.thy ===== *)
theory NB_Invariant
  imports NB_Node
begin

text \<open>
  What holds in every run of an honest NBFT node: the roles partition the nodes of the ring, the ledgers count every node at
  most once, and a commit carries a proof that the other nodes accept.
\<close>

section \<open>Roles\<close>

definition params_ok :: "nb_params \<Rightarrow> bool" where
  "params_ok p \<longleftrightarrow> ConsensusParams (nbn p) (nbm p) = Inr p"

lemma params_okD:
  assumes "params_ok p"
  shows "4 \<le> nbm p" "4 \<le> nb_R p" "nb_R p * nbm p \<le> nbn p - 1" "nbm p = 3 * nb_E p + 1" "0 \<le> nb_w p" "nb_w p < nb_R p"
    "1 \<le> nb_E p" "nb_E p < nbm p"
proof -
  have p: "4 \<le> nbm p" "(nbm p - 1) mod 3 = 0" "4 \<le> nb_R p" using assms by (auto simp: params_ok_def ConsensusParams_def Let_def nb_R_def)
  then show "4 \<le> nbm p" "4 \<le> nb_R p" "nbm p = 3 * nb_E p + 1" "0 \<le> nb_w p" "nb_w p < nb_R p" "1 \<le> nb_E p" "nb_E p < nbm p"
    unfolding nb_E_def nb_w_def by presburger+
  show "nb_R p * nbm p \<le> nbn p - 1" unfolding nb_R_def using p(1) div_mod_decomp_int[of "nbn p - 1" "nbm p"]
    by (smt (verit) pos_mod_sign)
qed

definition roles_ok :: "nb_params \<Rightarrow> string list \<Rightarrow> membership \<Rightarrow> bool" where
  "roles_ok p ring ms \<longleftrightarrow> distinct (all_nodes ms) \<and> set (all_nodes ms) = set ring \<and>
     length (mb_groups ms) = nat (nb_R p) \<and> (\<forall>g \<in> set (mb_groups ms). length g = nat (nbm p)) \<and>
     length (mb_reps ms) = nat (nb_R p) \<and> (\<forall>g < nat (nb_R p). mb_reps ms ! g \<in> set (mb_groups ms ! g))"

lemma set_by_position [simp]: "set (by_position xs) = set xs" "distinct (by_position xs) = distinct xs" "length (by_position xs) = length xs"
  by (simp_all add: by_position_def)

lemma clockwise_ok: "xs \<noteq> [] \<Longrightarrow> okE (\<lambda>i. i \<in> set xs) (clockwise_from point xs)"
proof -
  assume "xs \<noteq> []"
  then obtain y ys where y: "by_position xs = y # ys" by (metis list.exhaust length_0_conv set_by_position(3))
  then have "y \<in> set xs" using set_by_position(1)[of xs] by auto
  moreover have "i \<in> set xs" if "find P (by_position xs) = Some i" for P i
    using that set_by_position(1)[of xs] by (metis find_Some_iff nth_mem)
  ultimately show ?thesis by (auto simp: clockwise_from_def Let_def split: option.split) (simp add: y)
qed

lemma elect_ok: "ring \<noteq> [] \<Longrightarrow> okE (\<lambda>i. i \<in> set ring) (elect_primary ring view h pm)"
  using clockwise_ok[of ring] by (auto simp: elect_primary_def split: list.split)

lemma nth_index_of: "x \<in> set xs \<Longrightarrow> index_of x xs < length xs \<and> xs ! index_of x xs = x"
  by (induction xs) auto

text \<open>The others are the ring rotated to behind the primary.\<close>

lemma rotated_tl:
  assumes "k < length xs"
  shows "map (\<lambda>i. xs ! ((k + 1 + i) mod length xs)) [0..<length xs - 1] = tl (rotate k xs)"
proof (rule nth_equalityI)
  fix i assume i: "i < length (map (\<lambda>i. xs ! ((k + 1 + i) mod length xs)) [0..<length xs - 1])"
  then have "tl (rotate k xs) ! i = rotate k xs ! Suc i" by (simp add: nth_tl)
  then show "map (\<lambda>i. xs ! ((k + 1 + i) mod length xs)) [0..<length xs - 1] ! i = tl (rotate k xs) ! i"
    using i assms by (simp add: nth_rotate)
qed simp

lemma others_ok:
  assumes "distinct ring" "p \<in> set ring" "2 \<le> length ring"
  shows "okE (\<lambda>os. distinct (p # os) \<and> set (p # os) = set ring) (others_of ring p view)"
proof -
  let ?k = "index_of p ring"
  have k: "?k < length ring" "ring ! ?k = p" using nth_index_of[OF assms(2)] by auto
  have ne: "rotate ?k ring \<noteq> []" using assms(3) by auto
  have hd: "hd (rotate ?k ring) = p" using k hd_rotate_conv_nth[of ring ?k] assms(3) by fastforce
  let ?os = "tl (rotate ?k ring)"
  have r: "p # ?os = rotate ?k ring" using hd ne by (metis list.collapse)
  have "distinct (p # ?os)" "set (p # ?os) = set ring" unfolding r using assms(1) by simp_all
  moreover have "?os \<noteq> []" using assms(3) by (metis One_nat_def Suc_1 diff_is_0_eq length_0_conv length_rotate length_tl not_less_eq_eq)
  moreover have "set (drop n xs @ take n xs) = set xs" "distinct (drop n xs @ take n xs) = distinct xs" for n and xs :: "string list"
    by (metis append_take_drop_id set_append Un_commute, metis append_take_drop_id distinct_append Int_commute)
  ultimately show ?thesis unfolding others_of_def Let_def rotated_tl[OF k(1)] by (simp add: raise_if_def del: set_append distinct_append)
qed

lemma mapE_nth:
  assumes "\<And>x. x \<in> set xs \<Longrightarrow> okE (Q x) (f x)"
  shows "okE (\<lambda>ys. length ys = length xs \<and> (\<forall>k < length xs. Q (xs ! k) (ys ! k))) (mapE f xs)"
  using assms
proof (induction xs)
  case (Cons x xs)
  have "okE (Q x) (f x)" "okE (\<lambda>ys. length ys = length xs \<and> (\<forall>k < length xs. Q (xs ! k) (ys ! k))) (mapE f xs)" using Cons by auto
  then show ?case by (auto simp: okE_iff less_Suc_eq_0_disj)
qed simp

text \<open>Slices of length \<open>m\<close>.\<close>

lemma concat_slices: "concat (map (\<lambda>g. take m (drop (g * m) xs)) [0..<r]) = take (r * m) xs"
proof (induction r)
  case (Suc r)
  have "take (Suc r * m) xs = take (r * m + m) xs" by (simp add: add.commute)
  then show ?case using Suc by (simp add: take_add)
qed simp

lemma membership_ok:
  assumes p: "params_ok p" and ring: "distinct ring" "int (length ring) = nbn p"
  shows "okE (roles_ok p ring) (ring_membership ring view h pm (nat (nbm p)) (nat (nb_R p)))"
proof -
  let ?m = "nat (nbm p)" and ?r = "nat (nb_R p)"
  note P = params_okD[OF p]
  have rm: "?r * ?m \<le> length ring - 1"
    using P(1-3) ring(2) by (smt (verit) nat_mult_distrib nat_int nat_le_iff of_nat_diff of_nat_1 nat_mono zero_le_mult_iff)
  have "16 \<le> ?r * ?m" using P(1,2) mult_le_mono[of 4 ?r 4 ?m] by simp
  then have two: "2 \<le> length ring" using rm by simp
  have slices: "okE (roles_ok p ring) (let groups = map (\<lambda>g. take ?m (drop (g * ?m) os)) [0..<?r] in
      bindE (mapE (\<lambda>g. clockwise_from (ring_hash (i @ ''|'' @ int_str view @ ''|'' @ nat_str g)) (groups ! g)) [0..<?r]) (\<lambda>reps.
      Inr \<lparr>mb_view = view, mb_primary = i, mb_groups = groups, mb_reps = reps, mb_ungrouped = drop (?r * ?m) os\<rparr>))"
    if os: "distinct (i # os)" "set (i # os) = set ring" for i os
  proof -
    define groups where "groups = map (\<lambda>g. take ?m (drop (g * ?m) os)) [0..<?r]"
    have len: "length os = length ring - 1"
      using distinct_card[OF os(1)] distinct_card[OF ring(1)] os(2) by simp
    have "length (groups ! g) = ?m" if "g < ?r" for g
    proof -
      have "g * ?m + ?m \<le> ?r * ?m" using that by (metis Suc_leI add.commute mult_Suc mult_le_mono1)
      then have "?m \<le> length os - g * ?m" using rm len by linarith
      then show ?thesis using that by (simp add: groups_def)
    qed
    moreover have "groups ! g \<noteq> []" if "g < ?r" for g using calculation[OF that] P(1) by auto
    then have "okE (\<lambda>reps. length reps = ?r \<and> (\<forall>g < ?r. reps ! g \<in> set (groups ! g)))
        (mapE (\<lambda>g. clockwise_from (ring_hash (i @ ''|'' @ int_str view @ ''|'' @ nat_str g)) (groups ! g)) [0..<?r])"
      using mapE_nth[of "[0..<?r]" "\<lambda>g x. x \<in> set (groups ! g)"
        "\<lambda>g. clockwise_from (ring_hash (i @ ''|'' @ int_str view @ ''|'' @ nat_str g)) (groups ! g)"] clockwise_ok by simp
    moreover have "i # concat groups @ drop (?r * ?m) os = i # os" by (simp add: groups_def concat_slices)
    ultimately show ?thesis
      unfolding groups_def[symmetric] Let_def okE_simps
      by (elim okE_mono) (use os in \<open>auto simp: roles_ok_def all_nodes_def groups_def in_set_conv_nth simp flip: append_assoc\<close>)
  qed
  show ?thesis unfolding ring_membership_def okE_simps
    by (rule okE_mono[OF elect_ok], use two in force, rule okE_mono[OF others_ok[OF ring(1) _ two]]) (use slices in auto)
qed

section \<open>Signatures\<close>

definition plain :: "string \<Rightarrow> bool" where
  "plain i \<longleftrightarrow> CHR ''~'' \<notin> set i"

lemma split_sign:
  assumes "plain i"
  shows "sig_signer (sign i d) = i" "sig_valid (sign i d) d"
proof -
  have "takeWhile (\<lambda>c. c \<noteq> CHR ''~'') (i @ CHR ''~'' # d) = i" "dropWhile (\<lambda>c. c \<noteq> CHR ''~'') (i @ CHR ''~'' # d) = CHR ''~'' # d"
    using assms unfolding plain_def by (induction i) auto
  then show "sig_signer (sign i d) = i" "sig_valid (sign i d) d"
    by (simp_all add: sig_signer_def sig_valid_def split_sig_def sign_def)
qed

lemma inj_sign: "inj (\<lambda>i. sign i d)"
  by (simp add: inj_def sign_def)

section \<open>Ledgers\<close>

definition ledger_ok :: "nb_params \<Rightarrow> string list \<Rightarrow> vote_ledger \<Rightarrow> bool" where
  "ledger_ok p ring L \<longleftrightarrow> vl_params L = p \<and> roles_ok p ring (vl_membership L) \<and>
     (\<forall>g < nat (nb_R p). \<forall>d. group_signers L (g, d) \<subseteq> set (mb_groups (vl_membership L) ! g) \<and>
        aggregate_best L (g, d) \<le> int (card (group_signers L (g, d)))) \<and>
     (\<forall>d. ungrouped_signers L d \<subseteq> set (mb_ungrouped (vl_membership L)))"

lemma ledger_ok_init: "roles_ok p ring ms \<Longrightarrow> ledger_ok p ring (VoteLedger p ms)"
  by (simp add: ledger_ok_def VoteLedger_def)

lemma valid_signers_sub: "valid_group_signers L g d sigs \<subseteq> set (mb_groups (vl_membership L) ! g)" "finite (valid_group_signers L g d sigs)"
  by (auto simp: valid_group_signers_def)

lemma ledger_ok_aggregate: "ledger_ok p ring L \<Longrightarrow> ledger_ok p ring (add_group_aggregate g d sigs L)"
proof -
  assume L: "ledger_ok p ring L"
  have "max (aggregate_best L (g, d)) (int (card (valid_group_signers L g d sigs))) \<le>
      int (card (group_signers L (g, d) \<union> valid_group_signers L g d sigs))" if "g < nat (nb_R p)"
  proof -
    have "finite (group_signers L (g, d))" using L that by (auto simp: ledger_ok_def intro: finite_subset)
    then have f: "finite (group_signers L (g, d) \<union> valid_group_signers L g d sigs)" using valid_signers_sub(2) by simp
    have "aggregate_best L (g, d) \<le> int (card (group_signers L (g, d)))" using L that by (auto simp: ledger_ok_def)
    with card_mono[OF f Un_upper1] card_mono[OF f Un_upper2] show ?thesis by linarith
  qed
  then show ?thesis using L valid_signers_sub(1)[of L g d sigs] by (auto simp: ledger_ok_def add_group_aggregate_def Let_def)
qed

lemma ledger_ok_individual: "ledger_ok p ring L \<Longrightarrow> ledger_ok p ring (add_group_individual g d sigs L)"
proof -
  assume L: "ledger_ok p ring L"
  have "aggregate_best L (g, d) \<le> int (card (group_signers L (g, d) \<union> valid_group_signers L g d sigs))" if "g < nat (nb_R p)"
  proof -
    have "finite (group_signers L (g, d))" using L that by (auto simp: ledger_ok_def intro: finite_subset)
    then have f: "finite (group_signers L (g, d) \<union> valid_group_signers L g d sigs)" using valid_signers_sub(2) by simp
    have "aggregate_best L (g, d) \<le> int (card (group_signers L (g, d)))" using L that by (auto simp: ledger_ok_def)
    with card_mono[OF f Un_upper1] show ?thesis by linarith
  qed
  then show ?thesis using L valid_signers_sub(1)[of L g d sigs] by (auto simp: ledger_ok_def add_group_individual_def)
qed

lemma ledger_ok_ungrouped: "ledger_ok p ring L \<Longrightarrow> i \<in> set (mb_ungrouped (vl_membership L)) \<Longrightarrow> ledger_ok p ring (add_ungrouped i d sigs L)"
  by (auto simp: ledger_ok_def add_ungrouped_def)

text \<open>The groups and the nodes without a group do not overlap, so the signers of a proof can be counted group by group.\<close>

lemma distinct_concat_nth:
  "distinct (concat xss) \<Longrightarrow> g < length xss \<Longrightarrow> k < length xss \<Longrightarrow> g \<noteq> k \<Longrightarrow> set (xss ! g) \<inter> set (xss ! k) = {}"
proof (induction xss arbitrary: g k)
  case (Cons xs xss)
  have "set xs \<inter> set (xss ! j) = {}" if "j < length xss" for j using Cons.prems(1) nth_mem[OF that] by auto
  then show ?case using Cons.IH Cons.prems by (cases g; cases k) (simp_all add: Int_commute)
qed simp

lemma roles_disjoint:
  assumes "roles_ok p ring ms"
  shows "g < nat (nb_R p) \<Longrightarrow> k < nat (nb_R p) \<Longrightarrow> g \<noteq> k \<Longrightarrow> set (mb_groups ms ! g) \<inter> set (mb_groups ms ! k) = {}"
    "g < nat (nb_R p) \<Longrightarrow> set (mb_groups ms ! g) \<inter> set (mb_ungrouped ms) = {}"
    "g < nat (nb_R p) \<Longrightarrow> set (mb_groups ms ! g) \<subseteq> set ring" "set (mb_ungrouped ms) \<subseteq> set ring"
proof -
  have d: "distinct (concat (mb_groups ms))" "set (concat (mb_groups ms)) \<inter> set (mb_ungrouped ms) = {}" "length (mb_groups ms) = nat (nb_R p)"
      "set (concat (mb_groups ms)) \<subseteq> set ring" "set (mb_ungrouped ms) \<subseteq> set ring"
    using assms by (auto simp: roles_ok_def all_nodes_def)
  have sub: "set (mb_groups ms ! g) \<subseteq> set (concat (mb_groups ms))" if "g < nat (nb_R p)" for g using d(3) that by (metis UN_upper nth_mem set_concat)
  show "g < nat (nb_R p) \<Longrightarrow> set (mb_groups ms ! g) \<inter> set (mb_ungrouped ms) = {}" using sub d(2) by blast
  show "g < nat (nb_R p) \<Longrightarrow> set (mb_groups ms ! g) \<subseteq> set ring" "set (mb_ungrouped ms) \<subseteq> set ring"
    using sub d(4,5) by blast+
  show "g < nat (nb_R p) \<Longrightarrow> k < nat (nb_R p) \<Longrightarrow> g \<noteq> k \<Longrightarrow> set (mb_groups ms ! g) \<inter> set (mb_groups ms ! k) = {}"
    using d(1,3) distinct_concat_nth[of "mb_groups ms"] by simp
qed

lemma proof_signers_card:
  assumes "ledger_ok p ring L"
  shows "card (proof_signers L d) = (\<Sum>g < nat (nb_R p). card (group_signers L (g, d))) + card (ungrouped_signers L d)"
    "proof_signers L d \<subseteq> set ring"
proof -
  let ?ms = "vl_membership L" and ?r = "nat (nb_R p)"
  have r: "roles_ok p ring ?ms" "length (mb_groups ?ms) = ?r" using assms by (auto simp: ledger_ok_def roles_ok_def)
  have sub: "group_signers L (g, d) \<subseteq> set (mb_groups ?ms ! g)" if "g < ?r" for g using assms that by (auto simp: ledger_ok_def)
  have un: "ungrouped_signers L d \<subseteq> set (mb_ungrouped ?ms)" using assms by (auto simp: ledger_ok_def)
  note D = roles_disjoint[OF r(1)]
  have fin: "finite (group_signers L (g, d))" if "g < ?r" for g using sub[OF that] finite_subset by blast
  have P: "proof_signers L d = (\<Union>g \<in> {..<?r}. group_signers L (g, d)) \<union> ungrouped_signers L d"
    by (simp add: proof_signers_def r(2) atLeast0LessThan)
  have "card (\<Union>g \<in> {..<?r}. group_signers L (g, d)) = (\<Sum>g < ?r. card (group_signers L (g, d)))"
    by (rule card_UN_disjoint) (use fin sub D(1) in \<open>auto, blast\<close>)
  moreover have "(\<Union>g \<in> {..<?r}. group_signers L (g, d)) \<inter> ungrouped_signers L d = {}" using sub un D(2) by blast
  ultimately show "card (proof_signers L d) = (\<Sum>g < ?r. card (group_signers L (g, d))) + card (ungrouped_signers L d)"
    unfolding P using fin finite_subset[OF un] by (subst card_Un_disjoint) auto
  show "proof_signers L d \<subseteq> set ring" unfolding P using sub un D(3,4) by blast
qed

text \<open>A group that counts fully has at least \<open>m - E\<close> signers, so votes become signers at the rate \<open>m - E\<close> to \<open>m\<close>.\<close>

lemma votes_give_signers:
  assumes "ledger_ok p ring L" "params_ok p"
  shows "full_vote_quorum p * votes_for L d \<le> nbm p * int (card (proof_signers L d))"
proof -
  let ?r = "nat (nb_R p)" and ?q = "full_vote_quorum p" and ?c = "\<lambda>g. int (card (group_signers L (g, d)))"
  note P = params_okD[OF assms(2)]
  have q: "0 < ?q" "?q \<le> nbm p" using P by (simp_all add: full_vote_quorum_def)
  have par: "vl_params L = p" "length (mb_groups (vl_membership L)) = ?r" using assms(1) by (auto simp: ledger_ok_def roles_ok_def)
  have g: "?q * group_votes L g d \<le> nbm p * ?c g" if "g < ?r" for g
  proof (cases "?q \<le> aggregate_best L (g, d)")
    case True
    moreover have "aggregate_best L (g, d) \<le> ?c g" using assms(1) that by (simp add: ledger_ok_def)
    ultimately have "?q \<le> ?c g" by linarith
    then show ?thesis using True P(1) mult_left_mono[of ?q "?c g" "nbm p"] by (simp add: group_votes_def par mult.commute)
  next
    case False
    then show ?thesis using mult_right_mono[OF q(2), of "?c g"] by (simp add: group_votes_def par)
  qed
  have "?q * votes_for L d = (\<Sum>g < ?r. ?q * group_votes L g d) + ?q * int (card (ungrouped_signers L d))"
    by (simp add: votes_for_def par interv_sum_list_conv_sum_set_nat atLeast0LessThan distrib_left sum_distrib_left)
  also have "\<dots> \<le> (\<Sum>g < ?r. nbm p * ?c g) + nbm p * int (card (ungrouped_signers L d))"
    by (intro add_mono sum_mono mult_right_mono) (use g q in auto)
  also have "\<dots> = nbm p * int (card (proof_signers L d))"
    by (simp add: proof_signers_card(1)[OF assms(1)] distrib_left sum_distrib_left)
  finally show ?thesis .
qed

lemma threshold_gives_proof:
  assumes "ledger_ok p ring L" "params_ok p" "vote_threshold p \<le> votes_for L d"
  shows "proof_quorum p \<le> int (card (proof_signers L d))"
proof -
  have m: "0 < nbm p" "0 < full_vote_quorum p" using params_okD[OF assms(2)] by (simp_all add: full_vote_quorum_def)
  have "nbm p * proof_quorum p = full_vote_quorum p * vote_threshold p" by (simp add: proof_quorum_def vote_threshold_def)
  also have "\<dots> \<le> full_vote_quorum p * votes_for L d" using assms(3) m(2) by simp
  also have "\<dots> \<le> nbm p * int (card (proof_signers L d))" by (rule votes_give_signers[OF assms(1,2)])
  finally show ?thesis using m(1) by simp
qed

section \<open>An honest node\<close>

text \<open>A commit message whose proof the other nodes accept.\<close>

definition good_commit :: "nb_params \<Rightarrow> string list \<Rightarrow> nb_msg \<Rightarrow> bool" where
  "good_commit p ring m \<longleftrightarrow> vote_threshold p \<le> nm_votes m \<and>
     (\<exists>I \<subseteq> set ring. nm_sigs m = sorted_list_of_set ((\<lambda>i. sign i (nm_digest m)) ` I) \<and> proof_quorum p \<le> int (card I))"

definition setup_ok :: "nb_params \<Rightarrow> string list \<Rightarrow> bool" where
  "setup_ok p ring \<longleftrightarrow> params_ok p \<and> distinct ring \<and> int (length ring) = nbn p \<and> ungrouped_count p = 0"

definition nb_inv :: "nb_params \<Rightarrow> string list \<Rightarrow> nb_node \<Rightarrow> bool" where
  "nb_inv p ring s \<longleftrightarrow> nb_par s = p \<and> nb_ring s = ring \<and> behavior s = None \<and> roles_ok p ring (nb_members s) \<and>
     (\<forall>k L. rs_ledger (states s k) = Some L \<longrightarrow> ledger_ok p ring L) \<and>
     (\<forall>(m, r) \<in> set (nb_out s). nm_type m = COMMIT \<longrightarrow> good_commit p ring m)"

lemma no_ungrouped:
  assumes "setup_ok p ring" "roles_ok p ring ms"
  shows "mb_ungrouped ms = []"
proof -
  note P = params_okD[of p]
  have "length (all_nodes ms) = length ring"
    using assms distinct_card[of "all_nodes ms"] distinct_card[of ring] by (simp add: setup_ok_def roles_ok_def)
  moreover have "length (concat (mb_groups ms)) = nat (nb_R p) * nat (nbm p)"
    using assms(2) by (simp add: roles_ok_def length_concat sum_list_triv cong: map_cong)
  moreover have "int (nat (nb_R p) * nat (nbm p)) = nbn p - 1"
    using assms(1) P by (simp add: setup_ok_def ungrouped_count_def grouped_count_def)
  moreover have "int (length ring) = nbn p" using assms(1) by (simp add: setup_ok_def)
  moreover have "length (all_nodes ms) = Suc (length (concat (mb_groups ms)) + length (mb_ungrouped ms))" by (simp add: all_nodes_def)
  ultimately have "length (mb_ungrouped ms) = 0" by linarith
  then show ?thesis by simp
qed

lemma ok_compute:
  assumes "setup_ok p ring" "nb_par s = p" "nb_ring s = ring"
  shows "okE (roles_ok p ring) (compute_membership view s)"
  using membership_ok[of p ring] assms by (simp add: compute_membership_def setup_ok_def)

lemma inv_updates [simp]:
  "nb_inv p ring (s\<lparr>nb_running := a\<rparr>) = nb_inv p ring s" "nb_inv p ring (s\<lparr>nb_view := v\<rparr>) = nb_inv p ring s"
  "nb_inv p ring (s\<lparr>chain := c\<rparr>) = nb_inv p ring s" "nb_inv p ring (s\<lparr>last_committed_primary := l\<rparr>) = nb_inv p ring s"
  "nb_inv p ring (s\<lparr>nb_pending := q\<rparr>) = nb_inv p ring s" "nb_inv p ring (s\<lparr>watchdogs := W\<rparr>) = nb_inv p ring s"
  "nb_inv p ring (s\<lparr>viewchange_votes := V\<rparr>) = nb_inv p ring s" "nb_inv p ring (s\<lparr>voted_view := v\<rparr>) = nb_inv p ring s"
  "nb_inv p ring (s\<lparr>nb_timers := T\<rparr>) = nb_inv p ring s"
  by (simp_all add: nb_inv_def)

lemma inv_cancel [simp]: "nb_inv p ring (cancel_rep_timer v q s) = nb_inv p ring s"
  by (simp add: cancel_rep_timer_def)

lemma inv_members: "nb_inv p ring s \<Longrightarrow> roles_ok p ring ms \<Longrightarrow> nb_inv p ring (s\<lparr>nb_members := ms\<rparr>)"
  by (simp add: nb_inv_def)

lemma inv_upd: "nb_inv p ring s \<Longrightarrow> (\<And>st. rs_ledger (f st) = rs_ledger st) \<Longrightarrow> nb_inv p ring (upd v q f s)"
  by (simp add: nb_inv_def upd_def)

lemma inv_upd_ledger:
  assumes "nb_inv p ring s" "\<And>L. ledger_ok p ring L \<Longrightarrow> ledger_ok p ring (f L)"
  shows "nb_inv p ring (upd_ledger v q f s)"
proof -
  have "ledger_ok p ring (led s (states s (v, q)))"
    using assms(1) ledger_ok_init by (auto simp: led_def nb_inv_def split: option.split)
  then show ?thesis using assms by (auto simp: nb_inv_def upd_ledger_def upd_def)
qed

lemma inv_send: "nb_inv p ring s \<Longrightarrow> (nm_type m = COMMIT \<Longrightarrow> good_commit p ring m) \<Longrightarrow> nb_inv p ring (nb_send m r s)"
  by (auto simp: nb_inv_def nb_send_def corrupt_def)

lemma inv_broadcast:
  assumes "nb_inv p ring s" "nm_type m \<noteq> COMMIT"
  shows "nb_inv p ring (nb_broadcast m rs s)"
proof -
  have "nb_inv p ring (nb_send m r t)" if "nb_inv p ring t" for r t using inv_send[OF that] assms(2) by blast
  then have "nb_inv p ring t \<Longrightarrow> nb_inv p ring (fold (nb_send m) xs t)" for xs t by (induction xs arbitrary: t) simp_all
  then show ?thesis using assms(1) by (simp add: nb_broadcast_def)
qed

lemma message_type [simp]: "nm_type (Message t a b c d) = t" "nm_digest (Message t a b c d) = d"
  by (simp_all add: Message_def)

lemma inv_threshold:
  assumes "setup_ok p ring" "nb_inv p ring s"
  shows "nb_inv p ring (check_vote_threshold v q s)"
proof (cases "rs_digest (states s (v, q))")
  case (Some d)
  let ?L = "led s (states s (v, q))"
  have L: "ledger_ok p ring ?L"
    using assms(2) ledger_ok_init by (auto simp: led_def nb_inv_def split: option.split)
  have "good_commit p ring ((Message COMMIT (nb_id s) v q d)\<lparr>nm_sigs := proof_signatures ?L d, nm_votes := votes_for ?L d\<rparr>)"
    if "vote_threshold p \<le> votes_for ?L d"
    using that threshold_gives_proof[OF L] proof_signers_card(2)[OF L] assms(1)
    by (auto simp: good_commit_def proof_signatures_def setup_ok_def)
  moreover have "nb_par s = p" using assms(2) by (simp add: nb_inv_def)
  moreover have "nb_inv p ring (upd_ledger v q id s)" using assms(2) by (intro inv_upd_ledger) auto
  ultimately show ?thesis using assms(2) by (auto simp: check_vote_threshold_def Some Let_def intro!: inv_send inv_upd)
qed (simp add: check_vote_threshold_def assms)

lemmas inv_intros = inv_upd inv_upd_ledger inv_send inv_broadcast inv_threshold inv_members ledger_ok_aggregate ledger_ok_individual

lemma inv_aggregate:
  assumes "setup_ok p ring" "nb_inv p ring s"
  shows "nb_inv p ring (maybe_aggregate v q g s)"
  using assms by (auto simp: maybe_aggregate_def send_aggregate_def Let_def split: option.split intro!: inv_intros)

lemma inv_fires:
  assumes "setup_ok p ring" "nb_inv p ring s"
  shows "nb_inv p ring (partial_timer v q s)" "nb_inv p ring (model1_block v q s)" "nb_inv p ring (rep_timer v q s)"
  using assms by (auto simp: partial_timer_def model1_block_def rep_timer_def Let_def split: option.split intro!: inv_intros)

lemma inv_propose: "nb_inv p ring s \<Longrightarrow> nb_inv p ring (nb_propose d s)"
  by (auto simp: nb_propose_def Let_def intro!: inv_intros)

lemma inv_handlers:
  assumes "setup_ok p ring" "nb_inv p ring s"
  shows "nb_inv p ring (on_request m s)" "nb_inv p ring (on_preprepare1 m s)" "nb_inv p ring (on_in_prepare1 m s)"
    "nb_inv p ring (on_in_prepare2 m s)"
  using assms inv_fires(2)[OF assms]
  by (auto simp: on_request_def on_preprepare1_def on_in_prepare1_def on_in_prepare2_def arm_watchdog_def Let_def
      split: option.split intro!: inv_intros inv_aggregate inv_propose)

lemma inv_out_prepare:
  assumes "setup_ok p ring" "nb_inv p ring s"
  shows "nb_inv p ring (on_out_prepare m s)"
proof -
  have "mb_ungrouped (nb_members s) = []" using no_ungrouped[OF assms(1)] assms(2) by (simp add: nb_inv_def)
  then show ?thesis using assms by (auto simp: on_out_prepare_def Let_def split: option.split intro!: inv_intros)
qed

lemma inv_execute:
  assumes "setup_ok p ring" "nb_inv p ring s"
  shows "okE (nb_inv p ring) (nb_execute v q d s)"
proof -
  have par: "nb_par t = p \<and> nb_ring t = ring" if "nb_inv p ring t" for t using that by (simp add: nb_inv_def)
  have redraw: "okE (nb_inv p ring) (bindE (compute_membership w t) (\<lambda>ms. Inr (t\<lparr>nb_members := ms\<rparr>)))" if "nb_inv p ring t" for w t
    using okE_mono[OF ok_compute[OF assms(1)]] par[OF that] inv_members[OF that] by auto
  show ?thesis unfolding nb_execute_def Let_def
    by (auto intro!: redraw inv_intros assms(2) split del: if_split split: if_split simp: assms(2) simp del: okE_simps(3))
qed

lemma inv_adopt:
  assumes "setup_ok p ring" "nb_inv p ring s"
  shows "okE (nb_inv p ring) (maybe_adopt_view v s)"
proof -
  have "okE (roles_ok p ring) (compute_membership v s)" using assms by (intro ok_compute) (auto simp: nb_inv_def)
  then show ?thesis unfolding maybe_adopt_view_def using assms(2)
    by (auto simp: Let_def split: option.split elim!: okE_mono intro!: inv_propose inv_members)
qed

lemma inv_view_change:
  assumes "setup_ok p ring" "nb_inv p ring s"
  shows "okE (nb_inv p ring) (vote_view_change v s)" "okE (nb_inv p ring) (on_view_change m s)"
proof -
  have vote: "okE (nb_inv p ring) (vote_view_change v s)" if "nb_inv p ring s" for s v
    using that by (auto simp: vote_view_change_def Let_def intro!: inv_adopt assms(1) inv_broadcast)
  then show "okE (nb_inv p ring) (vote_view_change v s)" using assms(2) .
  show "okE (nb_inv p ring) (on_view_change m s)"
    using assms by (auto simp: on_view_change_def Let_def split: option.split intro!: okE_mono[OF vote] inv_adopt)
qed

lemma inv_commit:
  assumes "setup_ok p ring" "nb_inv p ring s"
  shows "okE (nb_inv p ring) (nb_on_commit m s)" "okE (nb_inv p ring) (on_preprepare2 m s)"
  using assms by (auto simp: nb_on_commit_def on_preprepare2_def Let_def intro!: inv_execute inv_broadcast inv_upd)

lemma inv_step:
  assumes "setup_ok p ring" "nb_inv p ring s"
  shows "okE (nb_inv p ring) (nb_step e s)"
proof (cases e)
  case (Deliver m)
  then show ?thesis using assms inv_handlers[OF assms] inv_out_prepare[OF assms] inv_commit[OF assms] inv_view_change(2)[OF assms]
    by (auto simp: nb_handle_def split: nb_type.split)
next
  case (Fire t)
  then show ?thesis using assms by (auto simp: Let_def split: nb_timer.split intro!: inv_fires)
next
  case (Watchdog d)
  then show ?thesis using assms inv_view_change(1)[OF assms] by (auto simp: watchdog_def)
qed (simp add: stop_nb_def assms)

interpretation nbft: machine nb_step "\<lambda>s. setup_ok p ring \<and> nb_inv p ring s" for p ring
  by unfold_locales (use inv_step okE_iff in metis)

lemma inv_init:
  assumes "setup_ok p ring" "init_nb None i p ring h = Inr s"
  shows "nb_inv p ring s"
proof -
  let ?ms = "\<lparr>mb_view = 0, mb_primary = [], mb_groups = [], mb_reps = [], mb_ungrouped = []\<rparr>"
  let ?s = "\<lparr>nb_id = i, nb_par = p, nb_ring = ring, behavior = None, str_hash = h, nb_running = True, nb_view = 0, chain = [],
       last_committed_primary = None, nb_members = ?ms, states = (\<lambda>_. RoundState), nb_pending = [], watchdogs = {},
       viewchange_votes = (\<lambda>_. {}), voted_view = 0, nb_timers = {}, nb_out = []\<rparr>"
  obtain ms where ms: "compute_membership 0 ?s = Inr ms" "s = ?s\<lparr>nb_members := ms\<rparr>"
    using assms(2) by (auto simp: init_nb_def bindE_eq_Inr Let_def)
  have "roles_ok p ring ms" using ok_compute[OF assms(1), of ?s 0] ms(1) by simp
  then show ?thesis by (simp add: ms(2) nb_inv_def RoundState_def)
qed

end
