(* ===== verification/NB_Proofs.thy ===== *)
theory NB_Proofs
  imports NB_Invariant
begin

text \<open>
  Proofs of consensus in NBFT: which messages make a node append a block, and a run of a representative in the default
  configuration.
\<close>

section \<open>Executing\<close>

lemma send_frame [simp]:
  "chain (nb_send m r s) = chain s" "nb_par (nb_send m r s) = nb_par s" "nb_members (nb_send m r s) = nb_members s"
  "nb_view (nb_send m r s) = nb_view s" "states (nb_send m r s) = states s" "nb_id (nb_send m r s) = nb_id s"
  "behavior (nb_send m r s) = behavior s" "nb_running (nb_send m r s) = nb_running s"
  by (simp_all add: nb_send_def)

lemma broadcast_frame [simp]:
  "chain (nb_broadcast m rs s) = chain s" "nb_par (nb_broadcast m rs s) = nb_par s" "nb_members (nb_broadcast m rs s) = nb_members s"
  "nb_view (nb_broadcast m rs s) = nb_view s" "states (nb_broadcast m rs s) = states s" "nb_id (nb_broadcast m rs s) = nb_id s"
  "behavior (nb_broadcast m rs s) = behavior s"
proof -
  have "chain (fold (nb_send m) xs s) = chain s \<and> nb_par (fold (nb_send m) xs s) = nb_par s \<and>
      nb_members (fold (nb_send m) xs s) = nb_members s \<and> nb_view (fold (nb_send m) xs s) = nb_view s \<and>
      states (fold (nb_send m) xs s) = states s \<and> nb_id (fold (nb_send m) xs s) = nb_id s \<and> behavior (fold (nb_send m) xs s) = behavior s"
    for xs by (induction xs arbitrary: s) simp_all
  then show "chain (nb_broadcast m rs s) = chain s" "nb_par (nb_broadcast m rs s) = nb_par s" "nb_members (nb_broadcast m rs s) = nb_members s"
    "nb_view (nb_broadcast m rs s) = nb_view s" "states (nb_broadcast m rs s) = states s" "nb_id (nb_broadcast m rs s) = nb_id s"
    "behavior (nb_broadcast m rs s) = behavior s"
    by (simp_all add: nb_broadcast_def)
qed

lemma broadcast_out:
  assumes "behavior s = None"
  shows "nb_out (nb_broadcast m rs s) = nb_out s @ map (Pair m) (filter (\<lambda>r. r \<noteq> nb_id s) rs)"
proof -
  have "behavior s = None \<Longrightarrow> nb_out (fold (nb_send m) xs s) = nb_out s @ map (Pair m) xs" for xs s
    by (induction xs arbitrary: s) (simp_all add: nb_send_def corrupt_def)
  then show ?thesis using assms by (simp add: nb_broadcast_def)
qed

lemma upd_frame [simp]:
  "chain (upd v q f s) = chain s" "nb_par (upd v q f s) = nb_par s" "nb_members (upd v q f s) = nb_members s"
  "nb_view (upd v q f s) = nb_view s" "nb_id (upd v q f s) = nb_id s" "behavior (upd v q f s) = behavior s"
  "nb_out (upd v q f s) = nb_out s" "states (upd v q f s) = (states s)((v, q) := f (states s (v, q)))"
  "nb_running (upd v q f s) = nb_running s"
  by (simp_all add: upd_def)

lemma representative_upd [simp]: "is_representative (upd v q f s) = is_representative s" "is_representative (upd_ledger v q f' s) = is_representative s"
  unfolding is_representative_def my_group_def upd_ledger_def by (simp_all cong: option.case_cong)

lemma cancel_frame [simp]:
  "chain (cancel_rep_timer v q s) = chain s" "nb_par (cancel_rep_timer v q s) = nb_par s" "nb_members (cancel_rep_timer v q s) = nb_members s"
  "nb_view (cancel_rep_timer v q s) = nb_view s" "nb_id (cancel_rep_timer v q s) = nb_id s" "behavior (cancel_rep_timer v q s) = behavior s"
  "nb_out (cancel_rep_timer v q s) = nb_out s" "states (cancel_rep_timer v q s) = states s"
  by (simp_all add: cancel_rep_timer_def)

text \<open>A block that is not there yet is appended, whatever its number.\<close>

lemma execute_appends:
  assumes "setup_ok p ring" "nb_inv p ring s" "\<not> rs_executed (states s (v, q))" "\<not> nb_committed s d"
  shows "okE (\<lambda>s'. \<exists>b. chain s' = chain s @ [b] \<and> blk_digest b = d \<and> blk_seq b = q \<and> blk_previous b = head_hash s \<and>
    nb_out s' = nb_out s @ [(Message REPLY (nb_id s) v q d, ''client'')]) (nb_execute v q d s)"
proof -
  have "behavior s = None" using assms(2) by (simp add: nb_inv_def)
  have ok: "okE (\<lambda>_. True) (compute_membership w t)" if "nb_par t = nb_par s" "nb_ring t = nb_ring s" for w t
    using ok_compute[OF assms(1), of t w] that assms(2) by (auto simp: nb_inv_def elim!: okE_mono)
  show ?thesis using assms(3,4) \<open>behavior s = None\<close>
    by (auto simp: nb_execute_def Let_def nb_send_def corrupt_def cancel_rep_timer_def upd_def intro!: okE_any[OF ok])
qed

lemma execute_out:
  assumes "nb_execute v q d s = Inr s'" shows "set (nb_out s) \<subseteq> set (nb_out s')"
  using assms by (auto simp: nb_execute_def Let_def bindE_eq_Inr nb_send_def split: if_splits)

section \<open>Proofs\<close>

definition nb_run :: "nb_params \<Rightarrow> string list \<Rightarrow> string \<Rightarrow> (string \<Rightarrow> int) \<Rightarrow> nb_event list \<Rightarrow> py_error + nb_node" where
  "nb_run p ring i h es = bindE (init_nb None i p ring h) (foldE nb_step es)"

lemma run_nb_inv:
  assumes "setup_ok p ring" "nb_run p ring i h es = Inr s"
  shows "nb_inv p ring s"
proof -
  obtain s0 where s0: "init_nb None i p ring h = Inr s0" "foldE nb_step es s0 = Inr s" using assms(2) by (auto simp: nb_run_def bindE_eq_Inr)
  show ?thesis using nbft.run_inv[OF _ s0(2), of p ring] assms(1) inv_init[OF assms(1) s0(1)] by simp
qed

lemma proof_valid:
  assumes "good_commit p ring m" "\<forall>i \<in> set ring. plain i"
  defines "valid \<equiv> sorted_list_of_set (set (filter (\<lambda>sig. sig_valid sig (nm_digest m)) (nm_sigs m)))"
  shows "valid = nm_sigs m" "proof_quorum p \<le> int (length valid)"
    "proof_quorum p \<le> int (card (sig_signer ` set (filter (\<lambda>sig. sig_valid sig (nm_digest m)) valid)))" "sig_signer ` set valid \<subseteq> set ring"
proof -
  obtain I where I: "I \<subseteq> set ring" "nm_sigs m = sorted_list_of_set ((\<lambda>i. sign i (nm_digest m)) ` I)" "proof_quorum p \<le> int (card I)"
    using assms(1) by (auto simp: good_commit_def)
  have fin: "finite I" using I(1) finite_subset by blast
  have pl: "plain i" if "i \<in> I" for i using that I(1) assms(2) by auto
  have set: "set (nm_sigs m) = (\<lambda>i. sign i (nm_digest m)) ` I" using I(2) fin by simp
  then have all: "filter (\<lambda>sig. sig_valid sig (nm_digest m)) (nm_sigs m) = nm_sigs m"
    using pl split_sign(2) by (auto intro!: filter_True)
  show v: "valid = nm_sigs m" unfolding valid_def all unfolding I(2) using fin by simp
  have "sig_signer ` set (nm_sigs m) = I" unfolding set image_image using pl split_sign(1) by force
  then show "proof_quorum p \<le> int (card (sig_signer ` set (filter (\<lambda>sig. sig_valid sig (nm_digest m)) valid)))" "sig_signer ` set valid \<subseteq> set ring"
    unfolding v all using I(1,3) by auto
  have "length valid = card I" unfolding v I(2) using card_image[OF inj_on_subset[OF inj_sign]] by (simp add: fin)
  then show "proof_quorum p \<le> int (length valid)" using I(3) by simp
qed

lemma commit_accepted:
  assumes S: "setup_ok p ring" "\<forall>i \<in> set ring. plain i" and m: "good_commit p ring m" "nm_type m = COMMIT"
    and b: "nb_inv p ring b" "is_primary b" "nb_view b = nm_view m" "\<not> preprepare2_sent (states b (nm_view m, nm_seq m))"
  defines "pp2 \<equiv> (Message PREPREPARE2 (nb_id b) (nm_view m) (nm_seq m) (nm_digest m))\<lparr>nm_sigs := nm_sigs m, nm_votes := nm_votes m\<rparr>"
  shows "\<exists>b'. nb_handle m b = Inr b' \<and> (\<forall>q \<in> set (all_nodes (nb_members b)). q \<noteq> nb_id b \<longrightarrow> (pp2, q) \<in> set (nb_out b'))"
proof -
  have bb: "behavior b = None" "nb_par b = p" using b(1) by (auto simp: nb_inv_def)
  note P = proof_valid[OF m(1) S(2)]
  let ?s = "upd (nm_view m) (nm_seq m) (\<lambda>st. st\<lparr>commit_proofs := (commit_proofs st)(nm_digest m \<mapsto> nm_sigs m), preprepare2_sent := True\<rparr>) b"
  let ?s2 = "nb_broadcast pp2 (all_nodes (nb_members b)) ?s"
  have "vote_threshold p \<le> nm_votes m" using m(1) by (simp add: good_commit_def)
  then have h: "nb_handle m b = nb_execute (nm_view m) (nm_seq m) (nm_digest m) ?s2"
    using P(1,2) b(2-4) bb m(2) by (simp add: nb_handle_def nb_on_commit_def Let_def pp2_def)
  have "nb_inv p ring ?s2" using b(1) by (intro inv_broadcast inv_upd) (auto simp: pp2_def)
  then have "okE (nb_inv p ring) (nb_handle m b)" unfolding h by (rule inv_execute[OF S(1)])
  then obtain b' where "nb_handle m b = Inr b'" by (auto simp: okE_iff)
  moreover have "(pp2, q) \<in> set (nb_out ?s2)" if "q \<in> set (all_nodes (nb_members b))" "q \<noteq> nb_id b" for q
    using that bb(1) by (auto simp: broadcast_out)
  ultimately show ?thesis using h execute_out by fastforce
qed

lemma preprepare2_accepted:
  assumes S: "setup_ok p ring" and m: "nm_type m = PREPREPARE2" "nm_sender m = mb_primary (nb_members t)" "nm_view m = nb_view t"
      "vote_threshold p \<le> nm_votes m" "proof_quorum p \<le> int (card (sig_signer ` set (filter (\<lambda>sig. sig_valid sig (nm_digest m)) (nm_sigs m))))"
    and t: "nb_inv p ring t" "\<not> rs_executed (states t (nm_view m, nm_seq m))" "\<not> nb_committed t (nm_digest m)"
  shows "\<exists>t' blk. nb_handle m t = Inr t' \<and> chain t' = chain t @ [blk] \<and> blk_digest blk = nm_digest m \<and> blk_seq blk = nm_seq m \<and>
     (Message REPLY (nb_id t) (nm_view m) (nm_seq m) (nm_digest m), ''client'') \<in> set (nb_out t')"
proof -
  have "nb_handle m t = nb_execute (nm_view m) (nm_seq m) (nm_digest m) t"
    using m t(1) by (simp add: nb_handle_def on_preprepare2_def nb_inv_def)
  then show ?thesis using execute_appends[OF S t] by (auto simp: okE_iff)
qed

section \<open>A run of a representative\<close>

text \<open>A representative that received the proposal and the aggregates of \<open>R - w\<close> other groups.\<close>

definition full_aggregate :: "membership \<Rightarrow> string \<Rightarrow> nat \<Rightarrow> nb_msg" where
  "full_aggregate ms d g = (Message OUT_PREPARE (mb_reps ms ! g) 0 1 d)\<lparr>nm_sigs := map (\<lambda>i. sign i d) (mb_groups ms ! g), nm_group := Some g\<rparr>"

definition first_proposal :: "membership \<Rightarrow> string \<Rightarrow> nb_msg" where
  "first_proposal ms x = (Message PREPREPARE1 (mb_primary ms) 0 1 (payload_digest x))\<lparr>nm_payload := x\<rparr>"

lemma group_of_member:
  assumes "roles_ok p ring ms" "g < nat (nb_R p)" "i \<in> set (mb_groups ms ! g)"
  shows "group_of ms i = Some g"
proof -
  have "find_group k gs i = Some (k + g)" if "g < length gs" "i \<in> set (gs ! g)" "\<forall>j < g. i \<notin> set (gs ! j)" for k gs
    using that
  proof (induction gs arbitrary: k g)
    case (Cons a gs)
    show ?case
    proof (cases g)
      case (Suc l)
      then have "i \<notin> set a" "\<forall>j < l. i \<notin> set (gs ! j)" using Cons.prems(3) by auto
      then show ?thesis using Cons.IH[of l "Suc k"] Cons.prems Suc by simp
    qed (use Cons.prems in auto)
  qed simp
  moreover have "\<forall>j < g. i \<notin> set (mb_groups ms ! j)"
    using assms(2,3) roles_disjoint(1)[OF assms(1,2)] by (metis disjoint_iff less_imp_neq order.strict_trans)
  ultimately show ?thesis using assms by (simp add: group_of_def roles_ok_def)
qed

definition collected :: "nb_params \<Rightarrow> membership \<Rightarrow> string \<Rightarrow> nat list \<Rightarrow> vote_ledger" where
  "collected p ms d gs = fold (\<lambda>g. add_group_aggregate g d (nm_sigs (full_aggregate ms d g))) gs (VoteLedger p ms)"

lemma valid_full:
  assumes "vl_membership L = ms" "\<forall>i \<in> set (mb_groups ms ! g). plain i"
  shows "valid_group_signers L g d (nm_sigs (full_aggregate ms d g)) = set (mb_groups ms ! g)"
  using assms split_sign by (force simp: valid_group_signers_def full_aggregate_def)

lemma collected_ledger:
  assumes "roles_ok p ring ms" "params_ok p" "\<forall>i \<in> set ring. plain i" "set gs \<subseteq> {..<nat (nb_R p)}"
  shows "vl_membership (collected p ms d gs) = ms \<and> vl_params (collected p ms d gs) = p \<and> ungrouped_signers (collected p ms d gs) d = {} \<and>
    (\<forall>g < nat (nb_R p). aggregate_best (collected p ms d gs) (g, d) = (if g \<in> set gs then nbm p else 0) \<and>
      group_signers (collected p ms d gs) (g, d) = (if g \<in> set gs then set (mb_groups ms ! g) else {}))"
  using assms(4)
proof (induction gs rule: rev_induct)
  case (snoc g gs)
  have g: "g < nat (nb_R p)" using snoc.prems by simp
  have "distinct (mb_groups ms ! g)" "length (mb_groups ms ! g) = nat (nbm p)"
    using assms(1) g nth_mem[of g "mb_groups ms"] by (auto simp: roles_ok_def all_nodes_def distinct_concat_iff)
  then have "int (card (set (mb_groups ms ! g))) = nbm p" using params_okD(1)[OF assms(2)] by (simp add: distinct_card)
  moreover have "\<forall>i \<in> set (mb_groups ms ! g). plain i" using roles_disjoint(3)[OF assms(1) g] assms(3) by blast
  moreover have "collected p ms d (gs @ [g]) = add_group_aggregate g d (nm_sigs (full_aggregate ms d g)) (collected p ms d gs)"
    by (simp add: collected_def)
  ultimately show ?case using snoc valid_full[of "collected p ms d gs" ms g d] params_okD(1)[OF assms(2)]
    by (auto simp: add_group_aggregate_def Let_def)
qed (simp add: collected_def VoteLedger_def)

lemma collected_votes:
  assumes "roles_ok p ring ms" "params_ok p" "\<forall>i \<in> set ring. plain i" "set gs \<subseteq> {..<nat (nb_R p)}" "distinct gs"
  shows "votes_for (collected p ms d gs) d = nbm p * int (length gs)"
proof -
  note C = collected_ledger[OF assms(1-4), of d]
  have q: "0 < full_vote_quorum p" "full_vote_quorum p \<le> nbm p" using params_okD[OF assms(2)] by (simp_all add: full_vote_quorum_def)
  have "group_votes (collected p ms d gs) g d = (if g \<in> set gs then nbm p else 0)" if "g < nat (nb_R p)" for g
    using C q that by (simp add: group_votes_def)
  moreover have "length (mb_groups ms) = nat (nb_R p)" using assms(1) by (simp add: roles_ok_def)
  ultimately have "votes_for (collected p ms d gs) d = (\<Sum>g < nat (nb_R p). if g \<in> set gs then nbm p else 0)"
    using C by (simp add: votes_for_def interv_sum_list_conv_sum_set_nat atLeast0LessThan)
  also have "\<dots> = nbm p * int (card ({..<nat (nb_R p)} \<inter> set gs))" by (simp add: sum.If_cases)
  also have "{..<nat (nb_R p)} \<inter> set gs = set gs" using assms(4) by blast
  finally show ?thesis using distinct_card[OF assms(5)] by simp
qed

definition collecting :: "nb_params \<Rightarrow> membership \<Rightarrow> string \<Rightarrow> nat list \<Rightarrow> nb_node \<Rightarrow> bool" where
  "collecting p ms d gs s \<longleftrightarrow> nb_running s \<and> nb_members s = ms \<and> nb_view s = 0 \<and> nb_par s = p \<and> behavior s = None \<and> is_representative s \<and>
     rs_digest (states s (0, 1)) = Some d \<and> \<not> commit_sent (states s (0, 1)) \<and> led s (states s (0, 1)) = collected p ms d gs"

lemma collect_step:
  assumes "collecting p ms d gs s" "roles_ok p ring ms" "g < nat (nb_R p)"
  shows "votes_for (collected p ms d (gs @ [g])) d < vote_threshold p \<Longrightarrow> collecting p ms d (gs @ [g]) (on_out_prepare (full_aggregate ms d g) s)"
    "vote_threshold p \<le> votes_for (collected p ms d (gs @ [g])) d \<Longrightarrow>
      \<exists>m r. (m, r) \<in> set (nb_out (on_out_prepare (full_aggregate ms d g) s)) \<and> nm_type m = COMMIT \<and> nm_view m = 0 \<and> nm_seq m = 1 \<and> nm_digest m = d"
proof -
  let ?f = "add_group_aggregate g d (nm_sigs (full_aggregate ms d g))"
  have F: "nm_view (full_aggregate ms d g) = 0" "nm_seq (full_aggregate ms d g) = 1" "nm_digest (full_aggregate ms d g) = d"
    "nm_sender (full_aggregate ms d g) = mb_reps ms ! g" by (simp_all add: full_aggregate_def Message_def)
  have "group_of ms (mb_reps ms ! g) = Some g" using group_of_member[OF assms(2,3)] assms(2,3) by (simp add: roles_ok_def)
  then have e: "on_out_prepare (full_aggregate ms d g) s = check_vote_threshold 0 1 (upd_ledger 0 1 ?f s)"
    using assms(1) by (simp add: on_out_prepare_def Let_def F collecting_def)
  have L: "?f (led s (states s (0, 1))) = collected p ms d (gs @ [g])" using assms(1) by (simp add: collecting_def collected_def)
  have c: "collecting p ms d (gs @ [g]) (upd_ledger 0 1 ?f s)"
    using assms(1) L unfolding collecting_def representative_upd by (simp add: upd_ledger_def led_def)
  then have l: "led (upd_ledger 0 1 ?f s) (states (upd_ledger 0 1 ?f s) (0, 1)) = collected p ms d (gs @ [g])" by (simp add: collecting_def)
  show "votes_for (collected p ms d (gs @ [g])) d < vote_threshold p \<Longrightarrow> collecting p ms d (gs @ [g]) (on_out_prepare (full_aggregate ms d g) s)"
    unfolding e using c l unfolding collecting_def
    by (simp add: check_vote_threshold_def Let_def) (simp add: upd_ledger_def led_def)
  show "\<exists>m r. (m, r) \<in> set (nb_out (on_out_prepare (full_aggregate ms d g) s)) \<and> nm_type m = COMMIT \<and> nm_view m = 0 \<and> nm_seq m = 1 \<and> nm_digest m = d"
    if "vote_threshold p \<le> votes_for (collected p ms d (gs @ [g])) d"
    unfolding e using c l that by (simp add: check_vote_threshold_def Let_def collecting_def nb_send_def corrupt_def upd_ledger_def)
      (auto simp: Message_def)
qed

lemma start_collecting:
  assumes "params_ok p" "nb_members s = ms" "nb_view s = 0" "nb_par s = p" "behavior s = None" "is_representative s" "chain s = []"
    "states s = (\<lambda>_. RoundState)" "nb_running s"
  shows "collecting p ms (payload_digest x) [] (on_preprepare1 (first_proposal ms x) s)"
proof -
  let ?d = "payload_digest x"
  obtain g where g: "my_group s = Some g" using assms(6) by (auto simp: is_representative_def split: option.splits)
  have F: "nm_view (first_proposal ms x) = 0" "nm_seq (first_proposal ms x) = 1" "nm_digest (first_proposal ms x) = ?d"
    "nm_sender (first_proposal ms x) = mb_primary ms" "nm_payload (first_proposal ms x) = x"
    by (simp_all add: first_proposal_def Message_def)
  have q: "\<not> sig_quorum p \<le> 1" using params_okD(7)[OF assms(1)] by (simp add: sig_quorum_def)
  show ?thesis using assms g q
    by (simp add: on_preprepare1_def Let_def F next_seq_of_def collecting_def RoundState_def maybe_aggregate_def led_def collected_def)
      (simp add: is_representative_def my_group_def upd_def)
qed

section \<open>The default configuration\<close>

definition nbd_params :: nb_params where
  "nbd_params = \<lparr>nbn = 17, nbm = 4\<rparr>"

definition nbd_ids :: "string list" where
  "nbd_ids = map (\<lambda>k. ''10.0.0.'' @ nat_str k) [1..<18]"

definition nbd_ring :: "string list" where
  "nbd_ring = by_position nbd_ids"

lemma nbd_ids_facts: "distinct nbd_ids" "length nbd_ids = 17" "\<forall>i \<in> set nbd_ids. plain i"
  by (simp_all add: nbd_ids_def plain_def upt_rec nat_str.simps hex_digit_def)

lemma nbd_setup: "setup_ok nbd_params nbd_ring" "\<forall>i \<in> set nbd_ring. plain i"
  using nbd_ids_facts
  by (simp_all add: setup_ok_def nbd_ring_def params_ok_def ConsensusParams_def nbd_params_def nb_R_def ungrouped_count_def grouped_count_def)

definition nbd_roles :: membership where
  "nbd_roles = projr (ring_membership nbd_ring 0 GENESIS_HASH None 4 4)"

lemma nbd_roles_ok: "ring_membership nbd_ring 0 GENESIS_HASH None 4 4 = Inr nbd_roles" "roles_ok nbd_params nbd_ring nbd_roles"
  using membership_ok[of nbd_params nbd_ring 0 GENESIS_HASH None] nbd_setup
  by (auto simp: okE_iff setup_ok_def nbd_roles_def nbd_params_def nb_R_def)

definition nbd_start :: "string \<Rightarrow> nb_node" where
  "nbd_start i = projr (init_nb None i nbd_params nbd_ring (\<lambda>_. 0))"

lemma nbd_starts: "init_nb None i nbd_params nbd_ring (\<lambda>_. 0) = Inr (nbd_start i)"
  "nb_members (nbd_start i) = nbd_roles" "nb_view (nbd_start i) = 0" "nb_par (nbd_start i) = nbd_params" "behavior (nbd_start i) = None"
  "chain (nbd_start i) = []" "states (nbd_start i) = (\<lambda>_. RoundState)" "nb_id (nbd_start i) = i" "nb_running (nbd_start i)"
  using nbd_roles_ok(1)
  by (simp_all add: nbd_start_def init_nb_def Let_def compute_membership_def head_hash_def nbd_params_def nb_R_def)

definition nbd_rep_events :: "nb_event list" where
  "nbd_rep_events = Deliver (first_proposal nbd_roles ''tx-001'') #
     map (\<lambda>g. Deliver (full_aggregate nbd_roles (payload_digest ''tx-001'') g)) [1, 2, 3]"

lemma nbd_rep_commits:
  "\<exists>s m r. nb_run nbd_params nbd_ring (mb_reps nbd_roles ! 0) (\<lambda>_. 0) nbd_rep_events = Inr s \<and> (m, r) \<in> set (nb_out s) \<and>
    nm_type m = COMMIT \<and> nm_view m = 0 \<and> nm_seq m = 1 \<and> nm_digest m = payload_digest ''tx-001''"
proof -
  let ?i = "mb_reps nbd_roles ! 0" and ?d = "payload_digest ''tx-001''" and ?p = nbd_params
  have p: "params_ok ?p" "nb_R ?p = 4" "nbm ?p = 4" "vote_threshold ?p = 12"
    using nbd_setup(1) by (simp_all add: setup_ok_def nbd_params_def nb_R_def vote_threshold_def nb_w_def)
  have "?i \<in> set (mb_groups nbd_roles ! 0)" using nbd_roles_ok(2) p(2) by (simp add: roles_ok_def)
  then have "group_of nbd_roles ?i = Some 0" using group_of_member[OF nbd_roles_ok(2), of 0] p(2) by simp
  then have rep: "is_representative (nbd_start ?i)" by (simp add: is_representative_def my_group_def nbd_starts)
  have votes: "votes_for (collected ?p nbd_roles ?d gs) ?d = 4 * int (length gs)" if "set gs \<subseteq> {..<4}" "distinct gs" for gs
    using collected_votes[OF nbd_roles_ok(2) p(1) nbd_setup(2), of gs ?d] that p by simp
  define s1 where "s1 = on_preprepare1 (first_proposal nbd_roles ''tx-001'') (nbd_start ?i)"
  define s2 where "s2 = on_out_prepare (full_aggregate nbd_roles ?d 1) s1"
  define s3 where "s3 = on_out_prepare (full_aggregate nbd_roles ?d 2) s2"
  define s4 where "s4 = on_out_prepare (full_aggregate nbd_roles ?d 3) s3"
  have c1: "collecting ?p nbd_roles ?d [] s1"
    unfolding s1_def using start_collecting[OF p(1) nbd_starts(2-5) rep nbd_starts(6,7,9)] .
  have c2: "collecting ?p nbd_roles ?d [1] s2"
    unfolding s2_def using collect_step(1)[OF c1 nbd_roles_ok(2), of 1] votes[of "[1]"] p by simp
  have c3: "collecting ?p nbd_roles ?d [1, 2] s3"
    unfolding s3_def using collect_step(1)[OF c2 nbd_roles_ok(2), of 2] votes[of "[1, 2]"] p by simp
  have out: "\<exists>m r. (m, r) \<in> set (nb_out s4) \<and> nm_type m = COMMIT \<and> nm_view m = 0 \<and> nm_seq m = 1 \<and> nm_digest m = ?d"
    unfolding s4_def using collect_step(2)[OF c3 nbd_roles_ok(2), of 3] votes[of "[1, 2, 3]"] p by simp
  have d: "nb_step (Deliver (full_aggregate nbd_roles ?d g)) s = Inr (on_out_prepare (full_aggregate nbd_roles ?d g) s)"
    if "collecting ?p nbd_roles ?d gs s" for g gs s
    using that by (simp add: nb_handle_def full_aggregate_def collecting_def)
  have "nb_step (Deliver (first_proposal nbd_roles ''tx-001'')) (nbd_start ?i) = Inr s1"
    by (simp add: nb_handle_def first_proposal_def s1_def nbd_starts)
  then have "nb_run ?p nbd_ring ?i (\<lambda>_. 0) nbd_rep_events = Inr s4"
    using d[OF c1, of 1] d[OF c2, of 2] d[OF c3, of 3]
    by (simp add: nb_run_def nbd_starts(1) nbd_rep_events_def s2_def s3_def s4_def del: nb_step.simps)
  with out show ?thesis by blast
qed

lemma fresh_names:
  assumes "finite A"
  shows "\<exists>xs. distinct xs \<and> length xs = n \<and> (\<forall>x \<in> set xs. plain x \<and> x \<notin> A)"
proof -
  let ?S = "range (\<lambda>k. replicate k CHR ''x'') - A"
  have "inj (\<lambda>k. replicate k CHR ''x'')" by (rule injI) (metis length_replicate)
  then have "infinite (range (\<lambda>k. replicate k CHR ''x''))" using finite_imageD infinite_UNIV_nat by blast
  then have "infinite ?S" using assms by (rule Diff_infinite_finite[rotated])
  then obtain F where F: "finite F" "card F = n" "F \<subseteq> ?S" by (meson infinite_arbitrarily_large)
  obtain xs where "set xs = F" "distinct xs" using finite_distinct_list[OF F(1)] by blast
  then show ?thesis using F(2,3) distinct_card[of xs] by (intro exI[of _ xs]) (auto simp: plain_def)
qed

end
