(* ===== verification/NB_Sim.thy ===== *)
theory NB_Sim
  imports NB_Node "HOL-Library.Sublist"
begin

text \<open>
  What surrounds the NBFT nodes: the network (\<^verbatim>\<open>network.py\<close>), the client (\<^verbatim>\<open>client.py\<close>), the choice of the Byzantine nodes and the
  checks after a run (\<^verbatim>\<open>simulator.py\<close>), and the configuration (\<^verbatim>\<open>config.py\<close>).
\<close>

section \<open>Configuration\<close>

record nb_config =
  nc_name :: string
  nc_description :: string
  nc_n :: int
  nc_m :: int
  nc_seed :: int
  nc_rounds :: nat
  base_delay_ms :: real
  jitter_ms :: real
  loss_rate :: real
  phase_timeout_ms :: real
  client_timeout_ms :: real
  client_retries :: nat
  byz_count :: int
  byz_behavior :: string
  byz_target :: string
  byz_extra_delay_ms :: real
  trace_level :: string

definition SimulationConfig :: nb_config where
  "SimulationConfig = \<lparr>nc_name = ''ad-hoc'', nc_description = [], nc_n = 17, nc_m = 4, nc_seed = 42, nc_rounds = 1,
     base_delay_ms = 5, jitter_ms = 10, loss_rate = 0, phase_timeout_ms = 400, client_timeout_ms = 1500, client_retries = 3,
     byz_count = 0, byz_behavior = ''none'', byz_target = ''random'', byz_extra_delay_ms = 1200, trace_level = ''normal''\<rparr>"

section \<open>Network\<close>

text \<open>\<open>nn_tasks\<close> are the deliveries under way, with their delay in seconds.\<close>

record nb_net =
  nn_queues :: "(string \<times> nb_msg list) list"
  nn_sent :: "nb_type \<Rightarrow> nat"
  nn_dropped :: "nb_type \<Rightarrow> nat"
  nn_tasks :: "(nb_msg \<times> string \<times> real) list"

definition init_nb_net :: nb_net where
  "init_nb_net = \<lparr>nn_queues = [], nn_sent = (\<lambda>_. 0), nn_dropped = (\<lambda>_. 0), nn_tasks = []\<rparr>"

definition nn_register :: "string \<Rightarrow> nb_net \<Rightarrow> nb_net" where
  "nn_register i net = net\<lparr>nn_queues := dict_set i [] (nn_queues net)\<rparr>"

text \<open>\<open>u\<close> and \<open>v\<close> are the random numbers of a call; the first is drawn only when messages can be lost.\<close>

definition nn_send :: "nb_config \<Rightarrow> real \<Rightarrow> real \<Rightarrow> nb_msg \<Rightarrow> string \<Rightarrow> real \<Rightarrow> nb_net \<Rightarrow> nb_net" where
  "nn_send c u v m r extra net =
    (if map_of (nn_queues net) r = None then net
     else
       let net1 = net\<lparr>nn_sent := (nn_sent net)(nm_type m := nn_sent net (nm_type m) + 1)\<rparr> in
       if 0 < loss_rate c \<and> u < loss_rate c
       then net1\<lparr>nn_dropped := (nn_dropped net1)(nm_type m := nn_dropped net1 (nm_type m) + 1)\<rparr>
       else net1\<lparr>nn_tasks := nn_tasks net1 @ [(m, r, (base_delay_ms c + jitter_ms c * v + extra) / 1000)]\<rparr>)"

definition nn_broadcast :: "nb_config \<Rightarrow> (string \<Rightarrow> real \<times> real) \<Rightarrow> nb_msg \<Rightarrow> string list \<Rightarrow> real \<Rightarrow> nb_net \<Rightarrow> nb_net" where
  "nn_broadcast c rnd m rs extra net =
     fold (\<lambda>r. nn_send c (fst (rnd r)) (snd (rnd r)) m r extra) (filter (\<lambda>r. r \<noteq> nm_sender m) rs) net"

text \<open>The end of the sleep of the task number \<open>k\<close>.\<close>

definition nn_deliver :: "nat \<Rightarrow> nb_net \<Rightarrow> nb_net" where
  "nn_deliver k net =
    (if length (nn_tasks net) \<le> k then net
     else
       let (m, r, d) = nn_tasks net ! k; net1 = net\<lparr>nn_tasks := take k (nn_tasks net) @ drop (Suc k) (nn_tasks net)\<rparr> in
       case map_of (nn_queues net1) r of None \<Rightarrow> net1 | Some q \<Rightarrow> net1\<lparr>nn_queues := dict_set r (q @ [m]) (nn_queues net1)\<rparr>)"

definition MSG_TYPES :: "nb_type list" where
  "MSG_TYPES = [REQUEST, PREPREPARE1, IN_PREPARE1, IN_PREPARE2, OUT_PREPARE, COMMIT, PREPREPARE2, REPLY, VIEW_CHANGE]"

definition total_sent :: "nb_net \<Rightarrow> nat" where
  "total_sent net = sum_list (map (nn_sent net) MSG_TYPES)"

definition consensus_traffic :: "nb_net \<Rightarrow> nat" where
  "consensus_traffic net = sum_list (map (nn_sent net) (filter (\<lambda>t. t \<notin> {REQUEST, REPLY}) MSG_TYPES))"

text \<open>Every message that was sent is lost, under way or delivered: the counters do not lose one.\<close>

definition in_queues :: "nb_net \<Rightarrow> nat" where
  "in_queues net = sum_list (map (length \<circ> snd) (nn_queues net))"

lemma sum_types: "sum_list (map ((f :: nb_type \<Rightarrow> nat)(t := Suc (f t))) MSG_TYPES) = Suc (sum_list (map f MSG_TYPES))"
  by (cases t) (simp_all add: MSG_TYPES_def)

lemma in_queues_set: "map_of q r = Some x \<Longrightarrow> distinct (map fst q) \<Longrightarrow>
    sum_list (map (length \<circ> snd) (dict_set r (x @ [m]) q)) = sum_list (map (length \<circ> snd) q) + 1"
  by (induction q) (auto split: if_splits)

definition net_balanced :: "nb_net \<Rightarrow> bool" where
  "net_balanced net \<longleftrightarrow> distinct (map fst (nn_queues net)) \<and> (\<forall>x \<in> set (nn_tasks net). fst (snd x) \<in> set (map fst (nn_queues net))) \<and>
     total_sent net = sum_list (map (nn_dropped net) MSG_TYPES) + length (nn_tasks net) + in_queues net"

lemma balanced_send: "net_balanced net \<Longrightarrow> net_balanced (nn_send c u v m r extra net)"
  by (auto simp: net_balanced_def nn_send_def Let_def total_sent_def in_queues_def sum_types map_of_eq_None_iff
      simp del: fun_upd_apply)

lemma balanced_deliver: "net_balanced net \<Longrightarrow> net_balanced (nn_deliver k net)"
proof (cases "k < length (nn_tasks net)")
  case True
  assume b: "net_balanced net"
  obtain m r d where t: "nn_tasks net ! k = (m, r, d)" by (cases "nn_tasks net ! k") auto
  then have "r \<in> set (map fst (nn_queues net))" using b nth_mem[OF True] unfolding net_balanced_def by (metis fst_conv snd_conv)
  then obtain q where q: "map_of (nn_queues net) r = Some q" by (metis map_of_eq_None_iff not_None_eq set_map)
  define ts where "ts = take k (nn_tasks net) @ drop (Suc k) (nn_tasks net)"
  have sub: "set ts \<subseteq> set (nn_tasks net)" unfolding ts_def using set_take_subset set_drop_subset by (metis set_append Un_least)
  have len: "length (nn_tasks net) = Suc (length ts)" unfolding ts_def using True by simp
  have "nn_deliver k net = net\<lparr>nn_tasks := ts, nn_queues := dict_set r (q @ [m]) (nn_queues net)\<rparr>"
    using True t q by (simp add: nn_deliver_def ts_def)
  moreover have "fst (snd x) \<in> set (map fst (dict_set r (q @ [m]) (nn_queues net)))" if "x \<in> set ts" for x
    using b sub that by (auto simp: net_balanced_def map_fst_dict_set simp del: set_map)
  ultimately show ?thesis using b len in_queues_set[OF q, of m]
    by (simp add: net_balanced_def total_sent_def in_queues_def distinct_dict_set del: set_map)
qed (simp add: nn_deliver_def)

section \<open>Client\<close>

record nb_client =
  replies :: "string \<Rightarrow> string set"
  quorum_events :: "string \<rightharpoonup> bool"

text \<open>One turn of \<^verbatim>\<open>_read_replies\<close>.\<close>

definition read_reply :: "nb_params \<Rightarrow> nb_msg \<Rightarrow> nb_client \<Rightarrow> nb_client" where
  "read_reply p m c =
    (if nm_type m \<noteq> REPLY then c
     else
       let d = nm_digest m; senders = insert (nm_sender m) (replies c d); c1 = c\<lparr>replies := (replies c)(d := senders)\<rparr> in
       if reply_quorum p \<le> int (card senders) \<and> quorum_events c1 d \<noteq> None
       then c1\<lparr>quorum_events := (quorum_events c1)(d \<mapsto> True)\<rparr> else c1)"

record nb_outcome =
  oc_success :: bool
  oc_digest :: string
  oc_replies :: nat
  oc_attempts :: nat

text \<open>
  \<^verbatim>\<open>request\<close>: \<open>window k\<close> are the messages that the reader takes during the wait of attempt \<open>k\<close>, \<open>left\<close> is how many attempts are left.
  The second result lists the requests that are sent, with their recipients.
\<close>

fun request_loop :: "nb_params \<Rightarrow> nb_msg \<Rightarrow> string list \<Rightarrow> (nat \<Rightarrow> nb_msg list) \<Rightarrow> nat \<Rightarrow> nat \<Rightarrow> nb_client \<Rightarrow>
    nb_outcome \<times> (nb_msg \<times> string) list \<times> nb_client" where
  "request_loop p m nodes window 0 attempts c =
     (\<lparr>oc_success = False, oc_digest = nm_digest m, oc_replies = card (replies c (nm_digest m)), oc_attempts = attempts\<rparr>, [], c)"
| "request_loop p m nodes window (Suc left) attempts c =
     (let attempt = Suc attempts; c1 = fold (read_reply p) (window attempt) c in
      if quorum_events c1 (nm_digest m) = Some True then
        (\<lparr>oc_success = True, oc_digest = nm_digest m, oc_replies = card (replies c1 (nm_digest m)), oc_attempts = attempt\<rparr>, [], c1)
      else
        let alerts = (if 0 < left then map (Pair m) nodes else []);
            (oc, sent, c2) = request_loop p m nodes window left attempt c1
        in (oc, alerts @ sent, c2))"

definition client_request_nb :: "nb_config \<Rightarrow> nb_params \<Rightarrow> string \<Rightarrow> string \<Rightarrow> string list \<Rightarrow> (nat \<Rightarrow> nb_msg list) \<Rightarrow> nb_client \<Rightarrow>
    nb_outcome \<times> (nb_msg \<times> string) list \<times> nb_client" where
  "client_request_nb cfg p payload primary nodes window c =
    (let d = payload_digest payload;
         c1 = c\<lparr>quorum_events := (if quorum_events c d = None then (quorum_events c)(d \<mapsto> False) else quorum_events c)\<rparr>;
         m = (Message REQUEST ''client'' 0 0 d)\<lparr>nm_payload := payload\<rparr>;
         (oc, sent, c2) = request_loop p m nodes window (client_retries cfg) 0 c1
     in (oc, (m, primary) # sent, c2))"

text \<open>An event of a quorum is set only when as many different senders have answered.\<close>

definition client_ok :: "nb_params \<Rightarrow> nb_client \<Rightarrow> bool" where
  "client_ok p c \<longleftrightarrow> (\<forall>d. finite (replies c d) \<and> (quorum_events c d = Some True \<longrightarrow> reply_quorum p \<le> int (card (replies c d))))"

lemma client_ok_read: "client_ok p c \<Longrightarrow> client_ok p (read_reply p m c)"
proof -
  assume c: "client_ok p c"
  have le: "card (replies c d) \<le> card (insert x (replies c d))" "finite (replies c d)" for d x
    using c by (auto simp: client_ok_def card_insert_le)
  have "reply_quorum p \<le> int (card (insert x (replies c d)))" if "quorum_events c d = Some True" for d x
    using c that le(1)[of d x] unfolding client_ok_def by (meson of_nat_mono order_trans)
  then show ?thesis using c le(2) unfolding client_ok_def read_reply_def Let_def by auto
qed

lemma client_ok_reads: "client_ok p c \<Longrightarrow> client_ok p (fold (read_reply p) ms c)"
  by (induction ms arbitrary: c) (simp_all add: client_ok_read)

lemma request_loop_sound:
  "client_ok p c \<Longrightarrow> request_loop p m nodes w left a c = (oc, sent, c') \<Longrightarrow>
    client_ok p c' \<and> (oc_success oc \<longrightarrow> reply_quorum p \<le> int (card (replies c' (nm_digest m)))) \<and> oc_digest oc = nm_digest m \<and>
    oc_replies oc = card (replies c' (nm_digest m)) \<and> oc_attempts oc \<le> a + left \<and> length sent \<le> (left - 1) * length nodes"
proof (induction p m nodes w left a c arbitrary: oc sent c' rule: request_loop.induct)
  case (2 p m nodes w left a c)
  define c1 where "c1 = fold (read_reply p) (w (Suc a)) c"
  have ok: "client_ok p c1" unfolding c1_def using 2(2) by (rule client_ok_reads)
  show ?case
  proof (cases "quorum_events c1 (nm_digest m) = Some True")
    case True
    then show ?thesis using 2(3) ok by (auto simp: Let_def c1_def[symmetric] client_ok_def)
  next
    case False
    obtain oc2 s2 c2 where r: "request_loop p m nodes w left (Suc a) c1 = (oc2, s2, c2)" by (metis prod_cases3)
    note IH = 2(1)[OF refl c1_def False refl ok r]
    show ?thesis using IH 2(3) ok r False by (cases left) (auto simp: Let_def c1_def[symmetric])
  qed
qed auto

section \<open>Simulation\<close>

text \<open>\<^verbatim>\<open>pick_byzantine\<close>; \<open>sample\<close> is \<^verbatim>\<open>rng.sample\<close> of a whole list.\<close>

definition pick_byzantine :: "nb_config \<Rightarrow> membership \<Rightarrow> (string list \<Rightarrow> string list) \<Rightarrow> py_error + (string \<times> string) list" where
  "pick_byzantine c ms sample =
    (if byz_count c \<le> 0 \<or> byz_behavior c = ''none'' then Inr []
     else
       let reps = mb_reps ms;
           members = filter (\<lambda>i. i \<notin> set reps) (concat (mb_groups ms));
           pick = (\<lambda>pool. Inr (map (\<lambda>i. (i, byz_behavior c)) (take (nat (byz_count c)) pool)))
       in if byz_target c = ''primary'' then pick (mb_primary ms # sample members)
          else if byz_target c = ''representative'' then pick (sample reps @ sample members)
          else if byz_target c = ''member'' then pick (sample members)
          else if byz_target c = ''random'' then pick (sample (all_nodes ms))
          else Inl ValueError)"

definition node_ids :: "nb_config \<Rightarrow> string list" where
  "node_ids c = map (\<lambda>k. ''10.0.0.'' @ nat_str k) [1..<nat (nc_n c) + 1]"

text \<open>The start of \<^verbatim>\<open>run_simulation\<close>: every node with its behaviour.\<close>

definition build_nodes :: "nb_config \<Rightarrow> (string list \<Rightarrow> string list) \<Rightarrow> (string \<Rightarrow> int) \<Rightarrow> py_error + nb_node list" where
  "build_nodes c sample h =
    bindE (ConsensusParams (nc_n c) (nc_m c)) (\<lambda>p.
    bindE (HashRing (node_ids c)) (\<lambda>ring.
    bindE (ring_membership ring 0 GENESIS_HASH None (nat (nbm p)) (nat (nb_R p))) (\<lambda>ms.
    bindE (pick_byzantine c ms sample) (\<lambda>byz.
    mapE (\<lambda>i. init_nb (map_of byz i) i p ring h) (node_ids c)))))"

text \<open>The check of the chains: sorted by length, each is a prefix of the next.\<close>

fun adjacent_prefixes :: "string list list \<Rightarrow> bool" where
  "adjacent_prefixes (x # y # zs) \<longleftrightarrow> x = take (length x) y \<and> adjacent_prefixes (y # zs)"
| "adjacent_prefixes _ \<longleftrightarrow> True"

definition chains_consistent :: "nb_node list \<Rightarrow> bool" where
  "chains_consistent nodes = adjacent_prefixes (sort_key length (map (\<lambda>s. map blk_digest (chain s)) (filter (\<lambda>s. behavior s = None) nodes)))"

definition sim_success :: "nb_outcome list \<Rightarrow> nb_node list \<Rightarrow> bool" where
  "sim_success outcomes nodes \<longleftrightarrow> outcomes \<noteq> [] \<and> (\<forall>oc \<in> set outcomes. oc_success oc) \<and> chains_consistent nodes"

lemma adjacent_prefixes_iff: "adjacent_prefixes xs \<longleftrightarrow> sorted_wrt prefix xs"
proof (induction xs rule: adjacent_prefixes.induct)
  case (1 x y zs)
  have "x = take (length x) y \<longleftrightarrow> prefix x y" by (metis append_take_drop_id append_eq_conv_conj prefix_def)
  moreover have "prefix x z" if "prefix x y" "z \<in> set zs" "sorted_wrt prefix (y # zs)" for z
    using that prefix_order.order_trans by auto
  ultimately show ?case using 1 by auto
qed simp_all

lemma comparable_prefix: "prefix x y \<or> prefix y x \<Longrightarrow> length x \<le> length y \<Longrightarrow> prefix x y"
  by (auto simp: prefix_def)

text \<open>The verdict is that the chains of any two honest nodes are comparable.\<close>

lemma chains_consistent_iff:
  "chains_consistent nodes \<longleftrightarrow> (\<forall>s \<in> set nodes. \<forall>t \<in> set nodes. behavior s = None \<and> behavior t = None \<longrightarrow>
     prefix (map blk_digest (chain s)) (map blk_digest (chain t)) \<or> prefix (map blk_digest (chain t)) (map blk_digest (chain s)))"
proof -
  let ?cs = "map (\<lambda>s. map blk_digest (chain s)) (filter (\<lambda>s. behavior s = None) nodes)"
  have "sorted_wrt prefix (sort_key length ?cs) \<longleftrightarrow> (\<forall>x \<in> set ?cs. \<forall>y \<in> set ?cs. prefix x y \<or> prefix y x)"
  proof
    assume a: "sorted_wrt prefix (sort_key length ?cs)"
    have "prefix x y \<or> prefix y x" if xy: "x \<in> set (sort_key length ?cs)" "y \<in> set (sort_key length ?cs)" for x y
    proof -
      obtain i j where "i < length (sort_key length ?cs)" "j < length (sort_key length ?cs)" "sort_key length ?cs ! i = x" "sort_key length ?cs ! j = y"
        using xy by (meson in_set_conv_nth)
      then show ?thesis using a sorted_wrt_iff_nth_less by (metis nat_neq_iff prefix_order.order_refl)
    qed
    then show "\<forall>x \<in> set ?cs. \<forall>y \<in> set ?cs. prefix x y \<or> prefix y x" by simp
  next
    assume a: "\<forall>x \<in> set ?cs. \<forall>y \<in> set ?cs. prefix x y \<or> prefix y x"
    have "sorted_wrt (\<lambda>x y. length x \<le> length y) (sort_key length ?cs)" using sorted_sort_key[of length ?cs] by (simp add: sorted_map)
    then show "sorted_wrt prefix (sort_key length ?cs)"
      by (rule sorted_wrt_mono_rel[rotated]) (use a in \<open>simp, blast intro: comparable_prefix\<close>)
  qed
  then show ?thesis unfolding chains_consistent_def adjacent_prefixes_iff by auto
qed

end
