(* ===== verification/NB_System.thy ===== *)
theory NB_System
  imports NB_Sim
begin

text \<open>
  The NBFT simulation as a whole (\<^verbatim>\<open>simulator.py\<close> \<^verbatim>\<open>run_simulation\<close>): the nodes, the network, the client and the loop over the
  rounds, which run as asyncio tasks. A step is what a task does between two waits; any task may run next.
\<close>

section \<open>State\<close>

text \<open>Where \<^verbatim>\<open>run_simulation\<close> stands: at the head of a round, waiting for replies in an attempt, sleeping after a request, or at its end.\<close>

datatype sim_main = Round nat | Waiting nat string nat | Settling nat string | Ended

record nb_sim =
  sm_par :: nb_params
  sm_nodes :: "(string \<times> nb_node) list"
  sm_net :: nb_net
  sm_client :: nb_client
  sm_main :: sim_main
  sm_outcomes :: "nb_outcome list"
  sm_committed :: "nat list"

definition honest_nodes :: "nb_sim \<Rightarrow> nb_node list" where
  "honest_nodes s = filter (\<lambda>nd. behavior nd = None) (map snd (sm_nodes s))"

definition init_nb_sim :: "nb_config \<Rightarrow> (string list \<Rightarrow> string list) \<Rightarrow> (string \<Rightarrow> int) \<Rightarrow> py_error + nb_sim" where
  "init_nb_sim c sample h =
    bindE (ConsensusParams (nc_n c) (nc_m c)) (\<lambda>p.
    bindE (build_nodes c sample h) (\<lambda>nodes.
    Inr \<lparr>sm_par = p, sm_nodes = map (\<lambda>nd. (nb_id nd, nd)) nodes, sm_net = fold nn_register (map nb_id nodes @ [''client'']) init_nb_net,
      sm_client = \<lparr>replies = (\<lambda>_. {}), quorum_events = Map.empty\<rparr>, sm_main = Round 1, sm_outcomes = [], sm_committed = []\<rparr>))"

section \<open>Nodes and network\<close>

text \<open>Messages enter the network in the order of the calls; \<open>rnd k\<close> are the random numbers of call \<open>k\<close>.\<close>

definition sim_sends :: "nb_config \<Rightarrow> (nat \<Rightarrow> real \<times> real) \<Rightarrow> real \<Rightarrow> (nb_msg \<times> string) list \<Rightarrow> nb_net \<Rightarrow> nb_net" where
  "sim_sends c rnd extra ms net = fold (\<lambda>(k, m, r). nn_send c (fst (rnd k)) (snd (rnd k)) m r extra) (enumerate 0 ms) net"

text \<open>A turn of a task of node \<open>i\<close>: the messages of the turn go to the network, late in the case of \<^verbatim>\<open>delay\<close>.\<close>

definition sim_node :: "nb_config \<Rightarrow> (nat \<Rightarrow> real \<times> real) \<Rightarrow> string \<Rightarrow> nb_event \<Rightarrow> nb_sim \<Rightarrow> py_error + nb_sim" where
  "sim_node c rnd i e s = (case map_of (sm_nodes s) i of
     None \<Rightarrow> Inr s
   | Some nd \<Rightarrow> bindE (nb_step e nd) (\<lambda>nd'.
       let extra = (if behavior nd = Some ''delay'' then byz_extra_delay_ms c else 0)
       in Inr (s\<lparr>sm_nodes := dict_set i nd' (sm_nodes s),
                sm_net := sim_sends c rnd extra (drop (length (nb_out nd)) (nb_out nd')) (sm_net s)\<rparr>)))"

text \<open>\<^verbatim>\<open>await inbox.get()\<close>, when there is a message.\<close>

definition inbox_get :: "string \<Rightarrow> nb_net \<Rightarrow> (nb_msg \<times> nb_net) option" where
  "inbox_get i net = (case map_of (nn_queues net) i of
     Some (m # q) \<Rightarrow> Some (m, net\<lparr>nn_queues := dict_set i q (nn_queues net)\<rparr>)
   | _ \<Rightarrow> None)"

definition sim_take :: "nb_config \<Rightarrow> (nat \<Rightarrow> real \<times> real) \<Rightarrow> string \<Rightarrow> nb_sim \<Rightarrow> py_error + nb_sim" where
  "sim_take c rnd i s = (case inbox_get i (sm_net s) of
     None \<Rightarrow> Inr s
   | Some (m, net) \<Rightarrow> sim_node c rnd i (Deliver m) (s\<lparr>sm_net := net\<rparr>))"

definition sim_read :: "nb_sim \<Rightarrow> nb_sim" where
  "sim_read s = (case inbox_get ''client'' (sm_net s) of
     None \<Rightarrow> s
   | Some (m, net) \<Rightarrow> s\<lparr>sm_net := net, sm_client := read_reply (sm_par s) m (sm_client s)\<rparr>)"

section \<open>Rounds\<close>

definition round_payload :: "nat \<Rightarrow> string" where
  "round_payload k = ''tx-'' @ replicate (3 - length (nat_str k)) (CHR ''0'') @ nat_str k"

definition request_message :: "string \<Rightarrow> nb_msg" where
  "request_message payload = (Message REQUEST ''client'' 0 0 (payload_digest payload))\<lparr>nm_payload := payload\<rparr>"

text \<open>\<^verbatim>\<open>Client.request\<close> returns.\<close>

definition request_returns :: "bool \<Rightarrow> nat \<Rightarrow> nat \<Rightarrow> string \<Rightarrow> nb_sim \<Rightarrow> nb_sim" where
  "request_returns success attempts k payload s =
    (let d = payload_digest payload in
     s\<lparr>sm_main := Settling k d,
       sm_outcomes := sm_outcomes s @ [\<lparr>oc_success = success, oc_digest = d, oc_replies = card (replies (sm_client s) d), oc_attempts = attempts\<rparr>]\<rparr>)"

definition nb_start_round :: "nb_config \<Rightarrow> (nat \<Rightarrow> real \<times> real) \<Rightarrow> nat \<Rightarrow> nb_sim \<Rightarrow> py_error + nb_sim" where
  "nb_start_round c rnd k s = (case honest_nodes s of
     [] \<Rightarrow> Inl IndexError
   | nd # _ \<Rightarrow>
       let payload = round_payload k; d = payload_digest payload; cl = sm_client s;
           s1 = s\<lparr>sm_client := cl\<lparr>quorum_events := (if quorum_events cl d = None then (quorum_events cl)(d \<mapsto> False) else quorum_events cl)\<rparr>,
             sm_net := sim_sends c rnd 0 [(request_message payload, mb_primary (nb_members nd))] (sm_net s)\<rparr>
       in Inr (if client_retries c = 0 then request_returns False 0 k payload s1 else s1\<lparr>sm_main := Waiting k payload 1\<rparr>))"

text \<open>The end of the wait of an attempt: the quorum event is set, or the time is over.\<close>

definition request_timeout :: "nb_config \<Rightarrow> (nat \<Rightarrow> real \<times> real) \<Rightarrow> nb_sim \<Rightarrow> nb_sim" where
  "request_timeout c rnd s = (case sm_main s of
     Waiting k payload attempt \<Rightarrow>
       if attempt < client_retries c
       then s\<lparr>sm_main := Waiting k payload (attempt + 1),
              sm_net := sim_sends c rnd 0 (map (Pair (request_message payload)) (node_ids c)) (sm_net s)\<rparr>
       else request_returns False attempt k payload s
   | _ \<Rightarrow> s)"

definition nb_shut_down :: "nb_sim \<Rightarrow> py_error + nb_sim" where
  "nb_shut_down s = raise_if (honest_nodes s = []) ValueError
     (Inr (s\<lparr>sm_nodes := map (\<lambda>(i, nd). (i, stop_nb nd)) (sm_nodes s), sm_main := Ended\<rparr>))"

definition nb_resume :: "nb_config \<Rightarrow> (nat \<Rightarrow> real \<times> real) \<Rightarrow> nb_sim \<Rightarrow> py_error + nb_sim" where
  "nb_resume c rnd s = (case sm_main s of
     Round k \<Rightarrow> if k \<le> nc_rounds c then nb_start_round c rnd k s else nb_shut_down s
   | Waiting k payload attempt \<Rightarrow>
       Inr (if quorum_events (sm_client s) (payload_digest payload) = Some True then request_returns True attempt k payload s else s)
   | Settling k d \<Rightarrow>
       Inr (s\<lparr>sm_main := Round (k + 1), sm_committed := sm_committed s @ [length (filter (\<lambda>nd. nb_committed nd d) (honest_nodes s))]\<rparr>)
   | Ended \<Rightarrow> Inr s)"

section \<open>Steps\<close>

text \<open>
  One step of one of the tasks: a delivery ends, a node takes a message, a timer or watchdog of a node runs, the client reads a
  reply, \<^verbatim>\<open>run_simulation\<close> goes on or its wait times out. Nothing runs after the end.
\<close>

datatype nb_sim_event =
    Net_deliver nat
  | Node_take string "nat \<Rightarrow> real \<times> real"
  | Node_fire string nb_timer "nat \<Rightarrow> real \<times> real"
  | Node_watchdog string string "nat \<Rightarrow> real \<times> real"
  | Client_read
  | Main_resume "nat \<Rightarrow> real \<times> real"
  | Main_timeout "nat \<Rightarrow> real \<times> real"

fun nb_sim_step :: "nb_config \<Rightarrow> nb_sim_event \<Rightarrow> nb_sim \<Rightarrow> py_error + nb_sim" where
  "nb_sim_step c e s = (if sm_main s = Ended then Inr s else case e of
     Net_deliver k \<Rightarrow> Inr (s\<lparr>sm_net := nn_deliver k (sm_net s)\<rparr>)
   | Node_take i rnd \<Rightarrow> sim_take c rnd i s
   | Node_fire i t rnd \<Rightarrow> sim_node c rnd i (Fire t) s
   | Node_watchdog i d rnd \<Rightarrow> sim_node c rnd i (Watchdog d) s
   | Client_read \<Rightarrow> Inr (sim_read s)
   | Main_resume rnd \<Rightarrow> nb_resume c rnd s
   | Main_timeout rnd \<Rightarrow> Inr (request_timeout c rnd s))"

text \<open>\<^verbatim>\<open>SimulationResult\<close> after the run.\<close>

record sim_result =
  sr_honest_count :: nat
  sr_chains_consistent :: bool
  sr_final_view :: int
  sr_success :: bool

definition simulation_result :: "nb_sim \<Rightarrow> sim_result" where
  "simulation_result s = (let nodes = map snd (sm_nodes s) in
     \<lparr>sr_honest_count = length (honest_nodes s), sr_chains_consistent = chains_consistent nodes,
      sr_final_view = Max (nb_view ` set (honest_nodes s)), sr_success = sim_success (sm_outcomes s) nodes\<rparr>)"

end
