(* ===== verification/NB_Backing.thy ===== *)
theory NB_Backing
  imports NB_System NB_Invariant
begin

text \<open>
  What stands behind the client's success in a simulation: nodes only reply about blocks of their chains and chains only grow, also
  those of the Byzantine nodes; the network invents no message; so the replies that the client counts are holders of the block
  (interprets \<open>machine\<close> on \<open>nb_sim_step\<close>).
\<close>

section \<open>A node\<close>

text \<open>
  Every step of a node, whatever its behaviour: what is fixed stays, the chain grows at its end, and a reply that is sent comes
  from the node itself and is about a block of its chain.
\<close>

definition nb_next :: "nb_node \<Rightarrow> nb_node \<Rightarrow> bool" where
  "nb_next s s' \<longleftrightarrow> nb_id s' = nb_id s \<and> nb_par s' = nb_par s \<and> nb_ring s' = nb_ring s \<and> behavior s' = behavior s \<and>
     prefix (chain s) (chain s') \<and> prefix (nb_out s) (nb_out s') \<and>
     (\<forall>(m, r) \<in> set (drop (length (nb_out s)) (nb_out s')). nm_type m = REPLY \<longrightarrow> nm_sender m = nb_id s \<and> nb_committed s' (nm_digest m))"

lemma committed_prefix: "prefix (chain s) (chain s') \<Longrightarrow> nb_committed s d \<Longrightarrow> nb_committed s' d"
  by (auto simp: nb_committed_def prefix_def)

lemma nb_next_refl [simp]: "nb_next s s"
  by (simp add: nb_next_def)

lemma nb_next_trans:
  assumes "nb_next s t" "nb_next t u" shows "nb_next s u"
proof -
  obtain xs ys where o: "nb_out t = nb_out s @ xs" "nb_out u = nb_out t @ ys" using assms by (auto simp: nb_next_def prefix_def)
  have "nb_committed t d \<Longrightarrow> nb_committed u d" for d using assms(2) committed_prefix by (auto simp: nb_next_def)
  with assms o show ?thesis by (fastforce simp: nb_next_def)
qed

lemma nb_next_same:
  assumes "nb_id s' = nb_id s" "nb_par s' = nb_par s" "nb_ring s' = nb_ring s" "behavior s' = behavior s" "chain s' = chain s" "nb_out s' = nb_out s"
  shows "nb_next s s'"
  using assms by (simp add: nb_next_def)

lemma next_upd [simp]: "nb_next s (upd v q f s)" "nb_next s (upd_ledger v q g s)" "nb_next s (cancel_rep_timer v q s)" "nb_next s (stop_nb s)"
  "nb_next s (arm_watchdog d s)"
  by (rule nb_next_same; simp add: upd_def upd_ledger_def cancel_rep_timer_def stop_nb_def arm_watchdog_def)+

lemma corrupt_type: "nm_type (corrupt m r s) = nm_type m"
  by (simp add: corrupt_def Let_def Message_def)

lemma corrupt_reply: "nm_type m = REPLY \<Longrightarrow> corrupt m r s = m"
  by (simp add: corrupt_def DIGEST_PHASES_def)

lemma next_send:
  assumes "nm_type m = REPLY \<longrightarrow> nm_sender m = nb_id s \<and> nb_committed s (nm_digest m)"
  shows "nb_next s (nb_send m r s)"
  using assms corrupt_reply[of m r s] by (cases "nm_type m = REPLY") (auto simp: nb_next_def nb_send_def corrupt_type nb_committed_def)

lemma next_fold: "(\<And>x t. nb_next t (f x t)) \<Longrightarrow> nb_next s (fold f xs s)"
  by (induction xs arbitrary: s) (auto intro: nb_next_trans)

lemma next_broadcast: "nm_type m \<noteq> REPLY \<Longrightarrow> nb_next s (nb_broadcast m rs s)"
  unfolding nb_broadcast_def by (intro next_fold next_send) simp

lemma next_updates [simp]:
  "nb_next s (s\<lparr>nb_pending := a\<rparr>)" "nb_next s (s\<lparr>watchdogs := b\<rparr>)" "nb_next s (s\<lparr>viewchange_votes := d\<rparr>)" "nb_next s (s\<lparr>nb_timers := e\<rparr>)"
  "nb_next s (s\<lparr>nb_members := ms\<rparr>)" "nb_next s (s\<lparr>voted_view := v, viewchange_votes := d\<rparr>)" "nb_next s (s\<lparr>nb_view := v, nb_members := ms\<rparr>)"
  by (rule nb_next_same; simp)+

lemma next_threshold: "nb_next s (check_vote_threshold v q s)"
  unfolding check_vote_threshold_def Let_def
  by (auto split: option.split intro!: nb_next_trans[OF next_upd(2) nb_next_trans[OF next_upd(1) next_send]] simp: Message_def)

lemma next_threshold_after: "nb_next s t \<Longrightarrow> nb_next s (check_vote_threshold v q t)"
  using next_threshold nb_next_trans by blast

lemma next_ledger_after: "nb_next s t \<Longrightarrow> nb_next s (upd_ledger v q g t)"
  using next_upd(2) nb_next_trans by blast

lemma next_upd_after: "nb_next s t \<Longrightarrow> nb_next s (upd v q f t)"
  using next_upd(1) nb_next_trans by blast

lemma next_cancel_after: "nb_next s t \<Longrightarrow> nb_next s (cancel_rep_timer v q t)"
  using next_upd(3) nb_next_trans by blast

lemma next_broadcast_after: "nb_next s t \<Longrightarrow> nm_type m \<noteq> REPLY \<Longrightarrow> nb_next s (nb_broadcast m rs t)"
  using next_broadcast nb_next_trans by blast

lemma next_send_after: "nb_next s t \<Longrightarrow> nm_type m \<noteq> REPLY \<Longrightarrow> nb_next s (nb_send m r t)"
  using next_send[of m] nb_next_trans by blast

lemma next_fields_after: "nb_next s t \<Longrightarrow> nb_next s (t\<lparr>nb_timers := e\<rparr>)" "nb_next s t \<Longrightarrow> nb_next s (t\<lparr>nb_pending := a\<rparr>)"
  "nb_next s t \<Longrightarrow> nb_next s (t\<lparr>nb_members := ms\<rparr>)"
  using next_updates nb_next_trans by blast+

lemmas next_intros = next_threshold_after next_ledger_after next_upd_after next_cancel_after next_broadcast_after next_send_after next_fields_after

lemma message_types [simp]: "nm_type (Message t a b c d) = t" "nm_sender (Message t a b c d) = a" "nm_digest (Message t a b c d) = d"
  by (simp_all add: Message_def)

lemma next_aggregate: "nb_next s (send_aggregate v q d g s)" "nb_next s (maybe_aggregate v q g s)"
  by (auto simp: send_aggregate_def maybe_aggregate_def Let_def split: option.split intro!: next_intros nb_next_refl)

lemma next_aggregate_after: "nb_next s t \<Longrightarrow> nb_next s (maybe_aggregate v q g t)"
  using next_aggregate(2) nb_next_trans by blast

lemma next_fires: "nb_next s (partial_timer v q s)" "nb_next s (model1_block v q s)" "nb_next s (rep_timer v q s)"
  by (auto simp: partial_timer_def model1_block_def rep_timer_def Let_def split: option.split intro!: next_intros nb_next_refl)

lemma next_propose: "nb_next s (nb_propose d s)"
  by (auto simp: nb_propose_def Let_def intro!: next_intros nb_next_refl)

lemma next_request: "nb_next s (on_request m s)"
proof -
  let ?s = "s\<lparr>nb_pending := dict_set (payload_digest (nm_payload m)) (nm_payload m) (nb_pending s)\<rparr>"
  have "nb_next s (nb_send (Message REPLY (nb_id s) (nb_view s) 0 (payload_digest (nm_payload m))) r ?s)" if "nb_committed ?s (payload_digest (nm_payload m))" for r
    by (rule nb_next_trans[OF next_updates(1) next_send]) (use that in simp)
  moreover have "nb_next s (nb_propose d ?s)" "nb_next s (arm_watchdog d ?s)" for d
    using nb_next_trans[OF next_updates(1) next_propose] nb_next_trans[OF next_updates(1) next_upd(5)] by blast+
  ultimately show ?thesis by (simp add: on_request_def Let_def)
qed

lemma next_handlers:
  "nb_next s (on_preprepare1 m s)" "nb_next s (on_in_prepare1 m s)" "nb_next s (on_in_prepare2 m s)" "nb_next s (on_out_prepare m s)"
  by (auto simp: on_preprepare1_def on_in_prepare1_def on_in_prepare2_def on_out_prepare_def Let_def next_fires split: option.split
      intro!: next_intros next_aggregate_after nb_next_refl)

definition set_up :: "nb_params \<Rightarrow> string list \<Rightarrow> nb_node \<Rightarrow> bool" where
  "set_up p ring s \<longleftrightarrow> setup_ok p ring \<and> nb_par s = p \<and> nb_ring s = ring"

lemma set_up_next: "set_up p ring s \<Longrightarrow> nb_next s t \<Longrightarrow> set_up p ring t"
  by (simp add: set_up_def nb_next_def)

lemma compute_total: "set_up p ring s \<Longrightarrow> okE (\<lambda>_. True) (compute_membership v s)"
  unfolding set_up_def by (elim conjE) (rule okE_mono[OF ok_compute], auto)

lemma next_execute:
  assumes "set_up p ring s" shows "okE (nb_next s) (nb_execute v q d s)"
proof (cases "rs_executed (states s (v, q)) \<or> nb_committed s d")
  case False
  define payload where "payload = (case map_of (nb_pending s) d of Some x \<Rightarrow> x | None \<Rightarrow> (case rs_payload (states s (v, q)) of Some x \<Rightarrow> x | None \<Rightarrow> []))"
  define s1 where "s1 = upd v q (\<lambda>st. st\<lparr>rs_executed := True\<rparr>) s"
  define b where "b = \<lparr>blk_seq = q, blk_digest = d, blk_payload = payload, blk_previous = head_hash s\<rparr>"
  define s2 where "s2 = cancel_rep_timer v q (s1\<lparr>chain := chain s1 @ [b],
             last_committed_primary := Some (mb_primary (nb_members s)), watchdogs := watchdogs s - {d}\<rparr>)"
  define s3 where "s3 = nb_send (Message REPLY (nb_id s) v q d) ''client'' s2"
  have "nb_next s s2" by (simp add: nb_next_def s2_def s1_def upd_def cancel_rep_timer_def)
  moreover have "nb_next s2 s3" unfolding s3_def
    by (rule next_send) (simp add: s2_def s1_def b_def upd_def cancel_rep_timer_def nb_committed_def)
  ultimately have s3: "nb_next s s3" by (rule nb_next_trans)
  moreover have "nb_execute v q d s = bindE (compute_membership (nb_view s3) s3) (\<lambda>ms. Inr (s3\<lparr>nb_members := ms\<rparr>))"
    using False unfolding nb_execute_def Let_def payload_def[symmetric] b_def[symmetric] s1_def[symmetric] s2_def[symmetric] s3_def[symmetric] by simp
  ultimately show ?thesis using compute_total[OF set_up_next[OF assms s3]]
    by (simp add: okE_any next_fields_after(3))
qed (simp add: nb_execute_def)

lemma okE_next_after: "nb_next s t \<Longrightarrow> okE (nb_next t) e \<Longrightarrow> okE (nb_next s) e"
  by (erule okE_mono) (rule nb_next_trans)

lemma next_commit:
  assumes "set_up p ring s"
  shows "okE (nb_next s) (nb_on_commit m s)" "okE (nb_next s) (on_preprepare2 m s)"
proof -
  have run: "okE (nb_next s) (nb_execute v q d t)" if "nb_next s t" for v q d t
    using okE_next_after[OF that next_execute[OF set_up_next[OF assms that]]] .
  show "okE (nb_next s) (nb_on_commit m s)" "okE (nb_next s) (on_preprepare2 m s)"
    by (auto simp: nb_on_commit_def on_preprepare2_def Let_def intro!: run next_intros nb_next_refl)
qed

lemma next_adopt:
  assumes "set_up p ring s" shows "okE (nb_next s) (maybe_adopt_view v s)"
proof -
  have "nb_next s (if is_primary t then (case x of None \<Rightarrow> t | Some d \<Rightarrow> nb_propose d t) else t)" if "nb_next s t" for t x
    using that nb_next_trans[OF that next_propose] by (auto split: option.split)
  then show ?thesis unfolding maybe_adopt_view_def Let_def using okE_any[OF compute_total[OF assms]] by simp
qed

lemma next_vote_view_change:
  assumes "set_up p ring s" shows "okE (nb_next s) (vote_view_change v s)"
proof -
  have adopt: "okE (nb_next s) (maybe_adopt_view v t)" if "nb_next s t" for t
    using okE_next_after[OF that next_adopt[OF set_up_next[OF assms that]]] .
  show ?thesis by (auto simp: vote_view_change_def Let_def intro!: adopt next_broadcast_after)
qed

lemma next_view_change:
  assumes "set_up p ring s" shows "okE (nb_next s) (on_view_change m s)"
proof -
  have vote: "okE (nb_next s) (vote_view_change v t)" if "nb_next s t" for t v
    using okE_next_after[OF that next_vote_view_change[OF set_up_next[OF assms that]]] .
  have adopt: "okE (nb_next s) (maybe_adopt_view v t)" if "nb_next s t" for t v
    using okE_next_after[OF that next_adopt[OF set_up_next[OF assms that]]] .
  show ?thesis using okE_mono[OF vote adopt] adopt by (auto simp: on_view_change_def Let_def split: option.split)
qed

lemma nb_step_next:
  assumes "set_up p ring s" shows "okE (nb_next s) (nb_step e s)"
proof (cases e)
  case (Deliver m)
  then show ?thesis using next_request next_handlers next_commit[OF assms] next_view_change[OF assms]
    by (auto simp: nb_handle_def split: nb_type.split)
next
  case (Fire t)
  have "nb_next s (case t of Rep_timer v q \<Rightarrow> rep_timer v q r | Partial_timer v q \<Rightarrow> partial_timer v q r)" if "nb_next s r" for r
    using nb_next_trans[OF that] next_fires by (auto split: nb_timer.split)
  with Fire show ?thesis by (simp add: Let_def)
next
  case (Watchdog d)
  then show ?thesis using next_vote_view_change[OF assms] by (auto simp: watchdog_def)
qed simp

section \<open>Messages in the network\<close>

definition net_msgs :: "nb_net \<Rightarrow> nb_msg set" where
  "net_msgs net = fst ` set (nn_tasks net) \<union> (\<Union>(i, q) \<in> set (nn_queues net). set q)"

lemma msgs_send: "net_msgs (nn_send c u v m r extra net) \<subseteq> insert m (net_msgs net)"
  by (auto simp: nn_send_def net_msgs_def Let_def)

lemma msgs_sends: "net_msgs (sim_sends c rnd extra ms net) \<subseteq> fst ` set ms \<union> net_msgs net"
proof -
  have "net_msgs (fold (\<lambda>(k, m, r). nn_send c (fst (rnd k)) (snd (rnd k)) m r extra) (enumerate j ms) net) \<subseteq> fst ` set ms \<union> net_msgs net" for j
  proof (induction ms arbitrary: j net)
    case (Cons x ms)
    then show ?case using msgs_send[of c "fst (rnd j)" "snd (rnd j)" "fst x" "snd x" extra net] by (cases x) fastforce
  qed simp
  then show ?thesis by (simp add: sim_sends_def)
qed

lemma msgs_queue: "set q' \<subseteq> M \<Longrightarrow> (\<Union>(i, q) \<in> set (dict_set r q' d). set q) \<subseteq> M \<union> (\<Union>(i, q) \<in> set d. set q)"
  using set_dict_set[of r q' d] by fastforce

lemma msgs_deliver: "net_msgs (nn_deliver k net) \<subseteq> net_msgs net"
proof (cases "k < length (nn_tasks net)")
  case True
  obtain m r d where t: "nn_tasks net ! k = (m, r, d)" by (cases "nn_tasks net ! k") auto
  then have m: "m \<in> net_msgs net" using nth_mem[OF True] by (force simp: net_msgs_def)
  define ts where "ts = take k (nn_tasks net) @ drop (Suc k) (nn_tasks net)"
  have sub: "fst ` set ts \<subseteq> net_msgs net" unfolding ts_def net_msgs_def
    using set_take_subset set_drop_subset by (metis set_append Un_least image_mono sup.coboundedI1)
  have all: "(\<Union>(i, q) \<in> set (nn_queues net). set q) \<subseteq> net_msgs net" by (simp add: net_msgs_def)
  have queues: "(\<Union>(i, q) \<in> set (dict_set r (q' @ [m]) (nn_queues net)). set q) \<subseteq> net_msgs net" if "map_of (nn_queues net) r = Some q'" for q'
  proof -
    have "set q' \<subseteq> net_msgs net" using map_of_SomeD[OF that] all by blast
    with m have "set (q' @ [m]) \<subseteq> net_msgs net" by simp
    from msgs_queue[OF this, of r "nn_queues net"] all show ?thesis by (rule subset_trans[OF _ Un_least[OF subset_refl]])
  qed
  have "nn_deliver k net = (case map_of (nn_queues net) r of None \<Rightarrow> net\<lparr>nn_tasks := ts\<rparr>
      | Some q' \<Rightarrow> net\<lparr>nn_tasks := ts, nn_queues := dict_set r (q' @ [m]) (nn_queues net)\<rparr>)"
    using True t by (simp add: nn_deliver_def ts_def split: option.split)
  then show ?thesis using sub queues by (cases "map_of (nn_queues net) r") (auto simp: net_msgs_def)
qed (simp add: nn_deliver_def)

lemma msgs_get:
  assumes "inbox_get i net = Some (m, net')" shows "m \<in> net_msgs net" "net_msgs net' \<subseteq> net_msgs net"
proof -
  obtain q where q: "map_of (nn_queues net) i = Some (m # q)" "net' = net\<lparr>nn_queues := dict_set i q (nn_queues net)\<rparr>"
    using assms by (auto simp: inbox_get_def split: option.splits list.splits)
  have in_queue: "set (m # q) \<subseteq> net_msgs net" using map_of_SomeD[OF q(1)] by (force simp: net_msgs_def)
  then show "m \<in> net_msgs net" by simp
  show "net_msgs net' \<subseteq> net_msgs net" using in_queue msgs_queue[of q "net_msgs net" i "nn_queues net"] by (auto simp: q(2) net_msgs_def)
qed

section \<open>The simulation\<close>

definition holds_block :: "nb_sim \<Rightarrow> string \<Rightarrow> string \<Rightarrow> bool" where
  "holds_block s i d \<longleftrightarrow> (\<exists>nd. map_of (sm_nodes s) i = Some nd \<and> nb_committed nd d)"

definition faulty_count :: "nb_sim \<Rightarrow> nat" where
  "faulty_count s = length (filter (\<lambda>nd. behavior nd \<noteq> None) (map snd (sm_nodes s)))"

definition nodes_ok :: "nb_params \<Rightarrow> string list \<Rightarrow> nb_sim \<Rightarrow> bool" where
  "nodes_ok p ring s \<longleftrightarrow> sm_par s = p \<and> distinct (map fst (sm_nodes s)) \<and> (\<forall>(i, nd) \<in> set (sm_nodes s). nb_id nd = i \<and> set_up p ring nd)"

definition replies_ok :: "nb_sim \<Rightarrow> bool" where
  "replies_ok s \<longleftrightarrow> (\<forall>m \<in> net_msgs (sm_net s). nm_type m = REPLY \<longrightarrow> holds_block s (nm_sender m) (nm_digest m)) \<and>
     (\<forall>d. \<forall>i \<in> replies (sm_client s) d. holds_block s i d) \<and> client_ok (sm_par s) (sm_client s)"

definition outcomes_ok :: "nb_sim \<Rightarrow> bool" where
  "outcomes_ok s \<longleftrightarrow>
     (\<forall>oc \<in> set (sm_outcomes s). oc_success oc \<longrightarrow> reply_quorum (sm_par s) \<le> int (card {i. holds_block s i (oc_digest oc)})) \<and>
     (case sm_main s of Settling k d \<Rightarrow> length (sm_outcomes s) = Suc (length (sm_committed s)) \<and> oc_digest (last (sm_outcomes s)) = d
      | _ \<Rightarrow> length (sm_outcomes s) = length (sm_committed s)) \<and>
     (\<forall>k < length (sm_committed s). oc_success (sm_outcomes s ! k) \<longrightarrow>
        reply_quorum (sm_par s) - int (faulty_count s) \<le> int (sm_committed s ! k))"

definition nb_sim_inv :: "nb_params \<Rightarrow> string list \<Rightarrow> int \<Rightarrow> nb_sim \<Rightarrow> bool" where
  "nb_sim_inv p ring B s \<longleftrightarrow> nodes_ok p ring s \<and> replies_ok s \<and> outcomes_ok s \<and> honest_nodes s \<noteq> [] \<and> int (faulty_count s) \<le> B"

text \<open>The nodes only move on.\<close>

definition moved_on :: "nb_sim \<Rightarrow> nb_sim \<Rightarrow> bool" where
  "moved_on s s' \<longleftrightarrow> list_all2 (\<lambda>(i, nd) (j, nd'). i = j \<and> nb_next nd nd') (sm_nodes s) (sm_nodes s')"

lemma moved_holds:
  assumes "moved_on s s'" "holds_block s i d" shows "holds_block s' i d"
proof -
  have "list_all2 (\<lambda>(i, nd) (j, nd'). i = j \<and> nb_next nd nd') xs ys \<Longrightarrow> map_of xs i = Some nd \<Longrightarrow> nb_committed nd d \<Longrightarrow>
      \<exists>nd'. map_of ys i = Some nd' \<and> nb_committed nd' d" for xs ys nd
    by (induction xs ys rule: list_all2_induct) (auto simp: nb_next_def split: if_splits dest: committed_prefix)
  with assms show ?thesis unfolding moved_on_def holds_block_def by blast
qed

lemma moved_behavior: "moved_on s s' \<Longrightarrow> map (behavior \<circ> snd) (sm_nodes s') = map (behavior \<circ> snd) (sm_nodes s)"
  unfolding moved_on_def by (induction rule: list_all2_induct) (auto simp: nb_next_def)

lemma moved_ids: "moved_on s s' \<Longrightarrow> map fst (sm_nodes s') = map fst (sm_nodes s)"
  unfolding moved_on_def by (induction rule: list_all2_induct) auto

lemma behaviors_counts:
  "faulty_count s = length (filter (\<lambda>b. b \<noteq> None) (map (behavior \<circ> snd) (sm_nodes s)))"
  "honest_nodes s = [] \<longleftrightarrow> filter (\<lambda>b. b = None) (map (behavior \<circ> snd) (sm_nodes s)) = []"
  by (simp_all add: faulty_count_def honest_nodes_def filter_map o_def)

lemma moved_counts: "moved_on s s' \<Longrightarrow> faulty_count s' = faulty_count s" "moved_on s s' \<Longrightarrow> honest_nodes s' = [] \<longleftrightarrow> honest_nodes s = []"
  unfolding behaviors_counts by (simp_all add: moved_behavior)

lemma finite_holders: "finite {i. holds_block s i d}"
  by (rule finite_subset[of _ "fst ` set (sm_nodes s)"]) (auto simp: holds_block_def dest!: map_of_SomeD intro: rev_image_eqI)

lemma moved_card: "moved_on s s' \<Longrightarrow> card {i. holds_block s i d} \<le> card {i. holds_block s' i d}"
  using moved_holds by (intro card_mono finite_holders) auto

text \<open>The holders of a block that are not faulty.\<close>

lemma split_holders:
  "length (filter (\<lambda>(i, nd). nb_committed nd d) xs) \<le>
    length (filter (\<lambda>nd. nb_committed nd d) (filter (\<lambda>nd. behavior nd = None) (map snd xs))) + length (filter (\<lambda>nd. behavior nd \<noteq> None) (map snd xs))"
  by (induction xs) auto

lemma holders_count: "card {i. holds_block s i d} \<le> length (filter (\<lambda>nd. nb_committed nd d) (honest_nodes s)) + faulty_count s"
proof -
  let ?l = "filter (\<lambda>(i, nd). nb_committed nd d) (sm_nodes s)"
  have "{i. holds_block s i d} \<subseteq> set (map fst ?l)" by (force simp: holds_block_def dest: map_of_SomeD)
  then have "card {i. holds_block s i d} \<le> length ?l" using card_mono card_length by (metis List.finite_set le_trans length_map)
  also have "\<dots> \<le> length (filter (\<lambda>nd. nb_committed nd d) (honest_nodes s)) + faulty_count s"
    unfolding honest_nodes_def faulty_count_def by (rule split_holders)
  finally show ?thesis .
qed

lemma moved_refl [simp]: "moved_on s (s\<lparr>sm_net := a\<rparr>)" "moved_on s (s\<lparr>sm_net := a, sm_client := b\<rparr>)" "moved_on s s"
  by (auto simp: moved_on_def list_all2_same)

lemma moved_nodes_ok:
  assumes "nodes_ok p ring s" "moved_on s s'" "sm_par s' = sm_par s" shows "nodes_ok p ring s'"
proof -
  have all: "list_all2 (\<lambda>(i, nd) (j, nd'). i = j \<and> nb_next nd nd') xs ys \<Longrightarrow> \<forall>(i, nd) \<in> set xs. nb_id nd = i \<and> set_up p ring nd \<Longrightarrow>
      \<forall>(i, nd) \<in> set ys. nb_id nd = i \<and> set_up p ring nd" for xs ys
    by (induction rule: list_all2_induct) (auto simp: nb_next_def set_up_def)
  have "\<forall>(i, nd) \<in> set (sm_nodes s'). nb_id nd = i \<and> set_up p ring nd"
    using all[of "sm_nodes s" "sm_nodes s'"] assms(1,2) by (simp add: nodes_ok_def moved_on_def)
  then show ?thesis using assms(1,3) moved_ids[OF assms(2)] by (simp add: nodes_ok_def)
qed

lemma inv_moved:
  assumes "nb_sim_inv p ring B s" "moved_on s s'" and same: "sm_par s' = sm_par s" "sm_client s' = sm_client s" "sm_main s' = sm_main s"
    "sm_outcomes s' = sm_outcomes s" "sm_committed s' = sm_committed s"
    and new: "\<And>m. m \<in> net_msgs (sm_net s') \<Longrightarrow> nm_type m = REPLY \<Longrightarrow> m \<in> net_msgs (sm_net s) \<or> holds_block s' (nm_sender m) (nm_digest m)"
  shows "nb_sim_inv p ring B s'"
proof -
  have "replies_ok s'" using assms(1) new moved_holds[OF assms(2)] same unfolding nb_sim_inv_def replies_ok_def by metis
  moreover have "reply_quorum q \<le> int (card {i. holds_block s' i d})" if "reply_quorum q \<le> int (card {i. holds_block s i d})" for q d
    using that moved_card[OF assms(2), of d] by linarith
  then have "outcomes_ok s'" using assms(1) moved_counts(1)[OF assms(2)] unfolding nb_sim_inv_def outcomes_ok_def same by auto
  ultimately show ?thesis using assms(1) moved_nodes_ok[OF _ assms(2) same(1)] moved_counts[OF assms(2)] unfolding nb_sim_inv_def by simp
qed

lemma moved_node:
  assumes "map_of (sm_nodes s) i = Some nd" "nb_next nd nd'" shows "moved_on s (s\<lparr>sm_nodes := dict_set i nd' (sm_nodes s), sm_net := net\<rparr>)"
proof -
  have "map_of xs i = Some nd \<Longrightarrow> list_all2 (\<lambda>(i, nd) (j, nd'). i = j \<and> nb_next nd nd') xs (dict_set i nd' xs)" for xs
    using assms(2) by (induction xs) (auto simp: list_all2_same split: if_splits)
  with assms(1) show ?thesis by (simp add: moved_on_def)
qed

lemma inv_node:
  assumes inv: "nb_sim_inv p ring B s" shows "okE (nb_sim_inv p ring B) (sim_node c rnd i e s)"
proof (cases "map_of (sm_nodes s) i")
  case (Some nd)
  have nd: "nb_id nd = i" "set_up p ring nd" using inv map_of_SomeD[OF Some] by (auto simp: nb_sim_inv_def nodes_ok_def)
  obtain nd' where nd': "nb_step e nd = Inr nd'" "nb_next nd nd'" using nb_step_next[OF nd(2), of e] by (auto simp: okE_iff)
  define extra where "extra = (if behavior nd = Some ''delay'' then byz_extra_delay_ms c else 0)"
  define net where "net = sim_sends c rnd extra (drop (length (nb_out nd)) (nb_out nd')) (sm_net s)"
  let ?s = "s\<lparr>sm_nodes := dict_set i nd' (sm_nodes s), sm_net := net\<rparr>"
  have sent: "holds_block ?s (nm_sender m) (nm_digest m)" if "m \<in> fst ` set (drop (length (nb_out nd)) (nb_out nd'))" "nm_type m = REPLY" for m
    using that nd' nd(1) by (auto simp: nb_next_def holds_block_def)
  have new: "m \<in> net_msgs (sm_net s) \<or> holds_block ?s (nm_sender m) (nm_digest m)" if "m \<in> net_msgs (sm_net ?s)" "nm_type m = REPLY" for m
  proof -
    have "m \<in> fst ` set (drop (length (nb_out nd)) (nb_out nd')) \<union> net_msgs (sm_net s)"
      using that(1) msgs_sends[of c rnd extra "drop (length (nb_out nd)) (nb_out nd')" "sm_net s"] by (auto simp: net_def)
    with sent[OF _ that(2)] show ?thesis by blast
  qed
  have "nb_sim_inv p ring B ?s"
    by (rule inv_moved[OF inv moved_node[OF Some nd'(2)]]) (simp_all, use new in simp)
  with Some nd'(1) show ?thesis by (simp add: sim_node_def Let_def net_def extra_def)
qed (simp add: sim_node_def inv)

lemma inv_net:
  "nb_sim_inv p ring B s \<Longrightarrow> net_msgs net \<subseteq> net_msgs (sm_net s) \<union> {m. nm_type m \<noteq> REPLY} \<Longrightarrow> nb_sim_inv p ring B (s\<lparr>sm_net := net\<rparr>)"
  by (rule inv_moved[of p ring B s]) auto

lemma inv_take: "nb_sim_inv p ring B s \<Longrightarrow> okE (nb_sim_inv p ring B) (sim_take c rnd i s)"
proof (cases "inbox_get i (sm_net s)")
  case (Some mn)
  assume inv: "nb_sim_inv p ring B s"
  obtain m net where g: "inbox_get i (sm_net s) = Some (m, net)" using Some by (cases mn) auto
  have "nb_sim_inv p ring B (s\<lparr>sm_net := net\<rparr>)" using inv_net[OF inv] msgs_get(2)[OF g] by blast
  then show ?thesis by (simp add: sim_take_def g inv_node)
qed (simp add: sim_take_def)

lemma same_nodes:
  assumes "sm_nodes s' = sm_nodes s"
  shows "holds_block s' = holds_block s" "faulty_count s' = faulty_count s" "honest_nodes s' = honest_nodes s"
    "sm_par s' = sm_par s \<Longrightarrow> nodes_ok p ring s' = nodes_ok p ring s"
  using assms by (simp_all add: holds_block_def faulty_count_def honest_nodes_def nodes_ok_def fun_eq_iff)

lemma same_outcomes:
  assumes "sm_nodes s' = sm_nodes s" "sm_par s' = sm_par s" "sm_main s' = sm_main s" "sm_outcomes s' = sm_outcomes s" "sm_committed s' = sm_committed s"
  shows "outcomes_ok s' = outcomes_ok s"
  unfolding outcomes_ok_def assms same_nodes(1,2)[OF assms(1)] by (rule refl)

lemma inv_client:
  assumes "nb_sim_inv p ring B s" "\<And>d i. i \<in> replies cl d \<Longrightarrow> holds_block s i d" "client_ok (sm_par s) cl"
  shows "nb_sim_inv p ring B (s\<lparr>sm_client := cl\<rparr>)"
  using assms same_nodes[of "s\<lparr>sm_client := cl\<rparr>" s] same_outcomes[of "s\<lparr>sm_client := cl\<rparr>" s]
  by (simp add: nb_sim_inv_def replies_ok_def)

lemma inv_read:
  assumes inv: "nb_sim_inv p ring B s" shows "nb_sim_inv p ring B (sim_read s)"
proof (cases "inbox_get ''client'' (sm_net s)")
  case (Some mn)
  then obtain m net where g: "inbox_get ''client'' (sm_net s) = Some (m, net)" by (cases mn) auto
  let ?c = "read_reply (sm_par s) m (sm_client s)" and ?s = "s\<lparr>sm_net := net\<rparr>"
  have i: "nb_sim_inv p ring B ?s" using inv_net[OF inv] msgs_get(2)[OF g] by blast
  have client: "client_ok (sm_par s) ?c" using inv by (simp add: nb_sim_inv_def replies_ok_def client_ok_read)
  have holds: "holds_block ?s = holds_block s" by (rule same_nodes(1)) simp
  have reply: "nm_type m = REPLY \<longrightarrow> holds_block s (nm_sender m) (nm_digest m)"
    using inv msgs_get(1)[OF g] by (auto simp: nb_sim_inv_def replies_ok_def)
  have sub: "replies ?c d \<subseteq> replies (sm_client s) d \<union> (if nm_type m = REPLY \<and> d = nm_digest m then {nm_sender m} else {})" for d
    by (auto simp: read_reply_def Let_def)
  have old: "holds_block s i d" if "i \<in> replies (sm_client s) d" for i d using inv that by (simp add: nb_sim_inv_def replies_ok_def)
  have "holds_block s i d" if "i \<in> replies ?c d" for i d
    using subsetD[OF sub that] reply old[of i d] by (cases "nm_type m = REPLY \<and> d = nm_digest m") auto
  then show ?thesis using inv_client[OF i] client by (simp add: sim_read_def g holds)
qed (simp add: sim_read_def inv)

lemma inv_returns:
  assumes inv: "nb_sim_inv p ring B s" and "length (sm_outcomes s) = length (sm_committed s)"
    and q: "success \<Longrightarrow> quorum_events (sm_client s) (payload_digest payload) = Some True"
  shows "nb_sim_inv p ring B (request_returns success attempts k payload s)"
proof -
  let ?d = "payload_digest payload" and ?s = "request_returns success attempts k payload s"
  have "reply_quorum (sm_par s) \<le> int (card {i. holds_block s i ?d})" if success
  proof -
    have "reply_quorum (sm_par s) \<le> int (card (replies (sm_client s) ?d))" using inv q[OF that] by (simp add: nb_sim_inv_def replies_ok_def client_ok_def)
    moreover have "card (replies (sm_client s) ?d) \<le> card {i. holds_block s i ?d}"
      using inv by (intro card_mono finite_holders) (auto simp: nb_sim_inv_def replies_ok_def)
    ultimately show ?thesis by linarith
  qed
  moreover have fields: "sm_nodes ?s = sm_nodes s" "sm_par ?s = sm_par s" "sm_net ?s = sm_net s" "sm_client ?s = sm_client s"
    by (simp_all add: request_returns_def Let_def)
  note same = same_nodes[OF fields(1)]
  ultimately have "outcomes_ok ?s" using inv assms(2) unfolding nb_sim_inv_def outcomes_ok_def same fields
    by (auto simp: request_returns_def Let_def nth_append)
  moreover have "nodes_ok p ring ?s" "replies_ok ?s" "honest_nodes ?s \<noteq> []" "int (faulty_count ?s) \<le> B"
    using inv same(4)[OF fields(2)] unfolding nb_sim_inv_def replies_ok_def same(1-3) fields by simp_all
  ultimately show ?thesis by (simp add: nb_sim_inv_def)
qed

lemma inv_main:
  assumes "nb_sim_inv p ring B s" "length (sm_outcomes s) = length (sm_committed s)" "\<And>k d. x \<noteq> Settling k d"
  shows "nb_sim_inv p ring B (s\<lparr>sm_main := x\<rparr>)"
proof -
  let ?s = "s\<lparr>sm_main := x\<rparr>"
  note same = same_nodes[of ?s s, simplified]
  have "outcomes_ok ?s" using assms(1,2) assms(3) unfolding nb_sim_inv_def outcomes_ok_def same by (cases x) auto
  then show ?thesis using assms(1) unfolding nb_sim_inv_def replies_ok_def by (simp add: same)
qed

lemma inv_request:
  assumes inv: "nb_sim_inv p ring B s"
  shows "nb_sim_inv p ring B (s\<lparr>sm_client := (sm_client s)\<lparr>quorum_events := (if quorum_events (sm_client s) d = None
      then (quorum_events (sm_client s))(d \<mapsto> False) else quorum_events (sm_client s))\<rparr>\<rparr>)"
  using inv by (intro inv_client) (auto simp: nb_sim_inv_def replies_ok_def client_ok_def)

lemma inv_requests: "nb_sim_inv p ring B s \<Longrightarrow> \<forall>(m, r) \<in> set ms. nm_type m \<noteq> REPLY \<Longrightarrow> nb_sim_inv p ring B (s\<lparr>sm_net := sim_sends c rnd x ms (sm_net s)\<rparr>)"
  using msgs_sends[of c rnd x ms "sm_net s"] by (intro inv_net) (fastforce simp: case_prod_beta)+

lemma request_type [simp]: "nm_type (request_message payload) = REQUEST"
  by (simp add: request_message_def)

lemma waiting_lengths: "nb_sim_inv p ring B s \<Longrightarrow> (\<And>k d. sm_main s \<noteq> Settling k d) \<Longrightarrow> length (sm_outcomes s) = length (sm_committed s)"
  by (cases "sm_main s") (auto simp: nb_sim_inv_def outcomes_ok_def)

lemma inv_start_round:
  assumes inv: "nb_sim_inv p ring B s" and len: "length (sm_outcomes s) = length (sm_committed s)"
  shows "okE (nb_sim_inv p ring B) (nb_start_round c rnd k s)"
proof -
  obtain nd rest where h: "honest_nodes s = nd # rest" using inv by (cases "honest_nodes s") (auto simp: nb_sim_inv_def)
  let ?d = "payload_digest (round_payload k)"
  let ?cl = "(sm_client s)\<lparr>quorum_events := (if quorum_events (sm_client s) ?d = None
      then (quorum_events (sm_client s))(?d \<mapsto> False) else quorum_events (sm_client s))\<rparr>"
  define s1 where "s1 = s\<lparr>sm_client := ?cl,
    sm_net := sim_sends c rnd 0 [(request_message (round_payload k), mb_primary (nb_members nd))] (sm_net s)\<rparr>"
  have s1: "nb_sim_inv p ring B s1" unfolding s1_def
    using inv_requests[OF inv_request[OF inv, of ?d], of "[(request_message (round_payload k), mb_primary (nb_members nd))]"] by simp
  have "length (sm_outcomes s1) = length (sm_committed s1)" using len by (simp add: s1_def)
  note inv_returns[OF s1 this, of False "round_payload k" 0 k] inv_main[OF s1 this, of "Waiting k (round_payload k) 1"]
  then show ?thesis unfolding nb_start_round_def h Let_def list.case s1_def[symmetric] by simp
qed

lemma inv_timeout:
  assumes inv: "nb_sim_inv p ring B s" shows "nb_sim_inv p ring B (request_timeout c rnd s)"
proof (cases "sm_main s")
  case (Waiting k payload a)
  then have len: "length (sm_outcomes s) = length (sm_committed s)" using waiting_lengths[OF inv] by simp
  note inv_returns[OF inv len, of False payload a k]
  moreover have "nb_sim_inv p ring B (s\<lparr>sm_main := Waiting k payload (a + 1), sm_net := sim_sends c rnd 0 (map (Pair (request_message payload)) (node_ids c)) (sm_net s)\<rparr>)"
    using inv_requests[OF inv_main[OF inv len, of "Waiting k payload (a + 1)"], of "map (Pair (request_message payload)) (node_ids c)" c rnd 0] by simp
  ultimately show ?thesis using Waiting by (simp add: request_timeout_def)
qed (simp_all add: request_timeout_def inv)

lemma moved_stop: "moved_on s (s\<lparr>sm_nodes := map (\<lambda>(i, nd). (i, stop_nb nd)) (sm_nodes s)\<rparr>)"
  by (auto simp: moved_on_def list_all2_map2 list_all2_same)

lemma inv_settled:
  assumes inv: "nb_sim_inv p ring B s" and main: "sm_main s = Settling k d"
  shows "nb_sim_inv p ring B (s\<lparr>sm_main := Round (k + 1), sm_committed := sm_committed s @ [length (filter (\<lambda>nd. nb_committed nd d) (honest_nodes s))]\<rparr>)"
    (is "nb_sim_inv p ring B ?s")
proof -
  let ?n = "length (sm_committed s)"
  have o: "length (sm_outcomes s) = Suc ?n" "oc_digest (last (sm_outcomes s)) = d" using inv main by (auto simp: nb_sim_inv_def outcomes_ok_def)
  then have last: "sm_outcomes s ! ?n = last (sm_outcomes s)" "last (sm_outcomes s) \<in> set (sm_outcomes s)"
    by (metis diff_Suc_1 last_conv_nth length_0_conv nat.distinct(1), metis last_in_set length_0_conv nat.distinct(1))
  have "reply_quorum (sm_par s) - int (faulty_count s) \<le> int (length (filter (\<lambda>nd. nb_committed nd d) (honest_nodes s)))" if "oc_success (last (sm_outcomes s))"
    using inv last(2) that holders_count[of s d] o(2) unfolding nb_sim_inv_def outcomes_ok_def by fastforce
  moreover have fields: "sm_nodes ?s = sm_nodes s" by simp
  note same = same_nodes[OF fields]
  ultimately have "outcomes_ok ?s" using inv o last unfolding nb_sim_inv_def outcomes_ok_def same
    by (auto simp: nth_append less_Suc_eq)
  then show ?thesis using inv same(4)[of p ring] unfolding nb_sim_inv_def replies_ok_def same(1-3) by simp
qed

lemma inv_resume:
  assumes inv: "nb_sim_inv p ring B s" shows "okE (nb_sim_inv p ring B) (nb_resume c rnd s)"
proof (cases "sm_main s")
  case (Round k)
  then have len: "length (sm_outcomes s) = length (sm_committed s)" using waiting_lengths[OF inv] by simp
  have "nb_sim_inv p ring B (s\<lparr>sm_nodes := map (\<lambda>(i, nd). (i, stop_nb nd)) (sm_nodes s)\<rparr>)" (is "nb_sim_inv p ring B ?s")
    by (rule inv_moved[OF inv moved_stop]) auto
  from inv_main[OF this, of Ended] len have "okE (nb_sim_inv p ring B) (nb_shut_down s)"
    using inv by (simp add: nb_shut_down_def nb_sim_inv_def)
  then show ?thesis using inv_start_round[OF inv len] Round by (simp add: nb_resume_def)
next
  case (Waiting k payload a)
  then show ?thesis using inv_returns[OF inv waiting_lengths[OF inv], of True payload a k] inv by (simp add: nb_resume_def)
next
  case (Settling k d)
  then show ?thesis using inv_settled[OF inv Settling] by (simp add: nb_resume_def)
qed (simp add: nb_resume_def inv)

lemma nb_sim_step_inv: "nb_sim_inv p ring B s \<Longrightarrow> okE (nb_sim_inv p ring B) (nb_sim_step c e s)"
  using inv_net[of p ring B s] msgs_deliver
  by (cases e) (auto simp: inv_node inv_take inv_read inv_resume inv_timeout intro!: inv_net)

interpretation nbsim: machine "nb_sim_step c" "nb_sim_inv p ring B" for c p ring B
  using nb_sim_step_inv by unfold_locales (metis okE_iff)

section \<open>The start\<close>

lemma node_ids_distinct: "distinct (node_ids c)" "length (node_ids c) = nat (nc_n c)"
  by (auto simp: node_ids_def distinct_map inj_on_def dest: nat_str_inj)

lemma picked_length: "pick_byzantine c ms sample = Inr byz \<Longrightarrow> int (length byz) \<le> max 0 (byz_count c)"
  by (auto simp: pick_byzantine_def Let_def split: if_splits)

lemma init_nb_fields:
  assumes "init_nb b i p ring h = Inr nd"
  shows "nb_id nd = i" "nb_par nd = p" "nb_ring nd = ring" "behavior nd = b" "nb_out nd = []" "chain nd = []"
  using assms by (auto simp: init_nb_def bindE_eq_Inr Let_def)

lemma mapE_list_all2: "mapE f xs = Inr ys \<Longrightarrow> list_all2 (\<lambda>x y. f x = Inr y) xs ys"
  by (induction xs arbitrary: ys) (auto simp: bindE_eq_Inr)

lemma built_ids: "list_all2 (\<lambda>i nd. init_nb (b i) i p ring h = Inr nd) xs ys \<Longrightarrow> map nb_id ys = xs"
  by (induction rule: list_all2_induct) (auto simp: init_nb_fields(1))

lemma built_nodes:
  assumes "build_nodes c sample h = Inr nodes" "ConsensusParams (nc_n c) (nc_m c) = Inr p"
  shows "map nb_id nodes = node_ids c" "\<forall>nd \<in> set nodes. nb_par nd = p \<and> nb_ring nd = by_position (node_ids c) \<and> nb_out nd = [] \<and> chain nd = []"
    "int (length (filter (\<lambda>nd. behavior nd \<noteq> None) nodes)) \<le> max 0 (byz_count c)"
proof -
  obtain ms byz where b: "pick_byzantine c ms sample = Inr byz" "mapE (\<lambda>i. init_nb (map_of byz i) i p (by_position (node_ids c)) h) (node_ids c) = Inr nodes"
    using assms by (auto simp: build_nodes_def bindE_eq_Inr HashRing_def)
  have nodes: "list_all2 (\<lambda>i nd. init_nb (map_of byz i) i p (by_position (node_ids c)) h = Inr nd) (node_ids c) nodes"
    using mapE_list_all2[OF b(2)] .
  have each: "\<exists>i. init_nb (map_of byz i) i p (by_position (node_ids c)) h = Inr nd" if mem: "nd \<in> set nodes" for nd
  proof -
    obtain k where "k < length nodes" "nodes ! k = nd" using mem by (auto simp: in_set_conv_nth)
    with list_all2_nthD2[OF nodes] show ?thesis by blast
  qed
  show ids: "map nb_id nodes = node_ids c" using built_ids[OF nodes] .
  show "\<forall>nd \<in> set nodes. nb_par nd = p \<and> nb_ring nd = by_position (node_ids c) \<and> nb_out nd = [] \<and> chain nd = []"
    by (intro ballI) (drule each, elim exE, simp add: init_nb_fields)
  have "\<forall>nd \<in> set nodes. behavior nd = map_of byz (nb_id nd)"
    by (intro ballI) (drule each, elim exE, simp add: init_nb_fields)
  then have sub: "set (map nb_id (filter (\<lambda>nd. behavior nd \<noteq> None) nodes)) \<subseteq> set (map fst byz)"
    by (auto dest!: map_of_SomeD intro: rev_image_eqI)
  have "distinct (map nb_id (filter (\<lambda>nd. behavior nd \<noteq> None) nodes))" using node_ids_distinct(1)[of c] ids by (metis distinct_map_filter)
  then have "length (filter (\<lambda>nd. behavior nd \<noteq> None) nodes) \<le> length byz"
    using card_mono[OF _ sub] distinct_card card_length[of "map fst byz"] by (metis List.finite_set le_trans length_map)
  then show "int (length (filter (\<lambda>nd. behavior nd \<noteq> None) nodes)) \<le> max 0 (byz_count c)" using picked_length[OF b(1)] by linarith
qed

lemma registered_empty: "\<forall>(i, q) \<in> set (nn_queues net). q = [] \<Longrightarrow> nn_tasks net = [] \<Longrightarrow> net_msgs (fold nn_register ids net) = {}"
proof -
  assume a: "\<forall>(i, q) \<in> set (nn_queues net). q = []" "nn_tasks net = []"
  then have "(\<forall>(i, q) \<in> set (nn_queues (fold nn_register ids net)). q = []) \<and> nn_tasks (fold nn_register ids net) = []"
  proof (induction ids arbitrary: net)
    case (Cons i ids)
    have "\<forall>(j, q) \<in> set (dict_set i [] (nn_queues net)). q = []" using set_dict_set[of i "[]" "nn_queues net"] Cons.prems(1) by blast
    then show ?case using Cons.IH[of "nn_register i net"] Cons.prems(2) by (simp add: nn_register_def)
  qed simp
  then show ?thesis by (auto simp: net_msgs_def)
qed

lemma nb_sim_inv_init:
  assumes "init_nb_sim c sample h = Inr s" "ungrouped_count (sm_par s) = 0" "byz_count c < nc_n c"
  shows "nb_sim_inv (sm_par s) (by_position (node_ids c)) (max 0 (byz_count c)) s" "ConsensusParams (nc_n c) (nc_m c) = Inr (sm_par s)"
proof -
  obtain p nodes where p: "ConsensusParams (nc_n c) (nc_m c) = Inr p" "build_nodes c sample h = Inr nodes"
    and s: "s = \<lparr>sm_par = p, sm_nodes = map (\<lambda>nd. (nb_id nd, nd)) nodes, sm_net = fold nn_register (map nb_id nodes @ [''client'']) init_nb_net,
      sm_client = \<lparr>replies = (\<lambda>_. {}), quorum_events = Map.empty\<rparr>, sm_main = Round 1, sm_outcomes = [], sm_committed = []\<rparr>"
    using assms(1) by (auto simp: init_nb_sim_def bindE_eq_Inr)
  note B = built_nodes[OF p(2,1)]
  have np: "nbn p = nc_n c" "nbm p = nc_m c" using p(1) by (auto simp: ConsensusParams_def Let_def)
  then have ok: "params_ok p" using p(1) by (simp add: params_ok_def)
  have n: "1 \<le> nc_n c" using params_okD[OF ok] np by (smt (verit) mult_nonneg_nonneg)
  have ring_ok: "setup_ok p (by_position (node_ids c))" using ok node_ids_distinct[of c] np n assms(2) by (simp add: setup_ok_def s)
  have count: "int (faulty_count s) \<le> max 0 (byz_count c)" using B(3) by (simp add: s faulty_count_def o_def)
  have "length nodes = nat (nc_n c)" using B(1) node_ids_distinct(2)[of c] by (metis length_map)
  then have "honest_nodes s \<noteq> []"
    using count assms(3) n sum_length_filter_compl[of "\<lambda>nd. behavior nd = None" nodes] by (auto simp: s faulty_count_def honest_nodes_def o_def)
  moreover have "nodes_ok p (by_position (node_ids c)) s"
    using B(2) ring_ok node_ids_distinct(1)[of c] B(1) by (auto simp: s nodes_ok_def set_up_def o_def)
  moreover have "replies_ok s" using registered_empty[of init_nb_net "map nb_id nodes @ [''client'']"]
    by (auto simp: s replies_ok_def client_ok_def init_nb_net_def)
  moreover have "outcomes_ok s" by (simp add: s outcomes_ok_def)
  ultimately show "nb_sim_inv (sm_par s) (by_position (node_ids c)) (max 0 (byz_count c)) s" using count by (simp add: nb_sim_inv_def s)
  show "ConsensusParams (nc_n c) (nc_m c) = Inr (sm_par s)" using p(1) by (simp add: s)
qed

lemma init_nb_total:
  assumes "setup_ok p ring" shows "okE (\<lambda>_. True) (init_nb None i p ring h)"
  using okE_any[OF okE_mono[OF ok_compute[OF assms]]] by (simp add: init_nb_def Let_def)

lemma mapE_total: "(\<And>x. okE (\<lambda>_. True) (f x)) \<Longrightarrow> okE (\<lambda>_. True) (mapE f xs)"
  by (induction xs) (simp_all add: okE_any)

lemma init_nb_sim_total:
  assumes "ConsensusParams (nc_n c) (nc_m c) = Inr p" "ungrouped_count p = 0" "byz_count c \<le> 0"
  shows "\<exists>s. init_nb_sim c sample h = Inr s \<and> sm_par s = p"
proof -
  have np: "nbn p = nc_n c" "nbm p = nc_m c" using assms(1) by (auto simp: ConsensusParams_def Let_def)
  then have ok: "params_ok p" using assms(1) by (simp add: params_ok_def)
  then have "1 \<le> nc_n c" using params_okD[OF ok] np by (smt (verit) mult_nonneg_nonneg)
  then have ring: "setup_ok p (by_position (node_ids c))" using ok node_ids_distinct[of c] np assms(2) by (simp add: setup_ok_def)
  then have "okE (\<lambda>_. True) (ring_membership (by_position (node_ids c)) 0 GENESIS_HASH None (nat (nbm p)) (nat (nb_R p)))"
    using membership_ok[of p "by_position (node_ids c)"] by (auto simp: setup_ok_def intro: okE_mono)
  moreover have "okE (\<lambda>_. True) (mapE (\<lambda>i. init_nb None i p (by_position (node_ids c)) h) (node_ids c))"
    by (intro mapE_total init_nb_total ring)
  ultimately have "okE (\<lambda>_. True) (build_nodes c sample h)"
    using assms(1,3) node_ids_distinct(1)[of c] by (auto simp: build_nodes_def HashRing_def pick_byzantine_def intro: okE_any)
  then show ?thesis using assms(1) by (auto simp: init_nb_sim_def okE_iff)
qed

end
