(* ===== verification/NB_Properties.thy ===== *)
theory NB_Properties
  imports NB_Proofs NB_Backing
begin

text \<open>The properties of the NBFT project with their witnesses.\<close>



text \<open>C40. (\<^verbatim>\<open>node.py\<close> \<^verbatim>\<open>on_preprepare2\<close>) A single faulty primary breaks agreement, without any signature of another node:
  \<^verbatim>\<open>on_preprepare2\<close> believes the number of votes in the message and only counts different signer names, which need not be
  nodes. Whatever two honest nodes of one view did before, their primary can make the one append a block with any digest \<open>d\<close> and
  the other a block with any digest \<open>d'\<close>, at any number in the chain; its two messages contain no signature of a node of the ring.
  The parameters promise to tolerate up to \<open>T\<close> faulty nodes.\<close>

theorem nbft_forged_proof:
  assumes "setup_ok p ring"
    and t: "nb_run p ring k h es = Inr t" "\<not> rs_executed (states t (nb_view t, n))" "\<not> nb_committed t d"
    and u: "nb_run p ring l h' es' = Inr u" "\<not> rs_executed (states u (nb_view u, n))" "\<not> nb_committed u d'"
    and same: "nb_view u = nb_view t" "mb_primary (nb_members u) = mb_primary (nb_members t)"
  shows "\<exists>m m' t' u' x y. nm_sender m = mb_primary (nb_members t) \<and> nm_sender m' = mb_primary (nb_members t) \<and>
    sig_signer ` set (nm_sigs m @ nm_sigs m') \<inter> set ring = {} \<and>
    nb_handle m t = Inr t' \<and> chain t' = chain t @ [x] \<and> blk_seq x = n \<and> blk_digest x = d \<and>
    nb_handle m' u = Inr u' \<and> chain u' = chain u @ [y] \<and> blk_seq y = n \<and> blk_digest y = d'"
proof -
  obtain xs where xs: "distinct xs" "length xs = nat (proof_quorum p)" "\<forall>x \<in> set xs. plain x \<and> x \<notin> set ring"
    using fresh_names[of "set ring"] by blast
  define msg where "msg = (\<lambda>d. (Message PREPREPARE2 (mb_primary (nb_members t)) (nb_view t) n d)\<lparr>nm_sigs := map (\<lambda>i. sign i d) xs,
     nm_votes := vote_threshold p\<rparr>)"
  have M: "nm_type (msg d) = PREPREPARE2" "nm_sender (msg d) = mb_primary (nb_members t)" "nm_view (msg d) = nb_view t" "nm_seq (msg d) = n"
    "nm_digest (msg d) = d" "nm_votes (msg d) = vote_threshold p" "nm_sigs (msg d) = map (\<lambda>i. sign i d) xs" for d
    by (simp_all add: msg_def Message_def)
  have "filter (\<lambda>sig. sig_valid sig d) (map (\<lambda>i. sign i d) xs) = map (\<lambda>i. sign i d) xs" for d
    using xs(3) split_sign(2) by (intro filter_True) auto
  moreover have signers: "sig_signer ` set (map (\<lambda>i. sign i d) xs) = set xs" for d
    using xs(3) split_sign(1) by (simp add: image_image cong: image_cong_simp)
  ultimately have "sig_signer ` set (filter (\<lambda>sig. sig_valid sig d) (map (\<lambda>i. sign i d) xs)) = set xs" for d by simp
  then have q: "proof_quorum p \<le> int (card (sig_signer ` set (filter (\<lambda>sig. sig_valid sig d) (map (\<lambda>i. sign i d) xs))))" for d
    using xs(1,2) by (simp add: distinct_card)
  have "sig_signer ` set (nm_sigs (msg d) @ nm_sigs (msg d')) \<inter> set ring = {}"
    unfolding M set_append image_Un signers using xs(3) by auto
  moreover obtain t' x where "nb_handle (msg d) t = Inr t'" "chain t' = chain t @ [x]" "blk_seq x = n" "blk_digest x = d"
    using preprepare2_accepted[OF assms(1), of "msg d" t] run_nb_inv[OF assms(1) t(1)] t(2,3) q M by auto
  moreover obtain u' y where "nb_handle (msg d') u = Inr u'" "chain u' = chain u @ [y]" "blk_seq y = n" "blk_digest y = d'"
    using preprepare2_accepted[OF assms(1), of "msg d'" u] run_nb_inv[OF assms(1) u(1)] u(2,3) q M same by auto
  ultimately show ?thesis using M(2) by blast
qed

theorem nbft_forged_proof_witness:
  "\<exists>m m' t' u' x y. sig_signer ` set (nm_sigs m @ nm_sigs m') \<inter> set nbd_ring = {} \<and>
    nb_handle m (nbd_start (mb_reps nbd_roles ! 1)) = Inr t' \<and> chain t' = [x] \<and> blk_digest x = ''a'' \<and>
    nb_handle m' (nbd_start (mb_reps nbd_roles ! 2)) = Inr u' \<and> chain u' = [y] \<and> blk_digest y = ''b''"
proof -
  have start: "nb_run nbd_params nbd_ring i (\<lambda>_. 0) [] = Inr (nbd_start i)" "\<not> rs_executed (states (nbd_start i) (nb_view (nbd_start i), 1))"
    "\<not> nb_committed (nbd_start i) d" for i d by (simp_all add: nb_run_def nbd_starts RoundState_def nb_committed_def)
  have "nb_view (nbd_start i) = nb_view (nbd_start j)" "mb_primary (nb_members (nbd_start i)) = mb_primary (nb_members (nbd_start j))" for i j
    by (simp_all add: nbd_starts)
  from nbft_forged_proof[OF nbd_setup(1) start(1,2,3) start(1,2,3) this, of "mb_reps nbd_roles ! 1" "''a''" "mb_reps nbd_roles ! 2" "''b''"]
  show ?thesis unfolding nbd_starts(6) append_Nil by blast
qed



end
