(* ===== verification/CN_Value.thy ===== *)
theory CN_Value
  imports Py_Text "HOL-Library.List_Lexorder" "HOL-Library.Char_ord"
begin

text \<open>
  The values that YAML and JSON files hold, with Python's operations on them, as the test console and the scenario evaluator
  of the PBFT project use them. Dictionaries have distinct string keys, strings are sequences of code points below 256, and
  floats are real numbers; the text of a float is an argument (\<open>py_floats\<close>).
\<close>

section \<open>Values\<close>

datatype jval =
    JNone
  | JBool bool
  | JInt int
  | JFloat real
  | JStr string
  | JList "jval list"
  | JDict "(string \<times> jval) list"

record py_floats =
  fl_str :: "real \<Rightarrow> string"
  fl_parse :: "string \<Rightarrow> real option"

fun as_num :: "jval \<Rightarrow> real option" where
  "as_num (JBool b) = Some (of_bool b)"
| "as_num (JInt i) = Some (of_int i)"
| "as_num (JFloat x) = Some x"
| "as_num _ = None"

text \<open>\<^verbatim>\<open>==\<close>: numbers are compared across their types, dictionaries without regard to order.\<close>

fun py_eq :: "jval \<Rightarrow> jval \<Rightarrow> bool" and py_eqs :: "jval list \<Rightarrow> jval list \<Rightarrow> bool" and
  py_eq_items :: "(string \<times> jval) list \<Rightarrow> (string \<times> jval) list \<Rightarrow> bool" where
  "py_eq (JStr s) w = (w = JStr s)"
| "py_eq JNone w = (w = JNone)"
| "py_eq (JList xs) w = (case w of JList ys \<Rightarrow> py_eqs xs ys | _ \<Rightarrow> False)"
| "py_eq (JDict d) w = (case w of JDict e \<Rightarrow> length d = length e \<and> py_eq_items d e | _ \<Rightarrow> False)"
| "py_eq (JBool b) w = (as_num w = Some (of_bool b))"
| "py_eq (JInt i) w = (as_num w = Some (of_int i))"
| "py_eq (JFloat x) w = (as_num w = Some x)"
| "py_eqs [] ys = (ys = [])"
| "py_eqs (x # xs) ys = (case ys of [] \<Rightarrow> False | y # ys' \<Rightarrow> py_eq x y \<and> py_eqs xs ys')"
| "py_eq_items [] e = True"
| "py_eq_items ((k, v) # d) e = ((case map_of e k of None \<Rightarrow> False | Some w \<Rightarrow> py_eq v w) \<and> py_eq_items d e)"

datatype comparison = Less | Less_eq | Greater | Greater_eq

fun ord_rel :: "comparison \<Rightarrow> 'a :: linorder \<Rightarrow> 'a \<Rightarrow> bool" where
  "ord_rel Less x y = (x < y)"
| "ord_rel Less_eq x y = (x \<le> y)"
| "ord_rel Greater x y = (y < x)"
| "ord_rel Greater_eq x y = (y \<le> x)"

text \<open>\<^verbatim>\<open><\<close>, \<^verbatim>\<open><=\<close>, \<^verbatim>\<open>>\<close> and \<^verbatim>\<open>>=\<close>; lists are compared at the first place where they differ.\<close>

fun py_cmp :: "comparison \<Rightarrow> jval \<Rightarrow> jval \<Rightarrow> py_error + bool" and py_cmps :: "comparison \<Rightarrow> jval list \<Rightarrow> jval list \<Rightarrow> py_error + bool" where
  "py_cmp c (JStr s) w = (case w of JStr t \<Rightarrow> Inr (ord_rel c s t) | _ \<Rightarrow> Inl TypeError)"
| "py_cmp c (JList xs) w = (case w of JList ys \<Rightarrow> py_cmps c xs ys | _ \<Rightarrow> Inl TypeError)"
| "py_cmp c v w = (case (as_num v, as_num w) of (Some x, Some y) \<Rightarrow> Inr (ord_rel c x y) | _ \<Rightarrow> Inl TypeError)"
| "py_cmps c [] ys = Inr (ord_rel c 0 (length ys))"
| "py_cmps c (x # xs) ys = (case ys of [] \<Rightarrow> Inr (ord_rel c (Suc 0) 0)
     | y # ys' \<Rightarrow> if py_eq x y then py_cmps c xs ys' else py_cmp c x y)"

fun hashable :: "jval \<Rightarrow> bool" where
  "hashable (JList _) = False"
| "hashable (JDict _) = False"
| "hashable _ = True"

fun py_bool :: "jval \<Rightarrow> bool" where
  "py_bool JNone = False"
| "py_bool (JBool b) = b"
| "py_bool (JInt i) = (i \<noteq> 0)"
| "py_bool (JFloat x) = (x \<noteq> 0)"
| "py_bool (JStr s) = (s \<noteq> [])"
| "py_bool (JList xs) = (xs \<noteq> [])"
| "py_bool (JDict d) = (d \<noteq> [])"

fun py_len :: "jval \<Rightarrow> py_error + int" where
  "py_len (JStr s) = Inr (int (length s))"
| "py_len (JList xs) = Inr (int (length xs))"
| "py_len (JDict d) = Inr (int (length d))"
| "py_len _ = Inl TypeError"

text \<open>\<^verbatim>\<open>list(v)\<close>, which is also what a loop over \<open>v\<close> runs through.\<close>

fun py_list :: "jval \<Rightarrow> py_error + jval list" where
  "py_list (JStr s) = Inr (map (\<lambda>c. JStr [c]) s)"
| "py_list (JList xs) = Inr xs"
| "py_list (JDict d) = Inr (map (\<lambda>kv. JStr (fst kv)) d)"
| "py_list _ = Inl TypeError"

text \<open>\<^verbatim>\<open>set(v)\<close> as the list of its members, and \<^verbatim>\<open>==\<close> of two sets.\<close>

definition py_set :: "jval \<Rightarrow> py_error + jval list" where
  "py_set v = bindE (py_list v) (\<lambda>xs. raise_if (\<not> list_all hashable xs) TypeError (Inr xs))"

definition py_set_eq :: "jval list \<Rightarrow> jval list \<Rightarrow> bool" where
  "py_set_eq xs ys \<longleftrightarrow> list_all (\<lambda>x. list_ex (py_eq x) ys) xs \<and> list_all (\<lambda>y. list_ex (py_eq y) xs) ys"

fun substring :: "string \<Rightarrow> string \<Rightarrow> bool" where
  "substring s [] = (s = [])"
| "substring s (c # t) = (take (length s) (c # t) = s \<or> substring s t)"

text \<open>\<^verbatim>\<open>e in v\<close>.\<close>

fun py_in :: "jval \<Rightarrow> jval \<Rightarrow> py_error + bool" where
  "py_in e (JStr t) = (case e of JStr s \<Rightarrow> Inr (substring s t) | _ \<Rightarrow> Inl TypeError)"
| "py_in e (JList xs) = Inr (list_ex (py_eq e) xs)"
| "py_in e (JDict d) = raise_if (\<not> hashable e) TypeError (Inr (list_ex (\<lambda>kv. py_eq e (JStr (fst kv))) d))"
| "py_in e _ = Inl TypeError"

section \<open>Text\<close>

definition repr_char :: "char \<Rightarrow> char \<Rightarrow> string" where
  "repr_char q c =
    (let k = (of_char c :: nat) in
     if c = q \<or> c = CHR 0x5C then [CHR 0x5C, c]
     else if k = 10 then [CHR 0x5C, CHR ''n'']
     else if k = 13 then [CHR 0x5C, CHR ''r'']
     else if k = 9 then [CHR 0x5C, CHR ''t'']
     else if (32 \<le> k \<and> k \<le> 126) \<or> (161 \<le> k \<and> k \<noteq> 173) then [c]
     else [CHR 0x5C, CHR ''x'', hex_digit (k div 16), hex_digit (k mod 16)])"

definition repr_str :: "string \<Rightarrow> string" where
  "repr_str s = (let q = (if CHR 0x27 \<in> set s \<and> CHR 0x22 \<notin> set s then CHR 0x22 else CHR 0x27) in
     q # concat (map (repr_char q) s) @ [q])"

fun commas :: "string list \<Rightarrow> string" where
  "commas [] = []"
| "commas [s] = s"
| "commas (s # t # ss) = s @ '', '' @ commas (t # ss)"

fun py_repr :: "py_floats \<Rightarrow> jval \<Rightarrow> string" where
  "py_repr F JNone = ''None''"
| "py_repr F (JBool b) = (if b then ''True'' else ''False'')"
| "py_repr F (JInt i) = int_str i"
| "py_repr F (JFloat x) = fl_str F x"
| "py_repr F (JStr s) = repr_str s"
| "py_repr F (JList xs) = ''['' @ commas (map (py_repr F) xs) @ '']''"
| "py_repr F (JDict d) = ''{'' @ commas (map (\<lambda>kv. repr_str (fst kv) @ '': '' @ py_repr F (snd kv)) d) @ ''}''"

definition py_str :: "py_floats \<Rightarrow> jval \<Rightarrow> string" where
  "py_str F v = (case v of JStr s \<Rightarrow> s | _ \<Rightarrow> py_repr F v)"

text \<open>\<^verbatim>\<open>int(s)\<close>: white space around, a sign, digits with single underscores between them.\<close>

definition is_digit :: "char \<Rightarrow> bool" where
  "is_digit c \<longleftrightarrow> 48 \<le> (of_char c :: nat) \<and> of_char c \<le> (57 :: nat)"

fun digits_value :: "int \<Rightarrow> string \<Rightarrow> int option" where
  "digits_value acc [] = None"
| "digits_value acc [c] = (if is_digit c then Some (acc * 10 + int (of_char c - 48)) else None)"
| "digits_value acc (c # d # s) =
     (if \<not> is_digit c then None
      else if d = CHR ''_'' then digits_value (acc * 10 + int (of_char c - 48)) s
      else digits_value (acc * 10 + int (of_char c - 48)) (d # s))"

definition int_of_text :: "string \<Rightarrow> int option" where
  "int_of_text s = (case py_strip s of
     [] \<Rightarrow> None
   | c # t \<Rightarrow> if c = CHR ''-'' then map_option uminus (digits_value 0 t)
       else if c = CHR ''+'' then digits_value 0 t else digits_value 0 (c # t))"

text \<open>\<^verbatim>\<open>int(v)\<close> and \<^verbatim>\<open>float(v)\<close>.\<close>

fun py_int :: "jval \<Rightarrow> py_error + int" where
  "py_int (JInt i) = Inr i"
| "py_int (JBool b) = Inr (of_bool b)"
| "py_int (JFloat x) = Inr (if 0 \<le> x then \<lfloor>x\<rfloor> else \<lceil>x\<rceil>)"
| "py_int (JStr s) = (case int_of_text s of None \<Rightarrow> Inl ValueError | Some i \<Rightarrow> Inr i)"
| "py_int _ = Inl TypeError"

fun py_float :: "py_floats \<Rightarrow> jval \<Rightarrow> py_error + real" where
  "py_float F (JStr s) = (case fl_parse F s of None \<Rightarrow> Inl ValueError | Some x \<Rightarrow> Inr x)"
| "py_float F v = (case as_num v of None \<Rightarrow> Inl TypeError | Some x \<Rightarrow> Inr x)"

text \<open>\<^verbatim>\<open>round(x, k)\<close>.\<close>

definition py_round :: "nat \<Rightarrow> real \<Rightarrow> real" where
  "py_round k x =
    (let y = x * 10 ^ k; lo = \<lfloor>y\<rfloor>; d = y - of_int lo in
     of_int (if d < 1 / 2 \<or> (d = 1 / 2 \<and> even lo) then lo else lo + 1) / 10 ^ k)"

section \<open>Dictionaries\<close>

text \<open>\<^verbatim>\<open>v[k]\<close> and \<^verbatim>\<open>v.get(k, default)\<close>.\<close>

fun jat :: "jval \<Rightarrow> string \<Rightarrow> py_error + jval" where
  "jat (JDict d) k = (case map_of d k of None \<Rightarrow> Inl KeyError | Some v \<Rightarrow> Inr v)"
| "jat _ k = Inl TypeError"

fun jget :: "jval \<Rightarrow> string \<Rightarrow> jval \<Rightarrow> py_error + jval" where
  "jget (JDict d) k w = Inr (case map_of d k of None \<Rightarrow> w | Some v \<Rightarrow> v)"
| "jget _ k w = Inl AttributeError"

text \<open>A value inside a tree of dictionaries, and an update of it; a missing dictionary on the way is created.\<close>

fun peek :: "string list \<Rightarrow> jval \<Rightarrow> jval option" where
  "peek [] v = Some v"
| "peek (k # ks) (JDict d) = (case map_of d k of None \<Rightarrow> None | Some v \<Rightarrow> peek ks v)"
| "peek (k # ks) _ = None"

fun entries :: "jval \<Rightarrow> (string \<times> jval) list" where
  "entries (JDict d) = d"
| "entries _ = []"

fun poke :: "string list \<Rightarrow> jval \<Rightarrow> jval \<Rightarrow> jval" where
  "poke [] w v = w"
| "poke (k # ks) w v =
     JDict (dict_set k (poke ks w (case map_of (entries v) k of None \<Rightarrow> JDict [] | Some u \<Rightarrow> u)) (entries v))"

text \<open>What was put is found there again, and nothing changes on paths that branch off.\<close>

fun apart :: "'a list \<Rightarrow> 'a list \<Rightarrow> bool" where
  "apart (x # xs) (y # ys) = (x \<noteq> y \<or> apart xs ys)"
| "apart _ _ = False"

lemma peek_entries: "peek (k # ks) v = (case map_of (entries v) k of None \<Rightarrow> None | Some u \<Rightarrow> peek ks u)"
  by (cases v) auto

lemma peek_poke [simp]: "peek ks (poke ks w v) = Some w"
  by (induction ks w v rule: poke.induct) auto

lemma peek_poke_below [simp]: "peek (ks @ js) (poke ks w v) = peek js w"
  by (induction ks w v rule: poke.induct) auto

lemma peek_poke_apart: "apart ks js \<Longrightarrow> peek js (poke ks w v) = peek js v"
proof (induction ks w v arbitrary: js rule: poke.induct)
  case (2 k ks w v)
  then obtain j js' where js: "js = j # js'" by (cases js) auto
  show ?case
  proof (cases "j = k")
    case True
    then have a: "apart ks js'" using 2(2) js by simp
    then obtain i is' where "js' = i # is'" by (cases js'; cases ks) auto
    then show ?thesis using 2(1)[OF a] True js by (cases "map_of (entries v) k") (simp_all add: peek_entries)
  next
    case False
    then show ?thesis using js by (simp add: peek_entries)
  qed
qed simp

declare poke.simps [simp del]

end
