(* ===== verification/CN_Conditions.thy ===== *)
theory CN_Conditions
  imports CN_Value
begin

text \<open>The conditions of a scenario (\<^verbatim>\<open>test_console/conditions.py\<close>). A missing value is \<open>None\<close>, found ones are \<open>Some\<close>.\<close>

section \<open>Paths\<close>

text \<open>\<^verbatim>\<open>path.split(".")\<close>.\<close>

fun split_dots :: "string \<Rightarrow> string list" where
  "split_dots [] = [[]]"
| "split_dots (c # s) = (if c = CHR ''.'' then [] # split_dots s
     else (case split_dots s of [] \<Rightarrow> [[c]] | p # ps \<Rightarrow> (c # p) # ps))"

fun walk_path :: "string list \<Rightarrow> jval \<Rightarrow> jval option" where
  "walk_path [] v = Some v"
| "walk_path (p # ps) (JDict d) = (case map_of d p of None \<Rightarrow> None | Some v \<Rightarrow> walk_path ps v)"
| "walk_path (p # ps) (JList xs) = (case int_of_text p of
     None \<Rightarrow> None
   | Some i \<Rightarrow> if i < 0 \<or> int (length xs) \<le> i then None else walk_path ps (xs ! nat i))"
| "walk_path (p # ps) _ = None"

definition get_path :: "jval \<Rightarrow> string \<Rightarrow> jval option" where
  "get_path data path = (if path = [] then Some data else walk_path (split_dots path) data)"

section \<open>Conditions\<close>

record condition_result =
  cr_passed :: bool
  cr_actual :: jval
  cr_expected :: jval
  cr_operator :: string

text \<open>\<^verbatim>\<open>operator.endswith("_path")\<close>.\<close>

definition path_operator :: "string \<Rightarrow> bool" where
  "path_operator op \<longleftrightarrow> 5 \<le> length op \<and> drop (length op - 5) op = ''_path''"

definition both :: "jval option \<Rightarrow> jval option \<Rightarrow> (jval \<Rightarrow> jval \<Rightarrow> py_error + bool) \<Rightarrow> py_error + bool" where
  "both a e f = (case (a, e) of (Some x, Some y) \<Rightarrow> f x y | _ \<Rightarrow> Inr False)"

text \<open>\<^verbatim>\<open>passed\<close> for an operator; \<open>a\<close> is the actual value, \<open>e\<close> the expected one (missing only for the operators on paths).\<close>

definition condition_passed :: "py_floats \<Rightarrow> string \<Rightarrow> jval option \<Rightarrow> jval option \<Rightarrow> py_error + bool" where
  "condition_passed F op a e =
    (let ev = (case e of None \<Rightarrow> JNone | Some v \<Rightarrow> v);
         found = (\<lambda>f. case a of None \<Rightarrow> Inr False | Some v \<Rightarrow> f v);
         missing_or = (\<lambda>f. case a of None \<Rightarrow> Inr True | Some v \<Rightarrow> f v);
         text_in = (\<lambda>x. substring (py_str F ev) (py_str F x))
     in
     if op = ''exists'' then Inr (a \<noteq> None \<and> a \<noteq> Some JNone)
     else if op = ''not_exists'' then Inr (a = None \<or> a = Some JNone)
     else if op = ''eq'' then found (\<lambda>v. Inr (py_eq v ev))
     else if op = ''ne'' then missing_or (\<lambda>v. Inr (\<not> py_eq v ev))
     else if op = ''gte'' then found (\<lambda>v. py_cmp Greater_eq v ev)
     else if op = ''lte'' then found (\<lambda>v. py_cmp Less_eq v ev)
     else if op = ''gt'' then found (\<lambda>v. py_cmp Greater v ev)
     else if op = ''lt'' then found (\<lambda>v. py_cmp Less v ev)
     else if op = ''contains'' then found (\<lambda>v. py_in ev v)
     else if op = ''not_contains'' then missing_or (\<lambda>v. bindE (py_in ev v) (\<lambda>b. Inr (\<not> b)))
     else if op = ''in'' then found (\<lambda>v. py_in v ev)
     else if op = ''truthy'' then found (\<lambda>v. Inr (py_bool v))
     else if op = ''falsy'' then found (\<lambda>v. Inr (\<not> py_bool v))
     else if op = ''set_eq'' then found (\<lambda>v. case v of
         JList _ \<Rightarrow> bindE (py_set v) (\<lambda>xs. bindE (py_set ev) (\<lambda>ys. Inr (py_set_eq xs ys)))
       | _ \<Rightarrow> Inr False)
     else if op = ''length_eq'' then found (\<lambda>v. bindE (py_len v) (\<lambda>k. Inr (py_eq (JInt k) ev)))
     else if op = ''length_gte'' then found (\<lambda>v. bindE (py_len v) (\<lambda>k. py_cmp Greater_eq (JInt k) ev))
     else if op = ''length_lte'' then found (\<lambda>v. bindE (py_len v) (\<lambda>k. py_cmp Less_eq (JInt k) ev))
     else if op = ''any_contains'' then found (\<lambda>v. Inr (case v of JList xs \<Rightarrow> list_ex text_in xs | _ \<Rightarrow> False))
     else if op = ''all_contains'' then found (\<lambda>v. Inr (case v of JList xs \<Rightarrow> xs \<noteq> [] \<and> list_all text_in xs | _ \<Rightarrow> False))
     else if op = ''eq_path'' then both a e (\<lambda>x y. Inr (py_eq x y))
     else if op = ''ne_path'' then both a e (\<lambda>x y. Inr (\<not> py_eq x y))
     else if op = ''lt_path'' then both a e (py_cmp Less)
     else if op = ''lte_path'' then both a e (py_cmp Less_eq)
     else if op = ''gt_path'' then both a e (py_cmp Greater)
     else if op = ''gte_path'' then both a e (py_cmp Greater_eq)
     else Inl ValueError)"

definition public :: "jval option \<Rightarrow> jval" where
  "public v = (case v of None \<Rightarrow> JNone | Some w \<Rightarrow> w)"

definition evaluate_condition :: "py_floats \<Rightarrow> jval \<Rightarrow> jval \<Rightarrow> py_error + condition_result" where
  "evaluate_condition F cond state =
    bindE (jget cond ''path'' (JStr [])) (\<lambda>path.
    bindE (jget cond ''op'' (JStr ''eq'')) (\<lambda>op.
    bindE (jget cond ''value'' JNone) (\<lambda>value.
    bindE (jget cond ''value_path'' (JStr [])) (\<lambda>value_path.
    let operator = py_str F op;
        actual = get_path state (py_str F path);
        expected = (if path_operator operator then get_path state (py_str F value_path) else Some value)
    in bindE (condition_passed F operator actual expected) (\<lambda>passed.
      Inr \<lparr>cr_passed = passed, cr_actual = public actual, cr_expected = public expected, cr_operator = operator\<rparr>)))))"

definition evaluate_group :: "py_floats \<Rightarrow> jval \<Rightarrow> jval \<Rightarrow> py_error + bool" where
  "evaluate_group F g state =
    bindE (jget g ''conditions'' (JList [])) (\<lambda>cs.
    bindE (py_list cs) (\<lambda>conditions.
    bindE (jget g ''mode'' (JStr ''all'')) (\<lambda>md.
    let mode = py_str F md in
    if conditions = [] then Inr False
    else bindE (mapE (\<lambda>c. evaluate_condition F c state) conditions) (\<lambda>rs.
      if mode = ''all'' then Inr (list_all cr_passed rs)
      else if mode = ''any'' then Inr (list_ex cr_passed rs)
      else Inl ValueError))))"

section \<open>Paths of keys\<close>

text \<open>A path of names without dots leads where its names lead, as long as it only crosses dictionaries.\<close>

definition plain_key :: "string \<Rightarrow> bool" where
  "plain_key k \<longleftrightarrow> CHR ''.'' \<notin> set k"

lemma split_dots_plain: "plain_key k \<Longrightarrow> split_dots k = [k]"
  by (induction k) (auto simp: plain_key_def)

lemma split_dots_append: "plain_key k \<Longrightarrow> split_dots (k @ CHR ''.'' # s) = k # split_dots s"
  by (induction k) (auto simp: plain_key_def)

lemma walk_peek: "peek ks v = Some w \<Longrightarrow> walk_path ks v = Some w"
  by (induction ks v rule: peek.induct) (auto split: option.splits)

lemma walk_append: "walk_path (ks @ js) v = (case walk_path ks v of None \<Rightarrow> None | Some w \<Rightarrow> walk_path js w)"
  by (induction ks v rule: walk_path.induct) (auto split: option.splits)

end
