(* ===== verification/CN_Config.thy ===== *)
theory CN_Config
  imports CN_Conditions
begin

text \<open>
  Configurations of the PBFT test console and the scenarios made from them (\<^verbatim>\<open>test_console/configuration.py\<close>), and the catalog
  of scenarios (\<^verbatim>\<open>test_console/catalog.py\<close>). The text of a
  Python exception in an error message is left out; the file with the cluster configuration is the second
  result of \<open>materialize_scenario\<close>.
\<close>

section \<open>Validation\<close>

definition default_configuration :: "(string \<times> jval) list" where
  "default_configuration =
    [(''system'', JDict [(''replica_count'', JInt 4), (''max_faulty'', JInt 1), (''initial_view'', JInt 0),
       (''primary_policy'', JStr ''round_robin'')]),
     (''timing'', JDict [(''progress_timeout_sec'', JFloat 3), (''decision_timeout_sec'', JFloat 8),
       (''heartbeat_period_sec'', JFloat (1 / 2)), (''client_publish_delay_sec'', JFloat (4 / 5))]),
     (''safety'', JDict [(''allow_confirmed_release'', JBool False)]),
     (''request'', JDict [(''emergency_stop'', JBool True)])]"

text \<open>\<^verbatim>\<open>_deep_merge\<close> of a source into a target.\<close>

fun deep_merge :: "(string \<times> jval) list \<Rightarrow> (string \<times> jval) list \<Rightarrow> (string \<times> jval) list" where
  "deep_merge target [] = target"
| "deep_merge target ((key, JDict v) # source) =
     (case map_of target key of
        Some (JDict t) \<Rightarrow> deep_merge (dict_set key (JDict (deep_merge t v)) target) source
      | _ \<Rightarrow> deep_merge (dict_set key (JDict v) target) source)"
| "deep_merge target ((key, value) # source) = deep_merge (dict_set key value target) source"

text \<open>The values of a configuration, as read by \<open>int\<close>, \<open>float\<close>, \<open>bool\<close> and \<open>str\<close>.\<close>

record console_config =
  cc_n :: int
  cc_f :: int
  cc_initial_view :: int
  cc_primary_policy :: string
  cc_progress_timeout :: real
  cc_decision_timeout :: real
  cc_heartbeat :: real
  cc_client_delay :: real
  cc_allow_release :: bool
  cc_emergency_stop :: bool

definition jat2 :: "jval \<Rightarrow> string \<Rightarrow> string \<Rightarrow> py_error + jval" where
  "jat2 v k j = bindE (jat v k) (\<lambda>w. jat w j)"

definition read_configuration :: "py_floats \<Rightarrow> jval \<Rightarrow> py_error + console_config" where
  "read_configuration F merged =
    bindE (bindE (jat2 merged ''system'' ''replica_count'') py_int) (\<lambda>n.
    bindE (bindE (jat2 merged ''system'' ''max_faulty'') py_int) (\<lambda>f.
    bindE (bindE (jat2 merged ''system'' ''initial_view'') py_int) (\<lambda>view.
    bindE (jat2 merged ''system'' ''primary_policy'') (\<lambda>policy.
    bindE (bindE (jat2 merged ''timing'' ''progress_timeout_sec'') (py_float F)) (\<lambda>progress.
    bindE (bindE (jat2 merged ''timing'' ''decision_timeout_sec'') (py_float F)) (\<lambda>decision.
    bindE (bindE (jat2 merged ''timing'' ''heartbeat_period_sec'') (py_float F)) (\<lambda>heartbeat.
    bindE (bindE (jat2 merged ''timing'' ''client_publish_delay_sec'') (py_float F)) (\<lambda>delay.
    bindE (jat2 merged ''safety'' ''allow_confirmed_release'') (\<lambda>release.
    bindE (jat2 merged ''request'' ''emergency_stop'') (\<lambda>stop.
    Inr \<lparr>cc_n = n, cc_f = f, cc_initial_view = view, cc_primary_policy = py_strip (py_str F policy),
      cc_progress_timeout = progress, cc_decision_timeout = decision, cc_heartbeat = heartbeat, cc_client_delay = delay,
      cc_allow_release = py_bool release, cc_emergency_stop = py_bool stop\<rparr>))))))))))"

definition configuration_errors :: "console_config \<Rightarrow> string list" where
  "configuration_errors c = concat
    [if cc_n c < 4 then [''Replica count n must be at least 4.''] else [],
     if 31 < cc_n c then [''Replica count n must not exceed 31 in the test console.''] else [],
     if cc_f c < 1 then [''Maximum faulty replicas f must be at least 1.''] else [],
     if 10 < cc_f c then [''Maximum faulty replicas f must not exceed 10.''] else [],
     if cc_n c \<noteq> 3 * cc_f c + 1 then [''The current simulator requires n = 3f + 1; for f='' @ int_str (cc_f c) @
       '', n must be '' @ int_str (3 * cc_f c + 1) @ ''.''] else [],
     if cc_initial_view c < 0 then [''Initial view must be non-negative.''] else [],
     if cc_primary_policy c \<noteq> ''round_robin'' then [''Only the round_robin primary policy is currently supported.''] else [],
     if cc_progress_timeout c \<le> 0 then [''Progress timeout must be positive.''] else [],
     if cc_decision_timeout c \<le> 0 then [''Safety decision timeout must be positive.''] else [],
     if cc_heartbeat c \<le> 0 then [''Safety heartbeat period must be positive.''] else [],
     if cc_client_delay c < 0 then [''Client publish delay must be non-negative.''] else []]"

definition configuration_warnings :: "console_config \<Rightarrow> string list" where
  "configuration_warnings c = concat
    [if cc_decision_timeout c \<le> cc_progress_timeout c
       then [''Safety decision timeout is not greater than the progress timeout; '' @
         ''view-change recovery may not finish before FAIL_SAFE_STOP.''] else [],
     if cc_allow_release c then [''Confirmed release is enabled. Keep this disabled for the emergency-stop demonstration.''] else [],
     if \<not> cc_emergency_stop c
       then [''The request asks to release emergency stop. Most supplied scenarios expect emergency_stop=true.''] else []]"

definition system_json :: "console_config \<Rightarrow> jval" where
  "system_json c = JDict [(''replica_count'', JInt (cc_n c)), (''max_faulty'', JInt (cc_f c)),
     (''initial_view'', JInt (cc_initial_view c)), (''primary_policy'', JStr (cc_primary_policy c))]"

definition timing_json :: "console_config \<Rightarrow> jval" where
  "timing_json c = JDict [(''progress_timeout_sec'', JFloat (cc_progress_timeout c)),
     (''decision_timeout_sec'', JFloat (cc_decision_timeout c)), (''heartbeat_period_sec'', JFloat (cc_heartbeat c)),
     (''client_publish_delay_sec'', JFloat (cc_client_delay c))]"

definition normalized :: "console_config \<Rightarrow> jval" where
  "normalized c = JDict
    [(''system'', system_json c), (''timing'', timing_json c),
     (''safety'', JDict [(''allow_confirmed_release'', JBool (cc_allow_release c))]),
     (''request'', JDict [(''emergency_stop'', JBool (cc_emergency_stop c))])]"

definition con_primary :: "console_config \<Rightarrow> int" where
  "con_primary c = (if 0 < cc_n c then cc_initial_view c mod cc_n c else 0)"

definition derived_json :: "console_config \<Rightarrow> jval" where
  "derived_json c = JDict
    [(''primary_id'', JInt (con_primary c)), (''prepare_threshold'', JInt (2 * cc_f c)),
     (''commit_threshold'', JInt (2 * cc_f c + 1)), (''view_change_threshold'', JInt (2 * cc_f c + 1)),
     (''new_view_proof_threshold'', JInt (2 * cc_f c + 1)),
     (''legacy_compatible'', JBool (cc_n c = 4 \<and> cc_f c = 1 \<and> cc_initial_view c = 0))]"

record validation =
  va_valid :: bool
  va_errors :: "string list"
  va_warnings :: "string list"
  va_configuration :: jval
  va_derived :: jval

text \<open>Only \<^verbatim>\<open>KeyError\<close>, \<^verbatim>\<open>TypeError\<close> and \<^verbatim>\<open>ValueError\<close> can come up while the configuration is read, and all are caught.\<close>

definition con_validate_configuration :: "py_floats \<Rightarrow> (string \<times> jval) list \<Rightarrow> validation" where
  "con_validate_configuration F raw =
    (let merged = JDict (deep_merge default_configuration raw) in
     case read_configuration F merged of
       Inl _ \<Rightarrow> \<lparr>va_valid = False, va_errors = [''Configuration contains an invalid value: ''], va_warnings = [],
         va_configuration = merged, va_derived = JDict []\<rparr>
     | Inr c \<Rightarrow> \<lparr>va_valid = (configuration_errors c = []), va_errors = configuration_errors c,
         va_warnings = configuration_warnings c, va_configuration = normalized c, va_derived = derived_json c\<rparr>)"

section \<open>Catalog\<close>

text \<open>\<^verbatim>\<open>load_catalog\<close> and its helpers (\<^verbatim>\<open>test_console/catalog.py\<close>), from the value that the YAML file holds; \<^verbatim>\<open>_deep_merge\<close> is the same
  function there. Defaults that are not a mapping raise.\<close>

definition resolve_scenario :: "py_floats \<Rightarrow> jval \<Rightarrow> jval \<Rightarrow> string set \<times> jval list \<Rightarrow> py_error + string set \<times> jval list" where
  "resolve_scenario F defaults item acc =
    (case (item, defaults) of
       (JDict s, JDict t) \<Rightarrow>
         let (identifiers, resolved) = acc; merged = JDict (deep_merge t s) in
         bindE (jget merged ''id'' (JStr [])) (\<lambda>i.
         let scenario_id = py_strip (py_str F i) in
         raise_if (scenario_id = []) ValueError
         (raise_if (scenario_id \<in> identifiers) ValueError
         (bindE (jget merged ''launch'' (JDict [])) (\<lambda>launch.
         bindE (jget launch ''package'' JNone) (\<lambda>package.
         bindE (jget launch ''file'' JNone) (\<lambda>file.
         raise_if (\<not> py_bool package \<or> \<not> py_bool file) ValueError
         (Inr (insert scenario_id identifiers, resolved @ [merged]))))))))
     | (JDict _, _) \<Rightarrow> Inl AttributeError
     | _ \<Rightarrow> Inl ValueError)"

definition load_catalog :: "py_floats \<Rightarrow> string \<Rightarrow> jval \<Rightarrow> py_error + jval" where
  "load_catalog F path raw =
    (case raw of
       JDict d \<Rightarrow>
         bindE (jget raw ''defaults'' (JDict [])) (\<lambda>defaults.
         bindE (jget raw ''scenarios'' (JList [])) (\<lambda>scenarios.
         bindE (jget raw ''version'' (JInt 1)) (\<lambda>version.
         case scenarios of
           JList xs \<Rightarrow>
             raise_if (xs = []) ValueError
             (bindE (foldE (resolve_scenario F defaults) xs ({}, [])) (\<lambda>(identifiers, resolved).
              Inr (JDict [(''version'', version), (''catalog_path'', JStr path), (''scenarios'', JList resolved)])))
         | _ \<Rightarrow> Inl ValueError)))
     | _ \<Rightarrow> Inl ValueError)"

definition scenario_map :: "py_floats \<Rightarrow> jval \<Rightarrow> py_error + (string \<times> jval) list" where
  "scenario_map F catalog =
    bindE (bindE (jat catalog ''scenarios'') py_list) (\<lambda>items.
    foldE (\<lambda>item d. bindE (jat item ''id'') (\<lambda>i. Inr (dict_set (py_str F i) item d))) items [])"

definition public_scenario :: "jval \<Rightarrow> py_error + jval" where
  "public_scenario scenario =
    bindE (jat scenario ''id'') (\<lambda>i.
    bindE (jget scenario ''name'' i) (\<lambda>name.
    bindE (jget scenario ''category'' (JStr ''other'')) (\<lambda>category.
    bindE (jget scenario ''description'' (JStr [])) (\<lambda>description.
    bindE (jget scenario ''timeout_sec'' (JFloat 15)) (\<lambda>timeout.
    bindE (jget scenario ''tags'' (JList [])) (\<lambda>tags.
    bindE (jget scenario ''execution_mode'' (JStr ''legacy_n4_f1'')) (\<lambda>mode.
    bindE (jget scenario ''fault_profile'' JNone) (\<lambda>profile.
    bindE (jget scenario ''requirements'' (JDict [])) (\<lambda>requirements.
    Inr (JDict [(''id'', i), (''name'', name), (''category'', category), (''description'', description), (''timeout_sec'', timeout),
      (''tags'', tags), (''execution_mode'', mode), (''fault_profile'', profile), (''requirements'', requirements)]))))))))))"

text \<open>A catalog that loads has no two scenarios with the same id.\<close>

definition scenario_key :: "py_floats \<Rightarrow> jval \<Rightarrow> string" where
  "scenario_key F s = (case jget s ''id'' (JStr []) of Inr i \<Rightarrow> py_strip (py_str F i) | Inl _ \<Rightarrow> [])"

lemma catalog_ids_distinct:
  assumes "load_catalog F path raw = Inr (JDict [(''version'', v), (''catalog_path'', p), (''scenarios'', JList resolved)])"
  shows "distinct (map (scenario_key F) resolved) \<and> [] \<notin> set (map (scenario_key F) resolved) \<and> resolved \<noteq> []"
proof -
  let ?inv = "\<lambda>n a. fst a = set (map (scenario_key F) (snd a)) \<and> distinct (map (scenario_key F) (snd a)) \<and>
    [] \<notin> set (map (scenario_key F) (snd a)) \<and> length (snd a) = n"
  have step: "?inv (Suc n) b" if r: "resolve_scenario F defaults x a = Inr b" and i: "?inv n a" for defaults x a b n
  proof -
    let ?m = "JDict (deep_merge (entries defaults) (entries x))"
    have "b = (insert (scenario_key F ?m) (fst a), snd a @ [?m]) \<and> scenario_key F ?m \<noteq> [] \<and> scenario_key F ?m \<notin> fst a"
      using r by (cases a; cases x; cases defaults)
        (simp_all add: resolve_scenario_def bindE_eq_Inr raise_if_def Let_def scenario_key_def split: if_splits)
    then show ?thesis using i by auto
  qed
  have "?inv (n + length xs) b" if "foldE (resolve_scenario F defaults) xs a = Inr b" "?inv n a" for defaults xs a b n
    using that
  proof (induction xs arbitrary: a n)
    case (Cons x xs)
    then obtain a' where a': "resolve_scenario F defaults x a = Inr a'" "foldE (resolve_scenario F defaults) xs a' = Inr b"
      by (auto simp: bindE_eq_Inr)
    show ?case using Cons.IH[OF a'(2) step[OF a'(1) Cons.prems(2)]] by simp
  qed simp
  note run = this[of _ _ "({}, [])" _ 0]
  obtain defaults xs ids where "xs \<noteq> []" "foldE (resolve_scenario F defaults) xs ({}, []) = Inr (ids, resolved)"
    using assms by (auto simp: load_catalog_def bindE_eq_Inr raise_if_def split: jval.splits if_splits)
  with run[OF this(2)] show ?thesis by (auto)
qed

section \<open>Compatibility\<close>

definition LEGACY_EXECUTION_MODE :: string where
  "LEGACY_EXECUTION_MODE = ''legacy_n4_f1''"

definition CONFIGURABLE_EXECUTION_MODE :: string where
  "CONFIGURABLE_EXECUTION_MODE = ''configurable''"

definition scenario_compatibility :: "py_floats \<Rightarrow> jval \<Rightarrow> validation \<Rightarrow> py_error + bool \<times> string" where
  "scenario_compatibility F scenario v =
    (if \<not> va_valid v then Inr (False, ''System configuration is invalid.'')
     else
       bindE (jget scenario ''execution_mode'' (JStr LEGACY_EXECUTION_MODE)) (\<lambda>mode.
       bindE (bindE (jat2 (va_configuration v) ''system'' ''max_faulty'') py_int) (\<lambda>f.
       if py_eq mode (JStr LEGACY_EXECUTION_MODE) then
         bindE (jat (va_derived v) ''legacy_compatible'') (\<lambda>legacy.
         Inr (if py_bool legacy then (True, ''Uses the validated n=4, f=1 launch file.'')
           else (False, ''This legacy scenario is fixed to n=4, f=1, initial view 0.'')))
       else if \<not> py_eq mode (JStr CONFIGURABLE_EXECUTION_MODE) then Inr (False, ''Unsupported execution mode: '' @ py_str F mode)
       else
         bindE (jget scenario ''requirements'' (JDict [])) (\<lambda>requirements.
         bindE (bindE (jget requirements ''min_f'' (JInt 1)) py_int) (\<lambda>min_f.
         Inr (if f < min_f then (False, ''This scenario requires f >= '' @ int_str min_f @ ''.'')
           else (True, ''Generated from the active PBFT configuration.'')))))))"

section \<open>Scenarios\<close>

definition replica_json :: "console_config \<Rightarrow> int \<Rightarrow> string \<Rightarrow> bool \<Rightarrow> jval" where
  "replica_json c node_id behav enable = JDict
    [(''node_id'', JInt node_id), (''behavior'', JStr behav), (''enable_progress_timeout'', JBool enable),
     (''progress_timeout_sec'', JFloat (cc_progress_timeout c)), (''prepare_delay_sec'', JFloat 4),
     (''commit_delay_sec'', JFloat 4), (''duplicate_message_count'', JInt 3)]"

definition backup_candidates :: "console_config \<Rightarrow> int list" where
  "backup_candidates c = filter (\<lambda>i. i \<noteq> con_primary c) (rev (map int [0..<nat (cc_n c)]))"

text \<open>The ids of the faulty replicas under a fault profile, and whether these are silent.\<close>

definition fault_profile :: "console_config \<Rightarrow> string \<Rightarrow> py_error + int list" where
  "fault_profile c profile =
    (if profile = ''normal'' then Inr []
     else if profile = ''one_silent'' then Inr (take 1 (backup_candidates c))
     else if profile = ''maximum_silent'' then Inr (take (nat (cc_f c)) (backup_candidates c))
     else if profile = ''beyond_fault_bound_silent'' then Inr (take (nat (cc_f c + 1)) (backup_candidates c))
     else if profile = ''faulty_primary_recovery'' then Inr [con_primary c]
     else Inl ValueError)"

definition cluster_replicas :: "console_config \<Rightarrow> string \<Rightarrow> int list \<Rightarrow> jval list" where
  "cluster_replicas c profile faulty = map (\<lambda>i.
     if profile = ''faulty_primary_recovery''
     then (if i = con_primary c then replica_json c i ''skip_pre_prepare'' False else replica_json c i ''none'' True)
     else replica_json c i (if i \<in> set faulty then ''silent'' else ''none'') False) (map int [0..<nat (cc_n c)])"

definition cond :: "string \<Rightarrow> string \<Rightarrow> jval \<Rightarrow> jval" where
  "cond path op v = JDict [(''path'', JStr path), (''op'', JStr op), (''value'', v)]"

definition assertion :: "string \<Rightarrow> string \<Rightarrow> string \<Rightarrow> string \<Rightarrow> jval \<Rightarrow> jval" where
  "assertion i label path op v =
     JDict [(''id'', JStr i), (''label'', JStr label), (''path'', JStr path), (''op'', JStr op), (''value'', v)]"

definition absent_assertion :: "string \<Rightarrow> string \<Rightarrow> string \<Rightarrow> jval" where
  "absent_assertion i label path =
     JDict [(''id'', JStr i), (''label'', JStr label), (''path'', JStr path), (''op'', JStr ''not_exists'')]"

definition common_success_assertions :: "console_config \<Rightarrow> int \<Rightarrow> jval list" where
  "common_success_assertions c expected_view =
    [assertion ''decision_received'' ''Confirmed PBFT decision was published'' ''decision.committed'' ''eq'' (JBool True),
     assertion ''confirmation_quorum'' (''Decision has at least '' @ int_str (2 * cc_f c + 1) @ '' distinct confirmations'')
       ''decision.confirmation_count'' ''gte'' (JInt (2 * cc_f c + 1)),
     assertion ''decision_view'' (''Decision was reached in view '' @ int_str expected_view) ''decision.view'' ''eq'' (JInt expected_view),
     assertion ''safety_confirmed'' ''Safety supervisor reached CONFIRMED_STOP'' ''safety.state'' ''eq'' (JStr ''CONFIRMED_STOP''),
     assertion ''output_active'' ''Effective emergency-stop output is active'' ''safety.emergency_stop'' ''eq'' (JBool True)]"

definition recovery_assertions :: "console_config \<Rightarrow> int \<Rightarrow> jval list" where
  "recovery_assertions c expected_view =
    [assertion ''view_change_quorum'' (''At least '' @ int_str (2 * cc_f c + 1) @ '' VIEW-CHANGE messages were observed'')
       ''counts.view_change'' ''gte'' (JInt (2 * cc_f c + 1)),
     assertion ''new_view'' ''A NEW-VIEW message was published'' ''counts.new_view'' ''gte'' (JInt 1),
     assertion ''new_primary'' ''Round-robin primary advanced after recovery'' ''primary_id'' ''eq'' (JInt (expected_view mod cc_n c))]"

definition silent_assertions :: "int \<Rightarrow> jval list" where
  "silent_assertions i =
    [absent_assertion (''silent_no_prepare_'' @ int_str i) (''Silent replica '' @ int_str i @ '' sent no PREPARE'')
       (''counts.prepare_by_sender.'' @ int_str i),
     absent_assertion (''silent_no_commit_'' @ int_str i) (''Silent replica '' @ int_str i @ '' sent no COMMIT'')
       (''counts.commit_by_sender.'' @ int_str i)]"

definition success_assertions :: "console_config \<Rightarrow> string \<Rightarrow> int list \<Rightarrow> int \<Rightarrow> jval list" where
  "success_assertions c profile faulty expected_view =
    common_success_assertions c expected_view @
    (if profile = ''normal'' then
      [assertion ''no_view_change'' ''Normal execution did not trigger VIEW-CHANGE'' ''counts.view_change'' ''eq'' (JInt 0)] else []) @
    (if profile = ''faulty_primary_recovery'' then recovery_assertions c expected_view else concat (map silent_assertions faulty))"

definition success_group :: jval where
  "success_group = JDict [(''mode'', JStr ''all''), (''conditions'', JList
     [cond ''decision.committed'' ''eq'' (JBool True), cond ''safety.state'' ''eq'' (JStr ''CONFIRMED_STOP'')])]"

definition fail_safe_group :: jval where
  "fail_safe_group = JDict [(''mode'', JStr ''all''), (''conditions'', JList
     [cond ''safety.state'' ''eq'' (JStr ''FAIL_SAFE_STOP''), cond ''safety.emergency_stop'' ''eq'' (JBool True)])]"

definition fail_safe_assertions :: "jval list" where
  "fail_safe_assertions =
    [absent_assertion ''no_decision'' ''No PBFT decision was produced beyond the fault bound'' ''decision.committed'',
     assertion ''fail_safe'' ''Safety supervisor entered FAIL_SAFE_STOP'' ''safety.state'' ''eq'' (JStr ''FAIL_SAFE_STOP''),
     assertion ''output_active'' ''Emergency-stop output remained active'' ''safety.emergency_stop'' ''eq'' (JBool True)]"

definition supervisor_json :: "console_config \<Rightarrow> jval" where
  "supervisor_json c = JDict [(''enabled'', JBool True), (''parameters'', JDict
    [(''replica_count'', JInt (cc_n c)), (''max_faulty'', JInt (cc_f c)),
     (''decision_timeout_sec'', JFloat (cc_decision_timeout c)),
     (''allow_confirmed_release'', JBool (cc_allow_release c)), (''heartbeat_period_sec'', JFloat (cc_heartbeat c))])]"

definition client_json :: "console_config \<Rightarrow> string \<Rightarrow> jval" where
  "client_json c request_id = JDict [(''enabled'', JBool True), (''start_delay_sec'', JFloat (4 / 5)), (''parameters'', JDict
    [(''primary_id'', JInt (con_primary c)), (''current_view'', JInt (cc_initial_view c)),
     (''emergency_stop'', JBool (cc_emergency_stop c)), (''request_id'', JStr request_id),
     (''publish_delay_sec'', JFloat (cc_client_delay c))])]"

text \<open>The keys that \<^verbatim>\<open>materialize_scenario\<close> sets for a configurable scenario; \<open>t\<close> is the scenario's own \<^verbatim>\<open>timeout_sec\<close>.\<close>

definition runtime_entries :: "console_config \<Rightarrow> string \<Rightarrow> int list \<Rightarrow> string \<Rightarrow> string \<Rightarrow> real \<Rightarrow> (string \<times> jval) list" where
  "runtime_entries c profile faulty path request_id t =
    [(''replica_count'', JInt (cc_n c)), (''max_faulty'', JInt (cc_f c)),
     (''actual_byzantine_count'', JInt (int (length faulty))), (''faulty_replica_ids'', JList (map JInt faulty)),
     (''within_fault_bound'', JBool (int (length faulty) \<le> cc_f c)),
     (''launch'', JDict [(''package'', JStr ''pbft_emergency_stop_simulator''), (''file'', JStr ''pbft_configurable.launch.py''),
       (''arguments'', JDict [(''config_file'', JStr path)])]),
     (''supervisor'', supervisor_json c), (''client'', client_json c request_id)] @
    (if profile = ''beyond_fault_bound_silent'' then
      [(''complete_when'', fail_safe_group), (''assertions'', JList fail_safe_assertions),
       (''timeout_sec'', JFloat (cc_decision_timeout c + 2))]
     else
      [(''complete_when'', success_group),
       (''assertions'', JList (success_assertions c profile faulty
          (if profile = ''faulty_primary_recovery'' then cc_initial_view c + 1 else cc_initial_view c))),
       (''timeout_sec'', JFloat (max (max t (cc_decision_timeout c + 3)) (cc_progress_timeout c + 7)))])"

text \<open>\<open>v[k1] = w1\<close>, \<open>v[k2] = w2\<close>, and so on.\<close>

definition set_entries :: "(string \<times> jval) list \<Rightarrow> (string \<times> jval) list \<Rightarrow> (string \<times> jval) list" where
  "set_entries kvs d = fold (\<lambda>kv. dict_set (fst kv) (snd kv)) kvs d"

definition materialize_scenario :: "py_floats \<Rightarrow> jval \<Rightarrow> validation \<Rightarrow> string \<Rightarrow> py_error + jval \<times> jval option" where
  "materialize_scenario F scenario v path =
    bindE (scenario_compatibility F scenario v) (\<lambda>(compatible, reason).
    raise_if (\<not> compatible) ValueError
    (let runtime = set_entries [(''system_configuration'', va_configuration v), (''derived_configuration'', va_derived v)] (entries scenario)
     in
     bindE (jget (JDict runtime) ''execution_mode'' (JStr LEGACY_EXECUTION_MODE)) (\<lambda>mode.
     if py_eq mode (JStr LEGACY_EXECUTION_MODE) then Inr (JDict runtime, None)
     else
       bindE (read_configuration F (va_configuration v)) (\<lambda>c.
       bindE (jget (JDict runtime) ''fault_profile'' (JStr ''normal'')) (\<lambda>p.
       let profile = py_str F p in
       bindE (fault_profile c profile) (\<lambda>faulty.
       bindE (jat (JDict runtime) ''id'') (\<lambda>i.
       bindE (if profile = ''beyond_fault_bound_silent'' then Inr 0
              else bindE (jget (JDict runtime) ''timeout_sec'' (JFloat 15)) (py_float F)) (\<lambda>t.
       let request_id = ''web-'' @ py_str F i @ ''-n'' @ int_str (cc_n c) @ ''-f'' @ int_str (cc_f c) in
       Inr (JDict (set_entries (runtime_entries c profile faulty path request_id t) runtime),
         Some (JDict [(''system'', system_json c), (''timing'', timing_json c),
           (''replicas'', JList (cluster_replicas c profile faulty))]))))))))))"

section \<open>What a valid configuration gives\<close>

lemma no_errors_iff:
  "configuration_errors c = [] \<longleftrightarrow> 4 \<le> cc_n c \<and> cc_n c \<le> 31 \<and> 1 \<le> cc_f c \<and> cc_f c \<le> 10 \<and> cc_n c = 3 * cc_f c + 1 \<and>
     0 \<le> cc_initial_view c \<and> cc_primary_policy c = ''round_robin'' \<and> 0 < cc_progress_timeout c \<and> 0 < cc_decision_timeout c \<and>
     0 < cc_heartbeat c \<and> 0 \<le> cc_client_delay c"
  by (auto simp: configuration_errors_def)

text \<open>A normalized configuration is read back unchanged.\<close>

lemma read_normalized:
  assumes "py_strip (cc_primary_policy c) = cc_primary_policy c"
  shows "read_configuration F (normalized c) = Inr c"
  using assms by (simp add: read_configuration_def normalized_def system_json_def timing_json_def jat2_def py_str_def)

text \<open>Validating a normalized configuration again gives the same result.\<close>

lemma validate_again:
  assumes "read_configuration F (JDict (deep_merge default_configuration raw)) = Inr c" "configuration_errors c = []"
  shows "con_validate_configuration F (entries (va_configuration (con_validate_configuration F raw))) = con_validate_configuration F raw"
proof -
  have p: "py_strip (cc_primary_policy c) = cc_primary_policy c" using assms(2) unfolding no_errors_iff by (simp add: py_strip_def is_space_def)
  have "JDict (deep_merge default_configuration (entries (normalized c))) = normalized c"
    by (simp add: default_configuration_def normalized_def system_json_def timing_json_def)
  then show ?thesis using assms(1) read_normalized[OF p] by (simp add: con_validate_configuration_def Let_def)
qed

lemma map_of_set_entries: "distinct (map fst kvs) \<Longrightarrow> map_of (set_entries kvs d) k = (case map_of kvs k of None \<Rightarrow> map_of d k | Some v \<Rightarrow> Some v)"
proof (induction kvs arbitrary: d)
  case (Cons kv kvs)
  then show ?case by (cases kv) (auto simp: set_entries_def map_of_eq_None_iff[symmetric] split: option.splits)
qed (simp add: set_entries_def)

end
