(* ===== verification/PBFT_Types.thy ===== *)
theory PBFT_Types
  imports BFT_Prelude Sha256
begin

text \<open>
  The data of the PBFT emergency-stop simulator: the ROS message types, the
  parameters and the state of \<^verbatim>\<open>PBFTReplica\<close>, start-up validation, and the status
  report (\<^verbatim>\<open>pbft_replica.py\<close>, \<^verbatim>\<open>protocol.py\<close>, \<^verbatim>\<open>replica/types.py\<close>,
  \<^verbatim>\<open>replica/status.py\<close>).

  Views and sequence numbers are the unsigned ROS fields \<^verbatim>\<open>uint32\<close> and \<^verbatim>\<open>uint64\<close> and
  have type \<^typ>\<open>nat\<close> (so the negative-view branch of \<^verbatim>\<open>_primary_for_view\<close> cannot
  arise); replica ids are \<^verbatim>\<open>int32\<close> and have type \<^typ>\<open>int\<close>, \<open>-1\<close> being the client or
  the broadcast address. A ROS timer is present or absent, and firing it is an
  event. Every publication is appended to \<open>published\<close>, in order. Log lines and the
  free-text \<^verbatim>\<open>detail\<close> of a status are not modelled, nor are send stamps of messages
  no component reads.
\<close>

section \<open>Messages\<close>

type_synonym mkey = "nat \<times> nat"

record pbft_instance =
  i_request_id :: string
  i_request_digest :: string
  i_emergency_stop :: bool

abbreviation (input) REQUEST :: nat where "REQUEST \<equiv> 0"
abbreviation (input) PRE_PREPARE :: nat where "PRE_PREPARE \<equiv> 1"
abbreviation (input) PREPARE :: nat where "PREPARE \<equiv> 2"
abbreviation (input) COMMIT :: nat where "COMMIT \<equiv> 3"

record pbft_message =
  m_type :: nat
  m_sender :: int
  m_recipient :: int
  m_view :: nat
  m_seq :: nat
  m_request_id :: string
  m_digest :: string
  m_stop :: bool

record view_change =
  vc_sender :: int
  vc_new_view :: nat
  vc_has_certificate :: bool
  vc_prepared_view :: nat
  vc_prepared_seq :: nat
  vc_request_id :: string
  vc_digest :: string
  vc_stop :: bool
  vc_prepare_senders :: "int list"

record new_view =
  nv_sender :: int
  nv_new_view :: nat
  nv_view_changes :: "view_change list"
  nv_has_selected :: bool
  nv_from_prepared :: bool
  nv_prepared_view :: nat
  nv_seq :: nat
  nv_request_id :: string
  nv_digest :: string
  nv_stop :: bool

datatype phase = IDLE | SILENT | PRE_PREPARED | PREPARED | COMMITTED | FAULTY_PRIMARY
  | VIEW_CHANGE | NEW_VIEW_PROPOSED | NEW_VIEW_ACCEPTED

record replica_status =
  st_node_id :: int
  st_view :: nat
  st_seq :: nat
  st_request_id :: string
  st_digest :: string
  st_phase :: phase
  st_prepare_count :: nat
  st_commit_count :: nat
  st_prepared :: bool
  st_committed :: bool
  st_stop :: bool
  st_byzantine :: bool

datatype publication =
    Pub_pre_prepare pbft_message
  | Pub_prepare pbft_message
  | Pub_commit pbft_message
  | Pub_view_change view_change
  | Pub_new_view new_view
  | Pub_status replica_status

definition compute_request_digest :: "string \<Rightarrow> bool \<Rightarrow> string" where
  "compute_request_digest request_id emergency_stop =
     sha256_hexdigest (''request_id='' @ request_id @ '';emergency_stop='' @
       (if emergency_stop then ''1'' else ''0''))"

section \<open>Replica parameters and state\<close>

record pbft_params =
  node_id :: int
  configured_primary_id :: int
  initial_view :: int
  replica_count :: int
  max_faulty :: int
  is_byzantine :: bool
  byzantine_behavior :: string
  duplicate_message_count :: int
  prepare_delay_sec :: real
  commit_delay_sec :: real
  manual_view_change_target :: int
  manual_view_change_delay_sec :: real
  enable_progress_timeout :: bool
  progress_timeout_sec :: real
  new_view_pre_prepare_delay_sec :: real
  status_publish_period_sec :: real
  protocol_qos_depth :: int
  status_qos_depth :: int

text \<open>The protocol-relevant payloads that \<^verbatim>\<open>_view_change_payload\<close> and
  \<^verbatim>\<open>_new_view_payload\<close> compare; the sorted tuple of proofs is kept as a multiset,
  which is equal exactly when the sorted tuples are.\<close>

type_synonym vc_payload =
  "nat \<times> bool \<times> nat \<times> nat \<times> string \<times> string \<times> bool \<times> int list"

type_synonym nv_payload =
  "int \<times> nat \<times> (int \<times> vc_payload) multiset \<times> bool \<times> bool \<times> nat \<times> nat \<times> string \<times> string \<times> bool"

record pbft_replica =
  params :: pbft_params
  current_view :: nat
  primary_id :: int
  next_sequence_number :: nat
  emergency_stop :: bool
  current_key :: "mkey option"
  phase_of :: phase
  cached_client_requests :: "(string \<times> pbft_instance) list"
  processed_request_ids :: "string set"
  instances :: "mkey \<rightharpoonup> pbft_instance"
  prepare_senders :: "mkey \<Rightarrow> int set"
  pending_prepares :: "mkey \<Rightarrow> (int \<times> pbft_message) list"
  prepare_sent :: "mkey set"
  prepare_scheduled :: "mkey set"
  delayed_prepare_timers :: "mkey set"
  prepared_instances :: "mkey set"
  commit_senders :: "mkey \<Rightarrow> int set"
  pending_commits :: "mkey \<Rightarrow> (int \<times> pbft_message) list"
  commit_sent :: "mkey set"
  commit_scheduled :: "mkey set"
  delayed_commit_timers :: "mkey set"
  committed_instances :: "mkey set"
  view_change_messages :: "nat \<Rightarrow> (int \<times> view_change) list"
  view_change_sent :: "nat set"
  new_view_sent :: "nat set"
  recovery_pre_prepare_sent :: "mkey set"
  recovery_pre_prepare_timers :: "mkey set"
  accepted_new_view_payloads :: "nat \<rightharpoonup> nv_payload"
  manual_view_change_timer :: bool
  progress_timeout_timer :: bool
  progress_timeout_request_id :: "string option"
  progress_timeout_view :: "nat option"
  published :: "publication list"

abbreviation self_id :: "pbft_replica \<Rightarrow> int" where "self_id s \<equiv> node_id (params s)"

abbreviation n_of :: "pbft_replica \<Rightarrow> int" where "n_of s \<equiv> replica_count (params s)"

definition prepare_threshold :: "pbft_replica \<Rightarrow> int" where
  "prepare_threshold s = 2 * max_faulty (params s)"

definition commit_threshold :: "pbft_replica \<Rightarrow> int" where
  "commit_threshold s = 2 * max_faulty (params s) + 1"

definition view_change_threshold :: "pbft_replica \<Rightarrow> int" where
  "view_change_threshold s = 2 * max_faulty (params s) + 1"

lemmas threshold_defs = prepare_threshold_def commit_threshold_def view_change_threshold_def

definition primary_for_view :: "int \<Rightarrow> nat \<Rightarrow> int" where
  "primary_for_view n view = int view mod n"

section \<open>Publishing\<close>

definition publish :: "publication \<Rightarrow> pbft_replica \<Rightarrow> pbft_replica" where
  "publish p s = s\<lparr>published := published s @ [p]\<rparr>"

definition status_of :: "pbft_replica \<Rightarrow> replica_status" where
  "status_of s =
     (case current_key s of
        None \<Rightarrow>
          \<lparr>st_node_id = self_id s, st_view = current_view s, st_seq = 0,
           st_request_id = '''', st_digest = '''', st_phase = phase_of s,
           st_prepare_count = 0, st_commit_count = 0, st_prepared = False,
           st_committed = False, st_stop = emergency_stop s,
           st_byzantine = is_byzantine (params s)\<rparr>
      | Some key \<Rightarrow>
          \<lparr>st_node_id = self_id s, st_view = current_view s, st_seq = snd key,
           st_request_id = (case instances s key of None \<Rightarrow> '''' | Some i \<Rightarrow> i_request_id i),
           st_digest = (case instances s key of None \<Rightarrow> '''' | Some i \<Rightarrow> i_request_digest i),
           st_phase = phase_of s,
           st_prepare_count = card (prepare_senders s key),
           st_commit_count = card (commit_senders s key),
           st_prepared = (key \<in> prepared_instances s),
           st_committed = (key \<in> committed_instances s),
           st_stop = emergency_stop s,
           st_byzantine = is_byzantine (params s)\<rparr>)"

definition publish_status :: "pbft_replica \<Rightarrow> pbft_replica" where
  "publish_status s = publish (Pub_status (status_of s)) s"

section \<open>Start-up\<close>

definition validate_configuration :: "pbft_params \<Rightarrow> py_error + unit" where
  "validate_configuration p =
     raise_if (max_faulty p < 0) ValueError (
     raise_if (replica_count p \<noteq> 3 * max_faulty p + 1) ValueError (
     raise_if (\<not> (0 \<le> node_id p \<and> node_id p < replica_count p)) ValueError (
     raise_if (initial_view p < 0) ValueError (
     raise_if (\<not> (0 \<le> configured_primary_id p \<and> configured_primary_id p < replica_count p))
       ValueError (
     raise_if (configured_primary_id p \<noteq> primary_for_view (replica_count p) (nat (initial_view p)))
       ValueError (
     Inr ()))))))"

definition allowed_behaviors :: "string list" where
  "allowed_behaviors =
    [''none'', ''silent'', ''bad_digest'', ''duplicate'', ''equivocation'', ''skip_prepare'',
     ''skip_commit'', ''delayed_prepare'', ''delayed_commit'', ''early_commit'',
     ''wrong_sequence'', ''wrong_view'', ''wrong_value'', ''invalid_sender'',
     ''skip_pre_prepare'']"

definition validate_parameters :: "pbft_params \<Rightarrow> py_error + unit" where
  "validate_parameters p =
     raise_if (progress_timeout_sec p \<le> 0) ValueError (
     raise_if (duplicate_message_count p < 2) ValueError (
     raise_if (prepare_delay_sec p < 0) ValueError (
     raise_if (commit_delay_sec p < 0) ValueError (
     raise_if (manual_view_change_delay_sec p \<le> 0) ValueError (
     raise_if (manual_view_change_target p \<noteq> -1 \<and>
       manual_view_change_target p \<le> initial_view p) ValueError (
     raise_if (new_view_pre_prepare_delay_sec p \<le> 0) ValueError (
     raise_if (status_publish_period_sec p \<le> 0) ValueError (
     raise_if (protocol_qos_depth p \<le> 0) ValueError (
     raise_if (status_qos_depth p \<le> 0) ValueError (
     raise_if (byzantine_behavior p \<notin> set allowed_behaviors) ValueError (
     Inr ())))))))))))"

definition initial_state :: "pbft_params \<Rightarrow> pbft_replica" where
  "initial_state p =
     \<lparr>params = p,
      current_view = nat (initial_view p),
      primary_id = primary_for_view (replica_count p) (nat (initial_view p)),
      next_sequence_number = 1,
      emergency_stop = False,
      current_key = None,
      phase_of = (if is_byzantine p \<and> byzantine_behavior p = ''silent'' then SILENT else IDLE),
      cached_client_requests = [],
      processed_request_ids = {},
      instances = Map.empty,
      prepare_senders = (\<lambda>_. {}),
      pending_prepares = (\<lambda>_. []),
      prepare_sent = {},
      prepare_scheduled = {},
      delayed_prepare_timers = {},
      prepared_instances = {},
      commit_senders = (\<lambda>_. {}),
      pending_commits = (\<lambda>_. []),
      commit_sent = {},
      commit_scheduled = {},
      delayed_commit_timers = {},
      committed_instances = {},
      view_change_messages = (\<lambda>_. []),
      view_change_sent = {},
      new_view_sent = {},
      recovery_pre_prepare_sent = {},
      recovery_pre_prepare_timers = {},
      accepted_new_view_payloads = Map.empty,
      manual_view_change_timer = (manual_view_change_target p > initial_view p),
      progress_timeout_timer = False,
      progress_timeout_request_id = None,
      progress_timeout_view = None,
      published = []\<rparr>"

text \<open>\<^verbatim>\<open>PBFTReplica.__init__\<close>: the behaviour name is normalised, the parameters are
  checked, a correct replica forgets the behaviour name, the configuration is
  checked, and the first status is published.\<close>

definition init_replica :: "pbft_params \<Rightarrow> py_error + pbft_replica" where
  "init_replica p0 =
     (let p = p0\<lparr>byzantine_behavior := py_lower (py_strip (byzantine_behavior p0))\<rparr> in
      bindE (validate_parameters p) (\<lambda>_.
        let p' = (if is_byzantine p then p else p\<lparr>byzantine_behavior := ''none''\<rparr>) in
        bindE (validate_configuration p') (\<lambda>_.
          Inr (publish_status (initial_state p')))))"

section \<open>First facts\<close>

lemma primary_for_view_range: "0 < n \<Longrightarrow> 0 \<le> primary_for_view n v \<and> primary_for_view n v < n"
  by (simp add: primary_for_view_def)

lemma publish_fields [simp, frame_simps]:
  "published (publish p s) = published s @ [p]"
  "params (publish p s) = params s"
  "current_view (publish p s) = current_view s"
  "primary_id (publish p s) = primary_id s"
  "next_sequence_number (publish p s) = next_sequence_number s"
  "emergency_stop (publish p s) = emergency_stop s"
  "current_key (publish p s) = current_key s"
  "phase_of (publish p s) = phase_of s"
  "cached_client_requests (publish p s) = cached_client_requests s"
  "processed_request_ids (publish p s) = processed_request_ids s"
  "instances (publish p s) = instances s"
  "prepare_senders (publish p s) = prepare_senders s"
  "pending_prepares (publish p s) = pending_prepares s"
  "prepare_sent (publish p s) = prepare_sent s"
  "prepared_instances (publish p s) = prepared_instances s"
  "commit_senders (publish p s) = commit_senders s"
  "pending_commits (publish p s) = pending_commits s"
  "commit_sent (publish p s) = commit_sent s"
  "committed_instances (publish p s) = committed_instances s"
  "view_change_messages (publish p s) = view_change_messages s"
  "view_change_sent (publish p s) = view_change_sent s"
  "new_view_sent (publish p s) = new_view_sent s"
  "recovery_pre_prepare_sent (publish p s) = recovery_pre_prepare_sent s"
  "recovery_pre_prepare_timers (publish p s) = recovery_pre_prepare_timers s"
  "accepted_new_view_payloads (publish p s) = accepted_new_view_payloads s"
  "manual_view_change_timer (publish p s) = manual_view_change_timer s"
  "progress_timeout_timer (publish p s) = progress_timeout_timer s"
  "progress_timeout_request_id (publish p s) = progress_timeout_request_id s"
  "progress_timeout_view (publish p s) = progress_timeout_view s"
  by (simp_all add: publish_def)

lemma status_of_publish [simp]: "status_of (publish p s) = status_of s"
  by (simp add: status_of_def split: option.split)

end
