(* ===== verification/PBFT_Monitor.thy ===== *)
theory PBFT_Monitor
  imports PBFT_Types
begin

text \<open>
  The monitor (\<^verbatim>\<open>pbft_monitor.py\<close>), which watches status reports and votes and publishes one
  decision when \<open>2 f + 1\<close> replicas report the same committed value. Its dictionaries are
  association lists in insertion order, because it iterates over them; error logs about
  equivocation and agreement violations are outputs of the model. The clock
  reading of a callback is the argument \<open>now\<close> (nanoseconds).
\<close>

declare split_paired_All [simp del] split_paired_Ex [simp del]

record pbft_decision =
  pd_stamp :: int
  pd_view :: nat
  pd_seq :: nat
  pd_request_id :: string
  pd_digest :: string
  pd_stop :: bool
  pd_committed :: bool
  pd_confirmation_count :: nat
  pd_required_confirmations :: int
  pd_confirming_replicas :: "int list"

type_synonym payload = "string \<times> string \<times> bool"

type_synonym decision_key = "nat \<times> nat \<times> string \<times> string \<times> bool"

datatype monitor_output =
    Out_decision pbft_decision
  | Out_agreement_violation mkey
  | Out_equivocation "nat \<times> int \<times> nat \<times> nat"

record pbft_monitor =
  mon_replica_count :: int
  mon_max_faulty :: int
  latest_status :: "(int \<times> replica_status) list"
  committed_observations :: "(decision_key \<times> int set) list"
  committed_payloads_by_instance :: "(mkey \<times> (payload \<times> int set) list) list"
  reported_consensus :: "decision_key set"
  reported_agreement_violations :: "mkey set"
  protocol_observations :: "((nat \<times> int \<times> nat \<times> nat) \<times> (payload \<times> int set) list) list"
  reported_equivocations :: "(nat \<times> int \<times> nat \<times> nat) set"
  mon_outputs :: "monitor_output list"

definition mon_commit_threshold :: "pbft_monitor \<Rightarrow> int" where
  "mon_commit_threshold s = 2 * mon_max_faulty s + 1"

definition mon_validate_configuration :: "int \<Rightarrow> int \<Rightarrow> py_error + unit" where
  "mon_validate_configuration n f =
     raise_if (f < 0) ValueError (raise_if (n \<noteq> 3 * f + 1) ValueError (Inr ()))"

definition init_monitor :: "int \<Rightarrow> int \<Rightarrow> py_error + pbft_monitor" where
  "init_monitor n f =
     bindE (mon_validate_configuration n f) (\<lambda>_.
       Inr \<lparr>mon_replica_count = n, mon_max_faulty = f, latest_status = [],
            committed_observations = [], committed_payloads_by_instance = [],
            reported_consensus = {}, reported_agreement_violations = {},
            protocol_observations = [], reported_equivocations = {}, mon_outputs = []\<rparr>)"

text \<open>\<^verbatim>\<open>d[k].add(x)\<close> on a \<^verbatim>\<open>defaultdict(set)\<close>.\<close>

definition dict_add :: "'k \<Rightarrow> 'a \<Rightarrow> ('k \<times> 'a set) list \<Rightarrow> ('k \<times> 'a set) list" where
  "dict_add k x d = dict_set k (insert x (case map_of d k of None \<Rightarrow> {} | Some X \<Rightarrow> X)) d"

text \<open>\<^verbatim>\<open>d[k][p].add(x)\<close> on a \<^verbatim>\<open>defaultdict\<close> of such dictionaries.\<close>

definition dict_add2 :: "'k \<Rightarrow> 'p \<Rightarrow> 'a \<Rightarrow> ('k \<times> ('p \<times> 'a set) list) list \<Rightarrow>
    ('k \<times> ('p \<times> 'a set) list) list" where
  "dict_add2 k p x d =
     dict_set k (dict_add p x (case map_of d k of None \<Rightarrow> [] | Some e \<Rightarrow> e)) d"

definition status_decision :: "replica_status \<Rightarrow> decision_key" where
  "status_decision st = (st_view st, st_seq st, st_request_id st, st_digest st, st_stop st)"

definition record_committed_status :: "replica_status \<Rightarrow> pbft_monitor \<Rightarrow> pbft_monitor" where
  "record_committed_status st s =
     (if \<not> st_committed st \<or> st_byzantine st then s
      else s\<lparr>committed_observations :=
               dict_add (status_decision st) (st_node_id st) (committed_observations s),
             committed_payloads_by_instance :=
               dict_add2 (st_view st, st_seq st) (st_request_id st, st_digest st, st_stop st)
                 (st_node_id st) (committed_payloads_by_instance s)\<rparr>)"

definition mon_output :: "monitor_output \<Rightarrow> pbft_monitor \<Rightarrow> pbft_monitor" where
  "mon_output out s = s\<lparr>mon_outputs := mon_outputs s @ [out]\<rparr>"

text \<open>The body of the loop in \<^verbatim>\<open>_check_agreement\<close>, then the loop.\<close>

fun report_violation :: "mkey \<times> (payload \<times> int set) list \<Rightarrow> pbft_monitor \<Rightarrow> pbft_monitor" where
  "report_violation (key, variants) s =
     (if length variants \<le> 1 then s
      else if key \<in> reported_agreement_violations s then s
      else mon_output (Out_agreement_violation key)
        (s\<lparr>reported_agreement_violations := insert key (reported_agreement_violations s)\<rparr>))"

definition check_agreement :: "pbft_monitor \<Rightarrow> pbft_monitor" where
  "check_agreement s = fold report_violation (committed_payloads_by_instance s) s"

definition decision_message :: "int \<Rightarrow> decision_key \<Rightarrow> int set \<Rightarrow> pbft_monitor \<Rightarrow> pbft_decision" where
  "decision_message now d node_ids s =
     (case d of (view, q, request_id, digest, stop) \<Rightarrow>
        \<lparr>pd_stamp = now, pd_view = view, pd_seq = q, pd_request_id = request_id,
         pd_digest = digest, pd_stop = stop, pd_committed = True,
         pd_confirmation_count = card node_ids,
         pd_required_confirmations = mon_commit_threshold s,
         pd_confirming_replicas = sorted_list_of_set node_ids\<rparr>)"

text \<open>The body of the loop in \<^verbatim>\<open>_check_consensus\<close>, then the loop.\<close>

fun report_decision :: "int \<Rightarrow> decision_key \<times> int set \<Rightarrow> pbft_monitor \<Rightarrow> pbft_monitor" where
  "report_decision now (d, node_ids) s =
     (if int (card node_ids) < mon_commit_threshold s then s
      else if d \<in> reported_consensus s then s
      else mon_output (Out_decision (decision_message now d node_ids s))
        (s\<lparr>reported_consensus := insert d (reported_consensus s)\<rparr>))"

definition check_consensus :: "int \<Rightarrow> pbft_monitor \<Rightarrow> pbft_monitor" where
  "check_consensus now s = fold (report_decision now) (committed_observations s) s"

definition status_callback :: "int \<Rightarrow> replica_status \<Rightarrow> pbft_monitor \<Rightarrow> pbft_monitor" where
  "status_callback now st s =
     (if \<not> (0 \<le> st_node_id st \<and> st_node_id st < mon_replica_count s) then s
      else
        let s1 = s\<lparr>latest_status := dict_set (st_node_id st) st (latest_status s)\<rparr> in
        check_consensus now (check_agreement (record_committed_status st s1)))"

definition protocol_message_callback :: "pbft_message \<Rightarrow> pbft_monitor \<Rightarrow> pbft_monitor" where
  "protocol_message_callback m s =
     (if m_type m \<noteq> PREPARE \<and> m_type m \<noteq> COMMIT then s
      else
        let key = (m_type m, m_sender m, m_view m, m_seq m);
            s1 = s\<lparr>protocol_observations :=
                dict_add2 key (m_request_id m, m_digest m, m_stop m) (m_recipient m)
                  (protocol_observations s)\<rparr>;
            variants = the (map_of (protocol_observations s1) key) in
        if length variants \<le> 1 then s1
        else if key \<in> reported_equivocations s1 then s1
        else mon_output (Out_equivocation key)
          (s1\<lparr>reported_equivocations := insert key (reported_equivocations s1)\<rparr>))"

datatype monitor_event = Mon_status int replica_status | Mon_message pbft_message

fun monitor_step :: "monitor_event \<Rightarrow> pbft_monitor \<Rightarrow> py_error + pbft_monitor" where
  "monitor_step (Mon_status now st) s = Inr (status_callback now st s)"
| "monitor_step (Mon_message m) s = Inr (protocol_message_callback m s)"

section \<open>The monitor invariant\<close>

definition decision_key_of :: "pbft_decision \<Rightarrow> decision_key" where
  "decision_key_of d = (pd_view d, pd_seq d, pd_request_id d, pd_digest d, pd_stop d)"

text \<open>A status that supports a decision: delivered (\<open>ok\<close>), committed, not flagged Byzantine.\<close>

definition supports :: "(replica_status \<Rightarrow> bool) \<Rightarrow> decision_key \<Rightarrow> int \<Rightarrow> bool" where
  "supports ok d i =
     (\<exists>st. ok st \<and> st_node_id st = i \<and> st_committed st \<and> \<not> st_byzantine st \<and> status_decision st = d)"

definition quorum_decision :: "(replica_status \<Rightarrow> bool) \<Rightarrow> int \<Rightarrow> int \<Rightarrow> pbft_decision \<Rightarrow> bool" where
  "quorum_decision ok n f d =
     (pd_committed d \<and> sorted (pd_confirming_replicas d) \<and> distinct (pd_confirming_replicas d) \<and>
      set (pd_confirming_replicas d) \<subseteq> {0..<n} \<and>
      pd_confirmation_count d = length (pd_confirming_replicas d) \<and>
      pd_required_confirmations d = 2 * f + 1 \<and> 2 * f + 1 \<le> int (pd_confirmation_count d) \<and>
      (\<forall>i \<in> set (pd_confirming_replicas d). supports ok (decision_key_of d) i))"

definition decisions :: "pbft_monitor \<Rightarrow> pbft_decision list" where
  "decisions s = List.map_filter (\<lambda>out. case out of Out_decision d \<Rightarrow> Some d | _ \<Rightarrow> None) (mon_outputs s)"

definition obs_ok :: "(replica_status \<Rightarrow> bool) \<Rightarrow> int \<Rightarrow> (decision_key \<times> int set) list \<Rightarrow> bool" where
  "obs_ok ok n obs = (\<forall>(d, ids) \<in> set obs. ids \<subseteq> {0..<n} \<and> (\<forall>i \<in> ids. supports ok d i))"

definition mon_inv :: "(replica_status \<Rightarrow> bool) \<Rightarrow> pbft_monitor \<Rightarrow> bool" where
  "mon_inv ok s =
     (0 \<le> mon_max_faulty s \<and> mon_replica_count s = 3 * mon_max_faulty s + 1 \<and>
      obs_ok ok (mon_replica_count s) (committed_observations s) \<and>
      (\<forall>d \<in> set (decisions s). quorum_decision ok (mon_replica_count s) (mon_max_faulty s) d) \<and>
      distinct (map decision_key_of (decisions s)) \<and>
      set (map decision_key_of (decisions s)) = reported_consensus s)"

lemma decisions_output [simp]:
  "decisions (mon_output out s) = decisions s @ (case out of Out_decision d \<Rightarrow> [d] | _ \<Rightarrow> [])"
  by (simp add: decisions_def mon_output_def map_filter_def split: monitor_output.split)

lemma mon_output_fields [simp, frame_simps]:
  "mon_replica_count (mon_output out s) = mon_replica_count s"
  "mon_max_faulty (mon_output out s) = mon_max_faulty s"
  "committed_observations (mon_output out s) = committed_observations s"
  "reported_consensus (mon_output out s) = reported_consensus s"
  by (simp_all add: mon_output_def)

lemma obs_ok_add:
  assumes "obs_ok ok n obs" "i \<in> {0..<n}" "supports ok d i"
  shows "obs_ok ok n (dict_add d i obs)"
proof -
  let ?X = "case map_of obs d of None \<Rightarrow> {} | Some X \<Rightarrow> X"
  have "?X \<subseteq> {0..<n} \<and> (\<forall>j \<in> ?X. supports ok d j)"
    using assms(1) by (auto simp: obs_ok_def split: option.splits dest!: map_of_SomeD)
  with assms show ?thesis
    unfolding obs_ok_def dict_add_def by (auto dest!: set_dict_set[THEN subsetD])
qed

lemma decision_message_key: "decision_key_of (decision_message now d ids s) = d"
  by (simp add: decision_message_def decision_key_of_def split: prod.split)

lemma decision_message_quorum:
  assumes "ids \<subseteq> {0..<mon_replica_count s}" "\<forall>i \<in> ids. supports ok d i"
    "mon_commit_threshold s \<le> int (card ids)"
  shows "quorum_decision ok (mon_replica_count s) (mon_max_faulty s) (decision_message now d ids s)"
proof -
  have "finite ids" using assms(1) finite_subset by blast
  then show ?thesis
    using assms decision_message_key[of now d ids s]
    by (auto simp: quorum_decision_def decision_message_def mon_commit_threshold_def split: prod.splits)
qed

text \<open>Folds over a dictionary that never touch the observations.\<close>

lemma check_consensus_step:
  assumes "mon_inv ok t" "ids \<subseteq> {0..<mon_replica_count t}" "\<forall>i \<in> ids. supports ok d i"
    "mon_commit_threshold t \<le> int (card ids)" "d \<notin> reported_consensus t"
  shows "mon_inv ok (mon_output (Out_decision (decision_message now d ids t))
    (t\<lparr>reported_consensus := insert d (reported_consensus t)\<rparr>))"
proof -
  have dec: "decisions (t\<lparr>reported_consensus := X\<rparr>) = decisions t" for X
    by (simp add: decisions_def)
  show ?thesis
    using assms decision_message_quorum[OF assms(2-4), of now]
    by (auto simp: mon_inv_def dec decision_message_key)
qed

lemma check_consensus_inv: "mon_inv ok s \<Longrightarrow> mon_inv ok (check_consensus now s)"
proof -
  assume s: "mon_inv ok s"
  let ?f = "report_decision now"
  have "mon_inv ok (fold ?f obs t) \<and> mon_replica_count (fold ?f obs t) = mon_replica_count t"
    if "mon_inv ok t" "obs_ok ok (mon_replica_count t) obs" for obs t
    using that
  proof (induction obs arbitrary: t)
    case (Cons x obs)
    obtain d ids where x: "x = (d, ids)" by fastforce
    have "mon_inv ok (?f x t) \<and> mon_replica_count (?f x t) = mon_replica_count t"
      using Cons.prems check_consensus_step[OF Cons.prems(1), of ids d now]
      by (auto simp: x obs_ok_def)
    with Cons show ?case by (auto simp: obs_ok_def)
  qed simp
  moreover have "obs_ok ok (mon_replica_count s) (committed_observations s)"
    using s unfolding mon_inv_def by blast
  ultimately show ?thesis unfolding check_consensus_def using s by blast
qed

lemma check_agreement_frame:
  "mon_replica_count (check_agreement s) = mon_replica_count s"
  "mon_max_faulty (check_agreement s) = mon_max_faulty s"
  "committed_observations (check_agreement s) = committed_observations s"
  "reported_consensus (check_agreement s) = reported_consensus s"
  "decisions (check_agreement s) = decisions s"
proof -
  let ?f = "report_violation"
  have dec: "decisions (t\<lparr>reported_agreement_violations := X\<rparr>) = decisions t" for t X
    by (simp add: decisions_def)
  have "mon_replica_count (fold ?f xs t) = mon_replica_count t \<and>
      mon_max_faulty (fold ?f xs t) = mon_max_faulty t \<and>
      committed_observations (fold ?f xs t) = committed_observations t \<and>
      reported_consensus (fold ?f xs t) = reported_consensus t \<and> decisions (fold ?f xs t) = decisions t"
    for xs t
  proof (induction xs arbitrary: t)
    case (Cons x xs)
    obtain key variants where "x = (key, variants)" by fastforce
    with Cons show ?case by (simp add: dec)
  qed simp
  then show "mon_replica_count (check_agreement s) = mon_replica_count s"
    "mon_max_faulty (check_agreement s) = mon_max_faulty s"
    "committed_observations (check_agreement s) = committed_observations s"
    "reported_consensus (check_agreement s) = reported_consensus s"
    "decisions (check_agreement s) = decisions s"
    by (simp_all add: check_agreement_def)
qed

lemma status_callback_inv:
  assumes "mon_inv ok s" "ok st"
  shows "mon_inv ok (status_callback now st s)"
proof (cases "0 \<le> st_node_id st \<and> st_node_id st < mon_replica_count s")
  case True
  let ?s1 = "record_committed_status st (s\<lparr>latest_status := dict_set (st_node_id st) st (latest_status s)\<rparr>)"
  have "supports ok (status_decision st) (st_node_id st)" if "st_committed st" "\<not> st_byzantine st"
    using that assms(2) by (auto simp: supports_def)
  then have "mon_inv ok ?s1"
    using assms(1) True by (auto simp: mon_inv_def record_committed_status_def decisions_def obs_ok_add)
  then have "mon_inv ok (check_agreement ?s1)"
    unfolding mon_inv_def check_agreement_frame .
  with True show ?thesis by (simp add: status_callback_def check_consensus_inv Let_def)
qed (use assms in \<open>simp add: status_callback_def\<close>)

lemma protocol_message_frame:
  "mon_replica_count (protocol_message_callback m s) = mon_replica_count s"
  "mon_max_faulty (protocol_message_callback m s) = mon_max_faulty s"
  "committed_observations (protocol_message_callback m s) = committed_observations s"
  "reported_consensus (protocol_message_callback m s) = reported_consensus s"
  "decisions (protocol_message_callback m s) = decisions s"
  by (simp_all add: protocol_message_callback_def Let_def)
    (simp add: decisions_def mon_output_def map_filter_def)

lemma protocol_message_inv: "mon_inv ok s \<Longrightarrow> mon_inv ok (protocol_message_callback m s)"
  unfolding mon_inv_def protocol_message_frame .

lemma monitor_init_inv: "init_monitor n f = Inr s \<Longrightarrow> mon_inv ok s"
  by (auto simp: init_monitor_def bindE_eq_Inr mon_validate_configuration_def mon_inv_def obs_ok_def
      decisions_def map_filter_def)

interpretation monitor: machine monitor_step "mon_inv (\<lambda>_. True)"
proof
  show "\<exists>s'. monitor_step a s = Inr s' \<and> mon_inv (\<lambda>_. True) s'" if "mon_inv (\<lambda>_. True) s" for a s
    using that by (cases a) (auto simp: status_callback_inv protocol_message_inv)
qed

section \<open>Equivocation detection\<close>

definition vote_key :: "pbft_message \<Rightarrow> nat \<times> int \<times> nat \<times> nat" where
  "vote_key m = (m_type m, m_sender m, m_view m, m_seq m)"

definition vote_payload :: "pbft_message \<Rightarrow> payload" where
  "vote_payload m = (m_request_id m, m_digest m, m_stop m)"

definition votes_seen :: "monitor_event list \<Rightarrow> pbft_message set" where
  "votes_seen es = {m. Mon_message m \<in> set es \<and> (m_type m = PREPARE \<or> m_type m = COMMIT)}"

definition observed :: "(nat \<times> int \<times> nat \<times> nat) \<Rightarrow> pbft_monitor \<Rightarrow> (payload \<times> int set) list" where
  "observed key s = (case map_of (protocol_observations s) key of None \<Rightarrow> [] | Some v \<Rightarrow> v)"

definition equivocation_inv :: "monitor_event list \<Rightarrow> pbft_monitor \<Rightarrow> bool" where
  "equivocation_inv es s =
     ((\<forall>key. distinct (map fst (observed key s)) \<and>
        fst ` set (observed key s) = vote_payload ` {m \<in> votes_seen es. vote_key m = key}) \<and>
      reported_equivocations s = {key. 1 < length (observed key s)} \<and>
      {key. Out_equivocation key \<in> set (mon_outputs s)} = reported_equivocations s)"

lemma report_frames:
  "protocol_observations (report_decision now x s) = protocol_observations s"
  "reported_equivocations (report_decision now x s) = reported_equivocations s"
  "Out_equivocation key \<in> set (mon_outputs (report_decision now x s)) \<longleftrightarrow> Out_equivocation key \<in> set (mon_outputs s)"
  "protocol_observations (report_violation y s) = protocol_observations s"
  "reported_equivocations (report_violation y s) = reported_equivocations s"
  "Out_equivocation key \<in> set (mon_outputs (report_violation y s)) \<longleftrightarrow> Out_equivocation key \<in> set (mon_outputs s)"
  by (cases x; simp add: mon_output_def; fail | cases y; simp add: mon_output_def)+

lemma fold_keeps: "(\<And>x s. g (f x s) = g s) \<Longrightarrow> g (fold f xs s) = g s"
  by (induction xs arbitrary: s) simp_all

lemma status_equivocation_frame:
  "protocol_observations (status_callback now st s) = protocol_observations s"
  "reported_equivocations (status_callback now st s) = reported_equivocations s"
  "Out_equivocation key \<in> set (mon_outputs (status_callback now st s)) \<longleftrightarrow>
    Out_equivocation key \<in> set (mon_outputs s)"
proof -
  have f: "protocol_observations (fold (report_decision now) xs t) = protocol_observations t"
    "reported_equivocations (fold (report_decision now) xs t) = reported_equivocations t"
    "Out_equivocation key \<in> set (mon_outputs (fold (report_decision now) xs t)) \<longleftrightarrow> Out_equivocation key \<in> set (mon_outputs t)"
    "protocol_observations (fold report_violation ys t) = protocol_observations t"
    "reported_equivocations (fold report_violation ys t) = reported_equivocations t"
    "Out_equivocation key \<in> set (mon_outputs (fold report_violation ys t)) \<longleftrightarrow> Out_equivocation key \<in> set (mon_outputs t)"
    for xs ys t
    by (rule fold_keeps, simp add: report_frames)+
  show "protocol_observations (status_callback now st s) = protocol_observations s"
    "reported_equivocations (status_callback now st s) = reported_equivocations s"
    "Out_equivocation key \<in> set (mon_outputs (status_callback now st s)) \<longleftrightarrow>
      Out_equivocation key \<in> set (mon_outputs s)"
    by (simp_all add: status_callback_def check_consensus_def check_agreement_def Let_def f
        record_committed_status_def)
qed

lemma equivocation_status:
  assumes "equivocation_inv es s"
  shows "equivocation_inv (es @ [Mon_status now st]) (status_callback now st s)"
proof -
  have "votes_seen (es @ [Mon_status now st]) = votes_seen es" by (simp add: votes_seen_def)
  with assms show ?thesis
    by (simp add: equivocation_inv_def observed_def status_equivocation_frame)
qed

lemma protocol_message_eq:
  assumes "m_type m = PREPARE \<or> m_type m = COMMIT"
  shows "protocol_message_callback m s =
    (let s1 = s\<lparr>protocol_observations := dict_add2 (vote_key m) (vote_payload m) (m_recipient m)
           (protocol_observations s)\<rparr> in
     if length (observed (vote_key m) s1) \<le> 1 \<or> vote_key m \<in> reported_equivocations s then s1
     else mon_output (Out_equivocation (vote_key m))
       (s1\<lparr>reported_equivocations := insert (vote_key m) (reported_equivocations s)\<rparr>))"
  using assms
  by (auto simp: protocol_message_callback_def Let_def observed_def dict_add2_def vote_key_def
      vote_payload_def)

lemma observed_add:
  "observed key (s\<lparr>protocol_observations := dict_add2 k p x (protocol_observations s)\<rparr>) =
    (if key = k then dict_add p x (observed key s) else observed key s)"
  by (simp add: observed_def dict_add2_def)

lemma keys_dict_add:
  "fst ` set (dict_add k x d) = insert k (fst ` set d)"
  "distinct (map fst d) \<Longrightarrow> distinct (map fst (dict_add k x d))"
  by (simp_all add: dict_add_def keys_dict_set distinct_dict_set)

lemma length_dict_add: "length d \<le> length (dict_add k x d)"
proof -
  have "length d \<le> length (map fst (dict_add k x d))"
    unfolding dict_add_def map_fst_dict_set by simp
  then show ?thesis by simp
qed

lemma equivocation_vote:
  assumes "equivocation_inv es s"
  shows "equivocation_inv (es @ [Mon_message m]) (protocol_message_callback m s)"
proof (cases "m_type m = PREPARE \<or> m_type m = COMMIT")
  case True
  let ?s1 = "s\<lparr>protocol_observations := dict_add2 (vote_key m) (vote_payload m) (m_recipient m)
           (protocol_observations s)\<rparr>"
  let ?s = "protocol_message_callback m s"
  have old: "distinct (map fst (observed key s))"
    "fst ` set (observed key s) = vote_payload ` {m' \<in> votes_seen es. vote_key m' = key}"
    "key \<in> reported_equivocations s \<longleftrightarrow> 1 < length (observed key s)"
    "Out_equivocation key \<in> set (mon_outputs s) \<longleftrightarrow> key \<in> reported_equivocations s" for key
    using assms unfolding equivocation_inv_def by blast+
  have seen: "votes_seen (es @ [Mon_message m]) = insert m (votes_seen es)"
    using True by (auto simp: votes_seen_def)
  have obs: "observed key ?s = observed key ?s1" for key
    by (simp add: protocol_message_eq[OF True] Let_def observed_def mon_output_def)
  have payloads: "distinct (map fst (observed key ?s)) \<and>
      fst ` set (observed key ?s) = vote_payload ` {m' \<in> votes_seen (es @ [Mon_message m]). vote_key m' = key}"
    for key
    using old(1,2)[of key] by (auto simp: obs observed_add seen keys_dict_add)
  have rep: "key \<in> reported_equivocations ?s \<longleftrightarrow>
      key \<in> reported_equivocations s \<or> key = vote_key m \<and> 1 < length (observed (vote_key m) ?s1)"
    and out: "Out_equivocation key \<in> set (mon_outputs ?s) \<longleftrightarrow> key \<in> reported_equivocations ?s" for key
    using old(4) by (auto simp: protocol_message_eq[OF True] Let_def mon_output_def)
  have "key \<in> reported_equivocations ?s \<longleftrightarrow> 1 < length (observed key ?s)" for key
    using old(3)[of key] rep[of key] length_dict_add[of "observed key s" "vote_payload m" "m_recipient m"]
    by (auto simp: obs observed_add)
  with payloads out show ?thesis unfolding equivocation_inv_def by blast
next
  case False
  then have "votes_seen (es @ [Mon_message m]) = votes_seen es" by (auto simp: votes_seen_def)
  with False assms show ?thesis by (simp add: equivocation_inv_def protocol_message_callback_def)
qed

lemma equivocation_run:
  assumes "init_monitor n f = Inr s0" "foldE monitor_step es s0 = Inr s"
  shows "equivocation_inv es s"
  using assms(2)
proof (induction es arbitrary: s rule: rev_induct)
  case Nil
  with assms(1) show ?case
    by (auto simp: init_monitor_def bindE_eq_Inr equivocation_inv_def observed_def votes_seen_def)
next
  case (snoc e es)
  then obtain t where "foldE monitor_step es s0 = Inr t" "monitor_step e t = Inr s"
    by (auto simp: foldE_append bindE_eq_Inr)
  with snoc.IH show ?case
    by (cases e) (auto intro: equivocation_status equivocation_vote)
qed

end
