(* ===== verification/CN_Evaluator.thy ===== *)
theory CN_Evaluator
  imports CN_Config PBFT_Monitor
begin

text \<open>
  The scenario evaluator of the PBFT project (\<^verbatim>\<open>scenario_evaluator.py\<close>): a node that collects facts from all topics in a tree of
  dictionaries, evaluates the conditions of a scenario on it and writes one result. The state is the same tree, as a \<^typ>\<open>jval\<close>.
  A callback may read the clock several times: \<open>c k\<close> is its reading number \<open>k\<close>. Stamps and the detail of a status are
  arguments. The written files are fields: the log of events, the last snapshot and the result. The parameters name files
  that can be written.
\<close>

section \<open>State\<close>

type_synonym fingerprint = "nat \<times> nat \<times> string \<times> string \<times> bool"

record evaluator =
  ev_scenario :: jval
  ev_replica_count :: int
  ev_timeout :: real
  ev_start :: real
  ev_finished :: bool
  ev_seen :: "(string \<times> int \<times> int \<times> fingerprint) set"
  ev_values :: "string \<Rightarrow> string \<Rightarrow> fingerprint set"
  ev_prepared :: "(string \<times> int set) list"
  ev_committed :: "(string \<times> int set) list"
  ev_state :: jval
  ev_domain :: jval
  ev_log :: "jval list"
  ev_result :: "jval option"
  ev_snapshot :: "jval option"

definition by_sender_keys :: "(string \<times> jval) list" where
  "by_sender_keys = [(''request_by_sender'', JDict []), (''pre_prepare_by_sender'', JDict []), (''prepare_by_sender'', JDict []),
     (''commit_by_sender'', JDict [])]"

definition initial_counts :: jval where
  "initial_counts = JDict
    ([(''request'', JInt 0), (''pre_prepare'', JInt 0), (''prepare'', JInt 0), (''commit'', JInt 0), (''view_change'', JInt 0),
      (''new_view'', JInt 0), (''recovery_pre_prepare'', JInt 0), (''pre_prepare_by_view'', JDict []), (''prepare_by_view'', JDict []),
      (''commit_by_view'', JDict []), (''view_change_by_view'', JDict []), (''view_change_unique_senders_by_view'', JDict []),
      (''view_change_with_prepared_certificate'', JInt 0), (''new_view_by_view'', JDict [])] @ by_sender_keys @
     [(''duplicate_protocol_messages'', JInt 0), (''duplicate_by_type'', JDict []), (''duplicate_by_sender'', JDict []),
      (''unique_payload_count'', JDict [(''request'', JDict []), (''pre_prepare'', JDict []), (''prepare'', JDict []), (''commit'', JDict [])]),
      (''invalid_digest'', JInt 0), (''invalid_digest_by_sender'', JDict []), (''zero_sequence'', JInt 0),
      (''zero_sequence_by_sender'', JDict []), (''unexpected_view'', JInt 0), (''unexpected_view_by_sender'', JDict []),
      (''value_mismatch'', JInt 0), (''value_mismatch_by_sender'', JDict []), (''invalid_sender'', JInt 0),
      (''invalid_sender_values'', JList [])])"

definition initial_ev_state :: "jval \<Rightarrow> jval" where
  "initial_ev_state scenario_id = JDict
    [(''scenario_id'', scenario_id), (''status'', JStr ''RUNNING''), (''elapsed_sec'', JFloat 0), (''current_view'', JInt 0),
     (''primary_id'', JInt 0), (''request_reference'', JNone), (''replicas'', JDict []),
     (''replica_summary'', JDict [(''prepared_count'', JInt 0), (''committed_count'', JInt 0), (''byzantine_count'', JInt 0),
       (''by_view'', JDict []), (''phase_counts'', JDict [])]),
     (''history'', JDict [(''prepared_replicas_by_view'', JDict []), (''committed_replicas_by_view'', JDict [])]),
     (''replica_detail_history'', JDict []), (''decision'', JNone),
     (''safety'', JDict [(''state'', JNone), (''emergency_stop'', JNone)]), (''counts'', initial_counts),
     (''first_seen_sec'', JDict by_sender_keys), (''first_stamp_ns'', JDict by_sender_keys), (''last'', JDict []),
     (''timeline'', JList []), (''assertions'', JList [])]"

section \<open>Updates of the state\<close>

definition edit :: "(jval \<Rightarrow> jval) \<Rightarrow> evaluator \<Rightarrow> evaluator" where
  "edit f e = e\<lparr>ev_state := f (ev_state e)\<rparr>"

definition number_at :: "string list \<Rightarrow> jval \<Rightarrow> int" where
  "number_at ks v = (case peek ks v of Some (JInt i) \<Rightarrow> i | _ \<Rightarrow> 0)"

definition flag_at :: "string list \<Rightarrow> jval \<Rightarrow> bool" where
  "flag_at ks v = (case peek ks v of Some w \<Rightarrow> py_bool w | None \<Rightarrow> False)"

definition items_at :: "string list \<Rightarrow> jval \<Rightarrow> jval list" where
  "items_at ks v = (case peek ks v of Some (JList xs) \<Rightarrow> xs | _ \<Rightarrow> [])"

definition add_at :: "string list \<Rightarrow> int \<Rightarrow> jval \<Rightarrow> jval" where
  "add_at ks k v = poke ks (JInt (number_at ks v + k)) v"

definition setdefault :: "string list \<Rightarrow> jval \<Rightarrow> jval \<Rightarrow> jval" where
  "setdefault ks w v = (if peek ks v = None then poke ks w v else v)"

definition increment_mapping :: "string \<Rightarrow> string \<Rightarrow> evaluator \<Rightarrow> evaluator" where
  "increment_mapping field key = edit (add_at [''counts'', field, key] 1)"

text \<open>\<^verbatim>\<open>xs[-k:]\<close>.\<close>

definition last_of :: "nat \<Rightarrow> 'a list \<Rightarrow> 'a list" where
  "last_of k xs = drop (length xs - k) xs"

text \<open>An integer is added to a sorted list without repetition.\<close>

definition add_sorted :: "int \<Rightarrow> jval list \<Rightarrow> jval list" where
  "add_sorted i xs = (if JInt i \<in> set xs then xs else map JInt (sort (map (\<lambda>v. case v of JInt k \<Rightarrow> k | _ \<Rightarrow> 0) xs @ [i])))"

definition record_event :: "real \<Rightarrow> string \<Rightarrow> jval \<Rightarrow> evaluator \<Rightarrow> evaluator" where
  "record_event now event_type payload e =
    (let event = JDict [(''elapsed_sec'', JFloat (py_round 3 (now - ev_start e))), (''type'', JStr event_type), (''payload'', payload)]
     in (edit (\<lambda>v. poke [''timeline''] (JList (last_of 500 (items_at [''timeline''] v @ [event]))) v) e)
          \<lparr>ev_log := ev_log e @ [event]\<rparr>)"

definition init_evaluator :: "py_floats \<Rightarrow> jval \<Rightarrow> jval \<Rightarrow> (nat \<Rightarrow> real) \<Rightarrow> py_error + evaluator" where
  "init_evaluator F scenario domain c =
    bindE (bindE (jget scenario ''replica_count'' (JInt 4)) py_int) (\<lambda>n.
    bindE (bindE (jget scenario ''timeout_sec'' (JFloat 15)) (py_float F)) (\<lambda>t.
    bindE (jat scenario ''id'') (\<lambda>i.
    Inr (record_event (c 1) ''evaluator_started''
      (JDict [(''scenario_id'', i), (''timeout_sec'', JFloat t), (''ros_domain_id'', domain)])
      \<lparr>ev_scenario = scenario, ev_replica_count = n, ev_timeout = t, ev_start = c 0, ev_finished = False, ev_seen = {},
       ev_values = (\<lambda>_ _. {}), ev_prepared = [], ev_committed = [], ev_state = initial_ev_state i, ev_domain = domain,
       ev_log = [], ev_result = None, ev_snapshot = None\<rparr>))))"

section \<open>Protocol messages\<close>

datatype topic = T_request | T_pre_prepare | T_prepare | T_commit

fun topic_name :: "topic \<Rightarrow> string" where
  "topic_name T_request = ''request''"
| "topic_name T_pre_prepare = ''pre_prepare''"
| "topic_name T_prepare = ''prepare''"
| "topic_name T_commit = ''commit''"

definition message_payload :: "pbft_message \<Rightarrow> int \<Rightarrow> jval" where
  "message_payload m stamp = JDict
    [(''message_type'', JInt (int (m_type m))), (''sender_id'', JInt (m_sender m)), (''recipient_id'', JInt (m_recipient m)),
     (''view'', JInt (int (m_view m))), (''sequence_number'', JInt (int (m_seq m))), (''request_id'', JStr (m_request_id m)),
     (''request_digest'', JStr (m_digest m)), (''emergency_stop'', JBool (m_stop m)), (''stamp_ns'', JInt stamp)]"

definition value_fingerprint :: "pbft_message \<Rightarrow> fingerprint" where
  "value_fingerprint m = (m_view m, m_seq m, m_request_id m, m_digest m, m_stop m)"

definition bump :: "string \<Rightarrow> evaluator \<Rightarrow> evaluator" where
  "bump field = edit (add_at [''counts'', field] 1)"

text \<open>\<^verbatim>\<open>_record_protocol_anomalies\<close>, check by check.\<close>

definition check_sender :: "topic \<Rightarrow> pbft_message \<Rightarrow> evaluator \<Rightarrow> evaluator" where
  "check_sender t m e =
    (if (if t = T_request then m_sender m = -1 else 0 \<le> m_sender m \<and> m_sender m < ev_replica_count e) then e
     else edit (\<lambda>v. poke [''counts'', ''invalid_sender_values'']
       (JList (add_sorted (m_sender m) (items_at [''counts'', ''invalid_sender_values''] v))) v) (bump ''invalid_sender'' e))"

definition anomaly :: "bool \<Rightarrow> string \<Rightarrow> pbft_message \<Rightarrow> evaluator \<Rightarrow> evaluator" where
  "anomaly found name m e =
    (if found then increment_mapping (name @ ''_by_sender'') (int_str (m_sender m)) (bump name e) else e)"

definition check_reference :: "topic \<Rightarrow> pbft_message \<Rightarrow> evaluator \<Rightarrow> evaluator" where
  "check_reference t m e =
    (if peek [''request_reference''] (ev_state e) \<in> {None, Some JNone} \<or> t = T_request then e
     else
       (let e1 = anomaly (int (m_view m) \<noteq> number_at [''request_reference'', ''initial_view''] (ev_state e)) ''unexpected_view'' m e in
        anomaly (m_stop m \<noteq> flag_at [''request_reference'', ''emergency_stop''] (ev_state e1)) ''value_mismatch'' m e1))"

definition record_protocol_anomalies :: "topic \<Rightarrow> pbft_message \<Rightarrow> evaluator \<Rightarrow> evaluator" where
  "record_protocol_anomalies t m e =
    check_reference t m
      (anomaly (m_request_id m \<noteq> [] \<and> m_digest m \<noteq> compute_request_digest (m_request_id m) (m_stop m)) ''invalid_digest'' m
        (anomaly (t \<noteq> T_request \<and> m_seq m = 0) ''zero_sequence'' m (check_sender t m e)))"

text \<open>The parts of \<^verbatim>\<open>_protocol_callback\<close>.\<close>

definition count_message :: "topic \<Rightarrow> pbft_message \<Rightarrow> int \<Rightarrow> evaluator \<Rightarrow> evaluator" where
  "count_message t m stamp e =
    (let view_key = nat_str (m_view m); name = topic_name t;
         e1 = increment_mapping (name @ ''_by_sender'') (int_str (m_sender m)) (edit (poke [''last'', name] (message_payload m stamp)) (bump name e))
     in if t \<in> {T_prepare, T_commit} then increment_mapping (name @ ''_by_view'') view_key e1
        else if t = T_pre_prepare then
          (if 0 < m_view m then bump ''recovery_pre_prepare'' (increment_mapping ''pre_prepare_by_view'' view_key e1)
           else increment_mapping ''pre_prepare_by_view'' view_key e1)
        else e1)"

definition note_first :: "topic \<Rightarrow> pbft_message \<Rightarrow> int \<Rightarrow> real \<Rightarrow> evaluator \<Rightarrow> evaluator" where
  "note_first t m stamp elapsed e =
     edit (setdefault [''first_stamp_ns'', topic_name t @ ''_by_sender'', int_str (m_sender m)] (JInt stamp))
       (edit (setdefault [''first_seen_sec'', topic_name t @ ''_by_sender'', int_str (m_sender m)] (JFloat elapsed)) e)"

definition note_exact :: "topic \<Rightarrow> pbft_message \<Rightarrow> evaluator \<Rightarrow> evaluator" where
  "note_exact t m e =
    (let exact = (topic_name t, m_sender m, m_recipient m, value_fingerprint m) in
     if exact \<in> ev_seen e
     then increment_mapping ''duplicate_by_sender'' (int_str (m_sender m))
       (increment_mapping ''duplicate_by_type'' (topic_name t) (bump ''duplicate_protocol_messages'' e))
     else e\<lparr>ev_seen := insert exact (ev_seen e)\<rparr>)"

definition note_value :: "topic \<Rightarrow> pbft_message \<Rightarrow> evaluator \<Rightarrow> evaluator" where
  "note_value t m e =
    (let name = topic_name t; key = int_str (m_sender m); sender_values = insert (value_fingerprint m) (ev_values e name key) in
     edit (poke [''counts'', ''unique_payload_count'', name, key] (JInt (int (card sender_values))))
       (e\<lparr>ev_values := (ev_values e)(name := (ev_values e name)(key := sender_values))\<rparr>))"

definition note_request :: "topic \<Rightarrow> pbft_message \<Rightarrow> evaluator \<Rightarrow> evaluator" where
  "note_request t m e =
    (if t = T_request \<and> peek [''request_reference''] (ev_state e) = Some JNone
     then edit (poke [''request_reference''] (JDict [(''request_id'', JStr (m_request_id m)), (''request_digest'', JStr (m_digest m)),
       (''emergency_stop'', JBool (m_stop m)), (''initial_view'', JInt (int (m_view m)))])) e else e)"

definition ev_protocol_callback :: "topic \<Rightarrow> pbft_message \<Rightarrow> int \<Rightarrow> (nat \<Rightarrow> real) \<Rightarrow> evaluator \<Rightarrow> evaluator" where
  "ev_protocol_callback t m stamp c e =
    record_event (c 1) (topic_name t) (message_payload m stamp)
      (record_protocol_anomalies t m (note_request t m (note_value t m (note_exact t m
        (note_first t m stamp (py_round 6 (c 0 - ev_start e)) (count_message t m stamp e))))))"

section \<open>Status reports\<close>

fun phase_name :: "phase \<Rightarrow> string" where
  "phase_name IDLE = ''IDLE''"
| "phase_name SILENT = ''SILENT''"
| "phase_name PRE_PREPARED = ''PRE_PREPARED''"
| "phase_name PREPARED = ''PREPARED''"
| "phase_name COMMITTED = ''COMMITTED''"
| "phase_name FAULTY_PRIMARY = ''FAULTY_PRIMARY''"
| "phase_name VIEW_CHANGE = ''VIEW_CHANGE''"
| "phase_name NEW_VIEW_PROPOSED = ''NEW_VIEW_PROPOSED''"
| "phase_name NEW_VIEW_ACCEPTED = ''NEW_VIEW_ACCEPTED''"

definition status_json :: "replica_status \<Rightarrow> string \<Rightarrow> jval" where
  "status_json m detail = JDict
    [(''node_id'', JInt (st_node_id m)), (''view'', JInt (int (st_view m))), (''sequence_number'', JInt (int (st_seq m))),
     (''request_id'', JStr (st_request_id m)), (''request_digest'', JStr (st_digest m)), (''phase'', JStr (phase_name (st_phase m))),
     (''prepare_count'', JInt (int (st_prepare_count m))), (''commit_count'', JInt (int (st_commit_count m))),
     (''prepared'', JBool (st_prepared m)), (''committed'', JBool (st_committed m)), (''emergency_stop'', JBool (st_stop m)),
     (''is_byzantine'', JBool (st_byzantine m)), (''detail'', JStr detail)]"

definition view_summary :: jval where
  "view_summary = JDict [(''replica_count'', JInt 0), (''prepared_count'', JInt 0), (''committed_count'', JInt 0), (''byzantine_count'', JInt 0)]"

definition count_status :: "jval \<Rightarrow> jval \<Rightarrow> jval" where
  "count_status item by_view =
    (let k = int_str (number_at [''view''] item) in
     add_at [k, ''byzantine_count''] (of_bool (flag_at [''is_byzantine''] item))
      (add_at [k, ''committed_count''] (of_bool (flag_at [''committed''] item))
       (add_at [k, ''prepared_count''] (of_bool (flag_at [''prepared''] item))
        (add_at [k, ''replica_count''] 1 (setdefault [k] view_summary by_view)))))"

definition text_at :: "string list \<Rightarrow> jval \<Rightarrow> string" where
  "text_at ks v = (case peek ks v of Some (JStr s) \<Rightarrow> s | _ \<Rightarrow> [])"

definition recompute_replica_summary :: "jval \<Rightarrow> jval" where
  "recompute_replica_summary v =
    (let statuses = (case peek [''replicas''] v of Some r \<Rightarrow> map snd (entries r) | None \<Rightarrow> []);
         total = (\<lambda>flag. JInt (sum_list (map (\<lambda>item. of_bool (flag_at [flag] item)) statuses)))
     in poke [''replica_summary''] (JDict
       [(''prepared_count'', total ''prepared''), (''committed_count'', total ''committed''), (''byzantine_count'', total ''is_byzantine''),
        (''by_view'', fold count_status statuses (JDict [])),
        (''phase_counts'', fold (\<lambda>item. add_at [text_at [''phase''] item] 1) statuses (JDict []))]) v)"

definition add_member :: "string \<Rightarrow> int \<Rightarrow> (string \<times> int set) list \<Rightarrow> (string \<times> int set) list" where
  "add_member k i d = dict_set k (insert i (case map_of d k of None \<Rightarrow> {} | Some S \<Rightarrow> S)) d"

definition members_json :: "(string \<times> int set) list \<Rightarrow> jval" where
  "members_json d = JDict (map (\<lambda>(k, S). (k, JList (map JInt (sorted_list_of_set S)))) d)"

definition note_detail :: "string \<Rightarrow> string \<Rightarrow> jval \<Rightarrow> jval" where
  "note_detail key detail v =
    (if detail = [] then v
     else
       let history = items_at [''replica_detail_history'', key] v in
       poke [''replica_detail_history'', key]
         (JList (if history = [] \<or> last history \<noteq> JStr detail then last_of 50 (history @ [JStr detail]) else history)) v)"

definition note_views :: "int \<Rightarrow> jval \<Rightarrow> jval" where
  "note_views n v =
    (let views = (case peek [''replicas''] v of Some r \<Rightarrow> map (\<lambda>kv. number_at [''view''] (snd kv)) (entries r) | None \<Rightarrow> []) in
     if views = [] then v
     else poke [''primary_id''] (JInt (Max (set views) mod n)) (poke [''current_view''] (JInt (Max (set views))) v))"

text \<open>\<^verbatim>\<open>current_view % replica_count\<close> raises when the scenario has no replicas.\<close>

definition ev_status_callback :: "replica_status \<Rightarrow> string \<Rightarrow> (nat \<Rightarrow> real) \<Rightarrow> evaluator \<Rightarrow> py_error + evaluator" where
  "ev_status_callback m detail c e =
    (let key = int_str (st_node_id m); view_key = nat_str (st_view m); status = status_json m detail;
         old = peek [''replicas'', key] (ev_state e);
         e1 = edit (note_detail key detail) (edit (poke [''replicas'', key] status) e);
         e2 = e1\<lparr>ev_prepared := (if st_prepared m then add_member view_key (st_node_id m) (ev_prepared e1) else ev_prepared e1),
           ev_committed := (if st_committed m then add_member view_key (st_node_id m) (ev_committed e1) else ev_committed e1)\<rparr>;
         e3 = edit (poke [''history'', ''committed_replicas_by_view''] (members_json (ev_committed e2)))
           (edit (poke [''history'', ''prepared_replicas_by_view''] (members_json (ev_prepared e2))) e2)
     in raise_if (ev_replica_count e = 0) ZeroDivisionError
       (let e4 = edit recompute_replica_summary (edit (note_views (ev_replica_count e)) e3) in
        Inr (if (case old of None \<Rightarrow> True | Some s \<Rightarrow> \<not> py_eq s status) then record_event (c 0) ''replica_status'' status e4 else e4)))"

section \<open>View changes, decisions and safety\<close>

definition view_change_json :: "view_change \<Rightarrow> int \<Rightarrow> jval" where
  "view_change_json m stamp = JDict
    [(''sender_id'', JInt (vc_sender m)), (''new_view'', JInt (int (vc_new_view m))),
     (''has_prepared_certificate'', JBool (vc_has_certificate m)), (''prepared_view'', JInt (int (vc_prepared_view m))),
     (''prepared_sequence_number'', JInt (int (vc_prepared_seq m))), (''request_id'', JStr (vc_request_id m)),
     (''request_digest'', JStr (vc_digest m)), (''emergency_stop'', JBool (vc_stop m)),
     (''prepare_senders'', JList (map JInt (vc_prepare_senders m))), (''stamp_ns'', JInt stamp)]"

definition ev_view_change_callback :: "view_change \<Rightarrow> int \<Rightarrow> (nat \<Rightarrow> real) \<Rightarrow> evaluator \<Rightarrow> evaluator" where
  "ev_view_change_callback m stamp c e =
    (let payload = view_change_json m stamp; view_key = nat_str (vc_new_view m);
         e1 = increment_mapping ''view_change_by_view'' view_key (edit (poke [''last'', ''view_change''] payload) (bump ''view_change'' e));
         e2 = (if vc_has_certificate m then bump ''view_change_with_prepared_certificate'' e1 else e1);
         ks = [''counts'', ''view_change_unique_senders_by_view'', view_key];
         e3 = edit (\<lambda>v. poke ks (JList (add_sorted (vc_sender m) (items_at ks v))) v) e2
     in record_event (c 0) ''view_change'' payload e3)"

definition new_view_json :: "new_view \<Rightarrow> int \<Rightarrow> jval" where
  "new_view_json m stamp = JDict
    [(''sender_id'', JInt (nv_sender m)), (''new_view'', JInt (int (nv_new_view m))),
     (''proof_senders'', JList (map JInt (sort (map vc_sender (nv_view_changes m))))),
     (''has_selected_request'', JBool (nv_has_selected m)), (''selected_from_prepared_certificate'', JBool (nv_from_prepared m)),
     (''selected_prepared_view'', JInt (int (nv_prepared_view m))), (''selected_sequence_number'', JInt (int (nv_seq m))),
     (''request_id'', JStr (nv_request_id m)), (''request_digest'', JStr (nv_digest m)), (''emergency_stop'', JBool (nv_stop m)),
     (''stamp_ns'', JInt stamp)]"

definition ev_new_view_callback :: "new_view \<Rightarrow> int \<Rightarrow> (nat \<Rightarrow> real) \<Rightarrow> evaluator \<Rightarrow> evaluator" where
  "ev_new_view_callback m stamp c e =
    record_event (c 0) ''new_view'' (new_view_json m stamp)
      (increment_mapping ''new_view_by_view'' (nat_str (nv_new_view m))
        (edit (poke [''last'', ''new_view''] (new_view_json m stamp)) (bump ''new_view'' e)))"

definition decision_json :: "pbft_decision \<Rightarrow> jval" where
  "decision_json m = JDict
    [(''view'', JInt (int (pd_view m))), (''sequence_number'', JInt (int (pd_seq m))), (''request_id'', JStr (pd_request_id m)),
     (''request_digest'', JStr (pd_digest m)), (''emergency_stop'', JBool (pd_stop m)), (''committed'', JBool (pd_committed m)),
     (''confirmation_count'', JInt (int (pd_confirmation_count m))), (''required_confirmations'', JInt (pd_required_confirmations m)),
     (''confirming_replicas'', JList (map JInt (sort (pd_confirming_replicas m)))), (''stamp_ns'', JInt (pd_stamp m))]"

definition ev_decision_callback :: "pbft_decision \<Rightarrow> (nat \<Rightarrow> real) \<Rightarrow> evaluator \<Rightarrow> evaluator" where
  "ev_decision_callback m c e = record_event (c 0) ''decision'' (decision_json m) (edit (poke [''decision''] (decision_json m)) e)"

definition safety_state_callback :: "string \<Rightarrow> (nat \<Rightarrow> real) \<Rightarrow> evaluator \<Rightarrow> evaluator" where
  "safety_state_callback s c e =
    (if peek [''safety'', ''state''] (ev_state e) = Some (JStr s) then e
     else record_event (c 0) ''safety_state'' (JDict [(''state'', JStr s)]) (edit (poke [''safety'', ''state''] (JStr s)) e))"

definition safety_output_callback :: "bool \<Rightarrow> (nat \<Rightarrow> real) \<Rightarrow> evaluator \<Rightarrow> evaluator" where
  "safety_output_callback b c e =
    (if peek [''safety'', ''emergency_stop''] (ev_state e) = Some (JBool b) then e
     else record_event (c 0) ''safety_output'' (JDict [(''emergency_stop'', JBool b)]) (edit (poke [''safety'', ''emergency_stop''] (JBool b)) e))"

section \<open>Evaluation\<close>

definition evaluate_assertion :: "py_floats \<Rightarrow> jval \<Rightarrow> jval \<Rightarrow> py_error + jval" where
  "evaluate_assertion F state a =
    bindE (evaluate_condition F a state) (\<lambda>r.
    bindE (jget a ''path'' (JStr ''assertion'')) (\<lambda>default_id.
    bindE (jget a ''id'' default_id) (\<lambda>i.
    bindE (jget a ''id'' (JStr ''Assertion'')) (\<lambda>default_label.
    bindE (jget a ''label'' default_label) (\<lambda>label.
    bindE (jget a ''path'' (JStr [])) (\<lambda>path.
    bindE (jget a ''required'' (JBool True)) (\<lambda>required.
    Inr (JDict [(''id'', i), (''label'', label), (''path'', path), (''operator'', JStr (cr_operator r)),
      (''expected'', cr_expected r), (''actual'', cr_actual r), (''passed'', JBool (cr_passed r)),
      (''required'', JBool (py_bool required))]))))))))"

definition evaluate_assertions :: "py_floats \<Rightarrow> evaluator \<Rightarrow> py_error + jval list" where
  "evaluate_assertions F e =
    bindE (bindE (jget (ev_scenario e) ''assertions'' (JList [])) py_list) (mapE (evaluate_assertion F (ev_state e)))"

definition write_snapshot :: "real \<Rightarrow> evaluator \<Rightarrow> evaluator" where
  "write_snapshot now e =
    (let e1 = edit (poke [''elapsed_sec''] (JFloat (py_round 3 (now - ev_start e)))) e in e1\<lparr>ev_snapshot := Some (ev_state e1)\<rparr>)"

definition ev_finish :: "py_floats \<Rightarrow> string \<Rightarrow> (nat \<Rightarrow> real) \<Rightarrow> evaluator \<Rightarrow> py_error + evaluator" where
  "ev_finish F terminal_reason c e =
    bindE (evaluate_assertions F e) (\<lambda>results.
    let passed = (terminal_reason = ''COMPLETED'' \<and> list_all (\<lambda>r. \<not> (flag_at [''required''] r \<and> \<not> flag_at [''passed''] r)) results);
        status = (if passed then ''PASS'' else if terminal_reason = ''TIMEOUT'' then ''TIMEOUT'' else ''FAIL'');
        e1 = edit (poke [''elapsed_sec''] (JFloat (py_round 3 (c 1 - ev_start e))))
          (edit (poke [''status''] (JStr status)) (edit (poke [''assertions''] (JList results)) e))
    in
    bindE (jat (ev_scenario e) ''id'') (\<lambda>i.
    bindE (jget (ev_scenario e) ''name'' i) (\<lambda>name.
    let doc = JDict [(''scenario_id'', i), (''scenario_name'', name), (''status'', JStr status), (''terminal_reason'', JStr terminal_reason),
          (''duration_sec'', JFloat (py_round 3 (c 1 - ev_start e))), (''assertions'', JList results), (''final_state'', ev_state e1),
          (''ros_domain_id'', ev_domain e)]
    in Inr ((write_snapshot (c 2) (e1\<lparr>ev_result := Some doc\<rparr>))\<lparr>ev_finished := True\<rparr>))))"

definition ev_evaluate :: "py_floats \<Rightarrow> (nat \<Rightarrow> real) \<Rightarrow> evaluator \<Rightarrow> py_error + evaluator" where
  "ev_evaluate F c e =
    (if ev_finished e then Inr e
     else
       let elapsed = py_round 3 (c 0 - ev_start e); e1 = edit (poke [''elapsed_sec''] (JFloat elapsed)) e in
       bindE (evaluate_assertions F e1) (\<lambda>results.
       let e2 = edit (poke [''assertions''] (JList results)) e1 in
       bindE (jget (ev_scenario e) ''complete_when'' (JDict [])) (\<lambda>complete_group.
       bindE (if py_bool complete_group then evaluate_group F complete_group (ev_state e2) else Inr False) (\<lambda>complete.
       if complete then ev_finish F ''COMPLETED'' c e2
       else if ev_timeout e \<le> elapsed then ev_finish F ''TIMEOUT'' c e2
       else Inr e2))))"

section \<open>The node\<close>

text \<open>The result is followed by \<^verbatim>\<open>rclpy.shutdown()\<close>: nothing is processed any more.\<close>

datatype ev_event =
    Ev_protocol topic pbft_message int "nat \<Rightarrow> real"
  | Ev_status replica_status string "nat \<Rightarrow> real"
  | Ev_view_change view_change int "nat \<Rightarrow> real"
  | Ev_new_view new_view int "nat \<Rightarrow> real"
  | Ev_decision pbft_decision "nat \<Rightarrow> real"
  | Ev_safety_state string "nat \<Rightarrow> real"
  | Ev_safety_output bool "nat \<Rightarrow> real"
  | Ev_evaluate "nat \<Rightarrow> real"
  | Ev_snapshot real

fun ev_callback :: "py_floats \<Rightarrow> ev_event \<Rightarrow> evaluator \<Rightarrow> py_error + evaluator" where
  "ev_callback F (Ev_protocol t m stamp c) e = Inr (ev_protocol_callback t m stamp c e)"
| "ev_callback F (Ev_status m detail c) e = ev_status_callback m detail c e"
| "ev_callback F (Ev_view_change m stamp c) e = Inr (ev_view_change_callback m stamp c e)"
| "ev_callback F (Ev_new_view m stamp c) e = Inr (ev_new_view_callback m stamp c e)"
| "ev_callback F (Ev_decision m c) e = Inr (ev_decision_callback m c e)"
| "ev_callback F (Ev_safety_state s c) e = Inr (safety_state_callback s c e)"
| "ev_callback F (Ev_safety_output b c) e = Inr (safety_output_callback b c e)"
| "ev_callback F (Ev_evaluate c) e = ev_evaluate F c e"
| "ev_callback F (Ev_snapshot now) e = Inr (write_snapshot now e)"

definition ev_step :: "py_floats \<Rightarrow> ev_event \<Rightarrow> evaluator \<Rightarrow> py_error + evaluator" where
  "ev_step F ev e = (if ev_finished e then Inr e else ev_callback F ev e)"

end
