(* ===== verification/CN_Verdict.thy ===== *)
theory CN_Verdict
  imports CN_Evaluator
begin

text \<open>
  The scenario evaluator on scenarios that the test console makes from a valid configuration: its state at the paths that the
  conditions read is a function of the events it has seen, no callback raises, and its result is the \<open>verdict\<close> on them.
\<close>

section \<open>What callbacks leave alone\<close>

definition obs :: "string list \<Rightarrow> evaluator \<Rightarrow> jval option" where
  "obs p e = peek p (ev_state e)"

named_theorems obs_simps \<open>the state at a path after an update elsewhere\<close>

lemma obs_if: "obs p (if b then e else e') = (if b then obs p e else obs p e')"
  by simp

lemma obs_edit [obs_simps]:
  "apart ks p \<Longrightarrow> obs p (edit (add_at ks k) e) = obs p e"
  "apart ks p \<Longrightarrow> obs p (edit (poke ks w) e) = obs p e"
  "apart ks p \<Longrightarrow> obs p (edit (setdefault ks w) e) = obs p e"
  "apart ks p \<Longrightarrow> obs p (edit (\<lambda>v. poke ks (g v) v) e) = obs p e"
  by (simp_all add: obs_def edit_def add_at_def setdefault_def peek_poke_apart)

lemma obs_fields [obs_simps]:
  "obs p (e\<lparr>ev_seen := x\<rparr>) = obs p e" "obs p (e\<lparr>ev_values := y\<rparr>) = obs p e" "obs p (e\<lparr>ev_log := l\<rparr>) = obs p e"
  "obs p (e\<lparr>ev_prepared := z\<rparr>) = obs p e" "obs p (e\<lparr>ev_committed := z\<rparr>) = obs p e" "obs p (e\<lparr>ev_snapshot := s\<rparr>) = obs p e"
  "obs p (e\<lparr>ev_result := s\<rparr>) = obs p e" "obs p (e\<lparr>ev_finished := b\<rparr>) = obs p e"
  by (simp_all add: obs_def)

lemma obs_counts [obs_simps]:
  "apart [''counts'', f, k] p \<Longrightarrow> obs p (increment_mapping f k e) = obs p e"
  "apart [''counts'', f] p \<Longrightarrow> obs p (bump f e) = obs p e"
  by (simp_all add: increment_mapping_def bump_def obs_simps)

lemma obs_record [obs_simps]: "apart [''timeline''] p \<Longrightarrow> obs p (record_event now t w e) = obs p e"
  by (simp add: record_event_def obs_simps Let_def)

lemma obs_snapshot [obs_simps]: "apart [''elapsed_sec''] p \<Longrightarrow> obs p (write_snapshot now e) = obs p e"
  by (simp add: write_snapshot_def Let_def obs_simps)

definition watched :: "string list list" where
  "watched = [[''decision''], [''safety'', ''state''], [''safety'', ''emergency_stop''], [''counts'', ''view_change''],
     [''counts'', ''new_view''], [''primary_id''], [''replicas''], [''counts'', ''prepare_by_sender''],
     [''counts'', ''commit_by_sender''], [''status'']]"

text \<open>The fields of \<^verbatim>\<open>counts\<close> that no watched path names.\<close>

definition other_counts :: "string list" where
  "other_counts = [''request'', ''pre_prepare'', ''prepare'', ''commit'', ''recovery_pre_prepare'', ''pre_prepare_by_view'', ''prepare_by_view'',
     ''commit_by_view'', ''view_change_by_view'', ''view_change_unique_senders_by_view'', ''view_change_with_prepared_certificate'',
     ''new_view_by_view'', ''request_by_sender'', ''pre_prepare_by_sender'', ''duplicate_protocol_messages'', ''duplicate_by_type'',
     ''duplicate_by_sender'', ''unique_payload_count'', ''invalid_digest'', ''invalid_digest_by_sender'', ''zero_sequence'',
     ''zero_sequence_by_sender'', ''unexpected_view'', ''unexpected_view_by_sender'', ''value_mismatch'', ''value_mismatch_by_sender'',
     ''invalid_sender'', ''invalid_sender_values'']"

definition other_keys :: "string list" where
  "other_keys = [''scenario_id'', ''elapsed_sec'', ''current_view'', ''request_reference'', ''replica_summary'', ''history'',
     ''replica_detail_history'', ''first_seen_sec'', ''first_stamp_ns'', ''last'', ''timeline'', ''assertions'']"

lemma watched_apart:
  assumes "p \<in> set watched"
  shows "f \<in> set other_counts \<Longrightarrow> apart (''counts'' # f # ks) p" "k \<in> set other_keys \<Longrightarrow> apart (k # ks) p"
proof -
  have "\<forall>p \<in> set watched. \<forall>f \<in> set other_counts. apart (''counts'' # f # ks) p" "\<forall>p \<in> set watched. \<forall>k \<in> set other_keys. apart (k # ks) p"
    unfolding watched_def other_counts_def other_keys_def by simp_all
  then show "f \<in> set other_counts \<Longrightarrow> apart (''counts'' # f # ks) p" "k \<in> set other_keys \<Longrightarrow> apart (k # ks) p"
    using assms by blast+
qed

lemmas other_defs = other_counts_def other_keys_def

lemma obs_anomaly:
  assumes "p \<in> set watched" "name \<in> {''zero_sequence'', ''invalid_digest'', ''unexpected_view'', ''value_mismatch''}"
  shows "obs p (anomaly b name m e) = obs p e"
proof -
  have "name \<in> set other_counts" "name @ ''_by_sender'' \<in> set other_counts" using assms(2) unfolding other_counts_def by auto
  then show ?thesis by (simp add: anomaly_def obs_counts watched_apart[OF assms(1)])
qed

lemma obs_anomalies:
  assumes "p \<in> set watched" shows "obs p (record_protocol_anomalies t m e) = obs p e"
proof -
  have "''invalid_sender'' \<in> set other_counts" "''invalid_sender_values'' \<in> set other_counts" by (simp_all add: other_counts_def)
  then have "obs p (check_sender t m e) = obs p e" for e
    by (simp add: check_sender_def obs_simps watched_apart[OF assms])
  moreover have "obs p (check_reference t m e) = obs p e" for e
    by (simp add: check_reference_def Let_def obs_anomaly[OF assms])
  ultimately show ?thesis by (simp add: record_protocol_anomalies_def obs_anomaly[OF assms])
qed

lemma obs_notes:
  assumes "p \<in> set watched"
  shows "obs p (note_first t m stamp x e) = obs p e" "obs p (note_exact t m e) = obs p e" "obs p (note_value t m e) = obs p e"
    "obs p (note_request t m e) = obs p e" "obs p (record_event now s w e) = obs p e"
proof -
  note W = watched_apart[OF assms]
  have "apart (''first_stamp_ns'' # ks) p" "apart (''first_seen_sec'' # ks) p" "apart [''request_reference''] p" "apart [''timeline''] p"
    "apart (''counts'' # ''duplicate_by_sender'' # ks) p" "apart (''counts'' # ''duplicate_by_type'' # ks) p"
    "apart (''counts'' # ''duplicate_protocol_messages'' # ks) p" "apart (''counts'' # ''unique_payload_count'' # ks) p" for ks
    by (rule W; simp add: other_defs)+
  note A = this
  show "obs p (note_first t m stamp x e) = obs p e" unfolding note_first_def by (simp only: obs_edit A)
  show "obs p (note_exact t m e) = obs p e" unfolding note_exact_def Let_def by (simp only: obs_if obs_counts obs_fields A if_cancel)
  show "obs p (note_value t m e) = obs p e" unfolding note_value_def Let_def by (simp only: obs_edit obs_fields A)
  show "obs p (note_request t m e) = obs p e" unfolding note_request_def by (simp only: obs_if obs_edit A if_cancel)
  show "obs p (record_event now s w e) = obs p e" by (simp only: obs_record A)
qed

text \<open>The mapping of the senders is the only watched place that a protocol message can change.\<close>

lemma obs_protocol:
  assumes "p \<in> set watched"
  shows "obs p (ev_protocol_callback t m stamp c e) = obs p (count_message t m stamp e)"
    "p \<noteq> [''counts'', topic_name t @ ''_by_sender''] \<Longrightarrow> obs p (count_message t m stamp e) = obs p e"
proof -
  note W = watched_apart[OF assms]
  show "obs p (ev_protocol_callback t m stamp c e) = obs p (count_message t m stamp e)"
    by (simp only: ev_protocol_callback_def obs_notes[OF assms] obs_anomalies[OF assms])
  have "topic_name t \<in> set other_counts" by (cases t) (simp_all add: other_counts_def)
  then have t: "apart (''counts'' # topic_name t # ks) p" for ks by (rule W(1))
  have l: "apart (''last'' # ks) p" "apart (''counts'' # ''pre_prepare_by_view'' # ks) p"
    "apart (''counts'' # ''recovery_pre_prepare'' # ks) p" "apart (''counts'' # ''prepare_by_view'' # ks) p" 
    "apart (''counts'' # ''commit_by_view'' # ks) p" for ks
    by (rule W; simp add: other_defs)+
  have "\<forall>p \<in> set watched. p \<noteq> [''counts'', topic_name t @ ''_by_sender''] \<longrightarrow> apart [''counts'', topic_name t @ ''_by_sender'', k] p" for k
    by (cases t) (simp_all add: watched_def)
  moreover assume "p \<noteq> [''counts'', topic_name t @ ''_by_sender'']"
  ultimately have s: "apart [''counts'', topic_name t @ ''_by_sender'', k] p" for k using assms by blast
  show "obs p (count_message t m stamp e) = obs p e"
    unfolding count_message_def Let_def by (cases t) (use l s t in \<open>simp_all add: obs_simps\<close>)
qed

section \<open>What the evaluator has seen\<close>

definition last_decision :: "ev_event list \<Rightarrow> pbft_decision option" where
  "last_decision es = fold (\<lambda>ev r. case ev of Ev_decision m c \<Rightarrow> Some m | _ \<Rightarrow> r) es None"

definition last_safety_state :: "ev_event list \<Rightarrow> string option" where
  "last_safety_state es = fold (\<lambda>ev r. case ev of Ev_safety_state s c \<Rightarrow> Some s | _ \<Rightarrow> r) es None"

definition last_output :: "ev_event list \<Rightarrow> bool option" where
  "last_output es = fold (\<lambda>ev r. case ev of Ev_safety_output b c \<Rightarrow> Some b | _ \<Rightarrow> r) es None"

definition view_changes_seen :: "ev_event list \<Rightarrow> int" where
  "view_changes_seen es = int (length (filter (\<lambda>ev. case ev of Ev_view_change m t c \<Rightarrow> True | _ \<Rightarrow> False) es))"

definition new_views_seen :: "ev_event list \<Rightarrow> int" where
  "new_views_seen es = int (length (filter (\<lambda>ev. case ev of Ev_new_view m t c \<Rightarrow> True | _ \<Rightarrow> False) es))"

definition latest_views :: "ev_event list \<Rightarrow> (string \<times> int) list" where
  "latest_views es = fold (\<lambda>ev d. case ev of Ev_status m t c \<Rightarrow> dict_set (int_str (st_node_id m)) (int (st_view m)) d | _ \<Rightarrow> d) es []"

definition primary_seen :: "int \<Rightarrow> ev_event list \<Rightarrow> int" where
  "primary_seen n es = (if latest_views es = [] then 0 else Max (snd ` set (latest_views es)) mod n)"

definition sent_by :: "topic \<Rightarrow> int \<Rightarrow> ev_event list \<Rightarrow> bool" where
  "sent_by t i es \<longleftrightarrow> (\<exists>ev \<in> set es. case ev of Ev_protocol t' m s c \<Rightarrow> t' = t \<and> m_sender m = i | _ \<Rightarrow> False)"

lemmas seen_defs = last_decision_def last_safety_state_def last_output_def view_changes_seen_def new_views_seen_def
  latest_views_def primary_seen_def sent_by_def

definition json_opt :: "('a \<Rightarrow> jval) \<Rightarrow> 'a option \<Rightarrow> jval" where
  "json_opt f x = (case x of None \<Rightarrow> JNone | Some y \<Rightarrow> f y)"

lemma json_opt_simps [simp]: "json_opt f None = JNone" "json_opt f (Some y) = f y"
  by (simp_all add: json_opt_def)

definition lists_senders :: "string \<Rightarrow> topic \<Rightarrow> ev_event list \<Rightarrow> evaluator \<Rightarrow> bool" where
  "lists_senders f t es e \<longleftrightarrow> (\<exists>d. obs [''counts'', f] e = Some (JDict d) \<and> (\<forall>i. map_of d (int_str i) \<in> {None, Some JNone} \<longleftrightarrow> \<not> sent_by t i es))"

definition lists_views :: "ev_event list \<Rightarrow> evaluator \<Rightarrow> bool" where
  "lists_views es e \<longleftrightarrow> (\<exists>d. obs [''replicas''] e = Some (JDict d) \<and> map (\<lambda>kv. (fst kv, number_at [''view''] (snd kv))) d = latest_views es)"

definition observed_facts :: "int \<Rightarrow> ev_event list \<Rightarrow> evaluator \<Rightarrow> bool" where
  "observed_facts n es e \<longleftrightarrow>
    obs [''decision''] e = Some (json_opt decision_json (last_decision es)) \<and>
    obs [''safety'', ''state''] e = Some (json_opt JStr (last_safety_state es)) \<and>
    obs [''safety'', ''emergency_stop''] e = Some (json_opt JBool (last_output es)) \<and>
    obs [''counts'', ''view_change''] e = Some (JInt (view_changes_seen es)) \<and>
    obs [''counts'', ''new_view''] e = Some (JInt (new_views_seen es)) \<and>
    obs [''primary_id''] e = Some (JInt (primary_seen n es)) \<and> lists_views es e \<and>
    lists_senders ''prepare_by_sender'' T_prepare es e \<and> lists_senders ''commit_by_sender'' T_commit es e \<and>
    obs [''status''] e = Some (JStr ''RUNNING'')"

text \<open>The facts depend on the watched paths only.\<close>

lemma observed_cong:
  assumes "\<And>p. p \<in> set watched \<Longrightarrow> obs p e' = obs p e"
  shows "observed_facts n es e' = observed_facts n es e"
  using assms by (simp add: observed_facts_def lists_views_def lists_senders_def watched_def)

lemma peek_poke_child: "peek ks v = Some (JDict d) \<Longrightarrow> peek ks (poke (ks @ [k]) w v) = Some (JDict (dict_set k w d))"
proof (induction ks arbitrary: v)
  case (Cons x ks)
  then obtain u where "map_of (entries v) x = Some u" "peek ks u = Some (JDict d)" by (auto simp: peek_entries split: option.splits)
  then show ?case using Cons.IH[of u] by (simp add: poke.simps)
qed (simp add: poke.simps)

lemma obs_same:
  "obs ks (edit (poke ks w) e) = Some w" "obs ks (edit (add_at ks k) e) = Some (JInt (number_at ks (ev_state e) + k))"
  "obs ks e = Some (JDict d) \<Longrightarrow> obs ks (edit (poke (ks @ [j]) w) e) = Some (JDict (dict_set j w d))"
  "obs ks e = Some (JDict d) \<Longrightarrow> obs ks (edit (add_at (ks @ [j]) k) e) = Some (JDict (dict_set j (JInt (number_at (ks @ [j]) (ev_state e) + k)) d))"
  by (simp_all add: obs_def edit_def add_at_def peek_poke_child)

lemma number_obs: "obs ks e = Some (JInt i) \<Longrightarrow> number_at ks (ev_state e) = i"
  by (simp add: obs_def number_at_def)

section \<open>Every callback\<close>

lemma observed_snapshot: "observed_facts n es e \<Longrightarrow> observed_facts n (es @ [Ev_snapshot now]) (write_snapshot now e)"
proof -
  have "obs p (write_snapshot now e) = obs p e" if "p \<in> set watched" for p
    by (intro obs_snapshot watched_apart(2)[OF that]) (simp add: other_keys_def)
  moreover assume "observed_facts n es e"
  ultimately have "observed_facts n es (write_snapshot now e)" using observed_cong[of "write_snapshot now e" e] by blast
  then show ?thesis by (simp add: observed_facts_def seen_defs lists_views_def lists_senders_def)
qed

lemma observed_decision: "observed_facts n es e \<Longrightarrow> observed_facts n (es @ [Ev_decision m c]) (ev_decision_callback m c e)"
  unfolding observed_facts_def lists_views_def lists_senders_def ev_decision_callback_def by (simp add: obs_simps obs_same seen_defs)

lemma observed_state: "observed_facts n es e \<Longrightarrow> observed_facts n (es @ [Ev_safety_state s c]) (safety_state_callback s c e)"
  unfolding observed_facts_def lists_views_def lists_senders_def safety_state_callback_def
  by (auto simp: obs_simps obs_same seen_defs obs_def[symmetric] json_opt_def split: option.splits)

lemma observed_output: "observed_facts n es e \<Longrightarrow> observed_facts n (es @ [Ev_safety_output b c]) (safety_output_callback b c e)"
  unfolding observed_facts_def lists_views_def lists_senders_def safety_output_callback_def
  by (auto simp: obs_simps obs_same seen_defs obs_def[symmetric] json_opt_def split: option.splits)

lemma observed_new_view: "observed_facts n es e \<Longrightarrow> observed_facts n (es @ [Ev_new_view m t c]) (ev_new_view_callback m t c e)"
  unfolding observed_facts_def lists_views_def lists_senders_def ev_new_view_callback_def
  by (simp add: obs_simps seen_defs) (simp add: bump_def obs_same number_obs obs_simps seen_defs)

lemma observed_view_change: "observed_facts n es e \<Longrightarrow> observed_facts n (es @ [Ev_view_change m t c]) (ev_view_change_callback m t c e)"
  unfolding observed_facts_def lists_views_def lists_senders_def ev_view_change_callback_def Let_def
  by (simp add: obs_simps obs_if seen_defs) (simp add: bump_def obs_same number_obs obs_simps seen_defs)

lemma count_message_senders:
  assumes "obs [''counts'', topic_name t @ ''_by_sender''] e = Some (JDict d)" "t \<in> {T_prepare, T_commit}"
  shows "\<exists>k. obs [''counts'', topic_name t @ ''_by_sender''] (count_message t m stamp e) = Some (JDict (dict_set (int_str (m_sender m)) (JInt k) d))"
proof -
  let ?p = "[''counts'', topic_name t @ ''_by_sender'']"
  let ?e = "edit (poke [''last'', topic_name t] (message_payload m stamp)) (bump (topic_name t) e)"
  have "obs ?p ?e = Some (JDict d)" using assms by (auto simp: obs_simps)
  from obs_same(4)[OF this, of "int_str (m_sender m)" 1]
  have "\<exists>k. obs ?p (increment_mapping (topic_name t @ ''_by_sender'') (int_str (m_sender m)) ?e) = Some (JDict (dict_set (int_str (m_sender m)) (JInt k) d))"
    by (auto simp: increment_mapping_def)
  then show ?thesis using assms(2) by (auto simp: count_message_def Let_def obs_simps)
qed

lemma lists_senders_protocol:
  assumes "lists_senders (topic_name t @ ''_by_sender'') t es e" "t \<in> {T_prepare, T_commit}"
  shows "lists_senders (topic_name t @ ''_by_sender'') t (es @ [Ev_protocol t m stamp c]) (ev_protocol_callback t m stamp c e)"
proof -
  obtain d where d: "obs [''counts'', topic_name t @ ''_by_sender''] e = Some (JDict d)" "\<forall>i. map_of d (int_str i) \<in> {None, Some JNone} \<longleftrightarrow> \<not> sent_by t i es"
    using assms(1) by (auto simp: lists_senders_def)
  obtain k where "obs [''counts'', topic_name t @ ''_by_sender''] (count_message t m stamp e) = Some (JDict (dict_set (int_str (m_sender m)) (JInt k) d))"
    using count_message_senders[OF d(1) assms(2)] by blast
  moreover have "[''counts'', topic_name t @ ''_by_sender''] \<in> set watched" using assms(2) by (auto simp: watched_def)
  ultimately have "obs [''counts'', topic_name t @ ''_by_sender''] (ev_protocol_callback t m stamp c e) = Some (JDict (dict_set (int_str (m_sender m)) (JInt k) d))"
    by (simp only: obs_protocol(1))
  moreover have "map_of (dict_set (int_str (m_sender m)) (JInt k) d) (int_str i) \<in> {None, Some JNone} \<longleftrightarrow> \<not> sent_by t i (es @ [Ev_protocol t m stamp c])" for i
    using d(2) int_str_inj[of i "m_sender m"] by (auto simp: sent_by_def)
  ultimately show ?thesis by (auto simp: lists_senders_def)
qed

lemma observed_protocol:
  assumes "observed_facts n es e"
  shows "observed_facts n (es @ [Ev_protocol t m stamp c]) (ev_protocol_callback t m stamp c e)"
proof -
  have o: "obs p (ev_protocol_callback t m stamp c e) = obs p e" if "p \<in> set watched" "p \<noteq> [''counts'', topic_name t @ ''_by_sender'']" for p
    using obs_protocol[OF that(1)] that(2) by simp
  have keep: "lists_senders f t' (es @ [Ev_protocol t m stamp c]) (ev_protocol_callback t m stamp c e)"
    if "t' \<noteq> t" "lists_senders f t' es e" "[''counts'', f] \<in> set watched" "f \<noteq> topic_name t @ ''_by_sender''" for f t'
    using that o[of "[''counts'', f]"] by (simp add: lists_senders_def sent_by_def)
  have "lists_senders ''prepare_by_sender'' T_prepare (es @ [Ev_protocol t m stamp c]) (ev_protocol_callback t m stamp c e)"
    using assms keep[of T_prepare "''prepare_by_sender''"] lists_senders_protocol[of T_prepare es e m stamp c]
    by (cases t) (simp_all add: observed_facts_def watched_def)
  moreover have "lists_senders ''commit_by_sender'' T_commit (es @ [Ev_protocol t m stamp c]) (ev_protocol_callback t m stamp c e)"
    using assms keep[of T_commit "''commit_by_sender''"] lists_senders_protocol[of T_commit es e m stamp c]
    by (cases t) (simp_all add: observed_facts_def watched_def)
  moreover have "obs p (ev_protocol_callback t m stamp c e) = obs p e"
    if "p \<in> {[''decision''], [''safety'', ''state''], [''safety'', ''emergency_stop''], [''counts'', ''view_change''],
     [''counts'', ''new_view''], [''primary_id''], [''replicas''], [''status'']}" for p
  proof (rule o)
    show "p \<in> set watched" using that by (auto simp: watched_def)
    show "p \<noteq> [''counts'', topic_name t @ ''_by_sender'']" using that by (cases t) auto
  qed
  ultimately show ?thesis using assms by (simp add: observed_facts_def lists_views_def seen_defs)
qed

lemma obs_replicas_after:
  assumes "obs [''replicas''] e = Some (JDict d)"
  shows "obs [''replicas''] (edit (note_detail key detail) (edit (poke [''replicas'', key] w) e)) = Some (JDict (dict_set key w d))"
proof -
  have "obs p (edit (note_detail key detail) e) = obs p e" if "apart [''replica_detail_history'', key] p" for p e
    using that by (simp add: obs_def edit_def note_detail_def Let_def peek_poke_apart)
  then show ?thesis using obs_same(3)[OF assms, of key w] by simp
qed

lemma map_dict_set: "map (\<lambda>kv. (fst kv, f (snd kv))) (dict_set k w d) = dict_set k (f w) (map (\<lambda>kv. (fst kv, f (snd kv))) d)"
  by (induction d) auto

lemma dict_set_nonempty [simp]: "dict_set k v d \<noteq> []"
  using keys_dict_set[of k v d] by auto

lemma observed_status:
  assumes "observed_facts n es e" "ev_replica_count e = n" "0 < n"
  shows "okE (observed_facts n (es @ [Ev_status m detail c])) (ev_status_callback m detail c e)"
proof -
  obtain d where d: "obs [''replicas''] e = Some (JDict d)" "map (\<lambda>kv. (fst kv, number_at [''view''] (snd kv))) d = latest_views es"
    using assms(1) by (auto simp: observed_facts_def lists_views_def)
  let ?key = "int_str (st_node_id m)" and ?w = "status_json m detail"
  define e1 where "e1 = edit (note_detail ?key detail) (edit (poke [''replicas'', ?key] ?w) e)"
  define e2 where "e2 = e1\<lparr>ev_prepared := (if st_prepared m then add_member (nat_str (st_view m)) (st_node_id m) (ev_prepared e1) else ev_prepared e1),
           ev_committed := (if st_committed m then add_member (nat_str (st_view m)) (st_node_id m) (ev_committed e1) else ev_committed e1)\<rparr>"
  define e3 where "e3 = edit (poke [''history'', ''committed_replicas_by_view''] (members_json (ev_committed e2)))
           (edit (poke [''history'', ''prepared_replicas_by_view''] (members_json (ev_prepared e2))) e2)"
  define e4 where "e4 = edit recompute_replica_summary (edit (note_views n) e3)"
  let ?d = "dict_set ?key ?w d"
  have r: "obs [''replicas''] e3 = Some (JDict ?d)"
    using obs_replicas_after[OF d(1), of ?key detail ?w] by (simp add: e3_def e2_def e1_def obs_simps)
  have detail: "obs p (edit (note_detail ?key detail) e) = obs p e" if "apart [''replica_detail_history'', ?key] p" for p e
    using that by (simp add: obs_def edit_def note_detail_def Let_def peek_poke_apart)
  have o3: "obs p e3 = obs p e" if "apart [''replica_detail_history'', ?key] p" "apart [''replicas'', ?key] p" "apart [''history'', ''committed_replicas_by_view''] p"
    "apart [''history'', ''prepared_replicas_by_view''] p" for p
    using that by (simp add: e3_def e2_def e1_def obs_simps detail)
  have views: "map (\<lambda>kv. (fst kv, number_at [''view''] (snd kv))) ?d = latest_views (es @ [Ev_status m detail c])"
    unfolding map_dict_set d(2) by (simp add: latest_views_def number_at_def status_json_def)
  have set: "set (map (\<lambda>kv. number_at [''view''] (snd kv)) ?d) = snd ` set (latest_views (es @ [Ev_status m detail c]))"
    unfolding views[symmetric] by force
  have ne: "latest_views (es @ [Ev_status m detail c]) \<noteq> []" unfolding views[symmetric] by simp
  have s4: "ev_state e4 = recompute_replica_summary (note_views n (ev_state e3))" by (simp add: e4_def edit_def)
  have nv: "note_views n (ev_state e3) = poke [''primary_id''] (JInt (primary_seen n (es @ [Ev_status m detail c])))
      (poke [''current_view''] (JInt (Max (snd ` set (latest_views (es @ [Ev_status m detail c]))))) (ev_state e3))"
    using r ne set by (simp add: note_views_def obs_def primary_seen_def Let_def)
  have "obs p e4 = peek p (note_views n (ev_state e3))" if "apart [''replica_summary''] p" for p
    using that by (simp add: obs_def s4 recompute_replica_summary_def Let_def peek_poke_apart)
  then have p4: "obs p e4 = obs p e3" if "apart [''replica_summary''] p" "apart [''primary_id''] p" "apart [''current_view''] p" for p
    using that by (simp add: nv peek_poke_apart obs_def)
  have "obs [''primary_id''] e4 = Some (JInt (primary_seen n (es @ [Ev_status m detail c])))"
    by (simp add: obs_def s4 recompute_replica_summary_def Let_def nv peek_poke_apart)
  then have o4: "observed_facts n (es @ [Ev_status m detail c]) e4"
    using assms(1) r views by (simp add: observed_facts_def lists_views_def lists_senders_def p4 o3 seen_defs(1-5,8))
  have "obs p (record_event x y z e4) = obs p e4" if "p \<in> set watched" for p x y z by (rule obs_notes(5)[OF that])
  then have "observed_facts n (es @ [Ev_status m detail c]) (record_event x y z e4)" for x y z using o4 observed_cong[of "record_event x y z e4" e4] by blast
  then show ?thesis using o4 assms(2,3) unfolding ev_status_callback_def Let_def e4_def e3_def e2_def e1_def by (simp add: raise_if_def)
qed

section \<open>Conditions on what was seen\<close>

definition met :: "py_floats \<Rightarrow> jval \<Rightarrow> jval \<Rightarrow> bool \<Rightarrow> bool" where
  "met F st a X \<longleftrightarrow> okE (\<lambda>r. cr_passed r = X) (evaluate_condition F a st)"

definition eq_at :: "jval \<Rightarrow> string \<Rightarrow> jval \<Rightarrow> bool" where
  "eq_at st path v = (case get_path st path of None \<Rightarrow> False | Some a \<Rightarrow> py_eq a v)"

lemma met_eq:
  "met F st (assertion i l path ''eq'' v) (eq_at st path v)" "met F st (cond path ''eq'' v) (eq_at st path v)"
  by (simp_all add: met_def evaluate_condition_def assertion_def cond_def py_str_def path_operator_def condition_passed_def eq_at_def
      split: option.split)

lemma met_gte:
  assumes "\<And>a. get_path st path = Some a \<Longrightarrow> \<exists>k. a = JInt k"
  shows "met F st (assertion i l path ''gte'' (JInt j)) (\<exists>k. get_path st path = Some (JInt k) \<and> j \<le> k)"
  using assms by (cases "get_path st path")
    (auto simp: met_def evaluate_condition_def assertion_def py_str_def path_operator_def condition_passed_def)

lemma met_absent: "met F st (absent_assertion i l path) (get_path st path = None \<or> get_path st path = Some JNone)"
  by (simp add: met_def evaluate_condition_def absent_assertion_def py_str_def path_operator_def condition_passed_def Let_def)

definition all_met :: "py_floats \<Rightarrow> jval \<Rightarrow> jval list \<Rightarrow> bool \<Rightarrow> bool" where
  "all_met F st as X \<longleftrightarrow>
     okE (\<lambda>rs. list_all (\<lambda>r. \<not> (flag_at [''required''] r \<and> \<not> flag_at [''passed''] r)) rs = X) (mapE (evaluate_assertion F st) as)"

text \<open>An assertion without the key \<^verbatim>\<open>required\<close> is required.\<close>

lemma met_assertion:
  assumes "met F st (JDict a) X" "map_of a ''required'' = None"
  shows "okE (\<lambda>r. (\<not> (flag_at [''required''] r \<and> \<not> flag_at [''passed''] r)) = X) (evaluate_assertion F st (JDict a))"
  using assms unfolding met_def evaluate_assertion_def okE_simps
  by (elim okE_mono) (simp add: flag_at_def)

lemma all_met_Nil: "all_met F st [] True"
  by (simp add: all_met_def)

lemma all_met_Cons:
  assumes "met F st (JDict a) A" "map_of a ''required'' = None" "all_met F st as B"
  shows "all_met F st (JDict a # as) (A \<and> B)"
  unfolding all_met_def mapE.simps okE_simps
  by (rule okE_mono[OF met_assertion[OF assms(1,2)]], rule okE_mono[OF assms(3)[unfolded all_met_def]]) simp

lemma all_met_append:
  assumes "all_met F st as A" "all_met F st bs B" shows "all_met F st (as @ bs) (A \<and> B)"
proof -
  have "mapE f (as @ bs) = bindE (mapE f as) (\<lambda>xs. bindE (mapE f bs) (\<lambda>ys. Inr (xs @ ys)))" for f :: "jval \<Rightarrow> py_error + jval"
  proof (induction as)
    case (Cons a as)
    then show ?case by (cases "f a"; cases "mapE f as"; cases "mapE f bs") simp_all
  qed (cases "mapE f bs"; simp)
  note app = this
  show ?thesis unfolding all_met_def app okE_simps
    by (rule okE_mono[OF assms(1)[unfolded all_met_def]], rule okE_mono[OF assms(2)[unfolded all_met_def]]) simp
qed

lemma all_met_concat: "(\<And>i. i \<in> set is \<Longrightarrow> all_met F st (f i) (P i)) \<Longrightarrow> all_met F st (concat (map f is)) (\<forall>i \<in> set is. P i)"
proof (induction "is")
  case (Cons i "is")
  then show ?case using all_met_append[of F st "f i" "P i" "concat (map f is)" "\<forall>i \<in> set is. P i"] by simp
qed (simp add: all_met_Nil)

lemma walk_obs: "obs ks e = Some w \<Longrightarrow> walk_path (ks @ js) (ev_state e) = walk_path js w"
  using walk_peek[of ks "ev_state e" w] by (simp add: obs_def walk_append)

lemma split_int: "split_dots (int_str i) = [int_str i]"
  using int_str_chars[of i] by (intro split_dots_plain) (auto simp: plain_key_def num_char_def)

lemma seen_paths:
  assumes "observed_facts n es e"
  shows "get_path (ev_state e) ''decision.committed'' = map_option (\<lambda>d. JBool (pd_committed d)) (last_decision es)"
    "get_path (ev_state e) ''decision.confirmation_count'' = map_option (\<lambda>d. JInt (int (pd_confirmation_count d))) (last_decision es)"
    "get_path (ev_state e) ''decision.view'' = map_option (\<lambda>d. JInt (int (pd_view d))) (last_decision es)"
    "get_path (ev_state e) ''safety.state'' = Some (json_opt JStr (last_safety_state es))"
    "get_path (ev_state e) ''safety.emergency_stop'' = Some (json_opt JBool (last_output es))"
    "get_path (ev_state e) ''counts.view_change'' = Some (JInt (view_changes_seen es))"
    "get_path (ev_state e) ''counts.new_view'' = Some (JInt (new_views_seen es))"
    "get_path (ev_state e) ''primary_id'' = Some (JInt (primary_seen n es))"
    "get_path (ev_state e) (''counts.prepare_by_sender.'' @ int_str i) = None \<or> get_path (ev_state e) (''counts.prepare_by_sender.'' @ int_str i) = Some JNone \<longleftrightarrow>
      \<not> sent_by T_prepare i es"
    "get_path (ev_state e) (''counts.commit_by_sender.'' @ int_str i) = None \<or> get_path (ev_state e) (''counts.commit_by_sender.'' @ int_str i) = Some JNone \<longleftrightarrow>
      \<not> sent_by T_commit i es"
proof -
  have D: "obs [''decision''] e = Some (json_opt decision_json (last_decision es))" using assms by (simp add: observed_facts_def)
  show "get_path (ev_state e) ''decision.committed'' = map_option (\<lambda>d. JBool (pd_committed d)) (last_decision es)"
    "get_path (ev_state e) ''decision.confirmation_count'' = map_option (\<lambda>d. JInt (int (pd_confirmation_count d))) (last_decision es)"
    "get_path (ev_state e) ''decision.view'' = map_option (\<lambda>d. JInt (int (pd_view d))) (last_decision es)"
    using walk_obs[OF D, of "[''committed'']"] walk_obs[OF D, of "[''confirmation_count'']"] walk_obs[OF D, of "[''view'']"]
    by (cases "last_decision es"; simp add: get_path_def decision_json_def)+
  show "get_path (ev_state e) ''safety.state'' = Some (json_opt JStr (last_safety_state es))"
    "get_path (ev_state e) ''safety.emergency_stop'' = Some (json_opt JBool (last_output es))"
    "get_path (ev_state e) ''counts.view_change'' = Some (JInt (view_changes_seen es))"
    "get_path (ev_state e) ''counts.new_view'' = Some (JInt (new_views_seen es))"
    "get_path (ev_state e) ''primary_id'' = Some (JInt (primary_seen n es))"
    using assms walk_obs[of "[''safety'', ''state'']" e _ "[]"] walk_obs[of "[''safety'', ''emergency_stop'']" e _ "[]"]
      walk_obs[of "[''counts'', ''view_change'']" e _ "[]"] walk_obs[of "[''counts'', ''new_view'']" e _ "[]"] walk_obs[of "[''primary_id'']" e _ "[]"]
    by (simp_all add: get_path_def observed_facts_def)
  obtain d where d: "obs [''counts'', ''prepare_by_sender''] e = Some (JDict d)" "map_of d (int_str i) \<in> {None, Some JNone} \<longleftrightarrow> \<not> sent_by T_prepare i es"
    using assms by (auto simp: observed_facts_def lists_senders_def)
  show "get_path (ev_state e) (''counts.prepare_by_sender.'' @ int_str i) = None \<or> get_path (ev_state e) (''counts.prepare_by_sender.'' @ int_str i) = Some JNone \<longleftrightarrow>
      \<not> sent_by T_prepare i es"
    using walk_obs[OF d(1), of "[int_str i]"] d(2) by (cases "map_of d (int_str i)") (simp_all add: get_path_def split_int)
  obtain d where d: "obs [''counts'', ''commit_by_sender''] e = Some (JDict d)" "map_of d (int_str i) \<in> {None, Some JNone} \<longleftrightarrow> \<not> sent_by T_commit i es"
    using assms by (auto simp: observed_facts_def lists_senders_def)
  show "get_path (ev_state e) (''counts.commit_by_sender.'' @ int_str i) = None \<or> get_path (ev_state e) (''counts.commit_by_sender.'' @ int_str i) = Some JNone \<longleftrightarrow>
      \<not> sent_by T_commit i es"
    using walk_obs[OF d(1), of "[int_str i]"] d(2) by (cases "map_of d (int_str i)") (simp_all add: get_path_def split_int)
qed

section \<open>The verdict\<close>

definition expected_view :: "console_config \<Rightarrow> string \<Rightarrow> int" where
  "expected_view c profile = (if profile = ''faulty_primary_recovery'' then cc_initial_view c + 1 else cc_initial_view c)"

definition completes :: "string \<Rightarrow> ev_event list \<Rightarrow> bool" where
  "completes profile es \<longleftrightarrow>
    (if profile = ''beyond_fault_bound_silent'' then last_safety_state es = Some ''FAIL_SAFE_STOP'' \<and> last_output es = Some True
     else (\<exists>d. last_decision es = Some d \<and> pd_committed d) \<and> last_safety_state es = Some ''CONFIRMED_STOP'')"

definition scenario_accepted :: "console_config \<Rightarrow> string \<Rightarrow> int list \<Rightarrow> ev_event list \<Rightarrow> bool" where
  "scenario_accepted c profile faulty es \<longleftrightarrow>
    (if profile = ''beyond_fault_bound_silent''
     then last_decision es = None \<and> last_safety_state es = Some ''FAIL_SAFE_STOP'' \<and> last_output es = Some True
     else (\<exists>d. last_decision es = Some d \<and> pd_committed d \<and> 2 * cc_f c + 1 \<le> int (pd_confirmation_count d) \<and>
         int (pd_view d) = expected_view c profile) \<and>
       last_safety_state es = Some ''CONFIRMED_STOP'' \<and> last_output es = Some True \<and>
       (profile = ''normal'' \<longrightarrow> view_changes_seen es = 0) \<and>
       (if profile = ''faulty_primary_recovery''
        then 2 * cc_f c + 1 \<le> view_changes_seen es \<and> 1 \<le> new_views_seen es \<and>
          primary_seen (cc_n c) es = expected_view c profile mod cc_n c
        else \<forall>i \<in> set faulty. \<not> sent_by T_prepare i es \<and> \<not> sent_by T_commit i es))"

lemma all_met_assertion:
  "met F st (assertion i l p op v) A \<Longrightarrow> all_met F st as B \<Longrightarrow> all_met F st (assertion i l p op v # as) (A \<and> B)"
  "met F st (absent_assertion i l p) A \<Longrightarrow> all_met F st as B \<Longrightarrow> all_met F st (absent_assertion i l p # as) (A \<and> B)"
  unfolding assertion_def absent_assertion_def by (erule all_met_Cons; simp)+

lemma all_met_if: "all_met F st as A \<Longrightarrow> all_met F st bs B \<Longrightarrow> all_met F st (if b then as else bs) (if b then A else B)"
  by simp

lemma seen_eq:
  assumes "observed_facts n es e"
  shows "eq_at (ev_state e) ''decision.committed'' (JBool True) \<longleftrightarrow> (\<exists>d. last_decision es = Some d \<and> pd_committed d)"
    "eq_at (ev_state e) ''decision.view'' (JInt j) \<longleftrightarrow> (\<exists>d. last_decision es = Some d \<and> int (pd_view d) = j)"
    "eq_at (ev_state e) ''safety.state'' (JStr s) \<longleftrightarrow> last_safety_state es = Some s"
    "eq_at (ev_state e) ''safety.emergency_stop'' (JBool True) \<longleftrightarrow> last_output es = Some True"
    "eq_at (ev_state e) ''counts.view_change'' (JInt 0) \<longleftrightarrow> view_changes_seen es = 0"
    "eq_at (ev_state e) ''primary_id'' (JInt j) \<longleftrightarrow> primary_seen n es = j"
  unfolding eq_at_def seen_paths[OF assms]
  by (cases "last_decision es"; cases "last_safety_state es"; cases "last_output es"; auto)+

lemma success_met:
  assumes "observed_facts (cc_n c) es e" "profile \<noteq> ''beyond_fault_bound_silent''"
  shows "all_met F (ev_state e) (success_assertions c profile faulty (expected_view c profile)) (scenario_accepted c profile faulty es)"
proof -
  let ?st = "ev_state e" and ?q = "2 * cc_f c + 1" and ?v = "expected_view c profile"
  note P = seen_paths[OF assms(1)] and E = seen_eq[OF assms(1)]
  have gte: "met F ?st (assertion i l ''decision.confirmation_count'' ''gte'' (JInt ?q)) (\<exists>d. last_decision es = Some d \<and> ?q \<le> int (pd_confirmation_count d))"
    "met F ?st (assertion i l ''counts.view_change'' ''gte'' (JInt ?q)) (?q \<le> view_changes_seen es)"
    "met F ?st (assertion i l ''counts.new_view'' ''gte'' (JInt 1)) (1 \<le> new_views_seen es)" for i l
    using met_gte[of ?st "''decision.confirmation_count''" F i l ?q] met_gte[of ?st "''counts.view_change''" F i l ?q]
      met_gte[of ?st "''counts.new_view''" F i l 1] unfolding P by (cases "last_decision es"; simp)+
  note eq = met_eq(1)[of F ?st]
  have common: "all_met F ?st (common_success_assertions c ?v) (eq_at ?st ''decision.committed'' (JBool True) \<and>
      (\<exists>d. last_decision es = Some d \<and> ?q \<le> int (pd_confirmation_count d)) \<and> eq_at ?st ''decision.view'' (JInt ?v) \<and>
      eq_at ?st ''safety.state'' (JStr ''CONFIRMED_STOP'') \<and> eq_at ?st ''safety.emergency_stop'' (JBool True) \<and> True)"
    unfolding common_success_assertions_def by (intro all_met_assertion all_met_Nil eq gte)
  have recovery: "all_met F ?st (recovery_assertions c ?v)
      (?q \<le> view_changes_seen es \<and> 1 \<le> new_views_seen es \<and> eq_at ?st ''primary_id'' (JInt (?v mod cc_n c)) \<and> True)"
    unfolding recovery_assertions_def by (intro all_met_assertion all_met_Nil eq gte)
  have normal: "all_met F ?st [assertion i l ''counts.view_change'' ''eq'' (JInt 0)] (eq_at ?st ''counts.view_change'' (JInt 0) \<and> True)" for i l
    by (intro all_met_assertion all_met_Nil eq)
  have "all_met F ?st (silent_assertions i) (\<not> sent_by T_prepare i es \<and> \<not> sent_by T_commit i es \<and> True)" for i
    unfolding silent_assertions_def P(9,10)[symmetric] by (intro all_met_assertion all_met_Nil met_absent)
  then have silent: "all_met F ?st (concat (map silent_assertions faulty)) (\<forall>i \<in> set faulty. \<not> sent_by T_prepare i es \<and> \<not> sent_by T_commit i es)"
    using all_met_concat[of faulty F ?st silent_assertions] by simp
  have three: "(\<exists>d. L = Some d \<and> A d \<and> B d \<and> C d) \<longleftrightarrow> (\<exists>d. L = Some d \<and> A d) \<and> (\<exists>d. L = Some d \<and> B d) \<and> (\<exists>d. L = Some d \<and> C d)"
    for L :: "pbft_decision option" and A B C by auto
  have cond_then: "(if b then X \<and> True else True) \<longleftrightarrow> (b \<longrightarrow> X)" for b X by auto
  have acc: "scenario_accepted c profile faulty es \<longleftrightarrow> (eq_at ?st ''decision.committed'' (JBool True) \<and>
      (\<exists>d. last_decision es = Some d \<and> ?q \<le> int (pd_confirmation_count d)) \<and> eq_at ?st ''decision.view'' (JInt ?v) \<and>
      eq_at ?st ''safety.state'' (JStr ''CONFIRMED_STOP'') \<and> eq_at ?st ''safety.emergency_stop'' (JBool True) \<and> True) \<and>
      (if profile = ''normal'' then eq_at ?st ''counts.view_change'' (JInt 0) \<and> True else True) \<and>
      (if profile = ''faulty_primary_recovery'' then ?q \<le> view_changes_seen es \<and> 1 \<le> new_views_seen es \<and>
         eq_at ?st ''primary_id'' (JInt (?v mod cc_n c)) \<and> True
       else \<forall>i \<in> set faulty. \<not> sent_by T_prepare i es \<and> \<not> sent_by T_commit i es)"
    unfolding scenario_accepted_def E if_not_P[OF assms(2)] three cond_then by (simp only: simp_thms conj_assoc)
  show ?thesis unfolding acc success_assertions_def
    by (intro all_met_append all_met_if common normal recovery silent all_met_Nil)
qed

lemma fail_safe_met:
  assumes "observed_facts n es e"
  shows "all_met F (ev_state e) fail_safe_assertions (scenario_accepted c ''beyond_fault_bound_silent'' faulty es)"
proof -
  have "get_path (ev_state e) ''decision.committed'' = None \<or> get_path (ev_state e) ''decision.committed'' = Some JNone \<longleftrightarrow> last_decision es = None"
    unfolding seen_paths[OF assms] by (cases "last_decision es") auto
  then have "met F (ev_state e) (absent_assertion i l ''decision.committed'') (last_decision es = None)" for i l
    using met_absent[of F "ev_state e" i l "''decision.committed''"] by simp
  then have "all_met F (ev_state e) fail_safe_assertions (last_decision es = None \<and> eq_at (ev_state e) ''safety.state'' (JStr ''FAIL_SAFE_STOP'') \<and>
      eq_at (ev_state e) ''safety.emergency_stop'' (JBool True) \<and> True)"
    unfolding fail_safe_assertions_def by (intro all_met_assertion all_met_Nil met_eq)
  then show ?thesis by (simp add: scenario_accepted_def seen_eq[OF assms])
qed

lemma group_met:
  assumes "observed_facts n es e"
  shows "evaluate_group F (if profile = ''beyond_fault_bound_silent'' then fail_safe_group else success_group) (ev_state e) = Inr (completes profile es)"
proof -
  have two: "evaluate_group F (JDict [(''mode'', JStr ''all''), (''conditions'', JList [cond p ''eq'' v, cond q ''eq'' w])]) st = Inr (eq_at st p v \<and> eq_at st q w)"
    for p q v w st
    using met_eq(2)[of F st p v] met_eq(2)[of F st q w] by (auto simp: evaluate_group_def met_def okE_iff py_str_def)
  show ?thesis unfolding success_group_def fail_safe_group_def by (simp add: two completes_def seen_eq[OF assms])
qed

section \<open>Runs\<close>

definition static :: "evaluator \<Rightarrow> jval \<times> int \<times> real \<times> real \<times> bool" where
  "static e = (ev_scenario e, ev_replica_count e, ev_timeout e, ev_start e, ev_finished e)"

named_theorems static_simps \<open>updates that keep the configuration of the evaluator\<close>

lemma static_basic [static_simps]:
  "static (edit f e) = static e" "static (e\<lparr>ev_seen := x\<rparr>) = static e" "static (e\<lparr>ev_values := y\<rparr>) = static e"
  "static (e\<lparr>ev_log := l\<rparr>) = static e" "static (e\<lparr>ev_prepared := z\<rparr>) = static e" "static (e\<lparr>ev_committed := z\<rparr>) = static e"
  "static (e\<lparr>ev_snapshot := s\<rparr>) = static e"
  by (simp_all add: static_def edit_def)

lemma static_counts [static_simps]:
  "static (bump f e) = static e" "static (increment_mapping f k e) = static e" "static (record_event now t w e) = static e"
  "static (write_snapshot now e) = static e"
  by (simp_all add: bump_def increment_mapping_def record_event_def write_snapshot_def Let_def static_simps)

lemma static_protocol [static_simps]: "static (ev_protocol_callback t m stamp c e) = static e"
proof -
  have "static (anomaly b s m e) = static e" "static (check_sender t m e) = static e" "static (note_first t m stamp x e) = static e"
    "static (note_exact t m e) = static e" "static (note_value t m e) = static e" "static (note_request t m e) = static e" for b s x e
    by (simp_all add: anomaly_def check_sender_def note_first_def note_exact_def note_value_def note_request_def Let_def static_simps)
  moreover have "static (count_message t m stamp e) = static e" by (cases t) (simp_all add: count_message_def Let_def static_simps)
  ultimately show ?thesis
    by (simp add: ev_protocol_callback_def record_protocol_anomalies_def check_reference_def Let_def static_simps)
qed

lemma static_callbacks [static_simps]:
  "static (ev_view_change_callback vc t c e) = static e" "static (ev_new_view_callback nv t c e) = static e"
  "static (ev_decision_callback d c e) = static e" "static (safety_state_callback s c e) = static e" "static (safety_output_callback b c e) = static e"
  by (simp_all add: ev_view_change_callback_def ev_new_view_callback_def ev_decision_callback_def safety_state_callback_def
      safety_output_callback_def Let_def static_simps)

lemma static_status: "ev_status_callback m detail c e = Inr e' \<Longrightarrow> static e' = static e"
  by (auto simp: ev_status_callback_def raise_if_def Let_def static_simps split: if_splits)

text \<open>The evaluator until its verdict: it runs the scenario \<open>rt\<close> and has seen \<open>es\<close>.\<close>

definition watching :: "(string \<times> jval) list \<Rightarrow> int \<Rightarrow> real \<Rightarrow> real \<Rightarrow> ev_event list \<Rightarrow> evaluator \<Rightarrow> bool" where
  "watching rt n timeout start es e \<longleftrightarrow> static e = (JDict rt, n, timeout, start, False) \<and> observed_facts n es e"

lemma watching_step:
  assumes "watching rt n timeout start es e" "0 < n" "\<And>c. ev \<noteq> Ev_evaluate c"
  shows "okE (watching rt n timeout start (es @ [ev])) (ev_step F ev e)"
proof -
  have s: "static e = (JDict rt, n, timeout, start, False)" and o: "observed_facts n es e" using assms(1) by (auto simp: watching_def)
  then have st: "\<not> ev_finished e" "ev_replica_count e = n" by (simp_all add: static_def)
  show ?thesis
  proof (cases ev)
    case (Ev_status m detail c)
    then show ?thesis using observed_status[OF o st(2) assms(2), of m detail c] static_status[of m detail c e] s st(1)
      by (auto simp: ev_step_def okE_iff watching_def)
  qed (use s o st assms(3) in \<open>simp_all add: ev_step_def watching_def static_simps observed_protocol observed_view_change observed_new_view
    observed_decision observed_state observed_output observed_snapshot\<close>)
qed

definition result_status :: "evaluator \<Rightarrow> jval option" where
  "result_status e = (case ev_result e of None \<Rightarrow> None | Some doc \<Rightarrow> peek [''status''] doc)"

lemma result_kept: "ev_result (edit f e) = ev_result e" "ev_result (write_snapshot now e) = ev_result e"
  by (simp_all add: edit_def write_snapshot_def Let_def)

lemma finish_status:
  fixes reason :: string
  assumes "static e = (JDict rt, n, timeout, start, False)" "map_of rt ''assertions'' = Some (JList as)" "map_of rt ''id'' = Some i"
    and "all_met F (ev_state e) as A"
  defines "status \<equiv> (if reason = ''COMPLETED'' \<and> A then ''PASS'' else if reason = ''TIMEOUT'' then ''TIMEOUT'' else ''FAIL'')"
  shows "okE (\<lambda>e'. ev_finished e' \<and> obs [''status''] e' = Some (JStr status) \<and> result_status e' = Some (JStr status)) (ev_finish F reason c e)"
proof -
  have sc: "ev_scenario e = JDict rt" using assms(1) by (simp add: static_def)
  have *: "okE (\<lambda>rs. list_all (\<lambda>r. \<not> (flag_at [''required''] r \<and> \<not> flag_at [''passed''] r)) rs = A) (evaluate_assertions F e)"
    using assms(4) by (simp add: all_met_def evaluate_assertions_def sc assms(2))
  show ?thesis unfolding ev_finish_def okE_simps sc jat.simps jget.simps assms(3) option.case
    by (rule okE_mono[OF *]) (simp add: Let_def obs_simps obs_same status_def result_status_def result_kept)
qed

lemma evaluate_verdict:
  fixes c :: "nat \<Rightarrow> real"
  assumes w: "watching rt n timeout start es e" and rt: "map_of rt ''assertions'' = Some (JList as)" "map_of rt ''id'' = Some i"
      "map_of rt ''complete_when'' = Some g" "py_bool g"
    and met: "\<And>e. observed_facts n es e \<Longrightarrow> all_met F (ev_state e) as A" "\<And>e. observed_facts n es e \<Longrightarrow> evaluate_group F g (ev_state e) = Inr C"
  defines "late \<equiv> timeout \<le> py_round 3 (c 0 - start)"
  defines "status \<equiv> (if C then if A then ''PASS'' else ''FAIL'' else ''TIMEOUT'')"
  shows "okE (\<lambda>e'. if C \<or> late then ev_finished e' \<and> obs [''status''] e' = Some (JStr status) \<and> result_status e' = Some (JStr status)
    else watching rt n timeout start es e') (ev_step F (Ev_evaluate c) e)"
proof -
  have s: "static e = (JDict rt, n, timeout, start, False)" and o: "observed_facts n es e" using w by (auto simp: watching_def)
  then have st: "\<not> ev_finished e" "ev_start e = start" "ev_timeout e = timeout" "ev_scenario e = JDict rt" by (simp_all add: static_def)
  define e1 where "e1 = edit (poke [''elapsed_sec''] (JFloat (py_round 3 (c 0 - start)))) e"
  have "''elapsed_sec'' \<in> set other_keys" "''assertions'' \<in> set other_keys" by (simp_all add: other_keys_def)
  then have "obs p (edit (poke [''elapsed_sec''] x) e) = obs p e" "obs p (edit (poke [''assertions''] x) e) = obs p e" if "p \<in> set watched" for p x e
    using obs_edit(2) watched_apart(2)[OF that] by blast+
  then have keep: "observed_facts n es (edit (poke [''elapsed_sec''] x) e) = observed_facts n es e" "observed_facts n es (edit (poke [''assertions''] x) e) = observed_facts n es e" for x e
    using observed_cong by blast+
  have o1: "observed_facts n es e1" "static e1 = static e" by (simp_all add: e1_def keep o static_simps)
  have "okE (\<lambda>rs. True) (evaluate_assertions F e1)"
    using okE_mono[OF met(1)[OF o1(1), unfolded all_met_def]] o1(2) by (simp add: evaluate_assertions_def st static_def rt(1))
  then obtain rs where rs: "evaluate_assertions F e1 = Inr rs" by (auto simp: okE_iff)
  define e2 where "e2 = edit (poke [''assertions''] (JList rs)) e1"
  have o2: "observed_facts n es e2" "static e2 = (JDict rt, n, timeout, start, False)" by (simp_all add: e2_def keep o1 s static_simps)
  have "ev_step F (Ev_evaluate c) e = (if C then ev_finish F ''COMPLETED'' c e2 else if late then ev_finish F ''TIMEOUT'' c e2 else Inr e2)"
    using rs met(2)[OF o2(1)] rt(3,4) st by (simp add: ev_step_def ev_evaluate_def Let_def e1_def[symmetric] e2_def[symmetric] late_def)
  then show ?thesis using finish_status[OF o2(2) rt(1,2) met(1)[OF o2(1)], of "''COMPLETED''" c] finish_status[OF o2(2) rt(1,2) met(1)[OF o2(1)], of "''TIMEOUT''" c]
      o2 by (cases A) (simp_all add: status_def watching_def)
qed

text \<open>The specification of the verdict: what the ticks decide from the events seen before them.\<close>

fun verdict :: "console_config \<Rightarrow> string \<Rightarrow> int list \<Rightarrow> real \<Rightarrow> real \<Rightarrow> ev_event list \<Rightarrow> ev_event list \<Rightarrow> string" where
  "verdict c profile faulty timeout start seen [] = ''RUNNING''"
| "verdict c profile faulty timeout start seen (Ev_evaluate k # es) =
     (if completes profile seen then if scenario_accepted c profile faulty seen then ''PASS'' else ''FAIL''
      else if timeout \<le> py_round 3 (k 0 - start) then ''TIMEOUT''
      else verdict c profile faulty timeout start seen es)"
| "verdict c profile faulty timeout start seen (ev # es) = verdict c profile faulty timeout start (seen @ [ev]) es"

lemma finished_stays: "ev_finished e \<Longrightarrow> foldE (ev_step F) es e = Inr e"
  by (induction es) (simp_all add: ev_step_def)

definition console_scenario :: "console_config \<Rightarrow> string \<Rightarrow> int list \<Rightarrow> (string \<times> jval) list \<Rightarrow> bool" where
  "console_scenario c profile faulty rt \<longleftrightarrow> map_of rt ''id'' \<noteq> None \<and> map_of rt ''replica_count'' = Some (JInt (cc_n c)) \<and>
     (\<exists>t. map_of rt ''timeout_sec'' = Some (JFloat t)) \<and>
     map_of rt ''complete_when'' = Some (if profile = ''beyond_fault_bound_silent'' then fail_safe_group else success_group) \<and>
     map_of rt ''assertions'' = Some (JList (if profile = ''beyond_fault_bound_silent'' then fail_safe_assertions
       else success_assertions c profile faulty (expected_view c profile)))"

lemma tick_verdict:
  assumes "console_scenario c profile faulty rt" "watching rt (cc_n c) timeout start seen e"
  defines "C \<equiv> completes profile seen"
  shows "okE (\<lambda>e'. if C \<or> timeout \<le> py_round 3 (k 0 - start)
      then ev_finished e' \<and> obs [''status''] e' = Some (JStr (if C then if scenario_accepted c profile faulty seen then ''PASS'' else ''FAIL'' else ''TIMEOUT'')) \<and>
        result_status e' = Some (JStr (if C then if scenario_accepted c profile faulty seen then ''PASS'' else ''FAIL'' else ''TIMEOUT''))
      else watching rt (cc_n c) timeout start seen e') (ev_step F (Ev_evaluate k) e)"
proof -
  obtain i where i: "map_of rt ''id'' = Some i" using assms(1) by (auto simp: console_scenario_def)
  have met: "all_met F (ev_state e) (if profile = ''beyond_fault_bound_silent'' then fail_safe_assertions
        else success_assertions c profile faulty (expected_view c profile)) (scenario_accepted c profile faulty seen)" if "observed_facts (cc_n c) seen e" for e
    using success_met[OF that] fail_safe_met[OF that] by auto
  show ?thesis unfolding C_def
    by (rule evaluate_verdict[OF assms(2) _ i _ _ met group_met])
      (use assms(1) in \<open>simp_all add: console_scenario_def success_group_def fail_safe_group_def\<close>)
qed

text \<open>The evaluator of such a scenario never raises.\<close>

definition console_inv :: "console_config \<Rightarrow> string \<Rightarrow> int list \<Rightarrow> (string \<times> jval) list \<Rightarrow> real \<Rightarrow> real \<Rightarrow> evaluator \<Rightarrow> bool" where
  "console_inv c profile faulty rt timeout start e \<longleftrightarrow> console_scenario c profile faulty rt \<and> 0 < cc_n c \<and>
     (ev_finished e \<or> (\<exists>seen. watching rt (cc_n c) timeout start seen e))"

interpretation console: machine "ev_step F" "console_inv c profile faulty rt timeout start" for F c profile faulty rt timeout start
proof
  fix e ev assume inv: "console_inv c profile faulty rt timeout start e"
  show "\<exists>e'. ev_step F ev e = Inr e' \<and> console_inv c profile faulty rt timeout start e'"
  proof (cases "ev_finished e")
    case False
    then obtain seen where w: "watching rt (cc_n c) timeout start seen e" using inv by (auto simp: console_inv_def)
    have "okE (console_inv c profile faulty rt timeout start) (ev_step F ev e)"
    proof (cases "\<exists>k. ev = Ev_evaluate k")
      case True
      then obtain k where k: "ev = Ev_evaluate k" by blast
      have sc: "console_scenario c profile faulty rt" "0 < cc_n c" using inv by (simp_all add: console_inv_def)
      show ?thesis unfolding k using sc by (intro okE_mono[OF tick_verdict[OF sc(1) w]]) (auto simp: console_inv_def split: if_splits)
    next
      case False
      then show ?thesis using inv by (intro okE_mono[OF watching_step[OF w]]) (auto simp: console_inv_def)
    qed
    then show ?thesis by (simp add: okE_iff)
  qed (use inv in \<open>simp add: ev_step_def\<close>)
qed

lemma evaluator_runs:
  assumes "console_scenario c profile faulty rt" "0 < cc_n c" "watching rt (cc_n c) timeout start seen e"
  shows "foldE (ev_step F) es e = Inr e' \<Longrightarrow> (let v = verdict c profile faulty timeout start seen es in
     obs [''status''] e' = Some (JStr v) \<and> (v \<noteq> ''RUNNING'' \<longrightarrow> ev_finished e' \<and> result_status e' = Some (JStr v)))"
  using assms(3)
proof (induction es arbitrary: seen e)
  case (Cons ev es)
  obtain e1 where e1: "ev_step F ev e = Inr e1" "foldE (ev_step F) es e1 = Inr e'" using Cons.prems(1) by (auto simp: bindE_eq_Inr)
  show ?case
  proof (cases "\<exists>k. ev = Ev_evaluate k")
    case True
    then obtain k where k: "ev = Ev_evaluate k" by blast
    have r: "if completes profile seen \<or> timeout \<le> py_round 3 (k 0 - start) then ev_finished e1 \<and>
          obs [''status''] e1 = Some (JStr (if completes profile seen then if scenario_accepted c profile faulty seen then ''PASS'' else ''FAIL'' else ''TIMEOUT'')) \<and>
          result_status e1 = Some (JStr (if completes profile seen then if scenario_accepted c profile faulty seen then ''PASS'' else ''FAIL'' else ''TIMEOUT''))
        else watching rt (cc_n c) timeout start seen e1"
      using tick_verdict[OF assms(1) Cons.prems(2), of k F] e1(1) k by simp
    show ?thesis
    proof (cases "completes profile seen \<or> timeout \<le> py_round 3 (k 0 - start)")
      case True
      then have "e' = e1" using e1(2) r finished_stays[of e1 F es] by simp
      then show ?thesis using True r k by (auto simp: Let_def)
    next
      case False
      then show ?thesis using e1(2) r k Cons.IH[of e1 seen] by simp
    qed
  next
    case False
    then have "watching rt (cc_n c) timeout start (seen @ [ev]) e1"
      using watching_step[OF Cons.prems(2) assms(2), of ev F] e1(1) by simp
    moreover have "verdict c profile faulty timeout start seen (ev # es) = verdict c profile faulty timeout start (seen @ [ev]) es"
      using False by (cases ev) auto
    ultimately show ?thesis using Cons.IH[OF e1(2), of "seen @ [ev]"] by simp
  qed
qed (simp add: watching_def observed_facts_def)

lemma init_watching:
  assumes "init_evaluator F (JDict rt) domain k = Inr e" "console_scenario c profile faulty rt"
  shows "watching rt (cc_n c) (ev_timeout e) (k 0) [] e"
proof -
  let ?s = "initial_ev_state (the (map_of rt ''id''))"
  obtain i t where e: "e = record_event (k 1) ''evaluator_started'' (JDict [(''scenario_id'', i), (''timeout_sec'', JFloat t), (''ros_domain_id'', domain)])
      \<lparr>ev_scenario = JDict rt, ev_replica_count = cc_n c, ev_timeout = t, ev_start = k 0, ev_finished = False, ev_seen = {},
       ev_values = (\<lambda>_ _. {}), ev_prepared = [], ev_committed = [], ev_state = initial_ev_state i, ev_domain = domain,
       ev_log = [], ev_result = None, ev_snapshot = None\<rparr>"
    using assms by (auto simp: init_evaluator_def console_scenario_def bindE_eq_Inr)
  have "static e = (JDict rt, cc_n c, t, k 0, False)" unfolding e static_simps by (simp add: static_def)
  moreover have "observed_facts (cc_n c) [] e"
    unfolding e observed_facts_def lists_views_def lists_senders_def
    by (simp add: obs_simps) (simp add: obs_def initial_ev_state_def initial_counts_def by_sender_keys_def seen_defs)
  ultimately show ?thesis by (simp add: watching_def static_def)
qed

section \<open>Scenarios of the console\<close>

lemma runtime_distinct: "distinct (map fst (runtime_entries c profile faulty path request_id t))"
  by (simp add: runtime_entries_def)

lemma materialized:
  assumes c: "read_configuration F (JDict (deep_merge default_configuration raw)) = Inr c" "configuration_errors c = []"
    and d: "map_of d ''execution_mode'' = Some (JStr ''configurable'')" "map_of d ''fault_profile'' = Some (JStr profile)"
    and m: "materialize_scenario F (JDict d) (con_validate_configuration F raw) path = Inr (runtime, cluster)"
  shows "\<exists>faulty rt. fault_profile c profile = Inr faulty \<and> runtime = JDict rt \<and> console_scenario c profile faulty rt"
proof -
  have v: "con_validate_configuration F raw = \<lparr>va_valid = True, va_errors = [], va_warnings = configuration_warnings c,
      va_configuration = normalized c, va_derived = derived_json c\<rparr>"
    using c by (simp add: con_validate_configuration_def)
  have "py_strip (cc_primary_policy c) = cc_primary_policy c" using c(2) unfolding no_errors_iff by (simp add: py_strip_def is_space_def)
  then have r: "read_configuration F (normalized c) = Inr c" by (rule read_normalized)
  define d2 where "d2 = set_entries [(''system_configuration'', normalized c), (''derived_configuration'', derived_json c)] d"
  have d2: "map_of d2 k = map_of d k" if "k \<notin> {''system_configuration'', ''derived_configuration''}" for k
    using that by (simp add: d2_def map_of_set_entries)
  obtain faulty i t where f: "fault_profile c profile = Inr faulty" "map_of d ''id'' = Some i"
      "runtime = JDict (set_entries (runtime_entries c profile faulty path (''web-'' @ py_str F i @ ''-n'' @ int_str (cc_n c) @ ''-f'' @ int_str (cc_f c)) t) d2)"
    using m d r unfolding materialize_scenario_def v
    by (auto simp: bindE_eq_Inr raise_if_def d2_def[symmetric] d2 LEGACY_EXECUTION_MODE_def py_str_def split: if_splits option.splits)
  have "map_of (set_entries (runtime_entries c profile faulty path (''web-'' @ py_str F i @ ''-n'' @ int_str (cc_n c) @ ''-f'' @ int_str (cc_f c)) t) d2) k =
      (case map_of (runtime_entries c profile faulty path (''web-'' @ py_str F i @ ''-n'' @ int_str (cc_n c) @ ''-f'' @ int_str (cc_f c)) t) k of
        None \<Rightarrow> map_of d2 k | Some v \<Rightarrow> Some v)" for k
    by (rule map_of_set_entries[OF runtime_distinct])
  then have "console_scenario c profile faulty (set_entries (runtime_entries c profile faulty path (''web-'' @ py_str F i @ ''-n'' @ int_str (cc_n c) @ ''-f'' @ int_str (cc_f c)) t) d2)"
    using f(2) by (simp add: console_scenario_def runtime_entries_def d2 expected_view_def)
  then show ?thesis using f(1,3) by blast
qed


end
