(* ===== verification/CN_Properties.thy ===== *)
theory CN_Properties
  imports CN_Verdict
begin

text \<open>The property of the test console and the scenario evaluator, with its witness.\<close>

text \<open>C31. (\<^verbatim>\<open>scenario_evaluator.py\<close>, \<^verbatim>\<open>test_console/conditions.py\<close>, \<^verbatim>\<open>test_console/configuration.py\<close>) The scenario evaluator computes
  its verdict exactly. Let a scenario be made by the console from a valid configuration. For every sequence of messages and
  timer ticks, and whatever the messages say, the evaluator raises no exception, and its status and result file are the \<open>verdict\<close>: nothing
  until the first tick at which the scenario is complete or out of time; then PASS, if the last decision has \<open>2 f + 1\<close> confirmations in the
  expected view, the supervisor confirmed the stop, its output is on and the profile's conditions on view changes and silent
  replicas hold for the messages before that tick (or, beyond the fault bound, if no decision came and the supervisor stopped); FAIL,
  if not; and TIMEOUT, if it was not complete.\<close>

theorem evaluator_verdict:
  assumes "read_configuration F (JDict (deep_merge default_configuration raw)) = Inr c" "configuration_errors c = []"
    and "map_of d ''execution_mode'' = Some (JStr ''configurable'')" "map_of d ''fault_profile'' = Some (JStr profile)"
    and "materialize_scenario F (JDict d) (con_validate_configuration F raw) path = Inr (runtime, cluster)"
    and "init_evaluator F runtime domain k = Inr e0"
  shows "\<exists>faulty e. fault_profile c profile = Inr faulty \<and> foldE (ev_step F) es e0 = Inr e \<and>
    (let v = verdict c profile faulty (ev_timeout e0) (k 0) [] es in
     peek [''status''] (ev_state e) = Some (JStr v) \<and> (v \<noteq> ''RUNNING'' \<longrightarrow> ev_finished e \<and> result_status e = Some (JStr v)))"
proof -
  obtain faulty rt where f: "fault_profile c profile = Inr faulty" "runtime = JDict rt" "console_scenario c profile faulty rt"
    using materialized[OF assms(1-5)] by blast
  have n: "0 < cc_n c" using assms(2) by (simp add: no_errors_iff)
  note w = init_watching[OF assms(6)[unfolded f(2)] f(3)]
  then have "console_inv c profile faulty rt (ev_timeout e0) (k 0) e0" using f(3) n by (auto simp: console_inv_def)
  then obtain e where e: "foldE (ev_step F) es e0 = Inr e" using console.run_keeps[of c profile faulty rt "ev_timeout e0" "k 0" e0 F es] by blast
  from evaluator_runs[OF f(3) n w e] show ?thesis using f(1) e by (auto simp: obs_def)
qed

definition any_floats :: py_floats where
  "any_floats = \<lparr>fl_str = (\<lambda>_. ''0.0''), fl_parse = (\<lambda>_. None)\<rparr>"

definition con_scenario :: "(string \<times> jval) list" where
  "con_scenario = [(''id'', JStr ''web''), (''execution_mode'', JStr ''configurable''), (''fault_profile'', JStr ''normal'')]"

definition con_decision :: pbft_decision where
  "con_decision = \<lparr>pd_stamp = 0, pd_view = 0, pd_seq = 1, pd_request_id = ''web'', pd_digest = ''d'', pd_stop = True, pd_committed = True,
     pd_confirmation_count = 3, pd_required_confirmations = 3, pd_confirming_replicas = [0, 1, 2]\<rparr>"

definition con_seen :: "nat \<Rightarrow> ev_event list" where
  "con_seen q = [Ev_decision (con_decision\<lparr>pd_confirmation_count := q\<rparr>) (\<lambda>_. 1), Ev_safety_state ''CONFIRMED_STOP'' (\<lambda>_. 1),
     Ev_safety_output True (\<lambda>_. 1), Ev_evaluate (\<lambda>_. 1)]"

theorem evaluator_verdict_witness:
  "\<exists>c runtime cluster e0 e e'. read_configuration any_floats (JDict (deep_merge default_configuration [])) = Inr c \<and>
    materialize_scenario any_floats (JDict con_scenario) (con_validate_configuration any_floats []) ''c.yaml'' = Inr (runtime, cluster) \<and>
    init_evaluator any_floats runtime JNone (\<lambda>_. 0) = Inr e0 \<and> foldE (ev_step any_floats) (con_seen 3) e0 = Inr e \<and>
    peek [''status''] (ev_state e) = Some (JStr ''PASS'') \<and> foldE (ev_step any_floats) (con_seen 2) e0 = Inr e' \<and>
    peek [''status''] (ev_state e') = Some (JStr ''FAIL'')"
proof -
  let ?F = any_floats
  obtain c where c: "read_configuration ?F (JDict (deep_merge default_configuration [])) = Inr c" and cc: "cc_n c = 4" "cc_f c = 1"
      "cc_initial_view c = 0" "configuration_errors c = []"
    by (simp add: read_configuration_def default_configuration_def jat2_def py_str_def configuration_errors_def py_strip_def is_space_def)
  have v: "con_validate_configuration ?F [] = \<lparr>va_valid = True, va_errors = [], va_warnings = configuration_warnings c,
      va_configuration = normalized c, va_derived = derived_json c\<rparr>"
    using c cc(4) by (simp add: con_validate_configuration_def)
  have r: "read_configuration ?F (normalized c) = Inr c"
    using cc(4) unfolding no_errors_iff by (intro read_normalized) (simp add: py_strip_def is_space_def)
  have "\<exists>runtime cluster. materialize_scenario ?F (JDict con_scenario) (con_validate_configuration ?F []) ''c.yaml'' = Inr (runtime, cluster)"
    using r cc unfolding v materialize_scenario_def
    by (simp add: scenario_compatibility_def con_scenario_def set_entries_def LEGACY_EXECUTION_MODE_def CONFIGURABLE_EXECUTION_MODE_def
      raise_if_def fault_profile_def py_str_def jat2_def normalized_def system_json_def Let_def)
  then obtain runtime cluster where m: "materialize_scenario ?F (JDict con_scenario) (con_validate_configuration ?F []) ''c.yaml'' = Inr (runtime, cluster)"
    by blast
  have d: "map_of con_scenario ''execution_mode'' = Some (JStr ''configurable'')" "map_of con_scenario ''fault_profile'' = Some (JStr ''normal'')"
    by (simp_all add: con_scenario_def)
  obtain faulty rt where rt: "fault_profile c ''normal'' = Inr faulty" "runtime = JDict rt" "console_scenario c ''normal'' faulty rt"
    using materialized[OF c cc(4) d m] by blast
  then obtain e0 where e0: "init_evaluator ?F runtime JNone (\<lambda>_. 0) = Inr e0"
    by (auto simp: init_evaluator_def console_scenario_def)
  note V = evaluator_verdict[OF c cc(4) d m e0]
  have acc: "verdict c ''normal'' [] t 0 [] (con_seen q) = (if 3 \<le> q then ''PASS'' else ''FAIL'')" for t q
    using cc by (simp add: con_seen_def completes_def scenario_accepted_def seen_defs(1-5) expected_view_def con_decision_def)
  show ?thesis using c m e0 V[of "con_seen 3"] V[of "con_seen 2"] unfolding Let_def acc
    by (auto simp: fault_profile_def acc)
qed

end
