(* ===== verification/PM_Monitor.thy ===== *)
theory PM_Monitor
  imports CN_Value PBFT_Monitor
begin

text \<open>
  The performance monitor of the PBFT project (\<^verbatim>\<open>performance_monitor.py\<close>): a node that observes all topics, measures every request and
  writes one row for it. A \<^verbatim>\<open>RequestMeasurement\<close> is an object that a list, a dictionary and an attribute share; here the
  list is the store, and the dictionary and the attribute hold positions in it. Readings of the clock (in nanoseconds), the text of
  the date and the random run id are arguments, as are the stamps of messages. The written files are fields: the cells of the CSV
  file, the rows of the JSON Lines file and the lines of the Markdown file; reading back a CSV file gives the cells that were
  written.
\<close>

section \<open>Measurements\<close>

record measurement =
  rq_run_id :: string
  rq_scenario_label :: string
  rq_request_id :: string
  rq_digest :: string
  rq_emergency_stop :: bool
  rq_replica_count :: int
  rq_max_faulty :: int
  rq_initial_view :: nat
  rq_faulty_nodes :: string
  rq_faulty_behaviors :: string
  rq_started_at :: string
  first_arrival_ns :: "string \<rightharpoonup> int"
  first_source_stamp_ns :: "string \<rightharpoonup> int"
  rq_counts :: "string \<Rightarrow> nat"
  unique_senders :: "string \<Rightarrow> int set"
  views_seen :: "nat set"
  seen_fingerprints :: "(string \<times> int \<times> int \<times> nat \<times> nat \<times> string \<times> string \<times> bool) set"
  decision_view :: "nat option"
  rq_sequence_number :: "nat option"
  decision_committed :: "bool option"
  terminal_safety_state :: string
  completed_at :: string
  rq_result :: string
  completion_arrival_ns :: "int option"
  finalized :: bool

definition note_event :: "string \<Rightarrow> int \<Rightarrow> int \<Rightarrow> measurement \<Rightarrow> measurement" where
  "note_event name arrival source r =
    r\<lparr>rq_counts := (rq_counts r)(name := rq_counts r name + 1),
      first_arrival_ns := (if first_arrival_ns r name = None then (first_arrival_ns r)(name \<mapsto> arrival) else first_arrival_ns r),
      first_source_stamp_ns := (if 0 < source \<and> first_source_stamp_ns r name = None then (first_source_stamp_ns r)(name \<mapsto> source)
        else first_source_stamp_ns r)\<rparr>"

definition see_view :: "nat \<Rightarrow> measurement \<Rightarrow> measurement" where
  "see_view v r = r\<lparr>views_seen := insert v (views_seen r)\<rparr>"

definition add_sender :: "string \<Rightarrow> int \<Rightarrow> measurement \<Rightarrow> measurement" where
  "add_sender name i r = r\<lparr>unique_senders := (unique_senders r)(name := insert i (unique_senders r name))\<rparr>"

section \<open>Node\<close>

record pm_params =
  pm_replica_count :: int
  pm_max_faulty :: int
  pm_scenario_label :: string
  pm_faulty_nodes :: string
  pm_faulty_behaviors :: string
  measurement_timeout_sec :: real
  finalize_delay_sec :: real
  request_id_filter :: string
  truncate_output_on_start :: bool

record perf_monitor =
  pm_par :: pm_params
  all_measurements :: "measurement list"
  active_by_request_id :: "(string \<times> nat) list"
  current_measurement :: "nat option"
  csv_file :: "string list list"
  jsonl_file :: "(string \<times> jval) list list"
  markdown_file :: "string list"

definition pm_validate_parameters :: "pm_params \<Rightarrow> py_error + unit" where
  "pm_validate_parameters p =
    raise_if (pm_replica_count p \<le> 0) ValueError
    (raise_if (pm_max_faulty p < 0) ValueError
    (raise_if (measurement_timeout_sec p \<le> 0) ValueError
    (raise_if (finalize_delay_sec p < 0) ValueError (Inr ()))))"

text \<open>The start of the node; the files are those that an earlier run left behind.\<close>

definition init_perf :: "pm_params \<Rightarrow> string list list \<Rightarrow> (string \<times> jval) list list \<Rightarrow> string list \<Rightarrow> py_error + perf_monitor" where
  "init_perf p csv jsonl md =
    (let q = p\<lparr>request_id_filter := py_strip (request_id_filter p)\<rparr>; clear = truncate_output_on_start p in
     bindE (pm_validate_parameters q) (\<lambda>_.
     Inr \<lparr>pm_par = q, all_measurements = [], active_by_request_id = [], current_measurement = None,
       csv_file = (if clear then [] else csv), jsonl_file = (if clear then [] else jsonl), markdown_file = (if clear then [] else md)\<rparr>))"

definition meas :: "perf_monitor \<Rightarrow> nat \<Rightarrow> measurement" where
  "meas s k = all_measurements s ! k"

definition upd_meas :: "nat \<Rightarrow> (measurement \<Rightarrow> measurement) \<Rightarrow> perf_monitor \<Rightarrow> perf_monitor" where
  "upd_meas k f s = s\<lparr>all_measurements := (all_measurements s)[k := f (meas s k)]\<rparr>"

section \<open>Finding the measurement of a message\<close>

definition start_or_get_measurement :: "pbft_message \<Rightarrow> string \<Rightarrow> string \<Rightarrow> perf_monitor \<Rightarrow> nat option \<times> perf_monitor" where
  "start_or_get_measurement m run_id utc s =
    (let request_id = py_strip (m_request_id m); p = pm_par s in
     if request_id = [] then (None, s)
     else if request_id_filter p \<noteq> [] \<and> request_id \<noteq> request_id_filter p then (None, s)
     else case map_of (active_by_request_id s) request_id of
       Some k \<Rightarrow> (Some k, s)
     | None \<Rightarrow>
         let r = \<lparr>rq_run_id = run_id, rq_scenario_label = pm_scenario_label p, rq_request_id = request_id, rq_digest = m_digest m,
               rq_emergency_stop = m_stop m, rq_replica_count = pm_replica_count p, rq_max_faulty = pm_max_faulty p,
               rq_initial_view = m_view m, rq_faulty_nodes = pm_faulty_nodes p, rq_faulty_behaviors = pm_faulty_behaviors p,
               rq_started_at = utc, first_arrival_ns = Map.empty, first_source_stamp_ns = Map.empty, rq_counts = (\<lambda>_. 0),
               unique_senders = (\<lambda>_. {}), views_seen = {m_view m}, seen_fingerprints = {}, decision_view = None,
               rq_sequence_number = None, decision_committed = None, terminal_safety_state = [], completed_at = [],
               rq_result = ''RUNNING'', completion_arrival_ns = None, finalized = False\<rparr>;
             k = length (all_measurements s)
         in (Some k, s\<lparr>all_measurements := all_measurements s @ [r],
               active_by_request_id := dict_set request_id k (active_by_request_id s), current_measurement := Some k\<rparr>))"

definition find_measurement :: "string \<Rightarrow> perf_monitor \<Rightarrow> nat option" where
  "find_measurement request_id s =
    (let normalized = py_strip request_id in
     if normalized \<noteq> [] then map_of (active_by_request_id s) normalized
     else case filter (\<lambda>k. \<not> finalized (meas s k)) (map snd (active_by_request_id s)) of
       [k] \<Rightarrow> Some k
     | _ \<Rightarrow> (case current_measurement s of Some k \<Rightarrow> if finalized (meas s k) then None else Some k | None \<Rightarrow> None))"

definition is_stale :: "measurement \<Rightarrow> int \<Rightarrow> bool" where
  "is_stale r source =
    (let request_stamp = (case first_source_stamp_ns r ''request'' of None \<Rightarrow> 0 | Some t \<Rightarrow> t) in
     0 < source \<and> 0 < request_stamp \<and> source < request_stamp)"

text \<open>The common frame of the callbacks: a message without a measurement and a stale one are ignored.\<close>

definition on_measurement :: "nat option \<Rightarrow> int \<Rightarrow> (measurement \<Rightarrow> measurement) \<Rightarrow> perf_monitor \<Rightarrow> perf_monitor" where
  "on_measurement k source f s = (case k of
     None \<Rightarrow> s
   | Some k \<Rightarrow> if is_stale (meas s k) source then s else upd_meas k f s)"

section \<open>Callbacks\<close>

datatype pm_topic = P_request | P_pre_prepare | P_prepare | P_commit

fun pm_name :: "pm_topic \<Rightarrow> string" where
  "pm_name P_request = ''request''"
| "pm_name P_pre_prepare = ''pre_prepare''"
| "pm_name P_prepare = ''prepare''"
| "pm_name P_commit = ''commit''"

definition note_copy :: "string \<times> int \<times> int \<times> nat \<times> nat \<times> string \<times> string \<times> bool \<Rightarrow> measurement \<Rightarrow> measurement" where
  "note_copy fingerprint r =
    (if fingerprint \<in> seen_fingerprints r
     then r\<lparr>rq_counts := (rq_counts r)(''duplicate_protocol'' := rq_counts r ''duplicate_protocol'' + 1)\<rparr>
     else r\<lparr>seen_fingerprints := insert fingerprint (seen_fingerprints r)\<rparr>)"

definition measure_protocol :: "pm_topic \<Rightarrow> pbft_message \<Rightarrow> int \<Rightarrow> int \<Rightarrow> measurement \<Rightarrow> measurement" where
  "measure_protocol t m source now r =
    (let name = pm_name t;
         r1 = see_view (m_view m) (note_event name now source r);
         fingerprint = (name, m_sender m, m_recipient m, m_view m, m_seq m, m_request_id m, m_digest m, m_stop m);
         r2 = note_copy fingerprint r1;
         r3 = (if t \<in> {P_prepare, P_commit} then add_sender name (m_sender m) r2 else r2)
     in if t = P_pre_prepare \<and> rq_initial_view r3 < m_view m then note_event ''recovery_pre_prepare'' now source r3 else r3)"

definition pm_protocol_callback :: "pm_topic \<Rightarrow> pbft_message \<Rightarrow> int \<Rightarrow> int \<Rightarrow> string \<Rightarrow> string \<Rightarrow> perf_monitor \<Rightarrow> perf_monitor" where
  "pm_protocol_callback t m source now run_id utc s =
    (if t = P_request then
       (case start_or_get_measurement m run_id utc s of
          (None, s1) \<Rightarrow> s1
        | (Some k, s1) \<Rightarrow> upd_meas k (measure_protocol t m source now) s1)
     else on_measurement (find_measurement (m_request_id m) s) source (measure_protocol t m source now) s)"

definition pm_status_callback :: "replica_status \<Rightarrow> int \<Rightarrow> int \<Rightarrow> perf_monitor \<Rightarrow> perf_monitor" where
  "pm_status_callback m source now s = on_measurement (find_measurement (st_request_id m) s) source
     (\<lambda>r. let r1 = see_view (st_view m) (note_event ''status'' now source r);
              r2 = (if st_prepared m then note_event ''prepared_status'' now source r1 else r1)
          in if st_committed m then note_event ''committed_status'' now source r2 else r2) s"

definition pm_view_change_callback :: "view_change \<Rightarrow> int \<Rightarrow> int \<Rightarrow> perf_monitor \<Rightarrow> perf_monitor" where
  "pm_view_change_callback m source now s = on_measurement (find_measurement (vc_request_id m) s) source
     (\<lambda>r. see_view (vc_new_view m) (add_sender ''view_change'' (vc_sender m) (note_event ''view_change'' now source r))) s"

definition pm_new_view_callback :: "new_view \<Rightarrow> int \<Rightarrow> int \<Rightarrow> perf_monitor \<Rightarrow> perf_monitor" where
  "pm_new_view_callback m source now s = on_measurement (find_measurement (nv_request_id m) s) source
     (\<lambda>r. see_view (nv_new_view m) (note_event ''new_view'' now source r)) s"

definition pm_decision_callback :: "pbft_decision \<Rightarrow> int \<Rightarrow> perf_monitor \<Rightarrow> perf_monitor" where
  "pm_decision_callback m now s = on_measurement (find_measurement (pd_request_id m) s) (pd_stamp m)
     (\<lambda>r. (see_view (pd_view m) ((note_event ''decision'' now (pd_stamp m) r)\<lparr>decision_view := Some (pd_view m),
         rq_sequence_number := Some (pd_seq m), decision_committed := Some (pd_committed m)\<rparr>))
       \<lparr>rq_result := (if pd_committed m then ''COMMITTED'' else ''DECISION_NOT_COMMITTED''), completion_arrival_ns := Some now\<rparr>) s"

definition TERMINAL_SAFETY_STATES :: "string list" where
  "TERMINAL_SAFETY_STATES = [''CONFIRMED_STOP'', ''CONFIRMED_RELEASE'', ''FAIL_SAFE_STOP'']"

definition pm_safety_state_callback :: "string \<Rightarrow> int \<Rightarrow> perf_monitor \<Rightarrow> perf_monitor" where
  "pm_safety_state_callback d now s = on_measurement (find_measurement [] s) 0
     (\<lambda>r. let r1 = note_event ''safety_state'' now 0 r in
       if d \<notin> set TERMINAL_SAFETY_STATES then r1
       else
         let r2 = (if terminal_safety_state r1 = [] then note_event ''terminal_safety_state'' now 0 (r1\<lparr>terminal_safety_state := d\<rparr>) else r1)
         in if d = ''FAIL_SAFE_STOP'' \<and> decision_committed r2 \<noteq> Some True
            then r2\<lparr>rq_result := ''FAIL_SAFE_STOP'', completion_arrival_ns := Some now\<rparr> else r2) s"

definition pm_safety_output_callback :: "int \<Rightarrow> perf_monitor \<Rightarrow> perf_monitor" where
  "pm_safety_output_callback now s = on_measurement (find_measurement [] s) 0
     (\<lambda>r. let r1 = note_event ''safety_output'' now 0 r in
       if first_arrival_ns r1 ''decision'' \<noteq> None then note_event ''safety_output_after_decision'' now 0 r1 else r1) s"

section \<open>Rows\<close>

definition ns_difference_ms :: "int \<Rightarrow> int \<Rightarrow> real" where
  "ns_difference_ms start_ns end_ns = py_round 3 (of_int (end_ns - start_ns) / 1000000)"

definition delta_ms :: "(string \<rightharpoonup> int) \<Rightarrow> string \<Rightarrow> string \<Rightarrow> jval" where
  "delta_ms ts start_name end_name = (case (ts start_name, ts end_name) of
     (Some a, Some b) \<Rightarrow> JFloat (ns_difference_ms a b) | _ \<Rightarrow> JStr [])"

definition optional_value :: "nat option \<Rightarrow> jval" where
  "optional_value v = (case v of None \<Rightarrow> JStr [] | Some i \<Rightarrow> JInt (int i))"

definition protocol_events :: "string list" where
  "protocol_events = [''request'', ''pre_prepare'', ''prepare'', ''commit'', ''view_change'', ''new_view'', ''decision'']"

definition other_events :: "string list" where
  "other_events = [''status'', ''safety_state'', ''safety_output'']"

definition protocol_count :: "measurement \<Rightarrow> nat" where
  "protocol_count r = sum_list (map (rq_counts r) protocol_events)"

definition total_count :: "measurement \<Rightarrow> nat" where
  "total_count r = protocol_count r + sum_list (map (rq_counts r) other_events)"

fun join_commas :: "string list \<Rightarrow> string" where
  "join_commas [] = []"
| "join_commas [x] = x"
| "join_commas (x # y # xs) = x @ '','' @ join_commas (y # xs)"

definition row_cells :: "int \<Rightarrow> int \<Rightarrow> measurement \<Rightarrow> (string \<times> jval) list" where
  "row_cells request_ns completion_ns r =
    (let arrivals = first_arrival_ns r; sources = first_source_stamp_ns r; number = (\<lambda>k. JInt (int (rq_counts r k))) in
       [(''run_id'', JStr (rq_run_id r)), (''scenario_label'', JStr (rq_scenario_label r)), (''request_id'', JStr (rq_request_id r)),
        (''request_digest_prefix'', JStr (take 12 (rq_digest r))), (''emergency_stop'', JBool (rq_emergency_stop r)),
        (''replica_count'', JInt (rq_replica_count r)), (''max_faulty'', JInt (rq_max_faulty r)),
        (''initial_view'', JInt (int (rq_initial_view r))), (''decision_view'', optional_value (decision_view r)),
        (''sequence_number'', optional_value (rq_sequence_number r)), (''result'', JStr (rq_result r)),
        (''terminal_safety_state'', JStr (terminal_safety_state r)), (''faulty_nodes'', JStr (rq_faulty_nodes r)),
        (''faulty_behaviors'', JStr (rq_faulty_behaviors r)), (''started_at_utc'', JStr (rq_started_at r)),
        (''completed_at_utc'', JStr (completed_at r)),
        (''request_to_pre_prepare_ms'', delta_ms arrivals ''request'' ''pre_prepare''),
        (''pre_prepare_to_first_prepare_ms'', delta_ms arrivals ''pre_prepare'' ''prepare''),
        (''request_to_first_prepare_ms'', delta_ms arrivals ''request'' ''prepare''),
        (''request_to_first_prepared_ms'', delta_ms arrivals ''request'' ''prepared_status''),
        (''prepared_to_first_commit_ms'', delta_ms arrivals ''prepared_status'' ''commit''),
        (''request_to_first_commit_ms'', delta_ms arrivals ''request'' ''commit''),
        (''request_to_first_committed_ms'', delta_ms arrivals ''request'' ''committed_status''),
        (''request_to_decision_ms'', delta_ms arrivals ''request'' ''decision''),
        (''source_stamp_request_to_decision_ms'', delta_ms sources ''request'' ''decision''),
        (''request_to_first_view_change_ms'', delta_ms arrivals ''request'' ''view_change''),
        (''first_view_change_to_new_view_ms'', delta_ms arrivals ''view_change'' ''new_view''),
        (''new_view_to_recovery_pre_prepare_ms'', delta_ms arrivals ''new_view'' ''recovery_pre_prepare''),
        (''new_view_to_decision_ms'', delta_ms arrivals ''new_view'' ''decision''),
        (''first_view_change_to_decision_ms'', delta_ms arrivals ''view_change'' ''decision''),
        (''decision_to_safety_output_ms'', delta_ms arrivals ''decision'' ''safety_output_after_decision''),
        (''request_to_terminal_safety_state_ms'', delta_ms arrivals ''request'' ''terminal_safety_state''),
        (''result_latency_ms'', JFloat (ns_difference_ms request_ns completion_ns)),
        (''request_messages'', number ''request''), (''pre_prepare_messages'', number ''pre_prepare''),
        (''prepare_messages'', number ''prepare''), (''commit_messages'', number ''commit''), (''status_messages'', number ''status''),
        (''view_change_messages'', number ''view_change''), (''new_view_messages'', number ''new_view''),
        (''decision_messages'', number ''decision''), (''safety_state_messages'', number ''safety_state''),
        (''safety_output_messages'', number ''safety_output''), (''total_protocol_messages'', JInt (int (protocol_count r))),
        (''total_observed_messages'', JInt (int (total_count r))), (''duplicate_protocol_messages'', number ''duplicate_protocol''),
        (''unique_prepare_senders'', JInt (int (card (unique_senders r ''prepare'')))),
        (''unique_commit_senders'', JInt (int (card (unique_senders r ''commit'')))),
        (''unique_view_change_senders'', JInt (int (card (unique_senders r ''view_change'')))),
        (''views_seen'', JStr (join_commas (map nat_str (sorted_list_of_set (views_seen r)))))])"

text \<open>\<^verbatim>\<open>arrivals["request"]\<close> raises when the request was not recorded. \<open>now\<close> is read when there is no completion time.\<close>

definition build_row :: "int \<Rightarrow> measurement \<Rightarrow> py_error + (string \<times> jval) list" where
  "build_row now r = (case first_arrival_ns r ''request'' of
     None \<Rightarrow> Inl KeyError
   | Some request_ns \<Rightarrow>
       Inr (row_cells request_ns (case completion_arrival_ns r of None \<Rightarrow> now | Some t \<Rightarrow> if t = 0 then now else t) r))"

definition CSV_FIELDS :: "string list" where
  "CSV_FIELDS = [''run_id'', ''scenario_label'', ''request_id'', ''request_digest_prefix'', ''emergency_stop'', ''replica_count'', ''max_faulty'',
     ''initial_view'', ''decision_view'', ''sequence_number'', ''result'', ''terminal_safety_state'', ''faulty_nodes'', ''faulty_behaviors'',
     ''started_at_utc'', ''completed_at_utc'', ''request_to_pre_prepare_ms'', ''pre_prepare_to_first_prepare_ms'',
     ''request_to_first_prepare_ms'', ''request_to_first_prepared_ms'', ''prepared_to_first_commit_ms'', ''request_to_first_commit_ms'',
     ''request_to_first_committed_ms'', ''request_to_decision_ms'', ''source_stamp_request_to_decision_ms'',
     ''request_to_first_view_change_ms'', ''first_view_change_to_new_view_ms'', ''new_view_to_recovery_pre_prepare_ms'',
     ''new_view_to_decision_ms'', ''first_view_change_to_decision_ms'', ''decision_to_safety_output_ms'',
     ''request_to_terminal_safety_state_ms'', ''result_latency_ms'', ''request_messages'', ''pre_prepare_messages'', ''prepare_messages'',
     ''commit_messages'', ''status_messages'', ''view_change_messages'', ''new_view_messages'', ''decision_messages'',
     ''safety_state_messages'', ''safety_output_messages'', ''total_protocol_messages'', ''total_observed_messages'',
     ''duplicate_protocol_messages'', ''unique_prepare_senders'', ''unique_commit_senders'', ''unique_view_change_senders'', ''views_seen'']"

section \<open>Files\<close>

text \<open>The cell of a value; a key that the row lacks leaves an empty cell.\<close>

definition csv_cell :: "py_floats \<Rightarrow> (string \<times> jval) list \<Rightarrow> string \<Rightarrow> string" where
  "csv_cell F row k = (case map_of row k of None \<Rightarrow> [] | Some JNone \<Rightarrow> [] | Some v \<Rightarrow> py_str F v)"

definition append_csv :: "py_floats \<Rightarrow> (string \<times> jval) list \<Rightarrow> string list list \<Rightarrow> string list list" where
  "append_csv F row csv = (if csv = [] then [CSV_FIELDS] else csv) @ [map (csv_cell F row) CSV_FIELDS]"

fun escape_bars :: "string \<Rightarrow> string" where
  "escape_bars [] = []"
| "escape_bars (c # s) = (if c = CHR ''|'' then CHR 0x5C # c # escape_bars s else c # escape_bars s)"

fun join_bars :: "string list \<Rightarrow> string" where
  "join_bars [] = []"
| "join_bars [x] = x"
| "join_bars (x # y # xs) = x @ '' | '' @ join_bars (y # xs)"

definition markdown_line :: "string list \<Rightarrow> string" where
  "markdown_line cells = ''| '' @ join_bars cells @ '' |''"

text \<open>
  \<^verbatim>\<open>str(row.get(k, ""))\<close> of a row that \<^verbatim>\<open>DictReader\<close> reads under the header: the last column of a name counts, and a row that is
  too short has \<^verbatim>\<open>None\<close> in the columns it lacks.
\<close>

definition csv_get :: "string list \<Rightarrow> string list \<Rightarrow> string \<Rightarrow> string" where
  "csv_get header row k =
    (case map_of (rev (zip header (map Some row @ replicate (length header - length row) None))) k of
       None \<Rightarrow> [] | Some None \<Rightarrow> ''None'' | Some (Some v) \<Rightarrow> v)"

definition markdown_headers :: "string list" where
  "markdown_headers = [''Scenario'', ''Request'', ''n/f'', ''Result'', ''View'', ''Consensus [ms]'', ''View change [ms]'', ''Protocol messages'',
     ''Safety state'']"

definition regenerate_markdown :: "string list list \<Rightarrow> string list \<Rightarrow> string list" where
  "regenerate_markdown csv md = (case csv of
     [] \<Rightarrow> md
   | header # rows \<Rightarrow>
       [''# PBFT performance results'', [], markdown_line markdown_headers, markdown_line (map (\<lambda>_. ''---'') markdown_headers)] @
       map (\<lambda>row. markdown_line (map escape_bars
         [csv_get header row ''scenario_label'', csv_get header row ''request_id'',
          csv_get header row ''replica_count'' @ ''/'' @ csv_get header row ''max_faulty'', csv_get header row ''result'',
          csv_get header row ''decision_view'', csv_get header row ''request_to_decision_ms'',
          csv_get header row ''first_view_change_to_new_view_ms'', csv_get header row ''total_protocol_messages'',
          csv_get header row ''terminal_safety_state''])) (filter (\<lambda>row. row \<noteq> []) rows) @
       [[], ''Detaljni podaci nalaze se u CSV i JSONL datotekama.'', []])"

section \<open>Finalization\<close>

text \<open>\<open>utc\<close> and \<open>now\<close> give the readings that are made for a measurement.\<close>

definition finalize_measurement :: "py_floats \<Rightarrow> (nat \<Rightarrow> string) \<Rightarrow> (nat \<Rightarrow> int) \<Rightarrow> nat \<Rightarrow> perf_monitor \<Rightarrow> py_error + perf_monitor" where
  "finalize_measurement F utc now k s =
    (if finalized (meas s k) then Inr s
     else
       let s1 = upd_meas k (\<lambda>r. r\<lparr>finalized := True, completed_at := utc k\<rparr>) s in
       bindE (build_row (now k) (meas s1 k)) (\<lambda>row.
       let csv = append_csv F row (csv_file s1);
           active = filter (\<lambda>kv. fst kv \<noteq> rq_request_id (meas s1 k)) (active_by_request_id s1)
       in Inr (s1\<lparr>csv_file := csv, jsonl_file := jsonl_file s1 @ [row], markdown_file := regenerate_markdown csv (markdown_file s1),
            active_by_request_id := active,
            current_measurement := (if current_measurement s1 = Some k then (if active = [] then None else Some (snd (last active)))
              else current_measurement s1)\<rparr>)))"

definition check_measurement :: "py_floats \<Rightarrow> (nat \<Rightarrow> string) \<Rightarrow> (nat \<Rightarrow> int) \<Rightarrow> int \<Rightarrow> nat \<Rightarrow> perf_monitor \<Rightarrow> py_error + perf_monitor" where
  "check_measurement F utc now now_ns k s =
    (case first_arrival_ns (meas s k) ''request'' of
       None \<Rightarrow> Inl KeyError
     | Some request_ns \<Rightarrow>
         if (case completion_arrival_ns (meas s k) of None \<Rightarrow> False
             | Some t \<Rightarrow> finalize_delay_sec (pm_par s) \<le> of_int (now_ns - t) / 1000000000)
         then finalize_measurement F utc now k s
         else if measurement_timeout_sec (pm_par s) \<le> of_int (now_ns - request_ns) / 1000000000
         then finalize_measurement F utc now k
           (upd_meas k (\<lambda>r. r\<lparr>rq_result := ''MEASUREMENT_TIMEOUT'', completion_arrival_ns := Some now_ns\<rparr>) s)
         else Inr s)"

definition check_finalization :: "py_floats \<Rightarrow> (nat \<Rightarrow> string) \<Rightarrow> (nat \<Rightarrow> int) \<Rightarrow> int \<Rightarrow> perf_monitor \<Rightarrow> py_error + perf_monitor" where
  "check_finalization F utc now now_ns s = foldE (check_measurement F utc now now_ns) (map snd (active_by_request_id s)) s"

definition finalize_pending :: "py_floats \<Rightarrow> (nat \<Rightarrow> string) \<Rightarrow> (nat \<Rightarrow> int) \<Rightarrow> int \<Rightarrow> string \<Rightarrow> perf_monitor \<Rightarrow> py_error + perf_monitor" where
  "finalize_pending F utc now now_ns result s =
    foldE (\<lambda>k s. if finalized (meas s k) then Inr s
      else finalize_measurement F utc now k (upd_meas k (\<lambda>r. r\<lparr>rq_result := result, completion_arrival_ns := Some now_ns\<rparr>) s))
      (map snd (active_by_request_id s)) s"

section \<open>Events\<close>

text \<open>The callbacks and the timer of the node, and its shutdown.\<close>

datatype pm_event =
    PM_protocol pm_topic pbft_message int string string
  | PM_status replica_status int
  | PM_view_change view_change int
  | PM_new_view new_view int
  | PM_decision pbft_decision
  | PM_safety_state string
  | PM_safety_output
  | PM_timer "nat \<Rightarrow> string" "nat \<Rightarrow> int"
  | PM_shutdown "nat \<Rightarrow> string" "nat \<Rightarrow> int"

fun pm_step :: "py_floats \<Rightarrow> int \<times> pm_event \<Rightarrow> perf_monitor \<Rightarrow> py_error + perf_monitor" where
  "pm_step F (now, PM_protocol t m source run_id utc) s = Inr (pm_protocol_callback t m source now run_id utc s)"
| "pm_step F (now, PM_status m source) s = Inr (pm_status_callback m source now s)"
| "pm_step F (now, PM_view_change m source) s = Inr (pm_view_change_callback m source now s)"
| "pm_step F (now, PM_new_view m source) s = Inr (pm_new_view_callback m source now s)"
| "pm_step F (now, PM_decision m) s = Inr (pm_decision_callback m now s)"
| "pm_step F (now, PM_safety_state d) s = Inr (pm_safety_state_callback d now s)"
| "pm_step F (now, PM_safety_output) s = Inr (pm_safety_output_callback now s)"
| "pm_step F (now, PM_timer utc now') s = check_finalization F utc now' now s"
| "pm_step F (now, PM_shutdown utc now') s = finalize_pending F utc now' now ''INTERRUPTED'' s"

end
