(* ===== verification/PM_Rows.thy ===== *)
theory PM_Rows
  imports PM_Monitor
begin

text \<open>
  What holds of every measurement of the performance monitor (\<open>meas_ok\<close>), that each callback keeps it, and what follows for the row
  that is built of the measurement (\<open>row_ok\<close>): its columns and their types, and that the numbers in it agree.
\<close>

section \<open>Measurement\<close>

definition times_ok :: "int \<Rightarrow> measurement \<Rightarrow> bool" where
  "times_ok T r \<longleftrightarrow> (\<exists>t0. first_arrival_ns r ''request'' = Some t0 \<and> t0 \<le> T \<and>
     (\<forall>n t. first_arrival_ns r n = Some t \<longrightarrow> t0 \<le> t) \<and> (\<forall>t. completion_arrival_ns r = Some t \<longrightarrow> t0 \<le> t \<and> t \<le> T))"

definition counts_ok :: "measurement \<Rightarrow> bool" where
  "counts_ok r \<longleftrightarrow> (\<forall>n. n \<noteq> ''duplicate_protocol'' \<longrightarrow> (first_arrival_ns r n = None \<longleftrightarrow> rq_counts r n = 0)) \<and>
     (\<forall>n. finite (unique_senders r n) \<and> card (unique_senders r n) \<le> rq_counts r n) \<and>
     finite (views_seen r) \<and> rq_initial_view r \<in> views_seen r"

definition copies_ok :: "measurement \<Rightarrow> bool" where
  "copies_ok r \<longleftrightarrow> finite (seen_fingerprints r) \<and> card (seen_fingerprints r) + rq_counts r ''duplicate_protocol'' =
     rq_counts r ''request'' + rq_counts r ''pre_prepare'' + rq_counts r ''prepare'' + rq_counts r ''commit''"

definition RESULTS :: "string list" where
  "RESULTS = [''RUNNING'', ''COMMITTED'', ''DECISION_NOT_COMMITTED'', ''FAIL_SAFE_STOP'', ''MEASUREMENT_TIMEOUT'', ''INTERRUPTED'']"

definition decided_ok :: "measurement \<Rightarrow> bool" where
  "decided_ok r \<longleftrightarrow> (decision_committed r = None \<longleftrightarrow> rq_counts r ''decision'' = 0) \<and> (decision_view r = None \<longleftrightarrow> decision_committed r = None) \<and>
     (rq_sequence_number r = None \<longleftrightarrow> decision_committed r = None) \<and> rq_result r \<in> set RESULTS \<and>
     (rq_result r = ''COMMITTED'' \<longrightarrow> decision_committed r = Some True) \<and>
     (rq_result r = ''DECISION_NOT_COMMITTED'' \<longrightarrow> decision_committed r = Some False) \<and>
     (rq_result r \<noteq> ''RUNNING'' \<longleftrightarrow> completion_arrival_ns r \<noteq> None) \<and>
     (if rq_counts r ''terminal_safety_state'' = 0 then terminal_safety_state r = [] else terminal_safety_state r \<in> set TERMINAL_SAFETY_STATES)"

definition of_node :: "pm_params \<Rightarrow> measurement \<Rightarrow> bool" where
  "of_node p r \<longleftrightarrow> rq_scenario_label r = pm_scenario_label p \<and> rq_replica_count r = pm_replica_count p \<and> rq_max_faulty r = pm_max_faulty p \<and>
     rq_faulty_nodes r = pm_faulty_nodes p \<and> rq_faulty_behaviors r = pm_faulty_behaviors p \<and>
     rq_request_id r \<noteq> [] \<and> (request_id_filter p \<noteq> [] \<longrightarrow> rq_request_id r = request_id_filter p)"

definition meas_ok :: "pm_params \<Rightarrow> int \<Rightarrow> measurement \<Rightarrow> bool" where
  "meas_ok p T r \<longleftrightarrow> of_node p r \<and> times_ok T r \<and> counts_ok r \<and> copies_ok r \<and> decided_ok r"

text \<open>What a callback does to the measurement of its message.\<close>

definition keeps_meas :: "int \<Rightarrow> (measurement \<Rightarrow> measurement) \<Rightarrow> bool" where
  "keeps_meas now f \<longleftrightarrow> (\<forall>p T r. meas_ok p T r \<longrightarrow> T \<le> now \<longrightarrow> meas_ok p now (f r) \<and> rq_request_id (f r) = rq_request_id r \<and> finalized (f r) = finalized r)"

lemma times_ok_mono: "times_ok T r \<Longrightarrow> T \<le> T' \<Longrightarrow> times_ok T' r"
  by (fastforce simp: times_ok_def)

lemma meas_ok_mono: "meas_ok p T r \<Longrightarrow> T \<le> T' \<Longrightarrow> meas_ok p T' r"
  by (auto simp: meas_ok_def intro: times_ok_mono)

lemma times_note: "times_ok now r \<Longrightarrow> times_ok now (note_event n now source r)"
  by (auto simp: times_ok_def note_event_def)

lemma note_frame [frame_simps]:
  "of_node p (note_event n now source r) = of_node p r" "rq_request_id (note_event n now source r) = rq_request_id r"
  "finalized (note_event n now source r) = finalized r" "unique_senders (note_event n now source r) = unique_senders r"
  "views_seen (note_event n now source r) = views_seen r" "seen_fingerprints (note_event n now source r) = seen_fingerprints r"
  "decision_committed (note_event n now source r) = decision_committed r" "decision_view (note_event n now source r) = decision_view r"
  "rq_sequence_number (note_event n now source r) = rq_sequence_number r" "rq_result (note_event n now source r) = rq_result r"
  "completion_arrival_ns (note_event n now source r) = completion_arrival_ns r"
  "terminal_safety_state (note_event n now source r) = terminal_safety_state r" "rq_initial_view (note_event n now source r) = rq_initial_view r"
  "rq_counts (note_event n now source r) k = (if k = n then rq_counts r n + 1 else rq_counts r k)"
  by (auto simp: note_event_def of_node_def)

lemma counts_note: "counts_ok r \<Longrightarrow> counts_ok (note_event n now source r)"
  by (auto simp: counts_ok_def note_event_def intro: le_SucI)

lemma copies_note: "copies_ok r \<Longrightarrow> n \<notin> set [''request'', ''pre_prepare'', ''prepare'', ''commit'', ''duplicate_protocol''] \<Longrightarrow>
    copies_ok (note_event n now source r)"
  by (auto simp: copies_ok_def frame_simps)

lemma decided_note: "decided_ok r \<Longrightarrow> n \<notin> set [''decision'', ''terminal_safety_state''] \<Longrightarrow> decided_ok (note_event n now source r)"
  by (auto simp: decided_ok_def frame_simps)

lemmas note_ok = times_note counts_note copies_note decided_note

lemma see_view_frame [frame_simps]:
  "of_node p (see_view v r) = of_node p r" "rq_request_id (see_view v r) = rq_request_id r" "finalized (see_view v r) = finalized r"
  "times_ok T (see_view v r) = times_ok T r" "copies_ok (see_view v r) = copies_ok r" "decided_ok (see_view v r) = decided_ok r"
  "rq_counts (see_view v r) = rq_counts r" "rq_initial_view (see_view v r) = rq_initial_view r"
  "seen_fingerprints (see_view v r) = seen_fingerprints r"
  by (auto simp: see_view_def of_node_def times_ok_def copies_ok_def decided_ok_def)

lemma counts_see_view: "counts_ok r \<Longrightarrow> counts_ok (see_view v r)"
  by (auto simp: see_view_def counts_ok_def)

lemma add_sender_frame [frame_simps]:
  "of_node p (add_sender n i r) = of_node p r" "rq_request_id (add_sender n i r) = rq_request_id r" "finalized (add_sender n i r) = finalized r"
  "times_ok T (add_sender n i r) = times_ok T r" "copies_ok (add_sender n i r) = copies_ok r" "decided_ok (add_sender n i r) = decided_ok r"
  "rq_initial_view (add_sender n i r) = rq_initial_view r"
  by (auto simp: add_sender_def of_node_def times_ok_def copies_ok_def decided_ok_def)

lemma counts_add_sender:
  assumes "counts_ok r" and "card (unique_senders r n) < rq_counts r n"
  shows "counts_ok (add_sender n i r)"
  using assms by (auto simp: counts_ok_def add_sender_def card_insert_if)

section \<open>Callbacks\<close>

lemma note_copy_frame [frame_simps]:
  "of_node p (note_copy x r) = of_node p r" "rq_request_id (note_copy x r) = rq_request_id r" "finalized (note_copy x r) = finalized r"
  "times_ok T (note_copy x r) = times_ok T r" "decided_ok (note_copy x r) = decided_ok r"
  "rq_initial_view (note_copy x r) = rq_initial_view r" "unique_senders (note_copy x r) = unique_senders r"
  "n \<noteq> ''duplicate_protocol'' \<Longrightarrow> rq_counts (note_copy x r) n = rq_counts r n"
  by (auto simp: note_copy_def of_node_def times_ok_def decided_ok_def)

lemma counts_note_copy: "counts_ok r \<Longrightarrow> counts_ok (note_copy x r)"
  by (auto simp: counts_ok_def note_copy_def intro: le_SucI)

lemma pm_name_cases: "pm_name t \<in> set [''request'', ''pre_prepare'', ''prepare'', ''commit'']"
  by (cases t) simp_all

lemma copies_protocol:
  assumes "copies_ok r" shows "copies_ok (note_copy x (see_view v (note_event (pm_name t) now source r)))"
  using assms by (cases t) (auto simp: copies_ok_def note_copy_def frame_simps)

lemma decided_protocol: "decided_ok r \<Longrightarrow> decided_ok (note_event (pm_name t) now source r)"
  by (cases t) (simp_all add: decided_note)

lemma card_senders_note:
  assumes "counts_ok r"
  shows "card (unique_senders (note_copy x (see_view v (note_event (pm_name t) now source r))) (pm_name t)) <
    rq_counts (note_copy x (see_view v (note_event (pm_name t) now source r))) (pm_name t)"
proof -
  have "pm_name t \<noteq> ''duplicate_protocol''" by (cases t) simp_all
  moreover have "card (unique_senders r (pm_name t)) \<le> rq_counts r (pm_name t)" using assms by (simp add: counts_ok_def)
  ultimately show ?thesis by (simp add: frame_simps) (simp add: see_view_def frame_simps)
qed

lemma protocol_keeps: "keeps_meas now (measure_protocol t m source now)"
  unfolding keeps_meas_def
proof (intro allI impI)
  fix p T r
  assume "meas_ok p T r" and "T \<le> now"
  then have r: "of_node p r" "times_ok now r" "counts_ok r" "copies_ok r" "decided_ok r"
    by (auto simp: meas_ok_def intro: times_ok_mono)
  define x where "x = (pm_name t, m_sender m, m_recipient m, m_view m, m_seq m, m_request_id m, m_digest m, m_stop m)"
  define q where "q = note_copy x (see_view (m_view m) (note_event (pm_name t) now source r))"
  have q: "of_node p q" "times_ok now q" "counts_ok q" "copies_ok q" "decided_ok q" "rq_request_id q = rq_request_id r" "finalized q = finalized r"
    unfolding q_def using r by (simp_all add: frame_simps times_note counts_note counts_see_view counts_note_copy copies_protocol decided_protocol)
  have small: "card (unique_senders q (pm_name t)) < rq_counts q (pm_name t)"
    unfolding q_def by (rule card_senders_note) (rule r(3))
  show "meas_ok p now (measure_protocol t m source now r) \<and> rq_request_id (measure_protocol t m source now r) = rq_request_id r \<and>
      finalized (measure_protocol t m source now r) = finalized r"
    unfolding measure_protocol_def Let_def x_def[symmetric] q_def[symmetric] meas_ok_def
    using q small by (auto simp: frame_simps note_ok counts_add_sender)
qed

lemma status_keeps:
  "keeps_meas now (\<lambda>r. let r1 = see_view v (note_event ''status'' now source r);
      r2 = (if a then note_event ''prepared_status'' now source r1 else r1)
    in if b then note_event ''committed_status'' now source r2 else r2)"
  by (auto simp: keeps_meas_def meas_ok_def Let_def frame_simps note_ok counts_see_view dest: times_ok_mono)

lemma view_change_keeps:
  "keeps_meas now (\<lambda>r. see_view v (add_sender ''view_change'' i (note_event ''view_change'' now source r)))"
proof -
  have "counts_ok (see_view v (add_sender ''view_change'' i (note_event ''view_change'' now source r)))" if "counts_ok r" for r
  proof -
    have "card (unique_senders r ''view_change'') \<le> rq_counts r ''view_change''" using that by (simp add: counts_ok_def)
    with that show ?thesis by (auto simp: frame_simps intro!: counts_see_view counts_add_sender counts_note)
  qed
  then show ?thesis by (auto simp: keeps_meas_def meas_ok_def frame_simps note_ok dest: times_ok_mono)
qed

lemma new_view_keeps: "keeps_meas now (\<lambda>r. see_view v (note_event ''new_view'' now source r))"
  by (auto simp: keeps_meas_def meas_ok_def frame_simps note_ok counts_see_view dest: times_ok_mono)

lemma safety_output_keeps:
  "keeps_meas now (\<lambda>r. let r1 = note_event ''safety_output'' now 0 r in
     if first_arrival_ns r1 ''decision'' \<noteq> None then note_event ''safety_output_after_decision'' now 0 r1 else r1)"
  by (auto simp: keeps_meas_def meas_ok_def Let_def frame_simps note_ok dest: times_ok_mono)

definition complete_with :: "string \<Rightarrow> int \<Rightarrow> measurement \<Rightarrow> measurement" where
  "complete_with result now r = r\<lparr>rq_result := result, completion_arrival_ns := Some now\<rparr>"

lemma complete_frame [frame_simps]:
  "of_node p (complete_with x now r) = of_node p r" "rq_request_id (complete_with x now r) = rq_request_id r"
  "finalized (complete_with x now r) = finalized r" "counts_ok (complete_with x now r) = counts_ok r"
  "copies_ok (complete_with x now r) = copies_ok r"
  by (simp_all add: complete_with_def of_node_def counts_ok_def copies_ok_def)

lemma times_complete: "times_ok now r \<Longrightarrow> times_ok now (complete_with x now r)"
  by (auto simp: times_ok_def complete_with_def)

lemma decided_complete:
  "decided_ok r \<Longrightarrow> x \<in> {''FAIL_SAFE_STOP'', ''MEASUREMENT_TIMEOUT'', ''INTERRUPTED''} \<Longrightarrow> decided_ok (complete_with x now r)"
  by (elim insertE emptyE) (simp_all add: decided_ok_def complete_with_def RESULTS_def)

lemma complete_keeps:
  "x \<in> {''FAIL_SAFE_STOP'', ''MEASUREMENT_TIMEOUT'', ''INTERRUPTED''} \<Longrightarrow> keeps_meas now (complete_with x now)"
  unfolding keeps_meas_def meas_ok_def
  by (intro allI impI conjI; elim conjE) (simp_all add: frame_simps times_complete[OF times_ok_mono] decided_complete)

lemma decision_keeps:
  "keeps_meas now (\<lambda>r. (see_view v ((note_event ''decision'' now source r)\<lparr>decision_view := Some v,
         rq_sequence_number := Some n, decision_committed := Some c\<rparr>))
       \<lparr>rq_result := (if c then ''COMMITTED'' else ''DECISION_NOT_COMMITTED''), completion_arrival_ns := Some now\<rparr>)" (is "keeps_meas now ?f")
proof -
  have f: "?f r = complete_with (if c then ''COMMITTED'' else ''DECISION_NOT_COMMITTED'') now
      (see_view v ((note_event ''decision'' now source r)\<lparr>decision_view := Some v, rq_sequence_number := Some n, decision_committed := Some c\<rparr>))" for r
    by (simp add: complete_with_def)
  have other: "of_node p (q\<lparr>decision_view := Some v, rq_sequence_number := Some n, decision_committed := Some b\<rparr>) = of_node p q"
    "times_ok T (q\<lparr>decision_view := Some v, rq_sequence_number := Some n, decision_committed := Some b\<rparr>) = times_ok T q"
    "counts_ok (q\<lparr>decision_view := Some v, rq_sequence_number := Some n, decision_committed := Some b\<rparr>) = counts_ok q"
    "copies_ok (q\<lparr>decision_view := Some v, rq_sequence_number := Some n, decision_committed := Some b\<rparr>) = copies_ok q" for p T q b
    by (simp_all add: of_node_def times_ok_def counts_ok_def copies_ok_def)
  have "decided_ok (complete_with (if c then ''COMMITTED'' else ''DECISION_NOT_COMMITTED'') now
      (see_view v ((note_event ''decision'' now source r)\<lparr>decision_view := Some v, rq_sequence_number := Some n, decision_committed := Some c\<rparr>)))"
    if "decided_ok r" for r 
    using that by (cases c) (simp_all add: decided_ok_def complete_with_def see_view_def note_event_def RESULTS_def)
  then show ?thesis unfolding keeps_meas_def meas_ok_def f
    by (auto simp: frame_simps other note_ok counts_see_view intro!: times_complete times_note dest: times_ok_mono)
qed

lemma terminal_keeps:
  assumes "decided_ok r" "terminal_safety_state r = []" "d \<in> set TERMINAL_SAFETY_STATES"
  shows "decided_ok (note_event ''terminal_safety_state'' now 0 (r\<lparr>terminal_safety_state := d\<rparr>))"
proof -
  have "d \<noteq> []" using assms(3) by (auto simp: TERMINAL_SAFETY_STATES_def)
  with assms show ?thesis by (simp add: decided_ok_def note_event_def)
qed

lemma safety_state_keeps:
  "keeps_meas now (\<lambda>r. let r1 = note_event ''safety_state'' now 0 r in
       if d \<notin> set TERMINAL_SAFETY_STATES then r1
       else
         let r2 = (if terminal_safety_state r1 = [] then note_event ''terminal_safety_state'' now 0 (r1\<lparr>terminal_safety_state := d\<rparr>) else r1)
         in if d = ''FAIL_SAFE_STOP'' \<and> decision_committed r2 \<noteq> Some True
            then r2\<lparr>rq_result := ''FAIL_SAFE_STOP'', completion_arrival_ns := Some now\<rparr> else r2)"
  unfolding keeps_meas_def complete_with_def[symmetric]
proof (intro allI impI, goal_cases)
  case (1 p T r)
  then have r: "of_node p r" "times_ok now r" "counts_ok r" "copies_ok r" "decided_ok r"
    by (auto simp: meas_ok_def intro: times_ok_mono)
  let ?r1 = "note_event ''safety_state'' now 0 r"
  define r2 where "r2 = (if terminal_safety_state ?r1 = [] then note_event ''terminal_safety_state'' now 0 (?r1\<lparr>terminal_safety_state := d\<rparr>) else ?r1)"
  have other: "of_node p (q\<lparr>terminal_safety_state := d\<rparr>) = of_node p q" "times_ok T (q\<lparr>terminal_safety_state := d\<rparr>) = times_ok T q"
    "counts_ok (q\<lparr>terminal_safety_state := d\<rparr>) = counts_ok q" "copies_ok (q\<lparr>terminal_safety_state := d\<rparr>) = copies_ok q" for p T q
    by (simp_all add: of_node_def times_ok_def counts_ok_def copies_ok_def)
  have r1: "meas_ok p now ?r1" using r by (simp add: meas_ok_def frame_simps note_ok)
  have r2: "meas_ok p now r2 \<and> rq_request_id r2 = rq_request_id r \<and> finalized r2 = finalized r" if "d \<in> set TERMINAL_SAFETY_STATES"
    unfolding r2_def meas_ok_def using that r by (auto simp: frame_simps note_ok other terminal_keeps)
  have "meas_ok p now (complete_with ''FAIL_SAFE_STOP'' now r2) \<and> rq_request_id (complete_with ''FAIL_SAFE_STOP'' now r2) = rq_request_id r \<and>
      finalized (complete_with ''FAIL_SAFE_STOP'' now r2) = finalized r" if "d \<in> set TERMINAL_SAFETY_STATES"
    using r2[OF that] complete_keeps[of "''FAIL_SAFE_STOP''" now] unfolding keeps_meas_def by auto
  with r1 r2 show ?case unfolding Let_def r2_def[symmetric] by (simp add: frame_simps)
qed

section \<open>Rows\<close>

datatype cell_type = C_text | C_flag | C_int | C_count | C_count_or_empty | C_ms_or_empty | C_latency_or_empty | C_latency

fun cell_ok :: "cell_type \<Rightarrow> jval \<Rightarrow> bool" where
  "cell_ok C_text (JStr s) = True"
| "cell_ok C_flag (JBool b) = True"
| "cell_ok C_int (JInt i) = True"
| "cell_ok C_count (JInt i) = (0 \<le> i)"
| "cell_ok C_count_or_empty (JInt i) = (0 \<le> i)"
| "cell_ok C_count_or_empty (JStr s) = (s = [])"
| "cell_ok C_ms_or_empty (JFloat x) = True"
| "cell_ok C_ms_or_empty (JStr s) = (s = [])"
| "cell_ok C_latency_or_empty (JFloat x) = (0 \<le> x)"
| "cell_ok C_latency_or_empty (JStr s) = (s = [])"
| "cell_ok C_latency (JFloat x) = (0 \<le> x)"
| "cell_ok _ _ = False"

definition CELL_TYPES :: "cell_type list" where
  "CELL_TYPES = replicate 4 C_text @ [C_flag, C_int, C_int, C_count, C_count_or_empty, C_count_or_empty] @ replicate 6 C_text @
     [C_latency_or_empty, C_ms_or_empty, C_latency_or_empty, C_latency_or_empty, C_ms_or_empty, C_latency_or_empty, C_latency_or_empty,
      C_latency_or_empty, C_ms_or_empty, C_latency_or_empty, C_ms_or_empty, C_ms_or_empty, C_ms_or_empty, C_ms_or_empty, C_ms_or_empty,
      C_latency_or_empty, C_latency] @ replicate 16 C_count @ [C_text]"

definition row_typed :: "(string \<times> jval) list \<Rightarrow> bool" where
  "row_typed row \<longleftrightarrow> map fst row = CSV_FIELDS \<and> list_all2 cell_ok CELL_TYPES (map snd row)"

definition num_at :: "(string \<times> jval) list \<Rightarrow> string \<Rightarrow> int" where
  "num_at row k = (case map_of row k of Some (JInt i) \<Rightarrow> i | _ \<Rightarrow> 0)"

definition text_of :: "(string \<times> jval) list \<Rightarrow> string \<Rightarrow> string" where
  "text_of row k = (case map_of row k of Some (JStr t) \<Rightarrow> t | _ \<Rightarrow> [])"

definition empty_at :: "(string \<times> jval) list \<Rightarrow> string \<Rightarrow> bool" where
  "empty_at row k \<longleftrightarrow> map_of row k = Some (JStr [])"

lemma py_round_nonneg: "0 \<le> x \<Longrightarrow> 0 \<le> py_round k x"
  by (simp add: py_round_def Let_def)

lemma delta_latency: "(\<And>a b. ts m = Some a \<Longrightarrow> ts n = Some b \<Longrightarrow> a \<le> b) \<Longrightarrow> cell_ok C_latency_or_empty (delta_ms ts m n)"
  by (auto simp: delta_ms_def ns_difference_ms_def split: option.splits intro!: py_round_nonneg)

lemma delta_ms_type: "cell_ok C_ms_or_empty (delta_ms ts m n)"
  by (simp add: delta_ms_def split: option.splits)

lemma optional_type: "cell_ok C_count_or_empty (optional_value v)"
  by (simp add: optional_value_def split: option.splits)


lemma row_fields: "map fst (row_cells a b r) = CSV_FIELDS"
  by (simp add: row_cells_def CSV_FIELDS_def Let_def)

lemma row_types:
  assumes r: "\<And>n. cell_ok C_latency_or_empty (delta_ms (first_arrival_ns r) ''request'' n)" "0 \<le> ns_difference_ms a b"
  shows "list_all2 cell_ok CELL_TYPES (map snd (row_cells a b r))"
  using r unfolding row_cells_def CELL_TYPES_def Let_def by (simp add: numeral_eq_Suc delta_ms_type optional_type)

text \<open>A row agrees with itself: totals, distinct senders, empty cells and the result fit the numbers of messages.\<close>

definition row_counts_ok :: "(string \<times> jval) list \<Rightarrow> bool" where
  "row_counts_ok row \<longleftrightarrow>
     num_at row ''total_protocol_messages'' = sum_list (map (num_at row) [''request_messages'', ''pre_prepare_messages'', ''prepare_messages'',
       ''commit_messages'', ''view_change_messages'', ''new_view_messages'', ''decision_messages'']) \<and>
     num_at row ''total_observed_messages'' = num_at row ''total_protocol_messages'' + num_at row ''status_messages'' +
       num_at row ''safety_state_messages'' + num_at row ''safety_output_messages'' \<and>
     1 \<le> num_at row ''request_messages'' \<and>
     num_at row ''duplicate_protocol_messages'' \<le> num_at row ''request_messages'' + num_at row ''pre_prepare_messages'' +
       num_at row ''prepare_messages'' + num_at row ''commit_messages'' \<and>
     num_at row ''unique_prepare_senders'' \<le> num_at row ''prepare_messages'' \<and>
     num_at row ''unique_commit_senders'' \<le> num_at row ''commit_messages'' \<and>
     num_at row ''unique_view_change_senders'' \<le> num_at row ''view_change_messages''"

definition row_result_ok :: "pm_params \<Rightarrow> (string \<times> jval) list \<Rightarrow> bool" where
  "row_result_ok p row \<longleftrightarrow>
     (\<forall>(ms, number) \<in> set [(''request_to_pre_prepare_ms'', ''pre_prepare_messages''), (''request_to_first_prepare_ms'', ''prepare_messages''),
        (''request_to_first_commit_ms'', ''commit_messages''), (''request_to_first_view_change_ms'', ''view_change_messages''),
        (''request_to_decision_ms'', ''decision_messages''), (''decision_view'', ''decision_messages''), (''sequence_number'', ''decision_messages'')].
        empty_at row ms \<longleftrightarrow> num_at row number = 0) \<and>
     text_of row ''result'' \<in> set [''COMMITTED'', ''DECISION_NOT_COMMITTED'', ''FAIL_SAFE_STOP'', ''MEASUREMENT_TIMEOUT'', ''INTERRUPTED''] \<and>
     (text_of row ''result'' \<in> {''COMMITTED'', ''DECISION_NOT_COMMITTED''} \<longrightarrow> 0 < num_at row ''decision_messages'') \<and>
     text_of row ''terminal_safety_state'' \<in> set ([] # TERMINAL_SAFETY_STATES) \<and>
     text_of row ''scenario_label'' = pm_scenario_label p \<and> num_at row ''replica_count'' = pm_replica_count p \<and>
     num_at row ''max_faulty'' = pm_max_faulty p \<and> text_of row ''request_id'' \<noteq> []"

definition row_ok :: "pm_params \<Rightarrow> (string \<times> jval) list \<Rightarrow> bool" where
  "row_ok p row \<longleftrightarrow> row_typed row \<and> row_counts_ok row \<and> row_result_ok p row"

lemma CSV_FIELDS_distinct: "distinct CSV_FIELDS"
  unfolding CSV_FIELDS_def by simp

lemma row_at: "(k, v) \<in> set (row_cells a b r) \<Longrightarrow> map_of (row_cells a b r) k = Some v"
  using row_fields[of a b r] CSV_FIELDS_distinct by (intro map_of_is_SomeI) simp_all

lemma num_at_row: "(k, JInt i) \<in> set (row_cells a b r) \<Longrightarrow> num_at (row_cells a b r) k = i"
  by (simp add: num_at_def row_at)

lemma text_of_row: "(k, JStr t) \<in> set (row_cells a b r) \<Longrightarrow> text_of (row_cells a b r) k = t"
  by (simp add: text_of_def row_at)

lemma empty_at_row: "(k, v) \<in> set (row_cells a b r) \<Longrightarrow> empty_at (row_cells a b r) k \<longleftrightarrow> v = JStr []"
  by (simp add: empty_at_def row_at)

lemma row_nums:
  "num_at (row_cells a b r) ''request_messages'' = int (rq_counts r ''request'')"
  "num_at (row_cells a b r) ''pre_prepare_messages'' = int (rq_counts r ''pre_prepare'')"
  "num_at (row_cells a b r) ''prepare_messages'' = int (rq_counts r ''prepare'')"
  "num_at (row_cells a b r) ''commit_messages'' = int (rq_counts r ''commit'')"
  "num_at (row_cells a b r) ''view_change_messages'' = int (rq_counts r ''view_change'')"
  "num_at (row_cells a b r) ''new_view_messages'' = int (rq_counts r ''new_view'')"
  "num_at (row_cells a b r) ''decision_messages'' = int (rq_counts r ''decision'')"
  "num_at (row_cells a b r) ''status_messages'' = int (rq_counts r ''status'')"
  "num_at (row_cells a b r) ''safety_state_messages'' = int (rq_counts r ''safety_state'')"
  "num_at (row_cells a b r) ''safety_output_messages'' = int (rq_counts r ''safety_output'')"
  "num_at (row_cells a b r) ''duplicate_protocol_messages'' = int (rq_counts r ''duplicate_protocol'')"
  "num_at (row_cells a b r) ''total_protocol_messages'' = int (protocol_count r)"
  "num_at (row_cells a b r) ''total_observed_messages'' = int (total_count r)"
  "num_at (row_cells a b r) ''unique_prepare_senders'' = int (card (unique_senders r ''prepare''))"
  "num_at (row_cells a b r) ''unique_commit_senders'' = int (card (unique_senders r ''commit''))"
  "num_at (row_cells a b r) ''unique_view_change_senders'' = int (card (unique_senders r ''view_change''))"
  "num_at (row_cells a b r) ''replica_count'' = rq_replica_count r" "num_at (row_cells a b r) ''max_faulty'' = rq_max_faulty r"
  by (rule num_at_row, simp add: row_cells_def Let_def)+

lemma row_texts:
  "text_of (row_cells a b r) ''result'' = rq_result r" "text_of (row_cells a b r) ''terminal_safety_state'' = terminal_safety_state r"
  "text_of (row_cells a b r) ''scenario_label'' = rq_scenario_label r" "text_of (row_cells a b r) ''request_id'' = rq_request_id r"
  by (rule text_of_row, simp add: row_cells_def Let_def)+

lemma empty_delta: "delta_ms ts m n = JStr [] \<longleftrightarrow> ts m = None \<or> ts n = None"
  by (simp add: delta_ms_def split: option.splits)

lemma empty_optional: "optional_value v = JStr [] \<longleftrightarrow> v = None"
  by (simp add: optional_value_def split: option.splits)

lemma row_delta_empty:
  assumes "(k, delta_ms ts m n) \<in> set (row_cells a b r)" "ts m \<noteq> None"
  shows "empty_at (row_cells a b r) k \<longleftrightarrow> ts n = None"
  using empty_at_row[OF assms(1)] assms(2) by (auto simp: empty_delta)

lemma row_empty:
  assumes "first_arrival_ns r ''request'' \<noteq> None"
  shows "empty_at (row_cells a b r) ''request_to_pre_prepare_ms'' \<longleftrightarrow> first_arrival_ns r ''pre_prepare'' = None"
    "empty_at (row_cells a b r) ''request_to_first_prepare_ms'' \<longleftrightarrow> first_arrival_ns r ''prepare'' = None"
    "empty_at (row_cells a b r) ''request_to_first_commit_ms'' \<longleftrightarrow> first_arrival_ns r ''commit'' = None"
    "empty_at (row_cells a b r) ''request_to_first_view_change_ms'' \<longleftrightarrow> first_arrival_ns r ''view_change'' = None"
    "empty_at (row_cells a b r) ''request_to_decision_ms'' \<longleftrightarrow> first_arrival_ns r ''decision'' = None"
  by (rule row_delta_empty[where ts = "first_arrival_ns r" and m = "''request''", OF _ assms], simp add: row_cells_def Let_def)+

lemma row_optional_empty:
  "empty_at (row_cells a b r) ''decision_view'' \<longleftrightarrow> decision_view r = None"
  "empty_at (row_cells a b r) ''sequence_number'' \<longleftrightarrow> rq_sequence_number r = None"
  unfolding empty_optional[symmetric] by (rule empty_at_row, simp add: row_cells_def Let_def)+

lemma counts_none: "counts_ok r \<Longrightarrow> n \<noteq> ''duplicate_protocol'' \<Longrightarrow> first_arrival_ns r n = None \<longleftrightarrow> rq_counts r n = 0"
  by (simp add: counts_ok_def)

lemma row_counts:
  assumes "times_ok T r" "counts_ok r" "copies_ok r" shows "row_counts_ok (row_cells a b r)"
proof -
  have n: "card (unique_senders r n) \<le> rq_counts r n" for n using assms(2) by (simp add: counts_ok_def)
  have "first_arrival_ns r ''request'' \<noteq> None" using assms(1) by (auto simp: times_ok_def)
  then have "rq_counts r ''request'' \<noteq> 0" using counts_none[OF assms(2), of "''request''"] by simp
  moreover have "rq_counts r ''duplicate_protocol'' \<le> rq_counts r ''request'' + rq_counts r ''pre_prepare'' + rq_counts r ''prepare'' + rq_counts r ''commit''"
    using assms(3) by (simp add: copies_ok_def)
  ultimately show ?thesis using n[of "''prepare''"] n[of "''commit''"] n[of "''view_change''"]
    unfolding row_counts_ok_def by (simp add: row_nums total_count_def protocol_count_def protocol_events_def other_events_def)
qed

lemma row_result:
  assumes "of_node p r" "times_ok T r" "counts_ok r" "decided_ok r" "rq_result r \<noteq> ''RUNNING''"
  shows "row_result_ok p (row_cells a b r)"
proof -
  have t: "first_arrival_ns r ''request'' \<noteq> None" using assms(2) by (auto simp: times_ok_def)
  have res: "rq_result r \<in> set [''COMMITTED'', ''DECISION_NOT_COMMITTED'', ''FAIL_SAFE_STOP'', ''MEASUREMENT_TIMEOUT'', ''INTERRUPTED'']"
    using assms(4,5) by (simp add: decided_ok_def RESULTS_def)
  have dec: "rq_result r \<in> {''COMMITTED'', ''DECISION_NOT_COMMITTED''} \<longrightarrow> 0 < rq_counts r ''decision''"
    using assms(4) by (auto simp: decided_ok_def)
  have ter: "terminal_safety_state r \<in> set ([] # TERMINAL_SAFETY_STATES)" using assms(4) by (simp add: decided_ok_def split: if_splits)
  show ?thesis unfolding row_result_ok_def row_texts row_nums
    using assms(1,4) t res dec ter by (simp add: row_nums row_empty[OF t] row_optional_empty counts_none[OF assms(3)] of_node_def decided_ok_def)
qed

end
