(* ===== verification/PM_Proofs.thy ===== *)
theory PM_Proofs
  imports PM_Rows
begin

text \<open>
  The invariant of the performance monitor: which measurements are active, what each of them holds, and how the files follow from the
  rows that were written (\<open>perf_inv\<close>). Every event keeps it when the clock does not run backwards, and no event raises; this
  is stated as an interface of machines with a clock (\<open>clocked_machine\<close>), which the monitor's model implements.
\<close>

section \<open>State\<close>

definition active_ok :: "perf_monitor \<Rightarrow> bool" where
  "active_ok s \<longleftrightarrow> distinct (map fst (active_by_request_id s)) \<and>
     (\<forall>q k. (q, k) \<in> set (active_by_request_id s) \<longleftrightarrow> k < length (all_measurements s) \<and> rq_request_id (meas s k) = q \<and> \<not> finalized (meas s k)) \<and>
     (\<forall>k. current_measurement s = Some k \<longrightarrow> k \<in> snd ` set (active_by_request_id s))"

definition perf_ok :: "int \<Rightarrow> perf_monitor \<Rightarrow> bool" where
  "perf_ok T s \<longleftrightarrow> active_ok s \<and> (\<forall>r \<in> set (all_measurements s). meas_ok (pm_par s) T r)"

lemma perf_ok_mono: "perf_ok T s \<Longrightarrow> T \<le> T' \<Longrightarrow> perf_ok T' s"
  by (auto simp: perf_ok_def intro: meas_ok_mono)

lemma upd_meas_frame [frame_simps]:
  "pm_par (upd_meas k f s) = pm_par s" "active_by_request_id (upd_meas k f s) = active_by_request_id s"
  "current_measurement (upd_meas k f s) = current_measurement s" "csv_file (upd_meas k f s) = csv_file s"
  "jsonl_file (upd_meas k f s) = jsonl_file s" "markdown_file (upd_meas k f s) = markdown_file s"
  "length (all_measurements (upd_meas k f s)) = length (all_measurements s)"
  by (simp_all add: upd_meas_def)

lemma meas_upd: "j < length (all_measurements s) \<Longrightarrow> meas (upd_meas k f s) j = (if j = k then f (meas s j) else meas s j)"
  by (simp add: meas_def upd_meas_def)

lemma active_upd:
  assumes "active_ok s" "\<And>r. r = meas s k \<Longrightarrow> rq_request_id (f r) = rq_request_id r \<and> finalized (f r) = finalized r"
  shows "active_ok (upd_meas k f s)"
  using assms unfolding active_ok_def by (auto simp: frame_simps meas_upd split: if_splits)

lemma upd_meas_keeps:
  assumes "perf_ok T s" "T \<le> now" "k < length (all_measurements s)" "keeps_meas now f"
  shows "perf_ok now (upd_meas k f s)"
proof -
  have m: "meas_ok (pm_par s) T (meas s k)" using assms(1,3) by (simp add: perf_ok_def meas_def)
  with assms(2,4) have f: "meas_ok (pm_par s) now (f (meas s k))" "rq_request_id (f (meas s k)) = rq_request_id (meas s k)"
    "finalized (f (meas s k)) = finalized (meas s k)" unfolding keeps_meas_def by blast+
  moreover have "meas_ok (pm_par s) now r" if "r \<in> set (all_measurements s)" for r
    using assms(1,2) that by (auto simp: perf_ok_def intro: meas_ok_mono)
  ultimately show ?thesis using assms(1) active_upd[of s k f]
    unfolding perf_ok_def by (auto simp: frame_simps) (auto simp: upd_meas_def dest!: set_update_subset_insert[THEN subsetD])
qed

lemma found_active:
  assumes "active_ok s" "find_measurement q s = Some k"
  shows "k \<in> snd ` set (active_by_request_id s)"
proof (cases "py_strip q = []")
  case False
  with assms(2) show ?thesis by (auto simp: find_measurement_def Let_def dest!: map_of_SomeD intro: rev_image_eqI)
next
  case True
  let ?l = "filter (\<lambda>k. \<not> finalized (meas s k)) (map snd (active_by_request_id s))"
  have "?l = [k] \<or> current_measurement s = Some k"
    using assms(2) True unfolding find_measurement_def Let_def by (auto split: list.splits option.splits if_splits)
  then have "k \<in> set ?l \<or> current_measurement s = Some k" by (metis list.set_intros(1))
  with assms(1) show ?thesis by (auto simp: active_ok_def)
qed

lemma active_index: "active_ok s \<Longrightarrow> k \<in> snd ` set (active_by_request_id s) \<Longrightarrow> k < length (all_measurements s) \<and> \<not> finalized (meas s k)"
  by (auto simp: active_ok_def)

lemma on_measurement_keeps:
  assumes "perf_ok T s" "T \<le> now" "keeps_meas now f"
  shows "perf_ok now (on_measurement (find_measurement q s) source f s)"
proof (cases "find_measurement q s")
  case None
  with assms show ?thesis by (auto simp: on_measurement_def intro: perf_ok_mono)
next
  case (Some k)
  then have "k < length (all_measurements s)" using assms(1) found_active active_index unfolding perf_ok_def by blast
  with assms Some show ?thesis by (auto simp: on_measurement_def intro: perf_ok_mono upd_meas_keeps)
qed

section \<open>Requests\<close>

definition new_measurement :: "pm_params \<Rightarrow> pbft_message \<Rightarrow> string \<Rightarrow> string \<Rightarrow> measurement" where
  "new_measurement p m run_id utc =
     \<lparr>rq_run_id = run_id, rq_scenario_label = pm_scenario_label p, rq_request_id = py_strip (m_request_id m), rq_digest = m_digest m,
      rq_emergency_stop = m_stop m, rq_replica_count = pm_replica_count p, rq_max_faulty = pm_max_faulty p,
      rq_initial_view = m_view m, rq_faulty_nodes = pm_faulty_nodes p, rq_faulty_behaviors = pm_faulty_behaviors p,
      rq_started_at = utc, first_arrival_ns = Map.empty, first_source_stamp_ns = Map.empty, rq_counts = (\<lambda>_. 0),
      unique_senders = (\<lambda>_. {}), views_seen = {m_view m}, seen_fingerprints = {}, decision_view = None,
      rq_sequence_number = None, decision_committed = None, terminal_safety_state = [], completed_at = [],
      rq_result = ''RUNNING'', completion_arrival_ns = None, finalized = False\<rparr>"

lemma new_measurement_ok:
  assumes "py_strip (m_request_id m) \<noteq> []" "request_id_filter p = [] \<or> py_strip (m_request_id m) = request_id_filter p"
  fixes source now :: int and run_id utc :: string
  defines "r \<equiv> measure_protocol P_request m source now (new_measurement p m run_id utc)"
  shows "meas_ok p now r" "rq_request_id r = py_strip (m_request_id m)" "\<not> finalized r"
proof -
  have "meas_ok p now r \<and> rq_request_id r = py_strip (m_request_id m) \<and> \<not> finalized r"
    using assms(1,2) unfolding r_def measure_protocol_def new_measurement_def Let_def
    by (simp add: see_view_def note_event_def note_copy_def meas_ok_def of_node_def times_ok_def counts_ok_def copies_ok_def decided_ok_def RESULTS_def) blast
  then show "meas_ok p now r" "rq_request_id r = py_strip (m_request_id m)" "\<not> finalized r" by simp_all
qed

lemma request_cases:
  obtains (ignored) "pm_protocol_callback P_request m source now run_id utc s = s"
      "py_strip (m_request_id m) = [] \<or> (request_id_filter (pm_par s) \<noteq> [] \<and> py_strip (m_request_id m) \<noteq> request_id_filter (pm_par s))"
  | (known) k where "(py_strip (m_request_id m), k) \<in> set (active_by_request_id s)"
      "pm_protocol_callback P_request m source now run_id utc s = upd_meas k (measure_protocol P_request m source now) s"
  | (fresh) r where "py_strip (m_request_id m) \<notin> fst ` set (active_by_request_id s)" "meas_ok (pm_par s) now r"
      "rq_request_id r = py_strip (m_request_id m)" "\<not> finalized r"
      "pm_protocol_callback P_request m source now run_id utc s = s\<lparr>all_measurements := all_measurements s @ [r],
         active_by_request_id := active_by_request_id s @ [(py_strip (m_request_id m), length (all_measurements s))],
         current_measurement := Some (length (all_measurements s))\<rparr>"
proof -
  let ?q = "py_strip (m_request_id m)"
  consider (a) "?q = [] \<or> (request_id_filter (pm_par s) \<noteq> [] \<and> ?q \<noteq> request_id_filter (pm_par s))"
    | (b) k where "\<not> (?q = [] \<or> (request_id_filter (pm_par s) \<noteq> [] \<and> ?q \<noteq> request_id_filter (pm_par s)))" "map_of (active_by_request_id s) ?q = Some k"
    | (c) "\<not> (?q = [] \<or> (request_id_filter (pm_par s) \<noteq> [] \<and> ?q \<noteq> request_id_filter (pm_par s)))" "map_of (active_by_request_id s) ?q = None"
    by fastforce
  then show ?thesis
  proof cases
    case a
    then show ?thesis by (intro ignored) (auto simp: pm_protocol_callback_def start_or_get_measurement_def Let_def)
  next
    case (b k)
    then show ?thesis by (intro known[of k]) (auto simp: pm_protocol_callback_def start_or_get_measurement_def Let_def dest: map_of_SomeD)
  next
    case c
    let ?r = "measure_protocol P_request m source now (new_measurement (pm_par s) m run_id utc)"
    have new: "?q \<notin> fst ` set (active_by_request_id s)" using c(2) by (simp add: map_of_eq_None_iff)
    have "start_or_get_measurement m run_id utc s = (Some (length (all_measurements s)),
        s\<lparr>all_measurements := all_measurements s @ [new_measurement (pm_par s) m run_id utc],
          active_by_request_id := dict_set ?q (length (all_measurements s)) (active_by_request_id s),
          current_measurement := Some (length (all_measurements s))\<rparr>)"
      using c unfolding start_or_get_measurement_def new_measurement_def Let_def by auto
    then show ?thesis using c(1) new
      by (intro fresh[of ?r] new_measurement_ok) (auto simp: pm_protocol_callback_def upd_meas_def meas_def dict_set_new[OF c(2)])
  qed
qed

lemma fresh_active:
  assumes "active_ok s" "q \<notin> fst ` set (active_by_request_id s)" "rq_request_id r = q" "\<not> finalized r"
  shows "active_ok (s\<lparr>all_measurements := all_measurements s @ [r], active_by_request_id := active_by_request_id s @ [(q, length (all_measurements s))],
    current_measurement := Some (length (all_measurements s))\<rparr>)"
  using assms unfolding active_ok_def meas_def
  by (auto simp: nth_append less_Suc_eq)

lemma protocol_callback_keeps:
  assumes "perf_ok T s" "T \<le> now"
  shows "perf_ok now (pm_protocol_callback t m source now run_id utc s)"
proof (cases "t = P_request")
  case False
  with assms show ?thesis by (simp add: pm_protocol_callback_def on_measurement_keeps protocol_keeps)
next
  case True
  show ?thesis unfolding True
  proof (rule request_cases[of m source now run_id utc s])
    fix k assume "(py_strip (m_request_id m), k) \<in> set (active_by_request_id s)"
    then have "k < length (all_measurements s)" using assms(1) by (auto simp: perf_ok_def active_ok_def)
    moreover assume "pm_protocol_callback P_request m source now run_id utc s = upd_meas k (measure_protocol P_request m source now) s"
    ultimately show "perf_ok now (pm_protocol_callback P_request m source now run_id utc s)"
      using assms by (simp add: upd_meas_keeps protocol_keeps)
  next
    fix r assume "py_strip (m_request_id m) \<notin> fst ` set (active_by_request_id s)" "meas_ok (pm_par s) now r"
      "rq_request_id r = py_strip (m_request_id m)" "\<not> finalized r"
      "pm_protocol_callback P_request m source now run_id utc s = s\<lparr>all_measurements := all_measurements s @ [r],
         active_by_request_id := active_by_request_id s @ [(py_strip (m_request_id m), length (all_measurements s))],
         current_measurement := Some (length (all_measurements s))\<rparr>"
    with perf_ok_mono[OF assms] show "perf_ok now (pm_protocol_callback P_request m source now run_id utc s)"
      by (auto simp: perf_ok_def fresh_active)
  qed (use perf_ok_mono[OF assms] in simp)
qed

section \<open>Files\<close>

definition csv_lines :: "py_floats \<Rightarrow> string list list \<Rightarrow> (string \<times> jval) list list \<Rightarrow> string list list" where
  "csv_lines F csv rows = (if rows = [] then csv else (if csv = [] then [CSV_FIELDS] else csv) @ map (\<lambda>row. map (csv_cell F row) CSV_FIELDS) rows)"

definition files_ok :: "py_floats \<Rightarrow> string list list \<Rightarrow> (string \<times> jval) list list \<Rightarrow> string list \<Rightarrow> (string \<times> jval) list list \<Rightarrow> perf_monitor \<Rightarrow> bool" where
  "files_ok F csv jsonl md rows s \<longleftrightarrow>
     jsonl_file s = jsonl @ rows \<and> csv_file s = csv_lines F csv rows \<and>
     markdown_file s = (if rows = [] then md else regenerate_markdown (csv_file s) md) \<and> (\<forall>row \<in> set rows. row_ok (pm_par s) row) \<and>
     mset (map (\<lambda>row. text_of row ''request_id'') rows) + mset (map fst (active_by_request_id s)) = mset (map rq_request_id (all_measurements s))"

lemma csv_lines_append: "csv_lines F csv (rows @ [row]) = append_csv F row (csv_lines F csv rows)"
  by (simp add: csv_lines_def append_csv_def)

lemma csv_lines_Cons: "rows \<noteq> [] \<Longrightarrow> csv_lines F csv rows \<noteq> []"
  by (simp add: csv_lines_def)

lemma regenerate_any: "csv \<noteq> [] \<Longrightarrow> regenerate_markdown csv md = regenerate_markdown csv md'"
  by (simp add: regenerate_markdown_def split: list.splits)

lemma remove_key:
  assumes "distinct (map fst d)" "(q, k) \<in> set d"
  shows "mset (map fst d) = add_mset q (mset (map fst (filter (\<lambda>kv. fst kv \<noteq> q) d)))"
  using assms
proof (induction d)
  case (Cons x d)
  show ?case
  proof (cases "fst x = q")
    case True
    have "q \<notin> fst ` set d" using Cons.prems(1) unfolding True[symmetric] by simp
    then have "\<forall>kv \<in> set d. fst kv \<noteq> q" by (auto simp: image_iff)
    then have "filter (\<lambda>kv. fst kv \<noteq> q) d = d" by (simp add: filter_id_conv)
    with True show ?thesis by simp
  qed (use Cons in auto)
qed simp

lemma map_id_upd:
  assumes "rq_request_id (f (meas s k)) = rq_request_id (meas s k)"
  shows "map rq_request_id (all_measurements (upd_meas k f s)) = map rq_request_id (all_measurements s)"
  using assms by (cases "k < length (all_measurements s)") (simp_all add: upd_meas_def meas_def map_update list_update_same_conv list_update_beyond)

lemma files_upd:
  assumes "rq_request_id (f (meas s k)) = rq_request_id (meas s k)"
  shows "files_ok F csv jsonl md rows (upd_meas k f s) = files_ok F csv jsonl md rows s"
  by (simp add: files_ok_def frame_simps map_id_upd[where f = f and k = k, OF assms])

section \<open>Finalization\<close>

lemma build_row_ok:
  assumes "meas_ok p T r" "T \<le> now" "rq_result r \<noteq> ''RUNNING''"
  obtains row where "build_row now r = Inr row" "row_ok p row" "text_of row ''request_id'' = rq_request_id r"
proof -
  from assms(1) obtain t0 where t: "first_arrival_ns r ''request'' = Some t0" "t0 \<le> T" "\<And>n t. first_arrival_ns r n = Some t \<Longrightarrow> t0 \<le> t"
    "\<And>t. completion_arrival_ns r = Some t \<Longrightarrow> t0 \<le> t"
    unfolding meas_ok_def times_ok_def by blast
  let ?t1 = "case completion_arrival_ns r of None \<Rightarrow> now | Some t \<Rightarrow> if t = 0 then now else t"
  have "t0 \<le> ?t1" using t assms(2) by (auto split: option.splits)
  then have l: "0 \<le> ns_difference_ms t0 ?t1" by (simp add: ns_difference_ms_def py_round_nonneg)
  have d: "cell_ok C_latency_or_empty (delta_ms (first_arrival_ns r) ''request'' n)" for n
    using t by (intro delta_latency) auto
  have "row_ok p (row_cells t0 ?t1 r)"
    using assms row_types[of r, OF d l] row_counts[of T r] row_result[of p r T] by (simp add: row_ok_def row_typed_def row_fields meas_ok_def)
  with t(1) show ?thesis by (intro that[of "row_cells t0 ?t1 r"]) (simp_all add: build_row_def row_texts)
qed

lemma finalize_active:
  assumes "active_ok s" "k \<in> snd ` set (active_by_request_id s)" and s': "all_measurements s' = all_measurements (upd_meas k f s)"
    "active_by_request_id s' = filter (\<lambda>kv. fst kv \<noteq> rq_request_id (meas s k)) (active_by_request_id s)"
    "current_measurement s' = (if current_measurement s = Some k then (if active_by_request_id s' = [] then None else Some (snd (last (active_by_request_id s'))))
       else current_measurement s)"
    and f: "rq_request_id (f (meas s k)) = rq_request_id (meas s k)" "finalized (f (meas s k))"
  shows "active_ok s'"
proof -
  let ?q = "rq_request_id (meas s k)"
  have k: "k < length (all_measurements s)" "(?q, k) \<in> set (active_by_request_id s)" using assms(1,2) by (auto simp: active_ok_def)
  have uniq: "j = k" if "j < length (all_measurements s)" "rq_request_id (meas s j) = ?q" "\<not> finalized (meas s j)" for j
  proof -
    have "(?q, j) \<in> set (active_by_request_id s)" using assms(1) that by (simp add: active_ok_def)
    with k(2) assms(1) show ?thesis unfolding active_ok_def by (metis map_of_is_SomeI option.inject)
  qed
  have m: "meas s' j = (if j = k then f (meas s j) else meas s j)" if "j < length (all_measurements s)" for j
    using that s'(1) meas_upd[of j s k f] by (simp add: meas_def)
  have iff: "(q, j) \<in> set (active_by_request_id s') \<longleftrightarrow> j < length (all_measurements s') \<and> rq_request_id (meas s' j) = q \<and> \<not> finalized (meas s' j)" for q j
    using assms(1) uniq f unfolding active_ok_def s'(1,2) by (auto simp: m frame_simps split: if_splits)
  have "j \<in> snd ` set (active_by_request_id s')" if "current_measurement s' = Some j" for j
  proof (cases "current_measurement s = Some k")
    case True
    with that s'(3) have "active_by_request_id s' \<noteq> []" "j = snd (last (active_by_request_id s'))" by (auto split: if_splits)
    then show ?thesis by simp
  next
    case False
    with that s'(3) have "j \<noteq> k" "j \<in> snd ` set (active_by_request_id s)" using assms(1) by (auto simp: active_ok_def)
    then have "(rq_request_id (meas s j), j) \<in> set (active_by_request_id s')" 
      using assms(1) iff m uniq unfolding s'(2) active_ok_def by auto
    then show ?thesis by (rule rev_image_eqI) simp
  qed
  with iff assms(1) show ?thesis unfolding active_ok_def s'(2) by (simp add: distinct_map_filter)
qed

lemma finalize_ok:
  assumes ok: "perf_ok T s" and k: "k \<in> snd ` set (active_by_request_id s)" and "rq_result (meas s k) \<noteq> ''RUNNING''" "T \<le> now k"
    and files: "files_ok F csv jsonl md rows s"
  shows "\<exists>row s'. finalize_measurement F utc now k s = Inr s' \<and> perf_ok T s' \<and> files_ok F csv jsonl md (rows @ [row]) s' \<and> pm_par s' = pm_par s \<and>
    active_by_request_id s' = filter (\<lambda>kv. fst kv \<noteq> rq_request_id (meas s k)) (active_by_request_id s) \<and>
    all_measurements s' = all_measurements (upd_meas k (\<lambda>r. r\<lparr>finalized := True, completed_at := utc k\<rparr>) s)"
proof -
  let ?f = "\<lambda>r. r\<lparr>finalized := True, completed_at := utc k\<rparr>"
  define s1 where "s1 = upd_meas k ?f s"
  have act: "active_ok s" using ok by (simp add: perf_ok_def)
  have i: "k < length (all_measurements s)" "\<not> finalized (meas s k)" "(rq_request_id (meas s k), k) \<in> set (active_by_request_id s)"
    using act k by (auto simp: active_ok_def)
  have m: "meas s1 k = ?f (meas s k)" unfolding s1_def using i(1) by (simp add: meas_upd)
  have same: "meas_ok p t (?f r) = meas_ok p t r" for p t r
    by (simp add: meas_ok_def of_node_def times_ok_def counts_ok_def copies_ok_def decided_ok_def)
  have mk: "meas_ok (pm_par s) T (meas s1 k)" unfolding m same using ok i(1) by (simp add: perf_ok_def meas_def)
  obtain row where row: "build_row (now k) (meas s1 k) = Inr row" "row_ok (pm_par s) row" "text_of row ''request_id'' = rq_request_id (meas s1 k)"
    using build_row_ok[OF mk assms(4)] assms(3) m by auto
  define s2 where "s2 = s1\<lparr>csv_file := append_csv F row (csv_file s1), jsonl_file := jsonl_file s1 @ [row],
    markdown_file := regenerate_markdown (append_csv F row (csv_file s1)) (markdown_file s1),
    active_by_request_id := filter (\<lambda>kv. fst kv \<noteq> rq_request_id (meas s k)) (active_by_request_id s),
    current_measurement := (if current_measurement s = Some k then (if filter (\<lambda>kv. fst kv \<noteq> rq_request_id (meas s k)) (active_by_request_id s) = [] then None
      else Some (snd (last (filter (\<lambda>kv. fst kv \<noteq> rq_request_id (meas s k)) (active_by_request_id s))))) else current_measurement s)\<rparr>"
  have "finalize_measurement F utc now k s = Inr s2"
    using i(2) row(1) unfolding finalize_measurement_def s1_def[symmetric] s2_def by (simp add: m Let_def) (simp add: s1_def frame_simps)
  moreover have all: "all_measurements s2 = all_measurements s1" "pm_par s2 = pm_par s" by (simp_all add: s2_def) (simp add: s1_def frame_simps)
  moreover have "active_ok s2"
    by (rule finalize_active[OF act k, of s2 ?f]) (simp_all add: s2_def s1_def)
  moreover have "meas_ok (pm_par s) T r" if "r \<in> set (all_measurements s1)" for r
    using that ok mk m unfolding perf_ok_def s1_def upd_meas_def by (auto simp: same dest!: set_update_subset_insert[THEN subsetD])
  moreover have "files_ok F csv jsonl md (rows @ [row]) s2"
  proof -
    have "files_ok F csv jsonl md rows s1" unfolding s1_def using files files_upd[of ?f s k] by simp
    moreover have "mset (map fst (active_by_request_id s)) = add_mset (rq_request_id (meas s k)) (mset (map fst (active_by_request_id s2)))"
      using remove_key[OF _ i(3)] act unfolding active_ok_def by (simp add: s2_def)
    ultimately show ?thesis using row(2,3) m unfolding files_ok_def all
      by (simp add: s2_def csv_lines_append) (auto simp: s1_def frame_simps regenerate_any append_csv_def)
  qed
  ultimately show ?thesis unfolding perf_ok_def by (auto simp: s1_def s2_def)
qed

section \<open>The loops\<close>

definition active_indices :: "perf_monitor \<Rightarrow> nat set" where
  "active_indices s = snd ` set (active_by_request_id s)"

definition perf_inv :: "py_floats \<Rightarrow> string list list \<Rightarrow> (string \<times> jval) list list \<Rightarrow> string list \<Rightarrow> int \<Rightarrow> perf_monitor \<Rightarrow> bool" where
  "perf_inv F csv jsonl md T s \<longleftrightarrow> perf_ok T s \<and> (\<exists>rows. files_ok F csv jsonl md rows s)"

definition same_requests :: "perf_monitor \<Rightarrow> perf_monitor \<Rightarrow> bool" where
  "same_requests s s' \<longleftrightarrow> pm_par s' = pm_par s \<and> map rq_request_id (all_measurements s') = map rq_request_id (all_measurements s)"

text \<open>One round of a loop: the measurement may be finished (and is, when \<open>fin\<close> holds), the others stay as they are.\<close>

definition loop_step :: "py_floats \<Rightarrow> string list list \<Rightarrow> (string \<times> jval) list list \<Rightarrow> string list \<Rightarrow> int \<Rightarrow> bool \<Rightarrow>
    nat set \<Rightarrow> perf_monitor \<Rightarrow> perf_monitor \<Rightarrow> bool" where
  "loop_step F csv jsonl md T fin K s s' \<longleftrightarrow> perf_inv F csv jsonl md T s' \<and> same_requests s s' \<and>
     active_indices s - K \<subseteq> active_indices s' \<and> active_indices s' \<subseteq> active_indices s \<and> (fin \<longrightarrow> active_indices s' \<inter> K = {})"

lemma loop_ok:
  assumes "\<And>k s. perf_inv F csv jsonl md T s \<Longrightarrow> k \<in> active_indices s \<Longrightarrow> okE (loop_step F csv jsonl md T fin {k} s) (f k s)"
  shows "perf_inv F csv jsonl md T s \<Longrightarrow> distinct ks \<Longrightarrow> set ks \<subseteq> active_indices s \<Longrightarrow>
    okE (loop_step F csv jsonl md T fin (set ks) s) (foldE f ks s)"
proof (induction ks arbitrary: s)
  case (Cons k ks)
  from assms[OF Cons.prems(1), of k] Cons.prems(3) obtain s1 where s1: "f k s = Inr s1" "loop_step F csv jsonl md T fin {k} s s1"
    by (auto simp: okE_iff)
  then have "okE (loop_step F csv jsonl md T fin (set ks) s1) (foldE f ks s1)"
    using Cons.prems(2,3) by (intro Cons.IH) (auto simp: loop_step_def)
  then show ?case using s1 unfolding foldE.simps bindE_simps s1(1)
    by (elim okE_mono) (auto simp: loop_step_def same_requests_def)
qed (auto simp: loop_step_def same_requests_def)

lemma finalize_step:
  assumes inv: "perf_inv F csv jsonl md T s" and k: "k \<in> active_indices s" and x: "x = None \<or> x \<in> Some ` {''MEASUREMENT_TIMEOUT'', ''INTERRUPTED''}"
    and fin: "x = None \<longrightarrow> completion_arrival_ns (meas s k) \<noteq> None" and "T \<le> now k"
  shows "okE (loop_step F csv jsonl md T True {k} s)
    (finalize_measurement F utc now k (case x of None \<Rightarrow> s | Some result \<Rightarrow> upd_meas k (complete_with result T) s))"
proof -
  define s1 where "s1 = (case x of None \<Rightarrow> s | Some result \<Rightarrow> upd_meas k (complete_with result T) s)"
  obtain rows where ok: "perf_ok T s" and files: "files_ok F csv jsonl md rows s" using inv by (auto simp: perf_inv_def)
  have i: "k < length (all_measurements s)" using ok k by (auto simp: perf_ok_def active_ok_def active_indices_def)
  have mk: "meas_ok (pm_par s) T (meas s k)" using ok i by (simp add: perf_ok_def meas_def)
  have same: "active_by_request_id s1 = active_by_request_id s" "same_requests s s1" "rq_request_id (meas s1 k) = rq_request_id (meas s k)"
    using i unfolding s1_def same_requests_def
    by (auto simp: frame_simps meas_upd map_id_upd split: option.splits)
  have files1: "files_ok F csv jsonl md rows s1" using files unfolding s1_def by (auto simp: frame_simps files_upd split: option.splits)
  have ok1: "perf_ok T s1" using ok x i complete_keeps unfolding s1_def by (auto intro: upd_meas_keeps split: option.splits)
  have "rq_result (meas s1 k) \<noteq> ''RUNNING''"
    using fin x mk i unfolding s1_def by (auto simp: meas_upd complete_with_def meas_ok_def decided_ok_def)
  then obtain row s' where s': "finalize_measurement F utc now k s1 = Inr s'" "perf_ok T s'" "files_ok F csv jsonl md (rows @ [row]) s'"
      "pm_par s' = pm_par s1" "active_by_request_id s' = filter (\<lambda>kv. fst kv \<noteq> rq_request_id (meas s1 k)) (active_by_request_id s1)"
      "all_measurements s' = all_measurements (upd_meas k (\<lambda>r. r\<lparr>finalized := True, completed_at := utc k\<rparr>) s1)"
    using finalize_ok[OF ok1 _ _ _ files1, of k now utc] assms(5) k unfolding active_indices_def same(1) by blast
  have kq: "(q, j) \<in> set (active_by_request_id s) \<Longrightarrow> q = rq_request_id (meas s k) \<longleftrightarrow> j = k" for q j
    using ok k unfolding perf_ok_def active_ok_def active_indices_def
    by (metis (no_types, lifting) eq_key_imp_eq_value imageE prod.collapse)
  have "active_indices s' = active_indices s - {k}"
    unfolding s'(5) same(1,3) active_indices_def using kq by (auto simp: image_iff)
  moreover have "map rq_request_id (all_measurements s') = map rq_request_id (all_measurements s1)"
    unfolding s'(6) by (rule map_id_upd) simp
  ultimately show ?thesis using s' same(2) unfolding s1_def[symmetric] s'(1)
    by (auto simp: loop_step_def perf_inv_def same_requests_def)
qed

lemma complete_eta: "(\<lambda>r. r\<lparr>rq_result := x, completion_arrival_ns := Some t\<rparr>) = complete_with x t"
  by (rule ext) (simp add: complete_with_def)

lemma active_list:
  assumes "perf_inv F csv jsonl md T s"
  shows "distinct (map snd (active_by_request_id s))" "set (map snd (active_by_request_id s)) = active_indices s"
proof -
  have "active_ok s" using assms by (simp add: perf_inv_def perf_ok_def)
  then have "distinct (active_by_request_id s)" "inj_on snd (set (active_by_request_id s))"
    unfolding active_ok_def by (auto intro: distinct_map[THEN iffD1, THEN conjunct1] simp: inj_on_def)
  then show "distinct (map snd (active_by_request_id s))" by (simp add: distinct_map)
qed (simp add: active_indices_def)

lemma check_finalization_ok:
  assumes "perf_inv F csv jsonl md T s" and "\<And>k. T \<le> now k"
  shows "okE (loop_step F csv jsonl md T False (active_indices s) s) (check_finalization F utc now T s)"
proof -
  have step: "okE (loop_step F csv jsonl md T False {k} q) (check_measurement F utc now T k q)"
    if q: "perf_inv F csv jsonl md T q" "k \<in> active_indices q" for k q
  proof -
    have "meas_ok (pm_par q) T (meas q k)" using q by (auto simp: perf_inv_def perf_ok_def active_ok_def active_indices_def meas_def)
    then obtain t0 where t0: "first_arrival_ns (meas q k) ''request'' = Some t0" by (auto simp: meas_ok_def times_ok_def)
    have weaken: "okE (loop_step F csv jsonl md T True {k} q) e \<Longrightarrow> okE (loop_step F csv jsonl md T False {k} q) e" for e
      by (elim okE_mono) (simp add: loop_step_def)
    have a: "okE (loop_step F csv jsonl md T False {k} q) (finalize_measurement F utc now k q)" if "completion_arrival_ns (meas q k) \<noteq> None"
      using finalize_step[OF q, of None now utc] that assms(2) weaken by simp
    have b: "okE (loop_step F csv jsonl md T False {k} q) (finalize_measurement F utc now k (upd_meas k (complete_with ''MEASUREMENT_TIMEOUT'' T) q))"
      using finalize_step[OF q, of "Some ''MEASUREMENT_TIMEOUT''" now utc] assms(2) weaken by simp
    show ?thesis unfolding check_measurement_def t0 option.case complete_eta
      using a b q(1) by (auto simp: loop_step_def same_requests_def split: option.splits)
  qed
  show ?thesis unfolding check_finalization_def
    using loop_ok[where f = "check_measurement F utc now T", OF step assms(1), of "map snd (active_by_request_id s)"] active_list[OF assms(1)] by simp
qed

lemma finalize_pending_ok:
  assumes "perf_inv F csv jsonl md T s" and "\<And>k. T \<le> now k"
  shows "okE (loop_step F csv jsonl md T True (active_indices s) s) (finalize_pending F utc now T ''INTERRUPTED'' s)"
proof -
  have step: "okE (loop_step F csv jsonl md T True {k} q) (if finalized (meas q k) then Inr q
      else finalize_measurement F utc now k (upd_meas k (complete_with ''INTERRUPTED'' T) q))"
    if q: "perf_inv F csv jsonl md T q" "k \<in> active_indices q" for k q
  proof -
    have "\<not> finalized (meas q k)" using q by (auto simp: perf_inv_def perf_ok_def active_ok_def active_indices_def)
    then show ?thesis using finalize_step[OF q, of "Some ''INTERRUPTED''" now utc] assms(2) by simp
  qed
  show ?thesis unfolding finalize_pending_def complete_eta
    using loop_ok[OF step assms(1), of "map snd (active_by_request_id s)"] active_list[OF assms(1)] by simp
qed

lemma pending_empty: "loop_step F csv jsonl md T True (active_indices s) s s' \<Longrightarrow> active_by_request_id s' = []"
  unfolding loop_step_def active_indices_def by (metis Int_absorb2 image_is_empty set_empty)

section \<open>Runs\<close>

text \<open>
  Operations that read a clock: when the readings do not decrease, every operation keeps the invariant at its reading, and what has
  been seen grows by what the operation adds.
\<close>

locale clocked_machine =
  fixes exec :: "'op \<Rightarrow> 's \<Rightarrow> 'err + 's" and time :: "'op \<Rightarrow> int" and fine :: "'op \<Rightarrow> bool" and inv :: "int \<Rightarrow> 's \<Rightarrow> bool"
    and seen :: "'s \<Rightarrow> 'x set" and adds :: "'op \<Rightarrow> 'x set"
  assumes exec_at: "inv T s \<Longrightarrow> T \<le> time a \<Longrightarrow> fine a \<Longrightarrow> okE (\<lambda>s'. inv (time a) s' \<and> seen s' = seen s \<union> adds a) (exec a s)"
begin

lemma clocked_run:
  "inv T s \<Longrightarrow> sorted (T # map time as) \<Longrightarrow> list_all fine as \<Longrightarrow>
    okE (\<lambda>s'. inv (last (T # map time as)) s' \<and> seen s' = seen s \<union> \<Union> (adds ` set as)) (foldE exec as s)"
proof (induction as arbitrary: T s)
  case (Cons a as)
  then have "okE (\<lambda>s'. inv (time a) s' \<and> seen s' = seen s \<union> adds a) (exec a s)" by (intro exec_at) auto
  then obtain s1 where s1: "exec a s = Inr s1" "inv (time a) s1" "seen s1 = seen s \<union> adds a" by (auto simp: okE_iff)
  have "okE (\<lambda>s'. inv (last (time a # map time as)) s' \<and> seen s' = seen s1 \<union> \<Union> (adds ` set as)) (foldE exec as s1)"
    using Cons.IH[of "time a" s1] Cons.prems s1(2) by simp
  then show ?case unfolding foldE.simps s1(1) bindE_simps by (elim okE_mono) (auto simp: s1(3))
qed simp

end

fun event_ok :: "int \<times> pm_event \<Rightarrow> bool" where
  "event_ok (now, PM_timer utc now') = (\<forall>k. now \<le> now' k)"
| "event_ok (now, PM_shutdown utc now') = (\<forall>k. now \<le> now' k)"
| "event_ok _ = True"

text \<open>The requests that the node has to measure.\<close>

fun requested :: "pm_params \<Rightarrow> int \<times> pm_event \<Rightarrow> string set" where
  "requested p (now, PM_protocol P_request m source run_id utc) =
     (let q = py_strip (m_request_id m) in if q = [] \<or> (request_id_filter p \<noteq> [] \<and> q \<noteq> request_id_filter p) then {} else {q})"
| "requested p _ = {}"

definition measured :: "perf_monitor \<Rightarrow> string set" where
  "measured s = rq_request_id ` set (all_measurements s)"

lemma measured_same: "same_requests s s' \<Longrightarrow> measured s' = measured s"
  unfolding measured_def same_requests_def by (metis list.set_map)

lemma same_par: "same_requests s s' \<Longrightarrow> pm_par s' = pm_par s"
  by (simp add: same_requests_def)

lemma on_measurement_step:
  assumes "perf_inv F csv jsonl md T s" "T \<le> now" "keeps_meas now f"
  shows "perf_inv F csv jsonl md now (on_measurement (find_measurement q s) source f s) \<and>
    same_requests s (on_measurement (find_measurement q s) source f s)"
proof (cases "find_measurement q s")
  case None
  with assms show ?thesis by (auto simp: on_measurement_def perf_inv_def same_requests_def intro: perf_ok_mono)
next
  case (Some k)
  have "meas_ok (pm_par s) T (meas s k)"
    using assms(1) Some found_active active_index unfolding perf_inv_def perf_ok_def meas_def by (metis nth_mem)
  then have "rq_request_id (f (meas s k)) = rq_request_id (meas s k)" using assms(2,3) unfolding keeps_meas_def by blast
  then show ?thesis using Some assms on_measurement_keeps[OF _ assms(2,3), of s q source]
    by (auto simp: on_measurement_def perf_inv_def same_requests_def files_upd frame_simps map_id_upd)
qed

lemma known_request:
  fixes source :: int
  assumes ok: "perf_ok T s" "T \<le> now" "files_ok F csv jsonl md rows s" and k: "(py_strip (m_request_id m), k) \<in> set (active_by_request_id s)"
  defines "s' \<equiv> upd_meas k (measure_protocol P_request m source now) s"
  shows "files_ok F csv jsonl md rows s'" "measured s' = measured s \<union> requested (pm_par s) (now, PM_protocol P_request m source run_id utc)"
proof -
  let ?q = "py_strip (m_request_id m)"
  have i: "k < length (all_measurements s)" "rq_request_id (meas s k) = ?q" using k ok by (auto simp: perf_ok_def active_ok_def)
  then have m: "meas_ok (pm_par s) T (meas s k)" using ok by (simp add: perf_ok_def meas_def)
  then have same: "rq_request_id (measure_protocol P_request m source now (meas s k)) = rq_request_id (meas s k)"
    using protocol_keeps ok(2) unfolding keeps_meas_def by blast
  show "files_ok F csv jsonl md rows s'"
    using files_upd[where f = "measure_protocol P_request m source now", OF same] ok(3) unfolding s'_def by blast
  have "same_requests s s'" unfolding s'_def
    using map_id_upd[where f = "measure_protocol P_request m source now", OF same] by (simp add: same_requests_def frame_simps)
  moreover have "?q \<in> measured s" using i unfolding measured_def meas_def by (metis image_eqI nth_mem)
  ultimately show "measured s' = measured s \<union> requested (pm_par s) (now, PM_protocol P_request m source run_id utc)"
    using measured_same by (auto simp: Let_def)
qed

lemma request_step:
  fixes m source run_id utc
  assumes ok: "perf_ok T s" "T \<le> now" "files_ok F csv jsonl md rows s"
  defines "s' \<equiv> pm_protocol_callback P_request m source now run_id utc s"
  shows "files_ok F csv jsonl md rows s' \<and> pm_par s' = pm_par s \<and>
    measured s' = measured s \<union> requested (pm_par s) (now, PM_protocol P_request m source run_id utc)"
  unfolding s'_def
proof (rule request_cases[of m source now run_id utc s], goal_cases)
  case (2 k)
  with known_request[OF ok] show ?case by (simp add: frame_simps)
qed (use ok(3) in \<open>auto simp: files_ok_def measured_def meas_ok_def of_node_def\<close>)

lemma protocol_step:
  fixes t m source run_id utc
  assumes "perf_inv F csv jsonl md T s" "T \<le> now"
  defines "s' \<equiv> pm_protocol_callback t m source now run_id utc s"
  shows "perf_inv F csv jsonl md now s' \<and> pm_par s' = pm_par s \<and>
    measured s' = measured s \<union> requested (pm_par s) (now, PM_protocol t m source run_id utc)"
proof (cases "t = P_request")
  case False
  then have "s' = on_measurement (find_measurement (m_request_id m) s) source (measure_protocol t m source now) s"
    "requested (pm_par s) (now, PM_protocol t m source run_id utc) = {}"
    by (simp add: s'_def pm_protocol_callback_def) (use False in \<open>cases t; simp\<close>)
  then show ?thesis using on_measurement_step[OF assms(1,2) protocol_keeps] measured_same by (metis same_requests_def sup_bot.right_neutral)
next
  case True
  obtain rows where "perf_ok T s" "files_ok F csv jsonl md rows s" using assms(1) by (auto simp: perf_inv_def)
  with protocol_callback_keeps[of T s now] request_step[of T s now] True assms(2) show ?thesis unfolding s'_def perf_inv_def by blast
qed

lemma pm_step_ok:
  assumes "perf_inv F csv jsonl md T s" "T \<le> fst e" "event_ok e"
  shows "okE (\<lambda>s'. perf_inv F csv jsonl md (fst e) s' \<and> pm_par s' = pm_par s \<and> measured s' = measured s \<union> requested (pm_par s) e) (pm_step F e s)"
proof -
  obtain now ev where e: "e = (now, ev)" by (cases e)
  note T = assms(2)[unfolded e fst_conv] and inv = assms(1)
  have later: "perf_inv F csv jsonl md now s" using inv T by (auto simp: perf_inv_def intro: perf_ok_mono)
  have step: "perf_inv F csv jsonl md now s' \<and> same_requests s s' \<Longrightarrow> perf_inv F csv jsonl md now s' \<and> pm_par s' = pm_par s \<and> measured s' = measured s" for s'
    by (simp add: measured_same same_par)
  have loop: "loop_step F csv jsonl md now fin K s s' \<Longrightarrow> perf_inv F csv jsonl md now s' \<and> pm_par s' = pm_par s \<and> measured s' = measured s" for fin K s'
    using step by (simp add: loop_step_def)
  note callback = step[OF on_measurement_step[OF inv T]]
  show ?thesis
  proof (cases ev)
    case (PM_timer utc now')
    then have clock: "now \<le> now' k" for k using assms(3) by (simp add: e)
    have "okE (\<lambda>s'. perf_inv F csv jsonl md now s' \<and> pm_par s' = pm_par s \<and> measured s' = measured s)
        (check_finalization F utc now' now s)" by (rule okE_mono, rule check_finalization_ok[OF later], rule clock, erule loop)
    then show ?thesis unfolding e PM_timer by simp
  next
    case (PM_shutdown utc now')
    then have clock: "now \<le> now' k" for k using assms(3) by (simp add: e)
    have "okE (\<lambda>s'. perf_inv F csv jsonl md now s' \<and> pm_par s' = pm_par s \<and> measured s' = measured s)
        (finalize_pending F utc now' now ''INTERRUPTED'' s)" by (rule okE_mono, rule finalize_pending_ok[OF later], rule clock, erule loop)
    then show ?thesis unfolding e PM_shutdown by simp
  next
    case (PM_protocol t m source run_id utc)
    then show ?thesis unfolding e using protocol_step[OF inv T] by simp
  next
    case (PM_status m source)
    then show ?thesis unfolding e using callback[OF status_keeps] by (simp add: pm_status_callback_def)
  next
    case (PM_view_change m source)
    then show ?thesis unfolding e using callback[OF view_change_keeps] by (simp add: pm_view_change_callback_def)
  next
    case (PM_new_view m source)
    then show ?thesis unfolding e using callback[OF new_view_keeps] by (simp add: pm_new_view_callback_def)
  next
    case (PM_decision m)
    then show ?thesis unfolding e using callback[OF decision_keeps] by (simp add: pm_decision_callback_def)
  next
    case (PM_safety_state d)
    then show ?thesis unfolding e using callback[OF safety_state_keeps] by (simp add: pm_safety_state_callback_def)
  next
    case PM_safety_output
    then show ?thesis unfolding e using callback[OF safety_output_keeps] by (simp add: pm_safety_output_callback_def)
  qed
qed

interpretation pm: clocked_machine "pm_step F" fst event_ok "\<lambda>T s. perf_inv F csv jsonl md T s \<and> pm_par s = p" measured "requested p"
  for F csv jsonl md p
  using pm_step_ok by unfold_locales (auto elim!: okE_mono)

end
