(* ===== verification/PM_Properties.thy ===== *)
theory PM_Properties
  imports PM_Proofs
begin

text \<open>
  What the performance monitor promises of the rows it writes, with a concrete run; then two behaviours of the code that its readers
  should know: a late decision that is reported as a timeout, and a repeated request that is measured twice.
\<close>

section \<open>Properties\<close>








section \<open>Late decisions and repeated requests\<close>

text \<open>A decision that arrives shortly before the timeout: the row has the latency of the decision and the result of the timeout.\<close>

lemma late_decision_is_timeout:
  assumes k: "k < length (all_measurements s)" "\<not> finalized (meas s k)"
    and t: "first_arrival_ns (meas s k) ''request'' = Some t0" "first_arrival_ns (meas s k) ''decision'' = Some t" "completion_arrival_ns (meas s k) = Some t"
    and late: "of_int (now - t) / 1000000000 < finalize_delay_sec (pm_par s)" "measurement_timeout_sec (pm_par s) \<le> of_int (now - t0) / 1000000000"
  shows "\<exists>row s'. check_measurement F utc clock now k s = Inr s' \<and> jsonl_file s' = jsonl_file s @ [row] \<and>
    text_of row ''result'' = ''MEASUREMENT_TIMEOUT'' \<and> \<not> empty_at row ''request_to_decision_ms''"
proof -
  let ?s = "upd_meas k (complete_with ''MEASUREMENT_TIMEOUT'' now) s"
  let ?r = "(complete_with ''MEASUREMENT_TIMEOUT'' now (meas s k))\<lparr>finalized := True, completed_at := utc k\<rparr>"
  have m: "meas ?s k = complete_with ''MEASUREMENT_TIMEOUT'' now (meas s k)" using k by (simp add: meas_upd)
  then have "meas (upd_meas k (\<lambda>r. r\<lparr>finalized := True, completed_at := utc k\<rparr>) ?s) k = ?r" using k by (simp add: meas_upd frame_simps)
  moreover obtain e where "build_row (clock k) ?r = Inr (row_cells t0 e ?r)" using t by (simp add: build_row_def complete_with_def)
  moreover have "\<not> finalized (meas ?s k)" using k by (simp add: m frame_simps)
  ultimately have "\<exists>s'. finalize_measurement F utc clock k ?s = Inr s' \<and> jsonl_file s' = jsonl_file s @ [row_cells t0 e ?r]"
    unfolding finalize_measurement_def by (simp add: Let_def frame_simps)
  moreover have "\<not> empty_at (row_cells t0 e ?r) ''request_to_decision_ms''" using t row_empty(5)[of ?r t0 e] by (simp add: complete_with_def)
  moreover have "text_of (row_cells t0 e ?r) ''result'' = ''MEASUREMENT_TIMEOUT''" by (simp add: row_texts complete_with_def)
  moreover have "check_measurement F utc clock now k s = finalize_measurement F utc clock k ?s"
    using late t by (simp add: check_measurement_def complete_eta)
  ultimately show ?thesis by auto
qed

text \<open>A REQUEST that is repeated after its row was written is measured again.\<close>

lemma repeated_request_restarts:
  assumes "py_strip (m_request_id m) \<noteq> []" "request_id_filter (pm_par s) = []" "py_strip (m_request_id m) \<notin> fst ` set (active_by_request_id s)"
  shows "length (all_measurements (pm_protocol_callback P_request m source now run_id utc s)) = Suc (length (all_measurements s))"
  using assms by (cases rule: request_cases[of m source now run_id utc s]) (auto simp: image_iff)

end
