(* ===== verification/PBFT_Phases.thy ===== *)
theory PBFT_Phases
  imports PBFT_Types
begin

text \<open>
  The normal case of the protocol, one definition per method of the mixins:
  injected faults (\<^verbatim>\<open>replica/byzantine.py\<close>), the progress watchdog
  (\<^verbatim>\<open>replica/progress_timeout.py\<close>, its callback is with the view change), client
  requests (\<^verbatim>\<open>replica/request_handling.py\<close>), PRE-PREPARE
  (\<^verbatim>\<open>replica/pre_prepare.py\<close>), PREPARE (\<^verbatim>\<open>replica/prepare.py\<close>) and COMMIT
  (\<^verbatim>\<open>replica/commit.py\<close>). An operation that may raise returns \<^typ>\<open>py_error + pbft_replica\<close>.
\<close>

section \<open>Injected faults\<close>

definition has_behavior :: "string \<Rightarrow> pbft_replica \<Rightarrow> bool" where
  "has_behavior b s = (is_byzantine (params s) \<and> byzantine_behavior (params s) = b)"

definition is_skip_pre_prepare_byzantine :: "pbft_replica \<Rightarrow> bool" where
  "is_skip_pre_prepare_byzantine s = has_behavior ''skip_pre_prepare'' s"

definition is_silent_byzantine :: "pbft_replica \<Rightarrow> bool" where
  "is_silent_byzantine s = has_behavior ''silent'' s"

definition is_skip_prepare_byzantine :: "pbft_replica \<Rightarrow> bool" where
  "is_skip_prepare_byzantine s = has_behavior ''skip_prepare'' s"

definition is_skip_commit_byzantine :: "pbft_replica \<Rightarrow> bool" where
  "is_skip_commit_byzantine s = has_behavior ''skip_commit'' s"

definition is_delayed_prepare_byzantine :: "pbft_replica \<Rightarrow> bool" where
  "is_delayed_prepare_byzantine s = has_behavior ''delayed_prepare'' s"

definition is_delayed_commit_byzantine :: "pbft_replica \<Rightarrow> bool" where
  "is_delayed_commit_byzantine s = has_behavior ''delayed_commit'' s"

definition is_early_commit_byzantine :: "pbft_replica \<Rightarrow> bool" where
  "is_early_commit_byzantine s = has_behavior ''early_commit'' s"

definition is_wrong_sequence_byzantine :: "pbft_replica \<Rightarrow> bool" where
  "is_wrong_sequence_byzantine s = has_behavior ''wrong_sequence'' s"

definition is_wrong_view_byzantine :: "pbft_replica \<Rightarrow> bool" where
  "is_wrong_view_byzantine s = has_behavior ''wrong_view'' s"

definition is_wrong_value_byzantine :: "pbft_replica \<Rightarrow> bool" where
  "is_wrong_value_byzantine s = has_behavior ''wrong_value'' s"

definition is_invalid_sender_byzantine :: "pbft_replica \<Rightarrow> bool" where
  "is_invalid_sender_byzantine s = has_behavior ''invalid_sender'' s"

definition is_bad_digest_byzantine :: "pbft_replica \<Rightarrow> bool" where
  "is_bad_digest_byzantine s = has_behavior ''bad_digest'' s"

definition is_equivocation_byzantine :: "pbft_replica \<Rightarrow> bool" where
  "is_equivocation_byzantine s = has_behavior ''equivocation'' s"

definition is_duplicate_byzantine :: "pbft_replica \<Rightarrow> bool" where
  "is_duplicate_byzantine s = has_behavior ''duplicate'' s"

lemmas byzantine_defs = has_behavior_def is_skip_pre_prepare_byzantine_def is_silent_byzantine_def
  is_skip_prepare_byzantine_def is_skip_commit_byzantine_def is_delayed_prepare_byzantine_def
  is_delayed_commit_byzantine_def is_early_commit_byzantine_def is_wrong_sequence_byzantine_def
  is_wrong_view_byzantine_def is_wrong_value_byzantine_def is_invalid_sender_byzantine_def
  is_bad_digest_byzantine_def is_equivocation_byzantine_def is_duplicate_byzantine_def

definition outgoing_sender_id :: "int \<Rightarrow> pbft_replica \<Rightarrow> int" where
  "outgoing_sender_id i s = (if is_invalid_sender_byzantine s then n_of s else i)"

definition outgoing_view :: "nat \<Rightarrow> pbft_replica \<Rightarrow> nat" where
  "outgoing_view v s = (if is_wrong_view_byzantine s then v + 1 else v)"

definition outgoing_sequence_number :: "nat \<Rightarrow> pbft_replica \<Rightarrow> nat" where
  "outgoing_sequence_number q s = (if is_wrong_sequence_byzantine s then 0 else q)"

definition outgoing_emergency_stop :: "bool \<Rightarrow> pbft_replica \<Rightarrow> bool" where
  "outgoing_emergency_stop b s = (if is_wrong_value_byzantine s then \<not> b else b)"

definition outgoing_digest :: "string \<Rightarrow> string \<Rightarrow> bool \<Rightarrow> pbft_replica \<Rightarrow> string" where
  "outgoing_digest request_id correct_digest stop s =
     (if is_bad_digest_byzantine s then
        (if replicate 64 (CHR ''0'') = correct_digest then replicate 64 (CHR ''f'')
         else replicate 64 (CHR ''0''))
      else if is_wrong_value_byzantine s then compute_request_digest request_id stop
      else correct_digest)"

text \<open>The vote that \<^verbatim>\<open>_send_prepare\<close>, \<^verbatim>\<open>_send_commit\<close> and \<^verbatim>\<open>_send_early_commit\<close> fill in
  field by field.\<close>

definition outgoing_vote :: "nat \<Rightarrow> mkey \<Rightarrow> pbft_instance \<Rightarrow> pbft_replica \<Rightarrow> pbft_message" where
  "outgoing_vote ty key inst s =
     (let stop = outgoing_emergency_stop (i_emergency_stop inst) s in
      \<lparr>m_type = ty,
       m_sender = outgoing_sender_id (self_id s) s,
       m_recipient = -1,
       m_view = outgoing_view (fst key) s,
       m_seq = outgoing_sequence_number (snd key) s,
       m_request_id = i_request_id inst,
       m_digest = outgoing_digest (i_request_id inst) (i_request_digest inst) stop s,
       m_stop = stop\<rparr>)"

definition publish_vote :: "nat \<Rightarrow> pbft_message \<Rightarrow> pbft_replica \<Rightarrow> pbft_replica" where
  "publish_vote ty m s = publish (if ty = PREPARE then Pub_prepare m else Pub_commit m) s"

definition instance_at :: "mkey \<Rightarrow> pbft_replica \<Rightarrow> py_error + pbft_instance" where
  "instance_at key s = (case instances s key of None \<Rightarrow> Inl KeyError | Some inst \<Rightarrow> Inr inst)"

definition equivocating_message ::
    "nat \<Rightarrow> mkey \<Rightarrow> pbft_instance \<Rightarrow> int \<Rightarrow> int \<Rightarrow> pbft_replica \<Rightarrow> pbft_message" where
  "equivocating_message ty key inst conflict_recipient recipient s =
     (let conflicting_id = i_request_id inst @ ''-conflict'' in
      \<lparr>m_type = ty, m_sender = self_id s, m_recipient = recipient,
       m_view = fst key, m_seq = snd key,
       m_request_id = (if recipient = conflict_recipient then conflicting_id else i_request_id inst),
       m_digest = (if recipient = conflict_recipient
          then compute_request_digest conflicting_id (i_emergency_stop inst)
          else i_request_digest inst),
       m_stop = i_emergency_stop inst\<rparr>)"

definition publish_equivocating_message ::
    "nat \<Rightarrow> mkey \<Rightarrow> pbft_replica \<Rightarrow> py_error + pbft_replica" where
  "publish_equivocating_message ty key s =
     bindE (instance_at key s) (\<lambda>inst.
       raise_if (ty \<noteq> PREPARE \<and> ty \<noteq> COMMIT) ValueError (
       let recipients = filter (\<lambda>r. r \<noteq> self_id s) [0..n_of s - 1] in
       if recipients = [] then Inl IndexError
       else
         let conflict = (if 1 \<in> set recipients then 1 else hd recipients) in
         Inr (fold (\<lambda>r t. publish_vote ty (equivocating_message ty key inst conflict r s) t)
                recipients s)))"

section \<open>Progress watchdog\<close>

definition clear_progress_timeout_timer :: "pbft_replica \<Rightarrow> pbft_replica" where
  "clear_progress_timeout_timer s = s\<lparr>progress_timeout_timer := False\<rparr>"

definition cancel_progress_timeout :: "pbft_replica \<Rightarrow> pbft_replica" where
  "cancel_progress_timeout s =
     (if \<not> progress_timeout_timer s then s
      else (clear_progress_timeout_timer s)
        \<lparr>progress_timeout_request_id := None, progress_timeout_view := None\<rparr>)"

definition arm_progress_timeout :: "string \<Rightarrow> pbft_replica \<Rightarrow> pbft_replica" where
  "arm_progress_timeout request_id s =
     (if \<not> enable_progress_timeout (params s) then s
      else if request_id = '''' then s
      else (clear_progress_timeout_timer s)
        \<lparr>progress_timeout_request_id := Some request_id,
         progress_timeout_view := Some (current_view s),
         progress_timeout_timer := True\<rparr>)"

section \<open>COMMIT\<close>

definition message_matches_instance :: "pbft_message \<Rightarrow> pbft_instance \<Rightarrow> bool" where
  "message_matches_instance m inst =
     (m_request_id m = i_request_id inst \<and> m_digest m = i_request_digest inst \<and>
      m_stop m = i_emergency_stop inst)"

definition buffer_early_commit :: "mkey \<Rightarrow> pbft_message \<Rightarrow> pbft_replica \<Rightarrow> pbft_replica" where
  "buffer_early_commit key m s =
     (if map_of (pending_commits s key) (m_sender m) \<noteq> None then s
      else
        let s1 = s\<lparr>pending_commits :=
              (pending_commits s)(key := dict_set (m_sender m) m (pending_commits s key))\<rparr>
        in if instances s1 key \<noteq> None
           then publish_status (s1\<lparr>current_key := Some key\<rparr>)
           else s1)"

definition evaluate_committed :: "mkey \<Rightarrow> pbft_replica \<Rightarrow> py_error + pbft_replica" where
  "evaluate_committed key s =
     (if key \<in> committed_instances s then Inr s
      else if key \<notin> prepared_instances s then Inr s
      else if int (card (commit_senders s key)) < commit_threshold s then Inr s
      else
        let s1 = s\<lparr>committed_instances := insert key (committed_instances s)\<rparr> in
        bindE (instance_at key s1) (\<lambda>inst.
          let s2 = cancel_progress_timeout s1 in
          Inr (publish_status
            (s2\<lparr>emergency_stop := i_emergency_stop inst, current_key := Some key,
                phase_of := COMMITTED\<rparr>))))"

definition accept_commit :: "pbft_message \<Rightarrow> pbft_replica \<Rightarrow> py_error + pbft_replica" where
  "accept_commit m s =
     (let key = (m_view m, m_seq m) in
      case instances s key of
        None \<Rightarrow> Inr s
      | Some inst \<Rightarrow>
          if \<not> message_matches_instance m inst then Inr s
          else if key \<notin> prepared_instances s then Inr (buffer_early_commit key m s)
          else if m_sender m \<in> commit_senders s key then Inr s
          else evaluate_committed key (publish_status
            (s\<lparr>commit_senders :=
                 (commit_senders s)(key := insert (m_sender m) (commit_senders s key)),
               current_key := Some key\<rparr>)))"

definition process_pending_commits :: "mkey \<Rightarrow> pbft_replica \<Rightarrow> py_error + pbft_replica" where
  "process_pending_commits key s =
     (if key \<notin> prepared_instances s then Inr s
      else foldE accept_commit (map snd (pending_commits s key))
             (s\<lparr>pending_commits := (pending_commits s)(key := [])\<rparr>))"

definition schedule_delayed_commit :: "mkey \<Rightarrow> pbft_replica \<Rightarrow> pbft_replica" where
  "schedule_delayed_commit key s =
     (if key \<in> commit_sent s \<or> key \<in> commit_scheduled s then s
      else publish_status
        (s\<lparr>commit_scheduled := insert key (commit_scheduled s),
           delayed_commit_timers := insert key (delayed_commit_timers s)\<rparr>))"

definition publish_copies :: "nat \<Rightarrow> pbft_message \<Rightarrow> pbft_replica \<Rightarrow> pbft_replica" where
  "publish_copies ty m s =
     (let s1 = publish_vote ty m s in
      if is_duplicate_byzantine s1
      then (publish_vote ty m ^^ nat (duplicate_message_count (params s1) - 1)) s1
      else s1)"

definition send_commit :: "mkey \<Rightarrow> bool \<Rightarrow> pbft_replica \<Rightarrow> py_error + pbft_replica" where
  "send_commit key bypass_delay s =
     (if is_silent_byzantine s then Inr s
      else if key \<in> commit_sent s then Inr s
      else if key \<notin> prepared_instances s then Inr s
      else if is_delayed_commit_byzantine s \<and> \<not> bypass_delay
        then Inr (schedule_delayed_commit key s)
      else if is_skip_commit_byzantine s then Inr (publish_status s)
      else if is_equivocation_byzantine s then
        publish_equivocating_message COMMIT key (s\<lparr>commit_sent := insert key (commit_sent s)\<rparr>)
      else
        bindE (instance_at key s) (\<lambda>inst.
          let commit = outgoing_vote COMMIT key inst s;
              s1 = s\<lparr>commit_sent := insert key (commit_sent s)\<rparr> in
          bindE (if is_invalid_sender_byzantine s1 then Inr s1 else accept_commit commit s1)
            (\<lambda>s2. Inr (publish_copies COMMIT commit s2))))"

definition publish_delayed_commit :: "mkey \<Rightarrow> pbft_replica \<Rightarrow> py_error + pbft_replica" where
  "publish_delayed_commit key s =
     (let s1 = s\<lparr>delayed_commit_timers := delayed_commit_timers s - {key},
                commit_scheduled := commit_scheduled s - {key}\<rparr>
      in if instances s1 key = None then Inr s1 else send_commit key True s1)"

definition commit_callback :: "pbft_message \<Rightarrow> pbft_replica \<Rightarrow> py_error + pbft_replica" where
  "commit_callback m s =
     (if is_silent_byzantine s then Inr s
      else if m_type m \<noteq> COMMIT then Inr s
      else if m_recipient m \<noteq> -1 \<and> m_recipient m \<noteq> self_id s then Inr s
      else if m_view m \<noteq> current_view s then Inr s
      else if m_seq m = 0 then Inr s
      else if \<not> (0 \<le> m_sender m \<and> m_sender m < n_of s) then Inr s
      else if m_request_id m = '''' then Inr s
      else if m_digest m \<noteq> compute_request_digest (m_request_id m) (m_stop m) then Inr s
      else if \<not> m_stop m then Inr s
      else
        let key = (m_view m, m_seq m) in
        if instances s key = None then Inr (buffer_early_commit key m s)
        else if key \<notin> prepared_instances s then Inr (buffer_early_commit key m s)
        else accept_commit m s)"

section \<open>PREPARE\<close>

definition evaluate_prepared :: "mkey \<Rightarrow> pbft_replica \<Rightarrow> py_error + pbft_replica" where
  "evaluate_prepared key s =
     (if key \<in> prepared_instances s then Inr s
      else if int (card (prepare_senders s key)) < prepare_threshold s then Inr s
      else
        let s1 = publish_status
              (s\<lparr>prepared_instances := insert key (prepared_instances s),
                 current_key := Some key, phase_of := PREPARED\<rparr>) in
        bindE (instance_at key s1) (\<lambda>inst.
          bindE (process_pending_commits key (arm_progress_timeout (i_request_id inst) s1))
            (send_commit key False)))"

definition accept_prepare :: "pbft_message \<Rightarrow> pbft_replica \<Rightarrow> py_error + pbft_replica" where
  "accept_prepare m s =
     (let key = (m_view m, m_seq m) in
      case instances s key of
        None \<Rightarrow> Inr s
      | Some inst \<Rightarrow>
          if \<not> message_matches_instance m inst then Inr s
          else if m_sender m \<in> prepare_senders s key then Inr s
          else evaluate_prepared key (publish_status
            (s\<lparr>prepare_senders :=
                 (prepare_senders s)(key := insert (m_sender m) (prepare_senders s key)),
               current_key := Some key\<rparr>)))"

definition process_pending_prepares :: "mkey \<Rightarrow> pbft_replica \<Rightarrow> py_error + pbft_replica" where
  "process_pending_prepares key s =
     foldE accept_prepare (map snd (pending_prepares s key))
       (s\<lparr>pending_prepares := (pending_prepares s)(key := [])\<rparr>)"

definition buffer_early_prepare :: "mkey \<Rightarrow> pbft_message \<Rightarrow> pbft_replica \<Rightarrow> pbft_replica" where
  "buffer_early_prepare key m s =
     (if map_of (pending_prepares s key) (m_sender m) \<noteq> None then s
      else s\<lparr>pending_prepares :=
              (pending_prepares s)(key := dict_set (m_sender m) m (pending_prepares s key))\<rparr>)"

definition send_early_commit :: "mkey \<Rightarrow> pbft_replica \<Rightarrow> py_error + pbft_replica" where
  "send_early_commit key s =
     (if key \<in> commit_sent s then Inr s
      else
        bindE (instance_at key s) (\<lambda>inst.
          let commit = outgoing_vote COMMIT key inst s;
              s1 = s\<lparr>commit_sent := insert key (commit_sent s)\<rparr> in
          Inr (publish_vote COMMIT commit (buffer_early_commit key commit s1))))"

definition schedule_delayed_prepare :: "mkey \<Rightarrow> pbft_replica \<Rightarrow> pbft_replica" where
  "schedule_delayed_prepare key s =
     (if key \<in> prepare_sent s \<or> key \<in> prepare_scheduled s then s
      else publish_status
        (s\<lparr>prepare_scheduled := insert key (prepare_scheduled s),
           delayed_prepare_timers := insert key (delayed_prepare_timers s)\<rparr>))"

definition send_prepare :: "mkey \<Rightarrow> bool \<Rightarrow> pbft_replica \<Rightarrow> py_error + pbft_replica" where
  "send_prepare key bypass_delay s =
     (if is_silent_byzantine s then Inr s
      else if key \<in> prepare_sent s then Inr s
      else if is_delayed_prepare_byzantine s \<and> \<not> bypass_delay
        then Inr (schedule_delayed_prepare key s)
      else if is_skip_prepare_byzantine s then
        Inr (publish_status (s\<lparr>prepare_sent := insert key (prepare_sent s)\<rparr>))
      else if is_equivocation_byzantine s then
        publish_equivocating_message PREPARE key (s\<lparr>prepare_sent := insert key (prepare_sent s)\<rparr>)
      else
        bindE (instance_at key s) (\<lambda>inst.
          let prepare = outgoing_vote PREPARE key inst s;
              s1 = s\<lparr>prepare_sent := insert key (prepare_sent s)\<rparr> in
          bindE (if is_invalid_sender_byzantine s1 then Inr s1 else accept_prepare prepare s1)
            (\<lambda>s2. Inr (publish_copies PREPARE prepare s2))))"

definition publish_delayed_prepare :: "mkey \<Rightarrow> pbft_replica \<Rightarrow> py_error + pbft_replica" where
  "publish_delayed_prepare key s =
     (let s1 = s\<lparr>delayed_prepare_timers := delayed_prepare_timers s - {key},
                prepare_scheduled := prepare_scheduled s - {key}\<rparr>
      in if instances s1 key = None then Inr s1 else send_prepare key True s1)"

definition prepare_callback :: "pbft_message \<Rightarrow> pbft_replica \<Rightarrow> py_error + pbft_replica" where
  "prepare_callback m s =
     (if is_silent_byzantine s then Inr s
      else if m_type m \<noteq> PREPARE then Inr s
      else if m_recipient m \<noteq> -1 \<and> m_recipient m \<noteq> self_id s then Inr s
      else if m_view m \<noteq> current_view s then Inr s
      else if m_seq m = 0 then Inr s
      else if \<not> (0 \<le> m_sender m \<and> m_sender m < n_of s) then Inr s
      else if m_sender m = primary_id s then Inr s
      else if m_digest m \<noteq> compute_request_digest (m_request_id m) (m_stop m) then Inr s
      else if \<not> m_stop m then Inr s
      else
        let key = (m_view m, m_seq m) in
        if instances s key = None then Inr (buffer_early_prepare key m s)
        else accept_prepare m s)"

section \<open>PRE-PREPARE\<close>

definition pre_prepare_callback :: "pbft_message \<Rightarrow> pbft_replica \<Rightarrow> py_error + pbft_replica" where
  "pre_prepare_callback m s =
     (if m_type m \<noteq> PRE_PREPARE then Inr s
      else if m_sender m \<noteq> primary_id s then Inr s
      else if m_recipient m \<noteq> -1 \<and> m_recipient m \<noteq> self_id s then Inr s
      else if m_view m \<noteq> current_view s then Inr s
      else if m_seq m = 0 then Inr s
      else if m_request_id m = '''' then Inr s
      else if m_digest m \<noteq> compute_request_digest (m_request_id m) (m_stop m) then Inr s
      else if \<not> m_stop m then Inr s
      else
        let key = (m_view m, m_seq m);
            new_instance = \<lparr>i_request_id = m_request_id m, i_request_digest = m_digest m,
                            i_emergency_stop = m_stop m\<rparr> in
        if instances s key \<noteq> None \<and> instances s key \<noteq> Some new_instance then Inr s
        else
          let s1 = (if instances s key = None
                then arm_progress_timeout (m_request_id m)
                       (s\<lparr>instances := (instances s)(key \<mapsto> new_instance)\<rparr>)
                else s);
              s2 = s1\<lparr>current_key := Some key\<rparr> in
          if is_silent_byzantine s2 then Inr (publish_status (s2\<lparr>phase_of := SILENT\<rparr>))
          else
            let s3 = (if key \<notin> prepared_instances s2 then s2\<lparr>phase_of := PRE_PREPARED\<rparr> else s2) in
            bindE (process_pending_prepares key (publish_status s3)) (\<lambda>s4.
            bindE (if is_early_commit_byzantine s4 then send_early_commit key s4 else Inr s4) (\<lambda>s5.
            if self_id s5 \<noteq> primary_id s5 then send_prepare key False s5 else Inr s5)))"

section \<open>REQUEST\<close>

definition proposal_of :: "mkey \<Rightarrow> pbft_instance \<Rightarrow> pbft_replica \<Rightarrow> pbft_message" where
  "proposal_of key inst s =
     \<lparr>m_type = PRE_PREPARE, m_sender = self_id s, m_recipient = -1,
      m_view = fst key, m_seq = snd key, m_request_id = i_request_id inst,
      m_digest = i_request_digest inst, m_stop = i_emergency_stop inst\<rparr>"

definition process_cached_request_as_primary :: "string \<Rightarrow> pbft_replica \<Rightarrow> pbft_replica" where
  "process_cached_request_as_primary request_id s =
     (case map_of (cached_client_requests s) request_id of
        None \<Rightarrow> s
      | Some inst \<Rightarrow>
          let key = (current_view s, next_sequence_number s);
              s1 = publish_status
                (s\<lparr>next_sequence_number := next_sequence_number s + 1,
                   instances := (instances s)(key \<mapsto> inst),
                   processed_request_ids := insert request_id (processed_request_ids s),
                   current_key := Some key, phase_of := PRE_PREPARED\<rparr>)
          in arm_progress_timeout (i_request_id inst)
               (publish (Pub_pre_prepare (proposal_of key inst s1)) s1))"

definition validate_and_cache_client_request ::
    "pbft_message \<Rightarrow> pbft_replica \<Rightarrow> pbft_replica \<times> pbft_instance option" where
  "validate_and_cache_client_request m s =
     (if m_type m \<noteq> REQUEST then (s, None)
      else if m_sender m \<noteq> -1 then (s, None)
      else if m_recipient m \<noteq> -1 \<and> m_recipient m \<noteq> primary_id s then (s, None)
      else if m_view m \<noteq> current_view s then (s, None)
      else if m_seq m \<noteq> 0 then (s, None)
      else if m_request_id m = '''' then (s, None)
      else if m_digest m \<noteq> compute_request_digest (m_request_id m) (m_stop m) then (s, None)
      else if \<not> m_stop m then (s, None)
      else
        let inst = \<lparr>i_request_id = m_request_id m, i_request_digest = m_digest m,
                    i_emergency_stop = m_stop m\<rparr> in
        case map_of (cached_client_requests s) (m_request_id m) of
          Some existing \<Rightarrow> if existing \<noteq> inst then (s, None) else (s, Some existing)
        | None \<Rightarrow>
            (s\<lparr>cached_client_requests :=
                 dict_set (m_request_id m) inst (cached_client_requests s)\<rparr>, Some inst))"

definition request_callback :: "pbft_message \<Rightarrow> pbft_replica \<Rightarrow> pbft_replica" where
  "request_callback m s =
     (let was_already_cached = (map_of (cached_client_requests s) (m_request_id m) \<noteq> None) in
      case validate_and_cache_client_request m s of
        (s1, None) \<Rightarrow> s1
      | (s1, Some _) \<Rightarrow>
          let s2 = (if \<not> was_already_cached then arm_progress_timeout (m_request_id m) s1 else s1) in
          if self_id s2 \<noteq> primary_id s2 then s2
          else if m_request_id m \<in> processed_request_ids s2 then s2
          else if is_skip_pre_prepare_byzantine s2 then
            publish_status
              (s2\<lparr>processed_request_ids := insert (m_request_id m) (processed_request_ids s2),
                  phase_of := FAULTY_PRIMARY\<rparr>)
          else process_cached_request_as_primary (m_request_id m) s2)"

end
