(* ===== verification/PBFT_View_Change.thy ===== *)
theory PBFT_View_Change
  imports PBFT_Phases
begin

text \<open>
  VIEW-CHANGE and NEW-VIEW (\<^verbatim>\<open>replica/view_change.py\<close>) and the timer callbacks that
  start a view change (\<^verbatim>\<open>replica/progress_timeout.py\<close>), then the events of a replica:
  every ROS callback and timer as one operation \<open>replica_step\<close>.
\<close>

section \<open>VIEW-CHANGE\<close>

definition view_change_candidates :: "nat \<Rightarrow> pbft_replica \<Rightarrow> mkey set" where
  "view_change_candidates new_view s =
     Set.filter (\<lambda>key. instances s key \<noteq> None \<and> key \<notin> committed_instances s \<and> fst key < new_view)
       (prepared_instances s)"

definition select_prepared_instance_for_view_change ::
    "nat \<Rightarrow> pbft_replica \<Rightarrow> (mkey \<times> pbft_instance) option" where
  "select_prepared_instance_for_view_change new_view s =
     (if view_change_candidates new_view s = {} then None
      else
        let selected = Max (view_change_candidates new_view s) in
        Some (selected, the (instances s selected)))"

definition validate_view_change_certificate :: "view_change \<Rightarrow> pbft_replica \<Rightarrow> bool" where
  "validate_view_change_certificate m s =
     (if \<not> vc_has_certificate m then
        vc_prepared_view m = 0 \<and> vc_prepared_seq m = 0 \<and> vc_request_id m = '''' \<and>
        vc_digest m = '''' \<and> \<not> vc_stop m \<and> vc_prepare_senders m = []
      else if vc_new_view m \<le> vc_prepared_view m then False
      else if vc_prepared_seq m = 0 then False
      else if vc_request_id m = '''' then False
      else if \<not> vc_stop m then False
      else if vc_digest m \<noteq> compute_request_digest (vc_request_id m) (vc_stop m) then False
      else if card (set (vc_prepare_senders m)) \<noteq> length (vc_prepare_senders m) then False
      else if int (card (set (vc_prepare_senders m))) < prepare_threshold s then False
      else
        (\<forall>i \<in> set (vc_prepare_senders m).
           0 \<le> i \<and> i < n_of s \<and> i \<noteq> primary_for_view (n_of s) (vc_prepared_view m)))"

definition build_view_change_message :: "nat \<Rightarrow> pbft_replica \<Rightarrow> py_error + view_change" where
  "build_view_change_message new_view s =
     raise_if (new_view \<le> current_view s) ValueError (
     case select_prepared_instance_for_view_change new_view s of
       None \<Rightarrow>
         Inr \<lparr>vc_sender = self_id s, vc_new_view = new_view, vc_has_certificate = False,
              vc_prepared_view = 0, vc_prepared_seq = 0, vc_request_id = '''', vc_digest = '''',
              vc_stop = False, vc_prepare_senders = []\<rparr>
     | Some (key, inst) \<Rightarrow>
         let senders = sorted_list_of_set (prepare_senders s key) in
         raise_if (int (length senders) < prepare_threshold s) RuntimeError (
         Inr \<lparr>vc_sender = self_id s, vc_new_view = new_view, vc_has_certificate = True,
              vc_prepared_view = fst key, vc_prepared_seq = snd key,
              vc_request_id = i_request_id inst, vc_digest = i_request_digest inst,
              vc_stop = i_emergency_stop inst, vc_prepare_senders = senders\<rparr>))"

definition view_change_payload :: "view_change \<Rightarrow> vc_payload" where
  "view_change_payload m =
     (vc_new_view m, vc_has_certificate m, vc_prepared_view m, vc_prepared_seq m,
      vc_request_id m, vc_digest m, vc_stop m, vc_prepare_senders m)"

definition new_view_payload :: "new_view \<Rightarrow> nv_payload" where
  "new_view_payload m =
     (nv_sender m, nv_new_view m,
      mset (map (\<lambda>vc. (vc_sender vc, view_change_payload vc)) (nv_view_changes m)),
      nv_has_selected m, nv_from_prepared m, nv_prepared_view m, nv_seq m,
      nv_request_id m, nv_digest m, nv_stop m)"

section \<open>Request selection for the new view\<close>

definition certificate_payload :: "view_change \<Rightarrow> nat \<times> string \<times> string \<times> bool" where
  "certificate_payload m = (vc_prepared_seq m, vc_request_id m, vc_digest m, vc_stop m)"

definition committed_request_ids :: "pbft_replica \<Rightarrow> string set" where
  "committed_request_ids s =
     (\<lambda>key. i_request_id (the (instances s key))) `
       Set.filter (\<lambda>key. instances s key \<noteq> None) (committed_instances s)"

definition eligible_cached_requests :: "pbft_replica \<Rightarrow> pbft_instance list" where
  "eligible_cached_requests s =
     map snd (filter (\<lambda>(request_id, _). request_id \<notin> committed_request_ids s)
       (cached_client_requests s))"

definition select_request_for_new_view ::
    "view_change list \<Rightarrow> pbft_replica \<Rightarrow> (pbft_instance \<times> bool \<times> nat \<times> nat) option" where
  "select_request_for_new_view vcs s =
     (let prepared = filter vc_has_certificate vcs in
      if prepared \<noteq> [] then
        let highest = Max (vc_prepared_view ` set prepared);
            payloads = remdups (map certificate_payload
              (filter (\<lambda>m. vc_prepared_view m = highest) prepared)) in
        (case payloads of
           [(q, request_id, digest, stop)] \<Rightarrow>
             Some (\<lparr>i_request_id = request_id, i_request_digest = digest,
                    i_emergency_stop = stop\<rparr>, True, highest, q)
         | _ \<Rightarrow> None)
      else
        (case eligible_cached_requests s of
           [inst] \<Rightarrow> Some (inst, False, 0, next_sequence_number s)
         | _ \<Rightarrow> None))"

section \<open>NEW-VIEW\<close>

definition valid_proof :: "nat \<Rightarrow> view_change \<Rightarrow> pbft_replica \<Rightarrow> bool" where
  "valid_proof new_view vc s =
     (vc_new_view vc = new_view \<and> 0 \<le> vc_sender vc \<and> vc_sender vc < n_of s \<and>
      validate_view_change_certificate vc s)"

definition build_new_view_message ::
    "nat \<Rightarrow> view_change list \<Rightarrow> pbft_replica \<Rightarrow> new_view option" where
  "build_new_view_message new_view vcs s =
     (if self_id s \<noteq> primary_for_view (n_of s) new_view then None
      else if new_view \<le> current_view s then None
      else if card (set (map vc_sender vcs)) \<noteq> length (map vc_sender vcs) then None
      else if int (card (set (map vc_sender vcs))) < view_change_threshold s then None
      else if \<not> (\<forall>vc \<in> set vcs. valid_proof new_view vc s) then None
      else
        (case select_request_for_new_view vcs s of
           None \<Rightarrow> None
         | Some (inst, from_prepared, prepared_view, q) \<Rightarrow>
             Some \<lparr>nv_sender = self_id s, nv_new_view = new_view, nv_view_changes = vcs,
                   nv_has_selected = True, nv_from_prepared = from_prepared,
                   nv_prepared_view = prepared_view, nv_seq = q,
                   nv_request_id = i_request_id inst, nv_digest = i_request_digest inst,
                   nv_stop = i_emergency_stop inst\<rparr>))"

definition proof_messages :: "nat \<Rightarrow> pbft_replica \<Rightarrow> view_change list" where
  "proof_messages new_view s =
     map (\<lambda>i. the (map_of (view_change_messages s new_view) i))
       (sort (map fst (view_change_messages s new_view)))"

definition maybe_publish_new_view :: "nat \<Rightarrow> pbft_replica \<Rightarrow> pbft_replica" where
  "maybe_publish_new_view new_view s =
     (if new_view \<le> current_view s then s
      else if self_id s \<noteq> primary_for_view (n_of s) new_view then s
      else if new_view \<in> new_view_sent s then s
      else if int (length (view_change_messages s new_view)) < view_change_threshold s then s
      else
        (case build_new_view_message new_view (proof_messages new_view s) s of
           None \<Rightarrow> s
         | Some m \<Rightarrow>
             publish (Pub_new_view m) (publish_status
               (s\<lparr>new_view_sent := insert new_view (new_view_sent s),
                  phase_of := NEW_VIEW_PROPOSED\<rparr>))))"

definition nv_instance :: "new_view \<Rightarrow> pbft_instance" where
  "nv_instance m =
     \<lparr>i_request_id = nv_request_id m, i_request_digest = nv_digest m, i_emergency_stop = nv_stop m\<rparr>"

definition validate_new_view_message ::
    "new_view \<Rightarrow> pbft_replica \<Rightarrow> (pbft_instance \<times> nat) option" where
  "validate_new_view_message m s =
     (if nv_new_view m \<le> current_view s then None
      else if nv_sender m \<noteq> primary_for_view (n_of s) (nv_new_view m) then None
      else if int (length (nv_view_changes m)) < view_change_threshold s then None
      else if card (set (map vc_sender (nv_view_changes m)))
          \<noteq> length (map vc_sender (nv_view_changes m)) then None
      else if \<not> (\<forall>vc \<in> set (nv_view_changes m). valid_proof (nv_new_view m) vc s) then None
      else if \<not> nv_has_selected m then None
      else if nv_request_id m = '''' then None
      else if nv_seq m = 0 then None
      else if \<not> nv_stop m then None
      else if nv_digest m \<noteq> compute_request_digest (nv_request_id m) (nv_stop m) then None
      else
        (case select_request_for_new_view (nv_view_changes m) s of
           None \<Rightarrow> None
         | Some (inst, from_prepared, prepared_view, q) \<Rightarrow>
             if nv_from_prepared m \<noteq> from_prepared then None
             else if nv_prepared_view m \<noteq> prepared_view then None
             else if nv_instance m \<noteq> inst then None
             else if from_prepared \<and> nv_seq m \<noteq> q then None
             else if \<not> from_prepared \<and> nv_prepared_view m \<noteq> 0 then None
             else Some (nv_instance m, nv_seq m)))"

definition cancel_obsolete_protocol_activity :: "nat \<Rightarrow> pbft_replica \<Rightarrow> pbft_replica" where
  "cancel_obsolete_protocol_activity new_view s =
     s\<lparr>prepare_scheduled :=
         prepare_scheduled s - Set.filter (\<lambda>k. fst k < new_view) (delayed_prepare_timers s),
       delayed_prepare_timers := Set.filter (\<lambda>k. \<not> fst k < new_view) (delayed_prepare_timers s),
       commit_scheduled :=
         commit_scheduled s - Set.filter (\<lambda>k. fst k < new_view) (delayed_commit_timers s),
       delayed_commit_timers := Set.filter (\<lambda>k. \<not> fst k < new_view) (delayed_commit_timers s),
       recovery_pre_prepare_timers :=
         Set.filter (\<lambda>k. \<not> fst k < new_view) (recovery_pre_prepare_timers s),
       pending_prepares := (\<lambda>k. if fst k < new_view then [] else pending_prepares s k),
       pending_commits := (\<lambda>k. if fst k < new_view then [] else pending_commits s k),
       manual_view_change_timer :=
         manual_view_change_timer s \<and> \<not> manual_view_change_target (params s) \<le> int new_view\<rparr>"

definition schedule_recovery_pre_prepare :: "mkey \<Rightarrow> pbft_replica \<Rightarrow> pbft_replica" where
  "schedule_recovery_pre_prepare key s =
     (if fst key \<noteq> current_view s then s
      else if self_id s \<noteq> primary_id s then s
      else if key \<in> recovery_pre_prepare_sent s then s
      else if key \<in> recovery_pre_prepare_timers s then s
      else if instances s key = None then s
      else if is_skip_pre_prepare_byzantine s then publish_status (s\<lparr>phase_of := FAULTY_PRIMARY\<rparr>)
      else s\<lparr>recovery_pre_prepare_timers := insert key (recovery_pre_prepare_timers s)\<rparr>)"

definition publish_recovery_pre_prepare :: "mkey \<Rightarrow> pbft_replica \<Rightarrow> pbft_replica" where
  "publish_recovery_pre_prepare key s0 =
     (let s = s0\<lparr>recovery_pre_prepare_timers := recovery_pre_prepare_timers s0 - {key}\<rparr> in
      if key \<in> recovery_pre_prepare_sent s then s
      else if fst key \<noteq> current_view s then s
      else if self_id s \<noteq> primary_id s then s
      else
        (case instances s key of
           None \<Rightarrow> s
         | Some inst \<Rightarrow>
             arm_progress_timeout (i_request_id inst)
               (publish (Pub_pre_prepare (proposal_of key inst s))
                 (publish_status
                   (s\<lparr>recovery_pre_prepare_sent := insert key (recovery_pre_prepare_sent s),
                      current_key := Some key, phase_of := PRE_PREPARED\<rparr>)))))"

definition activate_new_view :: "new_view \<Rightarrow> pbft_instance \<Rightarrow> nat \<Rightarrow> pbft_replica \<Rightarrow> pbft_replica" where
  "activate_new_view m inst q s =
     (let new_view = nv_new_view m;
          new_primary = primary_for_view (n_of s) new_view;
          new_key = (new_view, q);
          cached = map_of (cached_client_requests s) (i_request_id inst) in
      if instances s new_key \<noteq> None \<and> instances s new_key \<noteq> Some inst then s
      else if cached \<noteq> None \<and> cached \<noteq> Some inst then s
      else
        let s1 = cancel_obsolete_protocol_activity new_view (cancel_progress_timeout s);
            s2 = s1\<lparr>cached_client_requests :=
                  dict_set (i_request_id inst) inst (cached_client_requests s1),
                instances := (instances s1)(new_key \<mapsto> inst),
                processed_request_ids := insert (i_request_id inst) (processed_request_ids s1),
                current_view := new_view,
                primary_id := new_primary,
                current_key := Some new_key,
                next_sequence_number := max (next_sequence_number s1) (q + 1),
                phase_of := NEW_VIEW_ACCEPTED\<rparr>;
            s3 = arm_progress_timeout (i_request_id inst) (publish_status s2)
        in if self_id s3 = primary_id s3 then schedule_recovery_pre_prepare new_key s3 else s3)"

definition new_view_callback :: "new_view \<Rightarrow> pbft_replica \<Rightarrow> pbft_replica" where
  "new_view_callback m s =
     (if accepted_new_view_payloads s (nv_new_view m) \<noteq> None then s
      else
        (case validate_new_view_message m s of
           None \<Rightarrow> s
         | Some (inst, q) \<Rightarrow>
             activate_new_view m inst q
               (s\<lparr>accepted_new_view_payloads :=
                    (accepted_new_view_payloads s)(nv_new_view m \<mapsto> new_view_payload m)\<rparr>)))"

definition view_change_callback :: "view_change \<Rightarrow> pbft_replica \<Rightarrow> pbft_replica" where
  "view_change_callback m s =
     (if \<not> (0 \<le> vc_sender m \<and> vc_sender m < n_of s) then s
      else if vc_new_view m \<le> current_view s then s
      else if \<not> validate_view_change_certificate m s then s
      else if map_of (view_change_messages s (vc_new_view m)) (vc_sender m) \<noteq> None then s
      else
        maybe_publish_new_view (vc_new_view m)
          (s\<lparr>view_change_messages :=
               (view_change_messages s)(vc_new_view m :=
                 dict_set (vc_sender m) m (view_change_messages s (vc_new_view m)))\<rparr>))"

definition initiate_view_change :: "nat \<Rightarrow> pbft_replica \<Rightarrow> py_error + pbft_replica" where
  "initiate_view_change new_view s =
     (if new_view \<le> current_view s then Inr s
      else if new_view \<in> view_change_sent s then Inr s
      else if is_silent_byzantine s then Inr s
      else
        bindE (build_view_change_message new_view s) (\<lambda>m.
          raise_if (\<not> validate_view_change_certificate m s) RuntimeError (
          let s1 = publish_status
                (s\<lparr>view_change_sent := insert new_view (view_change_sent s),
                   phase_of := VIEW_CHANGE\<rparr>)
          in Inr (publish (Pub_view_change m) (view_change_callback m s1)))))"

section \<open>Timers\<close>

definition progress_timeout_callback :: "pbft_replica \<Rightarrow> py_error + pbft_replica" where
  "progress_timeout_callback s =
     (let s1 = (clear_progress_timeout_timer s)
            \<lparr>progress_timeout_request_id := None, progress_timeout_view := None\<rparr> in
      case (progress_timeout_request_id s, progress_timeout_view s) of
        (Some request_id, Some monitored_view) \<Rightarrow>
          if monitored_view \<noteq> current_view s1 then Inr s1
          else if current_key s1 \<noteq> None \<and> the (current_key s1) \<in> committed_instances s1 then Inr s1
          else initiate_view_change (current_view s1 + 1) s1
      | _ \<Rightarrow> Inr s1)"

definition manual_view_change_timer_callback :: "pbft_replica \<Rightarrow> py_error + pbft_replica" where
  "manual_view_change_timer_callback s =
     (let s1 = s\<lparr>manual_view_change_timer := False\<rparr> in
      if manual_view_change_target (params s1) < 0 then Inr s1
      else initiate_view_change (nat (manual_view_change_target (params s1))) s1)"

section \<open>The events of a replica\<close>

datatype replica_event =
    Ev_request pbft_message
  | Ev_pre_prepare pbft_message
  | Ev_prepare pbft_message
  | Ev_commit pbft_message
  | Ev_view_change view_change
  | Ev_new_view new_view
  | Ev_progress_timeout
  | Ev_manual_view_change
  | Ev_recovery_pre_prepare mkey
  | Ev_delayed_prepare mkey
  | Ev_delayed_commit mkey
  | Ev_status

text \<open>A callback runs when its message is delivered, a timer callback when the timer
  is armed; an event whose timer is absent changes nothing.\<close>

fun replica_step :: "replica_event \<Rightarrow> pbft_replica \<Rightarrow> py_error + pbft_replica" where
  "replica_step (Ev_request m) s = Inr (request_callback m s)"
| "replica_step (Ev_pre_prepare m) s = pre_prepare_callback m s"
| "replica_step (Ev_prepare m) s = prepare_callback m s"
| "replica_step (Ev_commit m) s = commit_callback m s"
| "replica_step (Ev_view_change m) s = Inr (view_change_callback m s)"
| "replica_step (Ev_new_view m) s = Inr (new_view_callback m s)"
| "replica_step Ev_progress_timeout s =
     (if progress_timeout_timer s then progress_timeout_callback s else Inr s)"
| "replica_step Ev_manual_view_change s =
     (if manual_view_change_timer s then manual_view_change_timer_callback s else Inr s)"
| "replica_step (Ev_recovery_pre_prepare key) s =
     (if key \<in> recovery_pre_prepare_timers s then Inr (publish_recovery_pre_prepare key s) else Inr s)"
| "replica_step (Ev_delayed_prepare key) s =
     (if key \<in> delayed_prepare_timers s then publish_delayed_prepare key s else Inr s)"
| "replica_step (Ev_delayed_commit key) s =
     (if key \<in> delayed_commit_timers s then publish_delayed_commit key s else Inr s)"
| "replica_step Ev_status s = Inr (publish_status s)"

end
