(* ===== verification/PBFT_Abstract.thy ===== *)
theory PBFT_Abstract
  imports PBFT_View_Change
begin

text \<open>
  The abstract specification of a correct replica: an inductive relation
  \<open>micro ok\<close> of guarded elementary steps (count a vote, become prepared, publish a
  vote, enter a view, ...). The guard \<open>ok p\<close> says that publication \<open>p\<close> may have come off
  the network; a step that uses a message has it as a premise, which is what the
  agreement argument needs to know about the senders of votes. The invariant
  \<open>rinv ok\<close> of a replica is proved for these steps by rule induction;
  \<^verbatim>\<open>PBFT_Refinement\<close> shows that every callback of a correct replica is a sequence of them.
\<close>

definition valid_instance :: "pbft_instance \<Rightarrow> bool" where
  "valid_instance i =
     (i_request_id i \<noteq> '''' \<and> i_emergency_stop i \<and>
      i_request_digest i = compute_request_digest (i_request_id i) (i_emergency_stop i))"

definition is_replica :: "pbft_replica \<Rightarrow> int \<Rightarrow> bool" where
  "is_replica s i = (0 \<le> i \<and> i < n_of s)"

definition message_key :: "pbft_message \<Rightarrow> mkey" where
  "message_key m = (m_view m, m_seq m)"

definition message_instance :: "pbft_message \<Rightarrow> pbft_instance" where
  "message_instance m =
     \<lparr>i_request_id = m_request_id m, i_request_digest = m_digest m, i_emergency_stop = m_stop m\<rparr>"

definition honest_vote :: "nat \<Rightarrow> mkey \<Rightarrow> pbft_instance \<Rightarrow> pbft_replica \<Rightarrow> pbft_message" where
  "honest_vote ty key inst s =
     \<lparr>m_type = ty, m_sender = self_id s, m_recipient = -1, m_view = fst key, m_seq = snd key,
      m_request_id = i_request_id inst, m_digest = i_request_digest inst,
      m_stop = i_emergency_stop inst\<rparr>"

definition truthful_certificate :: "view_change \<Rightarrow> pbft_replica \<Rightarrow> bool" where
  "truthful_certificate m s =
     (vc_has_certificate m \<longrightarrow>
        (let key = (vc_prepared_view m, vc_prepared_seq m) in
         key \<in> prepared_instances s \<and> set (vc_prepare_senders m) = prepare_senders s key \<and>
         instances s key = Some \<lparr>i_request_id = vc_request_id m, i_request_digest = vc_digest m,
           i_emergency_stop = vc_stop m\<rparr>))"

section \<open>Elementary steps\<close>

inductive micro :: "(publication \<Rightarrow> bool) \<Rightarrow> pbft_replica \<Rightarrow> pbft_replica \<Rightarrow> bool"
  for ok :: "publication \<Rightarrow> bool" where
  report: "micro ok s (publish_status s)"
| adjust: "(\<And>k. ck = Some k \<Longrightarrow> fst k = current_view s \<and> instances s k \<noteq> None) \<Longrightarrow>
    micro ok s (s\<lparr>current_key := ck, phase_of := ph, manual_view_change_timer := mt,
      progress_timeout_timer := t, progress_timeout_request_id := r, progress_timeout_view := v\<rparr>)"
| buffer_prepare: "ok (Pub_prepare m) \<Longrightarrow> is_replica s (m_sender m) \<Longrightarrow>
    m_sender m \<noteq> primary_for_view (n_of s) (m_view m) \<Longrightarrow>
    micro ok s (s\<lparr>pending_prepares := (pending_prepares s)(message_key m :=
      dict_set (m_sender m) m (pending_prepares s (message_key m)))\<rparr>)"
| drain_prepares: "micro ok s (s\<lparr>pending_prepares := (pending_prepares s)(key := [])\<rparr>)"
| buffer_commit: "ok (Pub_commit m) \<Longrightarrow> is_replica s (m_sender m) \<Longrightarrow>
    micro ok s (s\<lparr>pending_commits := (pending_commits s)(message_key m :=
      dict_set (m_sender m) m (pending_commits s (message_key m)))\<rparr>)"
| drain_commits: "micro ok s (s\<lparr>pending_commits := (pending_commits s)(key := [])\<rparr>)"
| count_prepare: "ok (Pub_prepare m) \<or> m_sender m = self_id s \<Longrightarrow>
    is_replica s (m_sender m) \<Longrightarrow> m_sender m \<noteq> primary_for_view (n_of s) (m_view m) \<Longrightarrow>
    instances s (message_key m) = Some (message_instance m) \<Longrightarrow>
    micro ok s (s\<lparr>prepare_senders := (prepare_senders s)(message_key m :=
      insert (m_sender m) (prepare_senders s (message_key m)))\<rparr>)"
| become_prepared: "instances s key \<noteq> None \<Longrightarrow>
    prepare_threshold s \<le> int (card (prepare_senders s key)) \<Longrightarrow>
    micro ok s (s\<lparr>prepared_instances := insert key (prepared_instances s)\<rparr>)"
| count_commit: "ok (Pub_commit m) \<or> m_sender m = self_id s \<Longrightarrow> is_replica s (m_sender m) \<Longrightarrow>
    instances s (message_key m) = Some (message_instance m) \<Longrightarrow>
    message_key m \<in> prepared_instances s \<Longrightarrow>
    micro ok s (s\<lparr>commit_senders := (commit_senders s)(message_key m :=
      insert (m_sender m) (commit_senders s (message_key m)))\<rparr>)"
| become_committed: "instances s key = Some inst \<Longrightarrow> key \<in> prepared_instances s \<Longrightarrow>
    commit_threshold s \<le> int (card (commit_senders s key)) \<Longrightarrow>
    micro ok s (s\<lparr>committed_instances := insert key (committed_instances s),
      emergency_stop := i_emergency_stop inst\<rparr>)"
| mark_prepare: "micro ok s (s\<lparr>prepare_sent := insert key (prepare_sent s)\<rparr>)"
| send_prepare_vote: "instances s key = Some inst \<Longrightarrow>
    self_id s \<noteq> primary_for_view (n_of s) (fst key) \<Longrightarrow> key \<in> prepare_sent s \<Longrightarrow>
    micro ok s (publish (Pub_prepare (honest_vote PREPARE key inst s)) s)"
| mark_commit: "key \<in> prepared_instances s \<Longrightarrow>
    micro ok s (s\<lparr>commit_sent := insert key (commit_sent s)\<rparr>)"
| send_commit_vote: "instances s key = Some inst \<Longrightarrow> key \<in> commit_sent s \<Longrightarrow>
    micro ok s (publish (Pub_commit (honest_vote COMMIT key inst s)) s)"
| accept_proposal: "ok (Pub_pre_prepare m) \<Longrightarrow> m_sender m = primary_id s \<Longrightarrow>
    m_view m = current_view s \<Longrightarrow> m_seq m \<noteq> 0 \<Longrightarrow> valid_instance (message_instance m) \<Longrightarrow>
    instances s (message_key m) = None \<Longrightarrow>
    micro ok s (s\<lparr>instances := (instances s)(message_key m \<mapsto> message_instance m)\<rparr>)"
| cache_request: "valid_instance inst \<Longrightarrow> map_of (cached_client_requests s) (i_request_id inst) = None \<Longrightarrow>
    micro ok s (s\<lparr>cached_client_requests :=
      dict_set (i_request_id inst) inst (cached_client_requests s)\<rparr>)"
| propose: "self_id s = primary_id s \<Longrightarrow> valid_instance inst \<Longrightarrow>
    key = (current_view s, next_sequence_number s) \<Longrightarrow>
    s1 = publish_status
      (s\<lparr>next_sequence_number := next_sequence_number s + 1,
         instances := (instances s)(key \<mapsto> inst),
         processed_request_ids := insert (i_request_id inst) (processed_request_ids s),
         current_key := Some key, phase_of := PRE_PREPARED\<rparr>) \<Longrightarrow>
    micro ok s (publish (Pub_pre_prepare (proposal_of key inst s1)) s1)"
| recover: "self_id s = primary_id s \<Longrightarrow> fst key = current_view s \<Longrightarrow> instances s key = Some inst \<Longrightarrow>
    micro ok s (publish (Pub_pre_prepare (proposal_of key inst s))
      (publish_status
         (s\<lparr>recovery_pre_prepare_sent := insert key (recovery_pre_prepare_sent s),
            current_key := Some key, phase_of := PRE_PREPARED\<rparr>)))"
| set_recovery_timers: "micro ok s (s\<lparr>recovery_pre_prepare_timers := T\<rparr>)"
| store_view_change: "valid_proof v m s \<Longrightarrow>
    map_of (view_change_messages s v) (vc_sender m) = None \<Longrightarrow>
    micro ok s (s\<lparr>view_change_messages := (view_change_messages s)(v :=
      dict_set (vc_sender m) m (view_change_messages s v))\<rparr>)"
| mark_view_change: "micro ok s (s\<lparr>view_change_sent := insert v (view_change_sent s)\<rparr>)"
| send_view_change: "vc_sender m = self_id s \<Longrightarrow> truthful_certificate m s \<Longrightarrow>
    micro ok s (publish (Pub_view_change m) s)"
| send_new_view: "v \<notin> new_view_sent s \<Longrightarrow> build_new_view_message v vcs s = Some m \<Longrightarrow>
    micro ok s (publish (Pub_new_view m) (publish_status
      (s\<lparr>new_view_sent := insert v (new_view_sent s), phase_of := NEW_VIEW_PROPOSED\<rparr>)))"
| note_new_view: "micro ok s (s\<lparr>accepted_new_view_payloads := A\<rparr>)"
| enter_view: "ok (Pub_new_view m) \<Longrightarrow> v = nv_new_view m \<Longrightarrow> current_view s < v \<Longrightarrow>
    nv_sender m = primary_for_view (n_of s) v \<Longrightarrow>
    inst = nv_instance m \<Longrightarrow> valid_instance inst \<Longrightarrow> nv_seq m \<noteq> 0 \<Longrightarrow>
    instances s (v, nv_seq m) = None \<or> instances s (v, nv_seq m) = Some inst \<Longrightarrow>
    s1 = cancel_obsolete_protocol_activity v s \<Longrightarrow>
    micro ok s (s1\<lparr>cached_client_requests :=
        dict_set (i_request_id inst) inst (cached_client_requests s1),
      instances := (instances s1)((v, nv_seq m) \<mapsto> inst),
      processed_request_ids := insert (i_request_id inst) (processed_request_ids s1),
      current_view := v,
      primary_id := primary_for_view (n_of s) v,
      current_key := Some (v, nv_seq m),
      next_sequence_number := max (next_sequence_number s1) (nv_seq m + 1),
      phase_of := NEW_VIEW_ACCEPTED\<rparr>)"

section \<open>The replica invariant\<close>

definition inv_config :: "pbft_replica \<Rightarrow> bool" where
  "inv_config s =
     (\<not> is_byzantine (params s) \<and> 0 \<le> max_faulty (params s) \<and>
      n_of s = 3 * max_faulty (params s) + 1 \<and> is_replica s (self_id s) \<and>
      primary_id s = primary_for_view (n_of s) (current_view s))"

definition inv_instances :: "pbft_replica \<Rightarrow> bool" where
  "inv_instances s =
     (1 \<le> next_sequence_number s \<and>
      (\<forall>k i. instances s k = Some i \<longrightarrow> valid_instance i \<and> snd k \<noteq> 0 \<and> fst k \<le> current_view s) \<and>
      (\<forall>k. current_key s = Some k \<longrightarrow> fst k = current_view s \<and> instances s k \<noteq> None))"

definition inv_votes :: "pbft_replica \<Rightarrow> bool" where
  "inv_votes s =
     (finite (prepared_instances s) \<and>
      (\<forall>k. \<forall>i \<in> prepare_senders s k. is_replica s i \<and> i \<noteq> primary_for_view (n_of s) (fst k)) \<and>
      (\<forall>k. \<forall>i \<in> commit_senders s k. is_replica s i) \<and>
      (\<forall>k \<in> prepared_instances s. instances s k \<noteq> None \<and>
         prepare_threshold s \<le> int (card (prepare_senders s k))) \<and>
      (\<forall>k \<in> committed_instances s. k \<in> prepared_instances s \<and>
         commit_threshold s \<le> int (card (commit_senders s k))) \<and>
      (\<forall>k \<in> commit_sent s. k \<in> prepared_instances s))"

definition inv_pending :: "(publication \<Rightarrow> bool) \<Rightarrow> pbft_replica \<Rightarrow> bool" where
  "inv_pending ok s =
     ((\<forall>k i m. (i, m) \<in> set (pending_prepares s k) \<longrightarrow> i = m_sender m \<and> message_key m = k \<and>
         ok (Pub_prepare m) \<and> is_replica s i \<and> i \<noteq> primary_for_view (n_of s) (fst k)) \<and>
      (\<forall>k i m. (i, m) \<in> set (pending_commits s k) \<longrightarrow> i = m_sender m \<and> message_key m = k \<and>
         ok (Pub_commit m) \<and> is_replica s i))"

definition inv_cache :: "pbft_replica \<Rightarrow> bool" where
  "inv_cache s =
     ((\<forall>r i. (r, i) \<in> set (cached_client_requests s) \<longrightarrow> i_request_id i = r \<and> valid_instance i) \<and>
      distinct (map fst (cached_client_requests s)))"

definition inv_stop :: "pbft_replica \<Rightarrow> bool" where
  "inv_stop s = (emergency_stop s \<longleftrightarrow> committed_instances s \<noteq> {})"

definition inv_view_changes :: "pbft_replica \<Rightarrow> bool" where
  "inv_view_changes s =
     (\<forall>v. distinct (map fst (view_change_messages s v)) \<and>
        (\<forall>i m. (i, m) \<in> set (view_change_messages s v) \<longrightarrow> i = vc_sender m \<and> valid_proof v m s))"

definition inv_timers :: "pbft_replica \<Rightarrow> bool" where
  "inv_timers s = (delayed_prepare_timers s = {} \<and> delayed_commit_timers s = {})"

section \<open>Every elementary step keeps it\<close>

lemmas micro_unfold = publish_status_def publish_def cancel_obsolete_protocol_activity_def

lemma inv_config_micro: "micro ok s s' \<Longrightarrow> inv_config s \<Longrightarrow> inv_config s'"
  by (induction rule: micro.induct) (auto simp: inv_config_def is_replica_def micro_unfold)

lemma inv_instances_micro: "micro ok s s' \<Longrightarrow> inv_instances s \<Longrightarrow> inv_instances s'"
  by (induction rule: micro.induct)
    (auto simp: inv_instances_def micro_unfold message_key_def split: if_splits,
      (meson less_imp_le_nat order_trans)+)

lemma inv_cache_micro: "micro ok s s' \<Longrightarrow> inv_cache s \<Longrightarrow> inv_cache s'"
  by (induction rule: micro.induct)
    (auto simp: inv_cache_def micro_unfold distinct_dict_set dest!: set_dict_set[THEN subsetD])

lemma inv_pending_micro: "micro ok s s' \<Longrightarrow> inv_pending ok s \<Longrightarrow> inv_pending ok s'"
  by (induction rule: micro.induct)
    (auto simp: inv_pending_def micro_unfold is_replica_def message_key_def
      dest!: set_dict_set[THEN subsetD] split: if_splits)

lemma inv_stop_micro: "micro ok s s' \<Longrightarrow> inv_instances s \<Longrightarrow> inv_stop s \<Longrightarrow> inv_stop s'"
  by (induction rule: micro.induct)
    (auto simp: inv_stop_def inv_instances_def valid_instance_def micro_unfold)

lemma inv_timers_micro: "micro ok s s' \<Longrightarrow> inv_timers s \<Longrightarrow> inv_timers s'"
  by (induction rule: micro.induct) (auto simp: inv_timers_def micro_unfold)

lemma finite_replicas: "(\<And>i. i \<in> A \<Longrightarrow> is_replica s i) \<Longrightarrow> finite A"
  by (rule finite_subset[of _ "{0..<n_of s}"]) (auto simp: is_replica_def)

lemma inv_votes_finite:
  assumes "inv_votes s"
  shows "finite (prepare_senders s k)" and "finite (commit_senders s k)"
proof -
  have "is_replica s i" if "i \<in> prepare_senders s k \<or> i \<in> commit_senders s k" for i
    using assms that unfolding inv_votes_def by blast
  then show "finite (prepare_senders s k)" and "finite (commit_senders s k)"
    using finite_replicas by blast+
qed

lemma inv_votes_micro:
  assumes "micro ok s s'" "inv_votes s" "inv_instances s"
  shows "inv_votes s'"
  using assms inv_votes_finite[OF assms(2)]
proof (induction rule: micro.induct)
  case (count_prepare m s)
  then have "card (prepare_senders s (message_key m))
      \<le> card (insert (m_sender m) (prepare_senders s (message_key m)))"
    by (simp add: card_insert_le)
  with count_prepare show ?case
    by (auto simp: inv_votes_def is_replica_def prepare_threshold_def commit_threshold_def message_key_def)
next
  case (count_commit m s)
  then have "card (commit_senders s (message_key m))
      \<le> card (insert (m_sender m) (commit_senders s (message_key m)))"
    by (simp add: card_insert_le)
  with count_commit show ?case
    by (auto simp: inv_votes_def is_replica_def prepare_threshold_def commit_threshold_def message_key_def)
qed (auto simp: inv_votes_def is_replica_def micro_unfold threshold_defs)

lemma valid_proof_params: "params s' = params s \<Longrightarrow> valid_proof v m s' = valid_proof v m s"
  by (simp add: valid_proof_def validate_view_change_certificate_def threshold_defs)

lemma params_micro: "micro ok s s' \<Longrightarrow> params s' = params s"
  by (induction rule: micro.induct) (auto simp: micro_unfold)

lemma view_changes_micro:
  "micro ok s s' \<Longrightarrow> view_change_messages s' = view_change_messages s \<or>
     (\<exists>v m. valid_proof v m s \<and> view_change_messages s' = (view_change_messages s)(v :=
        dict_set (vc_sender m) m (view_change_messages s v)))"
  by (induction rule: micro.induct) (auto simp: micro_unfold)

lemma inv_view_changes_micro:
  assumes "micro ok s s'" "inv_view_changes s"
  shows "inv_view_changes s'"
proof -
  have vp: "valid_proof v m s' = valid_proof v m s" for v m
    using params_micro[OF assms(1)] by (rule valid_proof_params)
  show ?thesis
    using view_changes_micro[OF assms(1)] assms(2)
    by (auto simp: inv_view_changes_def vp distinct_dict_set
        dest!: set_dict_set[THEN subsetD] split: if_splits)
qed

definition rinv :: "(publication \<Rightarrow> bool) \<Rightarrow> pbft_replica \<Rightarrow> bool" where
  "rinv ok s = (inv_config s \<and> inv_instances s \<and> inv_votes s \<and> inv_pending ok s \<and> inv_cache s \<and>
     inv_stop s \<and> inv_view_changes s \<and> inv_timers s)"

lemma rinv_micro: "micro ok s s' \<Longrightarrow> rinv ok s \<Longrightarrow> rinv ok s'"
  unfolding rinv_def
  by (blast intro: inv_config_micro inv_instances_micro inv_votes_micro inv_pending_micro
      inv_cache_micro inv_stop_micro inv_view_changes_micro inv_timers_micro)

abbreviation micros :: "(publication \<Rightarrow> bool) \<Rightarrow> pbft_replica \<Rightarrow> pbft_replica \<Rightarrow> bool" where
  "micros ok \<equiv> (micro ok)\<^sup>*\<^sup>*"

lemma rinv_micros: "micros ok s s' \<Longrightarrow> rinv ok s \<Longrightarrow> rinv ok s'"
  by (induction rule: rtranclp_induct) (auto intro: rinv_micro)

end
