(* ===== verification/PBFT_Refinement.thy ===== *)
theory PBFT_Refinement
  imports PBFT_Abstract
begin

text \<open>
  Every callback and timer of a correct replica is a sequence of elementary steps of
  \<^verbatim>\<open>PBFT_Abstract\<close> and raises no exception. An operation of the normal case moves by
  \<open>settles\<close>: elementary steps that keep the view and the instances. The handlers
  that store an instance or change the view are composed from it by \<open>refines\<close>.
  The last section interprets the interface \<open>ordered_machine\<close> on \<open>replica_step\<close> and
  states what it gives for runs of a correct replica.
\<close>

declare split_paired_All [simp del] split_paired_Ex [simp del]

section \<open>Start-up\<close>

lemma rinv_init:
  assumes "init_replica p = Inr s" "\<not> is_byzantine p"
  shows "rinv ok s"
proof -
  let ?q = "p\<lparr>byzantine_behavior := ''none''\<rparr>"
  from assms have v: "validate_configuration ?q = Inr ()" and s: "s = publish_status (initial_state ?q)"
    by (auto simp: init_replica_def Let_def bindE_eq_Inr validate_configuration_def)
  from v have "inv_config s"
    using assms(2) primary_for_view_range[of "replica_count p"]
    by (auto simp: s inv_config_def validate_configuration_def initial_state_def publish_status_def
        is_replica_def)
  moreover have "inv_instances s \<and> inv_votes s \<and> inv_pending ok s \<and> inv_cache s \<and> inv_stop s \<and>
      inv_view_changes s \<and> inv_timers s"
    by (simp add: s inv_instances_def inv_votes_def inv_pending_def inv_cache_def inv_stop_def
        inv_view_changes_def inv_timers_def initial_state_def publish_status_def publish_def)
  ultimately show ?thesis by (simp add: rinv_def)
qed

section \<open>Sequences of elementary steps\<close>

definition settles :: "(publication \<Rightarrow> bool) \<Rightarrow> pbft_replica \<Rightarrow> pbft_replica \<Rightarrow> bool" where
  "settles ok s s' =
     (micros ok s s' \<and> current_view s' = current_view s \<and> primary_id s' = primary_id s \<and>
      params s' = params s \<and>
      instances s' = instances s \<and> prepared_instances s \<subseteq> prepared_instances s' \<and>
      prepare_sent s \<subseteq> prepare_sent s' \<and> commit_sent s \<subseteq> commit_sent s')"

definition settled :: "(publication \<Rightarrow> bool) \<Rightarrow> pbft_replica \<Rightarrow> py_error + pbft_replica \<Rightarrow> bool" where
  "settled ok s r = (\<exists>s'. r = Inr s' \<and> settles ok s s')"

lemma settles_refl [simp]: "settles ok s s"
  by (simp add: settles_def)

lemma settles_trans [trans]: "settles ok s t \<Longrightarrow> settles ok t u \<Longrightarrow> settles ok s u"
  by (auto simp: settles_def)

lemma settles_micro:
  "micro ok s s' \<Longrightarrow> current_view s' = current_view s \<Longrightarrow> primary_id s' = primary_id s \<Longrightarrow>
    params s' = params s \<Longrightarrow>
    instances s' = instances s \<Longrightarrow> prepared_instances s \<subseteq> prepared_instances s' \<Longrightarrow>
    prepare_sent s \<subseteq> prepare_sent s' \<Longrightarrow> commit_sent s \<subseteq> commit_sent s' \<Longrightarrow> settles ok s s'"
  by (auto simp: settles_def)

lemma settles_rinv: "settles ok s s' \<Longrightarrow> rinv ok s \<Longrightarrow> rinv ok s'"
  by (auto simp: settles_def intro: rinv_micros)

lemma settled_Inr: "settles ok s s' \<Longrightarrow> settled ok s (Inr s')"
  by (simp add: settled_def)

lemma settled_refl [simp]: "settled ok s (Inr s)"
  by (simp add: settled_def)

lemma settled_after: "settles ok s t \<Longrightarrow> settled ok t r \<Longrightarrow> settled ok s r"
  unfolding settled_def using settles_trans by fastforce

lemma settled_bind:
  "settled ok s r \<Longrightarrow> (\<And>t. settles ok s t \<Longrightarrow> settled ok t (g t)) \<Longrightarrow> settled ok s (bindE r g)"
  unfolding settled_def by (metis bindE_simps(2) settles_trans)

lemma settled_fold:
  assumes "\<And>x t. x \<in> set xs \<Longrightarrow> settles ok s t \<Longrightarrow> settled ok t (f x t)"
  shows "settled ok s (foldE f xs s)"
  using foldE_inv[of xs "settles ok s" f s] assms unfolding settled_def
  by (meson settles_refl settles_trans)

section \<open>A correct replica votes truthfully\<close>

lemma rinv_honest: "rinv ok s \<Longrightarrow> \<not> is_byzantine (params s)"
  by (simp add: rinv_def inv_config_def)

lemma honest_predicates [honest_simps]:
  assumes "\<not> is_byzantine (params s)"
  shows "\<not> is_skip_pre_prepare_byzantine s" "\<not> is_silent_byzantine s" "\<not> is_skip_prepare_byzantine s"
    "\<not> is_skip_commit_byzantine s" "\<not> is_delayed_prepare_byzantine s" "\<not> is_delayed_commit_byzantine s"
    "\<not> is_early_commit_byzantine s" "\<not> is_invalid_sender_byzantine s" "\<not> is_equivocation_byzantine s"
    "\<not> is_duplicate_byzantine s"
  using assms by (simp_all add: byzantine_defs)

lemma honest_outgoing [honest_simps]:
  "\<not> is_byzantine (params s) \<Longrightarrow> outgoing_vote ty key inst s = honest_vote ty key inst s"
  by (simp add: outgoing_vote_def honest_vote_def outgoing_sender_id_def outgoing_view_def
      outgoing_sequence_number_def outgoing_emergency_stop_def outgoing_digest_def byzantine_defs)

lemma honest_copies [honest_simps]:
  "\<not> is_byzantine (params s) \<Longrightarrow> publish_copies ty m s = publish_vote ty m s"
  by (simp add: publish_copies_def publish_vote_def byzantine_defs Let_def)

lemma honest_vote_fields [simp]:
  "message_key (honest_vote ty key inst s) = key"
  "message_instance (honest_vote ty key inst s) = inst"
  "m_sender (honest_vote ty key inst s) = self_id s"
  "m_view (honest_vote ty key inst s) = fst key"
  "m_seq (honest_vote ty key inst s) = snd key"
  by (simp_all add: honest_vote_def message_key_def message_instance_def)

lemma honest_vote_params: "params s' = params s \<Longrightarrow> honest_vote ty key inst s' = honest_vote ty key inst s"
  by (simp add: honest_vote_def)

lemma matches_instance: "message_matches_instance m inst \<longleftrightarrow> message_instance m = inst"
  by (auto simp: message_matches_instance_def message_instance_def)

lemma rinv_instance: "rinv ok s \<Longrightarrow> key \<in> prepared_instances s \<Longrightarrow> \<exists>inst. instances s key = Some inst"
  by (auto simp: rinv_def inv_votes_def)

lemma rinv_self: "rinv ok s \<Longrightarrow> is_replica s (self_id s)"
  by (simp add: rinv_def inv_config_def)

lemma rinv_primary: "rinv ok s \<Longrightarrow> primary_id s = primary_for_view (n_of s) (current_view s)"
  by (simp add: rinv_def inv_config_def)

lemma adjust_to:
  assumes "t = s\<lparr>current_key := current_key t, phase_of := phase_of t,
      manual_view_change_timer := manual_view_change_timer t,
      progress_timeout_timer := progress_timeout_timer t,
      progress_timeout_request_id := progress_timeout_request_id t,
      progress_timeout_view := progress_timeout_view t\<rparr>"
    and "\<And>k. current_key t = Some k \<Longrightarrow> fst k = current_view s \<and> instances s k \<noteq> None"
  shows "settles ok s t"
proof (rule settles_micro)
  show "micro ok s t"
    using assms(2) by (subst assms(1)) (rule micro.adjust)
qed (subst assms(1), simp)+

lemma report_settles: "settles ok s (publish_status s)"
  by (rule settles_micro[OF micro.report]) (simp_all add: publish_status_def)

lemma adjust_report:
  assumes "settles ok s t" shows "settles ok s (publish_status t)"
  using assms report_settles by (rule settles_trans)

lemma rinv_current: "rinv ok s \<Longrightarrow> current_key s = Some k \<Longrightarrow> fst k = current_view s \<and> instances s k \<noteq> None"
  by (auto simp: rinv_def inv_instances_def)

lemma watchdog_keeps_key [simp, frame_simps]:
  "current_key (arm_progress_timeout r s) = current_key s"
  "current_key (cancel_progress_timeout s) = current_key s"
  by (simp_all add: arm_progress_timeout_def cancel_progress_timeout_def clear_progress_timeout_timer_def)

lemma arm_settles: "rinv ok s \<Longrightarrow> settles ok s (arm_progress_timeout r s)"
proof (rule adjust_to)
  assume "rinv ok s"
  then show "fst k = current_view s \<and> instances s k \<noteq> None"
    if "current_key (arm_progress_timeout r s) = Some k" for k
    using that rinv_current by simp
qed (simp add: arm_progress_timeout_def clear_progress_timeout_timer_def)

lemma cancel_settles: "rinv ok s \<Longrightarrow> settles ok s (cancel_progress_timeout s)"
proof (rule adjust_to)
  assume "rinv ok s"
  then show "fst k = current_view s \<and> instances s k \<noteq> None"
    if "current_key (cancel_progress_timeout s) = Some k" for k
    using that rinv_current by simp
qed (simp add: cancel_progress_timeout_def clear_progress_timeout_timer_def)

section \<open>COMMIT\<close>

lemma buffer_commit_settles:
  assumes "rinv ok s" "fst (message_key m) = current_view s" "is_replica s (m_sender m)"
    "ok (Pub_commit m)"
  shows "settles ok s (buffer_early_commit (message_key m) m s)"
proof -
  let ?s1 = "s\<lparr>pending_commits := (pending_commits s)(message_key m :=
      dict_set (m_sender m) m (pending_commits s (message_key m)))\<rparr>"
  have "settles ok s ?s1"
    using micro.buffer_commit[of ok m s] assms by (auto intro!: settles_micro)
  moreover have "settles ok ?s1 (publish_status (?s1\<lparr>current_key := Some (message_key m)\<rparr>))"
    if "instances s (message_key m) \<noteq> None"
    using that assms by (intro adjust_report adjust_to) auto
  ultimately show ?thesis
    by (auto simp: buffer_early_commit_def Let_def intro: settles_trans)
qed

lemma evaluate_committed_settled:
  assumes "rinv ok s" "fst key = current_view s"
  shows "settled ok s (evaluate_committed key s)"
proof (cases "key \<in> committed_instances s \<or> key \<notin> prepared_instances s \<or>
    int (card (commit_senders s key)) < commit_threshold s")
  case False
  then obtain inst where inst: "instances s key = Some inst"
    using rinv_instance assms(1) by blast
  let ?s1 = "s\<lparr>committed_instances := insert key (committed_instances s),
      emergency_stop := i_emergency_stop inst\<rparr>"
  have "micro ok s ?s1"
    using micro.become_committed[of s key inst ok] False inst by auto
  then have "settles ok s ?s1" by (rule settles_micro) auto
  also have "settles ok ?s1 (publish_status
      ((cancel_progress_timeout (s\<lparr>committed_instances := insert key (committed_instances s)\<rparr>))
        \<lparr>emergency_stop := i_emergency_stop inst, current_key := Some key, phase_of := COMMITTED\<rparr>))"
    using assms inst
    by (intro adjust_report adjust_to)
      (auto simp: cancel_progress_timeout_def clear_progress_timeout_timer_def)
  finally show ?thesis
    using False inst by (auto simp: evaluate_committed_def instance_at_def Let_def intro: settled_Inr)
qed (auto simp: evaluate_committed_def)

lemma accept_commit_eq:
  "accept_commit m s =
     (let key = message_key m in
      if instances s key \<noteq> Some (message_instance m) then Inr s
      else if key \<notin> prepared_instances s then Inr (buffer_early_commit key m s)
      else if m_sender m \<in> commit_senders s key then Inr s
      else evaluate_committed key (publish_status
        (s\<lparr>commit_senders := (commit_senders s)(key := insert (m_sender m) (commit_senders s key)),
           current_key := Some key\<rparr>)))"
  by (simp add: accept_commit_def message_key_def matches_instance Let_def split: option.split)

lemma accept_commit_settled:
  assumes "rinv ok s" "fst (message_key m) = current_view s" "is_replica s (m_sender m)"
    and "ok (Pub_commit m) \<or> m_sender m = self_id s \<and> message_key m \<in> prepared_instances s"
  shows "settled ok s (accept_commit m s)"
proof (cases "instances s (message_key m) = Some (message_instance m) \<and>
    message_key m \<in> prepared_instances s \<and> m_sender m \<notin> commit_senders s (message_key m)")
  case True
  let ?key = "message_key m"
  let ?s1 = "s\<lparr>commit_senders := (commit_senders s)(?key := insert (m_sender m) (commit_senders s ?key))\<rparr>"
  let ?s2 = "publish_status (?s1\<lparr>current_key := Some ?key\<rparr>)"
  have "micro ok s ?s1"
    using micro.count_commit[of ok m s] True assms by auto
  then have "settles ok s ?s1" by (rule settles_micro) auto
  also have "settles ok ?s1 ?s2"
    using assms True by (intro adjust_report adjust_to) auto
  finally have s2: "settles ok s ?s2" .
  have "settled ok ?s2 (evaluate_committed ?key ?s2)"
    using settles_rinv[OF s2 assms(1)] assms(2)
    by (intro evaluate_committed_settled) (simp_all add: publish_status_def)
  with s2 True show ?thesis
    by (auto simp: accept_commit_eq Let_def intro: settled_after)
next
  case False
  have "settled ok s (Inr (buffer_early_commit (message_key m) m s))"
    if "message_key m \<notin> prepared_instances s"
    using that assms buffer_commit_settles settled_Inr by blast
  with False show ?thesis
    by (auto simp: accept_commit_eq Let_def)
qed

lemma rinv_pending_commit:
  assumes "rinv ok s" "m \<in> snd ` set (pending_commits s key)"
  shows "message_key m = key \<and> ok (Pub_commit m) \<and> is_replica s (m_sender m)"
proof -
  from assms(2) obtain i where "(i, m) \<in> set (pending_commits s key)" by auto
  with assms(1) show ?thesis unfolding rinv_def inv_pending_def by blast
qed

lemma is_replica_settles: "settles ok s t \<Longrightarrow> is_replica t i = is_replica s i"
  by (simp add: settles_def is_replica_def)

lemma process_pending_commits_settled:
  assumes "rinv ok s" "fst key = current_view s"
  shows "settled ok s (process_pending_commits key s)"
proof -
  let ?s1 = "s\<lparr>pending_commits := (pending_commits s)(key := [])\<rparr>"
  have s1: "settles ok s ?s1"
    using micro.drain_commits by (rule settles_micro) auto
  have "settled ok ?s1 (foldE accept_commit (map snd (pending_commits s key)) ?s1)"
  proof (rule settled_fold)
    fix m t assume "m \<in> set (map snd (pending_commits s key))" and t: "settles ok ?s1 t"
    then have "message_key m = key \<and> ok (Pub_commit m) \<and> is_replica s (m_sender m)"
      using rinv_pending_commit[OF assms(1)] by simp
    moreover have "settles ok s t" using s1 t by (rule settles_trans)
    ultimately show "settled ok t (accept_commit m t)"
      using assms settles_rinv[of ok s t]
      by (intro accept_commit_settled) (auto simp: is_replica_settles settles_def)
  qed
  with s1 show ?thesis
    by (auto simp: process_pending_commits_def intro: settled_after)
qed

lemma send_commit_settled:
  assumes "rinv ok s" "fst key = current_view s"
  shows "settled ok s (send_commit key bypass s)"
proof (cases "key \<in> commit_sent s \<or> key \<notin> prepared_instances s")
  case False
  note honest = rinv_honest[OF assms(1)]
  from False obtain inst where inst: "instances s key = Some inst"
    using rinv_instance assms(1) by blast
  let ?v = "honest_vote COMMIT key inst s"
  let ?s1 = "s\<lparr>commit_sent := insert key (commit_sent s)\<rparr>"
  have "micro ok s ?s1"
    using False by (intro micro.mark_commit) simp
  then have s1: "settles ok s ?s1" by (rule settles_micro) auto
  have acc: "settled ok ?s1 (accept_commit ?v ?s1)"
    using settles_rinv[OF s1 assms(1)] assms False
    by (intro accept_commit_settled) (auto dest: rinv_self)
  have "settled ok t (Inr (publish_copies COMMIT ?v t))" if t: "settles ok ?s1 t" for t
  proof -
    from t have p: "params t = params s" and "instances t key = Some inst" "key \<in> commit_sent t"
      using inst by (auto simp: settles_def)
    then have "micro ok t (publish (Pub_commit ?v) t)"
      using micro.send_commit_vote[of t key inst ok] honest_vote_params[OF p] by metis
    then have "settles ok t (publish (Pub_commit ?v) t)" by (rule settles_micro) auto
    then show ?thesis
      using honest p by (simp add: honest_simps publish_vote_def settled_Inr)
  qed
  from settled_after[OF s1 settled_bind[OF acc this]] show ?thesis
    using False honest inst by (simp add: send_commit_def honest_simps instance_at_def Let_def)
qed (use rinv_honest[OF assms(1)] in \<open>auto simp: send_commit_def honest_simps\<close>)

lemma commit_callback_settled:
  assumes "rinv ok s" "ok (Pub_commit m)"
  shows "settled ok s (commit_callback m s)"
proof -
  have "settled ok s (accept_commit m s)"
    and "settled ok s (Inr (buffer_early_commit (m_view m, m_seq m) m s))"
    if "m_view m = current_view s" "0 \<le> m_sender m \<and> m_sender m < n_of s"
    using that assms buffer_commit_settles[of ok s m]
    by (auto simp: message_key_def is_replica_def intro!: accept_commit_settled settled_Inr)
  then show ?thesis
    by (simp add: commit_callback_def Let_def)
qed

section \<open>PREPARE\<close>

lemma buffer_prepare_settles:
  assumes "is_replica s (m_sender m)" "ok (Pub_prepare m)"
    "m_sender m \<noteq> primary_for_view (n_of s) (m_view m)"
  shows "settles ok s (buffer_early_prepare (message_key m) m s)"
  using micro.buffer_prepare[of ok m s] assms
  by (auto simp: buffer_early_prepare_def intro!: settles_micro)

lemma evaluate_prepared_settled:
  assumes "rinv ok s" "fst key = current_view s" "instances s key \<noteq> None"
  shows "settled ok s (evaluate_prepared key s)"
proof (cases "key \<in> prepared_instances s \<or> int (card (prepare_senders s key)) < prepare_threshold s")
  case False
  from assms(3) obtain inst where inst: "instances s key = Some inst" by blast
  let ?s1 = "s\<lparr>prepared_instances := insert key (prepared_instances s)\<rparr>"
  let ?s2 = "publish_status (?s1\<lparr>current_key := Some key, phase_of := PREPARED\<rparr>)"
  let ?s3 = "arm_progress_timeout (i_request_id inst) ?s2"
  have "micro ok s ?s1"
    using False assms(3) by (intro micro.become_prepared) auto
  then have "settles ok s ?s1" by (rule settles_micro) auto
  also have "settles ok ?s1 ?s2"
    using assms by (intro adjust_report adjust_to) auto
  finally have s2: "settles ok s ?s2" .
  also have "settles ok ?s2 ?s3"
    using settles_rinv[OF s2 assms(1)] by (rule arm_settles)
  finally have s3: "settles ok s ?s3" .
  have v3: "fst key = current_view ?s3" using s3 assms(2) by (simp add: settles_def)
  have "settled ok ?s3 (bindE (process_pending_commits key ?s3) (send_commit key False))"
  proof (rule settled_bind)
    show "settled ok ?s3 (process_pending_commits key ?s3)"
      using settles_rinv[OF s3 assms(1)] v3 by (rule process_pending_commits_settled)
    show "settled ok t (send_commit key False t)" if t: "settles ok ?s3 t" for t
      using settles_rinv[OF t settles_rinv[OF s3 assms(1)]] v3 t
      by (intro send_commit_settled) (auto simp: settles_def)
  qed
  from settled_after[OF s3 this] show ?thesis
    using False inst by (simp add: evaluate_prepared_def instance_at_def publish_status_def Let_def)
qed (auto simp: evaluate_prepared_def)

lemma accept_prepare_eq:
  "accept_prepare m s =
     (let key = message_key m in
      if instances s key \<noteq> Some (message_instance m) then Inr s
      else if m_sender m \<in> prepare_senders s key then Inr s
      else evaluate_prepared key (publish_status
        (s\<lparr>prepare_senders := (prepare_senders s)(key := insert (m_sender m) (prepare_senders s key)),
           current_key := Some key\<rparr>)))"
  by (simp add: accept_prepare_def message_key_def matches_instance Let_def split: option.split)

lemma accept_prepare_settled:
  assumes "rinv ok s" "m_view m = current_view s" "is_replica s (m_sender m)"
    and "ok (Pub_prepare m) \<or> m_sender m = self_id s" "m_sender m \<noteq> primary_id s"
  shows "settled ok s (accept_prepare m s)"
proof (cases "instances s (message_key m) = Some (message_instance m) \<and>
    m_sender m \<notin> prepare_senders s (message_key m)")
  case True
  let ?key = "message_key m"
  let ?s1 = "s\<lparr>prepare_senders := (prepare_senders s)(?key := insert (m_sender m) (prepare_senders s ?key))\<rparr>"
  let ?s2 = "publish_status (?s1\<lparr>current_key := Some ?key\<rparr>)"
  have key: "fst ?key = current_view s" using assms(2) by (simp add: message_key_def)
  have "micro ok s ?s1"
    using True assms rinv_primary[OF assms(1)] by (intro micro.count_prepare) auto
  then have "settles ok s ?s1" by (rule settles_micro) auto
  also have "settles ok ?s1 ?s2"
    using key True by (intro adjust_report adjust_to) auto
  finally have s2: "settles ok s ?s2" .
  have "settled ok ?s2 (evaluate_prepared ?key ?s2)"
    using settles_rinv[OF s2 assms(1)] key True
    by (intro evaluate_prepared_settled) (simp_all add: publish_status_def)
  with s2 True show ?thesis
    by (auto simp: accept_prepare_eq Let_def intro: settled_after)
qed (auto simp: accept_prepare_eq Let_def)

lemma rinv_pending_prepare:
  assumes "rinv ok s" "m \<in> snd ` set (pending_prepares s key)"
  shows "message_key m = key \<and> ok (Pub_prepare m) \<and> is_replica s (m_sender m) \<and>
    m_sender m \<noteq> primary_for_view (n_of s) (fst key)"
proof -
  from assms(2) obtain i where "(i, m) \<in> set (pending_prepares s key)" by auto
  with assms(1) show ?thesis unfolding rinv_def inv_pending_def by blast
qed

lemma process_pending_prepares_settled:
  assumes "rinv ok s" "fst key = current_view s"
  shows "settled ok s (process_pending_prepares key s)"
proof -
  let ?s1 = "s\<lparr>pending_prepares := (pending_prepares s)(key := [])\<rparr>"
  have s1: "settles ok s ?s1"
    using micro.drain_prepares by (rule settles_micro) auto
  have "settled ok ?s1 (foldE accept_prepare (map snd (pending_prepares s key)) ?s1)"
  proof (rule settled_fold)
    fix m t assume "m \<in> set (map snd (pending_prepares s key))" and t: "settles ok ?s1 t"
    then have m: "message_key m = key \<and> ok (Pub_prepare m) \<and> is_replica s (m_sender m) \<and>
        m_sender m \<noteq> primary_for_view (n_of s) (fst key)"
      using rinv_pending_prepare[OF assms(1)] by simp
    moreover have "settles ok s t" using s1 t by (rule settles_trans)
    moreover from m have "m_view m = fst key" by (auto simp: message_key_def)
    ultimately show "settled ok t (accept_prepare m t)"
      using assms settles_rinv[of ok s t] rinv_primary[OF assms(1)]
      by (intro accept_prepare_settled) (auto simp: is_replica_def settles_def)
  qed
  with s1 show ?thesis
    by (auto simp: process_pending_prepares_def intro: settled_after)
qed

lemma send_prepare_settled:
  assumes "rinv ok s" "fst key = current_view s" "self_id s \<noteq> primary_id s" "instances s key \<noteq> None"
  shows "settled ok s (send_prepare key bypass s)"
proof (cases "key \<in> prepare_sent s")
  case False
  note honest = rinv_honest[OF assms(1)]
  from assms(4) obtain inst where inst: "instances s key = Some inst" by blast
  let ?v = "honest_vote PREPARE key inst s"
  let ?s1 = "s\<lparr>prepare_sent := insert key (prepare_sent s)\<rparr>"
  have s1: "settles ok s ?s1"
    using micro.mark_prepare by (rule settles_micro) auto
  have acc: "settled ok ?s1 (accept_prepare ?v ?s1)"
    using settles_rinv[OF s1 assms(1)] assms
    by (intro accept_prepare_settled) (auto dest: rinv_self)
  have "settled ok t (Inr (publish_copies PREPARE ?v t))" if t: "settles ok ?s1 t" for t
  proof -
    from t have p: "params t = params s" and "instances t key = Some inst" "key \<in> prepare_sent t"
      using inst by (auto simp: settles_def)
    moreover from p have "self_id t \<noteq> primary_for_view (n_of t) (fst key)"
      using assms rinv_primary by simp
    ultimately have "micro ok t (publish (Pub_prepare ?v) t)"
      using micro.send_prepare_vote[of t key inst ok] honest_vote_params[OF p] by metis
    then have "settles ok t (publish (Pub_prepare ?v) t)" by (rule settles_micro) auto
    then show ?thesis
      using honest p by (simp add: honest_simps publish_vote_def settled_Inr)
  qed
  from settled_after[OF s1 settled_bind[OF acc this]] show ?thesis
    using False honest inst by (simp add: send_prepare_def honest_simps instance_at_def Let_def)
qed (use rinv_honest[OF assms(1)] in \<open>auto simp: send_prepare_def honest_simps\<close>)

lemma prepare_callback_settled:
  assumes "rinv ok s" "ok (Pub_prepare m)"
  shows "settled ok s (prepare_callback m s)"
proof -
  have "settled ok s (accept_prepare m s)"
    and "settled ok s (Inr (buffer_early_prepare (m_view m, m_seq m) m s))"
    if "m_view m = current_view s" "0 \<le> m_sender m \<and> m_sender m < n_of s" "m_sender m \<noteq> primary_id s"
    using that assms buffer_prepare_settles[of s m ok] rinv_primary[OF assms(1)]
    by (auto simp: message_key_def is_replica_def intro!: accept_prepare_settled settled_Inr)
  then show ?thesis
    by (simp add: prepare_callback_def Let_def)
qed

section \<open>Steps that change instances or the view\<close>

definition refines :: "(publication \<Rightarrow> bool) \<Rightarrow> pbft_replica \<Rightarrow> py_error + pbft_replica \<Rightarrow> bool" where
  "refines ok s r = (\<exists>s'. r = Inr s' \<and> micros ok s s')"

lemma refines_settled: "settled ok s r \<Longrightarrow> refines ok s r"
  by (auto simp: settled_def refines_def settles_def)

lemma refines_Inr: "micros ok s s' \<Longrightarrow> refines ok s (Inr s')"
  by (simp add: refines_def)

lemma refines_after: "micros ok s t \<Longrightarrow> refines ok t r \<Longrightarrow> refines ok s r"
  unfolding refines_def using rtranclp_trans by fastforce

lemma micros_settles: "settles ok s t \<Longrightarrow> micros ok s t"
  by (simp add: settles_def)

lemma micros_micro: "micro ok s t \<Longrightarrow> micros ok s t"
  by (rule r_into_rtranclp)

lemma valid_instance_message:
  "m_request_id m \<noteq> '''' \<Longrightarrow> m_digest m = compute_request_digest (m_request_id m) (m_stop m) \<Longrightarrow>
    m_stop m \<Longrightarrow> valid_instance (message_instance m)"
  by (simp add: valid_instance_def message_instance_def)

lemma pre_prepare_body:
  assumes "rinv ok s" "fst key = current_view s" "instances s key \<noteq> None"
  shows "settled ok s (bindE (process_pending_prepares key s) (\<lambda>s4.
      bindE (if is_early_commit_byzantine s4 then send_early_commit key s4 else Inr s4) (\<lambda>s5.
      if self_id s5 \<noteq> primary_id s5 then send_prepare key False s5 else Inr s5)))"
proof (rule settled_bind[OF process_pending_prepares_settled[OF assms(1,2)]])
  fix t assume t: "settles ok s t"
  then have r: "rinv ok t" using assms(1) by (rule settles_rinv)
  have "settled ok t (send_prepare key False t)" if "self_id t \<noteq> primary_id t"
    using r that t assms by (intro send_prepare_settled) (auto simp: settles_def)
  with rinv_honest[OF r] show "settled ok t
      (bindE (if is_early_commit_byzantine t then send_early_commit key t else Inr t) (\<lambda>s5.
        if self_id s5 \<noteq> primary_id s5 then send_prepare key False s5 else Inr s5))"
    by (simp add: honest_simps)
qed

text \<open>What \<^verbatim>\<open>_pre_prepare_callback\<close> does once the instance is stored.\<close>

definition pre_prepare_tail :: "mkey \<Rightarrow> pbft_replica \<Rightarrow> py_error + pbft_replica" where
  "pre_prepare_tail key s1 =
     (let s2 = s1\<lparr>current_key := Some key\<rparr>;
          s3 = (if key \<notin> prepared_instances s2 then s2\<lparr>phase_of := PRE_PREPARED\<rparr> else s2) in
      bindE (process_pending_prepares key (publish_status s3)) (\<lambda>s4.
      bindE (if is_early_commit_byzantine s4 then send_early_commit key s4 else Inr s4) (\<lambda>s5.
      if self_id s5 \<noteq> primary_id s5 then send_prepare key False s5 else Inr s5)))"

lemma pre_prepare_tail_settled:
  assumes "rinv ok s" "fst key = current_view s" "instances s key \<noteq> None"
  shows "settled ok s (pre_prepare_tail key s)"
proof -
  let ?s2 = "s\<lparr>current_key := Some key\<rparr>"
  let ?s3 = "publish_status
    (if key \<notin> prepared_instances ?s2 then ?s2\<lparr>phase_of := PRE_PREPARED\<rparr> else ?s2)"
  have s3: "settles ok s ?s3"
    using assms(2,3) by (intro adjust_report adjust_to) (auto split: if_splits)
  then have "settled ok ?s3 (bindE (process_pending_prepares key ?s3) (\<lambda>s4.
      bindE (if is_early_commit_byzantine s4 then send_early_commit key s4 else Inr s4) (\<lambda>s5.
      if self_id s5 \<noteq> primary_id s5 then send_prepare key False s5 else Inr s5)))"
    using settles_rinv[OF s3 assms(1)] assms(2,3)
    by (intro pre_prepare_body) (simp_all add: settles_def)
  with s3 show ?thesis unfolding pre_prepare_tail_def Let_def by (rule settled_after)
qed

lemma pre_prepare_callback_honest:
  assumes "\<not> is_byzantine (params s)"
  shows "pre_prepare_callback m s =
     (if m_type m \<noteq> PRE_PREPARE \<or> m_sender m \<noteq> primary_id s \<or>
         (m_recipient m \<noteq> -1 \<and> m_recipient m \<noteq> self_id s) \<or> m_view m \<noteq> current_view s \<or> m_seq m = 0 \<or>
         \<not> valid_instance (message_instance m) \<or>
         (instances s (message_key m) \<noteq> None \<and> instances s (message_key m) \<noteq> Some (message_instance m))
      then Inr s
      else if instances s (message_key m) = None
      then pre_prepare_tail (message_key m) (arm_progress_timeout (m_request_id m)
        (s\<lparr>instances := (instances s)(message_key m \<mapsto> message_instance m)\<rparr>))
      else pre_prepare_tail (message_key m) s)"
proof -
  have "params (arm_progress_timeout r s') = params s'" for r s'
    by (simp add: arm_progress_timeout_def clear_progress_timeout_timer_def)
  then show ?thesis
    using assms by (auto simp: pre_prepare_callback_def pre_prepare_tail_def message_key_def
        message_instance_def valid_instance_def honest_simps Let_def)
qed

lemma pre_prepare_callback_refines:
  assumes "rinv ok s" "ok (Pub_pre_prepare m)"
  shows "refines ok s (pre_prepare_callback m s)"
proof -
  let ?key = "message_key m"
  let ?s0 = "s\<lparr>instances := (instances s)(?key \<mapsto> message_instance m)\<rparr>"
  let ?s1 = "arm_progress_timeout (m_request_id m) ?s0"
  have tail: "refines ok s (pre_prepare_tail ?key ?s1)"
    if "m_sender m = primary_id s" "m_view m = current_view s" "m_seq m \<noteq> 0"
      "valid_instance (message_instance m)" "instances s ?key = None"
  proof -
    have s0: "micros ok s ?s0"
      using that assms(2) by (intro micros_micro micro.accept_proposal) auto
    then have r: "rinv ok ?s0" using assms(1) by (rule rinv_micros)
    then have s1: "settles ok ?s0 ?s1" by (rule arm_settles)
    have "settled ok ?s1 (pre_prepare_tail ?key ?s1)"
      using settles_rinv[OF s1 r] s1 that(2)
      by (intro pre_prepare_tail_settled) (simp_all add: settles_def message_key_def)
    with s1 have "refines ok ?s0 (pre_prepare_tail ?key ?s1)"
      by (meson refines_settled settled_after)
    with s0 show ?thesis by (rule refines_after)
  qed
  have "refines ok s (pre_prepare_tail ?key s)"
    if "m_view m = current_view s" "instances s ?key \<noteq> None"
    using assms(1) that
    by (intro refines_settled pre_prepare_tail_settled) (simp_all add: message_key_def)
  with tail show ?thesis
    by (simp add: pre_prepare_callback_honest[OF rinv_honest[OF assms(1)]] refines_Inr)
qed

section \<open>REQUEST\<close>

lemma rinv_cached:
  "rinv ok s \<Longrightarrow> map_of (cached_client_requests s) r = Some inst \<Longrightarrow>
    i_request_id inst = r \<and> valid_instance inst"
  by (auto simp: rinv_def inv_cache_def dest: map_of_SomeD)

lemma process_cached_refines:
  assumes "rinv ok s" "self_id s = primary_id s"
  shows "micros ok s (process_cached_request_as_primary r s)"
proof (cases "map_of (cached_client_requests s) r")
  case (Some inst)
  let ?key = "(current_view s, next_sequence_number s)"
  let ?s1 = "publish_status
      (s\<lparr>next_sequence_number := next_sequence_number s + 1,
         instances := (instances s)(?key \<mapsto> inst),
         processed_request_ids := insert r (processed_request_ids s),
         current_key := Some ?key, phase_of := PRE_PREPARED\<rparr>)"
  let ?s2 = "publish (Pub_pre_prepare (proposal_of ?key inst ?s1)) ?s1"
  from rinv_cached[OF assms(1) Some] have "micro ok s ?s2"
    using assms(2) by (intro micro.propose) auto
  moreover from this have "settles ok ?s2 (arm_progress_timeout (i_request_id inst) ?s2)"
    using assms(1) rinv_micro arm_settles by blast
  ultimately show ?thesis
    using Some by (simp add: process_cached_request_as_primary_def Let_def settles_def
        converse_rtranclp_into_rtranclp)
qed (simp add: process_cached_request_as_primary_def)

lemma cache_refines:
  assumes "validate_and_cache_client_request m s = (s1, r)"
  shows "micros ok s s1"
proof (cases "s1 = s")
  case False
  then have "s1 = s\<lparr>cached_client_requests :=
      dict_set (i_request_id (message_instance m)) (message_instance m) (cached_client_requests s)\<rparr>"
    and "valid_instance (message_instance m)"
    and "map_of (cached_client_requests s) (i_request_id (message_instance m)) = None"
    using assms by (auto simp: validate_and_cache_client_request_def Let_def message_instance_def
        valid_instance_def split: if_splits option.splits)
  then show ?thesis using micro.cache_request by blast
qed simp

lemma request_callback_refines:
  assumes "rinv ok s"
  shows "micros ok s (request_callback m s)"
proof -
  obtain s1 r where v: "validate_and_cache_client_request m s = (s1, r)" by fastforce
  let ?s2 = "if map_of (cached_client_requests s) (m_request_id m) = None
    then arm_progress_timeout (m_request_id m) s1 else s1"
  have s1: "micros ok s s1" using v by (rule cache_refines)
  with assms have r1: "rinv ok s1" by (metis rinv_micros)
  then have "settles ok s1 ?s2" using arm_settles by simp
  then have s12: "micros ok s1 ?s2" by (rule micros_settles)
  with r1 have r2: "rinv ok ?s2" by (metis rinv_micros)
  have "micros ok ?s2 (process_cached_request_as_primary (m_request_id m) ?s2)"
    if "self_id ?s2 = primary_id ?s2"
    using r2 that by (rule process_cached_refines)
  moreover from s1 s12 have "micros ok s ?s2" by (rule rtranclp_trans)
  ultimately show ?thesis
    using s1 v honest_predicates(1)[OF rinv_honest[OF r2]]
    unfolding request_callback_def Let_def
    by (auto split: option.split simp del: split_paired_All)
qed

section \<open>VIEW-CHANGE and NEW-VIEW\<close>

lemma maybe_publish_new_view_refines: "micros ok s (maybe_publish_new_view v s)"
  using micro.send_new_view[of v s "proof_messages v s"]
  by (auto simp: maybe_publish_new_view_def split: option.split)

lemma view_change_callback_refines: "micros ok s (view_change_callback m s)"
proof (cases "0 \<le> vc_sender m \<and> vc_sender m < n_of s \<and> validate_view_change_certificate m s \<and>
    map_of (view_change_messages s (vc_new_view m)) (vc_sender m) = None \<and> \<not> vc_new_view m \<le> current_view s")
  case True
  let ?v = "vc_new_view m"
  let ?s1 = "s\<lparr>view_change_messages := (view_change_messages s)(?v :=
      dict_set (vc_sender m) m (view_change_messages s ?v))\<rparr>"
  have "micro ok s ?s1"
    using True by (intro micro.store_view_change) (auto simp: valid_proof_def)
  then have "micros ok s (maybe_publish_new_view ?v ?s1)"
    using maybe_publish_new_view_refines by (rule converse_rtranclp_into_rtranclp)
  with True show ?thesis by (auto simp: view_change_callback_def)
qed (auto simp: view_change_callback_def)

lemma candidates_finite: "rinv ok s \<Longrightarrow> finite (view_change_candidates v s)"
  by (auto simp: rinv_def inv_votes_def view_change_candidates_def Set.filter_eq)

lemma selected_instance:
  assumes "rinv ok s" "select_prepared_instance_for_view_change v s = Some (key, inst)"
  shows "key \<in> prepared_instances s \<and> instances s key = Some inst \<and> fst key < v \<and>
    key \<notin> committed_instances s \<and> (\<forall>k \<in> view_change_candidates v s. k \<le> key)"
proof -
  from assms(2) have ne: "view_change_candidates v s \<noteq> {}"
    and key: "key = Max (view_change_candidates v s)" and inst: "inst = the (instances s key)"
    by (auto simp: select_prepared_instance_for_view_change_def Let_def split: if_splits)
  have "key \<in> view_change_candidates v s"
    unfolding key using candidates_finite[OF assms(1)] ne by (rule Max_in)
  moreover have "\<forall>k \<in> view_change_candidates v s. k \<le> key"
    using key candidates_finite[OF assms(1)] by simp
  ultimately show ?thesis by (auto simp: inst view_change_candidates_def)
qed

lemma rinv_certificate:
  assumes "rinv ok s" "key \<in> prepared_instances s" "instances s key = Some inst" "fst key < v"
  shows "validate_view_change_certificate
    \<lparr>vc_sender = self_id s, vc_new_view = v, vc_has_certificate = True,
     vc_prepared_view = fst key, vc_prepared_seq = snd key,
     vc_request_id = i_request_id inst, vc_digest = i_request_digest inst,
     vc_stop = i_emergency_stop inst,
     vc_prepare_senders = sorted_list_of_set (prepare_senders s key)\<rparr> s"
proof -
  have "finite (prepare_senders s key)"
    using assms(1) inv_votes_finite(1) by (simp add: rinv_def)
  moreover have "valid_instance inst" "snd key \<noteq> 0"
    using assms(1,3) by (auto simp: rinv_def inv_instances_def simp del: split_paired_All)
  moreover have "prepare_threshold s \<le> int (card (prepare_senders s key))"
    and "\<forall>i \<in> prepare_senders s key. is_replica s i \<and> i \<noteq> primary_for_view (n_of s) (fst key)"
    using assms(1,2) by (auto simp: rinv_def inv_votes_def)
  ultimately show ?thesis
    using assms(4)
    by (auto simp: validate_view_change_certificate_def valid_instance_def is_replica_def
        simp del: split_paired_All)
qed

lemma build_view_change_ok:
  assumes "rinv ok s" "current_view s < v"
  obtains m where "build_view_change_message v s = Inr m" "validate_view_change_certificate m s"
    "vc_sender m = self_id s" "vc_new_view m = v" "truthful_certificate m s"
proof (cases "select_prepared_instance_for_view_change v s")
  case None
  then show ?thesis
    using assms(2) that
    by (auto simp: build_view_change_message_def validate_view_change_certificate_def
        truthful_certificate_def)
next
  case (Some ki)
  obtain key inst where ki: "ki = (key, inst)" by fastforce
  have sel: "key \<in> prepared_instances s" "instances s key = Some inst" "fst key < v"
    using selected_instance[OF assms(1)] Some ki by auto
  have fin: "finite (prepare_senders s key)"
    using assms(1) inv_votes_finite(1) by (simp add: rinv_def)
  have "prepare_threshold s \<le> int (card (prepare_senders s key))"
    using assms(1) sel(1) by (auto simp: rinv_def inv_votes_def)
  then show ?thesis
    using assms(2) Some ki fin sel rinv_certificate[OF assms(1) sel]
    by (intro that[rotated 1]) (auto simp: build_view_change_message_def truthful_certificate_def Let_def)
qed

lemma view_change_callback_frame [simp, frame_simps]:
  "params (view_change_callback m s) = params s"
  "current_view (view_change_callback m s) = current_view s"
  "instances (view_change_callback m s) = instances s"
  "prepared_instances (view_change_callback m s) = prepared_instances s"
  "prepare_senders (view_change_callback m s) = prepare_senders s"
  by (simp_all add: view_change_callback_def maybe_publish_new_view_def publish_status_def
      split: option.split)

lemma truthful_certificate_cong:
  "instances s' = instances s \<Longrightarrow> prepared_instances s' = prepared_instances s \<Longrightarrow>
    prepare_senders s' = prepare_senders s \<Longrightarrow> truthful_certificate m s' = truthful_certificate m s"
  by (simp add: truthful_certificate_def)

lemma initiate_view_change_refines:
  assumes "rinv ok s"
  shows "refines ok s (initiate_view_change v s)"
proof (cases "v \<le> current_view s \<or> v \<in> view_change_sent s")
  case False
  then have "current_view s < v" by simp
  with assms obtain m where m: "build_view_change_message v s = Inr m"
    "validate_view_change_certificate m s" "vc_sender m = self_id s" "truthful_certificate m s"
    by (rule build_view_change_ok)
  let ?s0 = "s\<lparr>view_change_sent := insert v (view_change_sent s)\<rparr>"
  let ?s1 = "publish_status (s\<lparr>view_change_sent := insert v (view_change_sent s), phase_of := VIEW_CHANGE\<rparr>)"
  let ?s2 = "view_change_callback m ?s1"
  have s0: "micro ok s ?s0" by (rule micro.mark_view_change)
  have s01: "settles ok ?s0 ?s1"
    using rinv_current[OF assms] by (intro adjust_report adjust_to) auto
  have "truthful_certificate m ?s2 = truthful_certificate m s"
    by (rule truthful_certificate_cong) (simp_all add: publish_status_def)
  then have "micro ok ?s2 (publish (Pub_view_change m) ?s2)"
    using m by (intro micro.send_view_change) (simp_all add: publish_status_def)
  with s0 s01 view_change_callback_refines[of ok ?s1 m]
  have "micros ok s (publish (Pub_view_change m) ?s2)"
    by (meson converse_rtranclp_into_rtranclp micros_settles rtranclp.rtrancl_into_rtrancl
        rtranclp_trans)
  with False m rinv_honest[OF assms] show ?thesis
    by (simp add: initiate_view_change_def honest_simps Let_def refines_Inr)
qed (auto simp: initiate_view_change_def intro: refines_Inr)

lemma validate_new_view_sound:
  assumes "validate_new_view_message m s = Some (inst, q)"
  shows "inst = nv_instance m \<and> q = nv_seq m \<and> current_view s < nv_new_view m \<and>
    nv_sender m = primary_for_view (n_of s) (nv_new_view m) \<and> nv_seq m \<noteq> 0 \<and>
    valid_instance (nv_instance m)"
  using assms
  by (auto simp: validate_new_view_message_def valid_instance_def nv_instance_def
      split: if_splits option.splits)

lemma schedule_recovery_settles:
  assumes "rinv ok s"
  shows "settles ok s (schedule_recovery_pre_prepare key s)"
proof -
  have "settles ok s (s\<lparr>recovery_pre_prepare_timers := T\<rparr>)" for T
    using micro.set_recovery_timers by (rule settles_micro) auto
  with rinv_honest[OF assms] show ?thesis
    by (auto simp: schedule_recovery_pre_prepare_def honest_simps)
qed

lemma activate_new_view_refines:
  assumes "rinv ok s" "ok (Pub_new_view m)" "current_view s < nv_new_view m"
    "nv_sender m = primary_for_view (n_of s) (nv_new_view m)" "nv_seq m \<noteq> 0"
    "valid_instance (nv_instance m)"
  shows "micros ok s (activate_new_view m (nv_instance m) (nv_seq m) s)"
proof (cases "instances s (nv_new_view m, nv_seq m) = None \<or>
    instances s (nv_new_view m, nv_seq m) = Some (nv_instance m)")
  case True
  let ?i = "nv_instance m" and ?v = "nv_new_view m" and ?q = "nv_seq m"
  let ?c = "cancel_progress_timeout s"
  let ?s1 = "cancel_obsolete_protocol_activity ?v ?c"
  let ?s2 = "?s1\<lparr>cached_client_requests := dict_set (i_request_id ?i) ?i (cached_client_requests ?s1),
      instances := (instances ?s1)((?v, ?q) \<mapsto> ?i),
      processed_request_ids := insert (i_request_id ?i) (processed_request_ids ?s1),
      current_view := ?v, primary_id := primary_for_view (n_of ?c) ?v,
      current_key := Some (?v, ?q), next_sequence_number := max (next_sequence_number ?s1) (?q + 1),
      phase_of := NEW_VIEW_ACCEPTED\<rparr>"
  let ?s3 = "arm_progress_timeout (i_request_id ?i) (publish_status ?s2)"
  have c: "settles ok s ?c" using assms(1) by (rule cancel_settles)
  then have "micro ok ?c ?s2"
    using assms True by (intro micro.enter_view) (auto simp: settles_def)
  with c have s2: "micros ok s ?s2" by (auto simp: settles_def)
  then have "rinv ok ?s2" using assms(1) by (rule rinv_micros)
  then have s3: "settles ok ?s2 ?s3"
    using report_settles arm_settles settles_rinv settles_trans by meson
  have "settles ok ?s3 (schedule_recovery_pre_prepare (?v, ?q) ?s3)"
    using settles_rinv[OF s3 \<open>rinv ok ?s2\<close>] by (rule schedule_recovery_settles)
  with s2 s3 have "micros ok s ?s3" "micros ok s (schedule_recovery_pre_prepare (?v, ?q) ?s3)"
    by (meson micros_settles rtranclp_trans)+
  moreover have "n_of ?c = n_of s" using c by (simp add: settles_def)
  ultimately show ?thesis by (simp add: activate_new_view_def Let_def)
qed (auto simp: activate_new_view_def Let_def)

lemma new_view_callback_refines:
  assumes "rinv ok s" "ok (Pub_new_view m)"
  shows "micros ok s (new_view_callback m s)"
proof (cases "validate_new_view_message m s")
  case (Some iq)
  obtain inst q where iq: "iq = (inst, q)" by fastforce
  note sound = validate_new_view_sound[OF Some[unfolded iq]]
  let ?s1 = "s\<lparr>accepted_new_view_payloads :=
      (accepted_new_view_payloads s)(nv_new_view m \<mapsto> new_view_payload m)\<rparr>"
  have s1: "micro ok s ?s1" by (rule micro.note_new_view)
  then have "micros ok ?s1 (activate_new_view m (nv_instance m) (nv_seq m) ?s1)"
    using assms sound rinv_micro by (intro activate_new_view_refines) auto
  with s1 have "micros ok s (activate_new_view m (nv_instance m) (nv_seq m) ?s1)"
    by (rule converse_rtranclp_into_rtranclp)
  with Some iq sound show ?thesis by (simp add: new_view_callback_def)
qed (simp add: new_view_callback_def)

section \<open>Timers\<close>

lemma publish_recovery_refines:
  assumes "rinv ok s"
  shows "micros ok s (publish_recovery_pre_prepare key s)"
proof -
  let ?s0 = "s\<lparr>recovery_pre_prepare_timers := recovery_pre_prepare_timers s - {key}\<rparr>"
  have s0: "micro ok s ?s0" by (rule micro.set_recovery_timers)
  have "micros ok s (arm_progress_timeout (i_request_id inst)
      (publish (Pub_pre_prepare (proposal_of key inst ?s0))
        (publish_status (?s0\<lparr>recovery_pre_prepare_sent := insert key (recovery_pre_prepare_sent ?s0),
           current_key := Some key, phase_of := PRE_PREPARED\<rparr>))))" (is "micros ok s (arm_progress_timeout _ ?s1)")
    if "fst key = current_view s" "self_id s = primary_id s" "instances s key = Some inst" for inst
  proof -
    have "micro ok ?s0 ?s1" using that by (intro micro.recover) auto
    moreover from this have "rinv ok ?s1" using assms s0 rinv_micro by blast
    then have "settles ok ?s1 (arm_progress_timeout (i_request_id inst) ?s1)" by (rule arm_settles)
    ultimately show ?thesis
      using s0 by (meson converse_rtranclp_into_rtranclp micros_settles)
  qed
  with s0 show ?thesis
    by (auto simp: publish_recovery_pre_prepare_def Let_def split: option.split)
qed

lemma progress_timeout_refines:
  assumes "rinv ok s"
  shows "refines ok s (progress_timeout_callback s)"
proof -
  let ?s1 = "(clear_progress_timeout_timer s)\<lparr>progress_timeout_request_id := None, progress_timeout_view := None\<rparr>"
  have s1: "settles ok s ?s1"
    using rinv_current[OF assms] by (intro adjust_to) (auto simp: clear_progress_timeout_timer_def)
  then have m: "micros ok s ?s1" by (rule micros_settles)
  have "refines ok ?s1 (initiate_view_change (current_view ?s1 + 1) ?s1)"
    using settles_rinv[OF s1 assms] by (rule initiate_view_change_refines)
  with m have "refines ok s (initiate_view_change (current_view ?s1 + 1) ?s1)" by (rule refines_after)
  with m show ?thesis
    by (simp add: progress_timeout_callback_def Let_def refines_Inr split: option.split)
qed

lemma manual_view_change_refines:
  assumes "rinv ok s"
  shows "refines ok s (manual_view_change_timer_callback s)"
proof -
  let ?s1 = "s\<lparr>manual_view_change_timer := False\<rparr>"
  have s1: "settles ok s ?s1"
    using rinv_current[OF assms] by (intro adjust_to) auto
  then have m: "micros ok s ?s1" by (rule micros_settles)
  have "refines ok ?s1 (initiate_view_change v ?s1)" for v
    using settles_rinv[OF s1 assms] by (rule initiate_view_change_refines)
  with m have "refines ok s (initiate_view_change v ?s1)" for v by (meson refines_after)
  with m show ?thesis
    by (simp add: manual_view_change_timer_callback_def Let_def refines_Inr)
qed

section \<open>Every event\<close>

text \<open>An event is admissible when the message it delivers may have come off the network;
  client requests and timers need no provenance.\<close>

fun admissible :: "(publication \<Rightarrow> bool) \<Rightarrow> replica_event \<Rightarrow> bool" where
  "admissible ok (Ev_pre_prepare m) = ok (Pub_pre_prepare m)"
| "admissible ok (Ev_prepare m) = ok (Pub_prepare m)"
| "admissible ok (Ev_commit m) = ok (Pub_commit m)"
| "admissible ok (Ev_new_view m) = ok (Pub_new_view m)"
| "admissible ok (Ev_view_change m) = ok (Pub_view_change m)"
| "admissible ok _ = True"

lemma replica_step_refines:
  assumes "rinv ok s" "admissible ok e"
  shows "refines ok s (replica_step e s)"
proof -
  have "delayed_prepare_timers s = {}" "delayed_commit_timers s = {}"
    using assms(1) by (simp_all add: rinv_def inv_timers_def)
  then show ?thesis
    using assms micros_micro[OF micro.report]
    by (cases e)
      (auto simp: refines_Inr request_callback_refines pre_prepare_callback_refines
        view_change_callback_refines new_view_callback_refines progress_timeout_refines
        manual_view_change_refines publish_recovery_refines
        intro: refines_settled prepare_callback_settled commit_callback_settled)
qed

section \<open>What a NEW-VIEW message selects\<close>

lemma validate_certificate_cong:
  assumes "n_of s' = n_of s" "max_faulty (params s') = max_faulty (params s)"
  shows "validate_view_change_certificate m s' = validate_view_change_certificate m s"
  unfolding validate_view_change_certificate_def prepare_threshold_def assms ..

lemma valid_proof_cong:
  assumes "n_of s' = n_of s" "max_faulty (params s') = max_faulty (params s)"
  shows "valid_proof v m s' = valid_proof v m s"
  unfolding valid_proof_def validate_certificate_cong[OF assms] assms ..

lemma certificate_instance_valid:
  assumes "validate_view_change_certificate m s" "vc_has_certificate m"
  shows "vc_prepared_seq m \<noteq> 0 \<and> vc_request_id m \<noteq> '''' \<and> vc_stop m \<and>
    vc_digest m = compute_request_digest (vc_request_id m) (vc_stop m)"
  using assms unfolding validate_view_change_certificate_def by metis

lemma selected_request_valid:
  assumes "rinv ok s" "\<forall>vc \<in> set vcs. valid_proof v vc s"
    and "select_request_for_new_view vcs s = Some (inst, fp, pv, q)"
  shows "valid_instance inst \<and> q \<noteq> 0 \<and> (\<not> fp \<longrightarrow> pv = 0)"
proof (cases "filter vc_has_certificate vcs = []")
  case False
  let ?high = "filter (\<lambda>m. vc_prepared_view m = Max (vc_prepared_view ` set (filter vc_has_certificate vcs)))
      (filter vc_has_certificate vcs)"
  from assms(3) False have fp: fp
    and "remdups (map certificate_payload ?high) =
      [(q, i_request_id inst, i_request_digest inst, i_emergency_stop inst)]"
    by (auto simp: select_request_for_new_view_def Let_def split: list.splits if_splits)
  then have "(q, i_request_id inst, i_request_digest inst, i_emergency_stop inst) \<in>
      set (map certificate_payload ?high)"
    by (metis list.set_intros(1) set_remdups)
  then obtain m where m: "m \<in> set vcs" "vc_has_certificate m"
    "certificate_payload m = (q, i_request_id inst, i_request_digest inst, i_emergency_stop inst)"
    by auto
  with assms(2) have "validate_view_change_certificate m s" by (simp add: valid_proof_def)
  from certificate_instance_valid[OF this m(2)] m(3) fp show ?thesis
    by (auto simp: certificate_payload_def valid_instance_def)
next
  case True
  with assms(3) have "eligible_cached_requests s = [inst]" "\<not> fp" "pv = 0" "q = next_sequence_number s"
    by (auto simp: select_request_for_new_view_def Let_def split: list.splits if_splits)
  moreover from this(1) have "inst \<in> set (eligible_cached_requests s)" by simp
  then have "inst \<in> snd ` set (cached_client_requests s)"
    by (auto simp: eligible_cached_requests_def)
  ultimately show ?thesis
    using assms(1) by (auto simp: rinv_def inv_cache_def inv_instances_def)
qed

section \<open>Runs of a correct replica\<close>

lemma rinv_committed:
  assumes "rinv ok s" "k \<in> committed_instances s"
  obtains inst where "instances s k = Some inst" "k \<in> prepared_instances s" "valid_instance inst"
  using assms rinv_instance[OF assms(1), of k] unfolding rinv_def inv_votes_def inv_instances_def by blast

definition rle :: "pbft_replica \<Rightarrow> pbft_replica \<Rightarrow> bool" where
  "rle s s' =
     (params s' = params s \<and> current_view s \<le> current_view s' \<and>
      next_sequence_number s \<le> next_sequence_number s' \<and>
      (\<forall>k. prepare_senders s k \<subseteq> prepare_senders s' k) \<and>
      (\<forall>k. commit_senders s k \<subseteq> commit_senders s' k) \<and>
      prepared_instances s \<subseteq> prepared_instances s' \<and>
      committed_instances s \<subseteq> committed_instances s' \<and>
      prepare_sent s \<subseteq> prepare_sent s' \<and> commit_sent s \<subseteq> commit_sent s' \<and>
      new_view_sent s \<subseteq> new_view_sent s' \<and> view_change_sent s \<subseteq> view_change_sent s' \<and>
      (emergency_stop s \<longrightarrow> emergency_stop s') \<and>
      (\<exists>ps. published s' = published s @ ps))"

lemma rle_refl: "rle s s"
  by (simp add: rle_def)

lemma rle_trans:
  assumes "rle s t" "rle t u" shows "rle s u"
proof -
  from assms have "\<exists>ps. published u = published s @ ps" unfolding rle_def by (metis append_assoc)
  moreover from assms have "prepare_senders s k \<subseteq> prepare_senders u k \<and> commit_senders s k \<subseteq> commit_senders u k" for k
    unfolding rle_def by blast
  ultimately show ?thesis using assms unfolding rle_def by auto
qed

lemma rle_micro: "micro ok s s' \<Longrightarrow> inv_instances s \<Longrightarrow> rle s s'"
  by (induction rule: micro.induct)
    (auto simp: rle_def inv_instances_def valid_instance_def micro_unfold)

lemma rle_micros: "micros ok s s' \<Longrightarrow> rinv ok s \<Longrightarrow> rle s s'"
proof (induction rule: rtranclp_induct)
  case (step t u)
  then have "rle t u" using rle_micro rinv_micros by (auto simp: rinv_def)
  with step show ?case by (meson rle_trans)
qed (rule rle_refl)

abbreviation anything :: "publication \<Rightarrow> bool" where "anything \<equiv> \<lambda>_. True"

lemma admissible_anything: "admissible anything e"
  by (cases e) auto

lemma replica_step_keeps:
  assumes "rinv anything s"
  obtains s' where "replica_step e s = Inr s'" "rinv anything s'" "rle s s'"
  using replica_step_refines[OF assms admissible_anything, of e] rinv_micros rle_micros assms
  unfolding refines_def by blast

interpretation replica: ordered_machine replica_step "rinv anything" rle
proof
  show "\<exists>s'. replica_step a s = Inr s' \<and> rinv anything s'" if "rinv anything s" for a s
    using that replica_step_keeps by metis
  show "rle s s'" if "rinv anything s" "replica_step a s = Inr s'" for a s s'
    using that replica_step_keeps[of s a] by (metis sum.inject(2))
qed (auto intro: rle_refl rle_trans)

end
