(* ===== verification/PBFT_System.thy ===== *)
theory PBFT_System
  imports PBFT_Refinement
begin

text \<open>
  Many replicas. First, what a single correct replica guarantees when nobody else can
  publish under its id (\<open>authentic\<close>): its instances never change, its votes are for
  its instances, and every counted vote and every instance has a known origin. Then
  the system of \<open>3 f + 1\<close> replicas with at most \<open>f\<close> faulty ones, and agreement on the
  request of a view and sequence number.
\<close>

section \<open>Authentic channels\<close>

fun pub_sender :: "publication \<Rightarrow> int" where
  "pub_sender (Pub_pre_prepare m) = m_sender m"
| "pub_sender (Pub_prepare m) = m_sender m"
| "pub_sender (Pub_commit m) = m_sender m"
| "pub_sender (Pub_view_change m) = vc_sender m"
| "pub_sender (Pub_new_view m) = nv_sender m"
| "pub_sender (Pub_status st) = st_node_id st"

definition authentic :: "(publication \<Rightarrow> bool) \<Rightarrow> pbft_replica \<Rightarrow> bool" where
  "authentic ok s = (\<forall>p. ok p \<and> pub_sender p = self_id s \<longrightarrow> p \<in> set (published s))"

definition status_instance :: "replica_status \<Rightarrow> pbft_instance" where
  "status_instance st =
     \<lparr>i_request_id = st_request_id st, i_request_digest = st_digest st, i_emergency_stop = st_stop st\<rparr>"

definition inv_published :: "pbft_replica \<Rightarrow> bool" where
  "inv_published s =
     ((\<forall>p \<in> set (published s). pub_sender p = self_id s) \<and>
      (\<forall>st. Pub_status st \<in> set (published s) \<and> st_committed st \<longrightarrow>
         (st_view st, st_seq st) \<in> committed_instances s \<and>
         instances s (st_view st, st_seq st) = Some (status_instance st)) \<and>
      (\<forall>m. Pub_prepare m \<in> set (published s) \<longrightarrow>
         instances s (message_key m) = Some (message_instance m) \<and>
         self_id s \<noteq> primary_for_view (n_of s) (m_view m)) \<and>
      (\<forall>m. Pub_commit m \<in> set (published s) \<longrightarrow>
         instances s (message_key m) = Some (message_instance m) \<and>
         message_key m \<in> prepared_instances s) \<and>
      (\<forall>m. Pub_pre_prepare m \<in> set (published s) \<longrightarrow>
         instances s (message_key m) = Some (message_instance m) \<and>
         self_id s = primary_for_view (n_of s) (m_view m)))"

definition inv_new_views :: "pbft_replica \<Rightarrow> bool" where
  "inv_new_views s =
     ((\<forall>m. Pub_new_view m \<in> set (published s) \<longrightarrow>
         nv_new_view m \<in> new_view_sent s \<and> self_id s = primary_for_view (n_of s) (nv_new_view m) \<and>
         (nv_new_view m = current_view s \<longrightarrow> instances s (nv_new_view m, nv_seq m) \<noteq> None) \<and>
         (instances s (nv_new_view m, nv_seq m) = None \<or>
          instances s (nv_new_view m, nv_seq m) = Some (nv_instance m))) \<and>
      (\<forall>m m'. Pub_new_view m \<in> set (published s) \<and> Pub_new_view m' \<in> set (published s) \<and>
         nv_new_view m = nv_new_view m' \<longrightarrow> m = m'))"

definition inv_primary :: "pbft_replica \<Rightarrow> bool" where
  "inv_primary s =
     (self_id s = primary_for_view (n_of s) (current_view s) \<longrightarrow>
        (\<forall>q. instances s (current_view s, q) \<noteq> None \<longrightarrow> q < next_sequence_number s))"

definition vote_from ::
    "(publication \<Rightarrow> bool) \<Rightarrow> (pbft_message \<Rightarrow> publication) \<Rightarrow> pbft_replica \<Rightarrow> mkey \<Rightarrow> int \<Rightarrow> bool" where
  "vote_from ok pub s k q =
     (q = self_id s \<or>
      (\<exists>m. ok (pub m) \<and> m_sender m = q \<and> message_key m = k \<and> instances s k = Some (message_instance m)))"

definition has_origin :: "(publication \<Rightarrow> bool) \<Rightarrow> pbft_replica \<Rightarrow> mkey \<Rightarrow> pbft_instance \<Rightarrow> bool" where
  "has_origin ok s k i =
     (self_id s = primary_for_view (n_of s) (fst k) \<or>
      (\<exists>m. ok (Pub_pre_prepare m) \<and> m_sender m = primary_for_view (n_of s) (fst k) \<and>
         message_key m = k \<and> message_instance m = i) \<or>
      (\<exists>m. ok (Pub_new_view m) \<and> nv_sender m = primary_for_view (n_of s) (fst k) \<and>
         (nv_new_view m, nv_seq m) = k \<and> nv_instance m = i))"

definition inv_provenance :: "(publication \<Rightarrow> bool) \<Rightarrow> pbft_replica \<Rightarrow> bool" where
  "inv_provenance ok s =
     ((\<forall>k. \<forall>q \<in> prepare_senders s k. vote_from ok Pub_prepare s k q) \<and>
      (\<forall>k. \<forall>q \<in> commit_senders s k. k \<in> prepared_instances s \<and> vote_from ok Pub_commit s k q) \<and>
      (\<forall>k i. instances s k = Some i \<longrightarrow> has_origin ok s k i))"

definition auth_inv :: "(publication \<Rightarrow> bool) \<Rightarrow> pbft_replica \<Rightarrow> bool" where
  "auth_inv ok s =
     (rinv ok s \<and> inv_published s \<and> inv_new_views s \<and> inv_primary s \<and> inv_provenance ok s)"

text \<open>How an elementary step changes the instances.\<close>

lemma micro_instances:
  assumes "micro ok s s'"
  obtains (same) "instances s' = instances s" "current_view s' = current_view s"
      "next_sequence_number s' = next_sequence_number s"
  | (accept) m where "ok (Pub_pre_prepare m)" "m_sender m = primary_id s" "m_view m = current_view s"
      "instances s (message_key m) = None"
      "instances s' = (instances s)(message_key m \<mapsto> message_instance m)"
      "current_view s' = current_view s" "next_sequence_number s' = next_sequence_number s"
  | (propose) i where "self_id s = primary_id s"
      "instances s' = (instances s)((current_view s, next_sequence_number s) \<mapsto> i)"
      "current_view s' = current_view s" "next_sequence_number s' = next_sequence_number s + 1"
  | (enter) m where "ok (Pub_new_view m)" "current_view s < nv_new_view m"
      "nv_sender m = primary_for_view (n_of s) (nv_new_view m)"
      "instances s' = (instances s)((nv_new_view m, nv_seq m) \<mapsto> nv_instance m)"
      "current_view s' = nv_new_view m"
      "next_sequence_number s' = max (next_sequence_number s) (nv_seq m + 1)"
  using assms by (cases rule: micro.cases) (auto simp: micro_unfold)

lemma fresh_instance:
  assumes "auth_inv ok s"
  shows "current_view s < v \<Longrightarrow> instances s (v, q) = None"
    and "self_id s = primary_id s \<Longrightarrow> instances s (current_view s, next_sequence_number s) = None"
proof -
  have inv: "inv_config s" "inv_instances s" "inv_primary s"
    using assms by (simp_all add: auth_inv_def rinv_def)
  show "current_view s < v \<Longrightarrow> instances s (v, q) = None"
    using inv(2) unfolding inv_instances_def by (metis fst_conv leD not_None_eq)
  show "self_id s = primary_id s \<Longrightarrow> instances s (current_view s, next_sequence_number s) = None"
    using inv(1,3) by (auto simp: inv_primary_def inv_config_def)
qed

lemma instances_stable:
  assumes "micro ok s s'" "auth_inv ok s"
  shows "instances s \<subseteq>\<^sub>m instances s'"
  using assms(1) fresh_instance[OF assms(2)]
  by (cases rule: micro_instances) (auto simp: map_le_def)

text \<open>A status report of a correct replica is true when it is published.\<close>

lemma truthful_status:
  assumes "rinv ok s" "st_committed (status_of s)"
  shows "(st_view (status_of s), st_seq (status_of s)) \<in> committed_instances s"
    and "instances s (st_view (status_of s), st_seq (status_of s)) = Some (status_instance (status_of s))"
proof -
  obtain k where k: "current_key s = Some k" "k \<in> committed_instances s"
    using assms(2) by (auto simp: status_of_def split: option.splits)
  then obtain inst where inst: "instances s k = Some inst" "valid_instance inst"
    using rinv_committed[OF assms(1)] by blast
  have "fst k = current_view s" using rinv_current[OF assms(1) k(1)] by simp
  then have key: "(st_view (status_of s), st_seq (status_of s)) = k"
    by (cases k) (simp add: status_of_def k(1))
  have "emergency_stop s" using assms(1) k(2) by (auto simp: rinv_def inv_stop_def)
  then have "status_instance (status_of s) = inst"
    using inst by (simp add: status_instance_def status_of_def k valid_instance_def)
  with key k inst show "(st_view (status_of s), st_seq (status_of s)) \<in> committed_instances s"
    "instances s (st_view (status_of s), st_seq (status_of s)) = Some (status_instance (status_of s))"
    by simp_all
qed

text \<open>What a correct replica publishes.\<close>

lemma micro_published:
  assumes "micro ok s s'" "rinv ok s" "p \<in> set (published s')" "p \<notin> set (published s)"
  shows "pub_sender p = self_id s \<and>
    (case p of
       Pub_prepare m \<Rightarrow> instances s' (message_key m) = Some (message_instance m) \<and>
         self_id s \<noteq> primary_for_view (n_of s) (m_view m)
     | Pub_commit m \<Rightarrow> instances s' (message_key m) = Some (message_instance m) \<and>
         message_key m \<in> prepared_instances s'
     | Pub_pre_prepare m \<Rightarrow> instances s' (message_key m) = Some (message_instance m) \<and>
         self_id s = primary_for_view (n_of s) (m_view m)
     | Pub_status st \<Rightarrow> st = status_of s'
     | _ \<Rightarrow> True)"
proof -
  have "primary_id s = primary_for_view (n_of s) (current_view s)"
    and "commit_sent s \<subseteq> prepared_instances s"
    using assms(2) by (auto simp: rinv_def inv_config_def inv_votes_def)
  with assms(1,3,4) show ?thesis
    by (induction rule: micro.induct)
      (auto simp: publish_status_def proposal_of_def status_of_def message_key_def message_instance_def
        cancel_obsolete_protocol_activity_def build_new_view_message_def honest_vote_def
        split: option.splits if_splits)
qed

lemma micro_new_view:
  assumes "micro ok s s'"
  shows "((\<forall>m. Pub_new_view m \<in> set (published s') \<longleftrightarrow> Pub_new_view m \<in> set (published s)) \<and>
      new_view_sent s' = new_view_sent s) \<or>
    (\<exists>m. nv_new_view m \<notin> new_view_sent s \<and> current_view s < nv_new_view m \<and>
      self_id s = primary_for_view (n_of s) (nv_new_view m) \<and>
      (\<forall>m'. Pub_new_view m' \<in> set (published s') \<longleftrightarrow> m' = m \<or> Pub_new_view m' \<in> set (published s)) \<and>
      new_view_sent s' = insert (nv_new_view m) (new_view_sent s) \<and>
      instances s' = instances s \<and> current_view s' = current_view s)"
  using assms
proof (induction rule: micro.induct)
  case (send_new_view v s vcs m)
  then show ?case
    by (intro disjI2 exI[of _ m])
      (auto simp: publish_status_def build_new_view_message_def split: if_splits option.splits)
qed (auto simp: publish_status_def cancel_obsolete_protocol_activity_def)

lemma inv_published_micro:
  assumes "micro ok s s'" "auth_inv ok s"
  shows "inv_published s'"
proof -
  have r: "rinv ok s" and inv: "inv_published s" using assms(2) by (simp_all add: auth_inv_def)
  have le: "instances s k = Some i \<Longrightarrow> instances s' k = Some i" for k i
    using instances_stable[OF assms] by (auto simp: map_le_def dom_def)
  have mono: "prepared_instances s \<subseteq> prepared_instances s'" "committed_instances s \<subseteq> committed_instances s'"
    and par: "params s' = params s"
    using rle_micro[OF assms(1)] r by (auto simp: rle_def rinv_def)
  note new = micro_published[OF assms(1) r]
  note status = truthful_status[OF rinv_micro[OF assms(1) r]]
  show ?thesis
    unfolding inv_published_def par
  proof (intro conjI allI ballI impI)
    show "pub_sender p = self_id s" if "p \<in> set (published s')" for p
      using inv new[of p] that by (cases "p \<in> set (published s)") (auto simp: inv_published_def)
  next
    fix st assume "Pub_status st \<in> set (published s') \<and> st_committed st"
    then show "(st_view st, st_seq st) \<in> committed_instances s'"
      and "instances s' (st_view st, st_seq st) = Some (status_instance st)"
      using inv new[of "Pub_status st"] status le mono(2)
      by (cases "Pub_status st \<in> set (published s)"; auto simp: inv_published_def)+
  next
    fix m assume "Pub_prepare m \<in> set (published s')"
    then show "instances s' (message_key m) = Some (message_instance m)"
      and "self_id s \<noteq> primary_for_view (n_of s) (m_view m)"
      using inv new[of "Pub_prepare m"] le
      by (cases "Pub_prepare m \<in> set (published s)"; auto simp: inv_published_def)+
  next
    fix m assume "Pub_commit m \<in> set (published s')"
    then show "instances s' (message_key m) = Some (message_instance m)"
      and "message_key m \<in> prepared_instances s'"
      using inv new[of "Pub_commit m"] le mono
      by (cases "Pub_commit m \<in> set (published s)"; auto simp: inv_published_def)+
  next
    fix m assume "Pub_pre_prepare m \<in> set (published s')"
    then show "instances s' (message_key m) = Some (message_instance m)"
      and "self_id s = primary_for_view (n_of s) (m_view m)"
      using inv new[of "Pub_pre_prepare m"] le
      by (cases "Pub_pre_prepare m \<in> set (published s)"; auto simp: inv_published_def)+
  qed
qed

lemma own_new_view:
  assumes "authentic ok s" "auth_inv ok s" "ok (Pub_new_view m)" "nv_sender m = self_id s"
    "Pub_new_view m' \<in> set (published s)" "nv_new_view m' = nv_new_view m"
  shows "m' = m"
  using assms unfolding auth_inv_def inv_new_views_def authentic_def
  by (metis pub_sender.simps(5))

lemma own_proposal:
  assumes "authentic ok s" "auth_inv ok s" "ok (Pub_pre_prepare m)" "m_sender m = self_id s"
  shows "instances s (message_key m) = Some (message_instance m)"
  using assms unfolding auth_inv_def inv_published_def authentic_def by auto

lemma auth_inv_config: "auth_inv ok s \<Longrightarrow> primary_id s = primary_for_view (n_of s) (current_view s)"
  by (simp add: auth_inv_def rinv_def inv_config_def)

lemma inv_primary_micro:
  assumes "micro ok s s'" "auth_inv ok s" "authentic ok s"
  shows "inv_primary s'"
proof -
  have inv: "inv_primary s" using assms(2) by (simp add: auth_inv_def)
  note par = params_micro[OF assms(1)] auth_inv_config[OF assms(2)] inv_primary_def
  show ?thesis
    using assms(1)
  proof (cases rule: micro_instances)
    case (accept m)
    then have "m_sender m \<noteq> self_id s" using own_proposal[OF assms(3,2), of m] by auto
    with accept inv show ?thesis by (auto simp: par)
  next
    case (propose i)
    with inv show ?thesis by (auto simp: par less_SucI)
  next
    case (enter m)
    with fresh_instance(1)[OF assms(2)] show ?thesis by (auto simp: par)
  qed (use inv in \<open>simp add: par\<close>)
qed

lemma inv_new_views_step:
  assumes "auth_inv ok s" "authentic ok s" "micro ok s s'" "Pub_new_view m \<in> set (published s)"
  shows "(nv_new_view m = current_view s' \<longrightarrow> instances s' (nv_new_view m, nv_seq m) \<noteq> None) \<and>
    (instances s' (nv_new_view m, nv_seq m) = None \<or>
     instances s' (nv_new_view m, nv_seq m) = Some (nv_instance m))"
proof -
  let ?k = "(nv_new_view m, nv_seq m)"
  have old: "self_id s = primary_for_view (n_of s) (nv_new_view m)"
    "nv_new_view m = current_view s \<Longrightarrow> instances s ?k \<noteq> None"
    "instances s ?k = None \<or> instances s ?k = Some (nv_instance m)"
    using assms(1,4) by (auto simp: auth_inv_def inv_new_views_def)
  show ?thesis
    using assms(3)
  proof (cases rule: micro_instances)
    case (accept m')
    then have "m_sender m' \<noteq> self_id s" using own_proposal[OF assms(2,1), of m'] by auto
    with accept old auth_inv_config[OF assms(1)] show ?thesis by (auto simp: message_key_def)
  next
    case (propose i)
    with old fresh_instance(2)[OF assms(1)] show ?thesis by auto
  next
    case (enter m')
    then have "m = m'" if "nv_new_view m = nv_new_view m'"
      using own_new_view[OF assms(2,1) _ _ assms(4)] old(1) that by auto
    with enter old show ?thesis by auto
  qed (use old in auto)
qed

lemma inv_new_views_micro:
  assumes "micro ok s s'" "auth_inv ok s" "authentic ok s"
  shows "inv_new_views s'"
proof -
  note old = inv_new_views_step[OF assms(2,3,1)]
  have inv: "inv_new_views s" using assms(2) by (simp add: auth_inv_def)
  have par: "params s' = params s" using assms(1) by (rule params_micro)
  from micro_new_view[OF assms(1)] show ?thesis
  proof (elim disjE exE conjE)
    assume "\<forall>m. Pub_new_view m \<in> set (published s') \<longleftrightarrow> Pub_new_view m \<in> set (published s)"
      and "new_view_sent s' = new_view_sent s"
    with inv old show ?thesis by (simp add: inv_new_views_def par)
  next
    fix m
    assume m: "nv_new_view m \<notin> new_view_sent s" "current_view s < nv_new_view m"
      "self_id s = primary_for_view (n_of s) (nv_new_view m)"
      "\<forall>m'. Pub_new_view m' \<in> set (published s') \<longleftrightarrow> m' = m \<or> Pub_new_view m' \<in> set (published s)"
      "new_view_sent s' = insert (nv_new_view m) (new_view_sent s)"
      "instances s' = instances s" "current_view s' = current_view s"
    have sent: "nv_new_view m' \<in> new_view_sent s" if "Pub_new_view m' \<in> set (published s)" for m'
      using inv that by (simp add: inv_new_views_def)
    with m fresh_instance(1)[OF assms(2) m(2)] inv show ?thesis
      unfolding inv_new_views_def par by (metis insert_iff less_irrefl)
  qed
qed

lemma vote_from_mono:
  assumes "vote_from ok pub s k q" "instances s \<subseteq>\<^sub>m instances s'" "params s' = params s"
    and "\<And>p. ok p \<Longrightarrow> ok' p"
  shows "vote_from ok' pub s' k q"
  using assms unfolding vote_from_def map_le_def by (metis domI)

lemma has_origin_mono:
  assumes "has_origin ok s k i" "params s' = params s" and "\<And>p. ok p \<Longrightarrow> ok' p"
  shows "has_origin ok' s' k i"
  using assms unfolding has_origin_def by metis

lemma provenance_step:
  assumes "micro ok s s'" "inv_config s"
  shows "q \<in> prepare_senders s' k \<Longrightarrow> q \<in> prepare_senders s k \<or> vote_from ok Pub_prepare s k q"
    and "q \<in> commit_senders s' k \<Longrightarrow>
      q \<in> commit_senders s k \<or> k \<in> prepared_instances s \<and> vote_from ok Pub_commit s k q"
    and "instances s' k = Some i \<Longrightarrow> instances s k = Some i \<or> has_origin ok s k i"
  using assms
  by (induction rule: micro.induct)
    (auto simp: micro_unfold vote_from_def has_origin_def inv_config_def message_key_def
      split: if_splits)

lemma inv_provenance_micro:
  assumes "micro ok s s'" "auth_inv ok s"
  shows "inv_provenance ok s'"
proof -
  have inv: "inv_config s" "inv_provenance ok s" "inv_instances s"
    using assms(2) by (simp_all add: auth_inv_def rinv_def)
  have mono: "prepared_instances s \<subseteq> prepared_instances s'" and par: "params s' = params s"
    using rle_micro[OF assms(1) inv(3)] by (auto simp: rle_def)
  have v: "vote_from ok pub s' k q" if "vote_from ok pub s k q" for pub k q
    using vote_from_mono[OF that instances_stable[OF assms] par] by blast
  have o: "has_origin ok s' k i" if "has_origin ok s k i" for k i
    using has_origin_mono[OF that par] by blast
  note new = provenance_step[OF assms(1) inv(1)]
  show ?thesis
    using inv(2) unfolding inv_provenance_def by (meson new v o mono subsetD)
qed

lemma auth_inv_micro:
  assumes "micro ok s s'" "auth_inv ok s" "authentic ok s"
  shows "auth_inv ok s'"
  using assms rinv_micro inv_published_micro inv_new_views_micro inv_primary_micro inv_provenance_micro
  unfolding auth_inv_def by metis

lemma authentic_mono:
  "authentic ok s \<Longrightarrow> set (published s) \<subseteq> set (published s') \<Longrightarrow> params s' = params s \<Longrightarrow> authentic ok s'"
  by (auto simp: authentic_def)

lemma auth_inv_micros:
  assumes "micros ok s s'" "auth_inv ok s" "authentic ok s"
  shows "auth_inv ok s' \<and> authentic ok s' \<and> instances s \<subseteq>\<^sub>m instances s'"
  using assms
proof (induction rule: rtranclp_induct)
  case (step t u)
  then have t: "auth_inv ok t" "authentic ok t" "instances s \<subseteq>\<^sub>m instances t" by auto
  have "rle t u" using step.hyps(2) t(1) rle_micro by (auto simp: auth_inv_def rinv_def)
  then have "authentic ok u" using t(2) by (intro authentic_mono[of ok t u]) (auto simp: rle_def)
  then show ?case
    using auth_inv_micro[OF step.hyps(2) t(1,2)] instances_stable[OF step.hyps(2) t(1)] t(3)
    by (meson map_le_trans)
qed simp

lemma auth_inv_weaken:
  assumes "auth_inv ok s" "\<And>p. ok p \<Longrightarrow> ok' p"
  shows "auth_inv ok' s"
proof -
  have "inv_pending ok' s" using assms unfolding auth_inv_def rinv_def inv_pending_def by blast
  moreover have "inv_provenance ok' s"
    using assms vote_from_mono[of ok _ s _ _ s ok'] has_origin_mono[of ok s _ _ s ok']
    unfolding auth_inv_def inv_provenance_def by (metis map_le_refl)
  ultimately show ?thesis using assms(1) by (simp add: auth_inv_def rinv_def)
qed

lemma init_correct:
  assumes "init_replica p = Inr s" "\<not> is_byzantine p"
  shows "s = publish_status (initial_state (p\<lparr>byzantine_behavior := ''none''\<rparr>))"
  using assms by (auto simp: init_replica_def Let_def bindE_eq_Inr)

lemma auth_inv_init:
  assumes "init_replica p = Inr s" "\<not> is_byzantine p"
  shows "auth_inv ok s"
proof -
  note s = init_correct[OF assms]
  have "inv_published s" "inv_new_views s" "inv_primary s" "inv_provenance ok s"
    by (auto simp: s inv_published_def inv_new_views_def inv_primary_def
        inv_provenance_def publish_status_def initial_state_def status_of_def)
  with rinv_init[OF assms] show ?thesis by (simp add: auth_inv_def)
qed

section \<open>The system\<close>

text \<open>
  \<open>3 f + 1\<close> replicas, of which those in \<open>H\<close> run the code with \<^verbatim>\<open>is_byzantine\<close> unset; the
  others may publish anything under an id outside \<open>H\<close>. The topics keep every publication, and
  a correct replica may at any time be given any publication (late, twice, never), any
  client message, or a timer event.
\<close>

record pbft_system =
  replica_at :: "int \<Rightarrow> pbft_replica"
  network :: "publication set"

definition start_system :: "nat \<Rightarrow> int set \<Rightarrow> (int \<Rightarrow> pbft_params) \<Rightarrow> pbft_system \<Rightarrow> bool" where
  "start_system f H ps c =
     (H \<subseteq> {0..<3 * int f + 1} \<and> 2 * f + 1 \<le> card H \<and>
      (\<forall>i \<in> H. node_id (ps i) = i \<and> max_faulty (ps i) = int f \<and> \<not> is_byzantine (ps i) \<and>
         init_replica (ps i) = Inr (replica_at c i)) \<and>
      network c = (\<Union>i \<in> H. set (published (replica_at c i))))"

inductive system_step :: "int set \<Rightarrow> pbft_system \<Rightarrow> pbft_system \<Rightarrow> bool" for H where
  deliver: "i \<in> H \<Longrightarrow> admissible (\<lambda>p. p \<in> network c) e \<Longrightarrow> replica_step e (replica_at c i) = Inr s' \<Longrightarrow>
    system_step H c (c\<lparr>replica_at := (replica_at c)(i := s'),
      network := network c \<union> set (published s')\<rparr>)"
| inject: "pub_sender p \<notin> H \<Longrightarrow> system_step H c (c\<lparr>network := insert p (network c)\<rparr>)"

definition system_inv :: "nat \<Rightarrow> int set \<Rightarrow> pbft_system \<Rightarrow> bool" where
  "system_inv f H c =
     (H \<subseteq> {0..<3 * int f + 1} \<and> 2 * f + 1 \<le> card H \<and>
      (\<forall>i \<in> H. auth_inv (\<lambda>p. p \<in> network c) (replica_at c i) \<and> self_id (replica_at c i) = i \<and>
         max_faulty (params (replica_at c i)) = int f \<and>
         set (published (replica_at c i)) \<subseteq> network c) \<and>
      (\<forall>p \<in> network c. pub_sender p \<in> H \<longrightarrow> p \<in> set (published (replica_at c (pub_sender p)))))"

lemma system_inv_start:
  assumes "start_system f H ps c"
  shows "system_inv f H c"
proof -
  have a: "auth_inv ok (replica_at c i)" "self_id (replica_at c i) = i"
    "max_faulty (params (replica_at c i)) = int f" if "i \<in> H" for i ok
  proof -
    have init: "init_replica (ps i) = Inr (replica_at c i)" "\<not> is_byzantine (ps i)"
      "node_id (ps i) = i" "max_faulty (ps i) = int f"
      using assms that by (auto simp: start_system_def)
    show "auth_inv ok (replica_at c i)" using init(1,2) by (rule auth_inv_init)
    show "self_id (replica_at c i) = i" "max_faulty (params (replica_at c i)) = int f"
      using init init_correct[OF init(1,2)] by (simp_all add: publish_status_def initial_state_def)
  qed
  have "pub_sender p = i" if "i \<in> H" "p \<in> set (published (replica_at c i))" for i p
    using a(1,2)[OF that(1)] that(2) by (auto simp: auth_inv_def inv_published_def)
  then show ?thesis using assms a by (auto simp: system_inv_def start_system_def)
qed

lemma system_inv_authentic:
  "system_inv f H c \<Longrightarrow> i \<in> H \<Longrightarrow> authentic (\<lambda>p. p \<in> network c) (replica_at c i)"
  by (auto simp: system_inv_def authentic_def)

lemma deliver_effect:
  assumes "system_inv f H c" "i \<in> H" "admissible (\<lambda>p. p \<in> network c) e"
    "replica_step e (replica_at c i) = Inr s'"
  shows "auth_inv (\<lambda>p. p \<in> network c) s' \<and> rle (replica_at c i) s' \<and>
    instances (replica_at c i) \<subseteq>\<^sub>m instances s'"
proof -
  have a: "auth_inv (\<lambda>p. p \<in> network c) (replica_at c i)"
    using assms(1,2) by (simp add: system_inv_def)
  then have r: "rinv (\<lambda>p. p \<in> network c) (replica_at c i)" by (simp add: auth_inv_def)
  then have "micros (\<lambda>p. p \<in> network c) (replica_at c i) s'"
    using replica_step_refines[OF r assms(3)] assms(4) by (auto simp: refines_def)
  then show ?thesis
    using auth_inv_micros[OF _ a system_inv_authentic[OF assms(1,2)]] rle_micros r by blast
qed

lemma system_inv_step:
  assumes "system_step H c c'" "system_inv f H c"
  shows "system_inv f H c'"
  using assms
proof (induction rule: system_step.induct)
  case (deliver i c e s')
  note eff = deliver_effect[OF deliver.prems deliver.hyps]
  have self: "self_id s' = i" "max_faulty (params s') = int f" "set (published (replica_at c i)) \<subseteq> set (published s')"
    using eff deliver by (auto simp: rle_def system_inv_def)
  have own: "pub_sender p = i" if "p \<in> set (published s')" for p
    using eff that self(1) by (auto simp: auth_inv_def inv_published_def)
  have w: "auth_inv (\<lambda>p. p \<in> network c \<or> p \<in> set (published s')) t"
    if "auth_inv (\<lambda>p. p \<in> network c) t" for t
    using that by (rule auth_inv_weaken) simp
  have net: "p \<in> set (published s')" if "p \<in> network c" "pub_sender p = i" for p
    using deliver.prems deliver.hyps(1) that self(3) by (auto simp: system_inv_def)
  show ?case
    using deliver.prems deliver.hyps(1) eff self(1,2) own net w unfolding system_inv_def by auto
next
  case (inject p c)
  have w: "auth_inv (\<lambda>q. q = p \<or> q \<in> network c) t" if "auth_inv (\<lambda>p. p \<in> network c) t" for t
    using that by (rule auth_inv_weaken) simp
  with inject show ?case unfolding system_inv_def by auto
qed

lemma system_inv_reach: "(system_step H)\<^sup>*\<^sup>* c c' \<Longrightarrow> system_inv f H c \<Longrightarrow> system_inv f H c'"
  by (induction rule: rtranclp_induct) (auto intro: system_inv_step)

lemma system_step_grows:
  assumes "system_step H c c'" "system_inv f H c" "i \<in> H"
  shows "rle (replica_at c i) (replica_at c' i) \<and>
    instances (replica_at c i) \<subseteq>\<^sub>m instances (replica_at c' i)"
  using assms
proof (induction rule: system_step.induct)
  case (deliver j c e s')
  then show ?case using deliver_effect[of f H c j e s'] by (auto simp: rle_refl)
qed (simp add: rle_refl)

section \<open>Agreement\<close>

interpretation replicas: quorum_system "{0..<3 * int f + 1}" f for f
  by unfold_locales simp_all

lemma system_replica:
  assumes "system_inv f H c" "i \<in> H"
  shows "n_of (replica_at c i) = 3 * int f + 1" "self_id (replica_at c i) = i"
    "inv_votes (replica_at c i)" "inv_provenance (\<lambda>p. p \<in> network c) (replica_at c i)"
    "inv_published (replica_at c i)" "inv_new_views (replica_at c i)"
  using assms by (auto simp: system_inv_def auth_inv_def rinv_def inv_config_def)

lemma committed_prepared:
  assumes "system_inv f H c" "i \<in> H" "k \<in> committed_instances (replica_at c i)"
  shows "k \<in> prepared_instances (replica_at c i) \<and> instances (replica_at c i) k \<noteq> None"
  using system_replica(3)[OF assms(1,2)] assms(3) by (auto simp: inv_votes_def)

text \<open>A vote that a correct replica counted for a correct sender is a vote for the sender's own instance.\<close>

lemma prepare_vote_agrees:
  assumes "system_inv f H c" "i \<in> H" "q \<in> H" "q \<in> prepare_senders (replica_at c i) k"
  shows "instances (replica_at c q) k = instances (replica_at c i) k"
proof -
  have "vote_from (\<lambda>p. p \<in> network c) Pub_prepare (replica_at c i) k q"
    using system_replica(4)[OF assms(1,2)] assms(4) by (simp add: inv_provenance_def)
  moreover have "instances (replica_at c q) (message_key m) = Some (message_instance m)"
    if "Pub_prepare m \<in> network c" "m_sender m = q" for m
    using that assms(1,3) system_replica(5)[OF assms(1,3)] by (auto simp: system_inv_def inv_published_def)
  ultimately show ?thesis
    using system_replica(2)[OF assms(1,2)] by (auto simp: vote_from_def)
qed

lemma commit_vote_agrees:
  assumes "system_inv f H c" "i \<in> H" "q \<in> H" "q \<in> commit_senders (replica_at c i) k"
  shows "k \<in> prepared_instances (replica_at c q) \<and>
    instances (replica_at c q) k = instances (replica_at c i) k"
proof -
  have "k \<in> prepared_instances (replica_at c i)"
    and "vote_from (\<lambda>p. p \<in> network c) Pub_commit (replica_at c i) k q"
    using system_replica(4)[OF assms(1,2)] assms(4) by (simp_all add: inv_provenance_def)
  moreover have "instances (replica_at c q) (message_key m) = Some (message_instance m) \<and>
      message_key m \<in> prepared_instances (replica_at c q)"
    if "Pub_commit m \<in> network c" "m_sender m = q" for m
    using that assms(1,3) system_replica(5)[OF assms(1,3)] by (auto simp: system_inv_def inv_published_def)
  ultimately show ?thesis
    using system_replica(2)[OF assms(1,2)] by (auto simp: vote_from_def)
qed

text \<open>Under a correct primary the instance of a view and sequence number is the
  primary's, or the one of its only NEW-VIEW message for that view.\<close>

lemma correct_primary_instance:
  assumes "system_inv f H c" "i \<in> H" "instances (replica_at c i) k = Some x"
    and p: "primary_for_view (3 * int f + 1) (fst k) = p" "p \<in> H"
  shows "instances (replica_at c p) k = Some x \<or>
    (\<exists>m. Pub_new_view m \<in> set (published (replica_at c p)) \<and> (nv_new_view m, nv_seq m) = k \<and> nv_instance m = x)"
proof -
  have "has_origin (\<lambda>p. p \<in> network c) (replica_at c i) k x"
    using system_replica(4)[OF assms(1,2)] assms(3) by (simp add: inv_provenance_def)
  moreover have "instances (replica_at c p) (message_key m) = Some (message_instance m)"
    if "Pub_pre_prepare m \<in> network c" "m_sender m = p" for m
    using that assms(1) p(2) system_replica(5)[OF assms(1) p(2)] by (auto simp: system_inv_def inv_published_def)
  moreover have "Pub_new_view m \<in> set (published (replica_at c p))"
    if "Pub_new_view m \<in> network c" "nv_sender m = p" for m
    using that assms(1) p(2) by (auto simp: system_inv_def)
  ultimately show ?thesis
    using system_replica(1,2)[OF assms(1,2)] p(1) assms(3) unfolding has_origin_def by auto
qed

lemma correct_primary_agreement:
  assumes "system_inv f H c" "i \<in> H" "j \<in> H"
    "instances (replica_at c i) k = Some x" "instances (replica_at c j) k = Some y"
    and "primary_for_view (3 * int f + 1) (fst k) \<in> H"
  shows "x = y"
proof -
  let ?p = "primary_for_view (3 * int f + 1) (fst k)"
  note nv = system_replica(6)[OF assms(1,6), unfolded inv_new_views_def]
  from correct_primary_instance[OF assms(1,2,4) refl assms(6)]
    correct_primary_instance[OF assms(1,3,5) refl assms(6)]
  show ?thesis using nv by (metis fst_conv option.distinct(1) option.inject)
qed

lemma prepared_agreement:
  assumes "system_inv f H c" "i \<in> H" "j \<in> H"
    "k \<in> prepared_instances (replica_at c i)" "k \<in> prepared_instances (replica_at c j)"
  shows "instances (replica_at c i) k = instances (replica_at c j) k"
proof (cases "primary_for_view (3 * int f + 1) (fst k) \<in> H")
  case True
  have "instances (replica_at c i) k \<noteq> None" "instances (replica_at c j) k \<noteq> None"
    using system_replica(3)[OF assms(1)] assms(2-5) by (auto simp: inv_votes_def)
  then show ?thesis using correct_primary_agreement[OF assms(1-3) _ _ True] by force
next
  case False
  let ?U = "{0..<3 * int f + 1}"
  let ?p = "primary_for_view (3 * int f + 1) (fst k)"
  have H: "H \<subseteq> ?U" "2 * f + 1 \<le> card H" using assms(1) by (auto simp: system_inv_def)
  have S: "prepare_senders (replica_at c i) k \<subseteq> ?U - {?p} \<and>
      2 * f \<le> card (prepare_senders (replica_at c i) k)"
    if "i \<in> H" "k \<in> prepared_instances (replica_at c i)" for i
    using system_replica(1,3)[OF assms(1) that(1)] that assms(1)
    by (auto simp: inv_votes_def is_replica_def prepare_threshold_def system_inv_def)
  have "finite H" using H(1) finite_subset by blast
  then have "card (?U - H) \<le> f" using H by (simp add: card_Diff_subset)
  moreover have "?p \<in> ?U - H" using False primary_for_view_range[of "3 * int f + 1"] by simp
  ultimately obtain q where "q \<in> prepare_senders (replica_at c i) k" "q \<in> prepare_senders (replica_at c j) k"
    "q \<notin> ?U - H"
    using replicas.backups_share_correct[of ?p f "?U - H" "prepare_senders (replica_at c i) k"
        "prepare_senders (replica_at c j) k"] S assms(2-5) by auto
  moreover from this have "q \<in> H" using S assms(2,4) by blast
  ultimately show ?thesis
    using prepare_vote_agrees[OF assms(1)] assms(2,3) by metis
qed

section \<open>Scripted runs\<close>

text \<open>The step relation as a function of a schedule, to evaluate concrete runs.\<close>

definition deliver_to :: "int \<Rightarrow> pbft_replica \<Rightarrow> pbft_system \<Rightarrow> pbft_system" where
  "deliver_to i s c = c\<lparr>replica_at := (replica_at c)(i := s), network := network c \<union> set (published s)\<rparr>"

lemma deliver_to_fields [simp]:
  "replica_at (deliver_to i s c) = (replica_at c)(i := s)"
  "network (deliver_to i s c) = network c \<union> set (published s)"
  by (simp_all add: deliver_to_def)

datatype action = Deliver int replica_event | Inject publication

fun perform :: "int set \<Rightarrow> action \<Rightarrow> pbft_system \<Rightarrow> pbft_system option" where
  "perform H (Deliver i e) c =
     (if i \<in> H \<and> admissible (\<lambda>p. p \<in> network c) e
      then (case replica_step e (replica_at c i) of Inl _ \<Rightarrow> None | Inr s \<Rightarrow> Some (deliver_to i s c))
      else None)"
| "perform H (Inject p) c =
     (if pub_sender p \<in> H then None else Some (c\<lparr>network := insert p (network c)\<rparr>))"

fun run_script :: "int set \<Rightarrow> action list \<Rightarrow> pbft_system \<Rightarrow> pbft_system option" where
  "run_script H [] c = Some c"
| "run_script H (a # as) c = Option.bind (perform H a c) (run_script H as)"

lemma perform_step: "perform H a c = Some c' \<Longrightarrow> system_step H c c'"
  by (cases a)
    (auto simp: deliver_to_def intro: system_step.intros split: if_splits sum.splits)

lemma run_script_reach: "run_script H as c = Some c' \<Longrightarrow> (system_step H)\<^sup>*\<^sup>* c c'"
  by (induction as arbitrary: c)
    (auto simp: bind_eq_Some_conv intro: perform_step converse_rtranclp_into_rtranclp)

end
