(* ===== verification/PBFT_Demo.thy ===== *)
theory PBFT_Demo
  imports PBFT_System
begin

text \<open>
  A concrete system of four replicas, replica 3 faulty, in which replicas 1 and 2 commit one
  request in view 0: the configuration, the messages, the run of every replica
  evaluated by rewriting (digests stay symbolic), and the run of the system.
  The witnesses of the properties about runs use it.
\<close>

definition demo_params :: "int \<Rightarrow> pbft_params" where
  "demo_params i =
     \<lparr>node_id = i, configured_primary_id = 0, initial_view = 0, replica_count = 4, max_faulty = 1,
      is_byzantine = False, byzantine_behavior = ''none'', duplicate_message_count = 3,
      prepare_delay_sec = 2, commit_delay_sec = 2, manual_view_change_target = -1,
      manual_view_change_delay_sec = 5, enable_progress_timeout = False, progress_timeout_sec = 5,
      new_view_pre_prepare_delay_sec = 1, status_publish_period_sec = 1, protocol_qos_depth = 100,
      status_qos_depth = 10\<rparr>"

definition demo_message :: "nat \<Rightarrow> int \<Rightarrow> pbft_message" where
  "demo_message ty i =
     \<lparr>m_type = ty, m_sender = i, m_recipient = -1, m_view = 0, m_seq = (if ty = 0 then 0 else 1),
      m_request_id = ''r'', m_digest = compute_request_digest ''r'' True, m_stop = True\<rparr>"

definition demo_start :: "int \<Rightarrow> pbft_replica" where
  "demo_start i = publish_status (initial_state (demo_params i))"

definition demo_system :: pbft_system where
  "demo_system = \<lparr>replica_at = demo_start, network = (\<Union>i \<in> {0, 1, 2}. set (published (demo_start i)))\<rparr>"

definition demo_view_change :: "int \<Rightarrow> view_change" where
  "demo_view_change i =
     \<lparr>vc_sender = i, vc_new_view = 1, vc_has_certificate = False, vc_prepared_view = 0,
      vc_prepared_seq = 0, vc_request_id = '''', vc_digest = '''', vc_stop = False,
      vc_prepare_senders = []\<rparr>"

definition demo_cached :: "int \<Rightarrow> pbft_replica" where
  "demo_cached i = request_callback (demo_message REQUEST (-1)) (demo_start i)"

definition demo_status :: "int \<Rightarrow> replica_status" where
  "demo_status i =
     \<lparr>st_node_id = i, st_view = 0, st_seq = 1, st_request_id = ''r'',
      st_digest = compute_request_digest ''r'' True, st_phase = COMMITTED, st_prepare_count = 2,
      st_commit_count = 3, st_prepared = True, st_committed = True, st_stop = True,
      st_byzantine = False\<rparr>"

lemma demo_init: "i \<in> {0, 1, 2, 3} \<Longrightarrow> init_replica (demo_params i) = Inr (publish_status (initial_state (demo_params i)))"
  by (auto simp: init_replica_def demo_params_def validate_parameters_def validate_configuration_def
      primary_for_view_def allowed_behaviors_def py_lower_def py_strip_def is_space_def lower_char_def
      of_char_def)

lemmas demo_defs = demo_params_def demo_message_def initial_state_def publish_status_def
  status_of_def request_callback_def validate_and_cache_client_request_def
  process_cached_request_as_primary_def proposal_of_def arm_progress_timeout_def
  primary_for_view_def byzantine_defs Let_def

lemmas vote_defs = pre_prepare_callback_def process_pending_prepares_def send_prepare_def
  instance_at_def outgoing_vote_def outgoing_sender_id_def outgoing_view_def outgoing_sequence_number_def
  outgoing_emergency_stop_def outgoing_digest_def accept_prepare_def message_matches_instance_def
  evaluate_prepared_def threshold_defs publish_copies_def publish_vote_def prepare_callback_def
  process_pending_commits_def send_commit_def accept_commit_def evaluate_committed_def commit_callback_def
  cancel_progress_timeout_def

lemma demo_system_start: "start_system 1 {0, 1, 2} demo_params demo_system"
  using demo_init by (auto simp: start_system_def demo_system_def demo_start_def demo_params_def)

lemma demo_primary_run:
  obtains s where "replica_step (Ev_request (demo_message REQUEST (-1))) (demo_start 0) = Inr s"
    "Pub_pre_prepare (demo_message PRE_PREPARE 0) \<in> set (published s)"
  by (simp add: demo_start_def demo_defs)

lemma demo_backup_run:
  assumes "i = 1 \<and> j = 2 \<or> i = 2 \<and> j = 1"
  obtains s1 s2 s3 s4 where
    "replica_step (Ev_pre_prepare (demo_message PRE_PREPARE 0)) (demo_start i) = Inr s1"
    "Pub_prepare (demo_message PREPARE i) \<in> set (published s1)"
    "replica_step (Ev_prepare (demo_message PREPARE j)) s1 = Inr s2"
    "Pub_commit (demo_message COMMIT i) \<in> set (published s2)"
    "replica_step (Ev_commit (demo_message COMMIT j)) s2 = Inr s3"
    "replica_step (Ev_commit (demo_message COMMIT 3)) s3 = Inr s4"
    "(0, 1) \<in> committed_instances s4" "Pub_status (demo_status i) \<in> set (published s4)"
  using assms by (elim disjE; simp add: demo_start_def demo_status_def demo_defs vote_defs publish_def)

lemma demo_run:
  obtains c where "(system_step {0, 1, 2})\<^sup>*\<^sup>* demo_system c"
    "(0, 1) \<in> committed_instances (replica_at c 1)" "(0, 1) \<in> committed_instances (replica_at c 2)"
    "{Pub_status (demo_status 1), Pub_status (demo_status 2), Pub_status (demo_status 3)} \<subseteq> network c"
proof -
  let ?reach = "(system_step {0, 1, 2})\<^sup>*\<^sup>* demo_system"
  obtain a where a: "replica_step (Ev_request (demo_message REQUEST (-1))) (demo_start 0) = Inr a"
    "Pub_pre_prepare (demo_message PRE_PREPARE 0) \<in> set (published a)"
    by (rule demo_primary_run)
  obtain s1 s2 s3 s4 where s:
    "replica_step (Ev_pre_prepare (demo_message PRE_PREPARE 0)) (demo_start 1) = Inr s1"
    "Pub_prepare (demo_message PREPARE 1) \<in> set (published s1)"
    "replica_step (Ev_prepare (demo_message PREPARE 2)) s1 = Inr s2"
    "Pub_commit (demo_message COMMIT 1) \<in> set (published s2)"
    "replica_step (Ev_commit (demo_message COMMIT 2)) s2 = Inr s3"
    "replica_step (Ev_commit (demo_message COMMIT 3)) s3 = Inr s4" "(0, 1) \<in> committed_instances s4"
    "Pub_status (demo_status 1) \<in> set (published s4)"
    using demo_backup_run[of 1 2] by blast
  obtain t1 t2 t3 t4 where t:
    "replica_step (Ev_pre_prepare (demo_message PRE_PREPARE 0)) (demo_start 2) = Inr t1"
    "Pub_prepare (demo_message PREPARE 2) \<in> set (published t1)"
    "replica_step (Ev_prepare (demo_message PREPARE 1)) t1 = Inr t2"
    "Pub_commit (demo_message COMMIT 2) \<in> set (published t2)"
    "replica_step (Ev_commit (demo_message COMMIT 1)) t2 = Inr t3"
    "replica_step (Ev_commit (demo_message COMMIT 3)) t3 = Inr t4" "(0, 1) \<in> committed_instances t4"
    "Pub_status (demo_status 2) \<in> set (published t4)"
    using demo_backup_run[of 2 1] by blast
  let ?script = "[Deliver 0 (Ev_request (demo_message REQUEST (-1))),
    Deliver 1 (Ev_pre_prepare (demo_message PRE_PREPARE 0)),
    Deliver 2 (Ev_pre_prepare (demo_message PRE_PREPARE 0)),
    Deliver 1 (Ev_prepare (demo_message PREPARE 2)), Deliver 2 (Ev_prepare (demo_message PREPARE 1)),
    Inject (Pub_commit (demo_message COMMIT 3)),
    Deliver 1 (Ev_commit (demo_message COMMIT 2)), Deliver 1 (Ev_commit (demo_message COMMIT 3)),
    Deliver 2 (Ev_commit (demo_message COMMIT 1)), Deliver 2 (Ev_commit (demo_message COMMIT 3)),
    Inject (Pub_status (demo_status 3))]"
  have "m_sender (demo_message COMMIT 3) = 3" "st_node_id (demo_status 3) = 3"
    by (simp_all add: demo_message_def demo_status_def)
  then have "\<exists>c. run_script {0, 1, 2} ?script demo_system = Some c \<and>
      replica_at c 1 = s4 \<and> replica_at c 2 = t4 \<and>
      {Pub_status (demo_status 1), Pub_status (demo_status 2), Pub_status (demo_status 3)} \<subseteq> network c"
    using a s t by (simp add: demo_system_def del: replica_step.simps)
  with s(7) t(7) show thesis using that run_script_reach by blast
qed

lemma demo_correct:
  "i \<in> {0, 1, 2, 3} \<Longrightarrow> init_replica (demo_params i) = Inr (demo_start i) \<and> \<not> is_byzantine (demo_params i)"
  using demo_init by (simp add: demo_start_def) (simp add: demo_params_def)

lemma demo_rinv: "i \<in> {0, 1, 2, 3} \<Longrightarrow> rinv ok (demo_start i)"
  using demo_correct rinv_init by blast

lemma demo_committed:
  "\<exists>s. foldE replica_step [Ev_pre_prepare (demo_message PRE_PREPARE 0), Ev_prepare (demo_message PREPARE 2),
      Ev_commit (demo_message COMMIT 2), Ev_commit (demo_message COMMIT 3)] (demo_start 1) = Inr s \<and>
    (0, 1) \<in> committed_instances s \<and> max_faulty (params s) = 1"
  by (simp add: demo_start_def demo_defs vote_defs publish_def)

lemma demo_prepared:
  "\<exists>s. foldE replica_step [Ev_pre_prepare (demo_message PRE_PREPARE 0),
      Ev_prepare (demo_message PREPARE 2)] (demo_start 1) = Inr s \<and> current_view s = 0 \<and>
    view_change_candidates 1 s \<noteq> {}"
  by (simp add: demo_start_def demo_defs vote_defs publish_def view_change_candidates_def Set.filter_eq
      conj_disj_distribR Collect_disj_eq)

lemma demo_cached_simps:
  assumes "i = 1 \<or> i = 2"
  shows "params (demo_cached i) = demo_params i" "current_view (demo_cached i) = 0"
    "eligible_cached_requests (demo_cached i) = [message_instance (demo_message REQUEST (-1))]"
    "next_sequence_number (demo_cached i) = 1"
  using assms
  by (auto simp: demo_cached_def demo_start_def demo_defs eligible_cached_requests_def
      committed_request_ids_def Set.filter_eq message_instance_def)

lemma demo_cached_rinv: "i = 1 \<or> i = 2 \<Longrightarrow> rinv ok (demo_cached i)"
  unfolding demo_cached_def using rinv_micros[OF request_callback_refines] demo_rinv by blast


end
