(* ===== verification/PBFT_Properties.thy ===== *)
theory PBFT_Properties
  imports PBFT_Demo
begin

text \<open>
  The properties of the PBFT replica and of a system of replicas, each with a witness that
  applies it to the run of \<^verbatim>\<open>PBFT_Demo\<close>.
\<close>

section \<open>The system\<close>

text \<open>C1. Agreement. In every state reachable by a system of \<open>3 f + 1\<close> replicas with at least
  \<open>2 f + 1\<close> correct ones, two correct replicas that committed the same view and sequence number
  committed the same request, digest and stop value, whatever the faulty replicas publish and in
  whatever order messages arrive.\<close>

theorem committed_agreement:
  assumes "start_system f H ps c0" "(system_step H)\<^sup>*\<^sup>* c0 c" "i \<in> H" "j \<in> H"
    and "k \<in> committed_instances (replica_at c i)" "k \<in> committed_instances (replica_at c j)"
  shows "instances (replica_at c i) k \<noteq> None \<and>
    instances (replica_at c i) k = instances (replica_at c j) k"
proof -
  have inv: "system_inv f H c" using system_inv_reach[OF assms(2) system_inv_start[OF assms(1)]] .
  then show ?thesis using committed_prepared[OF inv] prepared_agreement[OF inv assms(3,4)] assms(3-6) by blast
qed

theorem committed_agreement_witness:
  "\<exists>c. start_system 1 {0, 1, 2} demo_params demo_system \<and> (system_step {0, 1, 2})\<^sup>*\<^sup>* demo_system c \<and>
    (0, 1) \<in> committed_instances (replica_at c 1) \<and> (0, 1) \<in> committed_instances (replica_at c 2) \<and>
    instances (replica_at c 1) (0, 1) \<noteq> None \<and>
    instances (replica_at c 1) (0, 1) = instances (replica_at c 2) (0, 1)"
proof -
  obtain c where c: "(system_step {0, 1, 2})\<^sup>*\<^sup>* demo_system c"
    "(0, 1) \<in> committed_instances (replica_at c 1)" "(0, 1) \<in> committed_instances (replica_at c 2)"
    by (rule demo_run)
  then show ?thesis
    using committed_agreement[OF demo_system_start c(1) _ _ c(2,3)] demo_system_start by auto
qed

text \<open>C2. A committed instance is backed by correct replicas: when a correct replica has committed a
  view and sequence number, at least \<open>f + 1\<close> correct replicas have prepared it with the same request.\<close>

theorem committed_backing:
  assumes "start_system f H ps c0" "(system_step H)\<^sup>*\<^sup>* c0 c" "i \<in> H"
    and "k \<in> committed_instances (replica_at c i)"
  shows "\<exists>Q \<subseteq> H. f + 1 \<le> card Q \<and>
    (\<forall>q \<in> Q. k \<in> prepared_instances (replica_at c q) \<and>
       instances (replica_at c q) k = instances (replica_at c i) k)"
proof -
  have inv: "system_inv f H c" using system_inv_reach[OF assms(2) system_inv_start[OF assms(1)]] .
  let ?S = "commit_senders (replica_at c i) k" and ?U = "{0..<3 * int f + 1}"
  have S: "?S \<subseteq> ?U" "2 * f + 1 \<le> card ?S"
    using system_replica(1,3)[OF inv assms(3)] assms(3,4) inv
    by (auto simp: inv_votes_def is_replica_def commit_threshold_def system_inv_def)
  have H: "H \<subseteq> ?U" "2 * f + 1 \<le> card H" using inv by (auto simp: system_inv_def)
  have "f + 1 \<le> card (?S \<inter> H)" using card_Int_ge[of ?U ?S H] S H by simp
  moreover have "k \<in> prepared_instances (replica_at c q) \<and>
      instances (replica_at c q) k = instances (replica_at c i) k" if "q \<in> ?S \<inter> H" for q
    using commit_vote_agrees[OF inv assms(3)] that by blast
  ultimately show ?thesis by blast
qed

theorem committed_backing_witness:
  "\<exists>c Q. (system_step {0, 1, 2})\<^sup>*\<^sup>* demo_system c \<and> (0, 1) \<in> committed_instances (replica_at c 1) \<and>
    Q \<subseteq> {0, 1, 2} \<and> 2 \<le> card Q \<and>
    (\<forall>q \<in> Q. (0, 1) \<in> prepared_instances (replica_at c q) \<and>
       instances (replica_at c q) (0, 1) = instances (replica_at c 1) (0, 1))"
proof -
  obtain c where c: "(system_step {0, 1, 2})\<^sup>*\<^sup>* demo_system c"
    "(0, 1) \<in> committed_instances (replica_at c 1)"
    by (rule demo_run)
  from committed_backing[OF demo_system_start c(1) _ c(2)] obtain Q where
    "Q \<subseteq> {0, 1, 2}" "1 + 1 \<le> card Q" "\<forall>q \<in> Q. (0, 1) \<in> prepared_instances (replica_at c q) \<and>
       instances (replica_at c q) (0, 1) = instances (replica_at c 1) (0, 1)"
    by blast
  with c show ?thesis by (intro exI[of _ c] exI[of _ Q]) simp
qed

text \<open>C3. A correct replica does not equivocate: among the publications that carry its id, two PREPARE
  messages, two COMMIT messages or two PRE-PREPARE messages for one view and sequence number carry the
  same request, and it publishes one NEW-VIEW message per view.\<close>

theorem no_equivocation:
  assumes "start_system f H ps c0" "(system_step H)\<^sup>*\<^sup>* c0 c" "i \<in> H"
  shows "(\<forall>pub \<in> {Pub_prepare, Pub_commit, Pub_pre_prepare}. \<forall>m m'.
      pub m \<in> network c \<and> pub m' \<in> network c \<and> m_sender m = i \<and> m_sender m' = i \<and>
      message_key m = message_key m' \<longrightarrow> message_instance m = message_instance m') \<and>
    (\<forall>v v'. Pub_new_view v \<in> network c \<and> Pub_new_view v' \<in> network c \<and> nv_sender v = i \<and>
      nv_sender v' = i \<and> nv_new_view v = nv_new_view v' \<longrightarrow> v = v')"
proof -
  have inv: "system_inv f H c" using system_inv_reach[OF assms(2) system_inv_start[OF assms(1)]] .
  have own: "p \<in> set (published (replica_at c i))" if "p \<in> network c" "pub_sender p = i" for p
    using inv assms(3) that by (auto simp: system_inv_def)
  have "instances (replica_at c i) (message_key m) = Some (message_instance m)"
    if "pub \<in> {Pub_prepare, Pub_commit, Pub_pre_prepare}" "pub m \<in> network c" "m_sender m = i" for pub m
    using that own[of "pub m"] system_replica(5)[OF inv assms(3)] by (auto simp: inv_published_def)
  moreover have "v = v'" if "Pub_new_view v \<in> network c" "Pub_new_view v' \<in> network c" "nv_sender v = i"
    "nv_sender v' = i" "nv_new_view v = nv_new_view v'" for v v'
    using own[OF that(1)] own[OF that(2)] that(3-5) system_replica(6)[OF inv assms(3)]
    unfolding inv_new_views_def pub_sender.simps by blast
  ultimately show ?thesis by (metis option.inject)
qed

theorem no_equivocation_witness:
  "\<exists>c. (system_step {0, 1, 2})\<^sup>*\<^sup>* demo_system c \<and> (0, 1) \<in> committed_instances (replica_at c 1) \<and>
    (\<forall>m m'. Pub_commit m \<in> network c \<and> Pub_commit m' \<in> network c \<and> m_sender m = 1 \<and> m_sender m' = 1 \<and>
      message_key m = message_key m' \<longrightarrow> message_instance m = message_instance m')"
proof -
  obtain c where c: "(system_step {0, 1, 2})\<^sup>*\<^sup>* demo_system c"
    "(0, 1) \<in> committed_instances (replica_at c 1)"
    by (rule demo_run)
  from no_equivocation[OF demo_system_start c(1), of 1] c show ?thesis by auto
qed

text \<open>C4. A commit is final: a view and sequence number that a correct replica has committed stays
  committed with the same request in every later state, and the replica's stop flag stays set.\<close>

theorem commit_final:
  assumes "start_system f H ps c0" "(system_step H)\<^sup>*\<^sup>* c0 c" "(system_step H)\<^sup>*\<^sup>* c c'" "i \<in> H"
    and "k \<in> committed_instances (replica_at c i)"
  shows "k \<in> committed_instances (replica_at c' i) \<and>
    instances (replica_at c' i) k = instances (replica_at c i) k \<and> emergency_stop (replica_at c' i)"
proof -
  have inv: "system_inv f H c" using system_inv_reach[OF assms(2) system_inv_start[OF assms(1)]] .
  then have k: "instances (replica_at c i) k \<noteq> None"
    using system_replica(3)[OF inv assms(4)] assms(5) by (auto simp: inv_votes_def)
  from assms(3) have "system_inv f H c' \<and> rle (replica_at c i) (replica_at c' i) \<and>
      instances (replica_at c i) \<subseteq>\<^sub>m instances (replica_at c' i)"
  proof (induction rule: rtranclp_induct)
    case (step d d')
    then show ?case using system_step_grows[OF step.hyps(2) _ assms(4)]
      by (meson map_le_trans rle_trans system_inv_step)
  qed (simp add: inv rle_refl)
  moreover from this have "inv_stop (replica_at c' i)"
    using assms(4) by (simp add: system_inv_def auth_inv_def rinv_def)
  ultimately show ?thesis
    using assms(5) k by (auto simp: rle_def inv_stop_def map_le_def dom_def)
qed

theorem commit_final_witness:
  "\<exists>c. (system_step {0, 1, 2})\<^sup>*\<^sup>* demo_system c \<and> (0, 1) \<in> committed_instances (replica_at c 1) \<and>
    emergency_stop (replica_at c 1)"
proof -
  obtain c where c: "(system_step {0, 1, 2})\<^sup>*\<^sup>* demo_system c"
    "(0, 1) \<in> committed_instances (replica_at c 1)"
    by (rule demo_run)
  from commit_final[OF demo_system_start c(1) rtranclp.rtrancl_refl _ c(2)] c show ?thesis by auto
qed

section \<open>A single correct replica\<close>



text \<open>C6. The stop flag of a correct replica is backed by certificates: it is set exactly when some
  instance is committed, and every committed instance has a request with the right digest and stop
  value true, COMMIT votes of at least \<open>2 f + 1\<close> different replicas, and PREPARE votes of at least
  \<open>2 f\<close> different replicas other than the primary of its view.\<close>

theorem stop_certificate:
  assumes "init_replica p = Inr s0" "\<not> is_byzantine p" "foldE replica_step es s0 = Inr s"
  shows "(emergency_stop s \<longleftrightarrow> committed_instances s \<noteq> {}) \<and>
    (\<forall>k \<in> committed_instances s. \<exists>inst. instances s k = Some inst \<and> valid_instance inst \<and>
       commit_senders s k \<subseteq> {0..<n_of s} \<and> commit_threshold s \<le> int (card (commit_senders s k)) \<and>
       prepare_senders s k \<subseteq> {0..<n_of s} - {primary_for_view (n_of s) (fst k)} \<and>
       prepare_threshold s \<le> int (card (prepare_senders s k)))"
proof -
  have r: "rinv anything s" using replica.run_inv[OF rinv_init[OF assms(1,2)] assms(3)] .
  then have inv: "inv_votes s" "inv_stop s" by (simp_all add: rinv_def)
  show ?thesis
  proof (intro conjI ballI)
    show "emergency_stop s \<longleftrightarrow> committed_instances s \<noteq> {}" using inv(2) by (simp add: inv_stop_def)
    fix k assume k: "k \<in> committed_instances s"
    then obtain inst where inst: "instances s k = Some inst" "k \<in> prepared_instances s" "valid_instance inst"
      using rinv_committed[OF r] by blast
    moreover have "commit_senders s k \<subseteq> {0..<n_of s}"
      "prepare_senders s k \<subseteq> {0..<n_of s} - {primary_for_view (n_of s) (fst k)}"
      using inv(1) by (auto simp: inv_votes_def is_replica_def)
    moreover have "commit_threshold s \<le> int (card (commit_senders s k))"
      "prepare_threshold s \<le> int (card (prepare_senders s k))"
      using inv(1) k inst(2) by (auto simp: inv_votes_def)
    ultimately show "\<exists>inst. instances s k = Some inst \<and> valid_instance inst \<and>
       commit_senders s k \<subseteq> {0..<n_of s} \<and> commit_threshold s \<le> int (card (commit_senders s k)) \<and>
       prepare_senders s k \<subseteq> {0..<n_of s} - {primary_for_view (n_of s) (fst k)} \<and>
       prepare_threshold s \<le> int (card (prepare_senders s k))"
      using inst by blast
  qed
qed

theorem stop_certificate_witness:
  "\<exists>s. foldE replica_step [Ev_pre_prepare (demo_message PRE_PREPARE 0), Ev_prepare (demo_message PREPARE 2),
      Ev_commit (demo_message COMMIT 2), Ev_commit (demo_message COMMIT 3)] (demo_start 1) = Inr s \<and>
    (0, 1) \<in> committed_instances s \<and> emergency_stop s \<and> 3 \<le> card (commit_senders s (0, 1))"
proof -
  obtain s where s: "foldE replica_step [Ev_pre_prepare (demo_message PRE_PREPARE 0),
      Ev_prepare (demo_message PREPARE 2), Ev_commit (demo_message COMMIT 2),
      Ev_commit (demo_message COMMIT 3)] (demo_start 1) = Inr s" "(0, 1) \<in> committed_instances s"
    "max_faulty (params s) = 1"
    using demo_committed by blast
  have "init_replica (demo_params 1) = Inr (demo_start 1)" "\<not> is_byzantine (demo_params 1)"
    by (simp_all add: demo_correct)
  from stop_certificate[OF this s(1)] s show ?thesis by (auto simp: commit_threshold_def)
qed

text \<open>C7. Refinement: from every state that satisfies the invariant, every callback and timer of a
  correct replica is a sequence of the elementary steps of the abstract specification, in which a vote
  is counted, an instance accepted or a view entered only for messages that were delivered.\<close>

theorem replica_refines_spec:
  assumes "rinv ok s" "admissible ok e"
  shows "\<exists>s'. replica_step e s = Inr s' \<and> (micro ok)\<^sup>*\<^sup>* s s' \<and> rinv ok s'"
  using replica_step_refines[OF assms] rinv_micros assms(1) unfolding refines_def by blast

theorem replica_refines_spec_witness:
  "\<exists>s'. replica_step (Ev_prepare (demo_message PREPARE 2)) (demo_start 1) = Inr s' \<and>
    (micro (\<lambda>p. p = Pub_prepare (demo_message PREPARE 2)))\<^sup>*\<^sup>* (demo_start 1) s' \<and>
    rinv (\<lambda>p. p = Pub_prepare (demo_message PREPARE 2)) s'"
proof (rule replica_refines_spec)
  show "rinv (\<lambda>p. p = Pub_prepare (demo_message PREPARE 2)) (demo_start 1)"
    by (simp add: demo_rinv)
qed simp

section \<open>View change\<close>

text \<open>C8. The VIEW-CHANGE message of a correct replica: building it never fails for a higher view, it
  passes the validation of every replica with the same parameters, and it carries a certificate exactly
  when an uncommitted prepared instance of an older view exists, namely the one with the greatest view
  and sequence number, with the set of replicas whose PREPARE it counted.\<close>

theorem view_change_certificate:
  assumes "rinv ok s" "current_view s < v"
  shows "\<exists>m. build_view_change_message v s = Inr m \<and> vc_sender m = self_id s \<and> vc_new_view m = v \<and>
    (\<forall>s'. n_of s' = n_of s \<and> max_faulty (params s') = max_faulty (params s) \<longrightarrow>
       validate_view_change_certificate m s') \<and>
    (vc_has_certificate m \<longleftrightarrow> view_change_candidates v s \<noteq> {}) \<and>
    (vc_has_certificate m \<longrightarrow>
       (vc_prepared_view m, vc_prepared_seq m) = Max (view_change_candidates v s) \<and>
       set (vc_prepare_senders m) = prepare_senders s (vc_prepared_view m, vc_prepared_seq m))"
proof -
  obtain m where m: "build_view_change_message v s = Inr m" "validate_view_change_certificate m s"
    "vc_sender m = self_id s" "vc_new_view m = v" "truthful_certificate m s"
    using assms by (rule build_view_change_ok)
  have "validate_view_change_certificate m s'"
    if "n_of s' = n_of s" "max_faulty (params s') = max_faulty (params s)" for s'
    using validate_certificate_cong[OF that] m(2) by simp
  moreover have "vc_has_certificate m \<longleftrightarrow> view_change_candidates v s \<noteq> {}"
    and "vc_has_certificate m \<Longrightarrow> (vc_prepared_view m, vc_prepared_seq m) = Max (view_change_candidates v s)"
    using m(1) by (auto simp: build_view_change_message_def select_prepared_instance_for_view_change_def
        Let_def raise_if_def split: if_splits option.splits)
  moreover have "vc_has_certificate m \<Longrightarrow>
      set (vc_prepare_senders m) = prepare_senders s (vc_prepared_view m, vc_prepared_seq m)"
    using m(5) by (simp add: truthful_certificate_def Let_def)
  ultimately show ?thesis using m by blast
qed

theorem view_change_certificate_witness:
  "\<exists>s m. foldE replica_step [Ev_pre_prepare (demo_message PRE_PREPARE 0),
      Ev_prepare (demo_message PREPARE 2)] (demo_start 1) = Inr s \<and>
    build_view_change_message 1 s = Inr m \<and> vc_has_certificate m \<and> validate_view_change_certificate m s"
proof -
  obtain s where s: "foldE replica_step [Ev_pre_prepare (demo_message PRE_PREPARE 0),
      Ev_prepare (demo_message PREPARE 2)] (demo_start 1) = Inr s" "current_view s = 0"
    "view_change_candidates 1 s \<noteq> {}"
    using demo_prepared by blast
  have "rinv anything s" using replica.run_inv[OF demo_rinv s(1)] by simp
  from view_change_certificate[OF this, of 1] s show ?thesis by auto
qed

text \<open>C9. NEW-VIEW round trip: the NEW-VIEW message that the correct primary of a view builds passes
  the validation of every replica of the same configuration that is still in a lower view, with the
  request and sequence number the primary selected. When no certificate exists the two replicas must
  have the same uncommitted cached requests.\<close>

theorem new_view_roundtrip:
  assumes "rinv ok s" "build_new_view_message v vcs s = Some m"
    and "n_of s' = n_of s" "max_faulty (params s') = max_faulty (params s)" "current_view s' < v"
    and "nv_from_prepared m \<or> eligible_cached_requests s' = eligible_cached_requests s"
  shows "validate_new_view_message m s' = Some (nv_instance m, nv_seq m)"
proof -
  from assms(2) obtain inst fp pv q where
    sel: "select_request_for_new_view vcs s = Some (inst, fp, pv, q)" and
    proofs: "\<forall>vc \<in> set vcs. valid_proof v vc s" and
    m: "nv_sender m = primary_for_view (n_of s) v" "nv_new_view m = v" "nv_view_changes m = vcs"
      "nv_has_selected m" "nv_from_prepared m = fp" "nv_prepared_view m = pv" "nv_seq m = q"
      "nv_instance m = inst" and
    quorum: "card (set (map vc_sender vcs)) = length vcs"
      "view_change_threshold s \<le> int (card (set (map vc_sender vcs)))"
    by (auto simp: build_new_view_message_def nv_instance_def split: if_splits option.splits)
  have valid: "valid_instance inst" "q \<noteq> 0" "\<not> fp \<longrightarrow> pv = 0"
    using selected_request_valid[OF assms(1) proofs sel] by auto
  have "\<exists>q'. select_request_for_new_view vcs s' = Some (inst, fp, pv, q') \<and> (fp \<longrightarrow> q' = q)"
    using sel assms(6) m(5)
    by (auto simp: select_request_for_new_view_def Let_def split: if_splits list.splits)
  moreover have "\<forall>vc \<in> set vcs. valid_proof v vc s'"
    using proofs valid_proof_cong[OF assms(3,4)] by simp
  moreover have "nv_request_id m \<noteq> ''''" "nv_stop m" "nv_digest m = compute_request_digest (nv_request_id m) (nv_stop m)"
    using valid(1) m(8) by (auto simp: valid_instance_def nv_instance_def)
  ultimately show ?thesis
    using assms(3-5) m quorum valid
    by (simp add: validate_new_view_message_def view_change_threshold_def) force
qed

theorem new_view_roundtrip_witness:
  "\<exists>m. build_new_view_message 1 (map demo_view_change [0, 1, 3]) (demo_cached 1) = Some m \<and>
    validate_new_view_message m (demo_cached 2) = Some (nv_instance m, nv_seq m)"
proof -
  have "\<exists>m. build_new_view_message 1 (map demo_view_change [0, 1, 3]) (demo_cached 1) = Some m"
    by (simp add: build_new_view_message_def demo_cached_simps demo_params_def primary_for_view_def
        demo_view_change_def threshold_defs valid_proof_def validate_view_change_certificate_def
        select_request_for_new_view_def)
  then obtain m where m: "build_new_view_message 1 (map demo_view_change [0, 1, 3]) (demo_cached 1) = Some m"
    by blast
  show ?thesis
    using m new_view_roundtrip[OF demo_cached_rinv m, of "demo_cached 2"]
    by (auto simp: demo_cached_simps demo_params_def)
qed

end
