(* ===== verification/PBFT_Supervisor.thy ===== *)
theory PBFT_Supervisor
  imports PBFT_Monitor
begin

text \<open>
  The fail-safe supervisor (\<^verbatim>\<open>safety_supervisor.py\<close>), which drives the stop command of the
  vehicle: it applies decisions that it can validate, and latches a stop on an invalid
  request, an invalid decision, conflicting requests or a timeout. Both its topics are
  recorded in \<open>sup_published\<close>; the clock reading of a callback is the argument \<open>now\<close>.
\<close>

record active_request =
  ar_request_id :: string
  ar_digest :: string
  ar_stop :: bool
  ar_initial_view :: nat
  ar_received_time :: int

datatype supervisor_output = Out_command bool | Out_state string

record supervisor =
  sup_replica_count :: int
  sup_max_faulty :: int
  allow_confirmed_release :: bool
  active :: "active_request option"
  timeout_timer :: bool
  decision_processed :: bool
  fail_safe_latched :: bool
  current_command :: bool
  current_state :: string
  sup_published :: "supervisor_output list"

definition required_confirmations :: "supervisor \<Rightarrow> int" where
  "required_confirmations s = 2 * sup_max_faulty s + 1"

definition publish_output :: "bool \<Rightarrow> supervisor \<Rightarrow> supervisor" where
  "publish_output enabled s =
     s\<lparr>current_command := enabled, sup_published := sup_published s @ [Out_command enabled]\<rparr>"

definition set_state :: "string \<Rightarrow> supervisor \<Rightarrow> supervisor" where
  "set_state st s = s\<lparr>current_state := st, sup_published := sup_published s @ [Out_state st]\<rparr>"

definition activate_fail_safe :: "supervisor \<Rightarrow> supervisor" where
  "activate_fail_safe s =
     set_state ''FAIL_SAFE_STOP'' (publish_output True (s\<lparr>fail_safe_latched := True\<rparr>))"

definition cancel_timeout :: "supervisor \<Rightarrow> supervisor" where
  "cancel_timeout s = s\<lparr>timeout_timer := False\<rparr>"

definition sup_validate_configuration :: "int \<Rightarrow> int \<Rightarrow> real \<Rightarrow> real \<Rightarrow> py_error + unit" where
  "sup_validate_configuration n f decision_timeout_sec heartbeat_period_sec =
     raise_if (n \<noteq> 3 * f + 1) ValueError (
     raise_if (decision_timeout_sec \<le> 0) ValueError (
     raise_if (heartbeat_period_sec \<le> 0) ValueError (Inr ())))"

definition init_supervisor :: "int \<Rightarrow> int \<Rightarrow> real \<Rightarrow> bool \<Rightarrow> real \<Rightarrow> py_error + supervisor" where
  "init_supervisor n f decision_timeout_sec allow heartbeat_period_sec =
     bindE (sup_validate_configuration n f decision_timeout_sec heartbeat_period_sec) (\<lambda>_.
       Inr (set_state ''SAFE_INITIAL_STOP'' (publish_output True
         \<lparr>sup_replica_count = n, sup_max_faulty = f, allow_confirmed_release = allow,
          active = None, timeout_timer = False, decision_processed = False,
          fail_safe_latched = False, current_command = True,
          current_state = ''INITIALIZING'', sup_published = []\<rparr>)))"

text \<open>\<^verbatim>\<open>_validate_request\<close> and \<^verbatim>\<open>_validate_decision\<close> return an error text or \<^verbatim>\<open>None\<close>.\<close>

definition validate_request :: "pbft_message \<Rightarrow> supervisor \<Rightarrow> string option" where
  "validate_request m s =
     (if m_sender m \<noteq> -1 then Some ''sender_id must be -1''
      else if \<not> (0 \<le> m_recipient m \<and> m_recipient m < sup_replica_count s)
        then Some ''invalid recipient_id''
      else if m_seq m \<noteq> 0 then Some ''client sequence_number must be zero''
      else if m_request_id m = '''' then Some ''empty request_id''
      else if m_digest m \<noteq> compute_request_digest (m_request_id m) (m_stop m)
        then Some ''digest mismatch''
      else None)"

definition sup_request_callback :: "int \<Rightarrow> pbft_message \<Rightarrow> supervisor \<Rightarrow> supervisor" where
  "sup_request_callback now m s =
     (if m_type m \<noteq> REQUEST then s
      else if validate_request m s \<noteq> None then activate_fail_safe s
      else
        let candidate = \<lparr>ar_request_id = m_request_id m, ar_digest = m_digest m,
              ar_stop = m_stop m, ar_initial_view = m_view m, ar_received_time = now\<rparr>;
            accept = (\<lambda>s.
              (set_state ''WAITING_FOR_DECISION'' (publish_output True (cancel_timeout
                (s\<lparr>active := Some candidate, decision_processed := False\<rparr>))))
              \<lparr>timeout_timer := True\<rparr>) in
        case active s of
          None \<Rightarrow> accept s
        | Some a \<Rightarrow>
            if decision_processed s then accept s
            else if ar_request_id candidate = ar_request_id a \<and> ar_digest candidate = ar_digest a \<and>
                ar_stop candidate = ar_stop a \<and> ar_initial_view candidate = ar_initial_view a
            then s
            else activate_fail_safe s)"

definition validate_decision :: "pbft_decision \<Rightarrow> active_request \<Rightarrow> supervisor \<Rightarrow> string option" where
  "validate_decision d r s =
     (if \<not> pd_committed d then Some ''decision is not committed''
      else if pd_view d < ar_initial_view r then Some ''decision view is stale''
      else if pd_seq d = 0 then Some ''invalid sequence number''
      else if pd_digest d \<noteq> ar_digest r then Some ''digest differs from active request''
      else if pd_stop d \<noteq> ar_stop r then Some ''decision value differs from request''
      else
        let replicas = pd_confirming_replicas d in
        if card (set replicas) \<noteq> length replicas then Some ''duplicate confirming replicas''
        else if \<exists>i \<in> set replicas. i < 0 \<or> i \<ge> sup_replica_count s
          then Some ''invalid confirming replica''
        else if pd_confirmation_count d \<noteq> card (set replicas) then Some ''confirmation_count mismatch''
        else if pd_required_confirmations d \<noteq> required_confirmations s
          then Some ''required_confirmations mismatch''
        else if int (card (set replicas)) < required_confirmations s
          then Some ''insufficient confirmation quorum''
        else None)"

definition sup_decision_callback :: "pbft_decision \<Rightarrow> supervisor \<Rightarrow> supervisor" where
  "sup_decision_callback d s =
     (case active s of
        None \<Rightarrow> s
      | Some r \<Rightarrow>
          if pd_request_id d \<noteq> ar_request_id r then s
          else if pd_stamp d < ar_received_time r then s
          else if validate_decision d r s \<noteq> None then activate_fail_safe s
          else if decision_processed s then s
          else
            let s1 = cancel_timeout (s\<lparr>decision_processed := True\<rparr>) in
            if pd_stop d then set_state ''CONFIRMED_STOP'' (publish_output True s1)
            else if fail_safe_latched s1 \<or> \<not> allow_confirmed_release s1
              then set_state ''RELEASE_BLOCKED'' (publish_output True s1)
            else set_state ''CONFIRMED_RELEASE'' (publish_output False s1))"

definition sup_decision_timeout_callback :: "supervisor \<Rightarrow> supervisor" where
  "sup_decision_timeout_callback s =
     (if active s = None \<or> decision_processed s then cancel_timeout s
      else activate_fail_safe (cancel_timeout s))"

definition heartbeat_callback :: "supervisor \<Rightarrow> supervisor" where
  "heartbeat_callback s =
     s\<lparr>sup_published := sup_published s @ [Out_command (current_command s), Out_state (current_state s)]\<rparr>"

datatype supervisor_event =
    Sup_request int pbft_message
  | Sup_decision pbft_decision
  | Sup_timeout
  | Sup_heartbeat

fun supervisor_step :: "supervisor_event \<Rightarrow> supervisor \<Rightarrow> py_error + supervisor" where
  "supervisor_step (Sup_request now m) s = Inr (sup_request_callback now m s)"
| "supervisor_step (Sup_decision d) s = Inr (sup_decision_callback d s)"
| "supervisor_step Sup_timeout s =
     Inr (if timeout_timer s then sup_decision_timeout_callback s else s)"
| "supervisor_step Sup_heartbeat s = Inr (heartbeat_callback s)"

section \<open>The supervisor invariant\<close>

definition sup_inv :: "supervisor \<Rightarrow> bool" where
  "sup_inv s =
     ((fail_safe_latched s \<longrightarrow> current_command s) \<and>
      (\<not> allow_confirmed_release s \<longrightarrow> current_command s) \<and>
      (active s \<noteq> None \<and> \<not> decision_processed s \<longrightarrow> timeout_timer s \<or> fail_safe_latched s))"

definition sup_le :: "supervisor \<Rightarrow> supervisor \<Rightarrow> bool" where
  "sup_le s s' =
     (sup_replica_count s' = sup_replica_count s \<and> sup_max_faulty s' = sup_max_faulty s \<and>
      allow_confirmed_release s' = allow_confirmed_release s \<and>
      (fail_safe_latched s \<longrightarrow> fail_safe_latched s') \<and>
      (\<exists>out. sup_published s' = sup_published s @ out \<and>
         (fail_safe_latched s \<or> \<not> allow_confirmed_release s \<longrightarrow> Out_command False \<notin> set out)))"

lemmas sup_defs = sup_request_callback_def sup_decision_callback_def sup_decision_timeout_callback_def
  heartbeat_callback_def activate_fail_safe_def publish_output_def set_state_def cancel_timeout_def

lemma supervisor_step_keeps:
  "sup_inv s \<Longrightarrow> \<exists>s'. supervisor_step e s = Inr s' \<and> sup_inv s'"
  by (cases e) (auto simp: sup_defs sup_inv_def Let_def split: option.split)

lemma sup_le_refl: "sup_le s s"
  by (simp add: sup_le_def)

lemma sup_le_trans:
  assumes "sup_le s t" "sup_le t u" shows "sup_le s u"
proof -
  from assms obtain a b where "sup_published t = sup_published s @ a" "sup_published u = sup_published t @ b"
    "fail_safe_latched s \<or> \<not> allow_confirmed_release s \<longrightarrow> Out_command False \<notin> set a"
    "fail_safe_latched t \<or> \<not> allow_confirmed_release t \<longrightarrow> Out_command False \<notin> set b"
    unfolding sup_le_def by blast
  with assms show ?thesis unfolding sup_le_def by (intro conjI exI[of _ "a @ b"]) auto
qed

lemma callbacks_le:
  "sup_le s (sup_request_callback now m s)"
  "sup_le s (sup_decision_callback d s)"
  "sup_le s (sup_decision_timeout_callback s)"
  "sup_inv s \<Longrightarrow> sup_le s (heartbeat_callback s)"
  by (simp_all add: sup_defs sup_le_def sup_inv_def Let_def split: option.split)

lemma supervisor_step_le: "sup_inv s \<Longrightarrow> supervisor_step e s = Inr s' \<Longrightarrow> sup_le s s'"
  using callbacks_le sup_le_refl by (cases e) (auto split: if_splits)

interpretation supervisor: ordered_machine supervisor_step sup_inv sup_le
  by unfold_locales (auto intro: supervisor_step_keeps supervisor_step_le sup_le_refl sup_le_trans)

lemma sup_inv_init: "init_supervisor n f t allow h = Inr s \<Longrightarrow> sup_inv s"
  by (auto simp: init_supervisor_def bindE_eq_Inr sup_inv_def publish_output_def set_state_def)

lemma validate_decision_quorum:
  assumes "validate_decision d r s = None"
  shows "pd_committed d \<and> ar_initial_view r \<le> pd_view d \<and> pd_seq d \<noteq> 0 \<and>
    pd_digest d = ar_digest r \<and> pd_stop d = ar_stop r \<and> distinct (pd_confirming_replicas d) \<and>
    set (pd_confirming_replicas d) \<subseteq> {0..<sup_replica_count s} \<and>
    2 * sup_max_faulty s + 1 \<le> int (length (pd_confirming_replicas d))"
  using assms
  by (auto simp: validate_decision_def Let_def required_confirmations_def split: if_splits
      dest: card_distinct)

section \<open>Properties\<close>

text \<open>C10. The fail-safe latch: from the moment the supervisor has latched a stop, in any run of
  requests, decisions, timeouts and heartbeats, it stays latched, its command stays ``stop'', and it
  never publishes a release again; with releases disabled the same holds from start-up.\<close>

theorem fail_safe_latch:
  assumes "init_supervisor n f t allow h = Inr s0" "foldE supervisor_step es s0 = Inr s"
    and "fail_safe_latched s \<or> \<not> allow" "foldE supervisor_step es' s = Inr s'"
  shows "current_command s' \<and> (fail_safe_latched s \<longrightarrow> fail_safe_latched s') \<and>
    (\<exists>out. sup_published s' = sup_published s @ out \<and> Out_command False \<notin> set out)"
proof -
  have i0: "sup_inv s0" using assms(1) by (rule sup_inv_init)
  then have i: "sup_inv s" using assms(2) by (rule supervisor.run_inv)
  then have i': "sup_inv s'" using assms(4) by (rule supervisor.run_inv)
  have "sup_le s0 s" using i0 assms(2) by (rule supervisor.run_le)
  moreover have "sup_le s s'" using i assms(4) by (rule supervisor.run_le)
  moreover have "allow_confirmed_release s0 = allow"
    using assms(1) by (auto simp: init_supervisor_def bindE_eq_Inr publish_output_def set_state_def)
  ultimately show ?thesis using assms(3) i' by (auto simp: sup_le_def sup_inv_def)
qed

definition demo_supervisor :: supervisor where
  "demo_supervisor = set_state ''SAFE_INITIAL_STOP'' (publish_output True
     \<lparr>sup_replica_count = 4, sup_max_faulty = 1, allow_confirmed_release = True,
      active = None, timeout_timer = False, decision_processed = False,
      fail_safe_latched = False, current_command = True,
      current_state = ''INITIALIZING'', sup_published = []\<rparr>)"

definition demo_request :: "bool \<Rightarrow> pbft_message" where
  "demo_request stop =
     \<lparr>m_type = REQUEST, m_sender = -1, m_recipient = 0, m_view = 0, m_seq = 0,
      m_request_id = ''r'', m_digest = compute_request_digest ''r'' stop, m_stop = stop\<rparr>"

definition demo_decision :: "bool \<Rightarrow> pbft_decision" where
  "demo_decision stop =
     \<lparr>pd_stamp = 5, pd_view = 0, pd_seq = 1, pd_request_id = ''r'',
      pd_digest = compute_request_digest ''r'' stop, pd_stop = stop, pd_committed = True,
      pd_confirmation_count = 3, pd_required_confirmations = 3, pd_confirming_replicas = [0, 1, 2]\<rparr>"

lemma demo_supervisor_init: "init_supervisor 4 1 8 True (1/2) = Inr demo_supervisor"
  by (simp add: init_supervisor_def sup_validate_configuration_def demo_supervisor_def)

lemmas demo_sup_defs = demo_supervisor_def demo_request_def demo_decision_def sup_defs
  validate_request_def validate_decision_def required_confirmations_def

theorem fail_safe_latch_witness:
  "\<exists>s s'. foldE supervisor_step [Sup_request 1 (demo_request False), Sup_timeout] demo_supervisor = Inr s \<and>
    fail_safe_latched s \<and> foldE supervisor_step [Sup_decision (demo_decision False)] s = Inr s' \<and>
    current_command s' \<and> fail_safe_latched s'"
proof -
  have "\<exists>s s'. foldE supervisor_step [Sup_request 1 (demo_request False), Sup_timeout] demo_supervisor = Inr s \<and>
      fail_safe_latched s \<and> foldE supervisor_step [Sup_decision (demo_decision False)] s = Inr s'"
    by (simp add: demo_sup_defs)
  then obtain s s' where s: "foldE supervisor_step [Sup_request 1 (demo_request False), Sup_timeout] demo_supervisor = Inr s"
    "fail_safe_latched s" "foldE supervisor_step [Sup_decision (demo_decision False)] s = Inr s'" by blast
  from fail_safe_latch[OF demo_supervisor_init s(1) disjI1[OF s(2)] s(3)] s show ?thesis by blast
qed

text \<open>C11. A release needs a quorum: whenever a callback of the supervisor switches the command from
  stop to release, it was processing a decision for the active request that was submitted with stop value
  false, releases are allowed and no stop is latched, the decision is committed with the request's digest
  and value and not older than its view, and it is confirmed by at least \<open>2 f + 1\<close> different replicas.\<close>

theorem release_needs_quorum:
  assumes "supervisor_step e s = Inr s'" "current_command s" "\<not> current_command s'"
  shows "\<exists>d r. e = Sup_decision d \<and> active s = Some r \<and> pd_request_id d = ar_request_id r \<and>
    ar_received_time r \<le> pd_stamp d \<and> allow_confirmed_release s \<and> \<not> fail_safe_latched s \<and>
    \<not> decision_processed s \<and> \<not> ar_stop r \<and> pd_committed d \<and> ar_initial_view r \<le> pd_view d \<and>
    pd_digest d = ar_digest r \<and> distinct (pd_confirming_replicas d) \<and>
    set (pd_confirming_replicas d) \<subseteq> {0..<sup_replica_count s} \<and>
    2 * sup_max_faulty s + 1 \<le> int (length (pd_confirming_replicas d))"
proof -
  obtain d where e: "e = Sup_decision d"
    using assms by (cases e) (auto simp: sup_defs Let_def split: if_splits option.splits)
  then obtain r where r: "active s = Some r" "validate_decision d r s = None"
    "pd_request_id d = ar_request_id r" "ar_received_time r \<le> pd_stamp d" "\<not> pd_stop d"
    "\<not> decision_processed s" "allow_confirmed_release s" "\<not> fail_safe_latched s"
    using assms by (auto simp: sup_defs Let_def split: if_splits option.splits)
  with e validate_decision_quorum[OF r(2)] show ?thesis by auto
qed

theorem release_needs_quorum_witness:
  "\<exists>s s'. foldE supervisor_step [Sup_request 1 (demo_request False)] demo_supervisor = Inr s \<and>
    supervisor_step (Sup_decision (demo_decision False)) s = Inr s' \<and> current_command s \<and>
    \<not> current_command s' \<and> allow_confirmed_release s"
proof -
  have "\<exists>s s'. foldE supervisor_step [Sup_request 1 (demo_request False)] demo_supervisor = Inr s \<and>
      supervisor_step (Sup_decision (demo_decision False)) s = Inr s' \<and> current_command s \<and> \<not> current_command s'"
    by (simp add: demo_sup_defs)
  then obtain s s' where s: "foldE supervisor_step [Sup_request 1 (demo_request False)] demo_supervisor = Inr s"
    "supervisor_step (Sup_decision (demo_decision False)) s = Inr s'" "current_command s" "\<not> current_command s'" by blast
  from release_needs_quorum[OF s(2-4)] s show ?thesis by blast
qed

text \<open>C12. The deadline is always covered: in every reachable state with an undecided active request the
  deadline timer is armed or a stop is already latched, so when the timer event comes the supervisor ends
  up latched with the stop command.\<close>

theorem deadline_latches:
  assumes "init_supervisor n f t allow h = Inr s0" "foldE supervisor_step es s0 = Inr s"
    and "active s = Some r" "\<not> decision_processed s"
  shows "\<exists>s'. supervisor_step Sup_timeout s = Inr s' \<and> fail_safe_latched s' \<and> current_command s'"
proof -
  have "sup_inv s" using sup_inv_init[OF assms(1)] assms(2) by (rule supervisor.run_inv)
  with assms(3,4) show ?thesis by (auto simp: sup_inv_def sup_defs)
qed

theorem deadline_latches_witness:
  "\<exists>s s'. foldE supervisor_step [Sup_request 1 (demo_request True)] demo_supervisor = Inr s \<and>
    \<not> fail_safe_latched s \<and> supervisor_step Sup_timeout s = Inr s' \<and> fail_safe_latched s'"
proof -
  have "\<exists>s r. foldE supervisor_step [Sup_request 1 (demo_request True)] demo_supervisor = Inr s \<and>
      active s = Some r \<and> \<not> decision_processed s \<and> \<not> fail_safe_latched s"
    by (simp add: demo_sup_defs)
  then obtain s r where s: "foldE supervisor_step [Sup_request 1 (demo_request True)] demo_supervisor = Inr s"
    "active s = Some r" "\<not> decision_processed s" "\<not> fail_safe_latched s" by blast
  from deadline_latches[OF demo_supervisor_init s(1-3)] s show ?thesis by blast
qed

end
