(* ===== verification/PBFT_Client.thy ===== *)
theory PBFT_Client
  imports PBFT_Monitor
begin

text \<open>
  The client (\<^verbatim>\<open>client_node.py\<close>): it publishes one request and waits for a decision it can
  check. The random request id used when none is configured (\<^verbatim>\<open>uuid4().hex[:8]\<close>) is the
  argument \<open>fresh\<close>; the clock reading of a callback is the argument \<open>now\<close>.
\<close>

record pbft_client =
  cl_primary_id :: int
  cl_current_view :: nat
  cl_emergency_stop :: bool
  cl_request_id :: string
  cl_request_digest :: string
  request_sent :: bool
  decision_received :: bool
  request_sent_time :: "int option"
  publish_timer :: bool
  decision_timeout_timer :: bool
  shutdown_timer :: bool
  client_running :: bool
  cl_published :: "pbft_message list"

definition init_client ::
    "string \<Rightarrow> int \<Rightarrow> nat \<Rightarrow> bool \<Rightarrow> string \<Rightarrow> real \<Rightarrow> real \<Rightarrow> py_error + pbft_client" where
  "init_client fresh primary view stop configured publish_delay_sec decision_timeout_sec =
     (let request_id = (if configured \<noteq> '''' then configured else ''estop-'' @ fresh) in
      raise_if (publish_delay_sec < 0) ValueError (
      raise_if (decision_timeout_sec \<le> 0) ValueError (
      Inr \<lparr>cl_primary_id = primary, cl_current_view = view, cl_emergency_stop = stop,
           cl_request_id = request_id,
           cl_request_digest = compute_request_digest request_id stop,
           request_sent = False, decision_received = False, request_sent_time = None,
           publish_timer = True, decision_timeout_timer = False, shutdown_timer = False,
           client_running = True, cl_published = []\<rparr>)))"

definition client_request :: "pbft_client \<Rightarrow> pbft_message" where
  "client_request s =
     \<lparr>m_type = REQUEST, m_sender = -1, m_recipient = cl_primary_id s, m_view = cl_current_view s,
      m_seq = 0, m_request_id = cl_request_id s, m_digest = cl_request_digest s,
      m_stop = cl_emergency_stop s\<rparr>"

definition publish_request :: "int \<Rightarrow> pbft_client \<Rightarrow> pbft_client" where
  "publish_request now s =
     (if request_sent s then s
      else s\<lparr>request_sent := True, request_sent_time := Some now,
             cl_published := cl_published s @ [client_request s],
             publish_timer := False, decision_timeout_timer := True\<rparr>)"

definition schedule_shutdown :: "pbft_client \<Rightarrow> pbft_client" where
  "schedule_shutdown s = (if shutdown_timer s then s else s\<lparr>shutdown_timer := True\<rparr>)"

definition client_accepts :: "pbft_decision \<Rightarrow> pbft_client \<Rightarrow> bool" where
  "client_accepts d s =
     (\<not> decision_received s \<and> request_sent s \<and> pd_request_id d = cl_request_id s \<and>
      (case request_sent_time s of None \<Rightarrow> True | Some t \<Rightarrow> \<not> pd_stamp d < t) \<and>
      pd_committed d \<and> pd_seq d \<noteq> 0 \<and> pd_digest d = cl_request_digest s \<and>
      pd_stop d = cl_emergency_stop s \<and>
      card (set (pd_confirming_replicas d)) = length (pd_confirming_replicas d) \<and>
      pd_confirmation_count d = card (set (pd_confirming_replicas d)) \<and>
      0 < pd_required_confirmations d \<and>
      pd_required_confirmations d \<le> int (pd_confirmation_count d))"

definition client_decision_callback :: "pbft_decision \<Rightarrow> pbft_client \<Rightarrow> pbft_client" where
  "client_decision_callback d s =
     (if \<not> client_accepts d s then s
      else schedule_shutdown (s\<lparr>decision_received := True, decision_timeout_timer := False\<rparr>))"

definition client_timeout_callback :: "pbft_client \<Rightarrow> pbft_client" where
  "client_timeout_callback s =
     (if decision_received s then s
      else schedule_shutdown (s\<lparr>decision_timeout_timer := False\<rparr>))"

definition stop_client :: "pbft_client \<Rightarrow> pbft_client" where
  "stop_client s = s\<lparr>client_running := False\<rparr>"

datatype client_event = Cl_publish int | Cl_decision pbft_decision | Cl_timeout | Cl_shutdown

fun client_step :: "client_event \<Rightarrow> pbft_client \<Rightarrow> py_error + pbft_client" where
  "client_step (Cl_publish now) s = Inr (if publish_timer s then publish_request now s else s)"
| "client_step (Cl_decision d) s = Inr (client_decision_callback d s)"
| "client_step Cl_timeout s =
     Inr (if decision_timeout_timer s then client_timeout_callback s else s)"
| "client_step Cl_shutdown s = Inr (if shutdown_timer s then stop_client s else s)"

section \<open>The client invariant\<close>

definition client_inv :: "pbft_client \<Rightarrow> bool" where
  "client_inv s =
     (cl_request_id s \<noteq> '''' \<and>
      cl_request_digest s = compute_request_digest (cl_request_id s) (cl_emergency_stop s) \<and>
      cl_published s = (if request_sent s then [client_request s] else []) \<and>
      (decision_received s \<longrightarrow> request_sent s \<and> shutdown_timer s) \<and>
      (request_sent s \<longleftrightarrow> request_sent_time s \<noteq> None) \<and>
      (publish_timer s \<longleftrightarrow> \<not> request_sent s) \<and>
      (request_sent s \<longrightarrow> decision_timeout_timer s \<or> shutdown_timer s) \<and>
      (\<not> client_running s \<longrightarrow> shutdown_timer s))"

lemmas client_defs = publish_request_def client_decision_callback_def client_timeout_callback_def
  stop_client_def schedule_shutdown_def client_request_def

lemma client_step_keeps: "client_inv s \<Longrightarrow> \<exists>s'. client_step e s = Inr s' \<and> client_inv s'"
  by (cases e) (auto simp: client_inv_def client_defs client_accepts_def)

interpretation client: machine client_step client_inv
  by unfold_locales (rule client_step_keeps)

lemma client_init_inv:
  "init_client fresh p v stop cfg pd dt = Inr s \<Longrightarrow> client_inv s"
  by (auto simp: init_client_def client_inv_def Let_def split: if_splits)

lemma client_config:
  "client_step e s = Inr s' \<Longrightarrow> cl_primary_id s' = cl_primary_id s \<and> cl_emergency_stop s' = cl_emergency_stop s \<and>
    cl_current_view s' = cl_current_view s"
  by (cases e) (auto simp: client_defs split: if_splits)

lemma client_run_config:
  "foldE client_step es s = Inr s' \<Longrightarrow> cl_primary_id s' = cl_primary_id s \<and>
    cl_emergency_stop s' = cl_emergency_stop s \<and> cl_current_view s' = cl_current_view s"
  by (induction es arbitrary: s) (auto simp: bindE_eq_Inr dest: client_config)

end
