(* ===== verification/PBFT_End_To_End.thy ===== *)
theory PBFT_End_To_End
  imports PBFT_Properties PBFT_Supervisor PBFT_Client
begin

text \<open>
  The monitor reading the status topic of a system of replicas: runs of the monitor, what a
  status on the network says about its sender, and the correct replicas behind every published
  decision. A concrete run of the monitor serves the witnesses.
\<close>

section \<open>The monitor\<close>

abbreviation delivered_statuses :: "monitor_event list \<Rightarrow> replica_status \<Rightarrow> bool" where
  "delivered_statuses es \<equiv> \<lambda>st. \<exists>now. Mon_status now st \<in> set es"

lemma monitor_run_inv:
  assumes "mon_inv ok s0" "foldE monitor_step es s0 = Inr s" "\<And>now st. Mon_status now st \<in> set es \<Longrightarrow> ok st"
  shows "mon_inv ok s"
proof -
  have "\<exists>s'. foldE monitor_step es s0 = Inr s' \<and> mon_inv ok s'"
  proof (rule foldE_inv[where P = "mon_inv ok", OF _ assms(1)])
    fix e s assume e: "e \<in> set es" and s: "mon_inv ok s"
    show "\<exists>s'. monitor_step e s = Inr s' \<and> mon_inv ok s'"
    proof (cases e)
      case (Mon_status now st)
      with e assms(3) have "ok st" by blast
      with s Mon_status show ?thesis by (simp add: status_callback_inv)
    qed (use s in \<open>simp add: protocol_message_inv\<close>)
  qed
  with assms(2) show ?thesis by auto
qed

lemma monitor_step_config:
  "monitor_step e s = Inr s' \<Longrightarrow>
    mon_replica_count s' = mon_replica_count s \<and> mon_max_faulty s' = mon_max_faulty s"
proof (cases e)
  case (Mon_status now st)
  have "mon_replica_count (fold (report_decision now) xs t) = mon_replica_count t"
    "mon_max_faulty (fold (report_decision now) xs t) = mon_max_faulty t" for xs t
    by (rule fold_keeps, case_tac x, simp)+
  with Mon_status show "monitor_step e s = Inr s' \<Longrightarrow> ?thesis"
    by (auto simp: status_callback_def Let_def check_consensus_def check_agreement_frame
        record_committed_status_def)
qed (auto simp: protocol_message_frame)

lemma monitor_run_config:
  "foldE monitor_step es s0 = Inr s \<Longrightarrow>
    mon_replica_count s = mon_replica_count s0 \<and> mon_max_faulty s = mon_max_faulty s0"
  by (induction es arbitrary: s0) (auto simp: bindE_eq_Inr dest: monitor_step_config)

lemma init_monitor_config:
  "init_monitor n f = Inr s \<Longrightarrow> mon_replica_count s = n \<and> mon_max_faulty s = f \<and> 0 \<le> f \<and> n = 3 * f + 1"
  by (auto simp: init_monitor_def bindE_eq_Inr mon_validate_configuration_def)

lemma monitor_decision_sound:
  assumes "init_monitor n f = Inr s0" "foldE monitor_step es s0 = Inr s"
  shows "(\<forall>d \<in> set (decisions s). quorum_decision (delivered_statuses es) n f d) \<and>
    distinct (map decision_key_of (decisions s))"
proof -
  have "mon_inv (delivered_statuses es) s"
    using monitor_init_inv[OF assms(1)] assms(2) by (rule monitor_run_inv) auto
  then show ?thesis
    using monitor_run_config[OF assms(2)] init_monitor_config[OF assms(1)] unfolding mon_inv_def by auto
qed

lemma quorum_decision_counts:
  assumes "quorum_decision ok n f d"
  shows "card (set (pd_confirming_replicas d)) = length (pd_confirming_replicas d)"
    "pd_confirmation_count d = card (set (pd_confirming_replicas d))"
  using assms by (simp_all add: quorum_decision_def distinct_card)

definition demo_events :: "monitor_event list" where
  "demo_events = map (\<lambda>i. Mon_status 5 (demo_status i)) [1, 2, 3]"

definition demo_monitor :: pbft_monitor where
  "demo_monitor =
     \<lparr>mon_replica_count = 4, mon_max_faulty = 1, latest_status = [], committed_observations = [],
      committed_payloads_by_instance = [], reported_consensus = {}, reported_agreement_violations = {},
      protocol_observations = [], reported_equivocations = {}, mon_outputs = []\<rparr>"

lemma demo_monitor_init: "init_monitor 4 1 = Inr demo_monitor"
  by (simp add: init_monitor_def mon_validate_configuration_def demo_monitor_def)

lemma demo_monitor_run:
  "\<exists>s d. foldE monitor_step demo_events demo_monitor = Inr s \<and> decisions s = [d] \<and>
    decision_key_of d = (0, 1, ''r'', compute_request_digest ''r'' True, True)"
  by (simp add: decision_key_of_def demo_events_def demo_monitor_def demo_status_def status_callback_def
      record_committed_status_def status_decision_def dict_add_def dict_add2_def check_agreement_def
      check_consensus_def mon_output_def decision_message_def mon_commit_threshold_def decisions_def
      map_filter_def Let_def)

definition decision_instance :: "pbft_decision \<Rightarrow> pbft_instance" where
  "decision_instance d =
     \<lparr>i_request_id = pd_request_id d, i_request_digest = pd_digest d, i_emergency_stop = pd_stop d\<rparr>"

text \<open>A status of a correct replica on the network is true of the replica ever after.\<close>

lemma status_on_network:
  assumes "system_inv f H c" "Pub_status st \<in> network c" "st_node_id st \<in> H" "st_committed st"
  shows "(st_view st, st_seq st) \<in> committed_instances (replica_at c (st_node_id st)) \<and>
    instances (replica_at c (st_node_id st)) (st_view st, st_seq st) = Some (status_instance st)"
proof -
  have "Pub_status st \<in> set (published (replica_at c (st_node_id st)))"
    using assms by (auto simp: system_inv_def)
  then show ?thesis
    using system_replica(5)[OF assms(1,3)] assms(4) by (simp add: inv_published_def)
qed

text \<open>The monitor is given only statuses that are on the network.\<close>

definition reads_network :: "monitor_event list \<Rightarrow> pbft_system \<Rightarrow> bool" where
  "reads_network es c = (\<forall>now st. Mon_status now st \<in> set es \<longrightarrow> Pub_status st \<in> network c)"

lemma decision_backed:
  assumes "system_inv f H c" "init_monitor (3 * int f + 1) (int f) = Inr m0"
    and "foldE monitor_step es m0 = Inr mon" "d \<in> set (decisions mon)"
    and net: "reads_network es c"
  shows "\<exists>Q \<subseteq> H. f + 1 \<le> card Q \<and> (\<forall>q \<in> Q. (pd_view d, pd_seq d) \<in> committed_instances (replica_at c q) \<and>
     instances (replica_at c q) (pd_view d, pd_seq d) = Some (decision_instance d))"
proof -
  have q: "quorum_decision (delivered_statuses es) (3 * int f + 1) (int f) d"
    using monitor_decision_sound[OF assms(2,3)] assms(4) by blast
  let ?S = "set (pd_confirming_replicas d)" and ?U = "{0..<3 * int f + 1}"
  have S: "?S \<subseteq> ?U" "2 * f + 1 \<le> card ?S"
    using q quorum_decision_counts[OF q] by (auto simp: quorum_decision_def)
  have H: "H \<subseteq> ?U" "2 * f + 1 \<le> card H" using assms(1) by (auto simp: system_inv_def)
  have "f + 1 \<le> card (?S \<inter> H)" using card_Int_ge[of ?U ?S H] S H by simp
  moreover have "(pd_view d, pd_seq d) \<in> committed_instances (replica_at c i) \<and>
      instances (replica_at c i) (pd_view d, pd_seq d) = Some (decision_instance d)" if "i \<in> ?S \<inter> H" for i
  proof -
    have "supports (delivered_statuses es) (decision_key_of d) i"
      using q that by (simp add: quorum_decision_def)
    then obtain now st where "Mon_status now st \<in> set es" "st_node_id st = i" "st_committed st"
      "status_decision st = decision_key_of d"
      unfolding supports_def by blast
    then show ?thesis
      using status_on_network[OF assms(1), of st] net that unfolding reads_network_def
      by (auto simp: status_decision_def decision_key_of_def status_instance_def decision_instance_def)
  qed
  ultimately show ?thesis by blast
qed

section \<open>Properties of the monitor\<close>

text \<open>C13. The monitor publishes only quorum decisions: in every run, each published decision is marked
  committed, lists in increasing order at least \<open>2 f + 1\<close> different replica ids with the right counts,
  each of which really reported exactly that decision as committed in a delivered status without the
  Byzantine flag; and no decision is published twice.\<close>

theorem monitor_publishes_quorums:
  assumes "init_monitor n f = Inr s0" "foldE monitor_step es s0 = Inr s"
  shows "(\<forall>d \<in> set (decisions s). quorum_decision (delivered_statuses es) n f d) \<and>
    distinct (map decision_key_of (decisions s))"
  using assms by (rule monitor_decision_sound)

theorem monitor_publishes_quorums_witness:
  "\<exists>s d. foldE monitor_step demo_events demo_monitor = Inr s \<and> decisions s = [d] \<and>
    quorum_decision (delivered_statuses demo_events) 4 1 d"
proof -
  obtain s d where s: "foldE monitor_step demo_events demo_monitor = Inr s" "decisions s = [d]"
    using demo_monitor_run by blast
  from monitor_publishes_quorums[OF demo_monitor_init s(1)] s show ?thesis by auto
qed

text \<open>C14. Equivocation detection is exact: the monitor reports a sender, phase, view and sequence number
  as equivocating if and only if it was given two PREPARE (or two COMMIT) messages with them that differ
  in request id, digest or value.\<close>

theorem equivocation_detection_exact:
  assumes "init_monitor n f = Inr s0" "foldE monitor_step es s0 = Inr s"
  shows "Out_equivocation key \<in> set (mon_outputs s) \<longleftrightarrow>
    (\<exists>m m'. m \<in> votes_seen es \<and> m' \<in> votes_seen es \<and> vote_key m = key \<and> vote_key m' = key \<and>
       vote_payload m \<noteq> vote_payload m')"
proof -
  have inv: "equivocation_inv es s" using assms by (rule equivocation_run)
  let ?P = "vote_payload ` {m \<in> votes_seen es. vote_key m = key}"
  have d: "distinct (map fst (observed key s))" and P: "set (map fst (observed key s)) = ?P"
    using inv by (simp_all add: equivocation_inv_def)
  then have "length (observed key s) = card ?P" by (metis distinct_card length_map)
  moreover have "Out_equivocation key \<in> set (mon_outputs s) \<longleftrightarrow> 1 < length (observed key s)"
    using inv unfolding equivocation_inv_def by blast
  moreover have "finite ?P" unfolding P[symmetric] by simp
  then have "\<not> card ?P \<le> Suc 0 \<longleftrightarrow> (\<exists>p \<in> ?P. \<exists>p' \<in> ?P. p \<noteq> p')"
    unfolding card_le_Suc0_iff_eq[OF \<open>finite ?P\<close>] by blast
  then have "1 < card ?P \<longleftrightarrow> (\<exists>p \<in> ?P. \<exists>p' \<in> ?P. p \<noteq> p')" by linarith
  moreover have "(\<exists>p \<in> ?P. \<exists>p' \<in> ?P. p \<noteq> p') \<longleftrightarrow>
      (\<exists>m m'. m \<in> votes_seen es \<and> m' \<in> votes_seen es \<and> vote_key m = key \<and> vote_key m' = key \<and>
         vote_payload m \<noteq> vote_payload m')"
    by blast
  ultimately show ?thesis by simp
qed

theorem equivocation_detection_exact_witness:
  "\<exists>s. foldE monitor_step [Mon_message (demo_message PREPARE 3),
      Mon_message ((demo_message PREPARE 3)\<lparr>m_request_id := ''q''\<rparr>)] demo_monitor = Inr s \<and>
    Out_equivocation (PREPARE, 3, 0, 1) \<in> set (mon_outputs s)"
proof -
  let ?es = "[Mon_message (demo_message PREPARE 3),
      Mon_message ((demo_message PREPARE 3)\<lparr>m_request_id := ''q''\<rparr>)]"
  obtain s where s: "foldE monitor_step ?es demo_monitor = Inr s" by simp
  have "Out_equivocation (PREPARE, 3, 0, 1) \<in> set (mon_outputs s)"
    unfolding equivocation_detection_exact[OF demo_monitor_init s]
    by (rule exI[of _ "demo_message PREPARE 3"],
        rule exI[of _ "(demo_message PREPARE 3)\<lparr>m_request_id := ''q''\<rparr>"])
      (simp add: votes_seen_def vote_key_def vote_payload_def demo_message_def)
  with s show ?thesis by blast
qed

end
