(* ===== verification/PL_Launch.thy ===== *)
theory PL_Launch
  imports CN_Value PBFT_Types
begin

text \<open>
  The launch file of the configurable demonstration (\<^verbatim>\<open>launch/pbft_custom_demo.launch.py\<close>): the launch arguments, which are texts,
  become the parameters of the nodes that are started. The text of an argument is the one given on the command line, or its
  default. Messages for the log are left out, except which of the two statements about the fault bound is made.
\<close>

section \<open>Arguments\<close>

definition LAUNCH_ARGUMENTS :: "(string \<times> string) list" where
  "LAUNCH_ARGUMENTS =
    [(''replica_count'', ''4''), (''max_faulty'', ''1''), (''initial_view'', ''0''), (''faulty_nodes'', ''none''), (''faulty_behaviors'', ''none''),
     (''progress_timeout_nodes'', ''none''), (''progress_timeout_sec'', ''3.0''), (''prepare_delay_sec'', ''4.0''), (''commit_delay_sec'', ''4.0''),
     (''duplicate_message_count'', ''3''), (''new_view_pre_prepare_delay_sec'', ''0.5''), (''status_publish_period_sec'', ''1.0''),
     (''protocol_qos_depth'', ''20''), (''status_qos_depth'', ''1''), (''manual_view_change_node'', ''none''),
     (''manual_view_change_target'', ''1''), (''manual_view_change_delay_sec'', ''2.0''), (''start_monitor'', ''true''),
     (''start_supervisor'', ''true''), (''start_client'', ''true''), (''decision_timeout_sec'', ''10.0''), (''heartbeat_period_sec'', ''0.5''),
     (''allow_confirmed_release'', ''false''), (''emergency_stop'', ''true''), (''request_id'', ''custom-demo''),
     (''client_start_delay_sec'', ''1.0''), (''client_publish_delay_sec'', ''0.8''), (''client_decision_timeout_sec'', ''20.0'')]"

definition launch_text :: "(string \<times> string) list \<Rightarrow> string \<Rightarrow> string" where
  "launch_text args name = py_strip (case map_of args name of Some v \<Rightarrow> v
     | None \<Rightarrow> (case map_of LAUNCH_ARGUMENTS name of Some v \<Rightarrow> v | None \<Rightarrow> []))"

definition as_bool :: "string \<Rightarrow> py_error + bool" where
  "as_bool value =
    (let normalized = py_lower (py_strip value) in
     if normalized \<in> set [''1'', ''true'', ''yes'', ''on''] then Inr True
     else if normalized \<in> set [''0'', ''false'', ''no'', ''off''] then Inr False
     else Inl RuntimeError)"

definition as_int :: "string \<Rightarrow> py_error + int" where
  "as_int value = (case int_of_text value of None \<Rightarrow> Inl RuntimeError | Some i \<Rightarrow> Inr i)"

definition as_float :: "py_floats \<Rightarrow> string \<Rightarrow> py_error + real" where
  "as_float F value = (case fl_parse F value of None \<Rightarrow> Inl RuntimeError | Some x \<Rightarrow> Inr x)"

fun split_commas :: "string \<Rightarrow> string list" where
  "split_commas [] = [[]]"
| "split_commas (c # s) = (if c = CHR '','' then [] # split_commas s
     else (case split_commas s of [] \<Rightarrow> [[c]] | p # ps \<Rightarrow> (c # p) # ps))"

definition parse_int_list :: "string \<Rightarrow> py_error + int list" where
  "parse_int_list value =
    (if value = [] \<or> py_lower value = ''none'' then Inr []
     else mapE as_int (filter (\<lambda>token. token \<noteq> []) (map py_strip (split_commas value))))"

section \<open>Faults and watchdogs\<close>

definition LAUNCH_BEHAVIORS :: "string list" where
  "LAUNCH_BEHAVIORS = [''none'', ''silent'', ''bad_digest'', ''duplicate'', ''equivocation'', ''skip_prepare'', ''skip_commit'',
     ''delayed_prepare'', ''delayed_commit'', ''early_commit'', ''wrong_sequence'', ''wrong_view'', ''wrong_value'', ''invalid_sender'',
     ''skip_pre_prepare'']"

definition parse_behaviors :: "string \<Rightarrow> nat \<Rightarrow> string list" where
  "parse_behaviors value k =
    (let behaviors = filter (\<lambda>token. token \<noteq> []) (map (\<lambda>token. py_lower (py_strip token)) (split_commas value)) in
     if length behaviors = 1 \<and> 1 < k then concat (replicate k behaviors) else behaviors)"

definition parse_fault_map :: "string \<Rightarrow> string \<Rightarrow> int \<Rightarrow> py_error + (int \<times> string) list" where
  "parse_fault_map nodes_text behaviors_text n =
    bindE (parse_int_list nodes_text) (\<lambda>faulty_nodes.
    raise_if (\<not> distinct faulty_nodes) RuntimeError
    (raise_if (\<exists>i \<in> set faulty_nodes. \<not> (0 \<le> i \<and> i < n)) RuntimeError
    (if faulty_nodes = [] then Inr []
     else
       let behaviors = parse_behaviors behaviors_text (length faulty_nodes) in
       raise_if (length behaviors \<noteq> length faulty_nodes) RuntimeError
       (raise_if (\<not> set behaviors \<subseteq> set LAUNCH_BEHAVIORS) RuntimeError (Inr (zip faulty_nodes behaviors))))))"

definition progress_timeout_nodes :: "string \<Rightarrow> int \<Rightarrow> int \<Rightarrow> int set \<Rightarrow> py_error + int set" where
  "progress_timeout_nodes spec n primary faulty =
    (let normalized = py_lower (py_strip spec) in
     if normalized = [] \<or> normalized = ''none'' then Inr {}
     else if normalized = ''all'' then Inr {0..<n}
     else if normalized = ''backups'' then Inr ({0..<n} - {primary})
     else if normalized = ''correct'' then Inr ({0..<n} - faulty)
     else if normalized = ''faulty'' then Inr faulty
     else bindE (parse_int_list spec) (\<lambda>nodes.
       raise_if (\<exists>i \<in> set nodes. \<not> (0 \<le> i \<and> i < n)) RuntimeError (Inr (set nodes))))"

section \<open>Setup\<close>

record launch_config =
  lc_replica_count :: int
  lc_max_faulty :: int
  lc_initial_view :: int
  lc_fault_map :: "(int \<times> string) list"
  lc_progress_nodes :: "int set"
  lc_progress_timeout_sec :: real
  lc_prepare_delay_sec :: real
  lc_commit_delay_sec :: real
  lc_duplicate_message_count :: int
  lc_new_view_pre_prepare_delay_sec :: real
  lc_status_publish_period_sec :: real
  lc_protocol_qos_depth :: int
  lc_status_qos_depth :: int
  lc_manual_node :: int
  lc_manual_target :: int
  lc_manual_delay :: real
  lc_start_monitor :: bool
  lc_start_supervisor :: bool
  lc_start_client :: bool
  lc_decision_timeout_sec :: real
  lc_heartbeat_period_sec :: real
  lc_allow_confirmed_release :: bool
  lc_emergency_stop :: bool
  lc_request_id :: string
  lc_client_start_delay_sec :: real
  lc_client_publish_delay_sec :: real
  lc_client_decision_timeout_sec :: real

definition lc_primary_id :: "launch_config \<Rightarrow> int" where
  "lc_primary_id c = lc_initial_view c mod lc_replica_count c"

text \<open>The part of \<^verbatim>\<open>_launch_setup\<close> that reads the arguments, in its order.\<close>

definition manual_node_of :: "string \<Rightarrow> py_error + int" where
  "manual_node_of value = (if py_lower value \<in> set [[], ''none'', ''-1''] then Inr (-1) else as_int value)"

definition read_launch :: "py_floats \<Rightarrow> (string \<times> string) list \<Rightarrow> py_error + launch_config" where
  "read_launch F args =
    (let int_arg = (\<lambda>k. as_int (launch_text args k)); float_arg = (\<lambda>k. as_float F (launch_text args k));
         bool_arg = (\<lambda>k. as_bool (launch_text args k)) in
     bindE (int_arg ''replica_count'') (\<lambda>n.
     bindE (int_arg ''max_faulty'') (\<lambda>f.
     bindE (int_arg ''initial_view'') (\<lambda>view.
     raise_if (f < 0) RuntimeError
     (raise_if (n \<noteq> 3 * f + 1) RuntimeError
     (raise_if (view < 0) RuntimeError
     (bindE (parse_fault_map (launch_text args ''faulty_nodes'') (launch_text args ''faulty_behaviors'') n) (\<lambda>fault_map.
     bindE (progress_timeout_nodes (launch_text args ''progress_timeout_nodes'') n (view mod n) (fst ` set fault_map)) (\<lambda>progress.
     bindE (float_arg ''progress_timeout_sec'') (\<lambda>progress_timeout.
     bindE (float_arg ''prepare_delay_sec'') (\<lambda>prepare_delay.
     bindE (float_arg ''commit_delay_sec'') (\<lambda>commit_delay.
     bindE (int_arg ''duplicate_message_count'') (\<lambda>duplicates.
     bindE (float_arg ''new_view_pre_prepare_delay_sec'') (\<lambda>new_view_delay.
     bindE (float_arg ''status_publish_period_sec'') (\<lambda>status_period.
     bindE (int_arg ''protocol_qos_depth'') (\<lambda>protocol_depth.
     bindE (int_arg ''status_qos_depth'') (\<lambda>status_depth.
     bindE (manual_node_of (launch_text args ''manual_view_change_node'')) (\<lambda>manual_node.
     bindE (int_arg ''manual_view_change_target'') (\<lambda>manual_target.
     bindE (float_arg ''manual_view_change_delay_sec'') (\<lambda>manual_delay.
     raise_if (n \<le> manual_node) RuntimeError
     (bindE (bool_arg ''start_monitor'') (\<lambda>monitor.
     bindE (bool_arg ''start_supervisor'') (\<lambda>supervisor.
     bindE (bool_arg ''start_client'') (\<lambda>client.
     bindE (float_arg ''decision_timeout_sec'') (\<lambda>decision_timeout.
     bindE (float_arg ''heartbeat_period_sec'') (\<lambda>heartbeat.
     bindE (bool_arg ''allow_confirmed_release'') (\<lambda>release.
     bindE (bool_arg ''emergency_stop'') (\<lambda>stop.
     bindE (float_arg ''client_start_delay_sec'') (\<lambda>start_delay.
     bindE (float_arg ''client_publish_delay_sec'') (\<lambda>publish_delay.
     bindE (float_arg ''client_decision_timeout_sec'') (\<lambda>client_timeout.
     Inr \<lparr>lc_replica_count = n, lc_max_faulty = f, lc_initial_view = view, lc_fault_map = fault_map, lc_progress_nodes = progress,
       lc_progress_timeout_sec = progress_timeout, lc_prepare_delay_sec = prepare_delay, lc_commit_delay_sec = commit_delay,
       lc_duplicate_message_count = duplicates, lc_new_view_pre_prepare_delay_sec = new_view_delay, lc_status_publish_period_sec = status_period,
       lc_protocol_qos_depth = protocol_depth, lc_status_qos_depth = status_depth, lc_manual_node = manual_node, lc_manual_target = manual_target,
       lc_manual_delay = manual_delay, lc_start_monitor = monitor, lc_start_supervisor = supervisor, lc_start_client = client,
       lc_decision_timeout_sec = decision_timeout, lc_heartbeat_period_sec = heartbeat, lc_allow_confirmed_release = release,
       lc_emergency_stop = stop, lc_request_id = launch_text args ''request_id'', lc_client_start_delay_sec = start_delay,
       lc_client_publish_delay_sec = publish_delay, lc_client_decision_timeout_sec = client_timeout\<rparr>)))))))))))))))))))))))))))))))"

text \<open>The parameters of a replica; those that the launch file does not set have the defaults of the node.\<close>

definition replica_params :: "launch_config \<Rightarrow> int \<Rightarrow> pbft_params" where
  "replica_params c i =
    (let behavior = (case map_of (lc_fault_map c) i of None \<Rightarrow> ''none'' | Some b \<Rightarrow> b); manual = (i = lc_manual_node c) in
     \<lparr>node_id = i, configured_primary_id = lc_primary_id c, initial_view = lc_initial_view c, replica_count = lc_replica_count c,
      max_faulty = lc_max_faulty c, is_byzantine = (behavior \<noteq> ''none''), byzantine_behavior = behavior,
      duplicate_message_count = lc_duplicate_message_count c, prepare_delay_sec = lc_prepare_delay_sec c,
      commit_delay_sec = lc_commit_delay_sec c, manual_view_change_target = (if manual then lc_manual_target c else -1),
      manual_view_change_delay_sec = (if manual then lc_manual_delay c else 2), enable_progress_timeout = (i \<in> lc_progress_nodes c),
      progress_timeout_sec = lc_progress_timeout_sec c, new_view_pre_prepare_delay_sec = lc_new_view_pre_prepare_delay_sec c,
      status_publish_period_sec = lc_status_publish_period_sec c, protocol_qos_depth = lc_protocol_qos_depth c,
      status_qos_depth = lc_status_qos_depth c\<rparr>)"

datatype launch_action =
    Log_within_bound bool
  | Start_replica pbft_params
  | Start_monitor int int
  | Start_supervisor int int real bool real
  | Start_client real int nat bool string real real

definition launch_actions :: "launch_config \<Rightarrow> launch_action list" where
  "launch_actions c =
    [Log_within_bound (int (length (lc_fault_map c)) \<le> lc_max_faulty c)] @
    map (Start_replica \<circ> replica_params c) [0..lc_replica_count c - 1] @
    (if lc_start_monitor c then [Start_monitor (lc_replica_count c) (lc_max_faulty c)] else []) @
    (if lc_start_supervisor c then [Start_supervisor (lc_replica_count c) (lc_max_faulty c) (lc_decision_timeout_sec c)
       (lc_allow_confirmed_release c) (lc_heartbeat_period_sec c)] else []) @
    (if lc_start_client c then [Start_client (lc_client_start_delay_sec c) (lc_primary_id c) (nat (lc_initial_view c)) (lc_emergency_stop c)
       (lc_request_id c) (lc_client_publish_delay_sec c) (lc_client_decision_timeout_sec c)] else [])"

definition launch_setup :: "py_floats \<Rightarrow> (string \<times> string) list \<Rightarrow> py_error + launch_action list" where
  "launch_setup F args = bindE (read_launch F args) (\<lambda>c. Inr (launch_actions c))"

end
