(* ===== verification/PL_Properties.thy ===== *)
theory PL_Properties
  imports PBFT_End_To_End PL_Launch
begin

text \<open>
  What the launch file of the configurable demonstration guarantees for the nodes it starts: the replicas that accept their numbers
  come up with the ids and the primary of one configuration, and within the fault bound those without an injected fault are a system
  of correct replicas in the sense of the agreement theorems.
\<close>

section \<open>What the launch file accepts\<close>

lemma fault_map_ok:
  assumes "parse_fault_map a b n = Inr m"
  shows "distinct (map fst m)" "\<forall>(i, x) \<in> set m. 0 \<le> i \<and> i < n \<and> x \<in> set LAUNCH_BEHAVIORS"
  using assms by (auto simp: parse_fault_map_def bindE_eq_Inr Let_def split: if_splits dest: set_zip_leftD set_zip_rightD)

lemma read_launch_ok:
  assumes "read_launch F args = Inr c"
  shows "0 \<le> lc_max_faulty c" "lc_replica_count c = 3 * lc_max_faulty c + 1" "0 \<le> lc_initial_view c"
    "parse_fault_map (launch_text args ''faulty_nodes'') (launch_text args ''faulty_behaviors'') (lc_replica_count c) = Inr (lc_fault_map c)"
  using assms unfolding read_launch_def Let_def bindE_eq_Inr raise_if_eq_Inr by auto

section \<open>Replicas that come up\<close>

text \<open>What a replica demands of the numbers among its parameters; the launch file only checks that they are numbers.\<close>

definition numbers_ok :: "pbft_params \<Rightarrow> bool" where
  "numbers_ok p \<longleftrightarrow> 0 < progress_timeout_sec p \<and> 2 \<le> duplicate_message_count p \<and> 0 \<le> prepare_delay_sec p \<and> 0 \<le> commit_delay_sec p \<and>
     0 < manual_view_change_delay_sec p \<and> (manual_view_change_target p = -1 \<or> initial_view p < manual_view_change_target p) \<and>
     0 < new_view_pre_prepare_delay_sec p \<and> 0 < status_publish_period_sec p \<and> 0 < protocol_qos_depth p \<and> 0 < status_qos_depth p"

lemma behaviors_normal: "b \<in> set LAUNCH_BEHAVIORS \<Longrightarrow> py_lower (py_strip b) = b \<and> b \<in> set allowed_behaviors"
  unfolding LAUNCH_BEHAVIORS_def allowed_behaviors_def
  by (simp only: set_simps insert_iff empty_iff simp_thms) (elim disjE; simp add: py_strip_def py_lower_def is_space_def lower_char_def)

definition launched :: "launch_config \<Rightarrow> bool" where
  "launched c \<longleftrightarrow> 0 \<le> lc_max_faulty c \<and> lc_replica_count c = 3 * lc_max_faulty c + 1 \<and> 0 \<le> lc_initial_view c \<and>
     distinct (map fst (lc_fault_map c)) \<and> (\<forall>(i, x) \<in> set (lc_fault_map c). 0 \<le> i \<and> i < lc_replica_count c \<and> x \<in> set LAUNCH_BEHAVIORS)"

lemma launched_read:
  assumes "read_launch F args = Inr c" shows "launched c"
  using read_launch_ok[OF assms] fault_map_ok[OF read_launch_ok(4)[OF assms]] unfolding launched_def by simp

lemma launched_params:
  "node_id (replica_params c i) = i" "max_faulty (replica_params c i) = lc_max_faulty c" "replica_count (replica_params c i) = lc_replica_count c"
  "initial_view (replica_params c i) = lc_initial_view c" "configured_primary_id (replica_params c i) = lc_primary_id c"
  "byzantine_behavior (replica_params c i) = (case map_of (lc_fault_map c) i of None \<Rightarrow> ''none'' | Some b \<Rightarrow> b)"
  "is_byzantine (replica_params c i) \<longleftrightarrow> byzantine_behavior (replica_params c i) \<noteq> ''none''"
  by (simp_all add: replica_params_def Let_def)

lemma launched_behavior:
  assumes "launched c" shows "byzantine_behavior (replica_params c i) \<in> set LAUNCH_BEHAVIORS"
proof (cases "map_of (lc_fault_map c) i")
  case None then show ?thesis by (simp add: launched_params LAUNCH_BEHAVIORS_def)
next
  case (Some b)
  then have "b \<in> set LAUNCH_BEHAVIORS" using assms map_of_SomeD[OF Some] unfolding launched_def by blast
  with Some show ?thesis by (simp add: launched_params)
qed

lemma launched_configuration:
  assumes "launched c" "0 \<le> i" "i < lc_replica_count c"
  shows "validate_configuration (replica_params c i) = Inr ()"
proof -
  have "lc_initial_view c mod lc_replica_count c < lc_replica_count c" using assms by simp
  moreover have "0 \<le> lc_max_faulty c" "lc_replica_count c = 3 * lc_max_faulty c + 1" "0 \<le> lc_initial_view c"
    using assms unfolding launched_def by blast+
  ultimately show ?thesis using assms(2,3)
    by (simp add: launched_params validate_configuration_def raise_if_def lc_primary_id_def primary_for_view_def)
qed

lemma launched_starts:
  assumes c: "launched c" and i: "0 \<le> i" "i < lc_replica_count c"
  shows "(\<exists>s. init_replica (replica_params c i) = Inr s) \<longleftrightarrow> numbers_ok (replica_params c i)"
proof -
  let ?p = "replica_params c i"
  note b = behaviors_normal[OF launched_behavior[OF c, of i]]
  have same: "?p\<lparr>byzantine_behavior := py_lower (py_strip (byzantine_behavior ?p))\<rparr> = ?p" using b by simp
  have num: "validate_parameters ?p = (if numbers_ok ?p then Inr () else Inl ValueError)"
    using b unfolding validate_parameters_def numbers_ok_def raise_if_def by simp
  have "(if is_byzantine ?p then ?p else ?p\<lparr>byzantine_behavior := ''none''\<rparr>) = ?p" by (simp add: replica_params_def Let_def)
  then show ?thesis unfolding init_replica_def same Let_def num by (simp add: launched_configuration[OF assms])
qed

section \<open>What is started\<close>

definition started_replicas :: "launch_action list \<Rightarrow> pbft_params list" where
  "started_replicas acts = List.map_filter (\<lambda>a. case a of Start_replica p \<Rightarrow> Some p | _ \<Rightarrow> None) acts"

lemma started_replicas_launch: "started_replicas (launch_actions c) = map (replica_params c) [0..lc_replica_count c - 1]"
  by (simp add: started_replicas_def launch_actions_def List.map_filter_def comp_def)

lemma launched_honest:
  assumes c: "launched c" and k: "int (length (lc_fault_map c)) \<le> lc_max_faulty c"
  shows "2 * nat (lc_max_faulty c) + 1 \<le> card {i \<in> {0..<lc_replica_count c}. \<not> is_byzantine (replica_params c i)}" (is "_ \<le> card ?H")
proof -
  let ?B = "fst ` set (lc_fault_map c)"
  have "{0..<lc_replica_count c} - ?B \<subseteq> ?H"
  proof
    fix i assume i: "i \<in> {0..<lc_replica_count c} - ?B"
    then have "map_of (lc_fault_map c) i = None" by (simp add: map_of_eq_None_iff)
    with i show "i \<in> ?H" by (simp add: launched_params)
  qed
  then have "card ({0..<lc_replica_count c} - ?B) \<le> card ?H" by (intro card_mono finite_subset[of ?H "{0..<lc_replica_count c}"]) auto
  moreover have "card ?B \<le> length (lc_fault_map c)" by (metis card_length length_map set_map)
  moreover have "card {0..<lc_replica_count c} - card ?B \<le> card ({0..<lc_replica_count c} - ?B)" by (rule diff_card_le_card_Diff) simp
  ultimately show ?thesis using c k unfolding launched_def by simp
qed

section \<open>Properties of the launch file\<close>

lemma start_system_exists:
  assumes "H \<subseteq> {0..<3 * int f + 1}" "2 * f + 1 \<le> card H"
    and "\<And>i. i \<in> H \<Longrightarrow> node_id (ps i) = i \<and> max_faulty (ps i) = int f \<and> \<not> is_byzantine (ps i) \<and> (\<exists>s. init_replica (ps i) = Inr s)"
  shows "\<exists>c0. start_system f H ps c0"
proof -
  define start where "start i = projr (init_replica (ps i))" for i
  have "init_replica (ps i) = Inr (start i)" if "i \<in> H" for i using assms(3)[OF that] by (auto simp: start_def)
  then have "start_system f H ps \<lparr>replica_at = start, network = (\<Union>i \<in> H. set (published (start i)))\<rparr>"
    using assms unfolding start_system_def by simp
  then show ?thesis by blast
qed

lemma launched_system:
  assumes c: "launched c" and k: "int (length (lc_fault_map c)) \<le> lc_max_faulty c"
    and num: "\<And>i. 0 \<le> i \<Longrightarrow> i < lc_replica_count c \<Longrightarrow> numbers_ok (replica_params c i)"
  shows "\<exists>c0. start_system (nat (lc_max_faulty c)) {i \<in> {0..<lc_replica_count c}. \<not> is_byzantine (replica_params c i)} (replica_params c) c0"
proof (rule start_system_exists)
  have n: "lc_replica_count c = 3 * int (nat (lc_max_faulty c)) + 1" "0 \<le> lc_max_faulty c" using c unfolding launched_def by auto
  then show "{i \<in> {0..<lc_replica_count c}. \<not> is_byzantine (replica_params c i)} \<subseteq> {0..<3 * int (nat (lc_max_faulty c)) + 1}" by auto
  show "node_id (replica_params c i) = i \<and> max_faulty (replica_params c i) = int (nat (lc_max_faulty c)) \<and> \<not> is_byzantine (replica_params c i) \<and>
      (\<exists>s. init_replica (replica_params c i) = Inr s)"
    if "i \<in> {i \<in> {0..<lc_replica_count c}. \<not> is_byzantine (replica_params c i)}" for i
    using that launched_starts[OF c, of i] num[of i] n(2) by (simp add: launched_params(1,2))
qed (rule launched_honest[OF c k])

definition launch_floats :: py_floats where
  "launch_floats = \<lparr>fl_str = (\<lambda>_. []), fl_parse = map_of [(''0.5'', 1 / 2), (''0.8'', 4 / 5), (''1.0'', 1), (''2.0'', 2), (''3.0'', 3),
     (''4.0'', 4), (''10.0'', 10), (''20.0'', 20)]\<rparr>"

text \<open>A replica id below \<open>-1\<close> for the manual view change is accepted and ignored, although the message of the check asks for
  \<open>-1\<close>, \<open>none\<close> or a valid id.\<close>

lemma negative_manual_node:
  "\<exists>c. read_launch launch_floats [(''manual_view_change_node'', ''-7'')] = Inr c \<and>
    (\<forall>i \<in> {0..<lc_replica_count c}. manual_view_change_target (replica_params c i) = -1)"
proof -
  have "case read_launch launch_floats [(''manual_view_change_node'', ''-7'')] of Inl _ \<Rightarrow> False | Inr c \<Rightarrow> lc_manual_node c = -7"
    by code_simp
  then show ?thesis by (auto simp: replica_params_def Let_def split: sum.splits)
qed

text \<open>C28. A demonstration that is launched within the fault bound is safe: when the launch file accepts its arguments, logs that
  the faults are within the bound, and gives every replica numbers that it accepts, then it starts exactly \<open>3 f + 1\<close> replicas with the
  ids from 0, each of which comes up (and so does the monitor, when it is started), and the replicas without an injected fault
  form a system that can start, and in which no two of them ever commit different requests at the same view and sequence number.\<close>

theorem launched_agreement:
  assumes "launch_setup F args = Inr acts" "Log_within_bound True \<in> set acts" "\<forall>p \<in> set (started_replicas acts). numbers_ok p"
  shows "\<exists>f ps H. started_replicas acts = map ps [0..3 * int f] \<and> H = {i \<in> {0..3 * int f}. \<not> is_byzantine (ps i)} \<and>
    (\<forall>i \<in> {0..3 * int f}. node_id (ps i) = i \<and> (\<exists>s. init_replica (ps i) = Inr s)) \<and>
    (\<forall>n b. Start_monitor n b \<in> set acts \<longrightarrow> (\<exists>m. init_monitor n b = Inr m)) \<and>
    (\<exists>c0. start_system f H ps c0) \<and>
    (\<forall>c0 c i j k. start_system f H ps c0 \<longrightarrow> (system_step H)\<^sup>*\<^sup>* c0 c \<longrightarrow> i \<in> H \<longrightarrow> j \<in> H \<longrightarrow>
       k \<in> committed_instances (replica_at c i) \<longrightarrow> k \<in> committed_instances (replica_at c j) \<longrightarrow>
       instances (replica_at c i) k = instances (replica_at c j) k)"
proof -
  obtain c where c: "launched c" and acts: "acts = launch_actions c"
    using assms(1) launched_read unfolding launch_setup_def by (auto simp: bindE_eq_Inr)
  let ?f = "nat (lc_max_faulty c)" and ?ps = "replica_params c"
  have n: "0 \<le> lc_max_faulty c" "lc_replica_count c = 3 * lc_max_faulty c + 1" using c unfolding launched_def by auto
  let ?H = "{i \<in> {0..3 * int ?f}. \<not> is_byzantine (?ps i)}"
  have H: "?H = {i \<in> {0..<lc_replica_count c}. \<not> is_byzantine (?ps i)}" using n by auto
  have k: "int (length (lc_fault_map c)) \<le> lc_max_faulty c" using assms(2) by (auto simp: acts launch_actions_def split: if_splits)
  have num: "numbers_ok (?ps i)" if "0 \<le> i" "i < lc_replica_count c" for i
    using assms(3) that by (simp add: acts started_replicas_launch)
  have 1: "started_replicas acts = map ?ps [0..3 * int ?f]" using n by (simp add: acts started_replicas_launch)
  have 2: "node_id (?ps i) = i \<and> (\<exists>s. init_replica (?ps i) = Inr s)" if "i \<in> {0..3 * int ?f}" for i
    using that n num[of i] launched_starts[OF c, of i] by (simp add: launched_params(1))
  have 3: "\<exists>m. init_monitor b d = Inr m" if "Start_monitor b d \<in> set acts" for b d
    using that n by (auto simp: acts launch_actions_def init_monitor_def mon_validate_configuration_def raise_if_def split: if_splits)
  have 4: "\<exists>c0. start_system ?f ?H ?ps c0" using launched_system[OF c k num] unfolding H .
  have 5: "instances (replica_at d i) k = instances (replica_at d j) k"
    if s: "start_system ?f ?H ?ps c0" "(system_step ?H)\<^sup>*\<^sup>* c0 d" and ij: "i \<in> ?H" "j \<in> ?H"
      "k \<in> committed_instances (replica_at d i)" "k \<in> committed_instances (replica_at d j)" for c0 d i j k
  proof -
    have inv: "system_inv ?f ?H d" using system_inv_reach[OF s(2) system_inv_start[OF s(1)]] .
    show ?thesis using committed_prepared[OF inv] prepared_agreement[OF inv ij(1,2)] ij by blast
  qed
  show ?thesis by (intro exI[of _ ?f] exI[of _ ?ps] exI[of _ ?H]) (use 1 2 3 4 5 in blast)
qed

definition launch_args :: "(string \<times> string) list" where
  "launch_args = [(''faulty_nodes'', ''3''), (''faulty_behaviors'', '' Equivocation '')]"

lemma launch_example:
  "\<exists>c. read_launch launch_floats launch_args = Inr c \<and> lc_replica_count c = 4 \<and> lc_max_faulty c = 1 \<and> lc_fault_map c = [(3, ''equivocation'')] \<and>
     (\<forall>i. numbers_ok (replica_params c i))"
proof -
  have "case read_launch launch_floats launch_args of Inl _ \<Rightarrow> False
    | Inr c \<Rightarrow> lc_replica_count c = 4 \<and> lc_max_faulty c = 1 \<and> lc_fault_map c = [(3, ''equivocation'')] \<and>
        0 < lc_progress_timeout_sec c \<and> 2 \<le> lc_duplicate_message_count c \<and> 0 \<le> lc_prepare_delay_sec c \<and> 0 \<le> lc_commit_delay_sec c \<and>
        0 < lc_manual_delay c \<and> lc_initial_view c < lc_manual_target c \<and> 0 < lc_new_view_pre_prepare_delay_sec c \<and>
        0 < lc_status_publish_period_sec c \<and> 0 < lc_protocol_qos_depth c \<and> 0 < lc_status_qos_depth c"
    by code_simp
  then show ?thesis by (auto simp: numbers_ok_def replica_params_def Let_def split: sum.splits)
qed

theorem launched_agreement_witness:
  "\<exists>acts f ps c0 H. launch_setup launch_floats launch_args = Inr acts \<and> Log_within_bound True \<in> set acts \<and>
    (\<forall>p \<in> set (started_replicas acts). numbers_ok p) \<and> length (started_replicas acts) = 4 \<and>
    started_replicas acts = map ps [0..3 * int f] \<and> start_system f H ps c0 \<and>
    (\<forall>c i j k. (system_step H)\<^sup>*\<^sup>* c0 c \<longrightarrow> i \<in> H \<longrightarrow> j \<in> H \<longrightarrow>
       k \<in> committed_instances (replica_at c i) \<longrightarrow> k \<in> committed_instances (replica_at c j) \<longrightarrow>
       instances (replica_at c i) k = instances (replica_at c j) k)"
proof -
  obtain c where c: "read_launch launch_floats launch_args = Inr c" "lc_replica_count c = 4" "lc_max_faulty c = 1"
    "lc_fault_map c = [(3, ''equivocation'')]" "\<And>i. numbers_ok (replica_params c i)" using launch_example by blast
  let ?acts = "launch_actions c"
  have 1: "launch_setup launch_floats launch_args = Inr ?acts" by (simp add: launch_setup_def c(1))
  have 2: "Log_within_bound True \<in> set ?acts" by (simp add: launch_actions_def c(3,4))
  have 3: "\<forall>p \<in> set (started_replicas ?acts). numbers_ok p" using c(5) by (auto simp: started_replicas_launch)
  have 4: "length (started_replicas ?acts) = 4" by (simp add: started_replicas_launch c(2))
  show ?thesis using launched_agreement[OF 1 2 3] 1 2 3 4 by blast
qed

end
