(* ===== verification/MG_Manager.thy ===== *)
theory MG_Manager
  imports CN_Config "HOL-Library.List_Lexorder" "HOL-Library.Char_ord"
begin

text \<open>
  The scenario manager of the test console (\<^verbatim>\<open>test_console/manager.py\<close>) and the reports it writes (\<^verbatim>\<open>test_console/reporting.py\<close>).
  The task of a suite runs in the event loop of the server and gives up control only while a scenario runs, so its steps are: the
  task begins, the processes of a scenario are spawned, the scenario is over. Between them the other coroutines may run. Arguments of a step
  stand for what the system answers: whether a process can be started or a file written, the result file of the evaluator, the clock.
  Starting the processes is one step, and so is the end of a run with the cleanup: what other coroutines do in the pauses of these steps does not
  depend on them and comes before or after. The error of a suite is the exception whose text the code stores.
\<close>

datatype mg_error = Py py_error | OSError

section \<open>Suites\<close>

datatype suite_status = QUEUED | RUNNING | COMPLETED | STOPPED_ON_FAILURE | CANCELLED | ERROR

record suite =
  su_suite_id :: string
  su_created_at :: string
  su_status :: suite_status
  su_scenario_ids :: "string list"
  su_repeat :: int
  su_stop_on_failure :: bool
  su_configuration :: jval
  su_derived :: jval
  su_warnings :: "string list"
  su_queue :: "string list"
  su_active_index :: "nat option"
  su_active_scenario :: "string option"
  su_active_snapshot :: jval
  su_live_log :: "(string \<times> string \<times> string) list"
  su_results :: "jval list"
  su_report_path :: string
  su_error :: "mg_error option"
  su_finished_at :: "string option"

section \<open>Reports\<close>

text \<open>\<^verbatim>\<open>html.escape\<close>, and the values that \<^verbatim>\<open>_render_html\<close> puts into the page; the markup around them is left out.\<close>

fun html_escape :: "string \<Rightarrow> string" where
  "html_escape [] = []"
| "html_escape (c # s) =
    (if c = CHR ''&'' then ''&amp;'' else if c = CHR ''<'' then ''&lt;'' else if c = CHR ''>'' then ''&gt;''
     else if c = CHR 0x22 then ''&quot;'' else if c = CHR 0x27 then ''&#x27;'' else [c]) @ html_escape s"

record report_row =
  rr_class :: string
  rr_status :: string
  rr_name :: string
  rr_duration :: real
  rr_domain :: string
  rr_assertions :: "(bool \<times> string \<times> string \<times> string) list"

record report =
  rp_suite_id :: string
  rp_executed :: nat
  rp_passed :: nat
  rp_failed :: nat
  rp_timed_out :: nat
  rp_rows :: "report_row list"

definition status_count :: "string \<Rightarrow> jval list \<Rightarrow> nat" where
  "status_count t results = length (filter (\<lambda>r. map_of (entries r) ''status'' = Some (JStr t)) results)"

definition assertion_row :: "py_floats \<Rightarrow> jval \<Rightarrow> py_error + bool \<times> string \<times> string \<times> string" where
  "assertion_row F a =
    bindE (jget a ''passed'' JNone) (\<lambda>passed.
    bindE (jget a ''label'' (JStr [])) (\<lambda>label.
    bindE (jget a ''actual'' JNone) (\<lambda>actual.
    bindE (jget a ''expected'' JNone) (\<lambda>expected.
    Inr (py_bool passed, html_escape (py_str F label), html_escape (py_str F actual), html_escape (py_str F expected))))))"

definition render_row :: "py_floats \<Rightarrow> jval \<Rightarrow> py_error + report_row" where
  "render_row F r =
    bindE (jget r ''status'' (JStr ''UNKNOWN'')) (\<lambda>status.
    bindE (jget r ''scenario_id'' (JStr [])) (\<lambda>i.
    bindE (jget r ''scenario_name'' i) (\<lambda>name.
    case status of
      JStr t \<Rightarrow>
        bindE (bindE (jget r ''duration_sec'' (JFloat 0)) (py_float F)) (\<lambda>duration.
        bindE (jget r ''ros_domain_id'' (JStr [])) (\<lambda>domain.
        bindE (bindE (bindE (jget r ''assertions'' (JList [])) py_list) (mapE (assertion_row F))) (\<lambda>rows.
        Inr \<lparr>rr_class = py_lower t, rr_status = html_escape t, rr_name = html_escape (py_str F name), rr_duration = duration,
             rr_domain = html_escape (py_str F domain), rr_assertions = rows\<rparr>)))
    | _ \<Rightarrow> Inl AttributeError)))"

definition render_html :: "py_floats \<Rightarrow> suite \<Rightarrow> py_error + report" where
  "render_html F s =
    bindE (mapE (render_row F) (su_results s)) (\<lambda>rows.
    Inr \<lparr>rp_suite_id = html_escape (su_suite_id s), rp_executed = length (su_results s), rp_passed = status_count ''PASS'' (su_results s),
         rp_failed = status_count ''FAIL'' (su_results s), rp_timed_out = status_count ''TIMEOUT'' (su_results s), rp_rows = rows\<rparr>)"

section \<open>The manager\<close>

datatype mg_event = Ev_suite_created suite | Ev_cancel_requested | Ev_suite suite | Ev_log "string \<times> string \<times> string" | Ev_snapshot jval

text \<open>Where the task of the last suite is: not started, in the scenario at an index of the queue (with the scenario, its ROS domain and,
  once all processes run, the time limit), ended, or ended by an exception.\<close>

datatype mg_task =
    No_task
  | Task_created string
  | Task_spawning string nat jval int
  | Task_watching string nat jval int real
  | Task_done
  | Task_failed

record mg_process =
  pr_suite :: string
  pr_index :: nat
  pr_name :: string
  pr_command :: "string list"

datatype mg_signal = SIGINT | SIGTERM | SIGKILL

record manager =
  mg_scenarios :: "(string \<times> jval) list"
  mg_root :: string
  mg_suites :: "(string \<times> suite) list"
  mg_active_suite_id :: "string option"
  mg_task :: mg_task
  mg_cancel_requested :: bool
  mg_subscribers :: "(nat \<times> mg_event list) list"
  mg_domain_counter :: int
  mg_dirs :: "string set"
  mg_reports :: "(string \<times> report) list"
  mg_processes :: "mg_process list"
  mg_signals :: "(mg_process \<times> mg_signal) list"

definition init_manager :: "py_floats \<Rightarrow> jval \<Rightarrow> string \<Rightarrow> string set \<Rightarrow> py_error + manager" where
  "init_manager F catalog results_root dirs =
    bindE (scenario_map F catalog) (\<lambda>scenarios.
    Inr \<lparr>mg_scenarios = scenarios, mg_root = results_root, mg_suites = [], mg_active_suite_id = None, mg_task = No_task,
         mg_cancel_requested = False, mg_subscribers = [], mg_domain_counter = 70, mg_dirs = insert results_root dirs, mg_reports = [],
         mg_processes = [], mg_signals = []\<rparr>)"

definition subscribe :: "nat \<Rightarrow> manager \<Rightarrow> manager" where
  "subscribe q m = m\<lparr>mg_subscribers := dict_set q [] (mg_subscribers m)\<rparr>"

definition unsubscribe :: "nat \<Rightarrow> manager \<Rightarrow> manager" where
  "unsubscribe q m = m\<lparr>mg_subscribers := filter (\<lambda>(k, _). k \<noteq> q) (mg_subscribers m)\<rparr>"

text \<open>A full queue loses its oldest event; taking one from a full queue does not raise, so no queue is found dead.\<close>

definition queue_put :: "mg_event \<Rightarrow> mg_event list \<Rightarrow> mg_event list" where
  "queue_put ev queue = (if length queue < 200 then queue @ [ev] else tl queue @ [ev])"

definition broadcast :: "mg_event \<Rightarrow> manager \<Rightarrow> manager" where
  "broadcast ev m = m\<lparr>mg_subscribers := map (\<lambda>(q, queue). (q, queue_put ev queue)) (mg_subscribers m)\<rparr>"

text \<open>\<^verbatim>\<open>await queue.get()\<close> in the web socket of a browser.\<close>

definition queue_get :: "nat \<Rightarrow> manager \<Rightarrow> manager" where
  "queue_get q m = m\<lparr>mg_subscribers := map (\<lambda>(k, queue). (k, if k = q then tl queue else queue)) (mg_subscribers m)\<rparr>"

definition list_suites :: "manager \<Rightarrow> suite list" where
  "list_suites m = rev (sort_key su_created_at (rev (map snd (mg_suites m))))"

definition get_suite :: "string \<Rightarrow> manager \<Rightarrow> suite option" where
  "get_suite suite_id m = map_of (mg_suites m) suite_id"

definition mg_running :: "manager \<Rightarrow> bool" where
  "mg_running m = (case mg_task m of No_task \<Rightarrow> False | Task_done \<Rightarrow> False | Task_failed \<Rightarrow> False | _ \<Rightarrow> True)"

definition suite_dir :: "manager \<Rightarrow> string \<Rightarrow> string" where
  "suite_dir m suite_id = mg_root m @ ''/'' @ suite_id"

definition incompatible :: "py_floats \<Rightarrow> manager \<Rightarrow> validation \<Rightarrow> string list \<Rightarrow> py_error + string list" where
  "incompatible F m v scenario_ids =
    foldE (\<lambda>i acc. case map_of (mg_scenarios m) i of
        None \<Rightarrow> Inl KeyError
      | Some scenario \<Rightarrow> bindE (scenario_compatibility F scenario v) (\<lambda>(compatible, _). Inr (if compatible then acc else acc @ [i])))
      scenario_ids []"

definition new_suite :: "string \<Rightarrow> string \<Rightarrow> string list \<Rightarrow> int \<Rightarrow> bool \<Rightarrow> validation \<Rightarrow> string \<Rightarrow> suite" where
  "new_suite suite_id created scenario_ids repeat stop v dir =
    \<lparr>su_suite_id = suite_id, su_created_at = created, su_status = QUEUED, su_scenario_ids = scenario_ids, su_repeat = repeat,
     su_stop_on_failure = stop, su_configuration = va_configuration v, su_derived = va_derived v, su_warnings = va_warnings v,
     su_queue = concat (replicate (nat repeat) scenario_ids), su_active_index = None, su_active_scenario = None, su_active_snapshot = JNone,
     su_live_log = [], su_results = [], su_report_path = dir @ ''/report.html'', su_error = None, su_finished_at = None\<rparr>"

definition start_suite ::
    "py_floats \<Rightarrow> string list \<Rightarrow> int \<Rightarrow> bool \<Rightarrow> (string \<times> jval) list \<Rightarrow> string \<Rightarrow> string \<Rightarrow> manager \<Rightarrow> mg_error + manager" where
  "start_suite F scenario_ids repeat stop config suite_id created m =
    raise_if (mg_running m) (Py RuntimeError)
    (raise_if (\<not> set scenario_ids \<subseteq> fst ` set (mg_scenarios m)) (Py ValueError)
    (raise_if (repeat < 1 \<or> 100 < repeat) (Py ValueError)
    (let v = con_validate_configuration F config in
     raise_if (\<not> va_valid v) (Py ValueError)
     (case incompatible F m v scenario_ids of
        Inl e \<Rightarrow> Inl (Py e)
      | Inr bad \<Rightarrow>
          raise_if (bad \<noteq> []) (Py ValueError)
          (let dir = suite_dir m suite_id; s = new_suite suite_id created scenario_ids repeat stop v dir in
           raise_if (dir \<in> mg_dirs m) OSError
           (Inr (broadcast (Ev_suite_created s)
             (m\<lparr>mg_dirs := insert dir (mg_dirs m), mg_suites := dict_set suite_id s (mg_suites m), mg_active_suite_id := Some suite_id,
                mg_cancel_requested := False, mg_task := Task_created suite_id\<rparr>))))))))"

definition cancel_active :: "manager \<Rightarrow> manager" where
  "cancel_active m = broadcast Ev_cancel_requested (m\<lparr>mg_cancel_requested := True\<rparr>)"

definition edit_suite :: "string \<Rightarrow> (suite \<Rightarrow> suite) \<Rightarrow> manager \<Rightarrow> manager" where
  "edit_suite suite_id f m = m\<lparr>mg_suites := map (\<lambda>(k, s). (k, if k = suite_id then f s else s)) (mg_suites m)\<rparr>"

definition publish_suite :: "string \<Rightarrow> manager \<Rightarrow> manager" where
  "publish_suite suite_id m = (case get_suite suite_id m of None \<Rightarrow> m | Some s \<Rightarrow> broadcast (Ev_suite s) m)"

text \<open>What the system answers during a step of the task: whether the directory of a run, its configuration of the cluster, its scenario
  file and the two reports of the step can be written, and the time at the end.\<close>

record task_env =
  te_run_dir_ok :: bool
  te_cluster_ok :: bool
  te_scenario_ok :: bool
  te_report_ok :: bool
  te_final_ok :: bool
  te_finished :: string

definition write_suite_report :: "py_floats \<Rightarrow> bool \<Rightarrow> string \<Rightarrow> manager \<Rightarrow> mg_error + manager" where
  "write_suite_report F ok suite_id m =
    (case get_suite suite_id m of
       None \<Rightarrow> Inl (Py KeyError)
     | Some s \<Rightarrow> raise_if (\<not> ok) OSError
         (case render_html F s of
            Inl e \<Rightarrow> Inl (Py e)
          | Inr r \<Rightarrow> Inr (m\<lparr>mg_reports := dict_set (suite_dir m suite_id) r (mg_reports m)\<rparr>)))"

section \<open>The task of a suite\<close>

text \<open>The \<^verbatim>\<open>finally\<close> block of \<^verbatim>\<open>_run_suite\<close>, and the two ways to it.\<close>

definition suite_finally :: "py_floats \<Rightarrow> task_env \<Rightarrow> string \<Rightarrow> manager \<Rightarrow> manager" where
  "suite_finally F env suite_id m =
    (let m1 = edit_suite suite_id (\<lambda>s. s\<lparr>su_active_scenario := None, su_active_snapshot := JNone, su_finished_at := Some (te_finished env)\<rparr>) m in
     case write_suite_report F (te_final_ok env) suite_id m1 of
       Inl _ \<Rightarrow> m1\<lparr>mg_task := Task_failed\<rparr>
     | Inr m2 \<Rightarrow> (publish_suite suite_id m2)\<lparr>mg_active_suite_id := None, mg_task := Task_done\<rparr>)"

definition suite_ends :: "py_floats \<Rightarrow> task_env \<Rightarrow> string \<Rightarrow> suite_status \<Rightarrow> manager \<Rightarrow> manager" where
  "suite_ends F env suite_id status m =
    suite_finally F env suite_id (edit_suite suite_id (\<lambda>s. s\<lparr>su_status := (if mg_cancel_requested m then CANCELLED else status)\<rparr>) m)"

definition suite_raises :: "py_floats \<Rightarrow> task_env \<Rightarrow> string \<Rightarrow> mg_error \<Rightarrow> manager \<Rightarrow> manager" where
  "suite_raises F env suite_id e m = suite_finally F env suite_id (edit_suite suite_id (\<lambda>s. s\<lparr>su_status := ERROR, su_error := Some e\<rparr>) m)"

definition next_domain :: "int \<Rightarrow> int" where
  "next_domain d = (if 220 < d + 1 then 70 else d + 1)"

definition pad3 :: "nat \<Rightarrow> string" where
  "pad3 n = (let t = int_str (int n) in replicate (3 - length t) CHR ''0'' @ t)"

definition run_dir :: "manager \<Rightarrow> string \<Rightarrow> nat \<Rightarrow> string \<Rightarrow> string" where
  "run_dir m suite_id index scenario_id = suite_dir m suite_id @ ''/'' @ pad3 (index + 1) @ ''_'' @ scenario_id"

text \<open>The part of \<^verbatim>\<open>_run_scenario\<close> before the first process, for the run at an index of the queue.\<close>

definition prepare_run :: "py_floats \<Rightarrow> task_env \<Rightarrow> string \<Rightarrow> nat \<Rightarrow> suite \<Rightarrow> string \<Rightarrow> jval \<Rightarrow> manager \<Rightarrow> manager" where
  "prepare_run F env suite_id index s scenario_id scenario m =
    (let dir = run_dir m suite_id index scenario_id in
     if dir \<in> mg_dirs m \<or> \<not> te_run_dir_ok env then suite_raises F env suite_id OSError m
     else
       let m1 = m\<lparr>mg_dirs := insert dir (mg_dirs m)\<rparr>; v = con_validate_configuration F (entries (su_configuration s)) in
       case materialize_scenario F scenario v (dir @ ''/cluster_config.yaml'') of
         Inl e \<Rightarrow> suite_raises F env suite_id (Py e) m1
       | Inr (runtime, cluster) \<Rightarrow>
           let m2 = m1\<lparr>mg_domain_counter := next_domain (mg_domain_counter m1)\<rparr> in
           if cluster \<noteq> None \<and> \<not> te_cluster_ok env then suite_raises F env suite_id OSError m1
           else if \<not> te_scenario_ok env then suite_raises F env suite_id OSError m2
           else m2\<lparr>mg_task := Task_spawning suite_id index runtime (mg_domain_counter m2)\<rparr>)"

text \<open>One turn of the loop over the queue, up to the first process of the scenario; past the end of the queue the loop is completed.\<close>

definition suite_turn :: "py_floats \<Rightarrow> task_env \<Rightarrow> string \<Rightarrow> nat \<Rightarrow> manager \<Rightarrow> manager" where
  "suite_turn F env suite_id index m =
    (case get_suite suite_id m of
       None \<Rightarrow> m
     | Some s \<Rightarrow>
         if length (su_queue s) \<le> index then suite_ends F env suite_id COMPLETED m
         else if mg_cancel_requested m then suite_ends F env suite_id CANCELLED m
         else
           let scenario_id = su_queue s ! index in
           case map_of (mg_scenarios m) scenario_id of
             None \<Rightarrow> suite_raises F env suite_id (Py KeyError) m
           | Some scenario \<Rightarrow>
               prepare_run F env suite_id index s scenario_id scenario
                 (publish_suite suite_id (edit_suite suite_id (\<lambda>s. s\<lparr>su_active_index := Some index, su_active_scenario := Some scenario_id,
                    su_active_snapshot := JNone, su_live_log := []\<rparr>) m)))"

definition task_begin :: "py_floats \<Rightarrow> task_env \<Rightarrow> manager \<Rightarrow> manager" where
  "task_begin F env m =
    (case mg_task m of
       Task_created suite_id \<Rightarrow>
         suite_turn F env suite_id 0 (publish_suite suite_id (edit_suite suite_id (\<lambda>s. s\<lparr>su_status := RUNNING\<rparr>) m))
     | _ \<Rightarrow> m)"

section \<open>The processes of a scenario\<close>

fun ros_parameter :: "py_floats \<Rightarrow> jval \<Rightarrow> string" where
  "ros_parameter F (JBool b) = (if b then ''true'' else ''false'')"
| "ros_parameter F v = py_str F v"

definition ros_run :: "string \<Rightarrow> string list" where
  "ros_run executable = [''ros2'', ''run'', ''pbft_emergency_stop_simulator'', executable, ''--ros-args'']"

text \<open>\<^verbatim>\<open>for key, value in d.items()\<close>; only a dictionary has items.\<close>

fun jitems :: "jval \<Rightarrow> py_error + (string \<times> jval) list" where
  "jitems (JDict d) = Inr d"
| "jitems _ = Inl AttributeError"

definition parameter_args :: "py_floats \<Rightarrow> jval \<Rightarrow> py_error + string list" where
  "parameter_args F config =
    bindE (bindE (jget config ''parameters'' (JDict [])) jitems) (\<lambda>kvs.
    Inr (concat (map (\<lambda>(k, v). [''-p'', k @ '':='' @ ros_parameter F v]) kvs)))"

definition evaluator_command :: "string \<Rightarrow> string list" where
  "evaluator_command dir = ros_run ''scenario_evaluator'' @
    [''-p'', ''scenario_file:='' @ dir @ ''/scenario.yaml'', ''-p'', ''result_file:='' @ dir @ ''/result.json'',
     ''-p'', ''snapshot_file:='' @ dir @ ''/snapshot.json'', ''-p'', ''event_file:='' @ dir @ ''/events.jsonl'']"

text \<open>The commands in the order in which they are computed and spawned; \<open>Inl\<close> where computing one raises, \<open>None\<close> for a process that the
  scenario does not want.\<close>

type_synonym spawn_stage = "py_error + (string \<times> string list) option"

definition supervisor_stage :: "py_floats \<Rightarrow> jval \<Rightarrow> spawn_stage" where
  "supervisor_stage F scenario =
    bindE (jget scenario ''supervisor'' (JDict [])) (\<lambda>config.
    bindE (jget config ''enabled'' (JBool True)) (\<lambda>enabled.
    if py_bool enabled then bindE (parameter_args F config) (\<lambda>args. Inr (Some (''safety_supervisor'', ros_run ''safety_supervisor'' @ args)))
    else Inr None))"

definition launch_stage :: "py_floats \<Rightarrow> jval \<Rightarrow> spawn_stage" where
  "launch_stage F scenario =
    bindE (jat scenario ''launch'') (\<lambda>launch.
    bindE (jat launch ''package'') (\<lambda>package.
    bindE (jat launch ''file'') (\<lambda>file.
    bindE (bindE (jget launch ''arguments'' (JDict [])) jitems) (\<lambda>kvs.
    Inr (Some (''launch'', [''ros2'', ''launch'', py_str F package, py_str F file] @ map (\<lambda>(k, v). k @ '':='' @ py_str F v) kvs))))))"

definition client_stage :: "py_floats \<Rightarrow> jval \<Rightarrow> spawn_stage" where
  "client_stage F scenario =
    bindE (jget scenario ''client'' (JDict [])) (\<lambda>client.
    bindE (jget client ''enabled'' (JBool False)) (\<lambda>enabled.
    if py_bool enabled then
      bindE (bindE (jget client ''start_delay_sec'' (JFloat (4 / 5))) (py_float F)) (\<lambda>_.
      bindE (parameter_args F client) (\<lambda>args. Inr (Some (''client'', ros_run ''client_node'' @ args))))
    else Inr None))"

definition spawn_stages :: "py_floats \<Rightarrow> string \<Rightarrow> jval \<Rightarrow> spawn_stage list" where
  "spawn_stages F dir scenario =
    [Inr (Some (''evaluator'', evaluator_command dir)), supervisor_stage F scenario, launch_stage F scenario, client_stage F scenario]"

fun spawn_all :: "spawn_stage list \<Rightarrow> bool list \<Rightarrow> (string \<times> string list) list \<times> mg_error option" where
  "spawn_all [] oks = ([], None)"
| "spawn_all (Inl e # stages) oks = ([], Some (Py e))"
| "spawn_all (Inr None # stages) oks = spawn_all stages oks"
| "spawn_all (Inr (Some c) # stages) [] = ([], Some OSError)"
| "spawn_all (Inr (Some c) # stages) (ok # oks) =
    (if ok then (let (ps, e) = spawn_all stages oks in (c # ps, e)) else ([], Some OSError))"

definition task_spawn :: "py_floats \<Rightarrow> bool list \<Rightarrow> task_env \<Rightarrow> manager \<Rightarrow> manager" where
  "task_spawn F oks env m =
    (case mg_task m of
       Task_spawning suite_id index scenario domain \<Rightarrow>
         let dir = run_dir m suite_id index (case get_suite suite_id m of None \<Rightarrow> [] | Some s \<Rightarrow> su_queue s ! index);
             (ps, failure) = spawn_all (spawn_stages F dir scenario) oks;
             m1 = m\<lparr>mg_processes := mg_processes m @
               map (\<lambda>(name, command). \<lparr>pr_suite = suite_id, pr_index = index, pr_name = name, pr_command = command\<rparr>) ps\<rparr> in
         (case failure of
            Some e \<Rightarrow> suite_raises F env suite_id e m1
          | None \<Rightarrow>
              (case bindE (jget scenario ''timeout_sec'' (JFloat 15)) (py_float F) of
                 Inl e \<Rightarrow> suite_raises F env suite_id (Py e) m1
               | Inr t \<Rightarrow> m1\<lparr>mg_task := Task_watching suite_id index scenario domain (t + 5)\<rparr>))
     | _ \<Rightarrow> m)"

text \<open>\<^verbatim>\<open>_cleanup_processes\<close>: in reverse order of their start all processes get an interrupt, those left a second later are terminated, and
  those left then are killed. \<open>withstands p\<close> is how many of these signals the process withstands, 0 when it has ended by itself.\<close>

definition cleanup_processes :: "(mg_process \<Rightarrow> nat) \<Rightarrow> mg_process list \<Rightarrow> (mg_process \<times> mg_signal) list" where
  "cleanup_processes withstands ps =
    map (\<lambda>p. (p, SIGINT)) (filter (\<lambda>p. 0 < withstands p) (rev ps)) @
    map (\<lambda>p. (p, SIGTERM)) (filter (\<lambda>p. 1 < withstands p) (rev ps)) @
    map (\<lambda>p. (p, SIGKILL)) (filter (\<lambda>p. 2 < withstands p) (rev ps))"

definition own_result :: "suite \<Rightarrow> jval \<Rightarrow> bool \<Rightarrow> int \<Rightarrow> real \<Rightarrow> py_error + jval" where
  "own_result s scenario cancelled domain duration =
    bindE (jat scenario ''id'') (\<lambda>i.
    bindE (jget scenario ''name'' i) (\<lambda>name.
    Inr (JDict [(''scenario_id'', i), (''scenario_name'', name), (''status'', JStr (if cancelled then ''CANCELLED'' else ''ERROR'')),
      (''terminal_reason'', JStr (if cancelled then ''orchestrator_cancelled'' else ''missing_evaluator_result'')),
      (''duration_sec'', JFloat (py_round 3 duration)), (''assertions'', JList []), (''final_state'', su_active_snapshot s),
      (''ros_domain_id'', JStr (int_str domain))])))"

definition complete_result :: "suite \<Rightarrow> jval \<Rightarrow> string \<Rightarrow> int \<Rightarrow> jval \<Rightarrow> py_error + jval" where
  "complete_result s scenario dir domain result =
    (case result of
       JDict d \<Rightarrow>
         bindE (jget scenario ''actual_byzantine_count'' JNone) (\<lambda>count.
         bindE (jget scenario ''faulty_replica_ids'' (JList [])) (\<lambda>faulty.
         bindE (jget scenario ''within_fault_bound'' JNone) (\<lambda>bound.
         Inr (JDict (set_entries [(''run_directory'', JStr dir), (''ros_domain_id'', JStr (int_str domain)),
           (''configuration'', su_configuration s), (''derived_configuration'', su_derived s), (''actual_byzantine_count'', count),
           (''faulty_replica_ids'', faulty), (''within_fault_bound'', bound)] d)))))
     | _ \<Rightarrow> Inl TypeError)"

text \<open>\<open>file\<close> is the content of the result file, when there is one, or the exception of reading it.\<close>

definition run_result :: "suite \<Rightarrow> jval \<Rightarrow> bool \<Rightarrow> string \<Rightarrow> int \<Rightarrow> (mg_error + jval) option \<Rightarrow> real \<Rightarrow> mg_error + jval" where
  "run_result s scenario cancelled dir domain file duration =
    (let lift = (\<lambda>r. case r of Inl e \<Rightarrow> Inl (Py e) | Inr v \<Rightarrow> Inr v) in
     bindE (case file of Some r \<Rightarrow> r | None \<Rightarrow> lift (own_result s scenario cancelled domain duration)) (\<lambda>result.
     lift (complete_result s scenario dir domain result)))"

text \<open>The rest of a turn of the loop, with the result of the run.\<close>

definition suite_result :: "py_floats \<Rightarrow> task_env \<Rightarrow> string \<Rightarrow> nat \<Rightarrow> jval \<Rightarrow> manager \<Rightarrow> manager" where
  "suite_result F env suite_id index r m =
    (let m1 = edit_suite suite_id (\<lambda>s. s\<lparr>su_results := su_results s @ [r]\<rparr>) m in
     case write_suite_report F (te_report_ok env) suite_id m1 of
       Inl e \<Rightarrow> suite_raises F env suite_id e m1
     | Inr m2 \<Rightarrow>
         let m3 = publish_suite suite_id m2 in
         if (case get_suite suite_id m3 of None \<Rightarrow> False | Some s \<Rightarrow> su_stop_on_failure s) then
           (case jat r ''status'' of
              Inl e \<Rightarrow> suite_raises F env suite_id (Py e) m3
            | Inr status \<Rightarrow>
                if \<not> py_eq status (JStr ''PASS'') then suite_ends F env suite_id STOPPED_ON_FAILURE m3
                else suite_turn F env suite_id (index + 1) m3)
         else suite_turn F env suite_id (index + 1) m3)"

text \<open>The waiting loop of \<^verbatim>\<open>_run_scenario\<close> looks every 0.15 seconds; when nothing ends it, nothing happens.\<close>

definition task_watch ::
    "py_floats \<Rightarrow> bool \<Rightarrow> real \<Rightarrow> (mg_process \<Rightarrow> nat) \<Rightarrow> (mg_error + jval) option \<Rightarrow> real \<Rightarrow> task_env \<Rightarrow> manager \<Rightarrow> manager" where
  "task_watch F exited elapsed withstands file duration env m =
    (case mg_task m of
       Task_watching suite_id index scenario domain hard_timeout \<Rightarrow>
         if \<not> (mg_cancel_requested m \<or> exited \<or> hard_timeout < elapsed) then m
         else
           let own = (\<lambda>p. pr_suite p = suite_id \<and> pr_index p = index);
               m1 = m\<lparr>mg_signals := mg_signals m @ cleanup_processes withstands (filter own (mg_processes m)),
                      mg_processes := filter (\<lambda>p. \<not> own p) (mg_processes m)\<rparr> in
           (case get_suite suite_id m1 of
              None \<Rightarrow> m1
            | Some s \<Rightarrow>
                (case run_result s scenario (mg_cancel_requested m1) (run_dir m1 suite_id index (su_queue s ! index)) domain file duration of
                   Inl e \<Rightarrow> suite_raises F env suite_id e m1
                 | Inr r \<Rightarrow> suite_result F env suite_id index r m1))
     | _ \<Rightarrow> m)"

section \<open>The other coroutines\<close>

definition stream_output :: "string \<Rightarrow> nat \<Rightarrow> string \<Rightarrow> string \<Rightarrow> string \<Rightarrow> manager \<Rightarrow> manager" where
  "stream_output suite_id index name line time m =
    (if \<exists>p \<in> set (mg_processes m). pr_suite p = suite_id \<and> pr_index p = index \<and> pr_name p = name then
       broadcast (Ev_log (name, line, time))
         (edit_suite suite_id (\<lambda>s. let l = su_live_log s @ [(name, line, time)] in s\<lparr>su_live_log := drop (length l - 300) l\<rparr>) m)
     else m)"

definition watch_snapshot :: "jval \<Rightarrow> manager \<Rightarrow> manager" where
  "watch_snapshot v m =
    (case mg_task m of
       Task_watching suite_id index scenario domain hard_timeout \<Rightarrow>
         broadcast (Ev_snapshot v) (edit_suite suite_id (\<lambda>s. s\<lparr>su_active_snapshot := v\<rparr>) m)
     | _ \<Rightarrow> m)"

datatype manager_event =
    M_subscribe nat
  | M_unsubscribe nat
  | M_get nat
  | M_start "string list" int bool "(string \<times> jval) list" string string
  | M_cancel
  | M_begin task_env
  | M_spawn "bool list" task_env
  | M_watch bool real "mg_process \<Rightarrow> nat" "(mg_error + jval) option" real task_env
  | M_log string nat string string string
  | M_snapshot jval

text \<open>An exception of \<^verbatim>\<open>start_suite\<close> goes to the caller and leaves the manager as it is.\<close>

fun manager_step :: "py_floats \<Rightarrow> manager_event \<Rightarrow> manager \<Rightarrow> mg_error + manager" where
  "manager_step F (M_subscribe q) m = Inr (subscribe q m)"
| "manager_step F (M_unsubscribe q) m = Inr (unsubscribe q m)"
| "manager_step F (M_get q) m = Inr (queue_get q m)"
| "manager_step F (M_start ids repeat stop config suite_id created) m =
    (case start_suite F ids repeat stop config suite_id created m of Inl _ \<Rightarrow> Inr m | Inr m' \<Rightarrow> Inr m')"
| "manager_step F M_cancel m = Inr (cancel_active m)"
| "manager_step F (M_begin env) m = Inr (task_begin F env m)"
| "manager_step F (M_spawn oks env) m = Inr (task_spawn F oks env m)"
| "manager_step F (M_watch exited elapsed withstands file duration env) m = Inr (task_watch F exited elapsed withstands file duration env m)"
| "manager_step F (M_log suite_id index name line time) m = Inr (stream_output suite_id index name line time m)"
| "manager_step F (M_snapshot v) m = Inr (watch_snapshot v m)"

end
