(* ===== verification/MG_Proofs.thy ===== *)
theory MG_Proofs
  imports MG_Manager
begin

text \<open>
  The invariant of the scenario manager. It is stated for a place of the task, which follows \<^verbatim>\<open>_run_suite\<close> also inside a step: before the first
  turn, between two turns, in a run, or on the way out. Every step keeps it (\<open>machine\<close> is interpreted on \<open>manager_step\<close>).
  The last sections are about ROS domains, the queues of the browsers, the text of reports, and processes that are left behind.
\<close>

section \<open>What the steps leave alone\<close>

lemma get_suite_edit: "get_suite k (edit_suite i f m) = (if k = i then map_option f (get_suite k m) else get_suite k m)"
proof -
  have "map_of (map (\<lambda>(k, s). (k, if k = i then f s else s)) xs) k = (if k = i then map_option f (map_of xs k) else map_of xs k)" for xs :: "(string \<times> suite) list"
    by (induction xs) auto
  then show ?thesis by (simp add: get_suite_def edit_suite_def)
qed

text \<open>The part of the manager that the invariant is about.\<close>

definition same_view :: "manager \<Rightarrow> manager \<Rightarrow> bool" where
  "same_view m m' \<longleftrightarrow> (\<forall>k. get_suite k m' = get_suite k m) \<and> mg_root m' = mg_root m \<and> mg_domain_counter m' = mg_domain_counter m \<and>
     mg_dirs m' = mg_dirs m \<and> mg_processes m' = mg_processes m \<and> mg_active_suite_id m' = mg_active_suite_id m \<and>
     mg_scenarios m' = mg_scenarios m \<and> mg_task m' = mg_task m \<and> mg_cancel_requested m' = mg_cancel_requested m"

lemma same_view_broadcast: "same_view m (broadcast ev m)"
  by (simp add: same_view_def broadcast_def get_suite_def)

lemma same_view_publish: "same_view m (publish_suite i m)"
  by (auto simp: publish_suite_def same_view_broadcast split: option.split) (simp add: same_view_def)

lemma same_view_report: "write_suite_report F ok i m = Inr m' \<Longrightarrow> same_view m m'"
  by (auto simp: write_suite_report_def raise_if_def same_view_def get_suite_def split: option.splits sum.splits if_splits)

lemma same_view_queues: "same_view m (subscribe q m)" "same_view m (unsubscribe q m)" "same_view m (queue_get q m)"
  by (simp_all add: same_view_def subscribe_def unsubscribe_def queue_get_def get_suite_def)

lemma same_view_trans: "same_view a b \<Longrightarrow> same_view b c \<Longrightarrow> same_view a c"
  by (simp add: same_view_def)

section \<open>The invariant\<close>

definition passes :: "jval \<Rightarrow> bool" where
  "passes r \<longleftrightarrow> map_of (entries r) ''status'' = Some (JStr ''PASS'')"

definition plan_ok :: "suite \<Rightarrow> bool" where
  "plan_ok s \<longleftrightarrow> su_queue s = concat (replicate (nat (su_repeat s)) (su_scenario_ids s)) \<and> 1 \<le> su_repeat s \<and> su_repeat s \<le> 100 \<and>
     length (su_results s) \<le> length (su_queue s)"

text \<open>The results of a suite are those of the scenarios of the queue, in order, with the ROS domains \<open>ds\<close>.\<close>

definition domains_follow :: "int list \<Rightarrow> bool" where
  "domains_follow ds \<longleftrightarrow> set ds \<subseteq> {70..220} \<and> (\<forall>k. Suc k < length ds \<longrightarrow> ds ! Suc k = next_domain (ds ! k))"

definition runs_ok :: "manager \<Rightarrow> string \<Rightarrow> suite \<Rightarrow> int list \<Rightarrow> bool" where
  "runs_ok m i s ds \<longleftrightarrow> length ds = length (su_results s) \<and> domains_follow ds \<and>
     (\<forall>k < length ds. map_of (entries (su_results s ! k)) ''run_directory'' = Some (JStr (run_dir m i k (su_queue s ! k))) \<and>
        map_of (entries (su_results s ! k)) ''ros_domain_id'' = Some (JStr (int_str (ds ! k))))"

definition stops_ok :: "suite \<Rightarrow> bool" where
  "stops_ok s \<longleftrightarrow> (su_stop_on_failure s \<longrightarrow> (\<forall>r \<in> set (su_results s). passes r))"

text \<open>What the status of a suite means at its end.\<close>

fun status_ok :: "suite_status \<Rightarrow> suite \<Rightarrow> bool" where
  "status_ok QUEUED s = False"
| "status_ok RUNNING s = False"
| "status_ok COMPLETED s = (length (su_results s) = length (su_queue s) \<and> stops_ok s)"
| "status_ok STOPPED_ON_FAILURE s = (su_stop_on_failure s \<and> su_results s \<noteq> [] \<and> \<not> passes (last (su_results s)) \<and>
     (\<forall>r \<in> set (butlast (su_results s)). passes r))"
| "status_ok CANCELLED s = True"
| "status_ok ERROR s = (su_error s \<noteq> None)"

datatype place = Nowhere | At_start string | Between string nat | In_run string nat int | Leaving string

fun place_suite :: "place \<Rightarrow> string option" where
  "place_suite Nowhere = None"
| "place_suite (At_start k) = Some k"
| "place_suite (Between k _) = Some k"
| "place_suite (In_run k _ _) = Some k"
| "place_suite (Leaving k) = Some k"

text \<open>What holds of the suite of the task.\<close>

fun place_ok :: "int \<Rightarrow> place \<Rightarrow> suite \<Rightarrow> int list \<Rightarrow> bool" where
  "place_ok d Nowhere s ds = False"
| "place_ok d (At_start _) s ds = (su_status s = QUEUED \<and> su_results s = [])"
| "place_ok d (Between _ i) s ds = (su_status s = RUNNING \<and> i = length (su_results s) \<and> stops_ok s \<and> (ds \<noteq> [] \<longrightarrow> last ds = d))"
| "place_ok d (In_run _ i e) s ds =
    (su_status s = RUNNING \<and> i = length (su_results s) \<and> i < length (su_queue s) \<and> stops_ok s \<and> e = d \<and> (ds \<noteq> [] \<longrightarrow> d = next_domain (last ds)))"
| "place_ok d (Leaving _) s ds = True"

definition suite_ok :: "manager \<Rightarrow> place \<Rightarrow> string \<Rightarrow> suite \<Rightarrow> bool" where
  "suite_ok m pl i s \<longleftrightarrow> plan_ok s \<and> suite_dir m i \<in> mg_dirs m \<and>
     (\<exists>ds. runs_ok m i s ds \<and>
        (if place_suite pl = Some i then place_ok (mg_domain_counter m) pl s ds \<and> su_finished_at s = None
         else status_ok (su_status s) s \<and> su_finished_at s \<noteq> None))"

definition process_ok :: "manager \<Rightarrow> place \<Rightarrow> mg_process \<Rightarrow> bool" where
  "process_ok m pl p \<longleftrightarrow> (\<exists>s. get_suite (pr_suite p) m = Some s \<and> su_status s = ERROR) \<or>
     (\<exists>d. pl = In_run (pr_suite p) (pr_index p) d) \<or> pl = Leaving (pr_suite p)"

definition inv_at :: "place \<Rightarrow> manager \<Rightarrow> bool" where
  "inv_at pl m \<longleftrightarrow> 70 \<le> mg_domain_counter m \<and> mg_domain_counter m \<le> 220 \<and>
     (\<forall>i s. get_suite i m = Some s \<longrightarrow> suite_ok m pl i s) \<and>
     (\<forall>k. place_suite pl = Some k \<longrightarrow> get_suite k m \<noteq> None \<and> mg_active_suite_id m = Some k) \<and>
     (\<forall>p \<in> set (mg_processes m). process_ok m pl p)"

fun place_of :: "mg_task \<Rightarrow> place" where
  "place_of (Task_created k) = At_start k"
| "place_of (Task_spawning k i _ d) = In_run k i d"
| "place_of (Task_watching k i _ d _) = In_run k i d"
| "place_of _ = Nowhere"

definition mg_inv :: "manager \<Rightarrow> bool" where
  "mg_inv m = inv_at (place_of (mg_task m)) m"

lemma inv_at_suite: "inv_at pl m \<Longrightarrow> get_suite i m = Some s \<Longrightarrow> suite_ok m pl i s"
  by (simp add: inv_at_def)

lemma inv_at_intro:
  assumes "70 \<le> mg_domain_counter m" "mg_domain_counter m \<le> 220" "\<And>i s. get_suite i m = Some s \<Longrightarrow> suite_ok m pl i s"
    "\<And>k. place_suite pl = Some k \<Longrightarrow> get_suite k m \<noteq> None \<and> mg_active_suite_id m = Some k" "\<And>p. p \<in> set (mg_processes m) \<Longrightarrow> process_ok m pl p"
  shows "inv_at pl m"
  using assms by (simp add: inv_at_def)

lemma run_dir_root: "mg_root m' = mg_root m \<Longrightarrow> run_dir m' = run_dir m" "mg_root m' = mg_root m \<Longrightarrow> suite_dir m' = suite_dir m"
  by (simp_all add: run_dir_def suite_dir_def fun_eq_iff)

lemma inv_at_view: "same_view m m' \<Longrightarrow> inv_at pl m' = inv_at pl m"
  by (simp add: inv_at_def suite_ok_def runs_ok_def process_ok_def same_view_def run_dir_root[of m' m])

lemma inv_at_task: "inv_at pl (m\<lparr>mg_task := t\<rparr>) = inv_at pl m"
  by (simp add: inv_at_def suite_ok_def runs_ok_def process_ok_def get_suite_def run_dir_root[of "m\<lparr>mg_task := t\<rparr>" m])

section \<open>Edits of a suite\<close>

lemma edit_fields [simp]:
  "mg_root (edit_suite i f m) = mg_root m" "mg_domain_counter (edit_suite i f m) = mg_domain_counter m" "mg_dirs (edit_suite i f m) = mg_dirs m"
  "mg_processes (edit_suite i f m) = mg_processes m" "mg_active_suite_id (edit_suite i f m) = mg_active_suite_id m"
  "mg_scenarios (edit_suite i f m) = mg_scenarios m" "mg_task (edit_suite i f m) = mg_task m"
  "mg_cancel_requested (edit_suite i f m) = mg_cancel_requested m"
  "suite_dir (edit_suite i f m) = suite_dir m" "run_dir (edit_suite i f m) = run_dir m"
  by (simp_all add: edit_suite_def suite_dir_def run_dir_def fun_eq_iff)

lemma runs_ok_edit [simp]: "runs_ok (edit_suite i f m) = runs_ok m"
  by (simp add: runs_ok_def fun_eq_iff)

text \<open>The parts of a suite that the invariant is about.\<close>

definition essence :: "suite \<Rightarrow> (suite_status \<times> bool \<times> int \<times> string list) \<times> string list \<times> jval list \<times> mg_error option" where
  "essence s = ((su_status s, su_stop_on_failure s, su_repeat s, su_scenario_ids s), su_queue s, su_results s, su_error s)"

lemma essence_same:
  assumes "essence t = essence s"
  shows "su_status t = su_status s" "plan_ok t = plan_ok s" "runs_ok m i t = runs_ok m i s" "status_ok u t = status_ok u s" "place_ok d pl t = place_ok d pl s"
proof -
  show "status_ok u t = status_ok u s" using assms by (cases u) (simp_all add: essence_def stops_ok_def)
  show "place_ok d pl t = place_ok d pl s" using assms by (cases pl) (simp_all add: essence_def stops_ok_def fun_eq_iff)
qed (use assms in \<open>simp_all add: essence_def plan_ok_def runs_ok_def fun_eq_iff\<close>)

lemma suite_ok_edit: "suite_ok (edit_suite i f m) pl k s = suite_ok m pl k s"
  by (simp add: suite_ok_def)

lemma inv_at_edit:
  assumes inv: "inv_at pl m" and e: "\<And>s. essence (f s) = essence s \<and> su_finished_at (f s) = su_finished_at s"
  shows "inv_at pl (edit_suite i f m)"
proof -
  have "suite_ok m pl k (f s) = suite_ok m pl k s" for k s
    using e[of s] by (simp add: suite_ok_def essence_same[of "f s" s])
  moreover have "su_status (f s) = su_status s" for s using e[of s] by (simp add: essence_same(1)[of "f s" s])
  then have "process_ok (edit_suite i f m) pl p = process_ok m pl p" for p by (auto simp: process_ok_def get_suite_edit)
  ultimately show ?thesis using inv by (auto simp: inv_at_def get_suite_edit suite_ok_edit split: if_splits)
qed

lemma inv_at_leave:
  assumes "inv_at pl m" "place_suite pl = Some i" shows "inv_at (Leaving i) m"
proof -
  have "suite_ok m (Leaving i) k s" if "suite_ok m pl k s" for k s using that assms(2) by (cases "k = i") (auto simp: suite_ok_def)
  moreover have "process_ok m (Leaving i) p" if "process_ok m pl p" for p using that assms(2) by (auto simp: process_ok_def)
  ultimately show ?thesis using assms by (simp add: inv_at_def)
qed

text \<open>The suite of the task is edited, and the task moves.\<close>

lemma inv_at_move:
  assumes inv: "inv_at pl m" "place_suite pl = Some i" "place_suite pl' = Some i"
    and s: "\<And>s ds. plan_ok s \<Longrightarrow> runs_ok m i s ds \<Longrightarrow> place_ok (mg_domain_counter m) pl s ds \<Longrightarrow>
      plan_ok (f s) \<and> su_finished_at (f s) = su_finished_at s \<and> (\<exists>ds'. runs_ok m i (f s) ds' \<and> place_ok (mg_domain_counter m) pl' (f s) ds')"
    and p: "\<And>p. p \<in> set (mg_processes m) \<Longrightarrow> process_ok m pl p \<Longrightarrow> process_ok (edit_suite i f m) pl' p"
  shows "inv_at pl' (edit_suite i f m)"
proof -
  have "suite_ok m pl' i (f s)" if "suite_ok m pl i s" for s
    using that s inv(2,3) unfolding suite_ok_def by auto
  moreover have "suite_ok m pl' k s" if "suite_ok m pl k s" "k \<noteq> i" for k s
    using that inv(2,3) unfolding suite_ok_def by simp
  ultimately show ?thesis using inv p by (auto simp: inv_at_def get_suite_edit suite_ok_edit split: if_splits)
qed

section \<open>The end of a suite\<close>

definition no_process :: "manager \<Rightarrow> string \<Rightarrow> bool" where
  "no_process m i \<longleftrightarrow> (\<forall>p \<in> set (mg_processes m). pr_suite p \<noteq> i)"

lemma suite_finally_inv:
  assumes inv: "inv_at (Leaving i) m" and s: "get_suite i m = Some s" "status_ok (su_status s) s" "su_status s = ERROR \<or> no_process m i"
  shows "mg_inv (suite_finally F env i m)"
proof -
  let ?f = "\<lambda>s. s\<lparr>su_active_scenario := None, su_active_snapshot := JNone, su_finished_at := Some (te_finished env)\<rparr>"
  let ?m = "edit_suite i ?f m"
  have e: "essence (?f s) = essence s" for s by (simp add: essence_def)
  have "suite_ok m Nowhere i (?f s)"
    using inv_at_suite[OF inv s(1)] s(2) by (simp add: suite_ok_def essence_same[OF e])
  moreover have "suite_ok m Nowhere k t" if "get_suite k m = Some t" "k \<noteq> i" for k t
    using inv_at_suite[OF inv that(1)] that(2) by (simp add: suite_ok_def)
  moreover have "process_ok ?m Nowhere p" if "p \<in> set (mg_processes m)" for p
    using that inv s unfolding inv_at_def process_ok_def no_process_def by (auto simp: get_suite_edit)
  ultimately have 1: "inv_at Nowhere ?m" using inv s(1) by (auto simp: inv_at_def get_suite_edit suite_ok_edit split: if_splits)
  have active: "inv_at Nowhere (m'\<lparr>mg_active_suite_id := None\<rparr>) = inv_at Nowhere m'" for m'
    by (simp add: inv_at_def suite_ok_def runs_ok_def process_ok_def get_suite_def run_dir_root[of "m'\<lparr>mg_active_suite_id := None\<rparr>" m'])
  show ?thesis
  proof (cases "write_suite_report F (te_final_ok env) i ?m")
    case (Inl e) then show ?thesis using 1 by (simp add: suite_finally_def mg_inv_def inv_at_task)
  next
    case (Inr m2)
    have "inv_at Nowhere (publish_suite i m2)"
      using 1 inv_at_view[OF same_view_trans[OF same_view_report[OF Inr] same_view_publish]] by blast
    then show ?thesis using Inr by (simp add: suite_finally_def mg_inv_def inv_at_task active)
  qed
qed

lemma status_ok_status [simp]: "status_ok u (s\<lparr>su_status := t\<rparr>) = status_ok u s"
  by (cases u) (simp_all add: stops_ok_def)

lemma keep_plan [simp]:
  "plan_ok (s\<lparr>su_status := t\<rparr>) = plan_ok s" "runs_ok m i (s\<lparr>su_status := t\<rparr>) = runs_ok m i s"
  "plan_ok (s\<lparr>su_error := e\<rparr>) = plan_ok s" "runs_ok m i (s\<lparr>su_error := e\<rparr>) = runs_ok m i s"
  by (simp_all add: plan_ok_def runs_ok_def fun_eq_iff)

lemma suite_raises_inv:
  assumes "inv_at pl m" "place_suite pl = Some i" shows "mg_inv (suite_raises F env i e m)"
proof -
  let ?f = "\<lambda>s. s\<lparr>su_status := ERROR, su_error := Some e\<rparr>"
  note l = inv_at_leave[OF assms]
  obtain s where s: "get_suite i m = Some s" using assms by (auto simp: inv_at_def)
  have "inv_at (Leaving i) (edit_suite i ?f m)"
  proof (rule inv_at_move[OF l])
    show "process_ok (edit_suite i ?f m) (Leaving i) p" if "process_ok m (Leaving i) p" for p
      using that s by (auto simp: process_ok_def get_suite_edit)
  qed auto
  then show ?thesis unfolding suite_raises_def by (rule suite_finally_inv) (use s in \<open>auto simp: get_suite_edit\<close>)
qed

lemma suite_ends_inv:
  assumes "inv_at pl m" "place_suite pl = Some i" "no_process m i" "\<And>s. get_suite i m = Some s \<Longrightarrow> status_ok u s"
  shows "mg_inv (suite_ends F env i u m)"
proof -
  let ?f = "\<lambda>s. s\<lparr>su_status := (if mg_cancel_requested m then CANCELLED else u)\<rparr>"
  note l = inv_at_leave[OF assms(1,2)]
  obtain s where s: "get_suite i m = Some s" using assms by (auto simp: inv_at_def)
  have "inv_at (Leaving i) (edit_suite i ?f m)"
  proof (rule inv_at_move[OF l])
    show "process_ok (edit_suite i ?f m) (Leaving i) p" if "p \<in> set (mg_processes m)" "process_ok m (Leaving i) p" for p
      using that assms(3) by (auto simp: process_ok_def get_suite_edit no_process_def)
  qed auto
  then show ?thesis unfolding suite_ends_def
    by (rule suite_finally_inv) (use s assms(3,4) in \<open>auto simp: get_suite_edit no_process_def\<close>)
qed

section \<open>Turns of the loop\<close>

lemma inv_at_frame:
  assumes inv: "inv_at pl m" and same: "\<And>k. get_suite k m' = get_suite k m" "mg_root m' = mg_root m" "mg_domain_counter m' = mg_domain_counter m"
    "mg_active_suite_id m' = mg_active_suite_id m" "mg_dirs m \<subseteq> mg_dirs m'" "set (mg_processes m') \<subseteq> set (mg_processes m)"
  shows "inv_at pl m'"
proof (rule inv_at_intro)
  have r: "runs_ok m' = runs_ok m" "suite_dir m' = suite_dir m" by (simp_all add: runs_ok_def run_dir_root[OF same(2)] fun_eq_iff)
  show "suite_ok m' pl k s" if "get_suite k m' = Some s" for k s
    using inv_at_suite[OF inv that[unfolded same(1)]] same(5) unfolding suite_ok_def r same(3) by blast
  show "process_ok m' pl p" if "p \<in> set (mg_processes m')" for p
    using that inv same(6) unfolding inv_at_def process_ok_def same(1) by blast
qed (use inv same in \<open>simp_all add: inv_at_def\<close>)

lemma next_domain_range: "70 \<le> d \<Longrightarrow> d \<le> 220 \<Longrightarrow> 70 \<le> next_domain d \<and> next_domain d \<le> 220"
  by (simp add: next_domain_def)

lemma no_process_view: "same_view m m' \<Longrightarrow> no_process m' i = no_process m i" "no_process (edit_suite k f m) i = no_process m i"
  by (simp_all add: no_process_def same_view_def)

lemma inv_at_domain:
  assumes inv: "inv_at (Between i n) m" and np: "no_process m i" and q: "\<And>s. get_suite i m = Some s \<Longrightarrow> n < length (su_queue s)"
  shows "inv_at (In_run i n (next_domain (mg_domain_counter m))) (m\<lparr>mg_domain_counter := next_domain (mg_domain_counter m)\<rparr>)" (is "inv_at ?pl ?m")
proof (rule inv_at_intro)
  have g: "get_suite k ?m = get_suite k m" "suite_dir ?m = suite_dir m" "runs_ok ?m = runs_ok m" for k
    by (simp_all add: get_suite_def suite_dir_def runs_ok_def run_dir_def fun_eq_iff)
  show "70 \<le> mg_domain_counter ?m" "mg_domain_counter ?m \<le> 220" using inv next_domain_range by (simp_all add: inv_at_def)
  show "suite_ok ?m ?pl k s" if "get_suite k ?m = Some s" for k s
  proof -
    have s: "get_suite k m = Some s" using that g by simp
    then show ?thesis using inv_at_suite[OF inv s] q by (cases "k = i") (auto simp: suite_ok_def g)
  qed
  show "get_suite k ?m \<noteq> None \<and> mg_active_suite_id ?m = Some k" if "place_suite ?pl = Some k" for k using that inv by (simp add: inv_at_def g)
  show "process_ok ?m ?pl p" if "p \<in> set (mg_processes ?m)" for p
    using that inv np by (auto simp: inv_at_def process_ok_def no_process_def g)
qed

lemma prepare_run_inv:
  assumes inv: "inv_at (Between i n) m" "no_process m i" "\<And>s. get_suite i m = Some s \<Longrightarrow> n < length (su_queue s)"
  shows "mg_inv (prepare_run F env i n s j sc m)"
proof -
  let ?d = "run_dir m i n j"
  let ?m1 = "m\<lparr>mg_dirs := insert ?d (mg_dirs m)\<rparr>"
  have 1: "inv_at (Between i n) ?m1" using inv(1) by (rule inv_at_frame) (auto simp: get_suite_def)
  have 2: "inv_at (In_run i n (next_domain (mg_domain_counter m))) (?m1\<lparr>mg_domain_counter := next_domain (mg_domain_counter m)\<rparr>)"
    using inv_at_domain[OF 1] inv(2,3) by (simp add: no_process_def get_suite_def)
  show ?thesis unfolding prepare_run_def Let_def
    by (auto simp: mg_inv_def inv_at_task 2 split: sum.split
        intro: suite_raises_inv[OF inv(1), unfolded mg_inv_def] suite_raises_inv[OF 1, unfolded mg_inv_def] suite_raises_inv[OF 2, unfolded mg_inv_def])
qed

lemma suite_turn_inv:
  assumes inv: "inv_at (Between i n) m" "no_process m i"
  shows "mg_inv (suite_turn F env i n m)"
proof -
  obtain s where s: "get_suite i m = Some s" using inv by (auto simp: inv_at_def)
  have ok: "plan_ok s" "n = length (su_results s)" "stops_ok s" using inv_at_suite[OF inv(1) s] by (auto simp: suite_ok_def)
  let ?f = "\<lambda>t. t\<lparr>su_active_index := Some n, su_active_scenario := Some (su_queue s ! n), su_active_snapshot := JNone, su_live_log := []\<rparr>"
  let ?m = "publish_suite i (edit_suite i ?f m)"
  have v: "same_view (edit_suite i ?f m) ?m" by (rule same_view_publish)
  have inv': "inv_at (Between i n) ?m" unfolding inv_at_view[OF v] using inv(1) by (rule inv_at_edit) (simp add: essence_def)
  have np: "no_process ?m i" using inv(2) by (simp add: no_process_view(1)[OF v] no_process_view(2))
  have g: "get_suite i ?m = Some (?f s)" using v s by (simp add: same_view_def get_suite_edit)
  consider (over) "length (su_queue s) \<le> n" | (cancel) "n < length (su_queue s)" "mg_cancel_requested m" | (run) "n < length (su_queue s)" "\<not> mg_cancel_requested m"
    by linarith
  then show ?thesis
  proof cases
    case over
    then have "mg_inv (suite_ends F env i COMPLETED m)" using ok s by (intro suite_ends_inv[OF inv(1) _ inv(2)]) (auto simp: plan_ok_def)
    then show ?thesis using over s by (simp add: suite_turn_def)
  next
    case cancel
    have "mg_inv (suite_ends F env i CANCELLED m)" by (intro suite_ends_inv[OF inv(1) _ inv(2)]) auto
    then show ?thesis using cancel s by (simp add: suite_turn_def)
  next
    case run
    have "mg_inv (prepare_run F env i n s j sc ?m)" for j sc using run g by (intro prepare_run_inv[OF inv' np]) auto
    moreover have "mg_inv (suite_raises F env i e m)" for e by (rule suite_raises_inv[OF inv(1)]) simp
    ultimately show ?thesis using run s by (simp add: suite_turn_def Let_def split: option.split)
  qed
qed

lemma task_begin_inv:
  assumes "mg_inv m" shows "mg_inv (task_begin F env m)"
proof (cases "mg_task m")
  case (Task_created i)
  then have inv: "inv_at (At_start i) m" using assms by (simp add: mg_inv_def)
  obtain s where s: "get_suite i m = Some s" using inv by (auto simp: inv_at_def)
  let ?f = "\<lambda>s. s\<lparr>su_status := RUNNING\<rparr>"
  have q: "su_status s = QUEUED" using inv_at_suite[OF inv s] by (simp add: suite_ok_def)
  have np: "no_process m i" using inv s q by (auto simp: inv_at_def process_ok_def no_process_def)
  have "inv_at (Between i 0) (edit_suite i ?f m)"
  proof (rule inv_at_move[OF inv])
    show "process_ok (edit_suite i ?f m) (Between i 0) p" if "p \<in> set (mg_processes m)" "process_ok m (At_start i) p" for p
      using that np by (auto simp: process_ok_def no_process_def get_suite_edit)
  next
    fix s ds assume "plan_ok s" "runs_ok m i s ds" "place_ok (mg_domain_counter m) (At_start i) s ds"
    then show "plan_ok (?f s) \<and> su_finished_at (?f s) = su_finished_at s \<and>
        (\<exists>ds'. runs_ok m i (?f s) ds' \<and> place_ok (mg_domain_counter m) (Between i 0) (?f s) ds')"
      by (auto simp: stops_ok_def runs_ok_def intro!: exI[of _ ds])
  qed simp_all
  then have "inv_at (Between i 0) (publish_suite i (edit_suite i ?f m))" by (simp add: inv_at_view[OF same_view_publish])
  moreover have "no_process (publish_suite i (edit_suite i ?f m)) i" using np by (simp add: no_process_view(1)[OF same_view_publish] no_process_view(2))
  ultimately show ?thesis using Task_created by (simp add: task_begin_def suite_turn_inv)
qed (use assms in \<open>simp_all add: task_begin_def\<close>)

section \<open>Results\<close>

text \<open>A result names the directory and the domain of its run.\<close>

definition result_of :: "string \<Rightarrow> int \<Rightarrow> jval \<Rightarrow> bool" where
  "result_of dir d r \<longleftrightarrow> map_of (entries r) ''run_directory'' = Some (JStr dir) \<and> map_of (entries r) ''ros_domain_id'' = Some (JStr (int_str d))"

lemma complete_result_of: "complete_result s sc dir d v = Inr r \<Longrightarrow> result_of dir d r"
  by (cases v) (auto simp: complete_result_def bindE_eq_Inr result_of_def map_of_set_entries)

lemma run_result_of: "run_result s sc c dir d file t = Inr r \<Longrightarrow> result_of dir d r"
  unfolding run_result_def Let_def bindE_eq_Inr by (elim exE conjE) (case_tac "complete_result s sc dir d x"; simp add: complete_result_of)

lemma status_passes: "jat r ''status'' = Inr v \<Longrightarrow> py_eq v (JStr ''PASS'') = passes r"
  by (cases r; cases v) (auto simp: passes_def split: option.splits)

lemma domains_follow_snoc:
  assumes "domains_follow ds" "70 \<le> d" "d \<le> 220" "ds \<noteq> [] \<longrightarrow> d = next_domain (last ds)"
  shows "domains_follow (ds @ [d])"
proof -
  have "(ds @ [d]) ! Suc k = next_domain ((ds @ [d]) ! k)" if "Suc k < length (ds @ [d])" for k
  proof (cases "Suc k < length ds")
    case True then show ?thesis using assms(1) by (simp add: domains_follow_def nth_append)
  next
    case False
    then have k: "length ds = Suc k" using that by simp
    then have "ds \<noteq> []" by auto
    with k show ?thesis using assms(4) by (simp add: nth_append last_conv_nth)
  qed
  then show ?thesis using assms(1-3) by (simp add: domains_follow_def)
qed

lemma runs_ok_snoc:
  assumes "runs_ok m i s ds" "domains_follow (ds @ [d])" "result_of (run_dir m i (length (su_results s)) (su_queue s ! length (su_results s))) d r"
  shows "runs_ok m i (s\<lparr>su_results := su_results s @ [r]\<rparr>) (ds @ [d])"
  using assms by (auto simp: runs_ok_def result_of_def nth_append less_Suc_eq)

lemma suite_result_inv:
  assumes inv: "inv_at (In_run i n d) m" and np: "no_process m i"
    and r: "\<And>s. get_suite i m = Some s \<Longrightarrow> result_of (run_dir m i n (su_queue s ! n)) d r"
  shows "mg_inv (suite_result F env i n r m)"
proof -
  let ?f = "\<lambda>s. s\<lparr>su_results := su_results s @ [r]\<rparr>"
  let ?m = "edit_suite i ?f m"
  obtain s where s: "get_suite i m = Some s" using inv by (auto simp: inv_at_def)
  obtain ds where ok: "plan_ok s" "runs_ok m i s ds" "n = length (su_results s)" "n < length (su_queue s)" "stops_ok s" "d = mg_domain_counter m"
      "ds \<noteq> [] \<longrightarrow> d = next_domain (last ds)" "su_status s = RUNNING" "su_finished_at s = None" "suite_dir m i \<in> mg_dirs m"
    using inv_at_suite[OF inv s] by (auto simp: suite_ok_def)
  have "domains_follow (ds @ [d])" using ok inv by (intro domains_follow_snoc) (auto simp: runs_ok_def inv_at_def)
  then have runs: "runs_ok m i (?f s) (ds @ [d])" using ok r[OF s] by (intro runs_ok_snoc) auto
  have plan: "plan_ok (?f s)" using ok by (simp add: plan_ok_def)
  have move: "inv_at pl ?m" if pl: "place_suite pl = Some i" "place_ok (mg_domain_counter m) pl (?f s) (ds @ [d])" for pl
  proof (rule inv_at_intro)
    show "suite_ok ?m pl k t" if t: "get_suite k ?m = Some t" for k t
    proof (cases "k = i")
      case True
      then have "t = ?f s" using t s by (simp add: get_suite_edit)
      then show ?thesis using True plan runs pl ok by (auto simp: suite_ok_def)
    next
      case False
      then have "get_suite k m = Some t" using t by (simp add: get_suite_edit)
      from inv_at_suite[OF inv this] False pl show ?thesis by (simp add: suite_ok_def)
    qed
    show "process_ok ?m pl p" if "p \<in> set (mg_processes ?m)" for p
      using that inv np by (auto simp: inv_at_def process_ok_def no_process_def get_suite_edit)
  qed (use inv pl(1) in \<open>auto simp: inv_at_def get_suite_edit\<close>)
  have leave: "inv_at (Leaving i) ?m" by (rule move) simp_all
  show ?thesis
  proof (cases "write_suite_report F (te_report_ok env) i ?m")
    case (Inl e) then show ?thesis using suite_raises_inv[OF leave] by (simp add: suite_result_def)
  next
    case (Inr m2)
    let ?m3 = "publish_suite i m2"
    have v: "same_view ?m ?m3" using same_view_trans[OF same_view_report[OF Inr] same_view_publish] .
    have g: "get_suite i ?m3 = Some (?f s)" using v s by (simp add: same_view_def get_suite_edit)
    have np3: "no_process ?m3 i" using np by (simp add: no_process_view(1)[OF v] no_process_view(2))
    have raise: "mg_inv (suite_raises F env i e ?m3)" for e by (rule suite_raises_inv[where pl = "Leaving i"]) (simp_all add: inv_at_view[OF v] leave)
    have go: "mg_inv (suite_turn F env i (n + 1) ?m3)" if "su_stop_on_failure s \<longrightarrow> passes r"
    proof (rule suite_turn_inv[OF _ np3])
      show "inv_at (Between i (n + 1)) ?m3" unfolding inv_at_view[OF v] using that ok by (intro move) (auto simp: stops_ok_def)
    qed
    have stop: "mg_inv (suite_ends F env i STOPPED_ON_FAILURE ?m3)" if "su_stop_on_failure s" "\<not> passes r"
    proof (rule suite_ends_inv[where pl = "Leaving i", OF _ _ np3])
      show "status_ok STOPPED_ON_FAILURE t" if "get_suite i ?m3 = Some t" for t
        using that g ok \<open>su_stop_on_failure s\<close> \<open>\<not> passes r\<close> by (auto simp: stops_ok_def)
    qed (simp_all add: inv_at_view[OF v] leave)
    show ?thesis using Inr g raise go stop by (auto simp: suite_result_def Let_def status_passes split: sum.split)
  qed
qed

section \<open>Every step\<close>

lemma task_spawn_inv:
  assumes "mg_inv m" shows "mg_inv (task_spawn F oks env m)"
proof (cases "mg_task m")
  case (Task_spawning i n sc d)
  then have inv: "inv_at (In_run i n d) m" using assms by (simp add: mg_inv_def)
  define new where "new ps = map (\<lambda>(name, command). \<lparr>pr_suite = i, pr_index = n, pr_name = name, pr_command = command\<rparr>) ps" for ps :: "(string \<times> string list) list"
  have 1: "inv_at (In_run i n d) (m\<lparr>mg_processes := mg_processes m @ new ps\<rparr>)" (is "inv_at _ ?m") for ps
  proof (rule inv_at_intro)
    let ?m = "m\<lparr>mg_processes := mg_processes m @ new ps\<rparr>"
    have g: "get_suite k ?m = get_suite k m" "suite_dir ?m = suite_dir m" "runs_ok ?m = runs_ok m" for k
      by (simp_all add: get_suite_def suite_dir_def runs_ok_def run_dir_def fun_eq_iff)
    show "suite_ok ?m (In_run i n d) k s" if "get_suite k ?m = Some s" for k s
      using inv_at_suite[OF inv that[unfolded g]] by (cases "k = i") (auto simp: suite_ok_def g)
    show "process_ok ?m (In_run i n d) p" if "p \<in> set (mg_processes ?m)" for p
    proof -
      have "pr_suite p = i \<and> pr_index p = n" if "p \<in> set (new ps)" using that by (auto simp: new_def)
      then show ?thesis using that inv by (auto simp: inv_at_def process_ok_def g)
    qed
  qed (use inv in \<open>auto simp: inv_at_def get_suite_def\<close>)
  note raise = suite_raises_inv[OF 1, simplified]
  show ?thesis using Task_spawning raise 1
    by (auto simp: task_spawn_def Let_def mg_inv_def inv_at_task new_def[symmetric] split: prod.split option.split sum.split)
qed (use assms in \<open>simp_all add: task_spawn_def\<close>)

lemma task_watch_inv:
  assumes "mg_inv m" shows "mg_inv (task_watch F x t w file u env m)"
proof (cases "mg_task m")
  case (Task_watching i n sc d h)
  then have inv: "inv_at (In_run i n d) m" using assms by (simp add: mg_inv_def)
  let ?own = "\<lambda>p. pr_suite p = i \<and> pr_index p = n"
  let ?m = "m\<lparr>mg_signals := mg_signals m @ cleanup_processes w (filter ?own (mg_processes m)), mg_processes := filter (\<lambda>p. \<not> ?own p) (mg_processes m)\<rparr>"
  have inv1: "inv_at (In_run i n d) ?m" using inv by (rule inv_at_frame) (auto simp: get_suite_def)
  obtain s where s: "get_suite i m = Some s" using inv by (auto simp: inv_at_def)
  have "su_status s = RUNNING" using inv_at_suite[OF inv s] by (auto simp: suite_ok_def)
  then have np: "no_process ?m i" using inv s by (auto simp: no_process_def inv_at_def process_ok_def)
  have g: "get_suite i ?m = Some s" using s by (simp add: get_suite_def)
  have "mg_inv (suite_raises F env i e ?m)" for e by (rule suite_raises_inv[OF inv1]) simp
  moreover have "mg_inv (suite_result F env i n r ?m)"
    if "run_result s sc (mg_cancel_requested m) (run_dir ?m i n (su_queue s ! n)) d file u = Inr r" for r
    using run_result_of[OF that] g by (intro suite_result_inv[OF inv1 np]) auto
  ultimately show ?thesis using Task_watching assms g by (auto simp: task_watch_def Let_def split: sum.split)
qed (use assms in \<open>simp_all add: task_watch_def\<close>)

lemma new_suite_ok:
  assumes "1 \<le> rep" "rep \<le> 100"
  shows "plan_ok (new_suite i created ids rep stop v dir)" "runs_ok m k (new_suite i created ids rep stop v dir) []"
    "su_status (new_suite i created ids rep stop v dir) = QUEUED" "su_results (new_suite i created ids rep stop v dir) = []"
    "su_finished_at (new_suite i created ids rep stop v dir) = None"
  using assms by (simp_all add: new_suite_def plan_ok_def runs_ok_def domains_follow_def)

lemma start_suite_inv:
  assumes inv: "mg_inv m" and r: "start_suite F ids rep stop config i created m = Inr m'"
  shows "mg_inv m'"
proof -
  let ?v = "con_validate_configuration F config"
  let ?s = "new_suite i created ids rep stop ?v (suite_dir m i)"
  let ?m = "m\<lparr>mg_dirs := insert (suite_dir m i) (mg_dirs m), mg_suites := dict_set i ?s (mg_suites m), mg_active_suite_id := Some i,
    mg_cancel_requested := False, mg_task := Task_created i\<rparr>"
  have m: "\<not> mg_running m" "suite_dir m i \<notin> mg_dirs m" "1 \<le> rep" "rep \<le> 100" "m' = broadcast (Ev_suite_created ?s) ?m"
    using r by (auto simp: start_suite_def Let_def raise_if_def split: if_splits sum.splits)
  have inv0: "inv_at Nowhere m" using inv m(1) by (cases "mg_task m") (simp_all add: mg_inv_def mg_running_def)
  then have new: "get_suite i m = None" using m(2) inv_at_suite[OF inv0, of i] by (cases "get_suite i m") (auto simp: suite_ok_def)
  have g: "get_suite k ?m = (if k = i then Some ?s else get_suite k m)" "suite_dir ?m = suite_dir m" "runs_ok ?m = runs_ok m" for k
    by (simp_all add: get_suite_def suite_dir_def runs_ok_def run_dir_def fun_eq_iff)
  have "inv_at (At_start i) ?m"
  proof (rule inv_at_intro)
    show "suite_ok ?m (At_start i) k s" if s: "get_suite k ?m = Some s" for k s
    proof (cases "k = i")
      case True
      then have "s = ?s" using s by (simp add: g)
      then show ?thesis using True new_suite_ok[OF m(3,4)] by (auto simp: suite_ok_def g intro!: exI[of _ "[]"])
    next
      case False
      then have "get_suite k m = Some s" using s by (simp add: g)
      from inv_at_suite[OF inv0 this] False show ?thesis by (auto simp: suite_ok_def g)
    qed
    show "process_ok ?m (At_start i) p" if "p \<in> set (mg_processes ?m)" for p
      using that inv0 new by (auto simp: inv_at_def process_ok_def g)
  qed (use inv0 in \<open>auto simp: inv_at_def g\<close>)
  moreover have "same_view ?m m'" unfolding m(5) by (rule same_view_broadcast)
  ultimately show ?thesis using inv_at_view[of ?m m'] by (simp add: mg_inv_def same_view_def)
qed

lemma mg_inv_view: "same_view m m' \<Longrightarrow> mg_inv m \<Longrightarrow> mg_inv m'"
  using inv_at_view[of m m'] by (simp add: mg_inv_def same_view_def)

lemma cancel_active_inv: "mg_inv m \<Longrightarrow> mg_inv (cancel_active m)"
  unfolding cancel_active_def
proof (rule mg_inv_view[OF same_view_broadcast])
  assume "mg_inv m"
  then have "inv_at (place_of (mg_task m)) (m\<lparr>mg_cancel_requested := True\<rparr>)" unfolding mg_inv_def by (rule inv_at_frame) (auto simp: get_suite_def)
  then show "mg_inv (m\<lparr>mg_cancel_requested := True\<rparr>)" by (simp add: mg_inv_def)
qed

lemma mg_inv_edit: "mg_inv m \<Longrightarrow> (\<And>s. essence (f s) = essence s \<and> su_finished_at (f s) = su_finished_at s) \<Longrightarrow> mg_inv (edit_suite i f m)"
  unfolding mg_inv_def edit_fields by (rule inv_at_edit)

lemma stream_output_inv: "mg_inv m \<Longrightarrow> mg_inv (stream_output i n name line t m)"
  unfolding stream_output_def
  by (auto intro!: mg_inv_view[OF same_view_broadcast] mg_inv_edit simp: essence_def Let_def)

lemma watch_snapshot_inv: "mg_inv m \<Longrightarrow> mg_inv (watch_snapshot v m)"
  unfolding watch_snapshot_def
  by (auto intro!: mg_inv_view[OF same_view_broadcast] mg_inv_edit simp: essence_def split: mg_task.split)

lemma manager_step_inv: "mg_inv m \<Longrightarrow> \<exists>m'. manager_step F e m = Inr m' \<and> mg_inv m'"
  by (cases e)
    (auto simp: task_begin_inv task_spawn_inv task_watch_inv cancel_active_inv stream_output_inv watch_snapshot_inv
      intro: mg_inv_view[OF same_view_queues(1)] mg_inv_view[OF same_view_queues(2)] mg_inv_view[OF same_view_queues(3)] start_suite_inv split: sum.split)

interpretation mgr: machine "manager_step F" mg_inv for F
  by unfold_locales (rule manager_step_inv)

lemma init_manager_inv: "init_manager F catalog r dirs = Inr m \<Longrightarrow> mg_inv m"
  by (auto simp: init_manager_def bindE_eq_Inr mg_inv_def inv_at_def get_suite_def)

section \<open>Domains, queues, pages and processes\<close>

text \<open>Runs of a suite that are fewer than 151 apart have different ROS domains.\<close>

lemma domain_at: "domains_follow ds \<Longrightarrow> k < length ds \<Longrightarrow> ds ! k = 70 + (ds ! 0 - 70 + int k) mod 151"
proof (induction k)
  case 0
  then have "ds ! 0 \<in> {70..220}" unfolding domains_follow_def using nth_mem by blast
  then show ?case by simp
next
  case (Suc k)
  let ?a = "ds ! 0 - 70 + int k"
  have "ds ! Suc k = next_domain (70 + ?a mod 151)" using Suc by (simp add: domains_follow_def)
  also have "\<dots> = 70 + (?a mod 151 + 1) mod 151"
  proof -
    have "0 \<le> ?a mod 151" "?a mod 151 < 151" by simp_all
    then show ?thesis by (cases "?a mod 151 = 150") (simp_all add: next_domain_def)
  qed
  also have "(?a mod 151 + 1) mod 151 = (?a + 1) mod 151" by (rule mod_add_left_eq)
  finally show ?case by (simp add: algebra_simps)
qed

lemma domains_apart:
  assumes "domains_follow ds" "j < k" "k < length ds" "k < j + 151"
  shows "ds ! j \<noteq> ds ! k"
proof
  assume "ds ! j = ds ! k"
  then have "(ds ! 0 - 70 + int k) mod 151 = (ds ! 0 - 70 + int j) mod 151"
    using domain_at[OF assms(1), of j] domain_at[OF assms(1), of k] assms(2,3) by simp
  then have "151 dvd int k - int j" by (simp add: mod_eq_dvd_iff)
  then show False using assms(2,4) zdvd_imp_le[of 151 "int k - int j"] by simp
qed

text \<open>A browser that does not keep up has the newest 200 events.\<close>

lemma queue_keeps_newest: "fold queue_put evs [] = drop (length evs - 200) evs"
proof (induction evs rule: rev_induct)
  case (snoc e evs)
  have "tl (drop (length evs - 200) evs) = drop (Suc (length evs) - 200) evs" if "200 \<le> length evs"
    using that by (simp only: tl_drop drop_Suc[symmetric] Suc_diff_le)
  with snoc show ?case by (auto simp: queue_put_def)
qed simp

text \<open>Escaped text has no character that starts or ends a tag or an attribute.\<close>

lemma html_escape_safe: "c \<in> set (html_escape s) \<Longrightarrow> c \<notin> {CHR ''<'', CHR ''>'', CHR 0x22, CHR 0x27}"
  by (induction s) (auto split: if_splits)

text \<open>When a process cannot be started, or the command for one cannot be computed, those that were started before it are not stopped.\<close>

lemma finally_processes: "mg_processes (suite_finally F env i m) = mg_processes m" "mg_task (suite_finally F env i m) \<in> {Task_done, Task_failed}"
proof -
  have "mg_processes m' = mg_processes m1" if "write_suite_report F ok i m1 = Inr m'" for m' m1 ok
    using same_view_report[OF that] by (simp add: same_view_def)
  moreover have "mg_processes (publish_suite i m') = mg_processes m'" for m' using same_view_publish[of m' i] by (simp add: same_view_def)
  ultimately show "mg_processes (suite_finally F env i m) = mg_processes m"
    by (auto simp: suite_finally_def Let_def split: sum.split)
qed (auto simp: suite_finally_def Let_def split: sum.split)

lemma finally_over: "\<not> mg_running (suite_finally F env i m)"
  using finally_processes(2)[of F env i m] by (auto simp: mg_running_def)

lemma failed_spawn_leaves_processes:
  assumes "mg_task m = Task_spawning i n sc d" "get_suite i m = Some s"
    and "spawn_all (spawn_stages F (run_dir m i n (su_queue s ! n)) sc) oks = (ps, Some e)" "(name, command) \<in> set ps"
  shows "\<lparr>pr_suite = i, pr_index = n, pr_name = name, pr_command = command\<rparr> \<in> set (mg_processes (task_spawn F oks env m)) \<and>
    \<not> mg_running (task_spawn F oks env m)"
  using assms by (auto simp: task_spawn_def suite_raises_def finally_processes(1) finally_over)

section \<open>Summary\<close>

definition suite_summary :: "manager \<Rightarrow> string \<Rightarrow> suite \<Rightarrow> bool" where
  "suite_summary m i s \<longleftrightarrow>
     su_queue s = concat (replicate (nat (su_repeat s)) (su_scenario_ids s)) \<and> 1 \<le> su_repeat s \<and> su_repeat s \<le> 100 \<and>
     length (su_results s) \<le> length (su_queue s) \<and>
     (\<exists>ds. length ds = length (su_results s) \<and> set ds \<subseteq> {70..220} \<and> (\<forall>j k. j < k \<and> k < length ds \<and> k < j + 151 \<longrightarrow> ds ! j \<noteq> ds ! k) \<and>
        (\<forall>k < length ds. result_of (run_dir m i k (su_queue s ! k)) (ds ! k) (su_results s ! k))) \<and>
     (if su_finished_at s = None then su_status s \<in> {QUEUED, RUNNING} \<and> mg_running m \<and> mg_active_suite_id m = Some i \<and> stops_ok s
      else status_ok (su_status s) s)"

lemma suite_ok_summary:
  assumes inv: "inv_at (place_of (mg_task m)) m" and s: "get_suite i m = Some s"
  shows "suite_summary m i s"
proof -
  let ?pl = "place_of (mg_task m)"
  obtain ds where ok: "plan_ok s" "runs_ok m i s ds" "if place_suite ?pl = Some i then place_ok (mg_domain_counter m) ?pl s ds \<and> su_finished_at s = None
      else status_ok (su_status s) s \<and> su_finished_at s \<noteq> None"
    using inv_at_suite[OF inv s] by (auto simp: suite_ok_def)
  have 1: "length ds = length (su_results s)" "set ds \<subseteq> {70..220}" "\<forall>j k. j < k \<and> k < length ds \<and> k < j + 151 \<longrightarrow> ds ! j \<noteq> ds ! k"
      "\<forall>k < length ds. result_of (run_dir m i k (su_queue s ! k)) (ds ! k) (su_results s ! k)"
    using ok(2) domains_apart[of ds] by (auto simp: runs_ok_def result_of_def domains_follow_def)
  have "mg_active_suite_id m = Some i" if "place_suite ?pl = Some i" using inv that by (simp add: inv_at_def)
  then have 2: "if su_finished_at s = None then su_status s \<in> {QUEUED, RUNNING} \<and> mg_running m \<and> mg_active_suite_id m = Some i \<and> stops_ok s
      else status_ok (su_status s) s"
    using ok(3) by (cases "mg_task m") (auto simp: mg_running_def stops_ok_def split: if_splits)
  show ?thesis unfolding suite_summary_def using ok(1) 1 2 unfolding plan_ok_def by blast
qed

end
