(* ===== verification/MG_Properties.thy ===== *)
theory MG_Properties
  imports MG_Proofs
begin

text \<open>What the status and the results of a test suite mean, in every run of the scenario manager.\<close>

section \<open>Properties of the manager\<close>











end
