(* ===== verification/Spec2Isabelle.thy ===== *)
theory Spec2Isabelle
  imports HS_Properties HS_Audit TM_Properties NB_Properties CN_Properties PM_Properties PL_Properties MG_Properties PBFT_End_To_End
begin

text \<open>
  A verification development for the Python programs of
  \<^verbatim>\<open>distributed_algorithms_student_projects\<close>: simulators of Byzantine fault tolerant
  agreement. The repository holds independent projects. This library verifies four of them: the PBFT
  emergency-stop simulator (\<^verbatim>\<open>t1_2/marija ninkovic/ros2-pbft-emergency-stop\<close>), a ROS 2
  program in which \<open>3 f + 1\<close> replicas agree on the emergency stop of a vehicle, the HotStuff
  simulator (\<^verbatim>\<open>t1_2/anja vranjesevic/HotStuff\<close>), an asyncio program in which \<open>3 f + 1\<close> replicas order
  the transfers of a bank, the Tendermint simulator (\<^verbatim>\<open>t1_1/tamara stankovic/tendermint-tamara\<close>), in which threads with
  voting power agree on a sequence of blocks, and the NBFT simulator (\<^verbatim>\<open>t1_3/david vucenovic/nbft\<close>), in which nodes on a hash
  ring vote in groups. Paths below are relative to the project's Python packages.

  \<^bold>\<open>The PBFT program.\<close> A client (\<^verbatim>\<open>client_node.py\<close>) publishes a stop request. The replicas
  (\<^verbatim>\<open>pbft_replica.py\<close> and the mixins under \<^verbatim>\<open>replica/\<close>) run PRE-PREPARE, PREPARE and COMMIT over ROS
  topics, with a watchdog that starts a view change, and report their state as status
  messages. A monitor (\<^verbatim>\<open>pbft_monitor.py\<close>) collects statuses and publishes a decision when \<open>2 f + 1\<close>
  replicas report the same committed value; it also reports equivocation. A supervisor
  (\<^verbatim>\<open>safety_supervisor.py\<close>) drives the vehicle's stop command from requests, decisions and a
  deadline. Replicas can be configured to misbehave in fourteen ways. A test console (\<^verbatim>\<open>test_console/\<close>) makes scenarios from
  configurations, and an evaluator (\<^verbatim>\<open>scenario_evaluator.py\<close>) watches all topics and decides whether a scenario passed. A performance
  monitor (\<^verbatim>\<open>performance_monitor.py\<close>) measures every request and writes a row for it.

  \<^bold>\<open>The HotStuff program.\<close> A client (\<^verbatim>\<open>hotstuff/client.py\<close>) gives commands to all replicas. A
  replica, basic (\<^verbatim>\<open>hotstuff/replica.py\<close>) or chained (\<^verbatim>\<open>hotstuff/chained_replica.py\<close>), keeps a tree of blocks
  (\<^verbatim>\<open>tree.py\<close>); the leader of a view (\<^verbatim>\<open>pacemaker.py\<close>) proposes a block, collects signed votes into
  quorum certificates (\<^verbatim>\<open>crypto.py\<close>) and drives the phases; committed blocks are applied to the
  ledger (\<^verbatim>\<open>bank/ledger.py\<close>), whose outcome is reported to the client. Blocks and votes are identified
  by a canonical JSON encoding (\<^verbatim>\<open>types.py\<close>). Messages travel over a simulated network (\<^verbatim>\<open>network.py\<close>);
  \<^verbatim>\<open>byzantine.py\<close> has two misbehaving leaders and \<^verbatim>\<open>demos/harness.py\<close> checks runs.

  \<^bold>\<open>The Tendermint program.\<close> Every node (\<^verbatim>\<open>node.py\<close>) is a thread with an inbox; it applies the rules of the algorithm to the
  log of received messages (\<^verbatim>\<open>messages.py\<close>), with timeouts that move it to the next round. A dispatcher thread (\<^verbatim>\<open>network.py\<close>)
  delivers messages with random delay and loss. Scenarios (\<^verbatim>\<open>config.py\<close>) fix the voting powers and the crashed and Byzantine nodes;
  \<^verbatim>\<open>main.py\<close> runs one and \<^verbatim>\<open>logger.py\<close> checks agreement, validity and termination at the end.

  \<^bold>\<open>The NBFT program.\<close> A hash ring (\<^verbatim>\<open>hashring.py\<close>) elects, for every view and chain head, a primary, groups of \<open>m\<close> nodes and a
  representative of each. A node (\<^verbatim>\<open>node.py\<close>) sends its signature to its representative, who sends the group's aggregate to the
  other representatives; they count votes (\<^verbatim>\<open>voting.py\<close>, thresholds in \<^verbatim>\<open>params.py\<close>) and send a proof to the primary, who
  broadcasts it; then every node appends the block. Members replace a silent or faulty representative after a timeout, and a
  watchdog starts view changes. \<^verbatim>\<open>byzantine.py\<close> has five faults, \<^verbatim>\<open>network.py\<close>, \<^verbatim>\<open>client.py\<close> and \<^verbatim>\<open>simulator.py\<close> run and check a scenario.

  \<^bold>\<open>The theories.\<close>
  \<^item> \<^verbatim>\<open>BFT_Prelude\<close>: exceptions as values (\<open>bindE\<close>, \<open>raise_if\<close>, \<open>foldE\<close>), insertion-ordered
    dictionaries, quorum arithmetic, and the interfaces \<open>quorum_system\<close>, \<open>machine\<close>,
    \<open>ordered_machine\<close> and \<open>safe_machine\<close> (a machine that may stop) that the components implement.
  \<^item> \<^verbatim>\<open>Sha256\<close>: the hash behind \<^verbatim>\<open>compute_request_digest\<close>, executable.
  \<^item> \<^verbatim>\<open>PBFT_Types\<close>: messages, parameters, the state of a replica, start-up validation, status
    reports. The attributes of \<^verbatim>\<open>PBFTReplica\<close> are the fields of \<^typ>\<open>pbft_replica\<close> under the same names;
    \<open>params\<close> holds the ROS parameters and \<open>published\<close> the publications in order.
  \<^item> \<^verbatim>\<open>PBFT_Phases\<close> and \<^verbatim>\<open>PBFT_View_Change\<close>: one definition per method, injected faults
    included; \<open>replica_step\<close> is the dispatch of every ROS callback and timer.
  \<^item> \<^verbatim>\<open>PBFT_Abstract\<close>: the abstract specification of a correct replica as an inductive relation of
    guarded elementary steps, and its invariant.
  \<^item> \<^verbatim>\<open>PBFT_Refinement\<close>: every callback of a correct replica refines that specification and
    raises nothing; \<open>ordered_machine\<close> is interpreted on \<open>replica_step\<close>.
  \<^item> \<^verbatim>\<open>PBFT_System\<close>: what a correct replica guarantees when nobody else can publish under its id, the
    system of replicas with Byzantine ones as an inductive step relation, and agreement;
    \<open>quorum_system\<close> is interpreted on the replica ids.
  \<^item> \<^verbatim>\<open>PBFT_Demo\<close>: a concrete system and its run, for the witnesses. \<^verbatim>\<open>PBFT_Properties\<close>: C1 to C9.
  \<^item> \<^verbatim>\<open>PBFT_Monitor\<close>, \<^verbatim>\<open>PBFT_Supervisor\<close> (C10 to C12), \<^verbatim>\<open>PBFT_Client\<close>: the other nodes, each with its
    invariant and an interpretation of \<open>machine\<close> or \<open>ordered_machine\<close>.
  \<^item> \<^verbatim>\<open>PBFT_End_To_End\<close>: the monitor reading a system's statuses (C13, C14). This theory: C15 to C17 and C20.
  \<^item> \<^verbatim>\<open>CN_Value\<close>: Python's values in YAML and JSON files, with comparison, membership and conversion, and updates inside a tree
    of dictionaries. \<^verbatim>\<open>CN_Conditions\<close>, \<^verbatim>\<open>CN_Config\<close>, \<^verbatim>\<open>CN_Evaluator\<close>: conditions, configurations and catalog, and the evaluator (\<open>ev_step\<close> is
    a callback or timer). \<^verbatim>\<open>CN_Verdict\<close>: the evaluator's state as a function of the events, the specification \<open>verdict\<close> (interprets
    \<open>machine\<close> on \<open>ev_step\<close>). \<^verbatim>\<open>CN_Properties\<close>: C31.
  \<^item> \<^verbatim>\<open>PM_Monitor\<close>: the performance monitor, its files included (\<open>pm_step\<close> is a callback, the timer or the shutdown). \<^verbatim>\<open>PM_Rows\<close>: the
    invariant of a measurement and what follows for its row. \<^verbatim>\<open>PM_Proofs\<close>: the invariant of the node, the interface
    \<open>clocked_machine\<close> and its interpretation on \<open>pm_step\<close>. \<^verbatim>\<open>PM_Properties\<close>: C19.
  \<^item> \<^verbatim>\<open>PL_Launch\<close>: \<^verbatim>\<open>launch/pbft_custom_demo.launch.py\<close>, from the texts of the launch arguments to the parameters of the started
    nodes (\<open>launch_setup\<close>). \<^verbatim>\<open>PL_Properties\<close>: when these nodes come up, and C28.
  \<^item> \<^verbatim>\<open>MG_Manager\<close>: the scenario manager \<^verbatim>\<open>test_console/manager.py\<close> with its reports (\<^verbatim>\<open>reporting.py\<close>); \<open>manager_step\<close> is a call, a step of the
    task of a suite, or a line or snapshot of a process. \<^verbatim>\<open>MG_Proofs\<close>: its invariant (interprets \<open>machine\<close> on \<open>manager_step\<close>).
    \<^verbatim>\<open>MG_Properties\<close>: C33.
  \<^item> \<^verbatim>\<open>HS_Types\<close>, \<^verbatim>\<open>HS_Encoding\<close>: HotStuff's data and encoding, and that the encoding is injective up to key order.
    \<^verbatim>\<open>HS_Crypto\<close>: votes and certificates. \<^verbatim>\<open>HS_Tree\<close>: the block tree and the walks over it.
    \<^verbatim>\<open>HS_Ledger\<close>: the bank (interprets \<open>machine\<close>).
  \<^item> \<^verbatim>\<open>HS_Core\<close>: pacemaker, network, and the attributes and methods that both replicas share, as
    the record \<^typ>\<open>rep_core\<close>; \<^verbatim>\<open>HS_Replica\<close> and \<^verbatim>\<open>HS_Chained\<close>: the two replicas, one definition per
    method, with the dispatch of all events as \<open>hs_step\<close> and \<open>ch_step\<close>. \<^verbatim>\<open>HS_Client\<close>: the client.
  \<^item> \<^verbatim>\<open>HS_Log\<close>: the invariant of the log (interprets \<open>safe_machine\<close> on both replicas). \<^verbatim>\<open>HS_Votes\<close>: the votes
    a replica casts and what justifies them, certificates of a system (interprets \<open>quorum_system\<close>).
    \<^verbatim>\<open>HS_Tally\<close>: the leader's tallies, and inputs on which no handler fails.
  \<^item> \<^verbatim>\<open>HS_Demo\<close>: concrete systems for the witnesses. \<^verbatim>\<open>HS_Properties\<close>: C21 to C27, C29, C30 and C32. \<^verbatim>\<open>HS_Audit\<close>: the
    checks of the harness, C34.
  \<^item> \<^verbatim>\<open>Py_Text\<close>: decimal text, subscripts and sums of Python, shared by HotStuff and Tendermint. \<^verbatim>\<open>TM_Config\<close>, \<^verbatim>\<open>TM_Node\<close>,
    \<^verbatim>\<open>TM_Network\<close>: the Tendermint program, one definition per method; \<open>tm_step\<close> is a turn of a node, \<open>sim_step\<close> a step of one of
    the threads. \<^verbatim>\<open>TM_Agreement\<close>: an abstract specification of a correct node as an inductive relation, its invariant, the
    refinement, and agreement of a system of nodes with weighted quorums (locale \<open>weighted_members\<close>, interpreted on the
    configuration). \<^verbatim>\<open>TM_System\<close>: turns return and messages are not forged, so the simulation is such a system (interprets
    \<open>machine\<close> on \<open>sim_step\<close>), and what the summary computes. \<^verbatim>\<open>TM_Proposer\<close>: weighted round-robin. \<^verbatim>\<open>TM_Demo\<close>: concrete runs.
    \<^verbatim>\<open>TM_Properties\<close>: C35 to C38.
  \<^item> \<^verbatim>\<open>NB_Types\<close> (parameters, messages, hash ring), \<^verbatim>\<open>NB_Voting\<close>, \<^verbatim>\<open>NB_Node\<close> (\<open>nb_step\<close> is a message or timer of a node),
    \<^verbatim>\<open>NB_Sim\<close> (network, client, checks): the NBFT program. \<^verbatim>\<open>NB_Invariant\<close>: the roles that the ring assigns, the ledgers of votes,
    and the invariant of an honest node (interprets \<open>machine\<close> on \<open>nb_step\<close>). \<^verbatim>\<open>NB_Proofs\<close>: which proofs are accepted, and a run of the
    default configuration. \<^verbatim>\<open>NB_System\<close>: nodes, network, client and rounds together (\<open>nb_sim_step\<close> is a step of one task).
    \<^verbatim>\<open>NB_Backing\<close>: where replies come from (interprets \<open>machine\<close> on \<open>nb_sim_step\<close>). \<^verbatim>\<open>NB_Properties\<close>: C18, C39 and C40.

  \<^bold>\<open>What is shown.\<close> C1 to C4 are about all runs of a system with at most \<open>f\<close> replicas that publish
  anything under their own ids: agreement per view and sequence number, the correct replicas
  behind a commit, no equivocation, finality. C5 to C7 are about one correct replica under
  arbitrary input: no exception, certificates behind the stop flag, refinement. C8 and C9 are
  about view change messages. C10 to C12: the supervisor's latch, the quorum a release needs, the
  deadline. C13 to C17 connect the nodes: decisions are quorums of real reports, are accepted by
  supervisor and client, come from commits of correct replicas, and never contradict each other.
  C20 records a defect: agreement holds per view, but a new primary may
  assign a used sequence number to another request. C31 is about the tests of the project itself: the verdict of the scenario evaluator
  is exactly the one that the messages it received call for. C19 types the rows of the performance monitor and shows that every
  observed request gets its row. C28 carries agreement over to the launch file: a demonstration whose faults the file reports to be
  within the bound starts a system to which agreement applies. C33 says what status and results of a suite of tests mean, whatever
  browsers, processes and disk do.

  For HotStuff, C21 and C22 are about systems with at most \<open>f\<close> faulty replicas: chained certificates of one
  view agree, and commits of basic replicas are backed by votes of correct ones. C23 is the invariant of one replica's
  log under arbitrary input, C24 the bounds of the ledger, C29 connects client, log and ledger. C25 and C32
  are about termination, C26 and C27 about certificates and encoding, C34 about
  the harness. C30 records a defect, and so do \<open>same_hash_different_outcome\<close> and \<open>malformed_messages_crash\<close>; the most serious is C30: basic replicas vote
  twice in a view, so one faulty leader breaks agreement.

  For Tendermint, C35 is agreement in every run of the simulation, C36 a run that violates it when the total voting power
  exceeds \<open>3 f + 1\<close>, C37 the refinement of the abstract specification by a node, C38 the fairness of the order of proposers.

  For NBFT, C39 shows that what a representative sends to the primary suffices: the primary and all nodes of the view accept the proof.
  C40 records a defect: nodes do not check who signed a proof, so a faulty primary alone breaks agreement. C18 is about whole
  simulations with faults: no task raises, and the client's success means that a quorum of nodes hold the block. The lemmas of \<^verbatim>\<open>NB_Sim\<close>
  show that no message is lost by the network's counters, that the client reports success only on a quorum of replies, and
  that the final check is comparability of the chains.

  \<^bold>\<open>Modelling choices.\<close> A ROS topic is the set of all publications so far; any publication may be
  delivered at any time, any number of times, or never (this covers loss, delay, duplication and
  reordering; \<^verbatim>\<open>qos.py\<close> only configures the transport). A timer is armed or not, and an armed timer may fire
  at any time, so durations do not occur. Clock readings are arguments. All definitions are
  total; no fuel is used, loops run over finite lists. Faulty replicas cannot publish under the id of a
  correct one: this is the network assumption of PBFT, and none of the injected faults breaks it.

  In the console and the evaluator YAML and JSON values are a datatype, floats are real numbers, and the text of a float is an
  argument; \<^verbatim>\<open>round\<close> rounds half to even. The clock readings of a callback are arguments.

  In HotStuff the hash function and Ed25519 are fields of the parameter \<^typ>\<open>hs_crypto\<close>, with unforgeability as the
  named hypothesis \<open>genuine\<close>; \<open>python_crypto\<close> puts SHA-256 for the hash. An operation returns \<open>Inr\<close>, or \<open>Inl\<close> with the Python
  exception or \<open>Diverges\<close>. The walks along parent links may run forever on a cyclic tree; they take \<open>length t + 2\<close> steps of
  fuel, and C25 shows that running out of it means that the code's loop does not end. A replica is driven by
  events (start, message, submission, timer, stop) in any order; its sends and replies are collected in \<open>out\<close>.

  In Tendermint the readings of clocks and random numbers and the iteration order of a Python set are arguments
  (\<^typ>\<open>tm_env\<close>, \<^typ>\<open>tm_readings\<close>), and time is a real number. The rules of a turn run at most 1001 times, as in the code, where a
  guard ends the loop. The threads interleave at the calls of \<^verbatim>\<open>send_to\<close> and at the inboxes, which is all they share.

  In NBFT a pending timer may fire at any time, random numbers and Python's \<^verbatim>\<open>hash\<close> of strings are arguments, delays are real
  numbers. An exception in a timer task ends that task only. The client's wait may time out at any time, even when its quorum is complete. C18, C39 and C40 suppose that the groups cover all nodes but the primary
  (\<open>ungrouped_count\<close> is 0), as in every scenario of the repository.

  \<^bold>\<open>Not modelled.\<close> Log lines and the free-text detail of a status; the other launch files, the web server
  of the console and the markup of its reports, the script that averages measurements; the console log, demo scripts and GUI recorder of HotStuff and the asyncio tasks of its harness; the command lines, charts and
  printed text of Tendermint and NBFT. Projects in other languages are outside this library.
\<close>


section \<open>Decisions across the components\<close>

text \<open>C15. What the monitor publishes, the supervisor and the client accept: a decision of a monitor run
  with parameters \<open>n\<close> and \<open>f\<close> passes the validation of a supervisor with the same parameters, and of a
  waiting client, whenever it is about their request (same id, digest and value, a view not older than the
  request's, a later stamp) and has a sequence number.\<close>

theorem monitor_decision_accepted:
  assumes "init_monitor n f = Inr s0" "foldE monitor_step es s0 = Inr s" "d \<in> set (decisions s)"
    and "pd_seq d \<noteq> 0"
  shows "(sup_replica_count v = n \<and> sup_max_faulty v = f \<and> pd_digest d = ar_digest r \<and>
      pd_stop d = ar_stop r \<and> ar_initial_view r \<le> pd_view d \<longrightarrow> validate_decision d r v = None) \<and>
    (\<not> decision_received c \<and> request_sent c \<and> pd_request_id d = cl_request_id c \<and>
      pd_digest d = cl_request_digest c \<and> pd_stop d = cl_emergency_stop c \<and>
      request_sent_time c = Some t \<and> t \<le> pd_stamp d \<longrightarrow>
      decision_received (client_decision_callback d c) \<and> shutdown_timer (client_decision_callback d c))"
proof (rule conjI)
  have q: "quorum_decision (delivered_statuses es) n f d" and f: "0 \<le> f"
    using monitor_decision_sound[OF assms(1,2)] assms(3) init_monitor_config[OF assms(1)] by auto
  note counts = quorum_decision_counts[OF q]
  show "sup_replica_count v = n \<and> sup_max_faulty v = f \<and> pd_digest d = ar_digest r \<and>
      pd_stop d = ar_stop r \<and> ar_initial_view r \<le> pd_view d \<longrightarrow> validate_decision d r v = None"
    using q counts assms(4)
    by (auto simp: validate_decision_def quorum_decision_def required_confirmations_def Let_def)
  show "\<not> decision_received c \<and> request_sent c \<and> pd_request_id d = cl_request_id c \<and>
      pd_digest d = cl_request_digest c \<and> pd_stop d = cl_emergency_stop c \<and>
      request_sent_time c = Some t \<and> t \<le> pd_stamp d \<longrightarrow>
      decision_received (client_decision_callback d c) \<and> shutdown_timer (client_decision_callback d c)"
    using q counts assms(4) f
    by (auto simp: client_decision_callback_def client_accepts_def quorum_decision_def schedule_shutdown_def)
qed

theorem monitor_decision_accepted_witness:
  "\<exists>s d. foldE monitor_step demo_events demo_monitor = Inr s \<and> decisions s = [d] \<and>
    (\<exists>v r. supervisor_step (Sup_request 1 (demo_request True)) demo_supervisor = Inr v \<and>
       active v = Some r \<and> validate_decision d r v = None)"
proof -
  obtain s d where s: "foldE monitor_step demo_events demo_monitor = Inr s" "decisions s = [d]"
    "decision_key_of d = (0, 1, ''r'', compute_request_digest ''r'' True, True)"
    using demo_monitor_run by blast
  have d: "pd_view d = 0" "pd_seq d = 1" "pd_digest d = compute_request_digest ''r'' True" "pd_stop d"
    using s(3) by (simp_all add: decision_key_of_def)
  have "\<exists>v r. supervisor_step (Sup_request 1 (demo_request True)) demo_supervisor = Inr v \<and>
      active v = Some r \<and> sup_replica_count v = 4 \<and> sup_max_faulty v = 1 \<and>
      ar_digest r = compute_request_digest ''r'' True \<and> ar_stop r \<and> ar_initial_view r = 0"
    by (simp add: demo_sup_defs)
  then obtain v r where v: "supervisor_step (Sup_request 1 (demo_request True)) demo_supervisor = Inr v"
      "active v = Some r" "sup_replica_count v = 4" "sup_max_faulty v = 1"
      "ar_digest r = compute_request_digest ''r'' True" "ar_stop r" "ar_initial_view r = 0"
    by blast
  have "validate_decision d r v = None"
    using monitor_decision_accepted[OF demo_monitor_init s(1), of d v r] s(2) v d by simp
  with s v show ?thesis by blast
qed

text \<open>C16. From replicas to the published decision: when the monitor of a system with at most \<open>f\<close> faulty
  replicas reads statuses from the network, some of them forged by the faulty replicas, every decision it
  publishes was committed, with that request, digest and value, by at least \<open>f + 1\<close> correct replicas.\<close>

theorem decision_committed_by_correct:
  assumes "start_system f H ps c0" "(system_step H)\<^sup>*\<^sup>* c0 c"
    and "init_monitor (3 * int f + 1) (int f) = Inr m0" "foldE monitor_step es m0 = Inr mon"
    and "reads_network es c" "d \<in> set (decisions mon)"
  shows "\<exists>Q \<subseteq> H. f + 1 \<le> card Q \<and> (\<forall>q \<in> Q. (pd_view d, pd_seq d) \<in> committed_instances (replica_at c q) \<and>
     instances (replica_at c q) (pd_view d, pd_seq d) = Some (decision_instance d))"
  using decision_backed[OF system_inv_reach[OF assms(2) system_inv_start[OF assms(1)]] assms(3,4,6,5)] .

theorem decision_committed_by_correct_witness:
  "\<exists>c mon d Q. (system_step {0, 1, 2})\<^sup>*\<^sup>* demo_system c \<and>
    foldE monitor_step demo_events demo_monitor = Inr mon \<and> decisions mon = [d] \<and> Q \<subseteq> {0, 1, 2} \<and> 1 + 1 \<le> card Q \<and>
    (\<forall>q \<in> Q. (pd_view d, pd_seq d) \<in> committed_instances (replica_at c q) \<and>
       instances (replica_at c q) (pd_view d, pd_seq d) = Some (decision_instance d))"
proof -
  obtain c where c: "(system_step {0, 1, 2})\<^sup>*\<^sup>* demo_system c"
    "{Pub_status (demo_status 1), Pub_status (demo_status 2), Pub_status (demo_status 3)} \<subseteq> network c"
    by (rule demo_run)
  obtain mon d where mon: "foldE monitor_step demo_events demo_monitor = Inr mon" "decisions mon = [d]"
    using demo_monitor_run by blast
  have init: "init_monitor (3 * int 1 + 1) (int 1) = Inr demo_monitor" using demo_monitor_init by simp
  have net: "reads_network demo_events c"
    using c(2) by (auto simp: demo_events_def reads_network_def)
  have "d \<in> set (decisions mon)" using mon(2) by simp
  from decision_committed_by_correct[OF demo_system_start c(1) init mon(1) net this]
  obtain Q where Q: "Q \<subseteq> {0, 1, 2}" "1 + 1 \<le> card Q"
    "\<forall>q \<in> Q. (pd_view d, pd_seq d) \<in> committed_instances (replica_at c q) \<and>
       instances (replica_at c q) (pd_view d, pd_seq d) = Some (decision_instance d)"
    by blast
  show ?thesis
    by (rule exI[of _ c], rule exI[of _ mon], rule exI[of _ d], rule exI[of _ Q])
      (intro conjI c(1) mon Q)
qed

text \<open>C17. The stream of decisions never contradicts itself: two decisions of the monitor for the same view
  and sequence number are about the same request, digest and value, although faulty replicas may send it
  forged statuses.\<close>

theorem decisions_agree:
  assumes "start_system f H ps c0" "(system_step H)\<^sup>*\<^sup>* c0 c"
    and "init_monitor (3 * int f + 1) (int f) = Inr m0" "foldE monitor_step es m0 = Inr mon"
    and "reads_network es c"
    and "d \<in> set (decisions mon)" "d' \<in> set (decisions mon)" "pd_view d = pd_view d'" "pd_seq d = pd_seq d'"
  shows "d = d'"
proof -
  have inv: "system_inv f H c" using system_inv_reach[OF assms(2) system_inv_start[OF assms(1)]] .
  have "\<exists>q \<in> H. (pd_view x, pd_seq x) \<in> prepared_instances (replica_at c q) \<and>
      instances (replica_at c q) (pd_view x, pd_seq x) = Some (decision_instance x)"
    if x: "x \<in> set (decisions mon)" for x
  proof -
    obtain Q where Q: "Q \<subseteq> H" "f + 1 \<le> card Q" "\<forall>q \<in> Q. (pd_view x, pd_seq x) \<in> committed_instances (replica_at c q) \<and>
      instances (replica_at c q) (pd_view x, pd_seq x) = Some (decision_instance x)"
      using decision_backed[OF inv assms(3,4) x assms(5)] by blast
    then obtain q where "q \<in> Q" by (metis Suc_eq_plus1 card.empty ex_in_conv not_less_eq_eq le0)
    moreover from this Q system_replica(3)[OF inv, of q]
    have "(pd_view x, pd_seq x) \<in> prepared_instances (replica_at c q)" by (auto simp: inv_votes_def)
    ultimately show ?thesis using Q by blast
  qed
  note x = this
  obtain q where q: "q \<in> H" "(pd_view d, pd_seq d) \<in> prepared_instances (replica_at c q)"
    "instances (replica_at c q) (pd_view d, pd_seq d) = Some (decision_instance d)"
    using x[OF assms(6)] by blast
  obtain q' where q': "q' \<in> H" "(pd_view d, pd_seq d) \<in> prepared_instances (replica_at c q')"
    "instances (replica_at c q') (pd_view d, pd_seq d) = Some (decision_instance d')"
    using x[OF assms(7)] assms(8,9) by auto
  from prepared_agreement[OF inv q(1) q'(1) q(2) q'(2)] q(3) q'(3)
  have "decision_instance d = decision_instance d'" by simp
  then have "decision_key_of d = decision_key_of d'"
    using assms(8,9) by (simp add: decision_instance_def decision_key_of_def)
  moreover have "distinct (map decision_key_of (decisions mon))"
    using monitor_decision_sound[OF assms(3,4)] by blast
  ultimately show ?thesis
    using assms(6,7) by (auto simp: distinct_map dest: inj_onD)
qed

theorem decisions_agree_witness:
  "\<exists>c mon d. (system_step {0, 1, 2})\<^sup>*\<^sup>* demo_system c \<and>
    foldE monitor_step demo_events demo_monitor = Inr mon \<and> d \<in> set (decisions mon) \<and>
    (\<forall>d' \<in> set (decisions mon). pd_view d = pd_view d' \<and> pd_seq d = pd_seq d' \<longrightarrow> d = d')"
proof -
  obtain c where c: "(system_step {0, 1, 2})\<^sup>*\<^sup>* demo_system c"
    "{Pub_status (demo_status 1), Pub_status (demo_status 2), Pub_status (demo_status 3)} \<subseteq> network c"
    by (rule demo_run)
  obtain mon d where mon: "foldE monitor_step demo_events demo_monitor = Inr mon" "decisions mon = [d]"
    using demo_monitor_run by blast
  have init: "init_monitor (3 * int 1 + 1) (int 1) = Inr demo_monitor" using demo_monitor_init by simp
  have net: "reads_network demo_events c"
    using c(2) by (auto simp: demo_events_def reads_network_def)
  have "\<forall>d' \<in> set (decisions mon). pd_view d = pd_view d' \<and> pd_seq d = pd_seq d' \<longrightarrow> d = d'"
    using decisions_agree[OF demo_system_start c(1) init mon(1) net] mon(2) by simp
  with c(1) mon show ?thesis by (intro exI[of _ c] exI[of _ mon] exI[of _ d]) simp
qed

text \<open>The system only ever decides to stop: every decision the monitor of such a system publishes has
  stop value true and the digest of its request, so a supervisor never sees a valid release decision.\<close>

theorem decisions_are_stops:
  assumes "start_system f H ps c0" "(system_step H)\<^sup>*\<^sup>* c0 c"
    and "init_monitor (3 * int f + 1) (int f) = Inr m0" "foldE monitor_step es m0 = Inr mon"
    and "reads_network es c" "d \<in> set (decisions mon)"
  shows "pd_stop d \<and> pd_seq d \<noteq> 0 \<and> pd_digest d = compute_request_digest (pd_request_id d) True"
proof -
  have inv: "system_inv f H c" using system_inv_reach[OF assms(2) system_inv_start[OF assms(1)]] .
  obtain Q where Q: "Q \<subseteq> H" "f + 1 \<le> card Q" "\<forall>q \<in> Q.
      instances (replica_at c q) (pd_view d, pd_seq d) = Some (decision_instance d)"
    using decision_backed[OF inv assms(3,4,6,5)] by blast
  then obtain q where q: "q \<in> Q" by fastforce
  with Q(1) inv have "inv_instances (replica_at c q)" by (auto simp: system_inv_def auth_inv_def rinv_def)
  moreover have "instances (replica_at c q) (pd_view d, pd_seq d) = Some (decision_instance d)"
    using Q(3) q by blast
  ultimately have "valid_instance (decision_instance d) \<and> snd (pd_view d, pd_seq d) \<noteq> 0"
    unfolding inv_instances_def by blast
  then show ?thesis by (simp add: valid_instance_def decision_instance_def)
qed

theorem decisions_are_stops_witness:
  "\<exists>c mon d. (system_step {0, 1, 2})\<^sup>*\<^sup>* demo_system c \<and>
    foldE monitor_step demo_events demo_monitor = Inr mon \<and> decisions mon = [d] \<and> pd_stop d"
proof -
  obtain c where c: "(system_step {0, 1, 2})\<^sup>*\<^sup>* demo_system c"
    "{Pub_status (demo_status 1), Pub_status (demo_status 2), Pub_status (demo_status 3)} \<subseteq> network c"
    by (rule demo_run)
  obtain mon d where mon: "foldE monitor_step demo_events demo_monitor = Inr mon" "decisions mon = [d]"
    using demo_monitor_run by blast
  have init: "init_monitor (3 * int 1 + 1) (int 1) = Inr demo_monitor" using demo_monitor_init by simp
  have net: "reads_network demo_events c"
    using c(2) by (auto simp: demo_events_def reads_network_def)
  have "d \<in> set (decisions mon)" using mon(2) by simp
  from decisions_are_stops[OF demo_system_start c(1) init mon(1) net this] c(1) mon show ?thesis by blast
qed

section \<open>The client\<close>

text \<open>A client publishes at most one request, and the components accept it: in every run the list of
  published requests has at most one element; it passes the supervisor's validation when it names a replica
  as its recipient, and a replica in the request's view with that primary caches it when its value is stop
  and no other request is cached under its id.\<close>

theorem client_request_wellformed:
  assumes "init_client fresh p v stop cfg pd dt = Inr s0" "foldE client_step es s0 = Inr s"
    and "m \<in> set (cl_published s)"
  shows "cl_published s = [m] \<and>
    (0 \<le> p \<and> p < sup_replica_count sv \<longrightarrow> validate_request m sv = None) \<and>
    (stop \<and> primary_id r = p \<and> current_view r = v \<and>
       map_of (cached_client_requests r) (m_request_id m) = None \<longrightarrow>
     map_of (cached_client_requests (fst (validate_and_cache_client_request m r))) (m_request_id m) =
       Some (message_instance m))"
proof -
  have inv: "client_inv s" using client_init_inv[OF assms(1)] assms(2) by (rule client.run_inv)
  have "cl_primary_id s0 = p \<and> cl_emergency_stop s0 = stop \<and> cl_current_view s0 = v"
    using assms(1) by (auto simp: init_client_def Let_def)
  with client_run_config[OF assms(2)]
  have cfg: "cl_primary_id s = p" "cl_emergency_stop s = stop" "cl_current_view s = v" by auto
  have m: "cl_published s = [m]" "m = client_request s"
    using inv assms(3) by (auto simp: client_inv_def split: if_splits)
  have id: "cl_request_id s \<noteq> ''''" "cl_request_digest s = compute_request_digest (cl_request_id s) stop"
    using inv cfg by (simp_all add: client_inv_def)
  show ?thesis
    using m id cfg
    by (auto simp: validate_request_def client_request_def validate_and_cache_client_request_def
        message_instance_def Let_def)
qed

theorem client_request_wellformed_witness:
  "\<exists>s0 s m. init_client ''00000000'' 0 0 True '''' 1 15 = Inr s0 \<and>
    foldE client_step [Cl_publish 7, Cl_publish 8] s0 = Inr s \<and> cl_published s = [m] \<and>
    validate_request m demo_supervisor = None"
proof -
  have "\<exists>s0 s m. init_client ''00000000'' 0 0 True '''' 1 15 = Inr s0 \<and>
      foldE client_step [Cl_publish 7, Cl_publish 8] s0 = Inr s \<and> m \<in> set (cl_published s)"
    by (simp add: init_client_def client_defs Let_def)
  then obtain s0 s m where s: "init_client ''00000000'' 0 0 True '''' 1 15 = Inr s0"
    "foldE client_step [Cl_publish 7, Cl_publish 8] s0 = Inr s" "m \<in> set (cl_published s)" by blast
  have "sup_replica_count demo_supervisor = 4" by (simp add: demo_sup_defs)
  with client_request_wellformed[OF s, of demo_supervisor] s show ?thesis by auto
qed

section \<open>Sequence numbers are reused across views\<close>


end
